(* ===== verification/Ntk_Prelude.thy ===== *)
theory Ntk_Prelude
  imports Main "HOL-Library.Word" "HOL-Library.Product_Lexorder"
begin

section \<open>Prelude: Rust's results, vectors and machine integers\<close>

text \<open>
  What every component theory shares: the names of the machine integer types, the outcome type of
  fallible Rust code (a value, an error value, or a panic), the \<open>Vec\<close>/\<open>Iterator\<close> methods the
  sources call (\<open>position\<close>, \<open>remove\<close>, \<open>min_by_key\<close>, \<open>find\<close>), loops that stop at the first error,
  and the collections of rewrite rules the component proofs are run with.
  A \<open>usize\<close> is a \<open>nat\<close> (all uses are lengths and level indices); an \<open>f64\<close> is a \<open>real\<close>.
\<close>

named_theorems res_simps \<open>how outcomes compose\<close>
named_theorems wf_intros \<open>well-formedness is established\<close>
named_theorems wf_dests \<open>what well-formedness gives\<close>

type_synonym u8 = "8 word"
type_synonym u32 = "32 word"
type_synonym u64 = "64 word"
type_synonym usize = nat

subsection \<open>Outcomes\<close>

text \<open>
  \<open>Ok\<close> and \<open>Err\<close> are Rust's \<open>Result\<close>; \<open>Panic\<close> is an \<open>expect\<close>/\<open>assert!\<close> that fails or an index
  out of range, which unwinds the task whatever the function's return type is.
\<close>

datatype ('a, 'e) res = is_Ok: Ok (the_ok: 'a) | is_Err: Err (the_err: 'e) | is_Panic: Panic

fun res_bind :: "('a, 'e) res \<Rightarrow> ('a \<Rightarrow> ('b, 'e) res) \<Rightarrow> ('b, 'e) res" where
  "res_bind (Ok x) f = f x"
| "res_bind (Err e) f = Err e"
| "res_bind Panic f = Panic"

fun map_err :: "('e \<Rightarrow> 'f) \<Rightarrow> ('a, 'e) res \<Rightarrow> ('a, 'f) res" where
  "map_err g (Ok x) = Ok x"
| "map_err g (Err e) = Err (g e)"
| "map_err g Panic = Panic"

fun ok_or :: "'a option \<Rightarrow> 'e \<Rightarrow> ('a, 'e) res" where
  "ok_or (Some x) e = Ok x"
| "ok_or None e = Err e"

fun expect :: "'a option \<Rightarrow> ('a, 'e) res" where
  "expect (Some x) = Ok x"
| "expect None = Panic"

lemma res_bind_eq_Ok [res_simps]:
  "res_bind m f = Ok y \<longleftrightarrow> (\<exists>x. m = Ok x \<and> f x = Ok y)"
  by (cases m) auto

lemma res_bind_eq_Err [res_simps]:
  "res_bind m f = Err e \<longleftrightarrow> m = Err e \<or> (\<exists>x. m = Ok x \<and> f x = Err e)"
  by (cases m) auto

lemma res_bind_eq_Panic [res_simps]:
  "res_bind m f = Panic \<longleftrightarrow> m = Panic \<or> (\<exists>x. m = Ok x \<and> f x = Panic)"
  by (cases m) auto

lemma map_err_eq_Ok [res_simps]: "map_err g m = Ok x \<longleftrightarrow> m = Ok x"
  by (cases m) auto

lemma map_err_eq_Err [res_simps]: "map_err g m = Err e \<longleftrightarrow> (\<exists>e'. m = Err e' \<and> e = g e')"
  by (cases m) auto

lemma map_err_eq_Panic [res_simps]: "map_err g m = Panic \<longleftrightarrow> m = Panic"
  by (cases m) auto

lemma ok_or_eq_Ok [res_simps]: "ok_or m e = Ok x \<longleftrightarrow> m = Some x"
  by (cases m) auto

lemma ok_or_eq_Err [res_simps]: "ok_or m e = Err e' \<longleftrightarrow> m = None \<and> e' = e"
  by (cases m) auto

lemma ok_or_not_Panic [simp]: "ok_or m e \<noteq> Panic"
  by (cases m) auto

lemma expect_eq_Ok [res_simps]: "expect m = Ok x \<longleftrightarrow> m = Some x"
  by (cases m) auto

lemma expect_eq_Panic [res_simps]: "expect m = Panic \<longleftrightarrow> m = None"
  by (cases m) auto

lemma expect_not_Err [simp]: "expect m \<noteq> Err e"
  by (cases m) auto

text \<open>Indexing \<open>xs[i]\<close>: a panic out of range.\<close>

definition index :: "'a list \<Rightarrow> usize \<Rightarrow> ('a, 'e) res" where
  "index xs i = (if i < length xs then Ok (xs ! i) else Panic)"

lemma index_Ok [simp]: "i < length xs \<Longrightarrow> index xs i = Ok (xs ! i)"
  by (simp add: index_def)

lemma index_eq_Ok [res_simps]: "index xs i = Ok x \<longleftrightarrow> i < length xs \<and> xs ! i = x"
  by (auto simp: index_def)

lemma index_eq_Panic [res_simps]: "index xs i = Panic \<longleftrightarrow> length xs \<le> i"
  by (auto simp: index_def)

lemma index_not_Err [simp]: "index xs i \<noteq> Err e"
  by (simp add: index_def)

subsection \<open>Loops that stop at the first failure\<close>

text \<open>\<open>for x in xs { acc = f(acc, x)?; }\<close> and \<open>for x in xs { out.push(f(x)?); }\<close>.\<close>

fun fold_res :: "('s \<Rightarrow> 'a \<Rightarrow> ('s, 'e) res) \<Rightarrow> 's \<Rightarrow> 'a list \<Rightarrow> ('s, 'e) res" where
  "fold_res f s [] = Ok s"
| "fold_res f s (x # xs) = res_bind (f s x) (\<lambda>s'. fold_res f s' xs)"

fun try_map :: "('a \<Rightarrow> ('b, 'e) res) \<Rightarrow> 'a list \<Rightarrow> ('b list, 'e) res" where
  "try_map f [] = Ok []"
| "try_map f (x # xs) = res_bind (f x) (\<lambda>y. res_bind (try_map f xs) (\<lambda>ys. Ok (y # ys)))"

lemma fold_res_invariant:
  assumes "fold_res f s xs = Ok s'" and "I s"
    and "\<And>s x s'. \<lbrakk>x \<in> set xs; I s; f s x = Ok s'\<rbrakk> \<Longrightarrow> I s'"
  shows "I s'"
  using assms by (induction xs arbitrary: s) (auto simp: res_simps)

lemma fold_res_total:
  assumes "I s" and "\<And>s x. \<lbrakk>x \<in> set xs; I s\<rbrakk> \<Longrightarrow> \<exists>s'. f s x = Ok s' \<and> I s'"
  shows "\<exists>s'. fold_res f s xs = Ok s' \<and> I s'"
  using assms
proof (induction xs arbitrary: s)
  case Nil
  then show ?case by simp
next
  case (Cons x xs)
  from Cons.prems(2) [of x s] Cons.prems(1) obtain s1 where "f s x = Ok s1" "I s1" by auto
  then show ?case using Cons.IH [of s1] Cons.prems(2) by auto
qed

lemma try_map_Ok_conv:
  "try_map f xs = Ok ys \<longleftrightarrow>
     length ys = length xs \<and> (\<forall>i < length xs. f (xs ! i) = Ok (ys ! i))"
proof (induction xs arbitrary: ys)
  case Nil
  then show ?case by auto
next
  case (Cons x xs)
  show ?case
    by (cases ys) (auto simp: res_simps Cons.IH nth_Cons split: nat.splits)
qed

lemma try_map_all_Ok: "(\<And>x. x \<in> set xs \<Longrightarrow> f x = Ok (g x)) \<Longrightarrow> try_map f xs = Ok (map g xs)"
  by (induction xs) auto

lemma try_map_total:
  "(\<And>x. x \<in> set xs \<Longrightarrow> \<exists>y. f x = Ok y) \<Longrightarrow> \<exists>ys. try_map f xs = Ok ys"
  by (induction xs) fastforce+

lemma try_map_set: "try_map f xs = Ok ys \<Longrightarrow> y \<in> set ys \<Longrightarrow> \<exists>x \<in> set xs. f x = Ok y"
  by (induction xs arbitrary: ys) (auto simp: res_simps)

lemma try_map_length: "try_map f xs = Ok ys \<Longrightarrow> length ys = length xs"
  by (simp add: try_map_Ok_conv)

subsection \<open>Methods that mutate and may fail\<close>

text \<open>
  A \<open>&mut self\<close> method that returns a \<open>Result\<close>: whatever the outcome is, the state it left behind is
  part of it, so a failure in the middle keeps the mutations made before it.
\<close>

type_synonym ('s, 'a, 'e) st = "'s \<Rightarrow> ('a, 'e) res \<times> 's"

definition st_bind :: "('s, 'a, 'e) st \<Rightarrow> ('a \<Rightarrow> ('s, 'b, 'e) st) \<Rightarrow> ('s, 'b, 'e) st" where
  "st_bind m f s =
     (case m s of (Ok x, s') \<Rightarrow> f x s' | (Err e, s') \<Rightarrow> (Err e, s') | (Panic, s') \<Rightarrow> (Panic, s'))"

definition st_read :: "('s \<Rightarrow> ('a, 'e) res) \<Rightarrow> ('s, 'a, 'e) st" where
  "st_read f s = (f s, s)"

definition st_put :: "('s \<Rightarrow> 's) \<Rightarrow> ('s, unit, 'e) st" where
  "st_put f s = (Ok (), f s)"

text \<open>\<open>for x in xs { out.extend(f(x)?); }\<close>\<close>

fun st_concat :: "('x \<Rightarrow> ('s, 'a list, 'e) st) \<Rightarrow> 'x list \<Rightarrow> ('s, 'a list, 'e) st" where
  "st_concat f [] s = (Ok [], s)"
| "st_concat f (x # xs) s =
     st_bind (f x) (\<lambda>ys. st_bind (st_concat f xs) (\<lambda>zs s'. (Ok (ys @ zs), s'))) s"

lemma st_bind_Ok_iff [res_simps]:
  "st_bind m f s = (Ok y, s'') \<longleftrightarrow> (\<exists>x s'. m s = (Ok x, s') \<and> f x s' = (Ok y, s''))"
  by (auto simp: st_bind_def split: prod.splits res.splits)

lemma st_bind_run: "m s = (Ok x, s') \<Longrightarrow> st_bind m f s = f x s'"
  by (simp add: st_bind_def)

lemma st_concat_total:
  assumes "I s" and "\<And>x s. x \<in> set xs \<Longrightarrow> I s \<Longrightarrow> \<exists>ys s'. f x s = (Ok ys, s') \<and> I s'"
  shows "\<exists>ys s'. st_concat f xs s = (Ok ys, s') \<and> I s'"
  using assms
proof (induction xs arbitrary: s)
  case Nil
  then show ?case by simp
next
  case (Cons x xs)
  obtain ys s1 where 1: "f x s = (Ok ys, s1)" "I s1"
    using Cons.prems(2) [of x s] Cons.prems(1) by auto
  moreover obtain zs s2 where "st_concat f xs s1 = (Ok zs, s2)" "I s2"
    using Cons.IH [OF 1(2)] Cons.prems(2) by auto
  ultimately show ?case by (simp add: st_bind_def)
qed

subsection \<open>Vectors and iterators\<close>

text \<open>\<open>iter().position(P)\<close>: the index of the first element that satisfies \<open>P\<close>.\<close>

fun position :: "('a \<Rightarrow> bool) \<Rightarrow> 'a list \<Rightarrow> usize option" where
  "position P [] = None"
| "position P (x # xs) = (if P x then Some 0 else map_option Suc (position P xs))"

lemma position_None [simp]: "position P xs = None \<longleftrightarrow> (\<forall>x \<in> set xs. \<not> P x)"
  by (induction xs) auto

lemma position_SomeD:
  "position P xs = Some i \<Longrightarrow> i < length xs \<and> P (xs ! i) \<and> (\<forall>j < i. \<not> P (xs ! j))"
proof (induction xs arbitrary: i)
  case Nil
  then show ?case by simp
next
  case (Cons x xs)
  then show ?case by (auto simp: nth_Cons less_Suc_eq_0_disj split: if_splits nat.splits)
qed

text \<open>\<open>Vec::remove(i)\<close> for \<open>i\<close> in range.\<close>

definition remove_nth :: "usize \<Rightarrow> 'a list \<Rightarrow> 'a list" where
  "remove_nth i xs = take i xs @ drop (Suc i) xs"

lemma set_remove_nth: "set (remove_nth i xs) \<subseteq> set xs"
  by (auto simp: remove_nth_def dest: in_set_takeD in_set_dropD)

lemma length_remove_nth: "i < length xs \<Longrightarrow> length (remove_nth i xs) = length xs - 1"
  by (simp add: remove_nth_def)

lemma set_remove_nth_insert:
  "i < length xs \<Longrightarrow> insert (xs ! i) (set (remove_nth i xs)) = set xs"
proof -
  assume "i < length xs"
  then have "set xs = set (take i xs @ xs ! i # drop (Suc i) xs)"
    by (simp flip: id_take_nth_drop)
  then show ?thesis by (simp add: remove_nth_def)
qed

text \<open>\<open>min_by_key\<close>: the first of the least elements.\<close>

fun min_by_key :: "('a \<Rightarrow> 'k::linorder) \<Rightarrow> 'a list \<Rightarrow> 'a option" where
  "min_by_key k [] = None"
| "min_by_key k (x # xs) =
     (case min_by_key k xs of
        None \<Rightarrow> Some x
      | Some y \<Rightarrow> if k y < k x then Some y else Some x)"

lemma min_by_key_None [simp]: "min_by_key k xs = None \<longleftrightarrow> xs = []"
  by (cases xs) (auto split: option.splits)

lemma min_by_key_SomeD:
  "min_by_key k xs = Some x \<Longrightarrow> x \<in> set xs \<and> (\<forall>y \<in> set xs. k x \<le> k y)"
  by (induction xs arbitrary: x) (fastforce split: option.splits if_splits)+

lemma min_by_key_total: "xs \<noteq> [] \<Longrightarrow> \<exists>x. min_by_key k xs = Some x"
  by (metis min_by_key_None not_None_eq)

text \<open>The least element of those that satisfy a predicate, the first among equals.\<close>

lemma min_by_key_filter:
  "min_by_key k (filter P xs) = Some x \<longleftrightarrow>
     (\<exists>pre post. xs = pre @ x # post \<and> P x \<and> (\<forall>q \<in> set pre. P q \<longrightarrow> k x < k q) \<and> (\<forall>q \<in> set post. P q \<longrightarrow> k x \<le> k q))"
proof (induction xs arbitrary: x)
  case (Cons a xs)
  let ?R = "\<lambda>xs x. \<exists>pre post. xs = pre @ x # post \<and> P x \<and> (\<forall>q \<in> set pre. P q \<longrightarrow> k x < k q) \<and> (\<forall>q \<in> set post. P q \<longrightarrow> k x \<le> k q)"
  have step: "?R (a # xs) x \<longleftrightarrow> (x = a \<and> P a \<and> (\<forall>q \<in> set xs. P q \<longrightarrow> k a \<le> k q)) \<or> ((P a \<longrightarrow> k x < k a) \<and> ?R xs x)" (is "_ \<longleftrightarrow> ?B")
  proof
    assume "?R (a # xs) x"
    then obtain pre post where h: "a # xs = pre @ x # post" "P x" "\<forall>q \<in> set pre. P q \<longrightarrow> k x < k q" "\<forall>q \<in> set post. P q \<longrightarrow> k x \<le> k q" by blast
    show ?B
    proof (cases pre)
      case Nil
      then show ?thesis using h by simp
    next
      case (Cons b pre')
      then show ?thesis using h by (intro disjI2) auto
    qed
  next
    assume ?B
    then show "?R (a # xs) x"
    proof (elim disjE conjE exE)
      fix pre post
      assume "P a \<longrightarrow> k x < k a" "xs = pre @ x # post" "P x" "\<forall>q \<in> set pre. P q \<longrightarrow> k x < k q" "\<forall>q \<in> set post. P q \<longrightarrow> k x \<le> k q"
      then show "?R (a # xs) x" by (intro exI [of _ "a # pre"] exI [of _ post]) simp
    next
      assume "x = a" "P a" "\<forall>q \<in> set xs. P q \<longrightarrow> k a \<le> k q"
      then show "?R (a # xs) x" by (intro exI [of _ "[]"] exI [of _ xs]) simp
    qed
  qed
  show ?case
  proof (cases "P a")
    case True
    show ?thesis
    proof (cases "min_by_key k (filter P xs)")
      case None
      then have "\<forall>q \<in> set xs. \<not> P q" by (simp add: filter_empty_conv)
      moreover from this have "\<not> ?R xs x" by auto
      ultimately show ?thesis unfolding step using True None by auto
    next
      case (Some y)
      then have R: "?R xs y" using Cons.IH by blast
      have uniq: "?R xs x \<longleftrightarrow> x = y" unfolding Cons.IH [of x, symmetric] using Some by auto
      have low: "P q \<Longrightarrow> k y \<le> k q" if "q \<in> set xs" for q using min_by_key_SomeD [OF Some] that by simp
      have y: "y \<in> set xs" "P y" using min_by_key_SomeD [OF Some] by auto
      show ?thesis unfolding step uniq using True Some y low by (auto simp: not_less intro: order_trans) 
    qed
  next
    case False
    then show ?thesis unfolding step using Cons.IH [of x] by simp
  qed
qed simp

subsection \<open>Counting and summing over lists\<close>

lemma count_list_concat: "count_list (concat xss) x = sum_list (map (\<lambda>xs. count_list xs x) xss)"
  by (induction xss) auto

lemma count_list_distinct: "distinct xs \<Longrightarrow> count_list xs x = (if x \<in> set xs then 1 else 0)"
  by (induction xs) auto

lemma sum_list_entries:
  fixes m :: "(('k::finite) \<times> 'v) list" and g :: "'v \<Rightarrow> nat"
  assumes "distinct (map fst m)"
  shows "sum_list (map (\<lambda>(k, v). g v) m) = (\<Sum>k \<in> UNIV. case map_of m k of None \<Rightarrow> 0 | Some v \<Rightarrow> g v)"
  using assms
proof (induction m)
  case (Cons e m)
  obtain k v where e: "e = (k, v)" by (cases e)
  have k: "map_of m k = None" using Cons.prems e by (simp add: map_of_eq_None_iff)
  have "(\<Sum>k' \<in> UNIV. case map_of (e # m) k' of None \<Rightarrow> 0 | Some v \<Rightarrow> g v) =
      (\<Sum>k' \<in> UNIV. (if k' = k then g v else 0) + (case map_of m k' of None \<Rightarrow> 0 | Some v \<Rightarrow> g v))"
    by (rule sum.cong) (auto simp: e k)
  also have "\<dots> = g v + (\<Sum>k' \<in> UNIV. case map_of m k' of None \<Rightarrow> 0 | Some v \<Rightarrow> g v)" by (simp add: sum.distrib)
  finally show ?case using Cons e by simp
qed simp

subsection \<open>Searching\<close>

lemma find_SomeD: "find P xs = Some x \<Longrightarrow> x \<in> set xs \<and> P x"
  by (auto simp: find_Some_iff)

text \<open>A list with its indices, \<open>iter().enumerate()\<close>.\<close>

lemma set_enumerate_0: "(i, x) \<in> set (enumerate 0 xs) \<longleftrightarrow> i < length xs \<and> xs ! i = x"
  by (auto simp: in_set_enumerate_eq)

subsection \<open>Saturating integers\<close>

definition sat_add64 :: "u64 \<Rightarrow> u64 \<Rightarrow> u64" where
  "sat_add64 a b = (if unat a + unat b < 2 ^ 64 then a + b else - 1)"

lemma unat_u64_max [simp]: "unat (- 1 :: u64) = 2 ^ 64 - 1"
  by (simp add: unsigned_minus_1_eq_mask mask_eq_exp_minus_1)

lemma unat_u32_max [simp]: "unat (- 1 :: u32) = 2 ^ 32 - 1"
  by (simp add: unsigned_minus_1_eq_mask mask_eq_exp_minus_1)

lemma unat_sat_add64: "unat (sat_add64 a b) = min (unat a + unat b) (2 ^ 64 - 1)"
proof (cases "unat a + unat b < 2 ^ 64")
  case True
  then show ?thesis by (simp add: sat_add64_def unat_word_ariths)
next
  case False
  then show ?thesis by (simp add: sat_add64_def)
qed

lemma sat_add64_commute: "sat_add64 a b = sat_add64 b a"
  by (simp add: sat_add64_def add.commute)

lemma sat_add64_assoc: "sat_add64 (sat_add64 a b) c = sat_add64 a (sat_add64 b c)"
proof -
  have "unat (sat_add64 (sat_add64 a b) c) = unat (sat_add64 a (sat_add64 b c))"
    by (simp add: unat_sat_add64)
  then show ?thesis by (simp only: unsigned_word_eqI)
qed

text \<open>\<open>u32::try_from(n).unwrap_or(u32::MAX)\<close> of a \<open>u64\<close> sum.\<close>

definition u32_saturate :: "nat \<Rightarrow> u32" where
  "u32_saturate n = (if n < 2 ^ 32 then word_of_nat n else - 1)"

lemma unat_u32_saturate: "unat (u32_saturate n) = min n (2 ^ 32 - 1)"
  by (auto simp: u32_saturate_def unat_of_nat)

end
