(* ===== verification/Ntk_Topology.thy ===== *)
theory Ntk_Topology
  imports Ntk_Prelude
begin

section \<open>Topology, coordinates and hierarchical addresses (\<open>ntk-common\<close>)\<close>

text \<open>
  \<open>error.rs\<close>, \<open>topology.rs\<close>, \<open>hcoord.rs\<close> and the constructors and queries of \<open>naddr.rs\<close>.
  A Rust \<open>Topology\<close> or \<open>Naddr\<close> has private fields, so every value comes out of a constructor;
  \<open>wf_topology\<close> and \<open>wf_naddr\<close> are what the constructors guarantee.
\<close>

subsection \<open>The error type\<close>

datatype common_error =
    EmptyTopology
  | ZeroGsize usize
  | LevelCountMismatch usize usize
  | PositionOutOfRange usize u32 u32
  | LevelOutOfRange usize usize
  | TopologyMismatch
  | ParseNaddr string
  | FingerprintBaseLevel
  | FingerprintLevelMismatch usize usize
  | IndistinguishableFingerprints
  | TopOfHierarchy
  | FingerprintSeedLength usize usize

subsection \<open>Topology\<close>

record topology =
  gsizes :: "u32 list"

definition topology_new :: "u32 list \<Rightarrow> (topology, common_error) res" where
  "topology_new gs =
     (if gs = [] then Err EmptyTopology
      else case position (\<lambda>g. g = 0) gs of
             Some level \<Rightarrow> Err (ZeroGsize level)
           | None \<Rightarrow> Ok \<lparr>gsizes = gs\<rparr>)"

definition topology_levels :: "topology \<Rightarrow> usize" where
  "topology_levels t = length (gsizes t)"

definition topology_gsize :: "topology \<Rightarrow> usize \<Rightarrow> u32 option" where
  "topology_gsize t level = (if level < length (gsizes t) then Some (gsizes t ! level) else None)"

type_synonym u128 = "128 word"

definition checked_mul128 :: "u128 \<Rightarrow> u128 \<Rightarrow> u128 option" where
  "checked_mul128 a b = (if unat a * unat b < 2 ^ 128 then Some (a * b) else None)"

fun try_product :: "u128 \<Rightarrow> u32 list \<Rightarrow> u128 option" where
  "try_product acc [] = Some acc"
| "try_product acc (g # gs) =
     (case checked_mul128 acc (ucast g) of None \<Rightarrow> None | Some acc' \<Rightarrow> try_product acc' gs)"

definition max_nodes :: "topology \<Rightarrow> u128 option" where
  "max_nodes t = try_product 1 (gsizes t)"

definition wf_topology :: "topology \<Rightarrow> bool" where
  "wf_topology t \<longleftrightarrow> gsizes t \<noteq> [] \<and> 0 \<notin> set (gsizes t)"

subsection \<open>Hierarchical coordinates\<close>

datatype hcoord = HCoord (hc_level: usize) (hc_pos: u32)

text \<open>The derived \<open>Ord\<close>: by level, then by position.\<close>

instantiation hcoord :: linorder
begin
definition less_eq_hcoord :: "hcoord \<Rightarrow> hcoord \<Rightarrow> bool" where
  "a \<le> b \<longleftrightarrow> hc_level a < hc_level b \<or> hc_level a = hc_level b \<and> hc_pos a \<le> hc_pos b"
definition less_hcoord :: "hcoord \<Rightarrow> hcoord \<Rightarrow> bool" where
  "a < b \<longleftrightarrow> hc_level a < hc_level b \<or> hc_level a = hc_level b \<and> hc_pos a < hc_pos b"
instance
  by standard (auto simp: less_eq_hcoord_def less_hcoord_def intro: hcoord.expand)
end

subsection \<open>Addresses\<close>

record naddr =
  naddr_topology :: topology
  naddr_pos :: "u32 list"

definition naddr_new :: "topology \<Rightarrow> u32 list \<Rightarrow> (naddr, common_error) res" where
  "naddr_new t pos =
     (if length pos \<noteq> topology_levels t
      then Err (LevelCountMismatch (topology_levels t) (length pos))
      else case find (\<lambda>(level, p, gsize). gsize \<le> p) (enumerate 0 (zip pos (gsizes t))) of
             Some (level, p, gsize) \<Rightarrow> Err (PositionOutOfRange level p gsize)
           | None \<Rightarrow> Ok \<lparr>naddr_topology = t, naddr_pos = pos\<rparr>)"

definition naddr_new_allowing_virtual :: "topology \<Rightarrow> u32 list \<Rightarrow> (naddr, common_error) res" where
  "naddr_new_allowing_virtual t pos =
     (if length pos \<noteq> topology_levels t
      then Err (LevelCountMismatch (topology_levels t) (length pos))
      else Ok \<lparr>naddr_topology = t, naddr_pos = pos\<rparr>)"

definition naddr_levels :: "naddr \<Rightarrow> usize" where
  "naddr_levels a = length (naddr_pos a)"

definition pos_at :: "naddr \<Rightarrow> usize \<Rightarrow> u32 option" where
  "pos_at a level = (if level < length (naddr_pos a) then Some (naddr_pos a ! level) else None)"

definition is_virtual_at :: "naddr \<Rightarrow> usize \<Rightarrow> bool option" where
  "is_virtual_at a level =
     (case pos_at a level of
        None \<Rightarrow> None
      | Some p \<Rightarrow> (case topology_gsize (naddr_topology a) level of
                     None \<Rightarrow> None
                   | Some gsize \<Rightarrow> Some (gsize \<le> p)))"

definition is_virtual :: "naddr \<Rightarrow> bool" where
  "is_virtual a \<longleftrightarrow> list_ex (\<lambda>level. is_virtual_at a level = Some True) [0..<naddr_levels a]"

definition is_real_from_to :: "naddr \<Rightarrow> usize \<Rightarrow> usize \<Rightarrow> (bool, common_error) res" where
  "is_real_from_to a from to =
     (if naddr_levels a \<le> to then Err (LevelOutOfRange to (naddr_levels a))
      else Ok (list_all (\<lambda>level. is_virtual_at a level = Some False) [from..<Suc to]))"

definition is_inside :: "naddr \<Rightarrow> hcoord \<Rightarrow> (bool, common_error) res" where
  "is_inside a hc =
     res_bind (ok_or (pos_at a (hc_level hc)) (LevelOutOfRange (hc_level hc) (naddr_levels a)))
       (\<lambda>p. Ok (p = hc_pos hc))"

text \<open>The loop of \<open>hcoord\<close>, counting down from the top level.\<close>

fun hcoord_loop :: "u32 list \<Rightarrow> u32 list \<Rightarrow> usize \<Rightarrow> (hcoord option, common_error) res" where
  "hcoord_loop mine theirs 0 = Ok None"
| "hcoord_loop mine theirs (Suc level) =
     res_bind (index mine level) (\<lambda>p. res_bind (index theirs level) (\<lambda>q.
       if p \<noteq> q then Ok (Some (HCoord level q)) else hcoord_loop mine theirs level))"

definition hcoord_of :: "naddr \<Rightarrow> naddr \<Rightarrow> (hcoord option, common_error) res" where
  "hcoord_of a dest =
     (if naddr_topology a \<noteq> naddr_topology dest then Err TopologyMismatch
      else hcoord_loop (naddr_pos a) (naddr_pos dest) (length (naddr_pos a)))"

definition wf_naddr :: "naddr \<Rightarrow> bool" where
  "wf_naddr a \<longleftrightarrow> wf_topology (naddr_topology a) \<and>
     length (naddr_pos a) = length (gsizes (naddr_topology a))"

lemmas topology_defs = topology_levels_def topology_gsize_def
lemmas naddr_defs = naddr_levels_def pos_at_def is_virtual_at_def topology_defs

subsection \<open>What the constructors accept\<close>

lemma position_zero:
  "position (\<lambda>g. g = 0) gs =
     (if 0 \<in> set gs then Some (length (takeWhile (\<lambda>g. g \<noteq> 0) gs)) else None)"
  by (induction gs) auto

text \<open>\<open>Topology::new\<close> accepts exactly the non-empty sequences without a zero size, and the
  error it reports otherwise is the empty one or the first zero level.\<close>

theorem topology_new_correct:
  "topology_new gs =
     (if gs = [] then Err EmptyTopology
      else if 0 \<in> set gs then Err (ZeroGsize (length (takeWhile (\<lambda>g. g \<noteq> 0) gs)))
      else Ok \<lparr>gsizes = gs\<rparr>)
   \<and> (case topology_new gs of Ok t \<Rightarrow> wf_topology t \<and> gsizes t = gs | _ \<Rightarrow> True)"
  by (simp add: topology_new_def wf_topology_def position_zero)

lemma topology_new_Ok_iff:
  "topology_new gs = Ok t \<longleftrightarrow> t = \<lparr>gsizes = gs\<rparr> \<and> wf_topology t"
  by (auto simp: topology_new_def wf_topology_def position_zero)

lemma try_product_correct:
  "try_product acc gs =
     (if unat acc * prod_list (map unat gs) < 2 ^ 128
      then Some (word_of_nat (unat acc * prod_list (map unat gs))) else None)"
  if "0 \<notin> set gs"
  using that
proof (induction gs arbitrary: acc)
  case Nil
  then show ?case using unsigned_less [of acc] by simp
next
  case (Cons g gs)
  have "unat g < 2 ^ LENGTH(32)" by (rule unsigned_less)
  then have g: "unat (ucast g :: u128) = unat g"
    by (simp add: unsigned_ucast_eq take_bit_nat_eq_self_iff)
  have pos: "0 < prod_list (map unat gs)"
    using Cons.prems by (induction gs) (auto simp: unat_gt_0)
  show ?case
  proof (cases "unat acc * unat g < 2 ^ 128")
    case True
    then have "unat (acc * ucast g) = unat acc * unat g"
      by (simp add: unat_word_ariths g)
    with True Cons show ?thesis by (simp add: checked_mul128_def g mult.assoc)
  next
    case False
    have "unat acc * unat g \<le> unat acc * (unat g * prod_list (map unat gs))"
      using mult_le_mono2 [of 1 "prod_list (map unat gs)" "unat acc * unat g"] pos
      by (simp add: mult.assoc Suc_leI del: mult_le_cancel1 nat_mult_le_cancel_disj)
    with False have "\<not> unat acc * (unat g * prod_list (map unat gs)) < 2 ^ 128"
      by linarith
    with False show ?thesis by (simp add: checked_mul128_def g)
  qed
qed

text \<open>The capacity of a topology is the product of its level sizes, and \<open>None\<close> exactly when
  that product does not fit in a \<open>u128\<close>; the running product never wraps.\<close>

theorem max_nodes_correct:
  assumes "wf_topology t"
  shows "max_nodes t =
     (if prod_list (map unat (gsizes t)) < 2 ^ 128
      then Some (word_of_nat (prod_list (map unat (gsizes t)))) else None)"
  using assms by (simp add: max_nodes_def wf_topology_def try_product_correct)

theorem max_nodes_correct_witness:
  "max_nodes \<lparr>gsizes = [8, 16, 4]\<rparr> = Some 512"
  using max_nodes_correct [of "\<lparr>gsizes = [8, 16, 4]\<rparr>"] by (simp add: wf_topology_def)


lemma naddr_find_none:
  "length pos = length gs \<Longrightarrow>
   find (\<lambda>(level, p, gsize). gsize \<le> p) (enumerate n (zip pos gs)) = None \<longleftrightarrow>
   (\<forall>i < length pos. pos ! i < gs ! i)" for pos gs :: "u32 list"
proof (induction pos gs arbitrary: n rule: list_induct2)
  case Nil
  then show ?case by simp
next
  case (Cons p pos g gs)
  then show ?case by (auto simp: All_less_Suc2 linorder_not_le)
qed

lemma naddr_new_Ok_iff:
  "naddr_new t pos = Ok a \<longleftrightarrow>
     a = \<lparr>naddr_topology = t, naddr_pos = pos\<rparr> \<and> length pos = length (gsizes t) \<and>
     (\<forall>i < length pos. pos ! i < gsizes t ! i)"
  using naddr_find_none [of pos "gsizes t" 0]
  by (auto simp: naddr_new_def topology_levels_def split: option.splits)

lemma naddr_new_allowing_virtual_Ok_iff:
  "naddr_new_allowing_virtual t pos = Ok a \<longleftrightarrow>
     a = \<lparr>naddr_topology = t, naddr_pos = pos\<rparr> \<and> length pos = length (gsizes t)"
  by (auto simp: naddr_new_allowing_virtual_def topology_levels_def)

lemma is_virtual_at_wf:
  "wf_naddr a \<Longrightarrow> level < naddr_levels a \<Longrightarrow>
     is_virtual_at a level = Some (gsizes (naddr_topology a) ! level \<le> naddr_pos a ! level)"
  by (simp add: naddr_defs wf_naddr_def)

lemma naddr_new_PositionOutOfRange:
  assumes "naddr_new t pos = Err (PositionOutOfRange level p g)"
  shows "level < length pos \<and> pos ! level = p \<and> gsizes t ! level = g \<and> g \<le> p \<and>
     (\<forall>j < level. pos ! j < gsizes t ! j)"
proof -
  let ?xs = "enumerate 0 (zip pos (gsizes t))"
  from assms have len: "length pos = length (gsizes t)"
    and "find (\<lambda>(level, p, gsize). gsize \<le> p) ?xs = Some (level, p, g)"
    by (auto simp: naddr_new_def topology_levels_def split: option.splits if_splits)
  then obtain i where "i < length ?xs" "g \<le> p" "?xs ! i = (level, p, g)"
    "\<forall>j < i. \<not> (case ?xs ! j of (level, p, gsize) \<Rightarrow> gsize \<le> p)"
    by (auto simp: find_Some_iff)
  with len show ?thesis by (auto simp: nth_enumerate_eq linorder_not_le)
qed

text \<open>\<open>Naddr::new\<close> accepts a position vector exactly when it has one position per level and
  every position is inside its level; the address is then well-formed and real at every level, and
  a range error names the first level out of range.\<close>

theorem naddr_new_correct:
  assumes "wf_topology t"
  shows "(naddr_new t pos = Ok a \<longleftrightarrow>
      a = \<lparr>naddr_topology = t, naddr_pos = pos\<rparr> \<and> wf_naddr a \<and> \<not> is_virtual a)
    \<and> (naddr_new t pos = Err (PositionOutOfRange level p g) \<longrightarrow>
        level < length pos \<and> pos ! level = p \<and> gsizes t ! level = g \<and> g \<le> p \<and>
        (\<forall>j < level. pos ! j < gsizes t ! j))"
proof (intro conjI impI)
  show "naddr_new t pos = Ok a \<longleftrightarrow>
      a = \<lparr>naddr_topology = t, naddr_pos = pos\<rparr> \<and> wf_naddr a \<and> \<not> is_virtual a"
    using assms
    by (auto simp: naddr_new_Ok_iff wf_naddr_def is_virtual_def list_ex_iff naddr_defs
        linorder_not_le)
qed (use naddr_new_PositionOutOfRange in blast)+

theorem naddr_new_correct_witness:
  "naddr_new \<lparr>gsizes = [8, 16, 4]\<rparr> [1, 2, 3] =
     Ok \<lparr>naddr_topology = \<lparr>gsizes = [8, 16, 4]\<rparr>, naddr_pos = [1, 2, 3]\<rparr>"
proof -
  let ?t = "\<lparr>gsizes = [8, 16, 4 :: u32]\<rparr>"
  let ?a = "\<lparr>naddr_topology = ?t, naddr_pos = [1, 2, 3]\<rparr>"
  have "wf_topology ?t" by (simp add: wf_topology_def)
  moreover have "wf_naddr ?a" "\<not> is_virtual ?a"
    by (simp_all add: wf_naddr_def wf_topology_def is_virtual_def naddr_defs word_le_nat_alt)
  ultimately show ?thesis using naddr_new_correct [of ?t "[1, 2, 3]" ?a] by simp
qed

subsection \<open>Relative coordinates\<close>

lemma hcoord_loop_correct:
  assumes "n \<le> length mine" and "n \<le> length theirs"
  shows "(hcoord_loop mine theirs n = Ok None \<and> (\<forall>l < n. mine ! l = theirs ! l)) \<or>
     (\<exists>l < n. hcoord_loop mine theirs n = Ok (Some (HCoord l (theirs ! l))) \<and>
        mine ! l \<noteq> theirs ! l \<and> (\<forall>m. l < m \<and> m < n \<longrightarrow> mine ! m = theirs ! m))"
  using assms
proof (induction n)
  case 0
  then show ?case by simp
next
  case (Suc n)
  then show ?case by (cases "mine ! n = theirs ! n") (auto simp: less_Suc_eq)
qed

lemma wf_naddr_same_length:
  "wf_naddr a \<Longrightarrow> wf_naddr b \<Longrightarrow> naddr_topology a = naddr_topology b \<Longrightarrow>
     length (naddr_pos a) = length (naddr_pos b)"
  by (simp add: wf_naddr_def)

lemma naddr_eqI:
  "naddr_topology a = naddr_topology b \<Longrightarrow> naddr_pos a = naddr_pos b \<Longrightarrow> (a :: naddr) = b"
  by simp

text \<open>
  The characterisation every client of \<open>hcoord\<close> uses: the top level at which the two addresses
  differ, and the other address's position there.
\<close>

definition diverges_at :: "naddr \<Rightarrow> naddr \<Rightarrow> hcoord \<Rightarrow> bool" where
  "diverges_at a dest v \<longleftrightarrow>
     hc_level v < naddr_levels a \<and> pos_at dest (hc_level v) = Some (hc_pos v) \<and>
     pos_at a (hc_level v) \<noteq> Some (hc_pos v) \<and>
     (\<forall>m. hc_level v < m \<and> m < naddr_levels a \<longrightarrow> pos_at a m = pos_at dest m)"

lemma hcoord_of_cases:
  assumes "wf_naddr a" "wf_naddr dest" "naddr_topology a = naddr_topology dest"
  obtains (same) "hcoord_of a dest = Ok None" "a = dest"
  | (diverges) v where "hcoord_of a dest = Ok (Some v)" "diverges_at a dest v" "a \<noteq> dest"
proof -
  note len = wf_naddr_same_length [OF assms]
  from hcoord_loop_correct [of "length (naddr_pos a)" "naddr_pos a" "naddr_pos dest"] len
  consider "hcoord_of a dest = Ok None" "\<forall>l < length (naddr_pos a). naddr_pos a ! l = naddr_pos dest ! l"
    | l where "l < length (naddr_pos a)" "hcoord_of a dest = Ok (Some (HCoord l (naddr_pos dest ! l)))"
      "naddr_pos a ! l \<noteq> naddr_pos dest ! l"
      "\<forall>m. l < m \<and> m < length (naddr_pos a) \<longrightarrow> naddr_pos a ! m = naddr_pos dest ! m"
    by (auto simp: hcoord_of_def assms(3))
  then show thesis
  proof cases
    case 1
    with len have "naddr_pos a = naddr_pos dest" by (auto intro: nth_equalityI)
    with 1 show thesis using same naddr_eqI [OF assms(3)] by simp
  next
    case (2 l)
    then show thesis using diverges [of "HCoord l (naddr_pos dest ! l)"] len
      by (auto simp: diverges_at_def naddr_levels_def pos_at_def)
  qed
qed

lemma hcoord_of_SomeD:
  assumes "wf_naddr a" "wf_naddr dest" "hcoord_of a dest = Ok (Some v)"
  shows "naddr_topology a = naddr_topology dest \<and> diverges_at a dest v"
proof -
  from assms(3) have t: "naddr_topology a = naddr_topology dest"
    by (auto simp: hcoord_of_def split: if_splits)
  from assms(1,2) t show ?thesis by (rule hcoord_of_cases) (use assms(3) t in auto)
qed

lemma diverges_at_unique:
  "diverges_at a b v \<Longrightarrow> diverges_at a b w \<Longrightarrow> v = w"
  by (auto simp: diverges_at_def intro!: hcoord.expand)
     (metis linorder_neqE_nat option.inject)+

lemma hcoord_of_not_Panic: "wf_naddr a \<Longrightarrow> wf_naddr b \<Longrightarrow> hcoord_of a b \<noteq> Panic"
  by (cases "naddr_topology a = naddr_topology b")
     (auto elim: hcoord_of_cases [of a b] simp: hcoord_of_def)

text \<open>\<open>hcoord\<close> never panics; between addresses of one topology it is \<open>None\<close> exactly for equal
  addresses and otherwise the top level of divergence with the destination's position there, the
  same level whichever of the two addresses asks.\<close>

theorem hcoord_correct:
  assumes "wf_naddr a" and "wf_naddr dest"
  shows "hcoord_of a dest =
      (if naddr_topology a \<noteq> naddr_topology dest then Err TopologyMismatch
       else if a = dest then Ok None else hcoord_of a dest)
    \<and> (naddr_topology a = naddr_topology dest \<and> a \<noteq> dest \<longrightarrow>
        (\<exists>v w. hcoord_of a dest = Ok (Some v) \<and> diverges_at a dest v \<and>
           hcoord_of dest a = Ok (Some w) \<and> hc_level w = hc_level v))"
proof (cases "naddr_topology a = naddr_topology dest")
  case False
  then show ?thesis by (simp add: hcoord_of_def)
next
  case t: True
  show ?thesis
  proof (cases "a = dest")
    case True
    with t show ?thesis by (auto intro: hcoord_of_cases [OF assms t])
  next
    case False
    from assms t obtain v where v: "hcoord_of a dest = Ok (Some v)" "diverges_at a dest v"
      by (rule hcoord_of_cases) (use False in auto)
    from assms(2,1) t [symmetric] obtain w where w: "hcoord_of dest a = Ok (Some w)"
      "diverges_at dest a w"
      by (rule hcoord_of_cases) (use False in auto)
    have "naddr_levels a = naddr_levels dest"
      using wf_naddr_same_length [OF assms t] by (simp add: naddr_levels_def)
    with v(2) w(2) have "hc_level w = hc_level v"
      by (metis diverges_at_def linorder_neqE_nat)
    with v w t False show ?thesis by auto
  qed
qed

theorem hcoord_correct_witness:
  "hcoord_of \<lparr>naddr_topology = \<lparr>gsizes = [8, 16, 4]\<rparr>, naddr_pos = [1, 2, 3]\<rparr>
     \<lparr>naddr_topology = \<lparr>gsizes = [8, 16, 4]\<rparr>, naddr_pos = [1, 5, 3]\<rparr> = Ok (Some (HCoord 1 5))"
proof -
  let ?a = "\<lparr>naddr_topology = \<lparr>gsizes = [8, 16, 4]\<rparr>, naddr_pos = [1, 2, 3]\<rparr>"
  let ?b = "\<lparr>naddr_topology = \<lparr>gsizes = [8, 16, 4]\<rparr>, naddr_pos = [1, 5, 3]\<rparr>"
  have "wf_naddr ?a" "wf_naddr ?b" by (simp_all add: wf_naddr_def wf_topology_def)
  from hcoord_correct [OF this] obtain v where "hcoord_of ?a ?b = Ok (Some v)" "diverges_at ?a ?b v"
    by auto
  moreover have "diverges_at ?a ?b (HCoord 1 5)"
    by (auto simp: diverges_at_def naddr_levels_def pos_at_def less_Suc_eq numeral_3_eq_3)
  ultimately show ?thesis using diverges_at_unique by metis
qed

text \<open>
  \<open>is_inside\<close> compares one position only: two addresses of different parent g-nodes are both
  inside a coordinate of a lower level, although its comment asks the levels above to agree too.
\<close>

theorem is_inside_ignores_parents:
  "\<exists>a b hc. wf_naddr a \<and> wf_naddr b \<and> is_inside a hc = Ok True \<and> is_inside b hc = Ok True \<and>
     hcoord_of a b = Ok (Some (HCoord 1 1)) \<and> hc_level hc = 0"
  by (rule exI [of _ "\<lparr>naddr_topology = \<lparr>gsizes = [2, 2]\<rparr>, naddr_pos = [0, 0]\<rparr>"],
      rule exI [of _ "\<lparr>naddr_topology = \<lparr>gsizes = [2, 2]\<rparr>, naddr_pos = [0, 1]\<rparr>"],
      rule exI [of _ "HCoord 0 0"])
     (simp add: wf_naddr_def wf_topology_def is_inside_def pos_at_def hcoord_of_def)

end
