(* ===== verification/Ntk_Naddr_Text.thy ===== *)
theory Ntk_Naddr_Text
  imports Ntk_Topology
begin

section \<open>The textual form of an address (\<open>Display\<close> and \<open>FromStr\<close> of \<open>naddr.rs\<close>)\<close>

text \<open>
  \<open>pos/gsize\<close> per level, joined with dots, level 0 first. The decimal printer and
  \<open>u32::from_str\<close> are the standard library's: the latter takes an optional leading plus sign,
  wants at least one digit and nothing but digits, and refuses a value that overflows.
\<close>

subsection \<open>Decimal integers\<close>

definition digit_char :: "nat \<Rightarrow> char" where
  "digit_char d = char_of (48 + d)"

definition digit_val :: "char \<Rightarrow> nat option" where
  "digit_val c = (let n = of_char c :: nat in if 48 \<le> n \<and> n \<le> 57 then Some (n - 48) else None)"

fun show_nat :: "nat \<Rightarrow> string" where
  "show_nat n = (if n < 10 then [digit_char n] else show_nat (n div 10) @ [digit_char (n mod 10)])"

declare show_nat.simps [simp del]

text \<open>The digit loop of \<open>u32::from_str_radix(_, 10)\<close>, with its checked multiply and add.\<close>

fun parse_digits :: "nat \<Rightarrow> string \<Rightarrow> nat option" where
  "parse_digits acc [] = Some acc"
| "parse_digits acc (c # cs) =
     (case digit_val c of
        None \<Rightarrow> None
      | Some d \<Rightarrow> if 10 * acc + d < 2 ^ 32 then parse_digits (10 * acc + d) cs else None)"

definition parse_u32 :: "string \<Rightarrow> u32 option" where
  "parse_u32 s =
     (let ds = (case s of [] \<Rightarrow> [] | c # cs \<Rightarrow> if c = CHR ''+'' then cs else s)
      in if ds = [] then None else map_option word_of_nat (parse_digits 0 ds))"

subsection \<open>Printing and splitting\<close>

fun join_with :: "char \<Rightarrow> string list \<Rightarrow> string" where
  "join_with c [] = []"
| "join_with c [s] = s"
| "join_with c (s # t # ss) = s @ [c] @ join_with c (t # ss)"

definition show_level :: "u32 \<times> u32 \<Rightarrow> string" where
  "show_level pg = (case pg of (p, g) \<Rightarrow> show_nat (unat p) @ ''/'' @ show_nat (unat g))"

definition naddr_display :: "naddr \<Rightarrow> string" where
  "naddr_display a =
     join_with (CHR ''.'') (map show_level (zip (naddr_pos a) (gsizes (naddr_topology a))))"

definition hcoord_display :: "hcoord \<Rightarrow> string" where
  "hcoord_display hc = show_nat (unat (hc_pos hc)) @ ''@'' @ show_nat (hc_level hc)"

text \<open>\<open>str::split\<close> on one character, and \<open>str::split_once\<close>.\<close>

fun split_on :: "char \<Rightarrow> string \<Rightarrow> string list" where
  "split_on c [] = [[]]"
| "split_on c (x # xs) =
     (if x = c then [] # split_on c xs
      else case split_on c xs of [] \<Rightarrow> [[x]] | s # ss \<Rightarrow> (x # s) # ss)"

definition split_once :: "char \<Rightarrow> string \<Rightarrow> (string \<times> string) option" where
  "split_once c s =
     (if c \<in> set s then Some (takeWhile (\<lambda>x. x \<noteq> c) s, tl (dropWhile (\<lambda>x. x \<noteq> c) s)) else None)"

definition parse_level :: "string \<Rightarrow> string \<Rightarrow> (u32 \<times> u32, common_error) res" where
  "parse_level whole level =
     (let malformed = ParseNaddr whole in
      res_bind (ok_or (split_once (CHR ''/'') level) malformed) (\<lambda>(p, g).
      res_bind (ok_or (parse_u32 p) malformed) (\<lambda>p'.
      res_bind (ok_or (parse_u32 g) malformed) (\<lambda>g'. Ok (p', g')))))"

definition naddr_from_str :: "string \<Rightarrow> (naddr, common_error) res" where
  "naddr_from_str s =
     res_bind (try_map (parse_level s) (split_on (CHR ''.'') s)) (\<lambda>pgs.
     res_bind (topology_new (map snd pgs)) (\<lambda>t.
     naddr_new_allowing_virtual t (map fst pgs)))"

subsection \<open>The round trip\<close>

lemma digit_val_char [simp]: "d < 10 \<Longrightarrow> digit_val (digit_char d) = Some d"
  by (simp add: digit_val_def digit_char_def of_char_of)

lemma digit_char_range: "d < 10 \<Longrightarrow> of_char (digit_char d) = (48 + d :: nat)"
  by (simp add: digit_char_def of_char_of)

lemma show_nat_digits: "c \<in> set (show_nat n) \<Longrightarrow> \<exists>d < 10. c = digit_char d"
proof (induction n rule: show_nat.induct)
  case (1 n)
  then show ?case
    by (cases "n < 10") (auto simp: show_nat.simps [of n] intro: exI [of _ "n mod 10"])
qed

lemma show_nat_no_separator:
  "CHR ''.'' \<notin> set (show_nat n)" "CHR ''/'' \<notin> set (show_nat n)" "CHR ''+'' \<notin> set (show_nat n)"
proof -
  have "of_char c \<ge> (48 :: nat)" if "c \<in> set (show_nat n)" for c
    using show_nat_digits [OF that] by (auto simp: digit_char_range)
  then show "CHR ''.'' \<notin> set (show_nat n)" "CHR ''/'' \<notin> set (show_nat n)"
    "CHR ''+'' \<notin> set (show_nat n)" by fastforce+
qed

lemma show_nat_nonempty [simp]: "show_nat n \<noteq> []"
  by (simp add: show_nat.simps [of n])

lemma parse_digits_append:
  "parse_digits acc (xs @ ys) =
     (case parse_digits acc xs of None \<Rightarrow> None | Some acc' \<Rightarrow> parse_digits acc' ys)"
  by (induction xs arbitrary: acc) (auto split: option.splits)

lemma parse_digits_show: "n < 2 ^ 32 \<Longrightarrow> parse_digits 0 (show_nat n) = Some n"
proof (induction n rule: show_nat.induct)
  case (1 n)
  show ?case
  proof (cases "n < 10")
    case True
    with "1.prems" show ?thesis by (simp add: show_nat.simps [of n])
  next
    case False
    with 1 have "parse_digits 0 (show_nat (n div 10)) = Some (n div 10)" by auto
    moreover have "10 * (n div 10) + n mod 10 = n" by simp
    ultimately show ?thesis using False "1.prems"
      by (simp add: show_nat.simps [of n] parse_digits_append)
  qed
qed

lemma parse_u32_show [simp]: "parse_u32 (show_nat (unat w)) = Some w"
proof -
  obtain c cs where s: "show_nat (unat w) = c # cs" by (cases "show_nat (unat w)") auto
  with show_nat_no_separator(3) [of "unat w"] have "c \<noteq> CHR ''+''" by auto
  moreover have "unat w < 2 ^ LENGTH(32)" by (rule unsigned_less)
  ultimately show ?thesis using parse_digits_show [of "unat w"] s by (simp add: parse_u32_def)
qed

lemma split_once_append [simp]: "c \<notin> set s \<Longrightarrow> split_once c (s @ c # t) = Some (s, t)"
  unfolding split_once_def by (induction s) auto

lemma split_on_nonempty [simp]: "split_on c s \<noteq> []"
  by (cases s) (auto split: list.splits)

lemma split_on_append: "c \<notin> set s \<Longrightarrow> split_on c (s @ c # t) = s # split_on c t"
  by (induction s) auto

lemma split_on_single: "c \<notin> set s \<Longrightarrow> split_on c s = [s]"
  by (induction s) auto

lemma split_on_join:
  "ss \<noteq> [] \<Longrightarrow> \<forall>s \<in> set ss. c \<notin> set s \<Longrightarrow> split_on c (join_with c ss) = ss"
  by (induction c ss rule: join_with.induct) (auto simp: split_on_append split_on_single)

lemma parse_level_show [simp]: "parse_level s (show_level (p, g)) = Ok (p, g)"
  using show_nat_no_separator(2) [of "unat p"] by (simp add: parse_level_def show_level_def)

lemma show_level_no_dot: "CHR ''.'' \<notin> set (show_level pg)"
  using show_nat_no_separator(1) by (auto simp: show_level_def split: prod.splits)

lemma naddr_display_reparse:
  assumes "wf_naddr a"
  shows "naddr_from_str (naddr_display a) = Ok a"
proof -
  let ?pgs = "zip (naddr_pos a) (gsizes (naddr_topology a))"
  let ?s = "naddr_display a"
  from assms have len: "length (naddr_pos a) = length (gsizes (naddr_topology a))"
    and ne: "?pgs \<noteq> []" and t: "wf_topology (naddr_topology a)"
    by (auto simp: wf_naddr_def wf_topology_def zip_eq_Nil_iff)
  have "split_on (CHR ''.'') ?s = map show_level ?pgs"
    unfolding naddr_display_def using ne by (intro split_on_join) (auto simp: show_level_no_dot)
  moreover have "try_map (parse_level ?s) (map show_level ?pgs) = Ok ?pgs"
    by (auto simp: try_map_Ok_conv)
  moreover have "topology_new (gsizes (naddr_topology a)) = Ok (naddr_topology a)"
    using t by (simp add: topology_new_Ok_iff)
  moreover have "naddr_new_allowing_virtual (naddr_topology a) (naddr_pos a) = Ok a"
    using len by (simp add: naddr_new_allowing_virtual_Ok_iff)
  ultimately show ?thesis using len by (simp add: naddr_from_str_def)
qed

lemma naddr_from_str_wf: "naddr_from_str s = Ok a \<Longrightarrow> wf_naddr a"
  by (auto simp: naddr_from_str_def res_simps topology_new_Ok_iff
      naddr_new_allowing_virtual_Ok_iff wf_naddr_def)

text \<open>Parsing what \<open>Display\<close> prints gives the address back, topology included, for real and
  virtual positions alike; and whatever text \<open>FromStr\<close> accepts, the address it builds is
  well-formed.\<close>

theorem naddr_text_roundtrip:
  "(wf_naddr a \<longrightarrow> naddr_from_str (naddr_display a) = Ok a) \<and>
   (naddr_from_str s = Ok b \<longrightarrow> wf_naddr b)"
  by (blast intro: naddr_display_reparse naddr_from_str_wf)

theorem naddr_text_roundtrip_witness:
  "naddr_from_str (naddr_display
     \<lparr>naddr_topology = \<lparr>gsizes = [8, 16, 4]\<rparr>, naddr_pos = [1, 16, 3]\<rparr>) =
   Ok \<lparr>naddr_topology = \<lparr>gsizes = [8, 16, 4]\<rparr>, naddr_pos = [1, 16, 3]\<rparr>
   \<and> naddr_from_str ''9/8'' = Ok \<lparr>naddr_topology = \<lparr>gsizes = [8]\<rparr>, naddr_pos = [9]\<rparr>
   \<and> wf_naddr \<lparr>naddr_topology = \<lparr>gsizes = [8]\<rparr>, naddr_pos = [9]\<rparr>"
proof -
  let ?a = "\<lparr>naddr_topology = \<lparr>gsizes = [8, 16, 4]\<rparr>, naddr_pos = [1, 16, 3]\<rparr>"
  have "wf_naddr ?a" by (simp add: wf_naddr_def wf_topology_def)
  moreover have p: "naddr_from_str ''9/8'' =
      Ok \<lparr>naddr_topology = \<lparr>gsizes = [8]\<rparr>, naddr_pos = [9]\<rparr>"
    by (simp add: naddr_from_str_def parse_level_def split_once_def parse_u32_def digit_val_def
        topology_new_def naddr_new_allowing_virtual_def topology_levels_def)
  ultimately show ?thesis
    using naddr_text_roundtrip [of ?a] naddr_text_roundtrip [of ?a "''9/8''"] by blast
qed

end
