(* ===== verification/Ntk_Maps.thy ===== *)
theory Ntk_Maps
  imports Ntk_Prelude "HOL-Library.AList"
begin

section \<open>Finite maps: the interface, \<open>HashMap\<close> and \<open>BTreeMap\<close>\<close>

text \<open>
  The routing state keeps its arcs in a \<open>BTreeMap\<close> (iterated in key order) and each level's
  destinations in a \<open>HashMap\<close> (iterated in an order the program cannot rely on).
  Both are association lists with distinct keys, so that \<open>iter()\<close>, \<open>values()\<close> and \<open>keys()\<close> are the
  list itself; the order of a hash map is whatever order its list has, so a statement about every
  state is a statement about every iteration order.
  The locale below is what the components use of a map; it is interpreted by both.
\<close>

type_synonym ('k, 'v) hash_map = "('k \<times> 'v) list"
type_synonym ('k, 'v) btree_map = "('k \<times> 'v) list"

subsection \<open>The interface\<close>

locale finite_map =
  fixes insert :: "'k \<Rightarrow> 'v \<Rightarrow> ('k \<times> 'v) list \<Rightarrow> ('k \<times> 'v) list"
    and remove :: "'k \<Rightarrow> ('k \<times> 'v) list \<Rightarrow> ('k \<times> 'v) list"
    and wf :: "('k \<times> 'v) list \<Rightarrow> bool"
  assumes wf_empty: "wf []"
    and wf_distinct: "wf m \<Longrightarrow> distinct (map fst m)"
    and wf_insert: "wf m \<Longrightarrow> wf (insert k v m)"
    and wf_remove: "wf m \<Longrightarrow> wf (remove k m)"
    and get_insert: "wf m \<Longrightarrow> map_of (insert k v m) = (map_of m)(k \<mapsto> v)"
    and get_remove: "wf m \<Longrightarrow> map_of (remove k m) = (map_of m)(k := None)"
begin

lemma entry_iff_get: "wf m \<Longrightarrow> (k, v) \<in> set m \<longleftrightarrow> map_of m k = Some v"
  by (simp add: wf_distinct)

lemma entries_insert:
  assumes "wf m"
  shows "set (insert k v m) = {(k', v') \<in> set m. k' \<noteq> k} \<union> {(k, v)}"
proof -
  have "(a, b) \<in> set (insert k v m) \<longleftrightarrow> (a, b) \<in> {(k', v') \<in> set m. k' \<noteq> k} \<union> {(k, v)}" for a b
    using assms by (auto simp: entry_iff_get wf_insert get_insert split: if_splits)
  then show ?thesis by auto
qed

lemma entries_remove:
  assumes "wf m"
  shows "set (remove k m) = {(k', v') \<in> set m. k' \<noteq> k}"
proof -
  have "(a, b) \<in> set (remove k m) \<longleftrightarrow> (a, b) \<in> {(k', v') \<in> set m. k' \<noteq> k}" for a b
    using assms by (auto simp: entry_iff_get wf_remove get_remove split: if_splits)
  then show ?thesis by auto
qed

lemma all_entries_insert:
  "wf m \<Longrightarrow> (\<And>k' v'. (k', v') \<in> set m \<Longrightarrow> P k' v') \<Longrightarrow> P k v \<Longrightarrow>
     (k', v') \<in> set (insert k v m) \<Longrightarrow> P k' v'"
  by (auto simp: entries_insert)

lemma remove_absent: "wf m \<Longrightarrow> map_of m k = None \<Longrightarrow> set (remove k m) = set m"
  by (force simp: entries_remove map_of_eq_None_iff)

end

subsection \<open>\<open>HashMap\<close>\<close>

definition hm_insert :: "'k \<Rightarrow> 'v \<Rightarrow> ('k, 'v) hash_map \<Rightarrow> ('k, 'v) hash_map" where
  "hm_insert k v m = AList.update k v m"

definition hm_remove :: "'k \<Rightarrow> ('k, 'v) hash_map \<Rightarrow> ('k, 'v) hash_map" where
  "hm_remove k m = AList.delete k m"

definition hm_wf :: "('k, 'v) hash_map \<Rightarrow> bool" where
  "hm_wf m \<longleftrightarrow> distinct (map fst m)"

text \<open>\<open>entry(k).or_default().push(x)\<close> on a map of vectors.\<close>

definition hm_push :: "'k \<Rightarrow> 'a \<Rightarrow> ('k, 'a list) hash_map \<Rightarrow> ('k, 'a list) hash_map" where
  "hm_push k x m = hm_insert k ((case map_of m k of None \<Rightarrow> [] | Some xs \<Rightarrow> xs) @ [x]) m"

interpretation hm: finite_map hm_insert hm_remove hm_wf
  by unfold_locales
    (auto simp: hm_insert_def hm_remove_def hm_wf_def update_conv' delete_conv' distinct_update
      distinct_delete)

subsection \<open>\<open>BTreeMap\<close>\<close>

fun bt_insert :: "'k::linorder \<Rightarrow> 'v \<Rightarrow> ('k, 'v) btree_map \<Rightarrow> ('k, 'v) btree_map" where
  "bt_insert k v [] = [(k, v)]"
| "bt_insert k v ((k', v') # m) =
     (if k < k' then (k, v) # (k', v') # m
      else if k = k' then (k, v) # m
      else (k', v') # bt_insert k v m)"

definition bt_remove :: "'k::linorder \<Rightarrow> ('k, 'v) btree_map \<Rightarrow> ('k, 'v) btree_map" where
  "bt_remove k m = filter (\<lambda>(k', _). k' \<noteq> k) m"

definition bt_wf :: "('k::linorder, 'v) btree_map \<Rightarrow> bool" where
  "bt_wf m \<longleftrightarrow> sorted_wrt (<) (map fst m)"

text \<open>\<open>get_mut(k)\<close> followed by an assignment through the reference.\<close>

definition bt_modify :: "'k \<Rightarrow> ('v \<Rightarrow> 'v) \<Rightarrow> ('k, 'v) btree_map \<Rightarrow> ('k, 'v) btree_map" where
  "bt_modify k f m = map (\<lambda>(k', v). (k', if k' = k then f v else v)) m"

lemma keys_bt_insert: "set (map fst (bt_insert k v m)) = Set.insert k (set (map fst m))"
  by (induction k v m rule: bt_insert.induct) auto

lemma bt_wf_distinct: "bt_wf m \<Longrightarrow> distinct (map fst m)"
  by (simp add: bt_wf_def strict_sorted_iff)

lemma bt_wf_insert: "bt_wf m \<Longrightarrow> bt_wf (bt_insert k v m)"
  using keys_bt_insert [of k v]
  by (induction k v m rule: bt_insert.induct) (fastforce simp: bt_wf_def)+

lemma bt_wf_remove: "bt_wf m \<Longrightarrow> bt_wf (bt_remove k m)"
  by (induction m) (auto simp: bt_wf_def bt_remove_def)

lemma bt_get_insert: "bt_wf m \<Longrightarrow> map_of (bt_insert k v m) = (map_of m)(k \<mapsto> v)"
  by (induction k v m rule: bt_insert.induct) (auto simp: bt_wf_def fun_eq_iff)

lemma bt_get_remove: "map_of (bt_remove k m) = (map_of m)(k := None)"
  by (induction m) (auto simp: bt_remove_def fun_eq_iff)

interpretation bt: finite_map bt_insert bt_remove bt_wf
  by unfold_locales
    (simp_all add: bt_wf_distinct bt_wf_insert bt_wf_remove bt_get_insert bt_get_remove,
      simp add: bt_wf_def)

lemma keys_bt_modify [simp]: "map fst (bt_modify k f m) = map fst m"
  by (induction m) (auto simp: bt_modify_def)

lemma bt_wf_modify [simp]: "bt_wf (bt_modify k f m) \<longleftrightarrow> bt_wf m"
  by (simp add: bt_wf_def)

lemma map_of_bt_modify: "map_of (bt_modify k f m) k' =
   (if k' = k then map_option f (map_of m k) else map_of m k')"
  by (induction m) (auto simp: bt_modify_def)

lemma keys_bt_remove: "set (map fst (bt_remove k m)) = set (map fst m) - {k}"
  by (auto simp: bt_remove_def)

end
