(* ===== verification/Ntk_Fingerprint.thy ===== *)
theory Ntk_Fingerprint
  imports Ntk_Topology
begin

section \<open>Fingerprints and eldership (\<open>ntk-common/src/fingerprint.rs\<close>)\<close>

text \<open>
  A g-node's identity and the eldership bookkeeping that arbitrates splits. The identity type is a
  type variable, as in the source; QSPN instantiates it with byte strings. An eldership is an
  \<open>i64\<close> that holds \<open>-1\<close> (virtual, no claim) or a \<open>u32\<close>: an \<open>int\<close> here, since nothing is ever
  added to it.
\<close>

record 'id fingerprint =
  fp_id :: 'id
  fp_level :: usize
  fp_eldership :: int
  fp_pending :: "u32 list"
  fp_seed :: "int list"

record 'id fingerprint_parts =
  parts_id :: 'id
  parts_level :: usize
  parts_eldership :: "u32 option"
  parts_pending :: "u32 list"
  parts_seed :: "u32 option list"

definition elder_claim_outranks :: "int \<Rightarrow> int \<Rightarrow> bool" where
  "elder_claim_outranks candidate current = (if candidate = -1 then False else candidate \<le> current)"

definition eldership_to_option :: "int \<Rightarrow> u32 option" where
  "eldership_to_option raw = (if 0 \<le> raw \<and> raw < 2 ^ 32 then Some (word_of_int raw) else None)"

definition eldership_from_option :: "u32 option \<Rightarrow> int" where
  "eldership_from_option v = (case v of None \<Rightarrow> -1 | Some w \<Rightarrow> uint w)"

definition fingerprint_new :: "'id \<Rightarrow> u32 \<Rightarrow> u32 list \<Rightarrow> 'id fingerprint" where
  "fingerprint_new i eldership pending =
     \<lparr>fp_id = i, fp_level = 0, fp_eldership = uint eldership, fp_pending = pending, fp_seed = []\<rparr>"

definition identity_eq :: "'id fingerprint \<Rightarrow> 'id fingerprint \<Rightarrow> bool" where
  "identity_eq a b \<longleftrightarrow> fp_level a = fp_level b \<and> fp_id a = fp_id b"

text \<open>The champion race of \<open>construct\<close>: the current claim, identity and seed.\<close>

definition champion_step ::
  "int \<times> 'id \<times> int list \<Rightarrow> 'id fingerprint \<Rightarrow> int \<times> 'id \<times> int list" where
  "champion_step champion f =
     (if elder_claim_outranks (fp_eldership f) (fst champion)
      then (fp_eldership f, fp_id f, fp_seed f) else champion)"

definition my_claim :: "'id fingerprint \<Rightarrow> bool \<Rightarrow> int" where
  "my_claim f is_null_eldership = (if is_null_eldership then -1 else fp_eldership f)"

definition fp_construct ::
  "'id fingerprint \<Rightarrow> 'id fingerprint list \<Rightarrow> bool \<Rightarrow> ('id fingerprint, common_error) res" where
  "fp_construct f siblings is_null_eldership =
     (case fp_pending f of
        [] \<Rightarrow> Err TopOfHierarchy
      | next_eldership # rest \<Rightarrow>
          (let (claim, champion, seed) =
             foldl champion_step (my_claim f is_null_eldership, fp_id f, fp_seed f) siblings
           in Ok \<lparr>fp_id = champion, fp_level = fp_level f + 1, fp_eldership = uint next_eldership,
                  fp_pending = rest, fp_seed = claim # seed\<rparr>))"

fun elder_seed_loop :: "int list \<Rightarrow> int list \<Rightarrow> (bool, common_error) res" where
  "elder_seed_loop (mine # ms) (theirs # ts) =
     (if mine < theirs then Ok True
      else if theirs < mine then Ok False
      else elder_seed_loop ms ts)"
| "elder_seed_loop _ _ = Err IndistinguishableFingerprints"

definition elder_seed :: "'id fingerprint \<Rightarrow> 'id fingerprint \<Rightarrow> (bool, common_error) res" where
  "elder_seed a b =
     (if fp_level a = 0 then Err FingerprintBaseLevel
      else if fp_level a \<noteq> fp_level b then Err (FingerprintLevelMismatch (fp_level a) (fp_level b))
      else elder_seed_loop (fp_seed a) (fp_seed b))"

definition same_branch :: "'id fingerprint \<Rightarrow> 'id fingerprint \<Rightarrow> u32 \<Rightarrow> u32 \<Rightarrow> bool" where
  "same_branch a b a_nodes_inside b_nodes_inside \<longleftrightarrow>
     identity_eq a b \<or>
     (1 < a_nodes_inside \<and> 1 < b_nodes_inside \<and>
      elder_seed a b = Err IndistinguishableFingerprints)"

definition to_parts :: "'id fingerprint \<Rightarrow> 'id fingerprint_parts" where
  "to_parts f =
     \<lparr>parts_id = fp_id f, parts_level = fp_level f,
      parts_eldership = eldership_to_option (fp_eldership f), parts_pending = fp_pending f,
      parts_seed = map eldership_to_option (fp_seed f)\<rparr>"

definition from_parts :: "'id fingerprint_parts \<Rightarrow> ('id fingerprint, common_error) res" where
  "from_parts p =
     (if length (parts_seed p) \<noteq> parts_level p
      then Err (FingerprintSeedLength (parts_level p) (length (parts_seed p)))
      else Ok \<lparr>fp_id = parts_id p, fp_level = parts_level p,
               fp_eldership = eldership_from_option (parts_eldership p),
               fp_pending = parts_pending p,
               fp_seed = map eldership_from_option (parts_seed p)\<rparr>)"

subsection \<open>The invariant of the type\<close>

definition eldership_range :: "int \<Rightarrow> bool" where
  "eldership_range e \<longleftrightarrow> -1 \<le> e \<and> e < 2 ^ 32"

definition wf_fp :: "'id fingerprint \<Rightarrow> bool" where
  "wf_fp f \<longleftrightarrow> length (fp_seed f) = fp_level f \<and> eldership_range (fp_eldership f) \<and>
     list_all eldership_range (fp_seed f)"

lemma uint_u32_less [simp]: "uint (w :: u32) < 4294967296"
  using uint_lt2p [of w] by simp

lemma eldership_range_uint [simp]: "eldership_range (uint (w :: u32))"
proof -
  have "0 \<le> uint w" by simp
  then have "- 1 \<le> uint w" by linarith
  then show ?thesis by (simp add: eldership_range_def)
qed

lemma eldership_range_null [simp]: "eldership_range (-1)"
  by (simp add: eldership_range_def)

lemma eldership_range_from_option [simp]: "eldership_range (eldership_from_option v)"
  by (cases v) (simp_all add: eldership_from_option_def)

lemma eldership_option_roundtrip [simp]:
  "eldership_range e \<Longrightarrow> eldership_from_option (eldership_to_option e) = e"
  by (auto simp: eldership_range_def eldership_to_option_def eldership_from_option_def
      uint_word_of_int)

lemma eldership_option_roundtrip2 [simp]: "eldership_to_option (eldership_from_option v) = v"
  by (cases v) (auto simp: eldership_to_option_def eldership_from_option_def)

lemma wf_fp_new [wf_intros]: "wf_fp (fingerprint_new i e ps)"
  by (simp add: wf_fp_def fingerprint_new_def)

subsection \<open>The champion race\<close>

text \<open>What a race leaves: the champion is a contender and no real claim is smaller.\<close>

lemma champion_race:
  assumes "foldl champion_step (c0, i0, s0) fs = (c, i, s)"
  shows "(c, i, s) \<in> insert (c0, i0, s0) ((\<lambda>f. (fp_eldership f, fp_id f, fp_seed f)) ` set fs)
    \<and> c \<le> c0 \<and> (c0 \<noteq> -1 \<longrightarrow> c \<noteq> -1)
    \<and> (\<forall>f \<in> set fs. fp_eldership f \<noteq> -1 \<longrightarrow> c \<le> fp_eldership f)"
  using assms
proof (induction fs arbitrary: c0 i0 s0)
  case Nil
  then show ?case by simp
next
  case (Cons f fs)
  show ?case
  proof (cases "elder_claim_outranks (fp_eldership f) c0")
    case True
    with Cons.prems have "foldl champion_step (fp_eldership f, fp_id f, fp_seed f) fs = (c, i, s)"
      by (simp add: champion_step_def [of "(c0, i0, s0)" f])
    from Cons.IH [OF this] True show ?thesis
      by (auto simp: elder_claim_outranks_def split: if_splits)
  next
    case False
    with Cons.prems have "foldl champion_step (c0, i0, s0) fs = (c, i, s)"
      by (simp add: champion_step_def [of "(c0, i0, s0)" f])
    from Cons.IH [OF this] False show ?thesis
      by (auto simp: elder_claim_outranks_def split: if_splits)
  qed
qed

lemma champion_race_virtual:
  "list_all (\<lambda>f. -1 \<le> fp_eldership f) fs \<Longrightarrow> foldl champion_step (-1, i0, s0) fs = (-1, i0, s0)"
  by (induction fs) (auto simp: champion_step_def elder_claim_outranks_def)

lemma construct_Ok_iff:
  "fp_construct f sibs nul = Ok g \<longleftrightarrow>
     (\<exists>e es c i s. fp_pending f = e # es \<and>
        foldl champion_step (my_claim f nul, fp_id f, fp_seed f) sibs = (c, i, s) \<and>
        g = \<lparr>fp_id = i, fp_level = fp_level f + 1, fp_eldership = uint e, fp_pending = es,
             fp_seed = c # s\<rparr>)"
  by (auto simp: fp_construct_def split: list.splits prod.splits)

lemma construct_not_Panic [simp]: "fp_construct f sibs nul \<noteq> Panic"
  by (auto simp: fp_construct_def split: list.splits prod.splits)

lemma construct_total: "fp_pending f \<noteq> [] \<Longrightarrow> \<exists>g. fp_construct f sibs nul = Ok g"
  by (cases "fp_pending f") (auto simp: fp_construct_def split: prod.splits)

lemma construct_wf [wf_intros]:
  assumes "fp_construct f sibs nul = Ok g" "wf_fp f"
    "\<And>x. x \<in> set sibs \<Longrightarrow> wf_fp x \<and> fp_level x = fp_level f"
  shows "wf_fp g \<and> fp_level g = Suc (fp_level f) \<and> length (fp_pending f) = Suc (length (fp_pending g))"
proof -
  from assms(1) obtain e es c i s where g: "fp_pending f = e # es"
    "foldl champion_step (my_claim f nul, fp_id f, fp_seed f) sibs = (c, i, s)"
    "g = \<lparr>fp_id = i, fp_level = fp_level f + 1, fp_eldership = uint e, fp_pending = es,
          fp_seed = c # s\<rparr>"
    by (auto simp: construct_Ok_iff)
  from champion_race [OF g(2)] assms(2,3) g(1,3) show ?thesis
    by (auto simp: wf_fp_def my_claim_def)
qed

text \<open>\<open>construct\<close> climbs exactly one level and keeps the fingerprint well-formed; the champion
  it records is a contender (itself or a sibling) whose claim no real sibling claim undercuts, and a
  node whose own position is virtual always names itself, whoever its siblings are.\<close>

theorem construct_champion:
  assumes "fp_construct f sibs nul = Ok g" "wf_fp f"
    "\<forall>x \<in> set sibs. wf_fp x \<and> fp_level x = fp_level f"
  shows "wf_fp g \<and> fp_level g = Suc (fp_level f)
    \<and> (\<exists>c s. fp_seed g = c # s \<and>
        (c, fp_id g, s) \<in> insert (my_claim f nul, fp_id f, fp_seed f)
           ((\<lambda>x. (fp_eldership x, fp_id x, fp_seed x)) ` set sibs) \<and>
        c \<le> my_claim f nul \<and> (\<forall>x \<in> set sibs. fp_eldership x \<noteq> -1 \<longrightarrow> c \<le> fp_eldership x))
    \<and> (nul \<longrightarrow> fp_id g = fp_id f \<and> fp_seed g = -1 # fp_seed f)"
proof -
  from assms(1) obtain e es c i s where g: "fp_pending f = e # es"
    "foldl champion_step (my_claim f nul, fp_id f, fp_seed f) sibs = (c, i, s)"
    "g = \<lparr>fp_id = i, fp_level = fp_level f + 1, fp_eldership = uint e, fp_pending = es,
          fp_seed = c # s\<rparr>"
    by (auto simp: construct_Ok_iff)
  have "nul \<longrightarrow> (c, i, s) = (-1, fp_id f, fp_seed f)"
    using champion_race_virtual [of sibs "fp_id f" "fp_seed f"] g(2) assms(3)
    by (auto simp: my_claim_def list_all_iff wf_fp_def eldership_range_def)
  with construct_wf [OF assms(1,2)] champion_race [OF g(2)] assms(3) g(3) show ?thesis by simp
qed

theorem construct_champion_witness:
  "fp_construct (fingerprint_new (1 :: nat) 5 [0]) [fingerprint_new 2 3 [0], fingerprint_new 3 9 [0]] False
     = Ok \<lparr>fp_id = 2, fp_level = 1, fp_eldership = 0, fp_pending = [], fp_seed = [3]\<rparr>
   \<and> wf_fp \<lparr>fp_id = 2 :: nat, fp_level = 1, fp_eldership = 0, fp_pending = [], fp_seed = [3]\<rparr>"
proof -
  have "fp_construct (fingerprint_new (1 :: nat) 5 [0])
      [fingerprint_new 2 3 [0], fingerprint_new 3 9 [0]] False
     = Ok \<lparr>fp_id = 2, fp_level = 1, fp_eldership = 0, fp_pending = [], fp_seed = [3]\<rparr>"
    by (simp add: fp_construct_def fingerprint_new_def my_claim_def champion_step_def
        elder_claim_outranks_def)
  with construct_champion [OF this] show ?thesis
    by (simp add: wf_fp_new) (simp add: fingerprint_new_def)
qed

lemma construct_champion_unique:
  assumes "fp_construct f sibs False = Ok g" "fp_eldership f \<noteq> -1"
    and "set (f # sibs) = M" "inj_on fp_eldership M" "m \<in> M"
    and "\<forall>x \<in> M. fp_eldership x \<noteq> -1 \<and> fp_eldership m \<le> fp_eldership x"
  shows "fp_id g = fp_id m \<and> fp_seed g = fp_eldership m # fp_seed m"
proof -
  from assms(1) obtain e es c i s where g: "fp_pending f = e # es"
    "foldl champion_step (fp_eldership f, fp_id f, fp_seed f) sibs = (c, i, s)"
    "g = \<lparr>fp_id = i, fp_level = fp_level f + 1, fp_eldership = uint e, fp_pending = es,
          fp_seed = c # s\<rparr>"
    by (auto simp: construct_Ok_iff my_claim_def)
  from champion_race [OF g(2)] assms(3) obtain x where
    x: "x \<in> M" "(c, i, s) = (fp_eldership x, fp_id x, fp_seed x)" by auto
  moreover from champion_race [OF g(2)] assms(3,5,6) have "c \<le> fp_eldership m" by auto
  ultimately have "fp_eldership x = fp_eldership m" using assms(6) by force
  with assms(4,5) x have "x = m" by (auto dest: inj_onD)
  with x g(3) show ?thesis by simp
qed

text \<open>C34: when the eldership claims of a g-node's members are real and pairwise distinct, every
  member computes the same champion identity and seed for the g-node, whatever order it sees its
  siblings in.\<close>

theorem construct_agreement:
  assumes "fp_construct a sa False = Ok ga" "fp_construct b sb False = Ok gb"
    and "set (a # sa) = M" "set (b # sb) = M"
    and "inj_on fp_eldership M" "\<forall>x \<in> M. fp_eldership x \<noteq> -1"
  shows "fp_id ga = fp_id gb \<and> fp_seed ga = fp_seed gb"
proof -
  have fin: "finite M" "M \<noteq> {}" using assms(3) by auto
  define m where "m = arg_min_on fp_eldership M"
  have m: "m \<in> M" "\<forall>x \<in> M. fp_eldership m \<le> fp_eldership x"
    using arg_min_if_finite [OF fin, of fp_eldership] by (auto simp: m_def linorder_not_less [symmetric])
  have "fp_id ga = fp_id m \<and> fp_seed ga = fp_eldership m # fp_seed m"
    using assms m by (intro construct_champion_unique [OF assms(1) _ assms(3)]) auto
  moreover have "fp_id gb = fp_id m \<and> fp_seed gb = fp_eldership m # fp_seed m"
    using assms m by (intro construct_champion_unique [OF assms(2) _ assms(4)]) auto
  ultimately show ?thesis by simp
qed

theorem construct_agreement_witness:
  "let a = fingerprint_new (1 :: nat) 5 [0]; b = fingerprint_new 2 3 [0]; c = fingerprint_new 3 9 [0]
   in fp_id (the_ok (fp_construct a [b, c] False)) = fp_id (the_ok (fp_construct c [a, b] False))"
proof -
  let ?a = "fingerprint_new (1 :: nat) 5 [0]" and ?b = "fingerprint_new (2 :: nat) 3 [0]"
    and ?c = "fingerprint_new (3 :: nat) 9 [0]"
  have "\<exists>ga. fp_construct ?a [?b, ?c] False = Ok ga" "\<exists>gc. fp_construct ?c [?a, ?b] False = Ok gc"
    by (simp_all add: fp_construct_def fingerprint_new_def split: prod.splits)
  moreover have "inj_on fp_eldership {?a, ?b, ?c}" "\<forall>x \<in> {?a, ?b, ?c}. fp_eldership x \<noteq> -1"
    by (simp_all add: fingerprint_new_def)
  moreover have "set (?a # [?b, ?c]) = {?a, ?b, ?c}" "set (?c # [?a, ?b]) = {?a, ?b, ?c}" by auto
  ultimately show ?thesis using construct_agreement
    by (metis (no_types, lifting) res.sel(1))
qed

subsection \<open>Ranking by eldership seed\<close>

text \<open>
  What a selection of the "best" element by pairwise comparison relies on: a strict weak order on
  the comparable elements. Two elements may tie; a fold that replaces its current best only by an
  element that beats it then ends on one that nothing beats.
\<close>

locale strict_ranking =
  fixes beats :: "'a \<Rightarrow> 'a \<Rightarrow> bool" and comparable :: "'a \<Rightarrow> bool"
  assumes asym: "comparable a \<Longrightarrow> comparable b \<Longrightarrow> beats a b \<Longrightarrow> \<not> beats b a"
    and neg_trans: "comparable a \<Longrightarrow> comparable b \<Longrightarrow> comparable c \<Longrightarrow>
      \<not> beats a b \<Longrightarrow> \<not> beats b c \<Longrightarrow> \<not> beats a c"
begin

lemma not_refl: "comparable a \<Longrightarrow> \<not> beats a a"
  using asym by blast

lemma trans: "comparable a \<Longrightarrow> comparable b \<Longrightarrow> comparable c \<Longrightarrow>
    beats a b \<Longrightarrow> beats b c \<Longrightarrow> beats a c"
  using asym neg_trans by blast

lemma fold_best:
  assumes "\<forall>x \<in> set (w # xs). comparable x"
  shows "foldl (\<lambda>w x. if beats x w then x else w) w xs \<in> set (w # xs) \<and>
     (\<forall>x \<in> set (w # xs). \<not> beats x (foldl (\<lambda>w x. if beats x w then x else w) w xs))"
  using assms
proof (induction xs arbitrary: w)
  case Nil
  then show ?case by (simp add: not_refl)
next
  case (Cons y ys)
  let ?w = "if beats y w then y else w"
  let ?r = "foldl (\<lambda>w x. if beats x w then x else w) ?w ys"
  have cmp: "comparable y" "comparable w" using Cons.prems by auto
  have "\<forall>x \<in> set (?w # ys). comparable x" using Cons.prems by auto
  from Cons.IH [OF this]
  have IH: "?r \<in> set (?w # ys)" "\<forall>x \<in> set (?w # ys). \<not> beats x ?r" by blast+
  then have r: "comparable ?r" using Cons.prems by (auto split: if_splits)
  have "\<not> beats w ?r \<and> \<not> beats y ?r"
  proof (cases "beats y w")
    case True
    then have "\<not> beats y ?r" using IH(2) by simp
    with True cmp r show ?thesis using neg_trans [of w y ?r] asym [of y w] by blast
  next
    case False
    then have "\<not> beats w ?r" using IH(2) by simp
    with False cmp r show ?thesis using neg_trans [of y w ?r] by blast
  qed
  with IH show ?case by (auto split: if_splits)
qed

end

lemma elder_seed_loop_swap:
  "elder_seed_loop xs ys = Ok True \<longleftrightarrow> elder_seed_loop ys xs = Ok False"
  by (induction xs ys rule: elder_seed_loop.induct) auto

lemma elder_seed_loop_sym_Err:
  "elder_seed_loop xs ys = Err e \<longleftrightarrow> elder_seed_loop ys xs = Err e"
  by (induction xs ys rule: elder_seed_loop.induct) auto

lemma elder_seed_loop_Err_eq:
  "elder_seed_loop xs ys = Err e \<Longrightarrow> e = IndistinguishableFingerprints"
  by (induction xs ys rule: elder_seed_loop.induct) (auto split: if_splits)

lemma elder_seed_loop_not_Panic [simp]: "elder_seed_loop xs ys \<noteq> Panic"
  by (induction xs ys rule: elder_seed_loop.induct) auto

lemma elder_seed_loop_refl: "elder_seed_loop xs xs = Err IndistinguishableFingerprints"
  by (induction xs) auto

lemma elder_seed_loop_tie:
  "length xs = length ys \<Longrightarrow>
   elder_seed_loop xs ys = Err IndistinguishableFingerprints \<longleftrightarrow> xs = ys"
  by (induction xs ys rule: list_induct2) auto

lemma elder_seed_loop_neg_trans:
  "length xs = length ys \<Longrightarrow> length ys = length zs \<Longrightarrow>
   elder_seed_loop xs ys \<noteq> Ok True \<Longrightarrow> elder_seed_loop ys zs \<noteq> Ok True \<Longrightarrow>
   elder_seed_loop xs zs \<noteq> Ok True"
  by (induction xs ys zs rule: list_induct3) (auto split: if_splits)

definition elder_beats :: "'id fingerprint \<Rightarrow> 'id fingerprint \<Rightarrow> bool" where
  "elder_beats a b \<longleftrightarrow> elder_seed a b = Ok True"

definition seeded :: "usize \<Rightarrow> 'id fingerprint \<Rightarrow> bool" where
  "seeded l f \<longleftrightarrow> 0 < l \<and> fp_level f = l \<and> length (fp_seed f) = l"

lemma elder_seed_seeded:
  "seeded l a \<Longrightarrow> seeded l b \<Longrightarrow> elder_seed a b = elder_seed_loop (fp_seed a) (fp_seed b)"
  by (simp add: elder_seed_def seeded_def)

interpretation elder: strict_ranking elder_beats "seeded l" for l
proof
  fix a b c :: "'a fingerprint"
  assume "seeded l a" "seeded l b"
  then show "elder_beats a b \<Longrightarrow> \<not> elder_beats b a"
    by (metis elder_beats_def elder_seed_loop_swap elder_seed_seeded res.inject(1))
  assume "seeded l c" "\<not> elder_beats a b" "\<not> elder_beats b c"
  with \<open>seeded l a\<close> \<open>seeded l b\<close> show "\<not> elder_beats a c"
    using elder_seed_loop_neg_trans [of "fp_seed a" "fp_seed b" "fp_seed c"]
    by (auto simp: elder_beats_def elder_seed_def seeded_def)
qed

lemma elder_seed_not_Panic [simp]: "elder_seed a b \<noteq> Panic"
  by (simp add: elder_seed_def)

lemma elder_seed_seeded_cases:
  assumes "seeded l a" "seeded l b"
  obtains "elder_seed a b = Ok True" | "elder_seed a b = Ok False"
  | "elder_seed a b = Err IndistinguishableFingerprints"
  using assms elder_seed_loop_Err_eq [of "fp_seed a" "fp_seed b"]
  by (cases "elder_seed a b") (auto simp: elder_seed_seeded)

text \<open>Above level 0, among fingerprints of one level, \<open>elder_seed\<close> always answers, is a strict
  order (asymmetric, transitive), and is undecided exactly between equal seeds; below that it fails
  with the base-level or the level-mismatch error.\<close>

theorem elder_seed_total_order:
  "(seeded l a \<and> seeded l b \<and> seeded l c \<longrightarrow>
      (elder_seed a b = Ok True \<longleftrightarrow> elder_seed b a = Ok False)
    \<and> (elder_seed a b = Ok True \<and> elder_seed b c = Ok True \<longrightarrow> elder_seed a c = Ok True)
    \<and> (elder_seed a b = Err IndistinguishableFingerprints \<longleftrightarrow> fp_seed a = fp_seed b)
    \<and> (elder_seed a b = Ok True \<or> elder_seed a b = Ok False \<or> fp_seed a = fp_seed b))
   \<and> (fp_level a = 0 \<longrightarrow> elder_seed a b = Err FingerprintBaseLevel)
   \<and> (0 < fp_level a \<and> fp_level a \<noteq> fp_level b \<longrightarrow>
        elder_seed a b = Err (FingerprintLevelMismatch (fp_level a) (fp_level b)))"
proof -
  have "(elder_seed a b = Ok True \<longleftrightarrow> elder_seed b a = Ok False)
    \<and> (elder_seed a b = Ok True \<and> elder_seed b c = Ok True \<longrightarrow> elder_seed a c = Ok True)
    \<and> (elder_seed a b = Err IndistinguishableFingerprints \<longleftrightarrow> fp_seed a = fp_seed b)
    \<and> (elder_seed a b = Ok True \<or> elder_seed a b = Ok False \<or> fp_seed a = fp_seed b)"
    if *: "seeded l a" "seeded l b" "seeded l c"
  proof -
    have "length (fp_seed a) = length (fp_seed b)" using * by (simp add: seeded_def)
    with * show ?thesis
      using elder_seed_loop_swap [of "fp_seed a" "fp_seed b"] elder.trans [OF *]
        elder_seed_loop_tie [of "fp_seed a" "fp_seed b"] elder_seed_seeded_cases [OF *(1,2)]
      by (auto simp: elder_beats_def elder_seed_seeded)
  qed
  then show ?thesis by (auto simp: elder_seed_def)
qed

theorem elder_seed_total_order_witness:
  "let a = the_ok (fp_construct (fingerprint_new (10 :: nat) 1 [0]) [] False);
       b = the_ok (fp_construct (fingerprint_new 20 2 [0]) [] False)
   in elder_seed a b = Ok True \<and> elder_seed b a = Ok False"
proof -
  let ?a = "the_ok (fp_construct (fingerprint_new (10 :: nat) 1 [0]) [] False)"
  let ?b = "the_ok (fp_construct (fingerprint_new (20 :: nat) 2 [0]) [] False)"
  have "seeded 1 ?a" "seeded 1 ?b" "elder_seed ?a ?b = Ok True"
    by (simp_all add: fp_construct_def fingerprint_new_def my_claim_def seeded_def elder_seed_def)
  with elder_seed_total_order [of 1 ?a ?b ?b] show ?thesis by simp
qed

subsection \<open>Branches\<close>

lemma identity_eq_refl [simp]: "identity_eq a a"
  by (simp add: identity_eq_def)

lemma identity_eq_sym: "identity_eq a b = identity_eq b a"
  by (auto simp: identity_eq_def)

lemma identity_eq_trans: "identity_eq a b \<Longrightarrow> identity_eq b c \<Longrightarrow> identity_eq a c"
  by (simp add: identity_eq_def)

lemma same_branch_refl [simp]: "same_branch a a m n"
  by (simp add: same_branch_def)

lemma same_branch_sym: "same_branch a b m n = same_branch b a n m"
proof -
  have "elder_seed a b = Err IndistinguishableFingerprints \<longleftrightarrow>
      elder_seed b a = Err IndistinguishableFingerprints"
    by (auto simp: elder_seed_def elder_seed_loop_sym_Err)
  then show ?thesis by (auto simp: same_branch_def identity_eq_sym)
qed

text \<open>Two members of one g-node whose claims tie name each other as champion, their g-node
  fingerprints cannot be ordered, and \<open>same_branch\<close> folds the two into one branch exactly when both
  sides report more than one member, so that two halves of a split g-node stay apart.\<close>

theorem tied_members_same_branch:
  assumes "fp_eldership a = fp_eldership b" "fp_eldership a \<noteq> -1" "fp_seed a = fp_seed b"
    and "fp_level a = fp_level b" "fp_id a \<noteq> fp_id b"
    and "fp_construct a [b] False = Ok ga" "fp_construct b [a] False = Ok gb"
  shows "fp_id ga = fp_id b \<and> fp_id gb = fp_id a
    \<and> elder_seed ga gb = Err IndistinguishableFingerprints
    \<and> (same_branch ga gb m n \<longleftrightarrow> 1 < m \<and> 1 < n)"
  using assms
  by (auto simp: construct_Ok_iff my_claim_def champion_step_def elder_claim_outranks_def
      elder_seed_def elder_seed_loop_refl same_branch_def identity_eq_def)

theorem tied_members_same_branch_witness:
  "let a = fingerprint_new (1 :: nat) 0 [0]; b = fingerprint_new 2 0 [0];
       ga = the_ok (fp_construct a [b] False); gb = the_ok (fp_construct b [a] False)
   in fp_id ga = 2 \<and> fp_id gb = 1 \<and> same_branch ga gb 2 2 \<and> \<not> same_branch ga gb 1 2"
proof -
  let ?a = "fingerprint_new (1 :: nat) 0 [0]" and ?b = "fingerprint_new (2 :: nat) 0 [0]"
  let ?ga = "the_ok (fp_construct ?a [?b] False)" and ?gb = "the_ok (fp_construct ?b [?a] False)"
  have g: "fp_construct ?a [?b] False = Ok ?ga" "fp_construct ?b [?a] False = Ok ?gb"
    by (simp_all add: fp_construct_def fingerprint_new_def split: prod.splits)
  have "fp_eldership ?a = fp_eldership ?b" "fp_eldership ?a \<noteq> -1" "fp_seed ?a = fp_seed ?b"
    "fp_level ?a = fp_level ?b" "fp_id ?a \<noteq> fp_id ?b"
    by (simp_all add: fingerprint_new_def)
  note t = tied_members_same_branch [OF this g]
  have "fp_id ?a = 1" "fp_id ?b = 2" by (simp_all add: fingerprint_new_def)
  with t [of 2 2] t [of 1 2] g show ?thesis by simp
qed

subsection \<open>Plain-data parts\<close>

lemma from_parts_to_parts:
  assumes "wf_fp f"
  shows "from_parts (to_parts f) = Ok f"
proof -
  have "map (eldership_from_option \<circ> eldership_to_option) xs = xs" if "list_all eldership_range xs"
    for xs using that by (induction xs) auto
  with assms show ?thesis by (simp add: from_parts_def to_parts_def wf_fp_def)
qed

lemma from_parts_wf:
  assumes "from_parts p = Ok g"
  shows "wf_fp g \<and> to_parts g = p"
proof -
  have inv: "map (eldership_to_option \<circ> eldership_from_option) xs = xs" for xs
    by (induction xs) auto
  from assms have "length (parts_seed p) = parts_level p"
    "g = \<lparr>fp_id = parts_id p, fp_level = parts_level p,
          fp_eldership = eldership_from_option (parts_eldership p),
          fp_pending = parts_pending p,
          fp_seed = map eldership_from_option (parts_seed p)\<rparr>"
    by (simp_all add: from_parts_def split: if_splits)
  then show ?thesis by (simp add: wf_fp_def to_parts_def list_all_iff inv)
qed

text \<open>Taking a well-formed fingerprint apart and rebuilding it is the identity, rebuilding
  always gives a well-formed fingerprint, and parts are refused exactly when the seed trail does not
  have one entry per level.\<close>

theorem fingerprint_parts_roundtrip:
  "(wf_fp f \<longrightarrow> from_parts (to_parts f) = Ok f)
   \<and> (from_parts p = Ok g \<longrightarrow> wf_fp g \<and> to_parts g = p)
   \<and> (from_parts p = Err e \<longleftrightarrow> length (parts_seed p) \<noteq> parts_level p \<and>
        e = FingerprintSeedLength (parts_level p) (length (parts_seed p)))"
proof -
  have c: "from_parts p = Err e \<longleftrightarrow> length (parts_seed p) \<noteq> parts_level p \<and>
      e = FingerprintSeedLength (parts_level p) (length (parts_seed p))"
  proof (cases "length (parts_seed p) = parts_level p")
    case True
    then show ?thesis by (simp add: from_parts_def)
  next
    case False
    then have "from_parts p = Err (FingerprintSeedLength (parts_level p) (length (parts_seed p)))"
      by (simp add: from_parts_def)
    with False show ?thesis by (metis res.inject(2))
  qed
  show ?thesis
    by (intro conjI impI)
      (simp add: from_parts_to_parts, simp add: from_parts_wf, simp add: from_parts_wf, rule c)
qed

theorem fingerprint_parts_roundtrip_witness:
  "from_parts (to_parts (fingerprint_new (7 :: nat) 3 [1, 2])) = Ok (fingerprint_new 7 3 [1, 2])"
  by (rule fingerprint_parts_roundtrip [THEN conjunct1, THEN mp, OF wf_fp_new])

end
