(* ===== verification/Ntk_Cost.thy ===== *)
theory Ntk_Cost
  imports Ntk_Prelude "HOL-Library.Multiset"
begin

section \<open>Path costs (\<open>ntk-common/src/cost.rs\<close>)\<close>

text \<open>
  The ETP metric: an identity \<open>Null\<close>, finite magnitudes that add with saturation, and an absorbing
  \<open>Dead\<close>, in the order \<open>Null < Finite _ < Dead\<close> that the Rust type derives.
  The locale states what route selection needs of a metric; the cost type is its instance.
\<close>

datatype cost = Null | Finite u64 | Dead

fun cost_rank :: "cost \<Rightarrow> nat \<times> nat" where
  "cost_rank Null = (0, 0)"
| "cost_rank (Finite v) = (1, unat v)"
| "cost_rank Dead = (2, 0)"

instantiation cost :: linorder
begin
definition less_eq_cost :: "cost \<Rightarrow> cost \<Rightarrow> bool" where
  "a \<le> b \<longleftrightarrow> cost_rank a \<le> cost_rank b"
definition less_cost :: "cost \<Rightarrow> cost \<Rightarrow> bool" where
  "a < b \<longleftrightarrow> cost_rank a < cost_rank b"
instance
proof
  fix a b c :: cost
  show "(a < b) = (a \<le> b \<and> \<not> b \<le> a)" by (auto simp: less_eq_cost_def less_cost_def)
  show "a \<le> a" by (simp add: less_eq_cost_def)
  show "a \<le> b \<Longrightarrow> b \<le> c \<Longrightarrow> a \<le> c" by (auto simp: less_eq_cost_def)
  show "a \<le> b \<Longrightarrow> b \<le> a \<Longrightarrow> a = b"
    by (cases a; cases b) (auto simp: less_eq_cost_def word_unat_eq_iff)
  show "a \<le> b \<or> b \<le> a" by (auto simp: less_eq_cost_def)
qed
end

fun is_dead :: "cost \<Rightarrow> bool" where
  "is_dead Dead = True"
| "is_dead _ = False"

fun is_null :: "cost \<Rightarrow> bool" where
  "is_null Null = True"
| "is_null _ = False"

fun cost_saturating_add :: "cost \<Rightarrow> cost \<Rightarrow> cost" where
  "cost_saturating_add Dead x = Dead"
| "cost_saturating_add x Dead = Dead"
| "cost_saturating_add Null x = x"
| "cost_saturating_add x Null = x"
| "cost_saturating_add (Finite a) (Finite b) = Finite (sat_add64 a b)"

lemma is_dead_iff [simp]: "is_dead c \<longleftrightarrow> c = Dead"
  by (cases c) auto

lemma cost_le_simps [simp]:
  "Null \<le> c" "c \<le> Dead" "Finite a \<le> Finite b \<longleftrightarrow> a \<le> b" "\<not> Finite a \<le> Null" "\<not> Dead \<le> Finite a"
  "\<not> Dead \<le> Null"
  by (cases c; simp add: less_eq_cost_def word_le_nat_alt)+

lemma cost_less_simps [simp]:
  "Null < Finite a" "Finite a < Dead" "Null < Dead" "Finite a < Finite b \<longleftrightarrow> a < b"
  "\<not> c < Null" "\<not> Dead < c" "\<not> Finite a < Null"
  by (cases c; simp add: less_cost_def word_less_nat_alt)+

subsection \<open>What a path metric has to satisfy\<close>

locale path_metric =
  fixes add :: "'c::linorder \<Rightarrow> 'c \<Rightarrow> 'c" and zero :: 'c and dead :: 'c
  assumes add_assoc: "add (add a b) c = add a (add b c)"
    and add_commute: "add a b = add b a"
    and add_zero: "add zero a = a"
    and add_eq_dead: "add a b = dead \<longleftrightarrow> a = dead \<or> b = dead"
    and add_mono: "a \<le> b \<Longrightarrow> add a c \<le> add b c"
    and zero_least: "zero \<le> a"
    and dead_greatest: "a \<le> dead"
begin

lemma add_ge: "a \<le> add a b"
  by (metis add_commute add_mono add_zero zero_least)

lemma add_mono2: "a \<le> b \<Longrightarrow> c \<le> d \<Longrightarrow> add a c \<le> add b d"
  by (metis add_commute add_mono order_trans)

lemma sum_dead: "foldr add cs zero = dead \<longleftrightarrow> dead \<in> set cs \<or> zero = dead"
  by (induction cs) (auto simp: add_eq_dead)

lemma sum_ge: "c \<in> set cs \<Longrightarrow> c \<le> foldr add cs zero"
proof (induction cs)
  case (Cons a cs)
  then show ?case
    by (auto intro: add_ge) (metis add_commute add_ge order_trans)
qed simp

lemma sum_perm: "mset cs = mset ds \<Longrightarrow> foldr add cs zero = foldr add ds zero"
proof -
  have swap: "add a \<circ> add b = add b \<circ> add a" for a b
    by (auto simp: fun_eq_iff) (metis add_assoc add_commute)
  assume "mset cs = mset ds"
  then have "fold add cs = fold add ds" by (intro fold_multiset_equiv) (auto simp: swap)
  with swap show ?thesis by (simp add: foldr_fold)
qed

end

lemma cost_add_commute: "cost_saturating_add a b = cost_saturating_add b a"
  by (cases a; cases b) (auto simp: sat_add64_commute)

lemma cost_add_assoc:
  "cost_saturating_add (cost_saturating_add a b) c = cost_saturating_add a (cost_saturating_add b c)"
  by (cases a; cases b; cases c) (auto simp: sat_add64_assoc)

lemma cost_add_mono: "a \<le> b \<Longrightarrow> cost_saturating_add a c \<le> cost_saturating_add b c"
proof -
  have "unat w \<le> 2 ^ 64 - 1" for w :: u64
    using unsigned_less [of w] unat_u64_max by (metis word_le_nat_alt word_order.extremum)
  then show "a \<le> b \<Longrightarrow> cost_saturating_add a c \<le> cost_saturating_add b c"
    by (cases a; cases b; cases c) (auto simp: word_le_nat_alt unat_sat_add64)
qed

interpretation cost: path_metric cost_saturating_add Null Dead
proof
  fix a b c :: cost
  show "cost_saturating_add Null a = a" by (cases a) auto
  show "cost_saturating_add a b = Dead \<longleftrightarrow> a = Dead \<or> b = Dead" by (cases a; cases b) auto
  show "cost_saturating_add a b = cost_saturating_add b a" by (rule cost_add_commute)
qed (simp_all add: cost_add_assoc cost_add_mono)

text \<open>The cost of a concatenation of segments does not depend on their order or grouping, is at
  least the cost of every segment (it never wraps around), is \<open>Dead\<close> exactly when some segment is,
  and replacing a segment by a cheaper one never makes the whole dearer.\<close>

theorem path_cost_metric:
  "(mset cs = mset ds \<longrightarrow> foldr cost_saturating_add cs Null = foldr cost_saturating_add ds Null)
   \<and> (\<forall>c \<in> set cs. c \<le> foldr cost_saturating_add cs Null)
   \<and> (foldr cost_saturating_add cs Null = Dead \<longleftrightarrow> Dead \<in> set cs)
   \<and> (a \<le> b \<longrightarrow> foldr cost_saturating_add (cs @ a # es) Null \<le>
        foldr cost_saturating_add (cs @ b # es) Null)"
proof -
  have "foldr cost_saturating_add (cs @ a # es) Null \<le> foldr cost_saturating_add (cs @ b # es) Null"
    if "a \<le> b"
    using that by (induction cs) (auto intro: cost.add_mono2)
  then show ?thesis by (auto intro: cost.sum_perm cost.sum_ge simp: cost.sum_dead)
qed

theorem path_cost_metric_witness:
  "foldr cost_saturating_add [Finite (- 1), Finite 1] Null = Finite (- 1)
   \<and> Finite 1 \<le> foldr cost_saturating_add [Finite (- 1), Finite 1] Null"
proof -
  have "Finite 1 \<le> foldr cost_saturating_add [Finite (- 1), Finite 1] Null"
    using path_cost_metric [of "[Finite (- 1), Finite 1]"] by (meson list.set_intros)
  then show ?thesis by (simp add: sat_add64_def)
qed

end
