(* ===== verification/Qspn_Path.thy ===== *)
theory Qspn_Path
  imports Ntk_Fingerprint Ntk_Cost
begin

section \<open>Paths, ETPs and destinations (\<open>ntk-qspn/src/path.rs\<close>)\<close>

text \<open>
  The data an Extended Tracer Packet carries and the destination map stores, the selection of the
  winning fingerprint of a destination, and the evaluation of a destination to its best path.
  An \<open>ArcId\<close> is the \<open>u32\<close> it wraps; a fingerprint's identity is a byte string.
\<close>

type_synonym arc_id = u32
type_synonym fp = "u8 list fingerprint"

record hop =
  hop_arc :: arc_id
  hop_coord :: hcoord

record etp_path =
  ep_hops :: "hcoord list"
  ep_arcs :: "arc_id list"
  ep_cost :: cost
  ep_fingerprint :: fp
  ep_nodes_inside :: u32
  ep_ignore_outside :: "bool list"

record etp_message =
  em_node_address :: naddr
  em_fingerprints :: "fp list"
  em_nodes_inside :: "u32 list"
  em_hops :: "hcoord list"
  em_paths :: "etp_path list"

record node_path =
  np_arc :: arc_id
  np_path :: etp_path
  np_exposed :: bool

record route_path =
  rp_arc :: arc_id
  rp_hops :: "hop list"
  rp_cost :: cost
  rp_nodes_inside :: u32

record destination =
  dest_coord :: hcoord
  dest_paths :: "node_path list"

abbreviation np_hops :: "node_path \<Rightarrow> hcoord list" where "np_hops np \<equiv> ep_hops (np_path np)"
abbreviation np_arcs :: "node_path \<Rightarrow> arc_id list" where "np_arcs np \<equiv> ep_arcs (np_path np)"
abbreviation np_fp :: "node_path \<Rightarrow> fp" where "np_fp np \<equiv> ep_fingerprint (np_path np)"
abbreviation np_nodes_inside :: "node_path \<Rightarrow> u32" where
  "np_nodes_inside np \<equiv> ep_nodes_inside (np_path np)"

definition node_path_new :: "arc_id \<Rightarrow> etp_path \<Rightarrow> node_path" where
  "node_path_new arc path = \<lparr>np_arc = arc, np_path = path, np_exposed = False\<rparr>"

definition total_cost :: "node_path \<Rightarrow> cost \<Rightarrow> cost" where
  "total_cost np arc_cost = cost_saturating_add arc_cost (ep_cost (np_path np))"

definition hops_arcs_equal :: "node_path \<Rightarrow> etp_path \<Rightarrow> bool" where
  "hops_arcs_equal np other \<longleftrightarrow> np_hops np = ep_hops other \<and> np_arcs np = ep_arcs other"

definition to_route_path :: "node_path \<Rightarrow> cost \<Rightarrow> route_path" where
  "to_route_path np arc_cost =
     \<lparr>rp_arc = np_arc np,
      rp_hops = map (\<lambda>(coord, arc). \<lparr>hop_arc = arc, hop_coord = coord\<rparr>) (zip (np_hops np) (np_arcs np)),
      rp_cost = total_cost np arc_cost,
      rp_nodes_inside = np_nodes_inside np\<rparr>"

definition prepare_for_sending :: "node_path \<Rightarrow> cost \<Rightarrow> etp_path" where
  "prepare_for_sending np arc_cost =
     \<lparr>ep_hops = np_hops np, ep_arcs = np_arcs np, ep_cost = total_cost np arc_cost,
      ep_fingerprint = np_fp np, ep_nodes_inside = np_nodes_inside np, ep_ignore_outside = []\<rparr>"

subsection \<open>The winning fingerprint\<close>

fun winning_step :: "fp option \<Rightarrow> node_path \<Rightarrow> (fp option, common_error) res" where
  "winning_step None p = Ok (Some (np_fp p))"
| "winning_step (Some w) p =
     (if identity_eq (np_fp p) w then Ok (Some w)
      else case elder_seed (np_fp p) w of
             Ok True \<Rightarrow> Ok (Some (np_fp p))
           | Ok False \<Rightarrow> Ok (Some w)
           | Err e \<Rightarrow> if e = IndistinguishableFingerprints then Ok (Some w) else Err e
           | Panic \<Rightarrow> Panic)"

definition winning_fingerprint :: "node_path list \<Rightarrow> (fp option, common_error) res" where
  "winning_fingerprint paths = fold_res winning_step None paths"

subsection \<open>Evaluating a destination\<close>

definition dest_evaluate ::
  "destination \<Rightarrow> (arc_id \<Rightarrow> cost) \<Rightarrow> (fp \<times> u32 \<times> usize, common_error) res" where
  "dest_evaluate d arc_cost =
     (let cost_of = (\<lambda>(i, p). total_cost p (arc_cost (np_arc p))) in
      if dest_paths d = [] then Panic
      else if hc_level (dest_coord d) = 0 then
        res_bind (expect (min_by_key cost_of (enumerate 0 (dest_paths d)))) (\<lambda>(idx, best).
        Ok (np_fp best, np_nodes_inside best, idx))
      else
        res_bind (winning_fingerprint (dest_paths d)) (\<lambda>w.
        res_bind (expect w) (\<lambda>winner.
        res_bind (expect (min_by_key cost_of
            (filter (\<lambda>(i, p). identity_eq (np_fp p) winner) (enumerate 0 (dest_paths d)))))
          (\<lambda>(idx, best). Ok (winner, np_nodes_inside best, idx)))))"

subsection \<open>The fingerprints of one destination\<close>

text \<open>
  What the paths to one destination at level \<open>l\<close> have in common: well-formed fingerprints of that
  level.
\<close>

definition level_fps :: "usize \<Rightarrow> node_path list \<Rightarrow> bool" where
  "level_fps l ps \<longleftrightarrow> (\<forall>p \<in> set ps. wf_fp (np_fp p) \<and> fp_level (np_fp p) = l)"

lemma level_fps_simps [simp]:
  "level_fps l []"
  "level_fps l (p # ps) \<longleftrightarrow> wf_fp (np_fp p) \<and> fp_level (np_fp p) = l \<and> level_fps l ps"
  by (auto simp: level_fps_def)

lemma level_fps_subset: "level_fps l ps \<Longrightarrow> set qs \<subseteq> set ps \<Longrightarrow> level_fps l qs"
  by (auto simp: level_fps_def)

lemma level_fps_seeded: "level_fps l ps \<Longrightarrow> 0 < l \<Longrightarrow> p \<in> set ps \<Longrightarrow> seeded l (np_fp p)"
  by (simp add: level_fps_def seeded_def wf_fp_def)

text \<open>Equal identities carry equal seeds.\<close>

definition seeds_coherent :: "'id fingerprint set \<Rightarrow> bool" where
  "seeds_coherent F \<longleftrightarrow> (\<forall>f \<in> F. \<forall>g \<in> F. identity_eq f g \<longrightarrow> fp_seed f = fp_seed g)"

lemma seeds_coherent_subset: "seeds_coherent F \<Longrightarrow> G \<subseteq> F \<Longrightarrow> seeds_coherent G"
  unfolding seeds_coherent_def by blast

lemma seeds_coherentD: "seeds_coherent F \<Longrightarrow> f \<in> F \<Longrightarrow> g \<in> F \<Longrightarrow> identity_eq f g \<Longrightarrow> fp_seed f = fp_seed g"
  unfolding seeds_coherent_def by (drule bspec, assumption, drule bspec, assumption) (erule mp)

lemma winning_step_Some:
  assumes "seeded l w" "seeded l (np_fp p)"
  shows "winning_step (Some w) p =
     Ok (Some (if \<not> identity_eq (np_fp p) w \<and> elder_beats (np_fp p) w then np_fp p else w))"
  by (rule elder_seed_seeded_cases [OF assms(2,1)]) (simp_all add: elder_beats_def)

lemma winning_loop_total:
  assumes "0 < l" "seeded l w" "\<forall>p \<in> set ps. seeded l (np_fp p)"
  shows "\<exists>w'. fold_res winning_step (Some w) ps = Ok (Some w') \<and> w' \<in> insert w (np_fp ` set ps)"
  using assms(2,3)
proof (induction ps arbitrary: w)
  case Nil
  then show ?case by simp
next
  case (Cons p ps)
  let ?w = "if \<not> identity_eq (np_fp p) w \<and> elder_beats (np_fp p) w then np_fp p else w"
  have "seeded l ?w" using Cons.prems by simp
  with Cons.IH [of ?w] Cons.prems show ?case
    by (simp add: winning_step_Some del: winning_step.simps) (auto split: if_splits)
qed

lemma winning_fingerprint_total:
  assumes "level_fps l ps" "0 < l" "ps \<noteq> []"
  shows "\<exists>w \<in> np_fp ` set ps. winning_fingerprint ps = Ok (Some w)"
proof -
  from assms(3) obtain p qs where ps: "ps = p # qs" by (cases ps) auto
  have "\<forall>q \<in> set ps. seeded l (np_fp q)" using assms by (auto intro: level_fps_seeded)
  with ps winning_loop_total [OF assms(2), of "np_fp p" qs] show ?thesis
    by (auto simp: winning_fingerprint_def)
qed

lemma winning_loop_fold:
  assumes "seeded l w" "\<forall>p \<in> set ps. seeded l (np_fp p)"
    and "seeds_coherent (insert w (np_fp ` set ps))"
  shows "fold_res winning_step (Some w) ps =
     Ok (Some (foldl (\<lambda>w x. if elder_beats x w then x else w) w (map np_fp ps)))"
  using assms
proof (induction ps arbitrary: w)
  case Nil
  then show ?case by simp
next
  case (Cons p ps)
  let ?w = "if elder_beats (np_fp p) w then np_fp p else w"
  have no: "\<not> (identity_eq (np_fp p) w \<and> elder_beats (np_fp p) w)"
  proof
    assume *: "identity_eq (np_fp p) w \<and> elder_beats (np_fp p) w"
    then have "fp_seed (np_fp p) = fp_seed w" by (intro seeds_coherentD [OF Cons.prems(3)]) auto
    with * Cons.prems(1,2) show False
      by (simp add: elder_beats_def elder_seed_seeded [of l] elder_seed_loop_refl)
  qed
  have IH: "fold_res winning_step (Some ?w) ps =
     Ok (Some (foldl (\<lambda>w x. if elder_beats x w then x else w) ?w (map np_fp ps)))"
  proof (rule Cons.IH)
    show "seeds_coherent (insert ?w (np_fp ` set ps))"
      by (rule seeds_coherent_subset [OF Cons.prems(3)]) auto
  qed (use Cons.prems(1,2) in auto)
  have "winning_step (Some w) p = Ok (Some
      (if \<not> identity_eq (np_fp p) w \<and> elder_beats (np_fp p) w then np_fp p else w))"
    using Cons.prems(1,2) by (intro winning_step_Some) auto
  with no have "winning_step (Some w) p = Ok (Some ?w)" by (cases "elder_beats (np_fp p) w") simp_all
  with IH show ?case by (simp only: fold_res.simps res_bind.simps list.map foldl.simps)
qed

text \<open>Among the paths to a destination above level 0, as long as equal identities carry equal
  seeds, the winning fingerprint exists, is one of the paths' own, and no path's fingerprint is
  elder than it; and its seed does not depend on the order the paths are stored in.\<close>

theorem winning_fingerprint_undominated:
  assumes "level_fps l ps" "0 < l" "ps \<noteq> []" "set qs = set ps"
    and "seeds_coherent (np_fp ` set ps)"
  shows "\<exists>w v. winning_fingerprint ps = Ok (Some w) \<and> w \<in> np_fp ` set ps \<and>
     (\<forall>p \<in> set ps. elder_seed (np_fp p) w \<noteq> Ok True) \<and>
     winning_fingerprint qs = Ok (Some v) \<and> fp_seed v = fp_seed w"
proof -
  have best: "\<exists>w. winning_fingerprint rs = Ok (Some w) \<and> w \<in> np_fp ` set ps \<and>
     (\<forall>p \<in> set ps. \<not> elder_beats (np_fp p) w)" if rs: "set rs = set ps" for rs
  proof -
    from rs assms(3) obtain r rs' where r: "rs = r # rs'" by (cases rs) auto
    let ?w = "foldl (\<lambda>w x. if elder_beats x w then x else w) (np_fp r) (map np_fp rs')"
    have sd: "\<forall>p \<in> set rs. seeded l (np_fp p)"
      using assms(1,2) rs by (auto intro: level_fps_seeded)
    have img: "insert (np_fp r) (np_fp ` set rs') = np_fp ` set ps" unfolding rs [symmetric] r by simp
    have "fold_res winning_step (Some (np_fp r)) rs' = Ok (Some ?w)"
    proof (rule winning_loop_fold)
      show "seeds_coherent (insert (np_fp r) (np_fp ` set rs'))" unfolding img by (rule assms(5))
    qed (use sd r in auto)
    then have "winning_fingerprint rs = Ok (Some ?w)" by (simp add: winning_fingerprint_def r)
    moreover have "?w \<in> set (np_fp r # map np_fp rs') \<and>
        (\<forall>x \<in> set (np_fp r # map np_fp rs'). \<not> elder_beats x ?w)"
      using sd r by (intro elder.fold_best [of _ _ l]) auto
    then have "?w \<in> np_fp ` set ps \<and> (\<forall>p \<in> set ps. \<not> elder_beats (np_fp p) ?w)"
      using img by simp
    ultimately show ?thesis by blast
  qed
  from best [of ps] obtain w where w: "winning_fingerprint ps = Ok (Some w)" "w \<in> np_fp ` set ps"
    "\<forall>p \<in> set ps. \<not> elder_beats (np_fp p) w" by auto
  from best [OF assms(4)] obtain v where v: "winning_fingerprint qs = Ok (Some v)"
    "v \<in> np_fp ` set ps" "\<forall>p \<in> set ps. \<not> elder_beats (np_fp p) v" by auto
  have sd: "seeded l v" "seeded l w"
    using v(2) w(2) assms(1,2) by (auto intro: level_fps_seeded)
  have "\<not> elder_beats v w" "\<not> elder_beats w v" using v w by auto
  then have "elder_seed v w = Err IndistinguishableFingerprints"
    using elder_seed_loop_swap [of "fp_seed w" "fp_seed v"] sd
    by - (rule elder_seed_seeded_cases [OF sd], auto simp: elder_beats_def elder_seed_seeded [of l])
  then have "elder_seed_loop (fp_seed v) (fp_seed w) = Err IndistinguishableFingerprints"
    by (simp add: elder_seed_seeded [OF sd])
  with sd have "fp_seed v = fp_seed w" by (simp add: elder_seed_loop_tie seeded_def)
  with v w show ?thesis by (intro exI [of _ w] exI [of _ v]) (simp add: elder_beats_def)
qed

lemma dest_evaluate_cases:
  assumes "level_fps (hc_level (dest_coord d)) (dest_paths d)" "dest_paths d \<noteq> []"
  obtains f i where "dest_evaluate d c = Ok (f, np_nodes_inside (dest_paths d ! i), i)"
    "i < length (dest_paths d)" "f \<in> np_fp ` set (dest_paths d)" "identity_eq (np_fp (dest_paths d ! i)) f"
    "if hc_level (dest_coord d) = 0 then f = np_fp (dest_paths d ! i) else winning_fingerprint (dest_paths d) = Ok (Some f)"
    "\<And>p. p \<in> set (dest_paths d) \<Longrightarrow> hc_level (dest_coord d) = 0 \<or> identity_eq (np_fp p) f \<Longrightarrow>
       total_cost (dest_paths d ! i) (c (np_arc (dest_paths d ! i))) \<le> total_cost p (c (np_arc p))"
proof (cases "hc_level (dest_coord d) = 0")
  case True
  let ?k = "\<lambda>(i :: nat, p). total_cost p (c (np_arc p))"
  obtain i b where m: "min_by_key ?k (enumerate 0 (dest_paths d)) = Some (i, b)"
    using min_by_key_total [of "enumerate 0 (dest_paths d)" ?k] assms(2)
    by (metis length_enumerate length_0_conv surj_pair)
  then have b: "i < length (dest_paths d)" "b = dest_paths d ! i"
    and min: "\<forall>y \<in> set (enumerate 0 (dest_paths d)). ?k (i, b) \<le> ?k y"
    using min_by_key_SomeD [OF m] by (auto simp: set_enumerate_0)
  have "dest_evaluate d c = Ok (np_fp b, np_nodes_inside (dest_paths d ! i), i)"
    using assms(2) True m b by (simp add: dest_evaluate_def Let_def)
  moreover have "total_cost b (c (np_arc b)) \<le> total_cost p (c (np_arc p))" if "p \<in> set (dest_paths d)" for p
  proof -
    from that obtain j where "(j, p) \<in> set (enumerate 0 (dest_paths d))"
      unfolding set_enumerate_0 by (auto simp: in_set_conv_nth)
    with min show ?thesis by fastforce
  qed
  ultimately show ?thesis
    using that [of "np_fp b" i] True b by (simp add: identity_eq_def)
next
  case False
  let ?k = "\<lambda>(i :: nat, p). total_cost p (c (np_arc p))"
  obtain w where w: "winning_fingerprint (dest_paths d) = Ok (Some w)" "w \<in> np_fp ` set (dest_paths d)"
    using winning_fingerprint_total [OF assms(1)] False assms(2) by blast
  let ?xs = "filter (\<lambda>(i, p). identity_eq (np_fp p) w) (enumerate 0 (dest_paths d))"
  have in_xs: "(j, p) \<in> set ?xs \<longleftrightarrow> j < length (dest_paths d) \<and> dest_paths d ! j = p \<and> identity_eq (np_fp p) w" for j p
    by (auto simp: set_enumerate_0)
  obtain j where "(j, dest_paths d ! j) \<in> set ?xs"
    using w(2) unfolding in_xs by (auto simp: in_set_conv_nth identity_eq_def)
  then have "?xs \<noteq> []" by (metis empty_iff empty_set)
  then obtain i b where m: "min_by_key ?k ?xs = Some (i, b)"
    using min_by_key_total [of ?xs ?k] by (metis surj_pair)
  then have b: "i < length (dest_paths d)" "b = dest_paths d ! i" "identity_eq (np_fp b) w"
    and min: "\<forall>y \<in> set ?xs. ?k (i, b) \<le> ?k y"
    using min_by_key_SomeD [OF m] unfolding in_xs by blast+
  have "dest_evaluate d c = Ok (w, np_nodes_inside (dest_paths d ! i), i)"
    using assms(2) False w(1) m b(2) by (simp add: dest_evaluate_def Let_def)
  moreover have "total_cost b (c (np_arc b)) \<le> total_cost p (c (np_arc p))"
    if "p \<in> set (dest_paths d)" "identity_eq (np_fp p) w" for p
  proof -
    from that obtain j where "(j, p) \<in> set ?xs" unfolding in_xs by (auto simp: in_set_conv_nth)
    with min show ?thesis by fastforce
  qed
  ultimately show ?thesis using that [of w i] False b w by simp
qed

text \<open>A destination with paths always evaluates, to the cheapest of its paths at level 0, and above
  to the winning fingerprint with the cheapest of the paths that carry its identity.\<close>

theorem dest_evaluate_best:
  assumes "level_fps (hc_level (dest_coord d)) (dest_paths d)" "dest_paths d \<noteq> []"
  shows "\<exists>f i. dest_evaluate d c = Ok (f, np_nodes_inside (dest_paths d ! i), i) \<and>
     i < length (dest_paths d) \<and> identity_eq (np_fp (dest_paths d ! i)) f \<and>
     (hc_level (dest_coord d) \<noteq> 0 \<longrightarrow> winning_fingerprint (dest_paths d) = Ok (Some f)) \<and>
     (\<forall>p \<in> set (dest_paths d). hc_level (dest_coord d) = 0 \<or> identity_eq (np_fp p) f \<longrightarrow>
        total_cost (dest_paths d ! i) (c (np_arc (dest_paths d ! i))) \<le> total_cost p (c (np_arc p)))"
proof -
  obtain f i where "dest_evaluate d c = Ok (f, np_nodes_inside (dest_paths d ! i), i)"
    "i < length (dest_paths d)" "identity_eq (np_fp (dest_paths d ! i)) f"
    "if hc_level (dest_coord d) = 0 then f = np_fp (dest_paths d ! i) else winning_fingerprint (dest_paths d) = Ok (Some f)"
    "\<And>p. p \<in> set (dest_paths d) \<Longrightarrow> hc_level (dest_coord d) = 0 \<or> identity_eq (np_fp p) f \<Longrightarrow>
       total_cost (dest_paths d ! i) (c (np_arc (dest_paths d ! i))) \<le> total_cost p (c (np_arc p))"
    using dest_evaluate_cases [OF assms, of c] by metis
  then show ?thesis by (intro exI [of _ f] exI [of _ i]) (simp split: if_splits)
qed

definition example_fp :: "u8 \<Rightarrow> int \<Rightarrow> fp" where
  "example_fp b e = \<lparr>fp_id = [b], fp_level = 1, fp_eldership = e, fp_pending = [], fp_seed = [e]\<rparr>"

definition example_node_path :: "arc_id \<Rightarrow> fp \<Rightarrow> cost \<Rightarrow> node_path" where
  "example_node_path a f c = node_path_new a
     \<lparr>ep_hops = [HCoord 0 2, HCoord 1 3], ep_arcs = [a, a + 1], ep_cost = c, ep_fingerprint = f,
      ep_nodes_inside = 4, ep_ignore_outside = [False, False]\<rparr>"

lemma example_paths_ok:
  "level_fps 1 [example_node_path 7 (example_fp 1 0) Null, example_node_path 8 (example_fp 2 5) Null]"
  "seeds_coherent (np_fp ` set [example_node_path 7 (example_fp 1 0) Null, example_node_path 8 (example_fp 2 5) Null])"
  by (simp_all add: level_fps_def example_node_path_def node_path_new_def example_fp_def wf_fp_def
      eldership_range_def seeds_coherent_def identity_eq_def)

theorem winning_fingerprint_undominated_witness:
  "\<exists>w v. winning_fingerprint [example_node_path 7 (example_fp 1 0) Null, example_node_path 8 (example_fp 2 5) Null]
      = Ok (Some w) \<and>
     winning_fingerprint [example_node_path 8 (example_fp 2 5) Null, example_node_path 7 (example_fp 1 0) Null]
      = Ok (Some v) \<and> fp_seed v = fp_seed w"
  using winning_fingerprint_undominated [OF example_paths_ok(1) zero_less_one _ _ example_paths_ok(2),
      of "[example_node_path 8 (example_fp 2 5) Null, example_node_path 7 (example_fp 1 0) Null]"]
  by (auto simp: insert_commute)

theorem dest_evaluate_best_witness:
  "\<exists>f i. dest_evaluate \<lparr>dest_coord = HCoord 1 3, dest_paths = [example_node_path 7 (example_fp 1 0) Null,
       example_node_path 8 (example_fp 2 5) Null]\<rparr> (\<lambda>_. Finite 3) = Ok (f, 4, i) \<and> i < 2"
proof -
  let ?d = "\<lparr>dest_coord = HCoord 1 3, dest_paths = [example_node_path 7 (example_fp 1 0) Null,
       example_node_path 8 (example_fp 2 5) Null]\<rparr>"
  have n: "np_nodes_inside (dest_paths ?d ! i) = 4" if "i < 2" for i
  proof -
    from that have "i = 0 \<or> i = 1" by auto
    then show ?thesis by (auto simp: example_node_path_def node_path_new_def)
  qed
  obtain f i where "dest_evaluate ?d (\<lambda>_. Finite 3) = Ok (f, np_nodes_inside (dest_paths ?d ! i), i)" "i < 2"
    using dest_evaluate_best [of ?d "\<lambda>_. Finite 3"] example_paths_ok(1) by (auto simp: numeral_2_eq_2)
  with n [of i] show ?thesis by auto
qed

end
