(* ===== verification/Qspn_Validate.thy ===== *)
theory Qspn_Validate
  imports Qspn_Path
begin

section \<open>Shape validation of ETPs (\<open>ntk-qspn/src/validate.rs\<close>)\<close>

text \<open>
  The gate every received and every emitted message passes. The operations are translated with
  their panics (the \<open>expect\<close> on \<open>gsize\<close>, the slice of \<open>ignore_outside\<close>); the predicates \<open>hops_ok\<close>,
  \<open>path_shape_ok\<close> and \<open>message_shape_ok\<close> say what the gate accepts, and the lemmas show that the
  operations never panic and compute exactly these.
\<close>

fun check_hop_list_loop :: "topology \<Rightarrow> usize \<Rightarrow> hcoord list \<Rightarrow> (bool, 'e) res" where
  "check_hop_list_loop t curlvl [] = Ok True"
| "check_hop_list_loop t curlvl (c # cs) =
     (if hc_level c < curlvl \<or> topology_levels t \<le> hc_level c then Ok False
      else res_bind (expect (topology_gsize t (hc_level c))) (\<lambda>gsize.
        if gsize \<le> hc_pos c then Ok False
        else check_hop_list_loop t (hc_level c) cs))"

definition check_hop_list :: "hcoord list \<Rightarrow> topology \<Rightarrow> (bool, 'e) res" where
  "check_hop_list hops t = check_hop_list_loop t 0 hops"

text \<open>The slice \<open>xs[from..]\<close>.\<close>

definition slice_from :: "'a list \<Rightarrow> usize \<Rightarrow> ('a list, 'e) res" where
  "slice_from xs from = (if from \<le> length xs then Ok (drop from xs) else Panic)"

definition check_path :: "etp_path \<Rightarrow> topology \<Rightarrow> (bool, 'e) res" where
  "check_path p t =
     (if ep_hops p = [] then Ok False
      else let end_hop = last (ep_hops p) in
      if length (ep_ignore_outside p) \<noteq> topology_levels t then Ok False
      else if topology_levels t \<le> hc_level end_hop then Ok False
      else res_bind (slice_from (ep_ignore_outside p) (Suc (hc_level end_hop))) (\<lambda>outside.
        if list_ex (\<lambda>ignore. \<not> ignore) outside then Ok False
        else if fp_level (ep_fingerprint p) \<noteq> hc_level end_hop then Ok False
        else if length (ep_hops p) \<noteq> length (ep_arcs p) then Ok False
        else check_hop_list (ep_hops p) t))"

fun check_paths :: "etp_path list \<Rightarrow> topology \<Rightarrow> (bool, 'e) res" where
  "check_paths [] t = Ok True"
| "check_paths (p # ps) t =
     res_bind (check_path p t) (\<lambda>ok. if ok then check_paths ps t else Ok False)"

definition check_any_message :: "etp_message \<Rightarrow> topology \<Rightarrow> (bool, 'e) res" where
  "check_any_message m t =
     res_bind (check_hop_list (em_hops m) t) (\<lambda>ok.
     if \<not> ok then Ok False
     else if length (em_fingerprints m) \<noteq> topology_levels t + 1 \<or>
             list_ex (\<lambda>(l, fp). fp_level fp \<noteq> l) (enumerate 0 (em_fingerprints m)) then Ok False
     else check_paths (em_paths m) t)"

definition same_position :: "naddr \<Rightarrow> naddr \<Rightarrow> usize \<Rightarrow> bool" where
  "same_position a b levels \<longleftrightarrow> list_all (\<lambda>l. pos_at a l = pos_at b l) [0..<levels]"

definition check_incoming_message :: "etp_message \<Rightarrow> naddr \<Rightarrow> (bool, 'e) res" where
  "check_incoming_message m my_naddr =
     (let levels = topology_levels (naddr_topology my_naddr) in
      if naddr_topology (em_node_address m) \<noteq> naddr_topology my_naddr then Ok False
      else if same_position (em_node_address m) my_naddr levels then Ok False
      else check_any_message m (naddr_topology my_naddr))"

definition check_outgoing_message :: "etp_message \<Rightarrow> naddr \<Rightarrow> (bool, 'e) res" where
  "check_outgoing_message m my_naddr =
     (let levels = topology_levels (naddr_topology my_naddr) in
      if naddr_topology (em_node_address m) \<noteq> naddr_topology my_naddr then Ok False
      else if \<not> same_position (em_node_address m) my_naddr levels then Ok False
      else check_any_message m (naddr_topology my_naddr))"

subsection \<open>What the gate accepts\<close>

definition hop_in_range :: "topology \<Rightarrow> hcoord \<Rightarrow> bool" where
  "hop_in_range t c \<longleftrightarrow> hc_level c < topology_levels t \<and> hc_pos c < gsizes t ! hc_level c"

definition hops_ok :: "topology \<Rightarrow> hcoord list \<Rightarrow> bool" where
  "hops_ok t hops \<longleftrightarrow> sorted (map hc_level hops) \<and> list_all (hop_in_range t) hops"

definition path_shape_ok :: "topology \<Rightarrow> etp_path \<Rightarrow> bool" where
  "path_shape_ok t p \<longleftrightarrow>
     ep_hops p \<noteq> [] \<and> length (ep_arcs p) = length (ep_hops p) \<and> hops_ok t (ep_hops p) \<and>
     fp_level (ep_fingerprint p) = hc_level (last (ep_hops p)) \<and>
     length (ep_ignore_outside p) = topology_levels t \<and>
     (\<forall>l < topology_levels t. hc_level (last (ep_hops p)) < l \<longrightarrow> ep_ignore_outside p ! l)"

definition message_shape_ok :: "topology \<Rightarrow> etp_message \<Rightarrow> bool" where
  "message_shape_ok t m \<longleftrightarrow>
     hops_ok t (em_hops m) \<and> length (em_fingerprints m) = topology_levels t + 1 \<and>
     (\<forall>l \<le> topology_levels t. fp_level (em_fingerprints m ! l) = l) \<and>
     list_all (path_shape_ok t) (em_paths m)"

lemma hops_ok_simps [simp]:
  "hops_ok t []"
  "hops_ok t (c # cs) \<longleftrightarrow> hop_in_range t c \<and> (\<forall>d \<in> set cs. hc_level c \<le> hc_level d) \<and> hops_ok t cs"
  by (auto simp: hops_ok_def)

lemma check_hop_list_loop_eq:
  "check_hop_list_loop t l hops = Ok (hops_ok t hops \<and> (\<forall>c \<in> set hops. l \<le> hc_level c))"
proof (induction hops arbitrary: l)
  case Nil
  then show ?case by simp
next
  case (Cons c cs)
  show ?case
    by (cases "hc_level c < topology_levels t")
      (auto simp: Cons.IH topology_gsize_def topology_levels_def hop_in_range_def)
qed

lemma check_hop_list_eq: "check_hop_list hops t = Ok (hops_ok t hops)"
  by (simp add: check_hop_list_def check_hop_list_loop_eq)

lemma check_path_eq: "check_path p t = Ok (path_shape_ok t p)"
proof -
  let ?e = "hc_level (last (ep_hops p))"
  have "\<not> list_ex (\<lambda>i. \<not> i) (drop (Suc ?e) (ep_ignore_outside p)) \<longleftrightarrow>
     (\<forall>l < topology_levels t. ?e < l \<longrightarrow> ep_ignore_outside p ! l)"
    if "length (ep_ignore_outside p) = topology_levels t"
  proof -
    have "(\<exists>k. l = Suc ?e + k) \<longleftrightarrow> ?e < l" for l by (metis less_eq_Suc_le nat_le_iff_add)
    then show ?thesis
      using that by (auto simp: list_ex_length) (metis add_Suc_right less_diff_conv Suc_leI add.commute le_add_diff_inverse)
  qed
  moreover have "hops_ok t (ep_hops p) \<Longrightarrow> ep_hops p \<noteq> [] \<Longrightarrow> ?e < topology_levels t"
    by (simp add: hops_ok_def hop_in_range_def list_all_iff)
  ultimately show ?thesis
    by (auto simp: check_path_def path_shape_ok_def Let_def slice_from_def check_hop_list_eq)
qed

lemma check_paths_eq: "check_paths ps t = Ok (list_all (path_shape_ok t) ps)"
  by (induction ps) (auto simp: check_path_eq)

lemma check_any_message_eq: "check_any_message m t = Ok (message_shape_ok t m)"
proof -
  have "list_ex (\<lambda>(l, fp). fp_level fp \<noteq> l) (enumerate 0 xs) \<longleftrightarrow>
     (\<exists>l < length xs. fp_level (xs ! l) \<noteq> l)" for xs :: "fp list"
    by (auto simp: list_ex_length nth_enumerate_eq)
  then show ?thesis
    by (auto simp: check_any_message_def message_shape_ok_def check_hop_list_eq check_paths_eq less_Suc_eq_le)
qed

lemma same_position_iff:
  "wf_naddr a \<Longrightarrow> wf_naddr b \<Longrightarrow> naddr_topology a = naddr_topology b \<Longrightarrow>
     same_position a b (topology_levels (naddr_topology b)) \<longleftrightarrow> a = b"
  by (auto simp: same_position_def list_all_iff naddr_defs wf_naddr_def
      intro!: naddr_eqI nth_equalityI)

lemma check_incoming_message_eq:
  assumes "wf_naddr my" "wf_naddr (em_node_address m)"
  shows "check_incoming_message m my = Ok (naddr_topology (em_node_address m) = naddr_topology my \<and>
     em_node_address m \<noteq> my \<and> message_shape_ok (naddr_topology my) m)"
  using assms by (auto simp: check_incoming_message_def Let_def check_any_message_eq same_position_iff)

lemma check_outgoing_message_eq:
  assumes "wf_naddr my" "wf_naddr (em_node_address m)"
  shows "check_outgoing_message m my = Ok (em_node_address m = my \<and> message_shape_ok (naddr_topology my) m)"
  using assms
  by (auto simp: check_outgoing_message_def Let_def check_any_message_eq same_position_iff)

text \<open>C33: validation never panics and decides exactly the documented shape: an incoming message is
  accepted when it shares the topology, is not from this node, and its hop trail, fingerprint
  vector and paths are well shaped; an outgoing one when its address is this node's own and the
  same shape holds.\<close>

theorem validation_exact:
  assumes "wf_naddr my" "wf_naddr (em_node_address m)"
  shows "check_incoming_message m my = Ok (naddr_topology (em_node_address m) = naddr_topology my \<and>
       em_node_address m \<noteq> my \<and> message_shape_ok (naddr_topology my) m)
    \<and> check_outgoing_message m my = Ok (em_node_address m = my \<and> message_shape_ok (naddr_topology my) m)"
  using check_incoming_message_eq [OF assms] check_outgoing_message_eq [OF assms] by (rule conjI)

definition example_topology :: topology where
  "example_topology = \<lparr>gsizes = [4, 4]\<rparr>"

definition example_naddr :: "u32 \<Rightarrow> u32 \<Rightarrow> naddr" where
  "example_naddr p0 p1 = \<lparr>naddr_topology = example_topology, naddr_pos = [p0, p1]\<rparr>"

definition example_fp_at :: "u8 \<Rightarrow> usize \<Rightarrow> fp" where
  "example_fp_at b l = \<lparr>fp_id = [b], fp_level = l, fp_eldership = 0, fp_pending = [],
     fp_seed = replicate l 0\<rparr>"

definition example_message :: etp_message where
  "example_message = \<lparr>em_node_address = example_naddr 1 0,
     em_fingerprints = map (example_fp_at 5) [0, 1, 2], em_nodes_inside = [1, 2, 3], em_hops = [],
     em_paths = [\<lparr>ep_hops = [HCoord 0 2, HCoord 1 3], ep_arcs = [21, 22], ep_cost = Finite 10,
        ep_fingerprint = example_fp_at 6 1, ep_nodes_inside = 3, ep_ignore_outside = [False, False]\<rparr>]\<rparr>"

lemma wf_example_naddr [simp]: "wf_naddr (example_naddr p q)"
  by (simp add: wf_naddr_def wf_topology_def example_naddr_def example_topology_def)

lemma example_message_shape: "message_shape_ok example_topology example_message"
proof -
  have "\<forall>l \<le> Suc (Suc 0). fp_level (em_fingerprints example_message ! l) = l"
    by (auto simp: example_message_def example_fp_at_def le_Suc_eq)
  moreover have "(3 :: u32) < 4" "(2 :: u32) < 4" by (simp_all add: word_less_nat_alt)
  ultimately show ?thesis
    by (simp add: message_shape_ok_def example_message_def example_topology_def path_shape_ok_def
        hop_in_range_def topology_levels_def example_fp_at_def)
qed

theorem validation_exact_witness:
  "check_incoming_message example_message (example_naddr 0 0) = (Ok True :: (bool, unit) res)"
proof -
  have *: "em_node_address example_message = example_naddr 1 0" by (simp add: example_message_def)
  have "naddr_topology (example_naddr p q) = example_topology" "example_naddr 1 0 \<noteq> example_naddr 0 0"
    for p q by (simp_all add: example_naddr_def)
  then show ?thesis
    by (subst conjunct1 [OF validation_exact]) (simp_all add: * example_message_shape)
qed

end
