(* ===== verification/Ntk_Domain.thy ===== *)
theory Ntk_Domain
  imports Ntk_Fingerprint Ntk_Cost
begin

section \<open>The domain wire codec (\<open>ntk-proto/src/domain.rs\<close>)\<close>

text \<open>
  Conversions between the validated domain types and the messages of \<open>domain.proto\<close>, whose
  generated Rust structs are the records below (one field per protobuf field, a message field being
  optional). A \<open>usize\<close> level travels as a \<open>u64\<close>; on the 64-bit hosts the model assumes, decoding it
  cannot fail. Protobuf's own \<open>encode_to_vec\<close>/\<open>decode\<close> (crate \<open>prost\<close>) are parameters of the
  \<open>TypedValue\<close> helpers. The locale \<open>wire_codec\<close> is the contract every conversion meets.
\<close>

datatype domain_decode_error =
    Invalid common_error
  | MissingCostValue
  | MissingTopology
  | IntegerOutOfRange u64
  | TypeTagMismatch string string
  | PayloadDecode string
  | MissingUnicastIdKind

subsection \<open>The contract of a codec\<close>

locale wire_codec =
  fixes enc :: "'a \<Rightarrow> 'w" and dec :: "'w \<Rightarrow> ('a, 'e) res" and valid :: "'a \<Rightarrow> bool"
  assumes roundtrip: "valid x \<Longrightarrow> dec (enc x) = Ok x"
    and revalidates: "dec w = Ok x \<Longrightarrow> valid x"
    and never_panics: "dec w \<noteq> Panic"
begin

lemma list_roundtrip: "list_all valid xs \<Longrightarrow> try_map dec (map enc xs) = Ok xs"
  by (induction xs) (auto simp: roundtrip)

lemma list_revalidates: "try_map dec ws = Ok xs \<Longrightarrow> list_all valid xs"
  by (induction ws arbitrary: xs) (auto simp: res_simps revalidates)

lemma list_never_panics: "try_map dec ws \<noteq> Panic"
  by (induction ws) (auto simp: res_simps never_panics)

lemma enc_inject: "valid x \<Longrightarrow> valid y \<Longrightarrow> enc x = enc y \<Longrightarrow> x = y"
  using roundtrip by (metis res.inject(1))

lemma map_err_roundtrip: "valid x \<Longrightarrow> map_err g (dec (enc x)) = Ok x"
  by (simp add: roundtrip)

end

subsection \<open>Topology, addresses and coordinates\<close>

record wire_topology =
  w_gsizes :: "u32 list"

record wire_naddr =
  w_topology :: "wire_topology option"
  w_pos :: "u32 list"

record wire_hcoord =
  w_level :: u64
  w_hc_pos :: u32

definition topology_to_wire :: "topology \<Rightarrow> wire_topology" where
  "topology_to_wire t = \<lparr>w_gsizes = gsizes t\<rparr>"

definition topology_from_wire :: "wire_topology \<Rightarrow> (topology, domain_decode_error) res" where
  "topology_from_wire w = map_err Invalid (topology_new (w_gsizes w))"

definition naddr_to_wire :: "naddr \<Rightarrow> wire_naddr" where
  "naddr_to_wire a = \<lparr>w_topology = Some (topology_to_wire (naddr_topology a)), w_pos = naddr_pos a\<rparr>"

definition naddr_from_wire :: "wire_naddr \<Rightarrow> (naddr, domain_decode_error) res" where
  "naddr_from_wire w =
     res_bind (ok_or (w_topology w) MissingTopology) (\<lambda>topology_wire.
     res_bind (topology_from_wire topology_wire) (\<lambda>t.
     map_err Invalid (naddr_new_allowing_virtual t (w_pos w))))"

definition hcoord_to_wire :: "hcoord \<Rightarrow> wire_hcoord" where
  "hcoord_to_wire h = \<lparr>w_level = of_nat (hc_level h), w_hc_pos = hc_pos h\<rparr>"

definition hcoord_from_wire :: "wire_hcoord \<Rightarrow> (hcoord, domain_decode_error) res" where
  "hcoord_from_wire w = Ok (HCoord (unat (w_level w)) (w_hc_pos w))"

definition level_fits :: "usize \<Rightarrow> bool" where
  "level_fits l \<longleftrightarrow> l < 2 ^ 64"

lemma unat_of_level [simp]: "level_fits l \<Longrightarrow> unat (of_nat l :: u64) = l"
  by (simp add: level_fits_def unat_of_nat)

lemma level_fits_unat [simp]: "level_fits (unat (w :: u64))"
  using unsigned_less [of w] by (simp add: level_fits_def)

interpretation topology_codec: wire_codec topology_to_wire topology_from_wire wf_topology
proof
  show "topology_from_wire (topology_to_wire t) = Ok t" if "wf_topology t" for t
    using that topology_new_Ok_iff [of "gsizes t" t]
    by (simp add: topology_from_wire_def topology_to_wire_def res_simps)
  show "wf_topology t" if "topology_from_wire w = Ok t" for w t
    using that by (auto simp: topology_from_wire_def res_simps topology_new_Ok_iff)
  show "topology_from_wire w \<noteq> Panic" for w
    by (simp add: topology_from_wire_def res_simps topology_new_def split: option.splits)
qed

interpretation naddr_codec: wire_codec naddr_to_wire naddr_from_wire wf_naddr
proof
  show "naddr_from_wire (naddr_to_wire a) = Ok a" if "wf_naddr a" for a
    using that topology_codec.roundtrip [of "naddr_topology a"]
    by (simp add: naddr_from_wire_def naddr_to_wire_def wf_naddr_def res_simps
        naddr_new_allowing_virtual_def topology_levels_def)
  show "wf_naddr a" if "naddr_from_wire w = Ok a" for w a
    using that
    by (auto simp: naddr_from_wire_def res_simps naddr_new_allowing_virtual_Ok_iff wf_naddr_def
        dest: topology_codec.revalidates)
  show "naddr_from_wire w \<noteq> Panic" for w
    by (auto simp: naddr_from_wire_def res_simps topology_codec.never_panics
        naddr_new_allowing_virtual_def)
qed

interpretation hcoord_codec: wire_codec hcoord_to_wire hcoord_from_wire "\<lambda>h. level_fits (hc_level h)"
  by unfold_locales (auto simp: hcoord_to_wire_def hcoord_from_wire_def)

subsection \<open>Costs and fingerprints\<close>

datatype wire_cost_value = WNull bool | WFinite u64 | WDead bool

record wire_cost =
  w_cost_value :: "wire_cost_value option"

fun cost_to_wire :: "cost \<Rightarrow> wire_cost" where
  "cost_to_wire Null = \<lparr>w_cost_value = Some (WNull True)\<rparr>"
| "cost_to_wire (Finite m) = \<lparr>w_cost_value = Some (WFinite m)\<rparr>"
| "cost_to_wire Dead = \<lparr>w_cost_value = Some (WDead True)\<rparr>"

definition cost_from_wire :: "wire_cost \<Rightarrow> (cost, domain_decode_error) res" where
  "cost_from_wire w =
     (case w_cost_value w of
        Some (WNull _) \<Rightarrow> Ok Null
      | Some (WFinite m) \<Rightarrow> Ok (Finite m)
      | Some (WDead _) \<Rightarrow> Ok Dead
      | None \<Rightarrow> Err MissingCostValue)"

record wire_fingerprint =
  w_fp_id :: "u8 list"
  w_fp_level :: u64
  w_eldership :: "u32 option"
  w_pending :: "u32 list"
  w_seed :: "u32 option list"

definition fingerprint_to_wire :: "u8 list fingerprint \<Rightarrow> wire_fingerprint" where
  "fingerprint_to_wire f =
     (let parts = to_parts f in
      \<lparr>w_fp_id = parts_id parts, w_fp_level = of_nat (parts_level parts),
       w_eldership = parts_eldership parts, w_pending = parts_pending parts,
       w_seed = parts_seed parts\<rparr>)"

definition fingerprint_from_wire ::
  "wire_fingerprint \<Rightarrow> (u8 list fingerprint, domain_decode_error) res" where
  "fingerprint_from_wire w =
     map_err Invalid (from_parts
       \<lparr>parts_id = w_fp_id w, parts_level = unat (w_fp_level w),
        parts_eldership = w_eldership w, parts_pending = w_pending w, parts_seed = w_seed w\<rparr>)"

interpretation cost_codec: wire_codec cost_to_wire cost_from_wire "\<lambda>c. True"
proof
  show "cost_from_wire (cost_to_wire c) = Ok c" for c
    by (cases c) (simp_all add: cost_from_wire_def)
  show "cost_from_wire w \<noteq> Panic" for w
    by (auto simp: cost_from_wire_def split: option.splits wire_cost_value.splits)
qed simp

lemma from_parts_not_Panic [simp]: "from_parts p \<noteq> Panic"
  by (simp add: from_parts_def)

interpretation fingerprint_codec:
  wire_codec fingerprint_to_wire fingerprint_from_wire "\<lambda>f. wf_fp f \<and> level_fits (fp_level f)"
proof
  show "fingerprint_from_wire (fingerprint_to_wire f) = Ok f"
    if "wf_fp f \<and> level_fits (fp_level f)" for f :: "u8 list fingerprint"
    using that from_parts_to_parts [of f]
    by (simp add: fingerprint_from_wire_def fingerprint_to_wire_def to_parts_def)
  show "wf_fp f \<and> level_fits (fp_level f)" if "fingerprint_from_wire w = Ok f" for w f
  proof -
    from that have fp: "from_parts \<lparr>parts_id = w_fp_id w, parts_level = unat (w_fp_level w),
        parts_eldership = w_eldership w, parts_pending = w_pending w, parts_seed = w_seed w\<rparr> = Ok f"
      by (simp add: fingerprint_from_wire_def res_simps)
    then have "fp_level f = unat (w_fp_level w)" by (auto simp: from_parts_def split: if_splits)
    with from_parts_wf [OF fp] show ?thesis by simp
  qed
  show "fingerprint_from_wire w \<noteq> Panic" for w
    by (simp add: fingerprint_from_wire_def res_simps)
qed

subsection \<open>\<open>TypedValue\<close> and \<open>UnicastId\<close>\<close>

record typed_value_msg =
  type_tag :: string
  payload :: "u8 list"

definition typed_value :: "('m \<Rightarrow> u8 list) \<Rightarrow> string \<Rightarrow> 'm \<Rightarrow> typed_value_msg" where
  "typed_value encode_to_vec tag msg = \<lparr>type_tag = tag, payload = encode_to_vec msg\<rparr>"

definition from_typed_value ::
  "(u8 list \<Rightarrow> ('m, string) res) \<Rightarrow> typed_value_msg \<Rightarrow> string \<Rightarrow> ('m, domain_decode_error) res" where
  "from_typed_value decode tv expected_tag =
     (if type_tag tv \<noteq> expected_tag then Err (TypeTagMismatch expected_tag (type_tag tv))
      else map_err PayloadDecode (decode (payload tv)))"

datatype unicast_id = WholeNode typed_value_msg | IdentityAware typed_value_msg | MainIdentity

datatype unicast_id_kind = KWholeNode typed_value_msg | KIdentityAware typed_value_msg | KMainIdentity

definition UNICAST_ID_TAG :: string where
  "UNICAST_ID_TAG = ''proto.UnicastId''"

fun unicast_id_kind_of :: "unicast_id \<Rightarrow> unicast_id_kind" where
  "unicast_id_kind_of (WholeNode i) = KWholeNode i"
| "unicast_id_kind_of (IdentityAware i) = KIdentityAware i"
| "unicast_id_kind_of MainIdentity = KMainIdentity"

definition unicast_id_to_typed_value ::
  "(unicast_id_kind option \<Rightarrow> u8 list) \<Rightarrow> unicast_id \<Rightarrow> typed_value_msg" where
  "unicast_id_to_typed_value encode_to_vec u =
     typed_value encode_to_vec UNICAST_ID_TAG (Some (unicast_id_kind_of u))"

definition unicast_id_from_typed_value ::
  "(u8 list \<Rightarrow> (unicast_id_kind option, string) res) \<Rightarrow> typed_value_msg
    \<Rightarrow> (unicast_id, domain_decode_error) res" where
  "unicast_id_from_typed_value decode tv =
     (if type_tag tv = [] then Ok MainIdentity
      else res_bind (from_typed_value decode tv UNICAST_ID_TAG) (\<lambda>kind.
        case kind of
          Some (KWholeNode i) \<Rightarrow> Ok (WholeNode i)
        | Some (KIdentityAware i) \<Rightarrow> Ok (IdentityAware i)
        | Some KMainIdentity \<Rightarrow> Ok MainIdentity
        | None \<Rightarrow> Err MissingUnicastIdKind))"

text \<open>What the helpers rely on of \<open>prost\<close>: the message it encoded decodes to itself.\<close>

definition prost_ok_on :: "('m \<Rightarrow> u8 list) \<Rightarrow> (u8 list \<Rightarrow> ('m, string) res) \<Rightarrow> 'm \<Rightarrow> bool" where
  "prost_ok_on encode_to_vec decode m \<longleftrightarrow> decode (encode_to_vec m) = Ok m"

lemma from_typed_value_roundtrip:
  "prost_ok_on encode decode msg \<Longrightarrow> from_typed_value decode (typed_value encode tag msg) tag = Ok msg"
  by (simp add: prost_ok_on_def from_typed_value_def typed_value_def)

text \<open>An identity selector survives its \<open>TypedValue\<close>, an empty \<open>TypedValue\<close> (what a peer that
  predates the field sends) selects the main identity, and a value of any other type is refused.\<close>

theorem unicast_id_roundtrip:
  assumes "prost_ok_on encode decode (Some (unicast_id_kind_of u))"
  shows "unicast_id_from_typed_value decode (unicast_id_to_typed_value encode u) = Ok u
    \<and> unicast_id_from_typed_value decode \<lparr>type_tag = [], payload = p\<rparr> = Ok MainIdentity
    \<and> (tag \<noteq> [] \<and> tag \<noteq> UNICAST_ID_TAG \<longrightarrow>
        unicast_id_from_typed_value decode \<lparr>type_tag = tag, payload = p\<rparr> =
          Err (TypeTagMismatch UNICAST_ID_TAG tag))"
proof -
  have "type_tag (unicast_id_to_typed_value encode u) \<noteq> []"
    by (simp add: unicast_id_to_typed_value_def typed_value_def UNICAST_ID_TAG_def)
  then have "unicast_id_from_typed_value decode (unicast_id_to_typed_value encode u) = Ok u"
    using from_typed_value_roundtrip [OF assms, of UNICAST_ID_TAG]
    by (cases u) (simp_all add: unicast_id_from_typed_value_def unicast_id_to_typed_value_def)
  then show ?thesis by (simp add: unicast_id_from_typed_value_def from_typed_value_def)
qed

theorem unicast_id_roundtrip_witness:
  "unicast_id_from_typed_value (\<lambda>bs. if bs = [1] then Ok (Some KMainIdentity) else Err ''bad'')
     (unicast_id_to_typed_value (\<lambda>_. [1]) MainIdentity) = Ok MainIdentity
   \<and> unicast_id_from_typed_value (\<lambda>bs. if bs = [1] then Ok (Some KMainIdentity) else Err ''bad'')
     \<lparr>type_tag = ''qspn.Naddr'', payload = []\<rparr> = Err (TypeTagMismatch UNICAST_ID_TAG ''qspn.Naddr'')"
  using unicast_id_roundtrip [of "\<lambda>_. [1]" "\<lambda>bs. if bs = [1] then Ok (Some KMainIdentity) else Err ''bad''"
      MainIdentity "[]" "''qspn.Naddr''"]
  by (simp add: prost_ok_on_def UNICAST_ID_TAG_def)

end
