(* ===== verification/Qspn_Wire.thy ===== *)
theory Qspn_Wire
  imports Ntk_Domain Qspn_Path
begin

section \<open>The routing core's errors and its wire codec (\<open>error.rs\<close>, \<open>wire.rs\<close>)\<close>

text \<open>
  \<open>QspnError\<close>, and the conversions between \<open>EtpMessage\<close>/\<open>EtpPath\<close> and the generated structs of
  \<open>qspn.proto\<close>, built from the domain codec. They meet the same \<open>wire_codec\<close> contract, so a decoded
  message consists of revalidated parts, and a well-formed one survives the wire.
\<close>

datatype qspn_error =
    Acyclic
  | EtpFromSelf
  | MalformedEtp string
  | InvalidConnectivity string
  | BootstrapInProgress
  | NotAnArc
  | UnknownArc
  | CommonError common_error
  | DomainError domain_decode_error
  | ActorGone

record wire_etp_path =
  wp_hops :: "wire_hcoord list"
  wp_arcs :: "u32 list"
  wp_cost :: "wire_cost option"
  wp_fingerprint :: "wire_fingerprint option"
  wp_nodes_inside :: u32
  wp_ignore_outside :: "bool list"

record wire_etp_message =
  wm_node_address :: "wire_naddr option"
  wm_fingerprints :: "wire_fingerprint list"
  wm_nodes_inside :: "u32 list"
  wm_hops :: "wire_hcoord list"
  wm_paths :: "wire_etp_path list"

definition etp_path_to_wire :: "etp_path \<Rightarrow> wire_etp_path" where
  "etp_path_to_wire p =
     \<lparr>wp_hops = map hcoord_to_wire (ep_hops p), wp_arcs = ep_arcs p,
      wp_cost = Some (cost_to_wire (ep_cost p)),
      wp_fingerprint = Some (fingerprint_to_wire (ep_fingerprint p)),
      wp_nodes_inside = ep_nodes_inside p, wp_ignore_outside = ep_ignore_outside p\<rparr>"

definition etp_path_from_wire :: "wire_etp_path \<Rightarrow> (etp_path, qspn_error) res" where
  "etp_path_from_wire w =
     res_bind (try_map (\<lambda>h. map_err DomainError (hcoord_from_wire h)) (wp_hops w)) (\<lambda>hops.
     res_bind (ok_or (wp_cost w) (MalformedEtp ''EtpPath.cost is missing'')) (\<lambda>cost.
     res_bind (ok_or (wp_fingerprint w) (MalformedEtp ''EtpPath.fingerprint is missing'')) (\<lambda>fingerprint.
     res_bind (map_err DomainError (cost_from_wire cost)) (\<lambda>c.
     res_bind (map_err DomainError (fingerprint_from_wire fingerprint)) (\<lambda>f.
     Ok \<lparr>ep_hops = hops, ep_arcs = wp_arcs w, ep_cost = c, ep_fingerprint = f,
         ep_nodes_inside = wp_nodes_inside w, ep_ignore_outside = wp_ignore_outside w\<rparr>)))))"

definition etp_message_to_wire :: "etp_message \<Rightarrow> wire_etp_message" where
  "etp_message_to_wire m =
     \<lparr>wm_node_address = Some (naddr_to_wire (em_node_address m)),
      wm_fingerprints = map fingerprint_to_wire (em_fingerprints m),
      wm_nodes_inside = em_nodes_inside m, wm_hops = map hcoord_to_wire (em_hops m),
      wm_paths = map etp_path_to_wire (em_paths m)\<rparr>"

definition etp_message_from_wire :: "wire_etp_message \<Rightarrow> (etp_message, qspn_error) res" where
  "etp_message_from_wire w =
     res_bind (ok_or (wm_node_address w) (MalformedEtp ''EtpMessage.node_address is missing'')) (\<lambda>node_address.
     res_bind (try_map (\<lambda>f. map_err DomainError (fingerprint_from_wire f)) (wm_fingerprints w)) (\<lambda>fingerprints.
     res_bind (try_map (\<lambda>h. map_err DomainError (hcoord_from_wire h)) (wm_hops w)) (\<lambda>hops.
     res_bind (try_map etp_path_from_wire (wm_paths w)) (\<lambda>paths.
     res_bind (map_err DomainError (naddr_from_wire node_address)) (\<lambda>a.
     Ok \<lparr>em_node_address = a, em_fingerprints = fingerprints, em_nodes_inside = wm_nodes_inside w,
         em_hops = hops, em_paths = paths\<rparr>)))))"

definition ETP_MESSAGE_TAG :: string where "ETP_MESSAGE_TAG = ''qspn.EtpMessage''"

definition NADDR_TAG :: string where "NADDR_TAG = ''qspn.Naddr''"

definition encode_etp_message ::
  "(wire_etp_message \<Rightarrow> u8 list) \<Rightarrow> etp_message \<Rightarrow> typed_value_msg" where
  "encode_etp_message encode_to_vec m = typed_value encode_to_vec ETP_MESSAGE_TAG (etp_message_to_wire m)"

definition decode_etp_message ::
  "(u8 list \<Rightarrow> (wire_etp_message, string) res) \<Rightarrow> typed_value_msg \<Rightarrow> (etp_message, qspn_error) res" where
  "decode_etp_message decode tv =
     res_bind (map_err DomainError (from_typed_value decode tv ETP_MESSAGE_TAG)) etp_message_from_wire"

definition encode_naddr :: "(wire_naddr \<Rightarrow> u8 list) \<Rightarrow> naddr \<Rightarrow> typed_value_msg" where
  "encode_naddr encode_to_vec a = typed_value encode_to_vec NADDR_TAG (naddr_to_wire a)"

definition decode_naddr ::
  "(u8 list \<Rightarrow> (wire_naddr, string) res) \<Rightarrow> typed_value_msg \<Rightarrow> (naddr, qspn_error) res" where
  "decode_naddr decode tv =
     res_bind (map_err DomainError (from_typed_value decode tv NADDR_TAG))
       (\<lambda>w. map_err DomainError (naddr_from_wire w))"

subsection \<open>The codec contract\<close>

definition valid_hop :: "hcoord \<Rightarrow> bool" where
  "valid_hop h \<longleftrightarrow> level_fits (hc_level h)"

definition valid_fp :: "fp \<Rightarrow> bool" where
  "valid_fp f \<longleftrightarrow> wf_fp f \<and> level_fits (fp_level f)"

definition valid_path :: "etp_path \<Rightarrow> bool" where
  "valid_path p \<longleftrightarrow> list_all valid_hop (ep_hops p) \<and> valid_fp (ep_fingerprint p)"

definition valid_message :: "etp_message \<Rightarrow> bool" where
  "valid_message m \<longleftrightarrow> wf_naddr (em_node_address m) \<and> list_all valid_fp (em_fingerprints m) \<and>
     list_all valid_hop (em_hops m) \<and> list_all valid_path (em_paths m)"

interpretation hop_wire: wire_codec hcoord_to_wire "\<lambda>h. map_err DomainError (hcoord_from_wire h)" valid_hop
  by unfold_locales
    (auto simp: valid_hop_def res_simps hcoord_codec.roundtrip hcoord_codec.never_panics
      dest: hcoord_codec.revalidates)

interpretation fp_wire:
  wire_codec fingerprint_to_wire "\<lambda>f. map_err DomainError (fingerprint_from_wire f)" valid_fp
  by unfold_locales
    (auto simp: valid_fp_def res_simps fingerprint_codec.roundtrip fingerprint_codec.never_panics
      dest: fingerprint_codec.revalidates)

lemmas wire_never_panics = hop_wire.list_never_panics fp_wire.list_never_panics fp_wire.never_panics
  cost_codec.never_panics naddr_codec.never_panics fingerprint_codec.never_panics

interpretation path_wire: wire_codec etp_path_to_wire etp_path_from_wire valid_path
proof
  show "etp_path_from_wire (etp_path_to_wire p) = Ok p" if "valid_path p" for p
    using that
    by (simp add: valid_path_def etp_path_from_wire_def etp_path_to_wire_def hop_wire.list_roundtrip
        fp_wire.roundtrip cost_codec.roundtrip)
  show "valid_path p" if "etp_path_from_wire w = Ok p" for w p
  proof -
    from that obtain f where "try_map (\<lambda>h. map_err DomainError (hcoord_from_wire h)) (wp_hops w) = Ok (ep_hops p)"
      "map_err DomainError (fingerprint_from_wire f) = Ok (ep_fingerprint p)"
      by (auto simp: etp_path_from_wire_def res_bind_eq_Ok ok_or_eq_Ok)
    then show ?thesis
      unfolding valid_path_def by (blast dest: hop_wire.list_revalidates fp_wire.revalidates)
  qed
  show "etp_path_from_wire w \<noteq> Panic" for w
    by (simp add: etp_path_from_wire_def res_simps wire_never_panics)
qed

interpretation message_wire: wire_codec etp_message_to_wire etp_message_from_wire valid_message
proof
  show "etp_message_from_wire (etp_message_to_wire m) = Ok m" if "valid_message m" for m
    using that
    by (simp add: valid_message_def etp_message_from_wire_def etp_message_to_wire_def
        hop_wire.list_roundtrip fp_wire.list_roundtrip path_wire.list_roundtrip naddr_codec.roundtrip)
  show "valid_message m" if "etp_message_from_wire w = Ok m" for w m
  proof -
    from that obtain a where
      "try_map (\<lambda>f. map_err DomainError (fingerprint_from_wire f)) (wm_fingerprints w) = Ok (em_fingerprints m)"
      "try_map (\<lambda>h. map_err DomainError (hcoord_from_wire h)) (wm_hops w) = Ok (em_hops m)"
      "try_map etp_path_from_wire (wm_paths w) = Ok (em_paths m)"
      "naddr_from_wire a = Ok (em_node_address m)"
      by (auto simp: etp_message_from_wire_def res_bind_eq_Ok ok_or_eq_Ok map_err_eq_Ok)
    then show ?thesis
      unfolding valid_message_def
      by (blast dest: hop_wire.list_revalidates fp_wire.list_revalidates path_wire.list_revalidates
          naddr_codec.revalidates)
  qed
  show "etp_message_from_wire w \<noteq> Panic" for w
    by (simp add: etp_message_from_wire_def res_simps wire_never_panics path_wire.list_never_panics)
qed

text \<open>An ETP of well-formed parts survives encoding and decoding through its \<open>TypedValue\<close>;
  whatever bytes a peer sends, decoding adds no panic of its own and yields only messages whose
  address, fingerprints and hops were revalidated; a value under another tag is refused.\<close>

theorem etp_wire_roundtrip:
  "(valid_message m \<and> prost_ok_on encode decode (etp_message_to_wire m) \<longrightarrow>
      decode_etp_message decode (encode_etp_message encode m) = Ok m)
   \<and> (decode_etp_message decode tv = Ok m' \<longrightarrow> valid_message m')
   \<and> (type_tag tv \<noteq> ETP_MESSAGE_TAG \<longrightarrow>
        decode_etp_message decode tv = Err (DomainError (TypeTagMismatch ETP_MESSAGE_TAG (type_tag tv))))
   \<and> (decode_etp_message decode tv = Panic \<longrightarrow> decode (payload tv) = Panic)"
proof (intro conjI impI)
  assume "valid_message m \<and> prost_ok_on encode decode (etp_message_to_wire m)"
  then show "decode_etp_message decode (encode_etp_message encode m) = Ok m"
    by (simp add: decode_etp_message_def encode_etp_message_def from_typed_value_roundtrip
        message_wire.roundtrip)
next
  assume "decode_etp_message decode tv = Ok m'"
  then show "valid_message m'"
    by (auto simp: decode_etp_message_def res_bind_eq_Ok intro: message_wire.revalidates)
next
  assume "type_tag tv \<noteq> ETP_MESSAGE_TAG"
  then show "decode_etp_message decode tv = Err (DomainError (TypeTagMismatch ETP_MESSAGE_TAG (type_tag tv)))"
    by (simp add: decode_etp_message_def from_typed_value_def)
next
  assume "decode_etp_message decode tv = Panic"
  then show "decode (payload tv) = Panic"
    by (auto simp: decode_etp_message_def res_simps message_wire.never_panics from_typed_value_def
        split: if_splits)
qed

definition example_wire_message :: etp_message where
  "example_wire_message =
     \<lparr>em_node_address = \<lparr>naddr_topology = \<lparr>gsizes = [4]\<rparr>, naddr_pos = [1]\<rparr>,
      em_fingerprints = [example_fp 1 0], em_nodes_inside = [1, 2], em_hops = [HCoord 0 2],
      em_paths = [np_path (example_node_path 7 (example_fp 1 0) (Finite 9))]\<rparr>"

theorem etp_wire_roundtrip_witness:
  "decode_etp_message (\<lambda>_. Ok (etp_message_to_wire example_wire_message))
     (encode_etp_message (\<lambda>_. [1]) example_wire_message) = Ok example_wire_message"
proof -
  have "valid_message example_wire_message"
    by (simp add: valid_message_def example_wire_message_def wf_naddr_def wf_topology_def
        valid_fp_def valid_hop_def valid_path_def level_fits_def example_fp_def wf_fp_def
        eldership_range_def example_node_path_def node_path_new_def)
  then show ?thesis
    by (rule etp_wire_roundtrip [THEN conjunct1, THEN mp, OF conjI]) (simp add: prost_ok_on_def)
qed

end
