(* ===== verification/Qspn_Revise.thy ===== *)
theory Qspn_Revise
  imports Qspn_Validate Qspn_Wire
begin

section \<open>Revising a received ETP (\<open>ntk-qspn/src/revise.rs\<close>)\<close>

text \<open>
  \<open>revise_etp\<close> brings a message into the receiver's coordinate frame: grouping, the acyclic rule, the
  two intrinsic paths to the sender, and the implicit withdrawal of every path of the arc a full ETP
  no longer mentions.
\<close>

record revised_etp =
  rev_hops :: "hcoord list"
  rev_paths :: "node_path list"

text \<open>The acyclic test: some hop is this node's own position at that level.\<close>

definition loops_back :: "naddr \<Rightarrow> hcoord list \<Rightarrow> bool" where
  "loops_back my_naddr hops \<longleftrightarrow> list_ex (\<lambda>g. pos_at my_naddr (hc_level g) = Some (hc_pos g)) hops"

text \<open>Grouping: drop the leading hops below the sender's level, then put the sender in front.\<close>

definition group_hops :: "hcoord \<Rightarrow> hcoord list \<Rightarrow> hcoord list" where
  "group_hops v hops = v # dropWhile (\<lambda>h. hc_level h < hc_level v) hops"

fun drop_leading :: "usize \<Rightarrow> hcoord list \<Rightarrow> arc_id list \<Rightarrow> (hcoord list \<times> arc_id list, 'e) res" where
  "drop_leading l [] arcs = Ok ([], arcs)"
| "drop_leading l (h # hops) arcs =
     (if hc_level h < l then (case arcs of [] \<Rightarrow> Panic | _ # arcs' \<Rightarrow> drop_leading l hops arcs')
      else Ok (h # hops, arcs))"

definition group_path :: "hcoord \<Rightarrow> arc_id \<Rightarrow> etp_path \<Rightarrow> (etp_path, 'e) res" where
  "group_path v arc p =
     res_bind (drop_leading (hc_level v) (ep_hops p) (ep_arcs p)) (\<lambda>(hops, arcs).
     Ok (p\<lparr>ep_hops := v # hops, ep_arcs := arc # arcs\<rparr>))"

definition valid_outside :: "hcoord \<Rightarrow> etp_path \<Rightarrow> bool" where
  "valid_outside v p \<longleftrightarrow>
     \<not> (if hc_level v < length (ep_ignore_outside p) then ep_ignore_outside p ! hc_level v else False)"

definition sender_path :: "hcoord \<Rightarrow> arc_id \<Rightarrow> cost \<Rightarrow> fp \<Rightarrow> u32 \<Rightarrow> usize \<Rightarrow> etp_path" where
  "sender_path v arc c f n levels =
     \<lparr>ep_hops = [v], ep_arcs = [arc], ep_cost = c, ep_fingerprint = f, ep_nodes_inside = n,
      ep_ignore_outside = replicate levels False\<rparr>"

definition old_coord_of :: "naddr \<Rightarrow> naddr option \<Rightarrow> hcoord \<Rightarrow> (hcoord option, 'e) res" where
  "old_coord_of my_naddr old_peer v =
     (case old_peer of
        None \<Rightarrow> Ok None
      | Some old \<Rightarrow> (case hcoord_of my_naddr old of
            Ok (Some old_v) \<Rightarrow> Ok (if old_v \<noteq> v then Some old_v else None)
          | Ok None \<Rightarrow> Ok None
          | Err _ \<Rightarrow> Ok None
          | Panic \<Rightarrow> Panic))"

definition withdrawals :: "arc_id \<Rightarrow> etp_path list \<Rightarrow> node_path list \<Rightarrow> node_path list" where
  "withdrawals arc paths existing =
     map (\<lambda>np. node_path_new arc ((np_path np)\<lparr>ep_cost := Dead\<rparr>))
       (filter (\<lambda>np. \<not> list_ex (hops_arcs_equal np) paths) existing)"

definition revise_etp ::
  "naddr \<Rightarrow> etp_message \<Rightarrow> arc_id \<Rightarrow> naddr option \<Rightarrow> bool \<Rightarrow> node_path list
    \<Rightarrow> (revised_etp, qspn_error) res" where
  "revise_etp my_naddr m arc old_peer_naddr is_full existing =
     (let levels = topology_levels (naddr_topology my_naddr) in
      if length (em_fingerprints m) \<noteq> levels + 1 \<or> length (em_nodes_inside m) \<noteq> levels + 1
      then Err (MalformedEtp ''fingerprints/nodes_inside length must be levels + 1'')
      else
      res_bind (map_err CommonError (hcoord_of my_naddr (em_node_address m))) (\<lambda>v_opt.
      res_bind (ok_or v_opt EtpFromSelf) (\<lambda>v.
      res_bind (old_coord_of my_naddr old_peer_naddr v) (\<lambda>old_coord.
      let m_hops = group_hops v (em_hops m) in
      if loops_back my_naddr m_hops then Err Acyclic
      else
      res_bind (try_map (group_path v arc) (filter (valid_outside v) (em_paths m))) (\<lambda>grouped.
      let kept = filter (\<lambda>p. \<not> loops_back my_naddr (ep_hops p)) grouped in
      res_bind (index (em_fingerprints m) (hc_level v)) (\<lambda>sender_fp.
      if fp_level sender_fp \<noteq> hc_level v
      then Err (MalformedEtp ''sender fingerprint level must equal divergence level'')
      else
      res_bind (index (em_nodes_inside m) (hc_level v)) (\<lambda>sender_nn.
      let paths1 = kept @ [sender_path v arc Null sender_fp sender_nn levels] in
      res_bind (case old_coord of
          None \<Rightarrow> Ok paths1
        | Some old_v \<Rightarrow>
            res_bind (index (em_fingerprints m) (hc_level old_v)) (\<lambda>old_fp.
            res_bind (index (em_nodes_inside m) (hc_level old_v)) (\<lambda>old_nn.
            Ok (paths1 @ [sender_path old_v arc Dead old_fp old_nn levels])))) (\<lambda>paths.
      Ok \<lparr>rev_hops = m_hops,
          rev_paths = (if is_full then withdrawals arc paths existing else [])
            @ map (node_path_new arc) paths\<rparr>))))))))"

subsection \<open>Well-formed paths\<close>

text \<open>
  What a path stored or fed to the map satisfies: at least one hop, as many arcs as hops, levels
  that never fall and stay inside the hierarchy, a well-formed fingerprint of the last hop's level.
\<close>

definition wf_path :: "usize \<Rightarrow> etp_path \<Rightarrow> bool" where
  "wf_path levels p \<longleftrightarrow>
     ep_hops p \<noteq> [] \<and> length (ep_arcs p) = length (ep_hops p) \<and>
     sorted (map hc_level (ep_hops p)) \<and> (\<forall>h \<in> set (ep_hops p). hc_level h < levels) \<and>
     wf_fp (ep_fingerprint p) \<and> fp_level (ep_fingerprint p) = hc_level (last (ep_hops p))"

definition wf_node_path :: "usize \<Rightarrow> node_path \<Rightarrow> bool" where
  "wf_node_path levels np \<longleftrightarrow> wf_path levels (np_path np) \<and> hd (np_arcs np) = np_arc np"

lemma wf_path_last_level: "wf_path levels p \<Longrightarrow> hc_level (last (ep_hops p)) < levels"
  by (simp add: wf_path_def)

lemma wf_path_cost [simp]: "wf_path levels (p\<lparr>ep_cost := c\<rparr>) = wf_path levels p"
  by (simp add: wf_path_def)

lemma wf_path_ignore [simp]: "wf_path levels (p\<lparr>ep_ignore_outside := c\<rparr>) = wf_path levels p"
  by (simp add: wf_path_def)

lemma node_path_new_sel [simp]:
  "np_arc (node_path_new a p) = a" "np_path (node_path_new a p) = p" "np_exposed (node_path_new a p) = False"
  by (simp_all add: node_path_new_def)

text \<open>A message that passed the wire codec and the shape gate.\<close>

definition accepted_message :: "naddr \<Rightarrow> etp_message \<Rightarrow> bool" where
  "accepted_message my m \<longleftrightarrow>
     naddr_topology (em_node_address m) = naddr_topology my \<and> em_node_address m \<noteq> my \<and>
     message_shape_ok (naddr_topology my) m \<and> valid_message m \<and>
     length (em_nodes_inside m) = topology_levels (naddr_topology my) + 1"


subsection \<open>Grouping\<close>

definition regroup :: "hcoord \<Rightarrow> arc_id \<Rightarrow> etp_path \<Rightarrow> etp_path" where
  "regroup v arc p = p
     \<lparr>ep_hops := group_hops v (ep_hops p),
      ep_arcs := arc # drop (length (takeWhile (\<lambda>h. hc_level h < hc_level v) (ep_hops p))) (ep_arcs p)\<rparr>"

lemma drop_leading_eq:
  "length arcs = length hops \<Longrightarrow> drop_leading l hops arcs =
     Ok (dropWhile (\<lambda>h. hc_level h < l) hops, drop (length (takeWhile (\<lambda>h. hc_level h < l) hops)) arcs)"
  by (induction l hops arcs rule: drop_leading.induct) (auto split: list.splits)

lemma group_path_eq: "length (ep_arcs p) = length (ep_hops p) \<Longrightarrow> group_path v arc p = Ok (regroup v arc p)"
  by (simp add: group_path_def drop_leading_eq regroup_def group_hops_def)

lemma length_drop_takeWhile:
  "length ys = length xs \<Longrightarrow> length (drop (length (takeWhile P xs)) ys) = length (dropWhile P xs)"
  by (metis dropWhile_eq_drop length_drop)

lemma sorted_dropWhile_levels:
  assumes "sorted (map hc_level hops)" "h \<in> set (dropWhile (\<lambda>h. hc_level h < l) hops)"
  shows "l \<le> hc_level h"
  using assms by (induction hops) (auto split: if_splits dest: order_trans)

lemma group_hops_sorted:
  assumes "sorted (map hc_level hops)"
  shows "sorted (map hc_level (group_hops v hops))"
proof -
  have "sorted (map hc_level (dropWhile (\<lambda>h. hc_level h < hc_level v) hops))"
    using assms by (simp add: sorted_map dropWhile_eq_drop sorted_wrt_drop)
  then show ?thesis
    using sorted_dropWhile_levels [OF assms] by (auto simp: group_hops_def)
qed

lemma last_group_hops:
  assumes "hops \<noteq> []" "hc_level v \<le> hc_level (last hops)"
  shows "last (group_hops v hops) = last hops"
proof -
  have "\<not> hc_level (last hops) < hc_level v" "last hops \<in> set hops" using assms by auto
  then have "dropWhile (\<lambda>h. hc_level h < hc_level v) hops \<noteq> []"
    unfolding dropWhile_eq_Nil_conv by blast
  then show ?thesis by (simp add: group_hops_def dropWhile_eq_drop)
qed

text \<open>A path a peer may legitimately tell: of the shape the gate demands, from a revalidated wire.\<close>

lemma shape_wf_path:
  "path_shape_ok t p \<Longrightarrow> valid_path p \<Longrightarrow> wf_path (topology_levels t) p"
  by (auto simp: path_shape_ok_def wf_path_def hops_ok_def list_all_iff hop_in_range_def valid_path_def
      valid_fp_def)

text \<open>The pruning flags are what makes grouping sound: a path that ends below the sender's level
  is flagged there, hence dropped before grouping could truncate it.\<close>

lemma valid_outside_reaches:
  assumes "path_shape_ok t p" "valid_outside v p" "hc_level v < topology_levels t"
  shows "hc_level v \<le> hc_level (last (ep_hops p))"
  using assms by (force simp: path_shape_ok_def valid_outside_def)

lemma wf_path_regroup:
  assumes "wf_path levels p" "hc_level v \<le> hc_level (last (ep_hops p))" "hc_level v < levels"
  shows "wf_path levels (regroup v arc p)"
proof -
  have "set (group_hops v (ep_hops p)) \<subseteq> insert v (set (ep_hops p))"
    by (auto simp: group_hops_def dest: set_dropWhileD)
  moreover have "sorted (map hc_level (group_hops v (ep_hops p)))"
    using assms(1) by (simp add: wf_path_def group_hops_sorted)
  moreover have "last (group_hops v (ep_hops p)) = last (ep_hops p)"
    using assms by (simp add: wf_path_def last_group_hops)
  moreover have "length (drop (length (takeWhile (\<lambda>h. hc_level h < hc_level v) (ep_hops p))) (ep_arcs p))
      = length (dropWhile (\<lambda>h. hc_level h < hc_level v) (ep_hops p))"
    using assms(1) by (intro length_drop_takeWhile) (simp add: wf_path_def)
  ultimately show ?thesis
    using assms by (auto simp: wf_path_def regroup_def group_hops_def)
qed


subsection \<open>The revision of an accepted message\<close>

definition old_path_of :: "etp_message \<Rightarrow> arc_id \<Rightarrow> usize \<Rightarrow> hcoord option \<Rightarrow> etp_path list" where
  "old_path_of m arc levels old_coord =
     (case old_coord of
        None \<Rightarrow> []
      | Some old_v \<Rightarrow> [sender_path old_v arc Dead (em_fingerprints m ! hc_level old_v)
            (em_nodes_inside m ! hc_level old_v) levels])"

definition told_paths :: "naddr \<Rightarrow> etp_message \<Rightarrow> arc_id \<Rightarrow> hcoord \<Rightarrow> hcoord option \<Rightarrow> etp_path list" where
  "told_paths my m arc v old_coord =
     filter (\<lambda>p. \<not> loops_back my (ep_hops p)) (map (regroup v arc) (filter (valid_outside v) (em_paths m)))
     @ [sender_path v arc Null (em_fingerprints m ! hc_level v) (em_nodes_inside m ! hc_level v)
          (topology_levels (naddr_topology my))]
     @ old_path_of m arc (topology_levels (naddr_topology my)) old_coord"

text \<open>The arguments the actor calls \<open>revise_etp\<close> with.\<close>

definition revise_args_ok :: "naddr \<Rightarrow> etp_message \<Rightarrow> naddr option \<Rightarrow> bool" where
  "revise_args_ok my m old \<longleftrightarrow> wf_naddr my \<and> accepted_message my m \<and> pred_option wf_naddr old"

lemma old_coord_of_Ok:
  assumes "wf_naddr my" "pred_option wf_naddr old"
  obtains oc where "old_coord_of my old v = Ok oc"
    "oc = None \<or> (\<exists>a v'. oc = Some v' \<and> v' \<noteq> v \<and> old = Some a \<and> diverges_at my a v')"
proof (cases old)
  case None
  with that show ?thesis by (simp add: old_coord_of_def)
next
  case (Some a)
  then have a: "wf_naddr a" using assms(2) by simp
  show ?thesis
  proof (cases "hcoord_of my a")
    case (Ok r)
    show ?thesis
    proof (cases r)
      case None
      with that Ok Some show ?thesis by (simp add: old_coord_of_def)
    next
      case r: (Some v')
      then have "diverges_at my a v'" using hcoord_of_SomeD [OF assms(1) a] Ok by simp
      with that [of "if v' \<noteq> v then Some v' else None"] Ok Some r show ?thesis
        by (auto simp: old_coord_of_def)
    qed
  next
    case (Err e)
    with that Some show ?thesis by (simp add: old_coord_of_def)
  next
    case Panic
    then show ?thesis using hcoord_of_not_Panic [OF assms(1) a] by simp
  qed
qed

lemma sender_diverges:
  assumes "revise_args_ok my m old"
  obtains v where "hcoord_of my (em_node_address m) = Ok (Some v)"
    "diverges_at my (em_node_address m) v" "hc_level v < topology_levels (naddr_topology my)"
proof -
  have w: "wf_naddr my" "wf_naddr (em_node_address m)" "naddr_topology my = naddr_topology (em_node_address m)"
    "my \<noteq> em_node_address m"
    using assms by (auto simp: revise_args_ok_def accepted_message_def valid_message_def)
  from w(1-3) show ?thesis
  proof (cases rule: hcoord_of_cases)
    case same
    with w(4) show ?thesis by simp
  next
    case (diverges v)
    then have "hc_level v < topology_levels (naddr_topology my)"
      using w(1) by (simp add: diverges_at_def naddr_defs wf_naddr_def)
    with diverges that show ?thesis by blast
  qed
qed

lemma revise_etp_eq:
  assumes ok: "revise_args_ok my m old"
    and v: "hcoord_of my (em_node_address m) = Ok (Some v)" "hc_level v < topology_levels (naddr_topology my)"
    and oc: "old_coord_of my old v = (Ok oc :: (hcoord option, qspn_error) res)"
    and lv: "\<And>v'. oc = Some v' \<Longrightarrow> hc_level v' < topology_levels (naddr_topology my)"
  shows "revise_etp my m arc old is_full existing =
     (if loops_back my (group_hops v (em_hops m)) then Err Acyclic
      else Ok \<lparr>rev_hops = group_hops v (em_hops m),
          rev_paths = (if is_full then withdrawals arc (told_paths my m arc v oc) existing else [])
            @ map (node_path_new arc) (told_paths my m arc v oc)\<rparr>)"
proof -
  have shape: "message_shape_ok (naddr_topology my) m"
    and lens: "length (em_fingerprints m) = topology_levels (naddr_topology my) + 1"
      "length (em_nodes_inside m) = topology_levels (naddr_topology my) + 1"
    using ok by (auto simp: revise_args_ok_def accepted_message_def message_shape_ok_def)
  have grp: "try_map (group_path v arc) (filter (valid_outside v) (em_paths m)) =
      (Ok (map (regroup v arc) (filter (valid_outside v) (em_paths m))) :: (_, qspn_error) res)"
    using shape
    by (intro try_map_all_Ok group_path_eq) (auto simp: message_shape_ok_def list_all_iff path_shape_ok_def)
  have fpl: "fp_level (em_fingerprints m ! hc_level v) = hc_level v"
    using shape v(2) by (simp add: message_shape_ok_def)
  show ?thesis
    using v(2) lv
    by (cases oc) (auto simp: revise_etp_def lens v(1) oc grp fpl told_paths_def old_path_of_def Let_def)
qed


lemma revise_args_fp:
  assumes "revise_args_ok my m old" "l \<le> topology_levels (naddr_topology my)"
  shows "wf_fp (em_fingerprints m ! l) \<and> fp_level (em_fingerprints m ! l) = l"
  using assms
  by (auto simp: revise_args_ok_def accepted_message_def message_shape_ok_def valid_message_def
      list_all_length valid_fp_def)

lemma wf_sender_path:
  assumes "revise_args_ok my m old" "hc_level v < topology_levels (naddr_topology my)"
  shows "wf_path (topology_levels (naddr_topology my))
     (sender_path v arc c (em_fingerprints m ! hc_level v) n levels)"
  using assms revise_args_fp [OF assms(1), of "hc_level v"] by (simp add: wf_path_def sender_path_def)

lemma diverges_no_loop: "diverges_at my a v \<Longrightarrow> \<not> loops_back my [v]"
  by (simp add: diverges_at_def loops_back_def)

lemma told_paths_ok:
  assumes ok: "revise_args_ok my m old"
    and v: "diverges_at my (em_node_address m) v" "hc_level v < topology_levels (naddr_topology my)"
    and oc: "oc = None \<or> (\<exists>a v'. oc = Some v' \<and> v' \<noteq> v \<and> old = Some a \<and> diverges_at my a v')"
    and p: "p \<in> set (told_paths my m arc v oc)"
  shows "wf_path (topology_levels (naddr_topology my)) p \<and> hd (ep_arcs p) = arc \<and>
     \<not> loops_back my (ep_hops p)"
proof -
  have lv: "hc_level v' < topology_levels (naddr_topology my)" if "diverges_at my a v'" for a v'
    using that ok by (simp add: diverges_at_def naddr_defs revise_args_ok_def wf_naddr_def)
  from p consider (told) q where "q \<in> set (em_paths m)" "valid_outside v q" "p = regroup v arc q"
        "\<not> loops_back my (ep_hops p)"
    | (sender) "p = sender_path v arc Null (em_fingerprints m ! hc_level v) (em_nodes_inside m ! hc_level v)
          (topology_levels (naddr_topology my))"
    | (moved) v' where "oc = Some v'" "p = sender_path v' arc Dead (em_fingerprints m ! hc_level v')
          (em_nodes_inside m ! hc_level v') (topology_levels (naddr_topology my))"
    by (auto simp: told_paths_def old_path_of_def split: option.splits)
  then show ?thesis
  proof cases
    case told
    then have q: "path_shape_ok (naddr_topology my) q" "valid_path q"
      using ok by (auto simp: revise_args_ok_def accepted_message_def message_shape_ok_def
          valid_message_def list_all_iff)
    have "hd (ep_arcs p) = arc" using told by (simp add: regroup_def)
    then show ?thesis
      using told wf_path_regroup [OF shape_wf_path [OF q] valid_outside_reaches [OF q(1) told(2) v(2)] v(2)]
      by simp
  next
    case sender
    moreover have "hd (ep_arcs p) = arc" "ep_hops p = [v]" using sender by (simp_all add: sender_path_def)
    ultimately show ?thesis using wf_sender_path [OF ok v(2)] diverges_no_loop [OF v(1)] by simp
  next
    case moved
    with oc obtain a where a: "diverges_at my a v'" by auto
    have "hd (ep_arcs p) = arc" "ep_hops p = [v']" using moved by (simp_all add: sender_path_def)
    then show ?thesis using moved wf_sender_path [OF ok lv [OF a]] diverges_no_loop [OF a] by simp
  qed
qed

text \<open>The cases of a revision of an accepted message.\<close>

lemma revise_etp_cases:
  assumes "revise_args_ok my m old"
  obtains v oc where "hcoord_of my (em_node_address m) = Ok (Some v)"
    "diverges_at my (em_node_address m) v"
    "\<And>is_full existing. revise_etp my m arc old is_full existing =
     (if loops_back my (group_hops v (em_hops m)) then Err Acyclic
      else Ok \<lparr>rev_hops = group_hops v (em_hops m),
          rev_paths = (if is_full then withdrawals arc (told_paths my m arc v oc) existing else [])
            @ map (node_path_new arc) (told_paths my m arc v oc)\<rparr>)"
    "\<And>p. p \<in> set (told_paths my m arc v oc) \<Longrightarrow>
       wf_path (topology_levels (naddr_topology my)) p \<and> hd (ep_arcs p) = arc \<and> \<not> loops_back my (ep_hops p)"
proof -
  obtain v where v: "hcoord_of my (em_node_address m) = Ok (Some v)"
    "diverges_at my (em_node_address m) v" "hc_level v < topology_levels (naddr_topology my)"
    using sender_diverges [OF assms] .
  have w: "wf_naddr my" "pred_option wf_naddr old" using assms by (auto simp: revise_args_ok_def)
  obtain oc where oc: "old_coord_of my old v = (Ok oc :: (hcoord option, qspn_error) res)"
    "oc = None \<or> (\<exists>a v'. oc = Some v' \<and> v' \<noteq> v \<and> old = Some a \<and> diverges_at my a v')"
    using old_coord_of_Ok [OF w] .
  have "hc_level v' < topology_levels (naddr_topology my)" if "oc = Some v'" for v'
    using that oc(2) w(1) by (auto simp: diverges_at_def naddr_defs wf_naddr_def)
  then show ?thesis
    using that [OF v(1,2) revise_etp_eq [OF assms v(1,3) oc(1)] told_paths_ok [OF assms v(2,3) oc(2)]]
    by blast
qed

text \<open>Revising an accepted message never panics and fails in exactly one case: its hop trail,
  with the sender's coordinate in front, passes through this node's own position at some level.
  Otherwise the revised trail starts at the sender and is loop-free with levels that never fall.\<close>

theorem revise_etp_outcome:
  assumes "revise_args_ok my m old"
  shows "\<exists>v. hcoord_of my (em_node_address m) = Ok (Some v) \<and>
     (if list_ex (\<lambda>g. hc_level v \<le> hc_level g \<and> pos_at my (hc_level g) = Some (hc_pos g)) (em_hops m)
      then revise_etp my m arc old is_full existing = Err Acyclic
      else \<exists>r. revise_etp my m arc old is_full existing = Ok r \<and> hd (rev_hops r) = v \<and>
        \<not> loops_back my (rev_hops r) \<and> sorted (map hc_level (rev_hops r)))"
proof -
  obtain v oc where v: "hcoord_of my (em_node_address m) = Ok (Some v)" "diverges_at my (em_node_address m) v"
    and r: "revise_etp my m arc old is_full existing =
     (if loops_back my (group_hops v (em_hops m)) then Err Acyclic
      else Ok \<lparr>rev_hops = group_hops v (em_hops m),
          rev_paths = (if is_full then withdrawals arc (told_paths my m arc v oc) existing else [])
            @ map (node_path_new arc) (told_paths my m arc v oc)\<rparr>)"
    using revise_etp_cases [OF assms] by metis
  have srt: "sorted (map hc_level (em_hops m))"
    using assms by (simp add: revise_args_ok_def accepted_message_def message_shape_ok_def hops_ok_def)
  have "x \<in> set (dropWhile (\<lambda>h. hc_level h < hc_level v) (em_hops m)) \<longleftrightarrow>
      x \<in> set (em_hops m) \<and> hc_level v \<le> hc_level x" for x
  proof -
    have "set (em_hops m) = set (takeWhile (\<lambda>h. hc_level h < hc_level v) (em_hops m)) \<union>
        set (dropWhile (\<lambda>h. hc_level h < hc_level v) (em_hops m))"
      by (metis set_append takeWhile_dropWhile_id)
    then show ?thesis using sorted_dropWhile_levels [OF srt] by (auto dest: set_takeWhileD)
  qed
  then have "loops_back my (group_hops v (em_hops m)) \<longleftrightarrow>
      list_ex (\<lambda>g. hc_level v \<le> hc_level g \<and> pos_at my (hc_level g) = Some (hc_pos g)) (em_hops m)"
    using diverges_no_loop [OF v(2)] by (auto simp: loops_back_def group_hops_def list_ex_iff)
  moreover have "hd (group_hops v (em_hops m)) = v" by (simp add: group_hops_def)
  ultimately show ?thesis using v(1) r group_hops_sorted [OF srt] by auto
qed

text \<open>C29: every path a revision yields, whether told by the peer, intrinsic, or a withdrawal of a
  stored path of that arc, is well formed, enters through the arc, starts unexposed, and does not
  pass through this node's own position.\<close>

theorem revise_etp_paths_wf:
  assumes "revise_args_ok my m old"
    and "\<forall>np \<in> set existing. wf_node_path (topology_levels (naddr_topology my)) np \<and> np_arc np = arc \<and>
       \<not> loops_back my (np_hops np)"
    and "revise_etp my m arc old is_full existing = Ok r"
    and "np \<in> set (rev_paths r)"
  shows "wf_node_path (topology_levels (naddr_topology my)) np \<and> np_arc np = arc \<and> \<not> np_exposed np \<and>
     \<not> loops_back my (np_hops np)"
proof -
  obtain v oc where r: "revise_etp my m arc old is_full existing =
     (if loops_back my (group_hops v (em_hops m)) then Err Acyclic
      else Ok \<lparr>rev_hops = group_hops v (em_hops m),
          rev_paths = (if is_full then withdrawals arc (told_paths my m arc v oc) existing else [])
            @ map (node_path_new arc) (told_paths my m arc v oc)\<rparr>)"
    and told: "\<And>p. p \<in> set (told_paths my m arc v oc) \<Longrightarrow>
       wf_path (topology_levels (naddr_topology my)) p \<and> hd (ep_arcs p) = arc \<and> \<not> loops_back my (ep_hops p)"
    using revise_etp_cases [OF assms(1)] by metis
  from r assms(3,4) have "np \<in> set (withdrawals arc (told_paths my m arc v oc) existing) \<or>
      np \<in> node_path_new arc ` set (told_paths my m arc v oc)"
    by (auto split: if_splits)
  then show ?thesis
    using assms(2) told by (auto simp: withdrawals_def wf_node_path_def)
qed




subsection \<open>A concrete revision\<close>

definition example_known :: node_path where
  "example_known = node_path_new 7
     \<lparr>ep_hops = [HCoord 0 1, HCoord 1 2], ep_arcs = [7, 30], ep_cost = Finite 4,
      ep_fingerprint = example_fp_at 9 1, ep_nodes_inside = 3, ep_ignore_outside = [False, False]\<rparr>"

definition example_revised :: "bool \<Rightarrow> revised_etp" where
  "example_revised full =
     \<lparr>rev_hops = [HCoord 0 1],
      rev_paths = (if full then [node_path_new 7 ((np_path example_known)\<lparr>ep_cost := Dead\<rparr>)] else []) @
       map (node_path_new 7)
       [\<lparr>ep_hops = [HCoord 0 1, HCoord 0 2, HCoord 1 3], ep_arcs = [7, 21, 22], ep_cost = Finite 10,
         ep_fingerprint = example_fp_at 6 1, ep_nodes_inside = 3, ep_ignore_outside = [False, False]\<rparr>,
        \<lparr>ep_hops = [HCoord 0 1], ep_arcs = [7], ep_cost = Null,
         ep_fingerprint = example_fp_at 5 0, ep_nodes_inside = 1, ep_ignore_outside = [False, False]\<rparr>]\<rparr>"

lemma example_revise:
  "revise_etp (example_naddr 0 0) example_message 7 None full [example_known] = Ok (example_revised full)"
  by (simp add: revise_etp_def example_message_def example_naddr_def example_topology_def
      topology_levels_def hcoord_of_def index_def old_coord_of_def loops_back_def group_hops_def
      pos_at_def valid_outside_def group_path_def example_revised_def example_known_def
      withdrawals_def hops_arcs_equal_def sender_path_def example_fp_at_def)

lemma example_args_ok: "revise_args_ok (example_naddr 0 0) example_message None"
proof -
  have "valid_message example_message"
    by (simp add: valid_message_def example_message_def valid_fp_def valid_hop_def valid_path_def
        level_fits_def example_fp_at_def wf_fp_def eldership_range_def list_all_iff)
  moreover have "em_node_address example_message \<noteq> example_naddr 0 0"
    "naddr_topology (em_node_address example_message) = example_topology"
    "length (em_nodes_inside example_message) = topology_levels example_topology + 1"
    "naddr_topology (example_naddr 0 0) = example_topology"
    by (simp_all add: example_message_def example_naddr_def example_topology_def topology_levels_def)
  ultimately show ?thesis
    by (simp add: revise_args_ok_def accepted_message_def example_message_shape)
qed

lemma example_known_ok:
  "\<forall>np \<in> set [example_known]. wf_node_path (topology_levels (naddr_topology (example_naddr 0 0))) np \<and>
     np_arc np = 7 \<and> \<not> loops_back (example_naddr 0 0) (np_hops np)"
  by (simp add: example_known_def wf_node_path_def wf_path_def example_naddr_def example_topology_def
      topology_levels_def loops_back_def pos_at_def example_fp_at_def wf_fp_def eldership_range_def)

theorem revise_etp_outcome_witness:
  "\<exists>r. revise_etp (example_naddr 0 0) example_message 7 None True [example_known] = Ok r \<and>
     \<not> loops_back (example_naddr 0 0) (rev_hops r)"
  using revise_etp_outcome [OF example_args_ok, of 7 True "[example_known]"]
  by (auto simp: example_revise split: if_splits)

theorem revise_etp_paths_wf_witness:
  "list_all (\<lambda>np. wf_node_path 2 np \<and> np_arc np = 7 \<and> \<not> np_exposed np) (rev_paths (example_revised True)) \<and>
     rev_paths (example_revised True) \<noteq> []"
proof
  show "list_all (\<lambda>np. wf_node_path 2 np \<and> np_arc np = 7 \<and> \<not> np_exposed np) (rev_paths (example_revised True))"
    unfolding list_all_iff
  proof
    fix np assume "np \<in> set (rev_paths (example_revised True))"
    from revise_etp_paths_wf [OF example_args_ok example_known_ok example_revise this]
    show "wf_node_path 2 np \<and> np_arc np = 7 \<and> \<not> np_exposed np"
      by (simp add: example_naddr_def example_topology_def topology_levels_def numeral_2_eq_2)
  qed
  show "rev_paths (example_revised True) \<noteq> []" by (simp add: example_revised_def)
qed


end
