(* ===== verification/Qspn_Config.thy ===== *)
theory Qspn_Config
  imports Complex_Main Ntk_Prelude
begin

section \<open>Configuration and the overlap tolerance (\<open>config.rs\<close>, \<open>mch_ratio.rs\<close>)\<close>

text \<open>
  The injectable constants of the routing core, with the defaults of the reference deployment, and
  \<open>mch_ratio\<close>, the share of common hops disjoint-path admission tolerates. An \<open>f64\<close> is a real
  number and a \<open>Duration\<close> its number of milliseconds.
\<close>

record mch_ratio_table =
  gateway_ratio :: "real list"
  gateway_ratio_overflow :: real
  size_ratio_bands :: "(u32 \<times> real) list"
  size_ratio_overflow :: real

definition mch_ratio_table_default :: mch_ratio_table where
  "mch_ratio_table_default =
     \<lparr>gateway_ratio = [45/100, 35/100, 27/100, 20/100, 15/100, 12/100, 10/100],
      gateway_ratio_overflow = 8/100,
      size_ratio_bands = [(10, 1), (25, 9/10), (75, 8/10), (250, 6/10), (750, 3/10), (3000, 1/10)],
      size_ratio_overflow = 1/10000\<rparr>"

record overlap_weights =
  intermediate_coeff :: real
  destination_coeff :: real
  destination_offset :: real

definition overlap_weights_default :: overlap_weights where
  "overlap_weights_default =
     \<lparr>intermediate_coeff = 15/10, destination_coeff = 75/100, destination_offset = 1\<rparr>"

type_synonym duration = nat

record qspn_config =
  max_paths :: usize
  max_common_hops_ratio :: real
  arc_timeout :: duration
  bootstrap_signal_delay :: duration
  bootstrap_fallback_max_wait :: duration
  presence_notified_delay :: duration
  periodic_full_etp_interval :: duration
  first_detection_split_delay :: duration
  publish_connectivity_delay :: duration
  prepare_destroy_wait :: duration
  caller_arc_poll_interval :: duration
  nodes_inside_tolerance :: real
  cfg_overlap_weights :: overlap_weights
  cfg_mch_ratio_table :: mch_ratio_table
  arc_gather_debounce :: duration

definition qspn_config_default :: qspn_config where
  "qspn_config_default =
     \<lparr>max_paths = 5, max_common_hops_ratio = 6/10, arc_timeout = 10000,
      bootstrap_signal_delay = 1, bootstrap_fallback_max_wait = 10000,
      presence_notified_delay = 1000, periodic_full_etp_interval = 600000,
      first_detection_split_delay = 500, publish_connectivity_delay = 50,
      prepare_destroy_wait = 10000, caller_arc_poll_interval = 10,
      nodes_inside_tolerance = 10/100, cfg_overlap_weights = overlap_weights_default,
      cfg_mch_ratio_table = mch_ratio_table_default, arc_gather_debounce = 250\<rparr>"

definition mch_gateway_factor :: "mch_ratio_table \<Rightarrow> nat \<Rightarrow> real" where
  "mch_gateway_factor table numgw =
     (if 1 \<le> numgw \<and> numgw \<le> 7 then gateway_ratio table ! (numgw - 1)
      else gateway_ratio_overflow table)"

definition mch_size_factor :: "mch_ratio_table \<Rightarrow> u32 \<Rightarrow> real" where
  "mch_size_factor table sz =
     (case find (\<lambda>(bound, _). sz < bound) (size_ratio_bands table) of
        None \<Rightarrow> size_ratio_overflow table
      | Some (_, ratio) \<Rightarrow> ratio)"

definition mch_ratio :: "real \<Rightarrow> mch_ratio_table \<Rightarrow> u32 \<Rightarrow> nat \<Rightarrow> real" where
  "mch_ratio base table sz numgw =
     (let e = base * mch_gateway_factor table numgw;
          g = mch_size_factor table sz
      in (base - e) * g + e)"

subsection \<open>Ladders that tighten\<close>

definition mch_table_ok :: "mch_ratio_table \<Rightarrow> bool" where
  "mch_table_ok t \<longleftrightarrow>
     length (gateway_ratio t) = 7 \<and>
     sorted_wrt (\<lambda>a b. b \<le> a) (gateway_ratio t @ [gateway_ratio_overflow t]) \<and>
     list_all (\<lambda>r. 0 \<le> r \<and> r \<le> 1) (gateway_ratio t @ [gateway_ratio_overflow t]) \<and>
     sorted_wrt (\<lambda>a b. b \<le> a) (map snd (size_ratio_bands t) @ [size_ratio_overflow t]) \<and>
     list_all (\<lambda>r. 0 \<le> r \<and> r \<le> 1) (map snd (size_ratio_bands t) @ [size_ratio_overflow t])"

lemma mch_table_default_ok: "mch_table_ok mch_ratio_table_default"
  by (simp add: mch_table_ok_def mch_ratio_table_default_def)

lemma gateway_factor_nth:
  assumes "mch_table_ok t" "1 \<le> g"
  shows "mch_gateway_factor t g = (gateway_ratio t @ [gateway_ratio_overflow t]) ! (min g 8 - 1)"
  using assms by (auto simp: mch_gateway_factor_def mch_table_ok_def nth_append min_def)

lemma gateway_factor_antimono:
  assumes "mch_table_ok t" "1 \<le> g" "g \<le> g'"
  shows "mch_gateway_factor t g' \<le> mch_gateway_factor t g"
proof (cases "min g 8 = min g' 8")
  case True
  with assms show ?thesis by (simp add: gateway_factor_nth)
next
  case False
  then have "min g 8 - 1 < min g' 8 - 1" "min g' 8 - 1 < length (gateway_ratio t @ [gateway_ratio_overflow t])"
    using assms by (auto simp: mch_table_ok_def)
  then show ?thesis
    using assms sorted_wrt_nth_less [of "\<lambda>a b. b \<le> a" "gateway_ratio t @ [gateway_ratio_overflow t]"]
    by (simp add: gateway_factor_nth mch_table_ok_def)
qed

lemma gateway_factor_unit: "mch_table_ok t \<Longrightarrow> 0 \<le> mch_gateway_factor t g \<and> mch_gateway_factor t g \<le> 1"
  by (auto simp: mch_gateway_factor_def mch_table_ok_def list_all_iff)

lemma band_ladder_antimono:
  fixes bands :: "(u32 \<times> real) list"
  assumes "sorted_wrt (\<lambda>a b. b \<le> a) (map snd bands @ [over])" "s \<le> s'"
  shows "(case find (\<lambda>(b, _). s' < b) bands of None \<Rightarrow> over | Some (_, r) \<Rightarrow> r)
       \<le> (case find (\<lambda>(b, _). s < b) bands of None \<Rightarrow> over | Some (_, r) \<Rightarrow> r)"
  using assms
proof (induction bands)
  case Nil
  then show ?case by simp
next
  case (Cons br bands)
  obtain b r where br: "br = (b, r)" by (cases br)
  have le: "(case find (\<lambda>(b, _). s' < b) bands of None \<Rightarrow> over | Some (_, r) \<Rightarrow> r) \<le> r"
    using Cons.prems(1) br by (auto split: option.splits dest!: find_SomeD)
  show ?case
    using Cons le br by (cases "s' < b"; cases "s < b") (auto dest: order_le_less_trans)
qed

lemma size_factor_antimono: "mch_table_ok t \<Longrightarrow> s \<le> s' \<Longrightarrow> mch_size_factor t s' \<le> mch_size_factor t s"
  unfolding mch_size_factor_def by (rule band_ladder_antimono) (auto simp: mch_table_ok_def)

lemma size_factor_unit: "mch_table_ok t \<Longrightarrow> 0 \<le> mch_size_factor t s \<and> mch_size_factor t s \<le> 1"
  by (auto simp: mch_size_factor_def mch_table_ok_def list_all_iff split: option.splits dest!: find_SomeD)

text \<open>Over any pair of falling ladders between 0 and 1, the tolerance lies between the gateway
  share of the base and the base itself, and neither more gateways nor a bigger destination ever
  widens it.\<close>

theorem mch_ratio_tightens:
  assumes "mch_table_ok t" "0 \<le> base" "1 \<le> g" "g \<le> g'" "s \<le> s'"
  shows "base * mch_gateway_factor t g \<le> mch_ratio base t s g \<and> mch_ratio base t s g \<le> base \<and>
     mch_ratio base t s' g' \<le> mch_ratio base t s g"
proof -
  let ?l = "mch_gateway_factor t g" and ?l' = "mch_gateway_factor t g'"
  let ?z = "mch_size_factor t s" and ?z' = "mch_size_factor t s'"
  have l: "0 \<le> ?l" "?l \<le> 1" "0 \<le> ?l'" "?l' \<le> ?l" and z: "0 \<le> ?z" "?z \<le> 1" "0 \<le> ?z'" "?z' \<le> ?z"
    using assms gateway_factor_unit gateway_factor_antimono size_factor_unit size_factor_antimono by auto
  have *: "mch_ratio base t s g = base * (?z + ?l * (1 - ?z))"
    "mch_ratio base t s' g' = base * (?z' + ?l' * (1 - ?z'))"
    by (simp_all add: mch_ratio_def Let_def algebra_simps)
  have "?l \<le> ?z + ?l * (1 - ?z)" "?z + ?l * (1 - ?z) \<le> 1"
    using l z mult_left_le [of ?l ?z] mult_nonneg_nonneg [of "1 - ?l" "1 - ?z"]
    by (auto simp: algebra_simps)
  moreover have "?z' + ?l' * (1 - ?z') \<le> ?z + ?l * (1 - ?z)"
  proof -
    have "?l' * (1 - ?z') \<le> ?l * (1 - ?z')" using l z by (intro mult_right_mono) auto
    moreover have "?z' * (1 - ?l) \<le> ?z * (1 - ?l)" using l z by (intro mult_right_mono) auto
    ultimately show ?thesis by (simp add: algebra_simps)
  qed
  ultimately show ?thesis
    using assms(2) mult_left_mono [of _ _ base] mult_left_le [of "?z + ?l * (1 - ?z)" base]
    unfolding * by simp
qed

theorem mch_ratio_tightens_witness:
  "(6/10) * mch_gateway_factor mch_ratio_table_default 3 \<le> mch_ratio (6/10) mch_ratio_table_default 100 3 \<and>
     mch_ratio (6/10) mch_ratio_table_default 100 3 \<le> 6/10 \<and>
     mch_ratio (6/10) mch_ratio_table_default 500 4 \<le> mch_ratio (6/10) mch_ratio_table_default 100 3"
  using mch_ratio_tightens [OF mch_table_default_ok, of "6/10" 3 4 100 500] by (simp add: word_le_nat_alt)

end
