(* ===== verification/Qspn_State.thy ===== *)
theory Qspn_State
  imports Ntk_Maps Qspn_Revise Qspn_Config
begin

section \<open>The routing state of one identity (\<open>state.rs\<close>, \<open>events.rs\<close>)\<close>

text \<open>
  \<open>QspnState\<close>: the node's own address, fingerprints and sizes per level, its arcs, the destination map
  (one hash map per level), and the bootstrap and connectivity bookkeeping. This theory has the data,
  the constructors, the accessors, the arc operations and the invariant; the climb through the
  clusters, the admission pass, and the migration operations have theories of their own.
  Debug assertions are not compiled in.
\<close>

datatype qspn_event =
    BootstrapComplete
  | PresenceNotified
  | ArcRemoved arc_id bool
  | DestinationAdded hcoord
  | DestinationRemoved hcoord
  | PathAdded route_path
  | PathChanged route_path
  | PathRemoved route_path
  | ChangedFingerprint usize
  | ChangedNodesInside usize
  | GnodeSplitted arc_id hcoord fp

record arc_entry =
  ae_cost :: cost
  ae_peer :: "naddr option"

type_synonym fp_key = "usize \<times> u8 list"

definition fp_key_of :: "fp \<Rightarrow> fp_key" where
  "fp_key_of f = (fp_level f, fp_id f)"

datatype bootstrap = Complete | InProgress usize usize

record internal_arc =
  ia_previous :: arc_id
  ia_new :: arc_id
  ia_peer :: naddr
  ia_cost :: cost

type_synonym level_map = "(u32, destination) hash_map"

record qspn_state =
  st_naddr :: naddr
  st_fps :: "fp list"
  st_nodes_inside :: "u32 list"
  st_arcs :: "(arc_id, arc_entry) btree_map"
  st_dests :: "level_map list"
  st_config :: qspn_config
  st_pending :: "(fp_key \<times> fp_key) set"
  st_bootstrap :: bootstrap
  st_conn_from :: usize
  st_conn_to :: usize

subsection \<open>Accessors\<close>

definition levels_of :: "qspn_state \<Rightarrow> usize" where
  "levels_of s = topology_levels (naddr_topology (st_naddr s))"

definition is_bootstrap_complete :: "qspn_state \<Rightarrow> bool" where
  "is_bootstrap_complete s \<longleftrightarrow> st_bootstrap s = Complete"

definition guest_gnode_level :: "qspn_state \<Rightarrow> usize" where
  "guest_gnode_level s = (case st_bootstrap s of Complete \<Rightarrow> levels_of s | InProgress g h \<Rightarrow> g)"

definition host_gnode_level :: "qspn_state \<Rightarrow> usize option" where
  "host_gnode_level s = (case st_bootstrap s of Complete \<Rightarrow> None | InProgress g h \<Rightarrow> Some h)"

definition exit_bootstrap :: "qspn_state \<Rightarrow> qspn_state" where
  "exit_bootstrap s = s\<lparr>st_bootstrap := Complete\<rparr>"

definition is_main_identity :: "qspn_state \<Rightarrow> bool" where
  "is_main_identity s \<longleftrightarrow> st_conn_from s = 0"

definition fingerprint_at :: "qspn_state \<Rightarrow> usize \<Rightarrow> fp option" where
  "fingerprint_at s level = (if level < length (st_fps s) then Some (st_fps s ! level) else None)"

definition my_eldership :: "qspn_state \<Rightarrow> usize \<Rightarrow> u32 option option" where
  "my_eldership s level =
     (if guest_gnode_level s < level then None
      else map_option (\<lambda>f. parts_eldership (to_parts f)) (fingerprint_at s level))"

definition nodes_inside_at :: "qspn_state \<Rightarrow> usize \<Rightarrow> u32 option" where
  "nodes_inside_at s level =
     (if level < length (st_nodes_inside s) then Some (st_nodes_inside s ! level) else None)"

definition contains_arc :: "qspn_state \<Rightarrow> arc_id \<Rightarrow> bool" where
  "contains_arc s arc \<longleftrightarrow> map_of (st_arcs s) arc \<noteq> None"

definition destination_at :: "qspn_state \<Rightarrow> usize \<Rightarrow> u32 \<Rightarrow> destination option" where
  "destination_at s level pos =
     (if level < length (st_dests s) then map_of (st_dests s ! level) pos else None)"

definition peer_naddr :: "qspn_state \<Rightarrow> arc_id \<Rightarrow> naddr option" where
  "peer_naddr s arc = Option.bind (map_of (st_arcs s) arc) ae_peer"

definition arc_cost :: "qspn_state \<Rightarrow> arc_id \<Rightarrow> cost" where
  "arc_cost s arc = (case map_of (st_arcs s) arc of None \<Rightarrow> Dead | Some e \<Rightarrow> ae_cost e)"

definition eldership_of :: "qspn_state \<Rightarrow> usize \<Rightarrow> u32 \<Rightarrow> (u32 option option, qspn_error) res" where
  "eldership_of s level pos =
     (if level < levels_of s \<and> guest_gnode_level s \<le> level then Err BootstrapInProgress
      else case destination_at s level pos of
        None \<Rightarrow> Ok None
      | Some d \<Rightarrow> res_bind (map_err CommonError (dest_evaluate d (arc_cost s))) (\<lambda>(f, _, _).
          Ok (Some (parts_eldership (to_parts f)))))"

subsection \<open>Arcs\<close>

definition add_arc :: "arc_id \<Rightarrow> cost \<Rightarrow> qspn_state \<Rightarrow> qspn_state" where
  "add_arc i c s = s\<lparr>st_arcs := bt_insert i \<lparr>ae_cost = c, ae_peer = None\<rparr> (st_arcs s)\<rparr>"

definition set_arc_cost :: "arc_id \<Rightarrow> cost \<Rightarrow> qspn_state \<Rightarrow> qspn_state" where
  "set_arc_cost i c s = s\<lparr>st_arcs := bt_modify i (\<lambda>e. e\<lparr>ae_cost := c\<rparr>) (st_arcs s)\<rparr>"

definition record_peer_naddr :: "arc_id \<Rightarrow> naddr \<Rightarrow> qspn_state \<Rightarrow> naddr option \<times> qspn_state" where
  "record_peer_naddr i a s =
     (peer_naddr s i, s\<lparr>st_arcs := bt_modify i (\<lambda>e. e\<lparr>ae_peer := Some a\<rparr>) (st_arcs s)\<rparr>)"

definition level_paths :: "level_map \<Rightarrow> node_path list" where
  "level_paths m = concat (map (\<lambda>(pos, d). dest_paths d) m)"

definition paths_via_arc0 :: "qspn_state \<Rightarrow> arc_id \<Rightarrow> node_path list" where
  "paths_via_arc0 s arc =
     filter (\<lambda>np. np_arcs np \<noteq> [] \<and> hd (np_arcs np) = arc) (concat (map level_paths (st_dests s)))"

definition all_paths_at :: "qspn_state \<Rightarrow> usize \<Rightarrow> node_path list" where
  "all_paths_at s level = (if level < length (st_dests s) then level_paths (st_dests s ! level) else [])"

record remove_arc_outcome =
  ra_events :: "qspn_event list"
  ra_dead_paths :: "etp_path list"

definition drop_arc_paths :: "arc_id \<Rightarrow> destination \<Rightarrow> destination" where
  "drop_arc_paths arc d = d\<lparr>dest_paths := filter (\<lambda>np. np_arc np \<noteq> arc) (dest_paths d)\<rparr>"

fun unset_all :: "u32 list \<Rightarrow> level_map \<Rightarrow> qspn_event list \<times> level_map" where
  "unset_all [] m = ([], m)"
| "unset_all (pos # ps) m =
     (let (evs, m') = unset_all ps (hm_remove pos m) in
      case map_of m pos of None \<Rightarrow> (evs, m') | Some d \<Rightarrow> (DestinationRemoved (dest_coord d) # evs, m'))"

definition remove_arc_level ::
  "arc_id \<Rightarrow> level_map \<Rightarrow> qspn_event list \<times> etp_path list \<times> level_map" where
  "remove_arc_level arc m =
     (let gone = filter (\<lambda>np. np_arc np = arc) (level_paths m);
          m' = map (\<lambda>(pos, d). (pos, drop_arc_paths arc d)) m;
          to_unset = map fst (filter (\<lambda>(pos, d). dest_paths d = []) m');
          (unset_events, m'') = unset_all to_unset m'
      in (map (\<lambda>np. PathRemoved (to_route_path np Dead)) gone @ unset_events,
          map (\<lambda>np. (prepare_for_sending np Dead)\<lparr>ep_cost := Dead\<rparr>) gone, m''))"

definition remove_arc :: "arc_id \<Rightarrow> qspn_state \<Rightarrow> remove_arc_outcome \<times> qspn_state" where
  "remove_arc arc s =
     (if map_of (st_arcs s) arc = None then (\<lparr>ra_events = [], ra_dead_paths = []\<rparr>, s)
      else let per_level = map (remove_arc_level arc) (st_dests s) in
        (\<lparr>ra_events = concat (map fst per_level), ra_dead_paths = concat (map (fst \<circ> snd) per_level)\<rparr>,
         s\<lparr>st_arcs := bt_remove arc (st_arcs s), st_dests := map (snd \<circ> snd) per_level\<rparr>))"


subsection \<open>The invariant\<close>

text \<open>
  A stored destination sits under its own coordinate and is never empty; its paths are well formed,
  end there, are alive, enter through an arc the node has, and are pairwise different routes.
\<close>

definition route_key :: "node_path \<Rightarrow> hcoord list \<times> arc_id list" where
  "route_key np = (np_hops np, np_arcs np)"

definition wf_stored :: "usize \<Rightarrow> arc_id set \<Rightarrow> hcoord \<Rightarrow> node_path \<Rightarrow> bool" where
  "wf_stored levels arcs c np \<longleftrightarrow>
     wf_node_path levels np \<and> last (np_hops np) = c \<and> ep_cost (np_path np) \<noteq> Dead \<and> np_arc np \<in> arcs"

definition wf_paths :: "usize \<Rightarrow> arc_id set \<Rightarrow> hcoord \<Rightarrow> node_path list \<Rightarrow> bool" where
  "wf_paths levels arcs c ps \<longleftrightarrow> (\<forall>np \<in> set ps. wf_stored levels arcs c np) \<and> distinct (map route_key ps)"

definition wf_dest :: "usize \<Rightarrow> arc_id set \<Rightarrow> hcoord \<Rightarrow> destination \<Rightarrow> bool" where
  "wf_dest levels arcs c d \<longleftrightarrow>
     dest_coord d = c \<and> dest_paths d \<noteq> [] \<and> wf_paths levels arcs c (dest_paths d)"

definition wf_level :: "usize \<Rightarrow> arc_id set \<Rightarrow> usize \<Rightarrow> level_map \<Rightarrow> bool" where
  "wf_level levels arcs l m \<longleftrightarrow> hm_wf m \<and> (\<forall>(pos, d) \<in> set m. wf_dest levels arcs (HCoord l pos) d)"

definition wf_dests :: "usize \<Rightarrow> arc_id set \<Rightarrow> level_map list \<Rightarrow> bool" where
  "wf_dests levels arcs ms \<longleftrightarrow> length ms = levels \<and> (\<forall>l < levels. wf_level levels arcs l (ms ! l))"

text \<open>The node's own chain of fingerprints, with enough scheduled claims left to climb again.\<close>

definition wf_chain :: "usize \<Rightarrow> fp list \<Rightarrow> bool" where
  "wf_chain levels fps \<longleftrightarrow> length fps = levels + 1 \<and>
     (\<forall>l \<le> levels. wf_fp (fps ! l) \<and> fp_level (fps ! l) = l \<and> levels \<le> l + length (fp_pending (fps ! l)))"

definition arc_ids :: "qspn_state \<Rightarrow> arc_id set" where
  "arc_ids s = fst ` set (st_arcs s)"

definition wf_peer :: "naddr \<Rightarrow> naddr \<Rightarrow> bool" where
  "wf_peer my a \<longleftrightarrow> wf_naddr a \<and> naddr_topology a = naddr_topology my"

definition wf_arcs :: "naddr \<Rightarrow> (arc_id, arc_entry) btree_map \<Rightarrow> bool" where
  "wf_arcs my arcs \<longleftrightarrow> bt_wf arcs \<and> (\<forall>(i, e) \<in> set arcs. pred_option (wf_peer my) (ae_peer e))"

definition wf_state :: "qspn_state \<Rightarrow> bool" where
  "wf_state s \<longleftrightarrow>
     wf_naddr (st_naddr s) \<and> wf_chain (levels_of s) (st_fps s) \<and>
     length (st_nodes_inside s) = levels_of s + 1 \<and> wf_arcs (st_naddr s) (st_arcs s) \<and>
     wf_dests (levels_of s) (arc_ids s) (st_dests s)"

text \<open>No stored path passes through the node's own position.\<close>

definition loop_free :: "qspn_state \<Rightarrow> bool" where
  "loop_free s \<longleftrightarrow> (\<forall>m \<in> set (st_dests s). \<forall>np \<in> set (level_paths m). \<not> loops_back (st_naddr s) (np_hops np))"

lemma in_level_paths: "np \<in> set (level_paths m) \<longleftrightarrow> (\<exists>pos d. (pos, d) \<in> set m \<and> np \<in> set (dest_paths d))"
  by (auto simp: level_paths_def)

lemma in_all_paths:
  "np \<in> set (concat (map level_paths ms)) \<longleftrightarrow>
     (\<exists>l < length ms. \<exists>pos d. (pos, d) \<in> set (ms ! l) \<and> np \<in> set (dest_paths d))"
proof -
  have "np \<in> set (concat (map level_paths ms)) \<longleftrightarrow> (\<exists>m \<in> set ms. np \<in> set (level_paths m))" by simp
  also have "\<dots> \<longleftrightarrow> (\<exists>l < length ms. np \<in> set (level_paths (ms ! l)))" by (metis in_set_conv_nth nth_mem)
  finally show ?thesis by (simp add: in_level_paths)
qed

lemma arc_ids_contains: "arc \<in> arc_ids s \<longleftrightarrow> contains_arc s arc"
  by (simp add: arc_ids_def contains_arc_def map_of_eq_None_iff)

lemma wf_statesD:
  assumes "wf_state s"
  shows "wf_naddr (st_naddr s)" "wf_chain (levels_of s) (st_fps s)"
    "length (st_nodes_inside s) = levels_of s + 1" "wf_arcs (st_naddr s) (st_arcs s)"
    "bt_wf (st_arcs s)" "wf_dests (levels_of s) (arc_ids s) (st_dests s)" "length (st_dests s) = levels_of s"
  using assms by (auto simp: wf_state_def wf_arcs_def wf_dests_def)

lemma wf_dests_level: "wf_dests levels arcs ms \<Longrightarrow> l < levels \<Longrightarrow> wf_level levels arcs l (ms ! l)"
  by (simp add: wf_dests_def)

lemma wf_level_get:
  "wf_level levels arcs l m \<Longrightarrow> map_of m pos = Some d \<Longrightarrow> wf_dest levels arcs (HCoord l pos) d"
  by (auto simp: wf_level_def dest: map_of_SomeD)

lemma wf_level_insert:
  assumes "wf_level levels arcs l m" "wf_dest levels arcs (HCoord l pos) d"
  shows "wf_level levels arcs l (hm_insert pos d m)"
  using assms by (auto simp: wf_level_def hm.wf_insert hm.entries_insert)

lemma wf_level_remove: "wf_level levels arcs l m \<Longrightarrow> wf_level levels arcs l (hm_remove pos m)"
  by (auto simp: wf_level_def hm.wf_remove hm.entries_remove)

lemma wf_dests_update:
  "wf_dests levels arcs ms \<Longrightarrow> (l < levels \<Longrightarrow> wf_level levels arcs l m) \<Longrightarrow> wf_dests levels arcs (ms[l := m])"
  unfolding wf_dests_def by (metis length_list_update nth_list_update_eq nth_list_update_neq)

lemma wf_stored_mono: "wf_stored levels arcs c np \<Longrightarrow> arcs \<subseteq> arcs' \<Longrightarrow> wf_stored levels arcs' c np"
  by (auto simp: wf_stored_def)

lemma wf_dests_mono:
  assumes "wf_dests levels arcs ms" "arcs \<subseteq> arcs'"
  shows "wf_dests levels arcs' ms"
  using assms by (fastforce simp: wf_dests_def wf_level_def wf_dest_def wf_paths_def intro: wf_stored_mono)

lemma wf_paths_level_fps:
  "wf_paths levels arcs c ps \<Longrightarrow> level_fps (hc_level c) ps"
  by (auto simp: wf_paths_def level_fps_def wf_stored_def wf_node_path_def wf_path_def)

lemma wf_destination_at:
  assumes "wf_state s" "destination_at s l pos = Some d"
  shows "l < levels_of s" "wf_dest (levels_of s) (arc_ids s) (HCoord l pos) d"
proof -
  show l: "l < levels_of s"
    using assms by (auto simp: destination_at_def wf_state_def wf_dests_def split: if_splits)
  have "map_of (st_dests s ! l) pos = Some d"
    using assms(2) by (simp add: destination_at_def split: if_splits)
  then show "wf_dest (levels_of s) (arc_ids s) (HCoord l pos) d"
    by (rule wf_level_get [OF wf_dests_level [OF wf_statesD(6) [OF assms(1)] l]])
qed


subsection \<open>The arc operations keep the invariant\<close>

lemma levels_of_arcs [simp]: "levels_of (s\<lparr>st_arcs := x\<rparr>) = levels_of s"
  "levels_of (s\<lparr>st_dests := y\<rparr>) = levels_of s"
  by (simp_all add: levels_of_def)

lemma wf_add_arc: "wf_state s \<Longrightarrow> wf_state (add_arc i c s)"
proof -
  assume s: "wf_state s"
  have e: "set (bt_insert i x (st_arcs s)) = {(k', v') \<in> set (st_arcs s). k' \<noteq> i} \<union> {(i, x)}" for x
    using bt.entries_insert [OF wf_statesD(5) [OF s]] .
  have "arc_ids (add_arc i c s) = insert i (arc_ids s)"
    using keys_bt_insert [of i _ "st_arcs s"] by (simp add: arc_ids_def add_arc_def)
  then have "wf_dests (levels_of s) (arc_ids (add_arc i c s)) (st_dests s)"
    using wf_statesD(6) [OF s] by (auto intro: wf_dests_mono)
  moreover have "wf_arcs (st_naddr s) (bt_insert i \<lparr>ae_cost = c, ae_peer = None\<rparr> (st_arcs s))"
    using wf_statesD(4,5) [OF s] by (auto simp: wf_arcs_def e bt_wf_insert)
  ultimately show ?thesis using s by (simp add: wf_state_def add_arc_def)
qed

lemma arc_ids_modify [simp]: "arc_ids (s\<lparr>st_arcs := bt_modify i f (st_arcs s)\<rparr>) = arc_ids s"
  using keys_bt_modify [of i f "st_arcs s"] by (metis arc_ids_def list.set_map qspn_state.select_convs(4)
      qspn_state.surjective qspn_state.update_convs(4))

lemma wf_arcs_modify:
  assumes "wf_arcs my arcs" "\<And>e. pred_option (wf_peer my) (ae_peer e) \<Longrightarrow> pred_option (wf_peer my) (ae_peer (f e))"
  shows "wf_arcs my (bt_modify i f arcs)"
  using assms by (auto simp: wf_arcs_def) (auto simp: bt_modify_def split: if_splits)

lemma wf_set_arc_cost: "wf_state s \<Longrightarrow> wf_state (set_arc_cost i c s)"
  unfolding set_arc_cost_def wf_state_def
  by (simp add: wf_arcs_modify)

lemma wf_record_peer_naddr:
  "wf_state s \<Longrightarrow> wf_peer (st_naddr s) a \<Longrightarrow> record_peer_naddr i a s = (old, s') \<Longrightarrow>
     wf_state s' \<and> pred_option (wf_peer (st_naddr s)) old \<and> old = peer_naddr s i \<and>
     (contains_arc s i \<longrightarrow> peer_naddr s' i = Some a)"
proof -
  assume s: "wf_state s" and a: "wf_peer (st_naddr s) a" and r: "record_peer_naddr i a s = (old, s')"
  have s': "s' = s\<lparr>st_arcs := bt_modify i (\<lambda>e. e\<lparr>ae_peer := Some a\<rparr>) (st_arcs s)\<rparr>"
    and old: "old = peer_naddr s i"
    using r by (auto simp: record_peer_naddr_def)
  have "wf_state s'" using s a by (simp add: s' wf_state_def wf_arcs_modify)
  moreover have "pred_option (wf_peer (st_naddr s)) old"
    using wf_statesD(4) [OF s]
    by (auto simp: old peer_naddr_def wf_arcs_def split: Option.bind_splits option.splits dest!: map_of_SomeD)
  moreover have "contains_arc s i \<longrightarrow> peer_naddr s' i = Some a"
    by (auto simp: contains_arc_def peer_naddr_def s' map_of_bt_modify)
  ultimately show ?thesis using old by blast
qed

subsection \<open>Removing an arc\<close>

lemma unset_all_spec:
  assumes "hm_wf m"
  shows "hm_wf (snd (unset_all ps m)) \<and> set (snd (unset_all ps m)) = {(k, v) \<in> set m. k \<notin> set ps}"
  using assms
proof (induction ps arbitrary: m)
  case Nil
  then show ?case by auto
next
  case (Cons p ps)
  have "snd (unset_all (p # ps) m) = snd (unset_all ps (hm_remove p m))"
    by (simp split: prod.splits option.splits)
  then show ?case
    using Cons.IH [OF hm.wf_remove [OF Cons.prems]] by (auto simp: hm.entries_remove [OF Cons.prems])
qed

lemma unset_all_events:
  "hm_wf m \<Longrightarrow> distinct ps \<Longrightarrow> set (fst (unset_all ps m)) =
     {DestinationRemoved (dest_coord d) | p d. p \<in> set ps \<and> map_of m p = Some d}"
proof (induction ps arbitrary: m)
  case Nil
  then show ?case by simp
next
  case (Cons p ps)
  have "map_of (hm_remove p m) q = map_of m q" if "q \<in> set ps" for q
    using that Cons.prems by (auto simp: hm.get_remove)
  then have "set (fst (unset_all ps (hm_remove p m))) =
      {DestinationRemoved (dest_coord d) | p d. p \<in> set ps \<and> map_of m p = Some d}"
    using Cons.IH [of "hm_remove p m"] Cons.prems by (fastforce simp: hm.wf_remove)
  then show ?case by (cases "map_of m p"; auto split: prod.splits; blast)
qed

lemma unset_keys:
  "p \<in> set (map fst (filter (\<lambda>(pos, d). dest_paths d = []) m)) \<longleftrightarrow> (\<exists>d. (p, d) \<in> set m \<and> dest_paths d = [])"
  by force

lemma remove_arc_level_map:
  assumes "hm_wf m"
  shows "hm_wf (snd (snd (remove_arc_level arc m))) \<and>
     set (snd (snd (remove_arc_level arc m))) =
       {(pos, drop_arc_paths arc d) | pos d. (pos, d) \<in> set m \<and> dest_paths (drop_arc_paths arc d) \<noteq> []}"
proof -
  let ?m' = "map (\<lambda>(pos, d). (pos, drop_arc_paths arc d)) m"
  let ?u = "map fst (filter (\<lambda>(pos, d). dest_paths d = []) ?m')"
  have keys: "map fst ?m' = map fst m" by (induction m) auto
  then have wf: "hm_wf ?m'" using assms unfolding hm_wf_def by (simp only: keys)
  then have "p \<in> set ?u \<longleftrightarrow> (\<exists>d. (p, d) \<in> set ?m' \<and> dest_paths d = [])" for p by force
  moreover have "d = d'" if "(p, d) \<in> set ?m'" "(p, d') \<in> set ?m'" for p d d'
    using that wf by (metis hm.entry_iff_get option.inject)
  ultimately have "{(k, v) \<in> set ?m'. k \<notin> set ?u} = {(k, v) \<in> set ?m'. dest_paths v \<noteq> []}" by blast
  also have "\<dots> = {(pos, drop_arc_paths arc d) | pos d. (pos, d) \<in> set m \<and> dest_paths (drop_arc_paths arc d) \<noteq> []}"
    by auto
  finally show ?thesis
    using unset_all_spec [OF wf, of ?u] by (simp add: remove_arc_level_def Let_def case_prod_beta)
qed


lemma remove_arc_level_events:
  assumes "hm_wf m"
  shows "set (fst (remove_arc_level arc m)) =
     {PathRemoved (to_route_path np Dead) | np. np \<in> set (level_paths m) \<and> np_arc np = arc} \<union>
     {DestinationRemoved (dest_coord d) | pos d. (pos, d) \<in> set m \<and> dest_paths (drop_arc_paths arc d) = []}"
proof -
  let ?m' = "map (\<lambda>(pos, d). (pos, drop_arc_paths arc d)) m"
  let ?u = "map fst (filter (\<lambda>(pos, d). dest_paths d = []) ?m')"
  have keys: "map fst ?m' = map fst m" by (induction m) auto
  then have wf: "hm_wf ?m'" using assms unfolding hm_wf_def by (simp only: keys)
  have "distinct ?u" using wf by (simp add: hm_wf_def distinct_map_filter)
  then have "set (fst (unset_all ?u ?m')) =
      {DestinationRemoved (dest_coord d) | p d. p \<in> set ?u \<and> (p, d) \<in> set ?m'}"
    by (simp only: unset_all_events [OF wf] hm.entry_iff_get [OF wf])
  also have "\<dots> = {DestinationRemoved (dest_coord d) | p d. (p, d) \<in> set ?m' \<and> dest_paths d = []}"
  proof -
    have "p \<in> set ?u \<and> (p, d) \<in> set ?m' \<longleftrightarrow> (p, d) \<in> set ?m' \<and> dest_paths d = []" for p d
    proof
      assume a: "p \<in> set ?u \<and> (p, d) \<in> set ?m'"
      then obtain d' where "(p, d') \<in> set ?m'" "dest_paths d' = []" unfolding unset_keys by blast
      with a show "(p, d) \<in> set ?m' \<and> dest_paths d = []"
        using wf by (metis hm.entry_iff_get option.inject)
    qed force
    then show ?thesis by blast
  qed
  also have "\<dots> = {DestinationRemoved (dest_coord d) | pos d. (pos, d) \<in> set m \<and>
      dest_paths (drop_arc_paths arc d) = []}"
  proof -
    have *: "(p, d) \<in> set ?m' \<longleftrightarrow> (\<exists>d'. (p, d') \<in> set m \<and> d = drop_arc_paths arc d')" for p d by auto
    have "dest_coord (drop_arc_paths arc d) = dest_coord d" for d by (simp add: drop_arc_paths_def)
    then show ?thesis unfolding * by metis
  qed
  finally show ?thesis
    by (auto simp: remove_arc_level_def Let_def case_prod_beta)
qed

lemma remove_arc_present:
  assumes "contains_arc s arc"
  shows "remove_arc arc s =
    (\<lparr>ra_events = concat (map (fst \<circ> remove_arc_level arc) (st_dests s)),
      ra_dead_paths = concat (map (fst \<circ> (snd \<circ> remove_arc_level arc)) (st_dests s))\<rparr>,
     s\<lparr>st_arcs := bt_remove arc (st_arcs s), st_dests := map (snd \<circ> (snd \<circ> remove_arc_level arc)) (st_dests s)\<rparr>)"
  using assms by (auto simp: remove_arc_def contains_arc_def Let_def comp_assoc)

lemma wf_drop_arc_paths:
  assumes "wf_dest levels arcs c d" "dest_paths (drop_arc_paths arc d) \<noteq> []"
  shows "wf_dest levels (arcs - {arc}) c (drop_arc_paths arc d)"
  using assms
  by (auto simp: wf_dest_def wf_paths_def drop_arc_paths_def wf_stored_def distinct_map_filter)

lemma wf_remove_arc_level:
  assumes "wf_level levels arcs l m"
  shows "wf_level levels (arcs - {arc}) l (snd (snd (remove_arc_level arc m)))"
  using assms remove_arc_level_map [of m arc]
  by (auto simp: wf_level_def intro!: wf_drop_arc_paths)

lemma wf_remove_arc:
  assumes "wf_state s" "remove_arc arc s = (out, s')"
  shows "wf_state s' \<and> arc_ids s' = arc_ids s - {arc} \<and> st_naddr s' = st_naddr s"
proof (cases "contains_arc s arc")
  case False
  then have "s' = s" using assms(2) by (simp add: remove_arc_def contains_arc_def)
  with False assms(1) show ?thesis by (auto simp: arc_ids_contains)
next
  case True
  from assms(2) remove_arc_present [OF True]
  have s': "s' = s\<lparr>st_arcs := bt_remove arc (st_arcs s),
      st_dests := map (snd \<circ> (snd \<circ> remove_arc_level arc)) (st_dests s)\<rparr>" by simp
  have ids: "arc_ids s' = arc_ids s - {arc}"
    using keys_bt_remove [of arc "st_arcs s"] by (simp add: arc_ids_def s')
  have "wf_dests (levels_of s) (arc_ids s - {arc}) (st_dests s')"
    using wf_statesD(6) [OF assms(1)] wf_remove_arc_level by (simp add: s' wf_dests_def)
  moreover have "wf_arcs (st_naddr s) (bt_remove arc (st_arcs s))"
    using wf_statesD(4,5) [OF assms(1)] bt.entries_remove [OF wf_statesD(5) [OF assms(1)]]
    by (auto simp: wf_arcs_def bt_wf_remove)
  ultimately show ?thesis
    using assms(1) ids by (simp add: wf_state_def) (simp add: s' levels_of_def)
qed

definition only_via :: "arc_id \<Rightarrow> destination \<Rightarrow> bool" where
  "only_via arc d \<longleftrightarrow> (\<forall>np \<in> set (dest_paths d). np_arc np = arc)"

lemma drop_arc_paths_empty: "dest_paths (drop_arc_paths arc d) = [] \<longleftrightarrow> only_via arc d"
  by (simp add: drop_arc_paths_def filter_empty_conv only_via_def)

definition without_arc :: "arc_id \<Rightarrow> destination option \<Rightarrow> destination option" where
  "without_arc arc x = Option.bind x (\<lambda>d. if only_via arc d then None else Some (drop_arc_paths arc d))"

lemma remove_arc_level_get:
  assumes "hm_wf m"
  shows "map_of (snd (snd (remove_arc_level arc m))) pos = without_arc arc (map_of m pos)"
proof -
  let ?m = "snd (snd (remove_arc_level arc m))"
  note f = remove_arc_level_map [OF assms, of arc]
  have iff: "map_of ?m pos = Some x \<longleftrightarrow>
      (\<exists>d. map_of m pos = Some d \<and> x = drop_arc_paths arc d \<and> \<not> only_via arc d)" for x
    using f hm.entry_iff_get [OF assms] hm.entry_iff_get [OF conjunct1 [OF f], of pos x]
    by (auto simp: drop_arc_paths_empty)
  show ?thesis
    using iff [of "the (map_of ?m pos)"] iff [of "drop_arc_paths arc (the (map_of m pos))"]
    by (cases "map_of ?m pos"; cases "map_of m pos") (auto simp: without_arc_def)
qed

lemma remove_arc_destination_at:
  assumes "wf_state s" "contains_arc s arc" "remove_arc arc s = (out, s')"
  shows "destination_at s' l pos = without_arc arc (destination_at s l pos)"
proof -
  have "st_dests s' = map (\<lambda>m. snd (snd (remove_arc_level arc m))) (st_dests s)"
    using assms(3) remove_arc_present [OF assms(2)] by (auto simp: comp_def)
  moreover have "hm_wf (st_dests s ! l)" if "l < length (st_dests s)"
    using that wf_statesD(6,7) [OF assms(1)] by (simp add: wf_dests_def wf_level_def)
  ultimately show ?thesis
    by (simp add: destination_at_def remove_arc_level_get without_arc_def)
qed

lemma destination_at_entry:
  assumes "wf_state s" "l < levels_of s"
  shows "destination_at s l pos = Some d \<longleftrightarrow> (pos, d) \<in> set (st_dests s ! l)"
proof -
  have "hm_wf (st_dests s ! l)" using wf_dests_level [OF wf_statesD(6)] assms by (simp add: wf_level_def)
  from hm.entry_iff_get [OF this, of pos d] show ?thesis
    using assms by (simp add: destination_at_def wf_statesD(7))
qed

text \<open>The destinations of a well-formed state, as entries and as lookups.\<close>

lemma dest_entry_iff:
  assumes "wf_state s"
  shows "(\<exists>m \<in> set (st_dests s). \<exists>pos. (pos, d) \<in> set m \<and> P d) \<longleftrightarrow>
     (\<exists>l pos. destination_at s l pos = Some d \<and> dest_coord d = HCoord l pos \<and> P d)"
proof
  assume "\<exists>m \<in> set (st_dests s). \<exists>pos. (pos, d) \<in> set m \<and> P d"
  then obtain m pos where m: "m \<in> set (st_dests s)" "(pos, d) \<in> set m" "P d" by blast
  then obtain l where l: "l < length (st_dests s)" "(pos, d) \<in> set (st_dests s ! l)" "P d"
    by (metis in_set_conv_nth)
  then have "hm_wf (st_dests s ! l)"
    using wf_statesD(6,7) [OF assms] by (simp add: wf_dests_def wf_level_def)
  with l have "destination_at s l pos = Some d" by (simp add: destination_at_def hm.entry_iff_get)
  moreover from this have "dest_coord d = HCoord l pos"
    using wf_destination_at [OF assms] by (simp add: wf_dest_def)
  ultimately show "\<exists>l pos. destination_at s l pos = Some d \<and> dest_coord d = HCoord l pos \<and> P d"
    using l(3) by blast
next
  assume "\<exists>l pos. destination_at s l pos = Some d \<and> dest_coord d = HCoord l pos \<and> P d"
  then show "\<exists>m \<in> set (st_dests s). \<exists>pos. (pos, d) \<in> set m \<and> P d"
    by (auto simp: destination_at_def split: if_splits dest!: map_of_SomeD)
qed

lemma remove_arc_events:
  assumes "wf_state s" "contains_arc s arc" "remove_arc arc s = (out, s')"
  shows "e \<in> set (ra_events out) \<longleftrightarrow>
     (\<exists>np. (\<exists>m \<in> set (st_dests s). np \<in> set (level_paths m)) \<and> np_arc np = arc \<and>
        e = PathRemoved (to_route_path np Dead)) \<or>
     (\<exists>l pos d. destination_at s l pos = Some d \<and> only_via arc d \<and> e = DestinationRemoved (HCoord l pos))"
proof -
  have out: "ra_events out = concat (map (fst \<circ> remove_arc_level arc) (st_dests s))"
    using assms(3) remove_arc_present [OF assms(2)] by auto
  have hm: "hm_wf m" if "m \<in> set (st_dests s)" for m
    using that wf_statesD(6,7) [OF assms(1)] by (auto simp: in_set_conv_nth wf_dests_def wf_level_def)
  have "e \<in> set (ra_events out) \<longleftrightarrow> (\<exists>m \<in> set (st_dests s).
      (\<exists>np. np \<in> set (level_paths m) \<and> np_arc np = arc \<and> e = PathRemoved (to_route_path np Dead)) \<or>
      (\<exists>pos d. (pos, d) \<in> set m \<and> only_via arc d \<and> e = DestinationRemoved (dest_coord d)))"
    using remove_arc_level_events [OF hm] by (auto simp: out drop_arc_paths_empty)
  also have "\<dots> \<longleftrightarrow> (\<exists>m \<in> set (st_dests s). \<exists>np. np \<in> set (level_paths m) \<and> np_arc np = arc \<and>
        e = PathRemoved (to_route_path np Dead)) \<or>
      (\<exists>d. \<exists>m \<in> set (st_dests s). \<exists>pos. (pos, d) \<in> set m \<and> only_via arc d \<and> e = DestinationRemoved (dest_coord d))"
    by blast
  also have "(\<exists>d. \<exists>m \<in> set (st_dests s). \<exists>pos. (pos, d) \<in> set m \<and> only_via arc d \<and> e = DestinationRemoved (dest_coord d))
      \<longleftrightarrow> (\<exists>d l pos. destination_at s l pos = Some d \<and> dest_coord d = HCoord l pos \<and>
          only_via arc d \<and> e = DestinationRemoved (dest_coord d))"
    by (intro ex_cong1 dest_entry_iff [OF assms(1)])
  also have "\<dots> \<longleftrightarrow> (\<exists>l pos d. destination_at s l pos = Some d \<and> only_via arc d \<and> e = DestinationRemoved (HCoord l pos))"
    using wf_destination_at [OF assms(1)] by (auto simp: wf_dest_def) metis
  finally show ?thesis by blast
qed

text \<open>Each level announces a destination it loses once.\<close>

lemma unset_all_once:
  assumes "hm_wf m" "distinct u" "\<And>p. p \<in> set u \<Longrightarrow> map_of m p \<noteq> None"
  shows "fst (unset_all u m) = map (\<lambda>p. DestinationRemoved (dest_coord (the (map_of m p)))) u"
  using assms
proof (induction u arbitrary: m)
  case (Cons p u)
  have other: "map_of (hm_remove p m) p' = map_of m p'" if "p' \<in> set u" for p'
    using that Cons.prems(1,2) by (auto simp: hm.get_remove)
  have "fst (unset_all u (hm_remove p m)) = map (\<lambda>p'. DestinationRemoved (dest_coord (the (map_of (hm_remove p m) p')))) u"
    by (rule Cons.IH) (use Cons.prems other hm.wf_remove in auto)
  also have "\<dots> = map (\<lambda>p'. DestinationRemoved (dest_coord (the (map_of m p')))) u" using other by simp
  finally show ?case using Cons.prems(3) [of p] by (auto simp: case_prod_beta Let_def)
qed simp


lemma remove_arc_level_once:
  assumes "wf_level levels arcs l m"
  shows "fst (remove_arc_level arc m) = map (\<lambda>np. PathRemoved (to_route_path np Dead)) (filter (\<lambda>np. np_arc np = arc) (level_paths m)) @
     map (\<lambda>p. DestinationRemoved (HCoord l p)) (map fst (filter (\<lambda>(pos, d). only_via arc d) m))"
proof -
  let ?m' = "map (\<lambda>(pos, d). (pos, drop_arc_paths arc d)) m"
  let ?u = "map fst (filter (\<lambda>(pos, d). dest_paths d = []) ?m')"
  have m: "hm_wf m" "\<And>pos d. (pos, d) \<in> set m \<Longrightarrow> dest_coord d = HCoord l pos"
    using assms by (auto simp: wf_level_def wf_dest_def)
  have keys: "map fst ?m' = map fst m" by (induction m) auto
  then have wf: "hm_wf ?m'" using m(1) unfolding hm_wf_def by (simp only: keys)
  have u: "?u = map fst (filter (\<lambda>(pos, d). only_via arc d) m)"
    by (induction m) (auto simp: drop_arc_paths_empty)
  have get: "\<exists>d. map_of ?m' p = Some d \<and> dest_coord d = HCoord l p" if "p \<in> set ?u" for p
  proof -
    from that have "p \<in> set (map fst (filter (\<lambda>(pos, d). only_via arc d) m))" by (simp only: u)
    then obtain d where "(p, d) \<in> set m" by auto
    then have "(p, drop_arc_paths arc d) \<in> set ?m'" by force
    then have "map_of ?m' p = Some (drop_arc_paths arc d)" by (simp only: hm.entry_iff_get [OF wf])
    then show ?thesis using m(2) [OF \<open>(p, d) \<in> set m\<close>] by (simp add: drop_arc_paths_def)
  qed
  have "fst (unset_all ?u ?m') = map (\<lambda>p. DestinationRemoved (dest_coord (the (map_of ?m' p)))) ?u"
  proof (rule unset_all_once [OF wf])
    show "distinct ?u" using wf by (simp only: hm_wf_def distinct_map_filter)
    show "map_of ?m' p \<noteq> None" if "p \<in> set ?u" for p using get [OF that] by auto
  qed
  also have "\<dots> = map (\<lambda>p. DestinationRemoved (HCoord l p)) ?u"
  proof (rule map_cong [OF refl])
    fix p assume "p \<in> set ?u"
    from get [OF this] show "DestinationRemoved (dest_coord (the (map_of ?m' p))) = DestinationRemoved (HCoord l p)" by auto
  qed
  finally show ?thesis unfolding u [symmetric] by (simp add: remove_arc_level_def Let_def case_prod_beta)
qed

lemma remove_arc_level_count:
  assumes "wf_level levels arcs l m"
  shows "count_list (fst (remove_arc_level arc m)) (DestinationRemoved (HCoord l' pos)) =
     (if l' = l \<and> (\<exists>d. map_of m pos = Some d \<and> only_via arc d) then 1 else 0)"
proof -
  let ?u = "map fst (filter (\<lambda>(pos, d). only_via arc d) m)"
  have wf: "hm_wf m" using assms by (simp add: wf_level_def)
  have u: "distinct ?u" using wf by (simp add: hm_wf_def distinct_map_filter)
  have mem: "pos \<in> set ?u \<longleftrightarrow> (\<exists>d. map_of m pos = Some d \<and> only_via arc d)"
    by (auto simp: hm.entry_iff_get [OF wf, symmetric] image_iff)
  have "count_list (map (\<lambda>p. DestinationRemoved (HCoord l p)) ?u) (DestinationRemoved (HCoord l' pos)) = (if l' = l then count_list ?u pos else 0)"
  proof (cases "l' = l")
    case True
    have "count_list (map (\<lambda>p. DestinationRemoved (HCoord l p)) ps) (DestinationRemoved (HCoord l pos)) = count_list ps pos" for ps
      by (induction ps) auto
    then show ?thesis using True by (simp only: if_True simp_thms)
  qed (simp add: count_list_0_iff image_iff)
  moreover have "count_list (map (\<lambda>np. PathRemoved (to_route_path np Dead)) xs) (DestinationRemoved c) = 0" for xs c
    by (simp add: count_list_0_iff image_iff)
  ultimately show ?thesis unfolding remove_arc_level_once [OF assms] mem [symmetric] count_list_append count_list_distinct [OF u] by (cases "l' = l") (simp_all only: add_0 if_True if_False simp_thms)
qed

definition removed_routes :: "qspn_event list \<Rightarrow> route_path list" where
  "removed_routes evs = List.map_filter (\<lambda>e. case e of PathRemoved r \<Rightarrow> Some r | _ \<Rightarrow> None) evs"

lemma removed_routes_append [simp]: "removed_routes (xs @ ys) = removed_routes xs @ removed_routes ys"
  by (simp add: removed_routes_def map_filter_def)

lemma removed_routes_map [simp]:
  "removed_routes (map (\<lambda>np. PathRemoved (f np)) xs) = map f xs" "removed_routes (map (\<lambda>p. DestinationRemoved (g p)) ys) = []"
  by (simp_all add: removed_routes_def map_filter_def comp_def)

lemma removed_routes_concat: "removed_routes (concat xss) = concat (map removed_routes xss)"
  by (induction xss) (simp_all add: removed_routes_def map_filter_def)

text \<open>C31: removing an arc takes with it exactly the paths that enter through it and exactly the
  destinations that had no other path, and leaves a well-formed state in which no route uses the arc; every other
  destination keeps its other paths in order. Each removed path is announced once, in the order of the map, and
  told on as a dead path; each lost destination is announced once; nothing else is announced.\<close>

theorem remove_arc_correct:
  assumes "wf_state s" "contains_arc s arc" "remove_arc arc s = (out, s')"
  shows "wf_state s' \<and> arc_ids s' = arc_ids s - {arc}
    \<and> destination_at s' l pos =
        (case destination_at s l pos of
           None \<Rightarrow> None
         | Some d \<Rightarrow> if \<forall>np \<in> set (dest_paths d). np_arc np = arc then None
             else Some (d\<lparr>dest_paths := filter (\<lambda>np. np_arc np \<noteq> arc) (dest_paths d)\<rparr>))
    \<and> (let gone = filter (\<lambda>np. np_arc np = arc) (concat (map level_paths (st_dests s))) in
        removed_routes (ra_events out) = map (\<lambda>np. to_route_path np Dead) gone
        \<and> map (\<lambda>p. (ep_hops p, ep_arcs p, ep_cost p, ep_fingerprint p, ep_nodes_inside p)) (ra_dead_paths out) =
          map (\<lambda>np. (np_hops np, np_arcs np, Dead, np_fp np, np_nodes_inside np)) gone)
    \<and> count_list (ra_events out) (DestinationRemoved (HCoord l pos)) =
        (if destination_at s l pos \<noteq> None \<and> destination_at s' l pos = None then 1 else 0)
    \<and> (\<forall>e \<in> set (ra_events out). (\<exists>r. e = PathRemoved r) \<or> (\<exists>c. e = DestinationRemoved c))"
proof -
  have out: "ra_events out = concat (map (\<lambda>m. fst (remove_arc_level arc m)) (st_dests s))"
    "ra_dead_paths out = concat (map (\<lambda>m. fst (snd (remove_arc_level arc m))) (st_dests s))"
    using assms(3) remove_arc_present [OF assms(2)] by (auto simp: comp_def)
  have lv: "wf_level (levels_of s) (arc_ids s) i (st_dests s ! i)" if "i < length (st_dests s)" for i
    using that wf_statesD(6,7) [OF assms(1)] by (simp add: wf_dests_def)
  have once: "fst (remove_arc_level arc m) = map (\<lambda>np. PathRemoved (to_route_path np Dead)) (filter (\<lambda>np. np_arc np = arc) (level_paths m)) @
     map (\<lambda>p. DestinationRemoved (HCoord i p)) (map fst (filter (\<lambda>(pos, d). only_via arc d) m))" if "i < length (st_dests s)" "m = st_dests s ! i" for i m
    using remove_arc_level_once [OF lv] that by simp
  have "removed_routes (fst (remove_arc_level arc m)) = map (\<lambda>np. to_route_path np Dead) (filter (\<lambda>np. np_arc np = arc) (level_paths m))"
    if m: "m \<in> set (st_dests s)" for m
  proof -
    obtain i where i: "i < length (st_dests s)" "m = st_dests s ! i" using m by (auto simp: in_set_conv_nth)
    show ?thesis unfolding once [OF i] by (simp del: map_map)
  qed
  then have routes: "removed_routes (ra_events out) = map (\<lambda>np. to_route_path np Dead) (filter (\<lambda>np. np_arc np = arc) (concat (map level_paths (st_dests s))))"
  proof -
    assume h: "\<And>m. m \<in> set (st_dests s) \<Longrightarrow>
      removed_routes (fst (remove_arc_level arc m)) = map (\<lambda>np. to_route_path np Dead) (filter (\<lambda>np. np_arc np = arc) (level_paths m))"
    have "removed_routes (ra_events out) = concat (map (\<lambda>m. removed_routes (fst (remove_arc_level arc m))) (st_dests s))"
      by (simp add: out removed_routes_concat comp_def)
    also have "\<dots> = concat (map (\<lambda>m. map (\<lambda>np. to_route_path np Dead) (filter (\<lambda>np. np_arc np = arc) (level_paths m))) (st_dests s))"
      by (rule arg_cong [where f = concat], rule map_cong [OF refl]) (rule h)
    finally show ?thesis by (simp add: map_concat filter_concat comp_def)
  qed
  have dead: "map (\<lambda>p. (ep_hops p, ep_arcs p, ep_cost p, ep_fingerprint p, ep_nodes_inside p)) (ra_dead_paths out) =
      map (\<lambda>np. (np_hops np, np_arcs np, Dead, np_fp np, np_nodes_inside np)) (filter (\<lambda>np. np_arc np = arc) (concat (map level_paths (st_dests s))))"
    by (simp add: out remove_arc_level_def Let_def case_prod_beta map_concat filter_concat comp_def prepare_for_sending_def)
  have "count_list (ra_events out) (DestinationRemoved (HCoord l pos)) =
      (\<Sum>i = 0..<length (st_dests s). count_list (fst (remove_arc_level arc (st_dests s ! i))) (DestinationRemoved (HCoord l pos)))"
    by (simp add: out count_list_concat sum_list_sum_nth comp_def)
  also have "\<dots> = (\<Sum>i = 0..<length (st_dests s). if l = i then (if \<exists>d. map_of (st_dests s ! l) pos = Some d \<and> only_via arc d then 1 else 0) else 0)"
    by (rule sum.cong) (auto simp: remove_arc_level_count [OF lv])
  also have "\<dots> = (if l < length (st_dests s) \<and> (\<exists>d. map_of (st_dests s ! l) pos = Some d \<and> only_via arc d) then 1 else 0)" by simp
  also have "\<dots> = (if \<exists>d. destination_at s l pos = Some d \<and> only_via arc d then 1 else 0)" by (simp add: destination_at_def)
  finally have cnt: "count_list (ra_events out) (DestinationRemoved (HCoord l pos)) = (if \<exists>d. destination_at s l pos = Some d \<and> only_via arc d then 1 else 0)" .
  have dest: "destination_at s' l pos = without_arc arc (destination_at s l pos)" by (rule remove_arc_destination_at [OF assms])
  have "wf_state s'" "arc_ids s' = arc_ids s - {arc}" using wf_remove_arc [OF assms(1,3)] by simp_all
  moreover have "(\<exists>d. destination_at s l pos = Some d \<and> only_via arc d) \<longleftrightarrow> destination_at s l pos \<noteq> None \<and> destination_at s' l pos = None"
    unfolding dest by (cases "destination_at s l pos") (simp_all add: without_arc_def)
  moreover have "destination_at s' l pos = (case destination_at s l pos of None \<Rightarrow> None
      | Some d \<Rightarrow> if \<forall>np \<in> set (dest_paths d). np_arc np = arc then None else Some (d\<lparr>dest_paths := filter (\<lambda>np. np_arc np \<noteq> arc) (dest_paths d)\<rparr>))"
    unfolding dest by (simp add: without_arc_def only_via_def drop_arc_paths_def split: option.splits)
  moreover have "\<forall>e \<in> set (ra_events out). (\<exists>r. e = PathRemoved r) \<or> (\<exists>c. e = DestinationRemoved c)"
    unfolding Ball_def remove_arc_events [OF assms] by blast
  ultimately show ?thesis using routes dead cnt by (simp only: Let_def simp_thms)
qed

subsection \<open>A new network\<close>

fun initial_chain :: "fp \<Rightarrow> nat \<Rightarrow> (fp list, qspn_error) res" where
  "initial_chain f 0 = Ok [f]"
| "initial_chain f (Suc n) =
     (case fp_construct f [] False of
        Ok g \<Rightarrow> res_bind (initial_chain g n) (\<lambda>fs. Ok (f # fs))
      | _ \<Rightarrow> Panic)"

definition initial_fingerprint_chain :: "fp \<Rightarrow> usize \<Rightarrow> (fp list \<times> u32 list, qspn_error) res" where
  "initial_fingerprint_chain f levels =
     res_bind (initial_chain f levels) (\<lambda>fs. Ok (fs, replicate (levels + 1) 1))"

definition state_new :: "naddr \<Rightarrow> fp \<Rightarrow> qspn_config \<Rightarrow> (qspn_state, qspn_error) res" where
  "state_new my_naddr my_fingerprint config =
     (let levels = topology_levels (naddr_topology my_naddr) in
      res_bind (initial_fingerprint_chain my_fingerprint levels) (\<lambda>(fps, nns).
      Ok \<lparr>st_naddr = my_naddr, st_fps = fps, st_nodes_inside = nns, st_arcs = [],
          st_dests = replicate levels [], st_config = config, st_pending = {},
          st_bootstrap = Complete, st_conn_from = 0, st_conn_to = 0\<rparr>))"

lemma initial_chain_Ok:
  assumes "wf_fp f" "n \<le> length (fp_pending f)"
  shows "\<exists>fs. initial_chain f n = Ok fs \<and> length fs = Suc n \<and>
     (\<forall>l \<le> n. wf_fp (fs ! l) \<and> fp_level (fs ! l) = fp_level f + l \<and>
        length (fp_pending f) = l + length (fp_pending (fs ! l)))"
  using assms
proof (induction n arbitrary: f)
  case 0
  then show ?case by simp
next
  case (Suc n)
  then obtain e es where p: "fp_pending f = e # es" by (cases "fp_pending f") auto
  then obtain g where g: "fp_construct f [] False = Ok g" by (simp add: fp_construct_def)
  then have wg: "wf_fp g" "fp_level g = Suc (fp_level f)" "length (fp_pending f) = Suc (length (fp_pending g))"
    using construct_wf [OF g] Suc.prems(1) by auto
  have n: "n \<le> length (fp_pending g)" using Suc.prems(2) wg(3) by simp
  from Suc.IH [OF wg(1) n] obtain fs where fs: "initial_chain g n = Ok fs" "length fs = Suc n"
    "\<forall>l \<le> n. wf_fp (fs ! l) \<and> fp_level (fs ! l) = fp_level g + l \<and>
       length (fp_pending g) = l + length (fp_pending (fs ! l))" by blast
  have "wf_fp ((f # fs) ! l) \<and> fp_level ((f # fs) ! l) = fp_level f + l \<and>
      length (fp_pending f) = l + length (fp_pending ((f # fs) ! l))" if "l \<le> Suc n" for l
    using that fs(3) wg Suc.prems(1) by (cases l) auto
  with fs(1,2) g show ?case by auto
qed

lemma initial_chain_short:
  assumes "length (fp_pending f) < n"
  shows "initial_chain f n = Panic"
  using assms
proof (induction n arbitrary: f)
  case 0
  then show ?case by simp
next
  case (Suc n)
  show ?case
  proof (cases "fp_pending f")
    case Nil
    then show ?thesis by (simp add: fp_construct_def)
  next
    case (Cons e es)
    then obtain g where "fp_construct f [] False = Ok g" "fp_pending g = es" by (auto simp: fp_construct_def)
    with Cons Suc show ?thesis by simp
  qed
qed

lemma state_new_run:
  assumes "wf_naddr my" "wf_fp f" "fp_level f = 0" "topology_levels (naddr_topology my) \<le> length (fp_pending f)"
  obtains s where "state_new my f config = Ok s" "wf_state s" "st_naddr s = my" "st_config s = config" "st_pending s = {}"
    "st_bootstrap s = Complete" "st_conn_from s = 0" "st_dests s = replicate (topology_levels (naddr_topology my)) []"
    "st_arcs s = []" "fingerprint_at s 0 = Some f"
proof -
  let ?n = "topology_levels (naddr_topology my)"
  obtain fs where fs: "initial_chain f ?n = Ok fs" "length fs = Suc ?n"
    "\<forall>l \<le> ?n. wf_fp (fs ! l) \<and> fp_level (fs ! l) = fp_level f + l \<and>
      length (fp_pending f) = l + length (fp_pending (fs ! l))"
    using initial_chain_Ok [OF assms(2,4)] by blast
  let ?s = "\<lparr>st_naddr = my, st_fps = fs, st_nodes_inside = replicate (?n + 1) 1, st_arcs = [],
      st_dests = replicate ?n [], st_config = config, st_pending = {},
      st_bootstrap = Complete, st_conn_from = 0, st_conn_to = 0\<rparr>"
  have "fs ! 0 = f" using fs(1) by (cases ?n) (auto split: res.splits simp: res_simps)
  moreover have "wf_chain ?n fs" using fs(2,3) assms(3,4) by (auto simp: wf_chain_def)
  moreover have "wf_dests ?n X (replicate ?n [])" for X
    by (simp add: wf_dests_def wf_level_def hm_wf_def)
  moreover have "wf_arcs my []" by (simp add: wf_arcs_def bt_wf_def)
  ultimately have w: "wf_state ?s" "fingerprint_at ?s 0 = Some f"
    using fs(2) assms(1) by (auto simp: wf_state_def levels_of_def fingerprint_at_def)
  have "state_new my f config = Ok ?s"
    using fs(1) by (simp add: state_new_def initial_fingerprint_chain_def Let_def)
  then show ?thesis using that [of ?s] w by simp
qed

text \<open>A new network starts from a well-formed, loop-free state that knows no destination,
  has completed bootstrap and is a main identity; the constructor panics exactly when the
  node's fingerprint carries fewer scheduled claims than the topology has levels.\<close>

theorem state_new_correct:
  assumes "wf_naddr my" "wf_fp f" "fp_level f = 0"
  shows "(state_new my f config = Panic \<longleftrightarrow>
        length (fp_pending f) < topology_levels (naddr_topology my))
    \<and> (topology_levels (naddr_topology my) \<le> length (fp_pending f) \<longrightarrow>
        (\<exists>s. state_new my f config = Ok s \<and> wf_state s \<and> loop_free s \<and> is_bootstrap_complete s \<and>
          is_main_identity s \<and> (\<forall>l pos. destination_at s l pos = None) \<and> fingerprint_at s 0 = Some f))"
proof (cases "length (fp_pending f) < topology_levels (naddr_topology my)")
  case True
  then show ?thesis
    by (simp add: state_new_def initial_fingerprint_chain_def initial_chain_short)
next
  case False
  then have len: "topology_levels (naddr_topology my) \<le> length (fp_pending f)" by simp
  obtain s where s: "state_new my f config = Ok s" "wf_state s" "st_bootstrap s = Complete" "st_conn_from s = 0"
    "st_dests s = replicate (topology_levels (naddr_topology my)) []" "fingerprint_at s 0 = Some f"
    using state_new_run [OF assms len, of config] by metis
  moreover have "loop_free s \<and> is_bootstrap_complete s \<and> is_main_identity s \<and> (\<forall>l pos. destination_at s l pos = None)"
    using s(3-5) by (auto simp: is_bootstrap_complete_def is_main_identity_def destination_at_def loop_free_def in_level_paths)
  ultimately show ?thesis using False by (auto intro!: exI [of _ s])
qed

theorem state_new_correct_witness:
  "\<exists>s. state_new (example_naddr 0 0) (fingerprint_new [9] 0 [0, 0]) qspn_config_default
     = Ok s \<and> wf_state s"
  using state_new_correct [OF wf_example_naddr [of 0 0] wf_fp_new [of "[9]" 0 "[0, 0]"],
      where config = qspn_config_default]
  by (auto simp: fingerprint_new_def example_naddr_def example_topology_def topology_levels_def)

subsection \<open>A concrete state\<close>

definition example_chain :: "fp list" where
  "example_chain = map (\<lambda>l. \<lparr>fp_id = [1], fp_level = l, fp_eldership = 0,
     fp_pending = replicate (2 - l) 0, fp_seed = replicate l 0\<rparr>) [0, 1, 2]"

definition example_direct :: node_path where
  "example_direct = node_path_new 7
     \<lparr>ep_hops = [HCoord 0 1], ep_arcs = [7], ep_cost = Null, ep_fingerprint = example_fp_at 5 0,
      ep_nodes_inside = 1, ep_ignore_outside = [False, False]\<rparr>"

definition example_state :: qspn_state where
  "example_state =
     \<lparr>st_naddr = example_naddr 0 0, st_fps = example_chain, st_nodes_inside = [1, 1, 1],
      st_arcs = [(7, \<lparr>ae_cost = Finite 5, ae_peer = Some (example_naddr 1 0)\<rparr>)],
      st_dests = [[(1, \<lparr>dest_coord = HCoord 0 1, dest_paths = [example_direct]\<rparr>)],
                  [(2, \<lparr>dest_coord = HCoord 1 2, dest_paths = [example_known]\<rparr>)]],
      st_config = qspn_config_default, st_pending = {}, st_bootstrap = Complete,
      st_conn_from = 0, st_conn_to = 0\<rparr>"

lemma levels_of_example: "levels_of example_state = 2"
  by (simp add: levels_of_def example_state_def example_naddr_def example_topology_def topology_levels_def)

lemma wf_example_state: "wf_state example_state"
proof -
  have two: "l < 2 \<longleftrightarrow> l = 0 \<or> l = Suc 0" "l \<le> 2 \<longleftrightarrow> l = 0 \<or> l = Suc 0 \<or> l = 2" for l :: nat by auto
  have c: "wf_chain 2 example_chain"
    by (auto simp: wf_chain_def two example_chain_def wf_fp_def eldership_range_def list_all_iff)
  have "arc_ids example_state = {7}" by (simp add: arc_ids_def example_state_def)
  then have d: "wf_dests 2 (arc_ids example_state) (st_dests example_state)"
    by (simp add: wf_dests_def two example_state_def wf_level_def hm_wf_def wf_dest_def wf_paths_def
        wf_stored_def wf_node_path_def wf_path_def example_direct_def example_known_def example_fp_at_def
        wf_fp_def eldership_range_def all_conj_distrib imp_conjR)
  have a: "wf_arcs (st_naddr example_state) (st_arcs example_state)"
    by (simp add: wf_arcs_def example_state_def bt_wf_def wf_peer_def) (simp add: example_naddr_def)
  show ?thesis
    using c d a by (simp add: wf_state_def levels_of_example) (simp add: example_state_def)
qed

theorem remove_arc_correct_witness:
  "count_list (ra_events (fst (remove_arc 7 example_state))) (DestinationRemoved (HCoord 1 2)) = 1"
proof -
  have arc: "contains_arc example_state 7" by (simp add: contains_arc_def example_state_def)
  have d: "destination_at example_state 1 2 = Some \<lparr>dest_coord = HCoord 1 2, dest_paths = [example_known]\<rparr>"
    "np_arc example_known = 7"
    by (simp_all add: destination_at_def example_state_def example_known_def)
  show ?thesis
    using remove_arc_correct [OF wf_example_state arc surjective_pairing, where l = 1 and pos = 2] d by simp
qed

end
