(* ===== verification/Qspn_Clusters.thy ===== *)
theory Qspn_Clusters
  imports Qspn_State
begin

section \<open>Exposed routes and the climb through the clusters (\<open>state.rs\<close>)\<close>

text \<open>
  What the state publishes (\<open>exposed_paths\<close>, \<open>snapshot\<close>), \<open>update_clusters\<close>, which recomputes the
  node's own fingerprint and size at every level from its destinations, and \<open>new_entering\<close>, the
  constructor that ends with such a climb.
\<close>

definition exposed_paths :: "qspn_state \<Rightarrow> hcoord \<Rightarrow> (node_path list, qspn_error) res" where
  "exposed_paths s d =
     (case destination_at s (hc_level d) (hc_pos d) of
        None \<Rightarrow> Ok []
      | Some dest \<Rightarrow>
          if dest_paths dest = [] then Ok []
          else if hc_level d = 0 then Ok (dest_paths dest)
          else res_bind (map_err CommonError (dest_evaluate dest (arc_cost s))) (\<lambda>(valid_fp, nn, _).
            Ok (filter (\<lambda>p. same_branch (np_fp p) valid_fp (np_nodes_inside p) nn) (dest_paths dest))))"

record route_entry =
  re_destination :: hcoord
  re_paths :: "route_path list"

type_synonym route_snapshot = "route_entry list list"

definition snapshot_entry :: "qspn_state \<Rightarrow> destination \<Rightarrow> (route_entry list, qspn_error) res" where
  "snapshot_entry s d =
     res_bind (exposed_paths s (dest_coord d)) (\<lambda>exposed.
     if exposed = [] then Ok []
     else Ok [\<lparr>re_destination = dest_coord d,
               re_paths = sort_key rp_cost (map (\<lambda>np. to_route_path np (arc_cost s (np_arc np))) exposed)\<rparr>])"

definition snapshot_level :: "qspn_state \<Rightarrow> usize \<times> level_map \<Rightarrow> (route_entry list, qspn_error) res" where
  "snapshot_level s lm =
     (case lm of (level, m) \<Rightarrow>
      if guest_gnode_level s \<le> level then Ok []
      else res_bind (try_map (\<lambda>(pos, d). snapshot_entry s d) m) (\<lambda>es. Ok (concat es)))"

definition snapshot :: "qspn_state \<Rightarrow> (route_snapshot, qspn_error) res" where
  "snapshot s = try_map (snapshot_level s) (enumerate 0 (st_dests s))"

subsection \<open>\<open>update_clusters\<close>\<close>

definition cluster_inputs :: "qspn_state \<Rightarrow> usize \<Rightarrow> ((fp \<times> u32) list, qspn_error) res" where
  "cluster_inputs s child =
     res_bind (index (st_dests s) child) (try_map (\<lambda>(pos, d).
       res_bind (map_err CommonError (dest_evaluate d (arc_cost s))) (\<lambda>(f, nn, _). Ok (f, nn))))"

definition cluster_size :: "usize \<Rightarrow> (fp \<times> u32) list \<Rightarrow> nat" where
  "cluster_size child ins = sum_list (map (\<lambda>(f, nn). if child = 0 then 1 else unat nn) ins)"

definition cluster_level_value :: "qspn_state \<Rightarrow> usize \<Rightarrow> (fp \<times> u32, qspn_error) res" where
  "cluster_level_value s i =
     (let child = i - 1 in
      res_bind (cluster_inputs s child) (\<lambda>ins.
      let is_null_eldership = (case is_virtual_at (st_naddr s) child of None \<Rightarrow> False | Some v \<Rightarrow> v) in
      res_bind (index (st_fps s) child) (\<lambda>child_fp.
      res_bind (map_err CommonError (fp_construct child_fp (map fst ins) is_null_eldership)) (\<lambda>new_fp.
      res_bind (index (st_nodes_inside s) child) (\<lambda>child_nn.
      Ok (new_fp, u32_saturate (unat child_nn + cluster_size child ins)))))))"

definition update_cluster_level :: "usize \<Rightarrow> (qspn_state, qspn_event list, qspn_error) st" where
  "update_cluster_level i s =
     (case res_bind (cluster_level_value s i) (\<lambda>(new_fp, new_nn).
           res_bind (index (st_fps s) i) (\<lambda>old_fp.
           res_bind (index (st_nodes_inside s) i) (\<lambda>old_nn.
           Ok (new_fp, new_nn,
               (if identity_eq new_fp old_fp then [] else [ChangedFingerprint i]) @
               (if new_nn \<noteq> old_nn then [ChangedNodesInside i] else []))))) of
        Ok (new_fp, new_nn, events) \<Rightarrow>
          (Ok events, s\<lparr>st_fps := (st_fps s)[i := new_fp], st_nodes_inside := (st_nodes_inside s)[i := new_nn]\<rparr>)
      | Err e \<Rightarrow> (Err e, s)
      | Panic \<Rightarrow> (Panic, s))"

definition update_clusters :: "(qspn_state, qspn_event list, qspn_error) st" where
  "update_clusters s = st_concat update_cluster_level [1..<Suc (levels_of s)] s"

subsection \<open>Entering a network\<close>

definition arc_remap_of :: "internal_arc list \<Rightarrow> (arc_id, arc_id) hash_map" where
  "arc_remap_of internal = foldl (\<lambda>m a. hm_insert (ia_previous a) (ia_new a) m) [] internal"

definition entering_arcs ::
  "internal_arc list \<Rightarrow> (arc_id \<times> cost) list \<Rightarrow> (arc_id, arc_entry) btree_map" where
  "entering_arcs internal external =
     foldl (\<lambda>m (i, c). bt_insert i \<lparr>ae_cost = c, ae_peer = None\<rparr> m)
       (foldl (\<lambda>m a. bt_insert (ia_new a) \<lparr>ae_cost = ia_cost a, ae_peer = Some (ia_peer a)\<rparr> m) [] internal)
       external"

fun import_paths :: "(arc_id, arc_id) hash_map \<Rightarrow> node_path list \<Rightarrow> (node_path list, 'e) res" where
  "import_paths remap [] = Ok []"
| "import_paths remap (np # nps) =
     (case map_of remap (np_arc np) of
        None \<Rightarrow> import_paths remap nps
      | Some new_arc \<Rightarrow>
          (case np_arcs np of
             [] \<Rightarrow> Panic
           | _ # rest \<Rightarrow> res_bind (import_paths remap nps) (\<lambda>nps'.
               Ok (np\<lparr>np_arc := new_arc, np_path := (np_path np)\<lparr>ep_arcs := new_arc # rest\<rparr>\<rparr> # nps'))))"

definition import_level :: "(arc_id, arc_id) hash_map \<Rightarrow> level_map \<Rightarrow> (level_map, 'e) res" where
  "import_level remap m =
     fold_res (\<lambda>acc (pos, d). res_bind (import_paths remap (dest_paths d)) (\<lambda>paths.
       Ok (if paths = [] then acc
           else hm_insert pos \<lparr>dest_coord = dest_coord d, dest_paths = paths\<rparr> acc))) [] m"

definition import_dests ::
  "(arc_id, arc_id) hash_map \<Rightarrow> usize \<Rightarrow> usize \<Rightarrow> level_map list \<Rightarrow> (level_map list, 'e) res" where
  "import_dests remap guest levels previous =
     res_bind (try_map (import_level remap) (take guest previous)) (\<lambda>ms.
     Ok (ms @ replicate (levels - length ms) []))"

definition new_entering ::
  "naddr \<Rightarrow> fp \<Rightarrow> qspn_config \<Rightarrow> internal_arc list \<Rightarrow> (arc_id \<times> cost) list \<Rightarrow> usize \<Rightarrow> usize
    \<Rightarrow> usize \<times> usize \<Rightarrow> level_map list \<Rightarrow> (qspn_state, qspn_error) res" where
  "new_entering my_naddr my_fingerprint config internal external guest_level host_level connectivity previous =
     (let levels = topology_levels (naddr_topology my_naddr) in
      if \<not> host_level \<le> levels \<or> \<not> guest_level < host_level \<or> \<not> fst connectivity < guest_level + 1 then Panic
      else
      res_bind (import_dests (arc_remap_of internal) guest_level levels previous) (\<lambda>dests.
      res_bind (initial_fingerprint_chain my_fingerprint levels) (\<lambda>(fps, nns).
      let s = \<lparr>st_naddr = my_naddr, st_fps = fps, st_nodes_inside = nns,
               st_arcs = entering_arcs internal external, st_dests = dests, st_config = config,
               st_pending = {}, st_bootstrap = InProgress guest_level host_level,
               st_conn_from = fst connectivity, st_conn_to = min (snd connectivity) guest_level\<rparr>;
          (r, s') = update_clusters s
      in res_bind r (\<lambda>_. Ok s'))))"


subsection \<open>The climb always succeeds\<close>

lemma wf_dest_evaluate:
  assumes "wf_dest levels arcs c d"
  obtains f i where "dest_evaluate d cst = Ok (f, np_nodes_inside (dest_paths d ! i), i)"
    "i < length (dest_paths d)" "f \<in> np_fp ` set (dest_paths d)" "identity_eq (np_fp (dest_paths d ! i)) f"
    "wf_fp f" "fp_level f = hc_level c"
proof -
  have *: "level_fps (hc_level (dest_coord d)) (dest_paths d)" "dest_paths d \<noteq> []" "dest_coord d = c"
    using assms wf_paths_level_fps by (auto simp: wf_dest_def)
  obtain f i where f: "dest_evaluate d cst = Ok (f, np_nodes_inside (dest_paths d ! i), i)"
    "i < length (dest_paths d)" "f \<in> np_fp ` set (dest_paths d)" "identity_eq (np_fp (dest_paths d ! i)) f"
    using dest_evaluate_cases [OF *(1,2), of cst] by metis
  moreover have "wf_fp f \<and> fp_level f = hc_level c" using f(3) *(1,3) by (auto simp: level_fps_def)
  ultimately show ?thesis using that by blast
qed

lemma cluster_inputs_total:
  assumes "wf_state s" "child < levels_of s"
  obtains ins where "cluster_inputs s child = Ok ins" "length ins = length (st_dests s ! child)"
    "\<And>f nn. (f, nn) \<in> set ins \<Longrightarrow> wf_fp f \<and> fp_level f = child"
proof -
  let ?g = "\<lambda>(pos :: u32, d). res_bind (map_err CommonError (dest_evaluate d (arc_cost s))) (\<lambda>(f, nn, _). Ok (f, nn))"
  have lvl: "wf_level (levels_of s) (arc_ids s) child (st_dests s ! child)"
    using wf_dests_level [OF wf_statesD(6)] assms by blast
  have each: "\<exists>f nn. ?g e = Ok (f, nn) \<and> wf_fp f \<and> fp_level f = child" if "e \<in> set (st_dests s ! child)" for e
  proof -
    obtain pos d where e: "e = (pos, d)" by (cases e)
    with that lvl have "wf_dest (levels_of s) (arc_ids s) (HCoord child pos) d" by (auto simp: wf_level_def)
    then obtain f i where "dest_evaluate d (arc_cost s) = Ok (f, np_nodes_inside (dest_paths d ! i), i)"
      "wf_fp f" "fp_level f = child" using wf_dest_evaluate [of _ _ _ d "arc_cost s"] by (metis hcoord.sel(1))
    then show ?thesis by (simp add: e)
  qed
  then obtain ins where ins: "try_map ?g (st_dests s ! child) = Ok ins"
    using try_map_total [of "st_dests s ! child" ?g] by metis
  have "cluster_inputs s child = Ok ins"
    using ins assms by (simp add: cluster_inputs_def wf_statesD(7))
  moreover have "wf_fp f \<and> fp_level f = child" if "(f, nn) \<in> set ins" for f nn
    using try_map_set [OF ins that] each by (metis (no_types, lifting) Pair_inject res.inject(1))
  ultimately show ?thesis using that try_map_length [OF ins] by blast
qed

lemma cluster_level_value_total:
  assumes "wf_state s" "1 \<le> i" "i \<le> levels_of s"
  obtains f nn where "cluster_level_value s i = Ok (f, nn)" "wf_fp f" "fp_level f = i"
    "levels_of s \<le> i + length (fp_pending f)"
proof -
  let ?c = "i - 1"
  have c: "?c < levels_of s" using assms(2,3) by simp
  obtain ins where ins: "cluster_inputs s ?c = Ok ins"
    "\<And>f nn. (f, nn) \<in> set ins \<Longrightarrow> wf_fp f \<and> fp_level f = ?c"
    using cluster_inputs_total [OF assms(1) c] by metis
  let ?n = "case is_virtual_at (st_naddr s) ?c of None \<Rightarrow> False | Some v \<Rightarrow> v"
  have ch: "wf_fp (st_fps s ! ?c)" "fp_level (st_fps s ! ?c) = ?c"
    "levels_of s \<le> ?c + length (fp_pending (st_fps s ! ?c))" "length (st_fps s) = levels_of s + 1"
    using wf_statesD(2) [OF assms(1)] c by (auto simp: wf_chain_def)
  have "fp_pending (st_fps s ! ?c) \<noteq> []" using ch(3) c by auto
  then obtain g where g: "fp_construct (st_fps s ! ?c) (map fst ins) ?n = Ok g"
    using construct_total by blast
  have "wf_fp g \<and> fp_level g = Suc (fp_level (st_fps s ! ?c)) \<and>
      length (fp_pending (st_fps s ! ?c)) = Suc (length (fp_pending g))"
  proof (rule construct_wf [OF g ch(1)])
    fix x assume "x \<in> set (map fst ins)"
    then obtain nn where "(x, nn) \<in> set ins" by auto
    with ins(2) ch(2) show "wf_fp x \<and> fp_level x = fp_level (st_fps s ! ?c)" by simp
  qed
  moreover have "cluster_level_value s i = Ok (g, u32_saturate (unat (st_nodes_inside s ! ?c) + cluster_size ?c ins))"
    using ins(1) g ch(4) c wf_statesD(3) [OF assms(1)] by (simp add: cluster_level_value_def Let_def)
  ultimately show ?thesis using that assms(2) ch(2,3) by auto
qed

abbreviation set_cluster :: "usize \<Rightarrow> fp \<Rightarrow> u32 \<Rightarrow> qspn_state \<Rightarrow> qspn_state" where
  "set_cluster i f nn s \<equiv> s\<lparr>st_fps := (st_fps s)[i := f], st_nodes_inside := (st_nodes_inside s)[i := nn]\<rparr>"

lemma arc_cost_set [simp]: "arc_cost (s\<lparr>st_fps := x, st_nodes_inside := y\<rparr>) = arc_cost s"
  by (rule ext) (simp add: arc_cost_def)

lemma cluster_inputs_set [simp]:
  "cluster_inputs (s\<lparr>st_fps := x, st_nodes_inside := y\<rparr>) child = cluster_inputs s child"
  by (simp add: cluster_inputs_def)

lemma levels_of_set [simp]: "levels_of (s\<lparr>st_fps := x, st_nodes_inside := y\<rparr>) = levels_of s"
  by (simp add: levels_of_def)

lemma arc_ids_set [simp]: "arc_ids (s\<lparr>st_fps := x, st_nodes_inside := y\<rparr>) = arc_ids s"
  by (simp add: arc_ids_def)

lemma cluster_level_value_set:
  "1 \<le> j \<Longrightarrow> j \<le> i \<Longrightarrow> cluster_level_value (set_cluster i f nn s) j = cluster_level_value s j"
  by (simp add: cluster_level_value_def Let_def index_def)

lemma wf_state_set_cluster:
  assumes "wf_state s" "1 \<le> i" "i \<le> levels_of s" "wf_fp f" "fp_level f = i"
    "levels_of s \<le> i + length (fp_pending f)"
  shows "wf_state (set_cluster i f nn s)"
  using assms by (auto simp: wf_state_def wf_chain_def nth_list_update)

lemma update_cluster_level_step:
  assumes "wf_state s" "1 \<le> i" "i \<le> levels_of s" "cluster_level_value s i = Ok (f, nn)"
  shows "update_cluster_level i s =
     (Ok ((if identity_eq f (st_fps s ! i) then [] else [ChangedFingerprint i]) @
          (if nn \<noteq> st_nodes_inside s ! i then [ChangedNodesInside i] else [])), set_cluster i f nn s)"
  using assms wf_statesD(2,3) [OF assms(1)] by (simp add: update_cluster_level_def wf_chain_def)


text \<open>The climb from level \<open>k\<close> on, when the levels below are already consistent.\<close>

definition clusters_ok :: "qspn_state \<Rightarrow> usize \<Rightarrow> bool" where
  "clusters_ok s n \<longleftrightarrow>
     (\<forall>j. 1 \<le> j \<and> j \<le> n \<longrightarrow> cluster_level_value s j = Ok (st_fps s ! j, st_nodes_inside s ! j))"

definition cluster_changes :: "qspn_state \<Rightarrow> qspn_state \<Rightarrow> usize \<Rightarrow> usize \<Rightarrow> qspn_event set" where
  "cluster_changes s s' k n =
     {ChangedFingerprint j | j. k \<le> j \<and> j \<le> n \<and> \<not> identity_eq (st_fps s' ! j) (st_fps s ! j)} \<union>
     {ChangedNodesInside j | j. k \<le> j \<and> j \<le> n \<and> st_nodes_inside s' ! j \<noteq> st_nodes_inside s ! j}"

definition same_but_clusters :: "qspn_state \<Rightarrow> qspn_state \<Rightarrow> bool" where
  "same_but_clusters s s' \<longleftrightarrow>
     s' = s\<lparr>st_fps := st_fps s', st_nodes_inside := st_nodes_inside s'\<rparr>"

lemma same_but_clusters_trans:
  "same_but_clusters s s' \<Longrightarrow> same_but_clusters s' s'' \<Longrightarrow> same_but_clusters s s''"
  by (simp add: same_but_clusters_def) (metis (no_types, lifting) qspn_state.surjective qspn_state.update_convs(2,3))

lemma climb_from:
  assumes "wf_state s" "levels_of s = n" "1 \<le> k" "k \<le> Suc n" "clusters_ok s (k - 1)"
  shows "\<exists>evs s'. st_concat update_cluster_level [k..<Suc n] s = (Ok evs, s') \<and> wf_state s' \<and>
     same_but_clusters s s' \<and> clusters_ok s' n \<and>
     (\<forall>j < k. st_fps s' ! j = st_fps s ! j \<and> st_nodes_inside s' ! j = st_nodes_inside s ! j) \<and>
     set evs = cluster_changes s s' k n"
  using assms
proof (induction "Suc n - k" arbitrary: k s)
  case 0
  then have "k = Suc n" by simp
  then show ?case using 0 by (auto simp: cluster_changes_def same_but_clusters_def)
next
  case (Suc m)
  then have k: "1 \<le> k" "k \<le> n" by auto
  obtain f nn where f: "cluster_level_value s k = Ok (f, nn)" "wf_fp f" "fp_level f = k"
    "levels_of s \<le> k + length (fp_pending f)"
    using cluster_level_value_total [OF Suc.prems(1) k(1)] k(2) Suc.prems(2) by metis
  let ?s = "set_cluster k f nn s"
  have len: "length (st_fps s) = n + 1" "length (st_nodes_inside s) = n + 1"
    using wf_statesD(2,3) [OF Suc.prems(1)] Suc.prems(2) by (auto simp: wf_chain_def)
  have wf: "wf_state ?s" using wf_state_set_cluster [OF Suc.prems(1) k(1) _ f(2-4)] k Suc.prems(2) by simp
  have ok: "clusters_ok ?s k"
    using Suc.prems(5) f(1) k len
    by (auto simp: clusters_ok_def cluster_level_value_set nth_list_update le_Suc_eq not_le)
  have arg: "m = Suc n - Suc k" "levels_of ?s = n" "1 \<le> Suc k" "Suc k \<le> Suc n" "clusters_ok ?s (Suc k - 1)"
    using Suc.hyps(2) Suc.prems(2) k ok by auto
  obtain evs s' where s': "st_concat update_cluster_level [Suc k..<Suc n] ?s = (Ok evs, s')" "wf_state s'"
    "same_but_clusters ?s s'" "clusters_ok s' n"
    "\<forall>j < Suc k. st_fps s' ! j = st_fps ?s ! j \<and> st_nodes_inside s' ! j = st_nodes_inside ?s ! j"
    "set evs = cluster_changes ?s s' (Suc k) n"
    using Suc.hyps(1) [OF arg(1) wf arg(2-5)] by blast
  let ?e = "(if identity_eq f (st_fps s ! k) then [] else [ChangedFingerprint k]) @
          (if nn \<noteq> st_nodes_inside s ! k then [ChangedNodesInside k] else [])"
  have "update_cluster_level k s = (Ok ?e, ?s)"
    using update_cluster_level_step [OF Suc.prems(1) k(1) _ f(1)] k Suc.prems(2) by simp
  then have run: "st_concat update_cluster_level [k..<Suc n] s = (Ok (?e @ evs), s')"
    using s'(1) k by (simp add: upt_conv_Cons st_bind_run del: upt_Suc)
  have at_k: "st_fps s' ! k = f" "st_nodes_inside s' ! k = nn" using s'(5) k len by auto
  have "cluster_changes ?s s' (Suc k) n = cluster_changes s s' (Suc k) n" by (auto simp: cluster_changes_def)
  moreover have "cluster_changes s s' k n = set ?e \<union> cluster_changes s s' (Suc k) n"
    using k at_k by (auto simp: cluster_changes_def le_eq_less_or_eq Suc_le_eq)
  ultimately have ev: "set (?e @ evs) = cluster_changes s s' k n" using s'(6) by simp
  have "same_but_clusters s s'" using s'(3) by (auto simp: same_but_clusters_def)
  moreover have "\<forall>j < k. st_fps s' ! j = st_fps s ! j \<and> st_nodes_inside s' ! j = st_nodes_inside s ! j"
    using s'(5) by simp
  ultimately show ?case using run s'(2,4) ev by blast
qed


lemma climb_again:
  assumes "wf_state s" "clusters_ok s (levels_of s)" "set is \<subseteq> {1..levels_of s}"
  shows "st_concat update_cluster_level is s = (Ok [], s)"
  using assms(3)
proof (induction "is")
  case Nil
  then show ?case by simp
next
  case (Cons i js)
  have "cluster_level_value s i = Ok (st_fps s ! i, st_nodes_inside s ! i)"
    using assms(2) Cons.prems by (simp add: clusters_ok_def)
  then have "update_cluster_level i s = (Ok [], s)"
    using update_cluster_level_step [OF assms(1)] Cons.prems by (simp add: identity_eq_def)
  with Cons show ?case by (simp add: st_bind_run)
qed

lemma update_clusters_run:
  assumes "wf_state s"
  obtains evs s' where "update_clusters s = (Ok evs, s')" "wf_state s'" "same_but_clusters s s'"
    "clusters_ok s' (levels_of s)" "st_fps s' ! 0 = st_fps s ! 0"
    "st_nodes_inside s' ! 0 = st_nodes_inside s ! 0" "set evs = cluster_changes s s' 1 (levels_of s)"
proof -
  have "clusters_ok s (1 - 1)" by (simp add: clusters_ok_def)
  then show ?thesis
    using climb_from [OF assms refl, of 1] that unfolding update_clusters_def by auto
qed

lemma same_but_clusters_sel:
  assumes "same_but_clusters s s'"
  shows "st_naddr s' = st_naddr s" "st_arcs s' = st_arcs s" "st_dests s' = st_dests s"
    "st_config s' = st_config s" "st_pending s' = st_pending s" "st_bootstrap s' = st_bootstrap s"
    "st_conn_from s' = st_conn_from s" "st_conn_to s' = st_conn_to s" "levels_of s' = levels_of s"
    "arc_ids s' = arc_ids s" "destination_at s' l pos = destination_at s l pos" "loop_free s' = loop_free s"
proof -
  obtain x y where s': "s' = s\<lparr>st_fps := x, st_nodes_inside := y\<rparr>"
    using assms by (auto simp: same_but_clusters_def)
  show "st_naddr s' = st_naddr s" "st_arcs s' = st_arcs s" "st_dests s' = st_dests s"
    "st_config s' = st_config s" "st_pending s' = st_pending s" "st_bootstrap s' = st_bootstrap s"
    "st_conn_from s' = st_conn_from s" "st_conn_to s' = st_conn_to s" "levels_of s' = levels_of s"
    "arc_ids s' = arc_ids s" "destination_at s' l pos = destination_at s l pos" "loop_free s' = loop_free s"
    by (simp_all add: s' destination_at_def loop_free_def)
qed

text \<open>What a destination counts for in its g-node: one node at level 0, else the nodes its evaluation reports.\<close>

definition nodes_at :: "qspn_state \<Rightarrow> usize \<Rightarrow> u32 \<Rightarrow> nat" where
  "nodes_at s l pos =
     (case destination_at s l pos of
        None \<Rightarrow> 0
      | Some d \<Rightarrow> if l = 0 then 1 else (case dest_evaluate d (arc_cost s) of Ok (f, nn, _) \<Rightarrow> unat nn | _ \<Rightarrow> 0))"

definition siblings_at :: "qspn_state \<Rightarrow> usize \<Rightarrow> fp set" where
  "siblings_at s l = {f. \<exists>pos d nn i. destination_at s l pos = Some d \<and> dest_evaluate d (arc_cost s) = Ok (f, nn, i)}"

lemma cluster_inputs_meaning:
  assumes "wf_state s" "l < levels_of s" "cluster_inputs s l = Ok ins"
  shows "cluster_size l ins = (\<Sum>pos \<in> UNIV. nodes_at s l pos)" "fst ` set ins = siblings_at s l"
proof -
  let ?g = "\<lambda>(pos :: u32, d). res_bind (map_err CommonError (dest_evaluate d (arc_cost s))) (\<lambda>(f, nn, _). Ok (f, nn))"
  let ?m = "st_dests s ! l"
  have l: "l < length (st_dests s)" using assms(1,2) by (simp add: wf_statesD(7))
  have tm: "try_map ?g ?m = Ok ins" using assms(3) l by (simp add: cluster_inputs_def)
  then have len: "length ins = length ?m" and nth: "\<And>i. i < length ?m \<Longrightarrow> ?g (?m ! i) = Ok (ins ! i)" by (simp_all add: try_map_Ok_conv)
  have dist: "distinct (map fst ?m)"
    using wf_dests_level [OF wf_statesD(6) [OF assms(1)] assms(2)] by (simp add: wf_level_def hm_wf_def)
  let ?n = "\<lambda>d. if l = 0 then 1 else (case dest_evaluate d (arc_cost s) of Ok (f, nn, _) \<Rightarrow> unat nn | _ \<Rightarrow> 0)"
  have "map (\<lambda>(f, nn). if l = 0 then 1 else unat nn) ins = map (\<lambda>(pos, d). ?n d) ?m"
  proof (rule nth_equalityI)
    fix i assume "i < length (map (\<lambda>(f, nn). if l = 0 then 1 else unat nn) ins)"
    then have i: "i < length ?m" "i < length ins" using len by simp_all
    obtain pos d where d: "?m ! i = (pos, d)" by fastforce
    obtain f nn x where "dest_evaluate d (arc_cost s) = Ok (f, nn, x)" "ins ! i = (f, nn)"
      using nth [OF i(1)] d by (auto simp: res_simps)
    then show "map (\<lambda>(f, nn). if l = 0 then 1 else unat nn) ins ! i = map (\<lambda>(pos, d). ?n d) ?m ! i" using d i by simp
  qed (simp add: len)
  then have "cluster_size l ins = sum_list (map (\<lambda>(pos, d). ?n d) ?m)" by (simp only: cluster_size_def)
  also have "\<dots> = (\<Sum>pos \<in> UNIV. nodes_at s l pos)"
    using l by (simp add: sum_list_entries [OF dist] nodes_at_def destination_at_def)
  finally show "cluster_size l ins = (\<Sum>pos \<in> UNIV. nodes_at s l pos)" .
  have entry: "destination_at s l pos = Some d \<longleftrightarrow> (pos, d) \<in> set ?m" for pos d by (rule destination_at_entry [OF assms(1,2)])
  show "fst ` set ins = siblings_at s l"
  proof
    show "fst ` set ins \<subseteq> siblings_at s l"
    proof
      fix f assume "f \<in> fst ` set ins"
      then obtain nn i where i: "i < length ?m" "ins ! i = (f, nn)" using len by (auto simp: in_set_conv_nth)
      obtain pos d where d: "?m ! i = (pos, d)" by fastforce
      obtain x where "dest_evaluate d (arc_cost s) = Ok (f, nn, x)" using nth [OF i(1)] d i(2) by (auto simp: res_simps)
      moreover have "(pos, d) \<in> set ?m" using d i(1) by (metis nth_mem)
      ultimately show "f \<in> siblings_at s l" unfolding siblings_at_def entry by blast
    qed
    show "siblings_at s l \<subseteq> fst ` set ins"
    proof
      fix f assume "f \<in> siblings_at s l"
      then obtain pos d nn i where "(pos, d) \<in> set ?m" "dest_evaluate d (arc_cost s) = Ok (f, nn, i)" by (auto simp: siblings_at_def entry)
      then obtain k where "k < length ?m" "?g (?m ! k) = Ok (f, nn)" by (auto simp: in_set_conv_nth)
      then have "ins ! k = (f, nn)" "k < length ins" using nth [of k] len by auto
      then show "f \<in> fst ` set ins" by (metis fst_conv image_eqI nth_mem)
    qed
  qed
qed

text \<open>The eldership this node claims for its own g-node of a level: none where its position is virtual.\<close>

definition own_claim :: "qspn_state \<Rightarrow> usize \<Rightarrow> int" where
  "own_claim s l = (if is_virtual_at (st_naddr s) l = Some True then -1 else fp_eldership (st_fps s ! l))"

text \<open>The fingerprint \<open>f\<close> is that of the strongest claim among this node's own g-node of level \<open>l\<close> and the known ones.\<close>

definition champion_of :: "qspn_state \<Rightarrow> usize \<Rightarrow> fp \<Rightarrow> bool" where
  "champion_of s l f \<longleftrightarrow>
     (\<exists>claim seed. fp_seed f = claim # seed \<and>
        (claim, fp_id f, seed) \<in> insert (own_claim s l, fp_id (st_fps s ! l), fp_seed (st_fps s ! l))
          ((\<lambda>x. (fp_eldership x, fp_id x, fp_seed x)) ` siblings_at s l) \<and>
        claim \<le> own_claim s l \<and> (\<forall>x \<in> siblings_at s l. fp_eldership x \<noteq> -1 \<longrightarrow> claim \<le> fp_eldership x))"

lemma cluster_level_meaning:
  assumes "wf_state s" "1 \<le> i" "i \<le> levels_of s" "cluster_level_value s i = Ok (f, nn)"
  shows "unat nn = min (2 ^ 32 - 1) (unat (st_nodes_inside s ! (i - 1)) + (\<Sum>pos \<in> UNIV. nodes_at s (i - 1) pos))"
    "champion_of s (i - 1) f"
proof -
  let ?c = "i - 1"
  have c: "?c < levels_of s" using assms(2,3) by simp
  obtain ins where ins: "cluster_inputs s ?c = Ok ins" "\<And>f nn. (f, nn) \<in> set ins \<Longrightarrow> wf_fp f \<and> fp_level f = ?c"
    using cluster_inputs_total [OF assms(1) c] by metis
  note meaning = cluster_inputs_meaning [OF assms(1) c ins(1)]
  let ?n = "case is_virtual_at (st_naddr s) ?c of None \<Rightarrow> False | Some v \<Rightarrow> v"
  have nul: "?n \<longleftrightarrow> is_virtual_at (st_naddr s) ?c = Some True" by (auto split: option.splits)
  have ch: "wf_fp (st_fps s ! ?c)" "fp_level (st_fps s ! ?c) = ?c" "length (st_fps s) = levels_of s + 1"
    using wf_statesD(2) [OF assms(1)] c by (auto simp: wf_chain_def)
  have g: "fp_construct (st_fps s ! ?c) (map fst ins) ?n = Ok f" and nn: "nn = u32_saturate (unat (st_nodes_inside s ! ?c) + cluster_size ?c ins)"
    using assms(4) ins(1) c ch(3) wf_statesD(3) [OF assms(1)] by (auto simp: cluster_level_value_def Let_def res_simps)
  show "unat nn = min (2 ^ 32 - 1) (unat (st_nodes_inside s ! ?c) + (\<Sum>pos \<in> UNIV. nodes_at s ?c pos))"
    by (simp only: nn meaning(1) unat_u32_saturate min.commute)
  have "\<forall>x \<in> set (map fst ins). wf_fp x \<and> fp_level x = fp_level (st_fps s ! ?c)" using ins(2) ch(2) by auto
  from construct_champion [OF g ch(1) this] show "champion_of s ?c f"
    by (simp only: nul set_map meaning(2) own_claim_def my_claim_def champion_of_def)
qed

lemma same_but_clusters_meaning:
  assumes "same_but_clusters s s'"
  shows "nodes_at s' l pos = nodes_at s l pos" "siblings_at s' l = siblings_at s l"
proof -
  have cost: "arc_cost s' = arc_cost s" by (rule ext) (simp add: arc_cost_def same_but_clusters_sel [OF assms])
  show "nodes_at s' l pos = nodes_at s l pos" "siblings_at s' l = siblings_at s l"
    by (simp_all only: nodes_at_def siblings_at_def cost same_but_clusters_sel [OF assms])
qed

text \<open>C32: from a well-formed state \<open>update_clusters\<close> always succeeds and touches nothing but the
  node's own fingerprints and sizes above level 0. Bottom-up, the size of a level is the (saturated) sum of the
  size of the node's own g-node below it and of what the known destinations of that level count for, and its
  fingerprint is that of the strongest claim among them; an event is emitted for exactly the
  levels whose identity or size changed; and running it again changes nothing and emits nothing.\<close>

theorem update_clusters_correct:
  assumes "wf_state s"
  shows "\<exists>evs s'. update_clusters s = (Ok evs, s') \<and> wf_state s' \<and> same_but_clusters s s' \<and>
     st_fps s' ! 0 = st_fps s ! 0 \<and>
     (\<forall>i. 1 \<le> i \<and> i \<le> levels_of s \<longrightarrow>
        unat (st_nodes_inside s' ! i) = min (2 ^ 32 - 1) (unat (st_nodes_inside s' ! (i - 1)) + (\<Sum>pos \<in> UNIV. nodes_at s (i - 1) pos)) \<and>
        champion_of s' (i - 1) (st_fps s' ! i) \<and>
        (ChangedFingerprint i \<in> set evs \<longleftrightarrow> \<not> identity_eq (st_fps s' ! i) (st_fps s ! i)) \<and>
        (ChangedNodesInside i \<in> set evs \<longleftrightarrow> st_nodes_inside s' ! i \<noteq> st_nodes_inside s ! i)) \<and>
     update_clusters s' = (Ok [], s')"
proof -
  obtain evs s' where r: "update_clusters s = (Ok evs, s')" "wf_state s'" "same_but_clusters s s'"
    "clusters_ok s' (levels_of s)" "st_fps s' ! 0 = st_fps s ! 0"
    "set evs = cluster_changes s s' 1 (levels_of s)"
    using update_clusters_run [OF assms] by metis
  have l: "levels_of s' = levels_of s" using r(3) by (rule same_but_clusters_sel)
  have again: "update_clusters s' = (Ok [], s')"
    unfolding update_clusters_def using r(4) l by (intro climb_again [OF r(2)]) auto
  have level: "unat (st_nodes_inside s' ! i) = min (2 ^ 32 - 1) (unat (st_nodes_inside s' ! (i - 1)) + (\<Sum>pos \<in> UNIV. nodes_at s (i - 1) pos))"
    "champion_of s' (i - 1) (st_fps s' ! i)" if "1 \<le> i" "i \<le> levels_of s" for i
  proof -
    have "cluster_level_value s' i = Ok (st_fps s' ! i, st_nodes_inside s' ! i)" using r(4) that by (simp add: clusters_ok_def)
    note cluster_level_meaning [OF r(2) that(1) _ this, unfolded l same_but_clusters_meaning [OF r(3)], OF that(2)]
    then show "unat (st_nodes_inside s' ! i) = min (2 ^ 32 - 1) (unat (st_nodes_inside s' ! (i - 1)) + (\<Sum>pos \<in> UNIV. nodes_at s (i - 1) pos))"
      "champion_of s' (i - 1) (st_fps s' ! i)" .
  qed
  have "(ChangedFingerprint i \<in> set evs \<longleftrightarrow> \<not> identity_eq (st_fps s' ! i) (st_fps s ! i)) \<and>
        (ChangedNodesInside i \<in> set evs \<longleftrightarrow> st_nodes_inside s' ! i \<noteq> st_nodes_inside s ! i)" if "1 \<le> i" "i \<le> levels_of s" for i
    using r(6) that by (auto simp: cluster_changes_def)
  with level r(1-3,5) again show ?thesis by (intro exI [of _ evs] exI [of _ s']) simp
qed

theorem update_clusters_correct_witness:
  "\<exists>evs s'. update_clusters example_state = (Ok evs, s') \<and> update_clusters s' = (Ok [], s')"
  using update_clusters_correct [OF wf_example_state] by blast

text \<open>The \<open>u64\<close> accumulator of a cluster's size never overflows, whatever sizes the peers report:
  a level has at most \<open>2 ^ 32\<close> destinations, each of at most \<open>2 ^ 32 - 1\<close> nodes.\<close>

theorem cluster_sum_no_overflow:
  assumes "wf_state s" "child < levels_of s" "cluster_inputs s child = Ok ins"
  shows "unat (st_nodes_inside s ! child) + cluster_size child ins < 2 ^ 64"
proof -
  have "hm_wf (st_dests s ! child)"
    using wf_dests_level [OF wf_statesD(6) [OF assms(1)] assms(2)] by (simp add: wf_level_def)
  then have keys: "length (st_dests s ! child) \<le> card (UNIV :: u32 set)"
    using distinct_card [of "map fst (st_dests s ! child)"] card_mono [OF finite [of "UNIV :: u32 set"], of "set (map fst (st_dests s ! child))"]
    by (simp add: hm_wf_def)
  have len: "length ins \<le> 2 ^ 32"
  proof -
    have "length ins = length (st_dests s ! child)"
      using cluster_inputs_total [OF assms(1,2)] assms(3) by (metis res.inject(1))
    moreover have "card (UNIV :: u32 set) = 2 ^ 32" by (simp add: card_word)
    ultimately show ?thesis using keys by simp
  qed
  have "cluster_size child ins \<le> length ins * (2 ^ 32 - 1)"
  proof -
    have "unat (w :: u32) \<le> 2 ^ 32 - 1" for w using unsigned_less [of w, where 'a = nat] by simp
    then have "(if child = 0 then 1 else unat (nn :: u32)) \<le> 2 ^ 32 - 1" for nn by simp
    then have "sum_list (map (\<lambda>(f, nn). if child = 0 then 1 else unat nn) xs) \<le> length xs * (2 ^ 32 - 1)"
      for xs :: "(fp \<times> u32) list"
    proof (induction xs)
      case (Cons x xs)
      then show ?case by (cases x) (fastforce intro: add_mono)
    qed simp
    then show ?thesis by (simp add: cluster_size_def)
  qed
  also have "\<dots> \<le> 2 ^ 32 * (2 ^ 32 - 1)" using len by (rule mult_right_mono) simp
  finally have "cluster_size child ins \<le> 2 ^ 32 * (2 ^ 32 - 1)" .
  moreover have "unat (st_nodes_inside s ! child) < 2 ^ 32"
    using unsigned_less [of "st_nodes_inside s ! child", where 'a = nat] by simp
  ultimately show ?thesis by simp
qed

theorem cluster_sum_no_overflow_witness:
  "unat (st_nodes_inside example_state ! 1) + cluster_size 1 (the_ok (cluster_inputs example_state 1)) < 2 ^ 64"
proof -
  obtain ins where "cluster_inputs example_state 1 = Ok ins"
    using cluster_inputs_total [OF wf_example_state, of 1] levels_of_example by fastforce
  then show ?thesis
    using cluster_sum_no_overflow [OF wf_example_state, of 1 ins] by (simp add: levels_of_example)
qed


subsection \<open>What is published\<close>

lemma exposed_paths_known:
  assumes "wf_state s" "destination_at s l pos = Some d"
  obtains ps where "exposed_paths s (HCoord l pos) = Ok ps" "ps \<noteq> []" "set ps \<subseteq> set (dest_paths d)"
    "l = 0 \<Longrightarrow> ps = dest_paths d"
proof (cases "l = 0")
  case True
  have "dest_paths d \<noteq> []" using wf_destination_at(2) [OF assms] by (simp add: wf_dest_def)
  then show ?thesis using that [of "dest_paths d"] assms(2) True by (simp add: exposed_paths_def)
next
  case False
  have wf: "wf_dest (levels_of s) (arc_ids s) (HCoord l pos) d" using wf_destination_at(2) [OF assms] .
  obtain f i where f: "dest_evaluate d (arc_cost s) = Ok (f, np_nodes_inside (dest_paths d ! i), i)"
    "i < length (dest_paths d)" "identity_eq (np_fp (dest_paths d ! i)) f"
    using wf_dest_evaluate [OF wf, of "arc_cost s"] by metis
  let ?ps = "filter (\<lambda>p. same_branch (np_fp p) f (np_nodes_inside p) (np_nodes_inside (dest_paths d ! i))) (dest_paths d)"
  have "dest_paths d ! i \<in> set ?ps" using f(2,3) by (simp add: same_branch_def)
  then have "?ps \<noteq> []" by (metis empty_iff empty_set)
  moreover have "dest_paths d \<noteq> []" using f(2) by auto
  then have "exposed_paths s (HCoord l pos) = Ok ?ps"
    using assms(2) False f(1) by (simp add: exposed_paths_def)
  ultimately show ?thesis using that [of ?ps] False by auto
qed

lemma snapshot_entry_known:
  assumes "wf_state s" "destination_at s l pos = Some d"
  shows "\<exists>e. snapshot_entry s d = Ok [e] \<and> re_destination e = HCoord l pos \<and> re_paths e \<noteq> [] \<and>
     sorted (map rp_cost (re_paths e)) \<and>
     set (re_paths e) \<subseteq> (\<lambda>np. to_route_path np (arc_cost s (np_arc np))) ` set (dest_paths d)"
proof -
  obtain ps where ps: "exposed_paths s (HCoord l pos) = Ok ps" "ps \<noteq> []" "set ps \<subseteq> set (dest_paths d)"
    using exposed_paths_known [OF assms] by blast
  have "dest_coord d = HCoord l pos" using wf_destination_at(2) [OF assms] by (simp add: wf_dest_def)
  with ps show ?thesis
    by (auto simp: snapshot_entry_def) (metis length_0_conv length_map length_sort)
qed

lemma snapshot_level_ok:
  assumes "wf_state s" "l < levels_of s" "l < guest_gnode_level s"
  shows "\<exists>es. snapshot_level s (l, st_dests s ! l) = Ok es \<and>
     map re_destination es = map (dest_coord \<circ> snd) (st_dests s ! l) \<and>
     (\<forall>e \<in> set es. re_paths e \<noteq> [] \<and> sorted (map rp_cost (re_paths e)) \<and>
        (\<exists>d. destination_at s l (hc_pos (re_destination e)) = Some d \<and>
           set (re_paths e) \<subseteq> (\<lambda>np. to_route_path np (arc_cost s (np_arc np))) ` set (dest_paths d)))"
proof -
  let ?P = "\<lambda>e. re_paths e \<noteq> [] \<and> sorted (map rp_cost (re_paths e)) \<and>
        (\<exists>d. destination_at s l (hc_pos (re_destination e)) = Some d \<and>
           set (re_paths e) \<subseteq> (\<lambda>np. to_route_path np (arc_cost s (np_arc np))) ` set (dest_paths d))"
  have each: "\<exists>e. snapshot_entry s d = Ok [e] \<and> re_destination e = dest_coord d \<and> ?P e"
    if "(pos, d) \<in> set (st_dests s ! l)" for pos d
  proof -
    have at: "destination_at s l pos = Some d"
      using that destination_at_entry [OF assms(1,2)] by simp
    moreover have "dest_coord d = HCoord l pos" using wf_destination_at(2) [OF assms(1) at] by (simp add: wf_dest_def)
    ultimately show ?thesis using snapshot_entry_known [OF assms(1) at] by auto
  qed
  have "\<exists>es. try_map (\<lambda>(pos, d). snapshot_entry s d) m = Ok es \<and>
      map re_destination (concat es) = map (dest_coord \<circ> snd) m \<and> (\<forall>e \<in> set (concat es). ?P e)"
    if "set m \<subseteq> set (st_dests s ! l)" for m
    using that
  proof (induction m)
    case Nil
    then show ?case by simp
  next
    case (Cons x m)
    obtain pos d where x: "x = (pos, d)" by (cases x)
    then have "(pos, d) \<in> set (st_dests s ! l)" using Cons.prems by simp
    then obtain e where e: "snapshot_entry s d = Ok [e]" "re_destination e = dest_coord d" "?P e"
      using each by blast
    have "set m \<subseteq> set (st_dests s ! l)" using Cons.prems by simp
    then obtain es where es: "try_map (\<lambda>(pos, d). snapshot_entry s d) m = Ok es"
      "map re_destination (concat es) = map (dest_coord \<circ> snd) m" "\<forall>e \<in> set (concat es). ?P e"
      using Cons.IH by blast
    show ?case
    proof (intro exI conjI)
      show "try_map (\<lambda>(pos, d). snapshot_entry s d) (x # m) = Ok ([e] # es)" using e(1) es(1) x by simp
      show "map re_destination (concat ([e] # es)) = map (dest_coord \<circ> snd) (x # m)" using e(2) es(2) x by simp
      show "\<forall>e \<in> set (concat ([e] # es)). ?P e" using e(3) es(3) by (simp only: concat.simps) force
    qed
  qed
  from this [of "st_dests s ! l"] assms(3) show ?thesis by (auto simp: snapshot_level_def)
qed

lemma snapshot_run:
  assumes "wf_state s"
  shows "\<exists>snap. snapshot s = Ok snap \<and> length snap = levels_of s \<and>
     (\<forall>l < levels_of s.
        if guest_gnode_level s \<le> l then snap ! l = []
        else map re_destination (snap ! l) = map (dest_coord \<circ> snd) (st_dests s ! l) \<and>
          (\<forall>e \<in> set (snap ! l). re_paths e \<noteq> [] \<and> sorted (map rp_cost (re_paths e)) \<and>
             (\<exists>d. destination_at s l (hc_pos (re_destination e)) = Some d \<and>
                set (re_paths e) \<subseteq> (\<lambda>np. to_route_path np (arc_cost s (np_arc np))) ` set (dest_paths d))))"
    (is "\<exists>snap. _ \<and> _ \<and> (\<forall>l < _. ?Q l (snap ! l))")
proof -
  have step: "\<exists>es. snapshot_level s (l, st_dests s ! l) = Ok es \<and> ?Q l es" if "l < levels_of s" for l
  proof (cases "guest_gnode_level s \<le> l")
    case True
    then show ?thesis by (simp add: snapshot_level_def)
  next
    case False
    then show ?thesis using snapshot_level_ok [OF assms that] by auto
  qed
  have len: "length (st_dests s) = levels_of s" using wf_statesD(7) [OF assms] .
  have "\<exists>y. snapshot_level s x = Ok y" if "x \<in> set (enumerate 0 (st_dests s))" for x
  proof -
    obtain l m where x: "x = (l, m)" by (cases x)
    then have "l < levels_of s" "m = st_dests s ! l" using that [unfolded x set_enumerate_0] len by auto
    then show ?thesis using step [of l] x by auto
  qed
  then obtain snap where snap: "snapshot s = Ok snap"
    using try_map_total unfolding snapshot_def by metis
  then have "length snap = levels_of s" "\<forall>l < levels_of s. snapshot_level s (l, st_dests s ! l) = Ok (snap ! l)"
    by (auto simp: snapshot_def try_map_Ok_conv len nth_enumerate_eq)
  then show ?thesis using snap step by (metis (lifting) res.inject(1))
qed

text \<open>From a well-formed state a snapshot always succeeds; while bootstrapping nothing is published
  at or above the guest level, and below it exactly one entry per known destination, in map order,
  each with at least one path, cheapest first, every path being one the state stores.\<close>

theorem snapshot_correct:
  assumes "wf_state s"
  shows "\<exists>snap. snapshot s = Ok snap \<and> length snap = levels_of s \<and>
     (\<forall>l < levels_of s.
        if guest_gnode_level s \<le> l then snap ! l = []
        else map re_destination (snap ! l) = map (dest_coord \<circ> snd) (st_dests s ! l) \<and>
          (\<forall>e \<in> set (snap ! l). re_paths e \<noteq> [] \<and> sorted (map rp_cost (re_paths e)) \<and>
             (\<exists>d. destination_at s l (hc_pos (re_destination e)) = Some d \<and>
                set (re_paths e) \<subseteq> (\<lambda>np. to_route_path np (arc_cost s (np_arc np))) ` set (dest_paths d))))"
  by (rule snapshot_run [OF assms])

theorem snapshot_correct_witness:
  "\<exists>snap. snapshot example_state = Ok snap \<and> map re_destination (snap ! 1) = [HCoord 1 2]"
proof -
  have "\<not> guest_gnode_level example_state \<le> 1" "map (dest_coord \<circ> snd) (st_dests example_state ! 1) = [HCoord 1 2]"
    using levels_of_example by (auto simp: guest_gnode_level_def) (simp_all add: example_state_def)
  then show ?thesis using snapshot_correct [OF wf_example_state] levels_of_example by fastforce
qed

end
