(* ===== verification/Qspn_UpdateMap.thy ===== *)
theory Qspn_UpdateMap
  imports Qspn_Clusters "HOL-Library.Sublist"
begin

section \<open>Merging revised paths into the map (\<open>state.rs\<close>: \<open>update_map\<close>)\<close>

text \<open>
  \<open>update_map\<close> groups the revised paths by destination, orders the destinations, and runs one admission
  pass per destination. The pass is translated phase by phase, in the order of the code: the branches
  known before, the merge with the stored paths, the sort by cost, the pruning of unknown intermediate
  hops, the deduplication of routes, the direct neighbours and lower siblings still to be covered, the
  tolerance, the disjoint-path admission, the events and exposure flags, the commit, and the check
  for a split. The iteration order of the grouping \<open>HashMap\<close> is the parameter \<open>ho\<close>, a function that
  permutes its keys.
\<close>

definition MANDATORY_PATH_FACTOR :: usize where
  "MANDATORY_PATH_FACTOR = 4"

record split_signal =
  ss_destination :: hcoord
  ss_fp_eldest :: fp
  ss_fp :: fp
  ss_bp_eldest :: node_path
  ss_bp :: node_path

record one_dest_outcome =
  od_all_paths :: "etp_path list"
  od_first_split :: bool
  od_events :: "qspn_event list"
  od_splits :: "split_signal list"

record update_map_outcome =
  um_all_paths :: "etp_path list"
  um_b_set :: "hcoord list"
  um_events :: "qspn_event list"
  um_splits :: "split_signal list"

subsection \<open>\<open>my_gnode_neighbors\<close>\<close>

definition push_new :: "'a \<Rightarrow> 'a list \<Rightarrow> 'a list" where
  "push_new y ys = (if y \<in> set ys then ys else ys @ [y])"

fun scan_hops :: "usize \<Rightarrow> hcoord \<Rightarrow> hcoord list \<Rightarrow> hcoord option" where
  "scan_hops i y_prev [] = None"
| "scan_hops i y_prev (y # ys) =
     (if hc_level y = i \<and> hc_level y_prev < i then Some y else scan_hops i y ys)"

definition gnode_entry :: "usize \<Rightarrow> hcoord list \<Rightarrow> (hcoord option, qspn_error) res" where
  "gnode_entry i hops =
     (case hops of [] \<Rightarrow> Panic | y # ys \<Rightarrow> Ok (if hc_level y = i then Some y else scan_hops i y ys))"

definition collect_entries :: "usize \<Rightarrow> node_path list \<Rightarrow> (hcoord list, qspn_error) res" where
  "collect_entries i paths =
     fold_res (\<lambda>y_set np. res_bind (gnode_entry i (np_hops np)) (\<lambda>entry.
       Ok (case entry of None \<Rightarrow> y_set | Some y \<Rightarrow> push_new y y_set))) [] paths"

definition my_gnode_neighbors :: "qspn_state \<Rightarrow> usize \<Rightarrow> (hcoord list, qspn_error) res" where
  "my_gnode_neighbors s i = collect_entries i (concat (map level_paths (drop i (st_dests s))))"

subsection \<open>Branches, merge, prune, dedupe\<close>

definition add_branch :: "(fp \<times> u32) list \<Rightarrow> node_path \<Rightarrow> (fp \<times> u32) list" where
  "add_branch fs np =
     (if list_ex (\<lambda>(f, fni). same_branch f (np_fp np) fni (np_nodes_inside np)) fs then fs
      else fs @ [(np_fp np, np_nodes_inside np)])"

definition branches :: "node_path list \<Rightarrow> (fp \<times> u32) list" where
  "branches ps = foldl add_branch [] ps"

definition important_variation :: "cost \<Rightarrow> cost \<Rightarrow> bool" where
  "important_variation old new \<longleftrightarrow> old \<noteq> new"

definition ni_changed :: "real \<Rightarrow> u32 \<Rightarrow> u32 \<Rightarrow> bool" where
  "ni_changed tol n1 n2 \<longleftrightarrow>
     real (unat n1) * (1 + tol) < real (unat n2) \<or> real (unat n1) * (1 - tol) > real (unat n2)"

definition path_changed :: "real \<Rightarrow> node_path \<Rightarrow> node_path \<Rightarrow> bool" where
  "path_changed tol p1 p2 \<longleftrightarrow>
     \<not> identity_eq (np_fp p1) (np_fp p2) \<or>
     important_variation (ep_cost (np_path p1)) (ep_cost (np_path p2)) \<or>
     ni_changed tol (np_nodes_inside p1) (np_nodes_inside p2)"

fun merge_known ::
  "real \<Rightarrow> arc_id option \<Rightarrow> node_path list \<Rightarrow> node_path list \<Rightarrow> node_path list \<times> node_path list \<times> node_path list" where
  "merge_known tol a_changed [] qd = ([], [], qd)"
| "merge_known tol a_changed (p1 # md) qd =
     (case position (\<lambda>p_test. hops_arcs_equal p_test (np_path p1)) qd of
        Some idx \<Rightarrow>
          (let p2 = qd ! idx; (od, vd, rest) = merge_known tol a_changed md (remove_nth idx qd) in
           if path_changed tol p1 p2 then (p2 # od, p2 # vd, rest)
           else (p1 # od, if a_changed = Some (np_arc p1) then p1 # vd else vd, rest))
      | None \<Rightarrow>
          (let (od, vd, rest) = merge_known tol a_changed md qd in
           (p1 # od, if a_changed = Some (np_arc p1) then p1 # vd else vd, rest)))"

fun intermediate_sizes ::
  "qspn_state \<Rightarrow> hcoord list \<Rightarrow> (hcoord, u32) hash_map \<Rightarrow> (bool \<times> (hcoord, u32) hash_map, qspn_error) res" where
  "intermediate_sizes s [] sizes = Ok (True, sizes)"
| "intermediate_sizes s (h # hs) sizes =
     res_bind (index (st_dests s) (hc_level h)) (\<lambda>m.
     case map_of m (hc_pos h) of
       None \<Rightarrow> Ok (False, sizes)
     | Some dest \<Rightarrow>
         res_bind (map_err CommonError (dest_evaluate dest (arc_cost s))) (\<lambda>(_, nn, _).
         intermediate_sizes s hs (hm_insert h nn sizes)))"

definition prune_unknown ::
  "qspn_state \<Rightarrow> node_path list \<Rightarrow> (node_path list \<times> (hcoord, u32) hash_map, qspn_error) res" where
  "prune_unknown s od =
     fold_res (\<lambda>(kept, sizes) np.
       res_bind (intermediate_sizes s (butlast (np_hops np)) sizes) (\<lambda>(known, sizes').
       Ok (if known then kept @ [np] else kept, sizes'))) ([], []) od"

fun dedupe_routes :: "(hcoord list \<times> arc_id list) list \<Rightarrow> node_path list \<Rightarrow> node_path list" where
  "dedupe_routes seen [] = []"
| "dedupe_routes seen (np # nps) =
     (if route_key np \<in> set seen then dedupe_routes seen nps
      else np # dedupe_routes (seen @ [route_key np]) nps)"

definition direct_neighbors :: "qspn_state \<Rightarrow> (hcoord list, qspn_error) res" where
  "direct_neighbors s =
     fold_res (\<lambda>vnd (i, e).
       case ae_peer e of
         None \<Rightarrow> Ok vnd
       | Some peer \<Rightarrow>
           res_bind (map_err CommonError (hcoord_of (st_naddr s) peer)) (\<lambda>v_opt.
           Ok (case v_opt of None \<Rightarrow> vnd | Some v \<Rightarrow> push_new v vnd))) [] (st_arcs s)"

definition tolerance_for :: "qspn_state \<Rightarrow> hcoord \<Rightarrow> (real, qspn_error) res" where
  "tolerance_for s d =
     (let cfg = st_config s in
      case destination_at s (hc_level d) (hc_pos d) of
        None \<Rightarrow> Ok (max_common_hops_ratio cfg)
      | Some dest_entry \<Rightarrow>
          res_bind (map_err CommonError (dest_evaluate dest_entry (arc_cost s))) (\<lambda>(_, size_d, _).
          res_bind (exposed_paths s d) (\<lambda>exposed.
          let avail_arcs = foldl (\<lambda>arcs p. push_new (np_arc p) arcs) [] exposed in
          Ok (mch_ratio (max_common_hops_ratio cfg) (cfg_mch_ratio_table cfg) size_d
                (unat (of_nat (length avail_arcs) :: u32))))))"

subsection \<open>Disjoint-path admission\<close>

record overlap_env =
  oe_weights :: overlap_weights
  oe_sizes :: "(hcoord, u32) hash_map"
  oe_dest_size :: "u32 option"
  oe_mch :: real

definition hop_weight :: "overlap_env \<Rightarrow> hcoord \<Rightarrow> real" where
  "hop_weight env g =
     (let nn = (case map_of (oe_sizes env) g of None \<Rightarrow> 0 | Some n \<Rightarrow> n) in
      of_int \<lfloor>intermediate_coeff (oe_weights env) * sqrt (real (unat nn))\<rfloor>)"

definition shared_weight :: "real \<Rightarrow> node_path \<Rightarrow> hcoord \<Rightarrow> arc_id \<Rightarrow> arc_id \<Rightarrow> real" where
  "shared_weight n_nodes p1 g2 arc_in_g2 arc_out_g2 =
     (if g2 \<in> set (np_hops p1) then
        if arc_in_g2 \<in> set (np_arcs p1) then
          if arc_out_g2 \<in> set (np_arcs p1) then n_nodes else of_int \<lceil>1/2 * n_nodes\<rceil>
        else if arc_out_g2 \<in> set (np_arcs p1) then of_int \<lceil>1/2 * n_nodes\<rceil> else 0
      else 0)"

fun overlap_hops ::
  "overlap_env \<Rightarrow> node_path \<Rightarrow> node_path \<Rightarrow> usize list \<Rightarrow> (real \<times> real, qspn_error) res" where
  "overlap_hops env p1 p2 [] = Ok (0, 0)"
| "overlap_hops env p1 p2 (g2_i # is) =
     res_bind (index (np_hops p2) g2_i) (\<lambda>g2.
     res_bind (index (np_arcs p2) g2_i) (\<lambda>arc_in_g2.
     res_bind (index (np_arcs p2) (g2_i + 1)) (\<lambda>arc_out_g2.
     res_bind (overlap_hops env p1 p2 is) (\<lambda>(total, common).
     let n_nodes = hop_weight env g2 in
     Ok (n_nodes + total, shared_weight n_nodes p1 g2 arc_in_g2 arc_out_g2 + common)))))"

definition overlap_dest :: "overlap_env \<Rightarrow> node_path \<Rightarrow> node_path \<Rightarrow> (real \<times> real, qspn_error) res" where
  "overlap_dest env p1 p2 =
     (case oe_dest_size env of
        None \<Rightarrow> Ok (0, 0)
      | Some nn_d \<Rightarrow>
          (let n0 = of_int \<lfloor>destination_coeff (oe_weights env) * sqrt (real (unat nn_d))\<rfloor>;
               n_nodes = (if n0 > 0 then n0 - destination_offset (oe_weights env) else n0) in
           if n_nodes > 0 then
             res_bind (index (np_arcs p2) (length (np_hops p2) - 1)) (\<lambda>arc_in_d.
             Ok (n_nodes, if arc_in_d \<in> set (np_arcs p1) then n_nodes else 0))
           else Ok (0, 0)))"

definition overlaps_too_much :: "overlap_env \<Rightarrow> node_path \<Rightarrow> node_path \<Rightarrow> (bool, qspn_error) res" where
  "overlaps_too_much env p1 p2 =
     res_bind (overlap_hops env p1 p2 [0..<length (np_hops p2) - 1]) (\<lambda>(t1, c1).
     res_bind (overlap_dest env p1 p2) (\<lambda>(t2, c2).
     Ok (t1 + t2 > 0 \<and> (c1 + c2) / (t1 + t2) > oe_mch env)))"

fun disjoint_enough :: "overlap_env \<Rightarrow> node_path \<Rightarrow> node_path list \<Rightarrow> (bool, qspn_error) res" where
  "disjoint_enough env p1 [] = Ok True"
| "disjoint_enough env p1 (p2 # rd) =
     res_bind (overlaps_too_much env p1 p2) (\<lambda>bad. if bad then Ok False else disjoint_enough env p1 rd)"

record admission =
  ad_fd :: "fp list"
  ad_vnd :: "hcoord list"
  ad_z1d :: "hcoord list"
  ad_rd :: "node_path list"

definition cover :: "node_path \<Rightarrow> admission \<Rightarrow> bool \<times> admission" where
  "cover p1 a =
     (let new_fp = \<not> list_ex (\<lambda>f. identity_eq f (np_fp p1)) (ad_fd a);
          vnd' = filter (\<lambda>g. g \<in> set (np_hops p1)) (ad_vnd a);
          z1d' = filter (\<lambda>g. g \<notin> set (np_hops p1)) (ad_z1d a)
      in (new_fp \<or> vnd' \<noteq> ad_vnd a \<or> z1d' \<noteq> ad_z1d a,
          a\<lparr>ad_fd := if new_fp then ad_fd a @ [np_fp p1] else ad_fd a, ad_vnd := vnd', ad_z1d := z1d'\<rparr>))"

fun admit :: "usize \<Rightarrow> overlap_env \<Rightarrow> admission \<Rightarrow> node_path list \<Rightarrow> (node_path list, qspn_error) res" where
  "admit max_p env a [] = Ok (ad_rd a)"
| "admit max_p env a (p1 # od) =
     (if is_dead (ep_cost (np_path p1)) then Ok (ad_rd a)
      else
      let (mandatory, a') = cover p1 a in
      if mandatory then
        admit max_p env
          (if length (ad_rd a') < max_p * MANDATORY_PATH_FACTOR then a'\<lparr>ad_rd := ad_rd a' @ [p1]\<rparr> else a') od
      else if max_p \<le> length (ad_rd a') then admit max_p env a' od
      else
        res_bind (disjoint_enough env p1 (ad_rd a')) (\<lambda>insert.
        admit max_p env (if insert then a'\<lparr>ad_rd := ad_rd a' @ [p1]\<rparr> else a') od))"


subsection \<open>Exposure, events, forwarded paths\<close>

text \<open>The winner the exposure flags are compared with: \<open>valid_fp_d\<close> and its size.\<close>

type_synonym winner = "(fp \<times> u32) option"

definition winner_of :: "hcoord \<Rightarrow> node_path list \<Rightarrow> (winner, qspn_error) res" where
  "winner_of d od =
     (if hc_level d = 0 then Ok None
      else res_bind (map_err CommonError (winning_fingerprint od)) (\<lambda>w.
        Ok (map_option (\<lambda>f. (f, case find (\<lambda>o'. identity_eq (np_fp o') f) od of
                               None \<Rightarrow> 0 | Some o' \<Rightarrow> np_nodes_inside o')) w)))"

definition in_winning_branch :: "winner \<Rightarrow> node_path \<Rightarrow> (bool, qspn_error) res" where
  "in_winning_branch w p =
     res_bind (expect w) (\<lambda>(f, nn). Ok (same_branch (np_fp p) f (np_nodes_inside p) nn))"

record phase_out =
  ph_events :: "qspn_event list"
  ph_paths :: "etp_path list"

definition phase_nil :: phase_out where "phase_nil = \<lparr>ph_events = [], ph_paths = []\<rparr>"

definition phase_cons :: "qspn_event list \<Rightarrow> etp_path list \<Rightarrow> phase_out \<Rightarrow> phase_out" where
  "phase_cons evs ps o' = \<lparr>ph_events = evs @ ph_events o', ph_paths = ps @ ph_paths o'\<rparr>"

fun announce_new ::
  "(arc_id \<Rightarrow> cost) \<Rightarrow> hcoord \<Rightarrow> winner \<Rightarrow> node_path list \<Rightarrow> node_path list
    \<Rightarrow> (node_path list \<times> phase_out, qspn_error) res" where
  "announce_new ac d w md [] = Ok ([], phase_nil)"
| "announce_new ac d w md (p # od) =
     (if list_ex (\<lambda>m. hops_arcs_equal m (np_path p)) md then
        res_bind (announce_new ac d w md od) (\<lambda>(od', o'). Ok (p # od', o'))
      else
        let sent = prepare_for_sending p (ac (np_arc p));
            added = PathAdded (to_route_path p (ac (np_arc p))) in
        if hc_level d = 0 then
          res_bind (announce_new ac d w md od) (\<lambda>(od', o'). Ok (p # od', phase_cons [added] [sent] o'))
        else
          res_bind (in_winning_branch w p) (\<lambda>win.
          res_bind (announce_new ac d w md od) (\<lambda>(od', o').
          if win then Ok (p\<lparr>np_exposed := True\<rparr> # od', phase_cons [added] [sent] o')
          else Ok (p # od', phase_cons [] [sent] o'))))"

fun announce_known ::
  "(arc_id \<Rightarrow> cost) \<Rightarrow> hcoord \<Rightarrow> winner \<Rightarrow> node_path list \<Rightarrow> node_path list \<Rightarrow> node_path list
    \<Rightarrow> (node_path list \<times> phase_out, qspn_error) res" where
  "announce_known ac d w vd [] od = Ok (od, phase_nil)"
| "announce_known ac d w vd (p # md) od =
     (case position (\<lambda>o'. hops_arcs_equal o' (np_path p)) od of
        None \<Rightarrow>
          (let dead = (prepare_for_sending p (ac (np_arc p)))\<lparr>ep_cost := Dead\<rparr>;
               removed = (if hc_level d = 0 \<or> np_exposed p
                 then [PathRemoved (to_route_path p (ac (np_arc p)))] else []) in
           res_bind (announce_known ac d w vd md od) (\<lambda>(od', o'). Ok (od', phase_cons removed [dead] o')))
      | Some idx \<Rightarrow>
          if \<not> list_ex (\<lambda>v. hops_arcs_equal v (np_path p)) vd then announce_known ac d w vd md od
          else
            let cur = od ! idx;
                sent = prepare_for_sending cur (ac (np_arc cur));
                route = to_route_path cur (ac (np_arc cur)) in
            if hc_level d = 0 then
              res_bind (announce_known ac d w vd md od) (\<lambda>(od', o').
              Ok (od', phase_cons [PathChanged route] [sent] o'))
            else
              res_bind (in_winning_branch w p) (\<lambda>win.
              let od1 = (if win then od[idx := cur\<lparr>np_exposed := True\<rparr>] else od);
                  evs = (if np_exposed p
                    then (if win then [PathChanged route] else [PathRemoved (to_route_path p (ac (np_arc p)))])
                    else (if win then [PathAdded route] else [])) in
              res_bind (announce_known ac d w vd md od1) (\<lambda>(od', o').
              Ok (od', phase_cons evs [sent] o'))))"

definition commit_destination :: "hcoord \<Rightarrow> node_path list \<Rightarrow> qspn_state \<Rightarrow> qspn_state" where
  "commit_destination d od s =
     (let m = st_dests s ! hc_level d;
          m' = (if od = [] then hm_remove (hc_pos d) m
                else hm_insert (hc_pos d) \<lparr>dest_coord = d, dest_paths = od\<rparr> m)
      in s\<lparr>st_dests := (st_dests s)[hc_level d := m']\<rparr>)"

subsection \<open>The split check\<close>

definition eldest_branch_step :: "fp \<times> u32 \<Rightarrow> fp \<times> u32 \<Rightarrow> (fp \<times> u32, qspn_error) res" where
  "eldest_branch_step eldest cand =
     (case elder_seed (fst cand) (fst eldest) of
        Ok True \<Rightarrow> Ok cand
      | Ok False \<Rightarrow> Ok eldest
      | Err e \<Rightarrow> if e = IndistinguishableFingerprints then Ok eldest else Err (CommonError e)
      | Panic \<Rightarrow> Panic)"

definition cheapest_with :: "(arc_id \<Rightarrow> cost) \<Rightarrow> node_path list \<Rightarrow> fp \<times> u32 \<Rightarrow> (node_path, qspn_error) res" where
  "cheapest_with ac paths branch =
     expect (min_by_key (\<lambda>np. total_cost np (ac (np_arc np)))
       (filter (\<lambda>np. same_branch (np_fp np) (fst branch) (np_nodes_inside np) (snd branch)) paths))"

definition split_check ::
  "(arc_id \<Rightarrow> cost) \<Rightarrow> hcoord \<Rightarrow> (fp \<times> u32) list \<Rightarrow> qspn_state \<Rightarrow> (bool \<times> split_signal list, qspn_error) res" where
  "split_check ac d f1 s =
     (case destination_at s (hc_level d) (hc_pos d) of
        None \<Rightarrow> Ok (False, [])
      | Some dest_now \<Rightarrow>
          if hc_level d = 0 then Ok (False, [])
          else
          (case branches (dest_paths dest_now) of
             [] \<Rightarrow> Ok (False, [])
           | [_] \<Rightarrow> Ok (False, [])
           | b0 # rest \<Rightarrow>
               (let first_detection = list_ex (\<lambda>(fp, ni).
                    \<not> list_ex (\<lambda>(f, fni). same_branch f fp fni ni) f1) (b0 # rest) in
                res_bind (fold_res eldest_branch_step b0 rest) (\<lambda>eldest.
                res_bind (cheapest_with ac (dest_paths dest_now) eldest) (\<lambda>bp_eldest.
                res_bind (try_map (\<lambda>b. res_bind (cheapest_with ac (dest_paths dest_now) b) (\<lambda>bp.
                    Ok \<lparr>ss_destination = d, ss_fp_eldest = fst eldest, ss_fp = fst b,
                        ss_bp_eldest = bp_eldest, ss_bp = bp\<rparr>))
                  (filter (\<lambda>b. \<not> same_branch (fst b) (fst eldest) (snd b) (snd eldest)) (b0 # rest)))
                (\<lambda>signals. Ok (first_detection, signals)))))))"

subsection \<open>One destination\<close>

record one_dest_plan =
  pl_md :: "node_path list"
  pl_od :: "node_path list"
  pl_out :: phase_out

text \<open>Everything up to the commit: reads the state only.\<close>

definition admission_candidates ::
  "node_path list \<Rightarrow> node_path list \<Rightarrow> arc_id option \<Rightarrow> qspn_state
    \<Rightarrow> (node_path list \<times> node_path list \<times> (hcoord, u32) hash_map, qspn_error) res" where
  "admission_candidates md qd a_changed s =
     (let (od0, vd, rest) = merge_known (nodes_inside_tolerance (st_config s)) a_changed md qd;
          od1 = sort_key (\<lambda>np. total_cost np (arc_cost s (np_arc np))) (od0 @ rest)
      in res_bind (prune_unknown s od1) (\<lambda>(od2, sizes). Ok (dedupe_routes [] od2, vd, sizes)))"

definition admission_env :: "hcoord \<Rightarrow> (hcoord, u32) hash_map \<Rightarrow> qspn_state \<Rightarrow> (overlap_env, qspn_error) res" where
  "admission_env d sizes s =
     res_bind (tolerance_for s d) (\<lambda>mch.
     res_bind (if hc_level d = 0 then Ok None
       else case destination_at s (hc_level d) (hc_pos d) of
         None \<Rightarrow> Ok None
       | Some e \<Rightarrow> res_bind (map_err CommonError (dest_evaluate e (arc_cost s))) (\<lambda>(_, nn_d, _). Ok (Some nn_d)))
     (\<lambda>dest_size.
     Ok \<lparr>oe_weights = cfg_overlap_weights (st_config s), oe_sizes = sizes, oe_dest_size = dest_size, oe_mch = mch\<rparr>))"

definition plan_destination ::
  "node_path list \<Rightarrow> hcoord \<Rightarrow> arc_id option \<Rightarrow> hcoord list list \<Rightarrow> qspn_state \<Rightarrow> (one_dest_plan, qspn_error) res" where
  "plan_destination qd d a_changed z_set s =
     (let ac = arc_cost s in
      res_bind (index (st_dests s) (hc_level d)) (\<lambda>m.
      let md = (case map_of m (hc_pos d) of None \<Rightarrow> [] | Some dd \<Rightarrow> dest_paths dd) in
      res_bind (admission_candidates md qd a_changed s) (\<lambda>(od, vd, sizes).
      res_bind (direct_neighbors s) (\<lambda>vnd.
      res_bind (admission_env d sizes s) (\<lambda>env.
      res_bind (admit (max_paths (st_config s)) env
          \<lparr>ad_fd = [], ad_vnd = vnd, ad_z1d = concat (take (hc_level d) z_set), ad_rd = []\<rparr> od) (\<lambda>rd.
      res_bind (winner_of d rd) (\<lambda>w.
      res_bind (announce_new ac d w md rd) (\<lambda>(od1, out1).
      res_bind (announce_known ac d w vd md od1) (\<lambda>(od2, out2).
      let evs = ph_events out1 @ ph_events out2;
          evs = (if md = [] \<and> od2 \<noteq> [] then DestinationAdded d # evs else evs);
          evs = (if md \<noteq> [] \<and> od2 = [] then evs @ [DestinationRemoved d] else evs) in
      Ok \<lparr>pl_md = md, pl_od = od2,
          pl_out = \<lparr>ph_events = evs, ph_paths = ph_paths out1 @ ph_paths out2\<rparr>\<rparr>)))))))))"

definition update_map_one_destination ::
  "node_path list \<Rightarrow> hcoord \<Rightarrow> arc_id option \<Rightarrow> hcoord list list \<Rightarrow> (qspn_state, one_dest_outcome, qspn_error) st" where
  "update_map_one_destination qd d a_changed z_set s =
     st_bind (st_read (plan_destination qd d a_changed z_set)) (\<lambda>plan s1.
     let f1 = (if hc_level d > 0 then branches (pl_md plan) else []) in
     st_bind (st_put (commit_destination d (pl_od plan))) (\<lambda>_.
     st_bind (st_read (split_check (arc_cost s) d f1)) (\<lambda>(first, signals) s2.
     (Ok \<lparr>od_all_paths = ph_paths (pl_out plan), od_first_split = first,
          od_events = ph_events (pl_out plan), od_splits = signals\<rparr>, s2))) s1) s"

subsection \<open>All destinations\<close>

definition group_by_dest :: "node_path list \<Rightarrow> ((hcoord, node_path list) hash_map, qspn_error) res" where
  "group_by_dest q_set =
     fold_res (\<lambda>m np. if np_hops np = [] then Panic else Ok (hm_push (last (np_hops np)) np m)) [] q_set"

definition hops_in_level :: "(arc_id \<Rightarrow> cost) \<Rightarrow> (hcoord, node_path list) hash_map \<Rightarrow> hcoord \<Rightarrow> nat" where
  "hops_in_level ac q_by_dest d =
     (case map_of q_by_dest d of
        None \<Rightarrow> 0
      | Some qd \<Rightarrow> (case min_by_key (\<lambda>np. total_cost np (ac (np_arc np))) qd of
          None \<Rightarrow> 0
        | Some best \<Rightarrow> length (filter (\<lambda>h. hc_level h = hc_level d) (np_hops best))))"

fun update_map_loop ::
  "(hcoord, node_path list) hash_map \<Rightarrow> arc_id option \<Rightarrow> hcoord list list \<Rightarrow> hcoord list
    \<Rightarrow> update_map_outcome \<Rightarrow> (qspn_state, update_map_outcome, qspn_error) st" where
  "update_map_loop q_by_dest a_changed z_set [] acc s = (Ok acc, s)"
| "update_map_loop q_by_dest a_changed z_set (d # ds) acc s =
     st_bind (st_read (\<lambda>_. expect (map_of q_by_dest d))) (\<lambda>qd.
     st_bind (update_map_one_destination qd d a_changed z_set) (\<lambda>o'.
     update_map_loop q_by_dest a_changed z_set ds
       \<lparr>um_all_paths = um_all_paths acc @ od_all_paths o',
        um_b_set = (if od_first_split o' then push_new d (um_b_set acc) else um_b_set acc),
        um_events = um_events acc @ od_events o', um_splits = um_splits acc @ od_splits o'\<rparr>)) s"

definition update_map_start ::
  "(hcoord list \<Rightarrow> hcoord list) \<Rightarrow> node_path list \<Rightarrow> qspn_state
    \<Rightarrow> (hcoord list list \<times> (hcoord, node_path list) hash_map \<times> hcoord list, qspn_error) res" where
  "update_map_start ho q_set s =
     res_bind (try_map (my_gnode_neighbors s) [0..<levels_of s]) (\<lambda>z_set.
     res_bind (group_by_dest q_set) (\<lambda>q_by_dest.
     Ok (z_set, q_by_dest,
         sort_key (\<lambda>d. (hc_level d, hops_in_level (arc_cost s) q_by_dest d)) (ho (map fst q_by_dest)))))"

definition update_map ::
  "(hcoord list \<Rightarrow> hcoord list) \<Rightarrow> node_path list \<Rightarrow> arc_id option \<Rightarrow> (qspn_state, update_map_outcome, qspn_error) st" where
  "update_map ho q_set a_changed s =
     st_bind (st_read (update_map_start ho q_set)) (\<lambda>(z_set, q_by_dest, sorted_keys).
     update_map_loop q_by_dest a_changed z_set sorted_keys
       \<lparr>um_all_paths = [], um_b_set = [], um_events = [], um_splits = []\<rparr>) s"


subsection \<open>The merge\<close>

lemma hops_arcs_equal_route: "hops_arcs_equal a (np_path b) \<longleftrightarrow> route_key a = route_key b"
  by (auto simp: hops_arcs_equal_def route_key_def)

lemma merge_known_ConsE:
  assumes "merge_known tol ch (p1 # md) qd = (od, vd, rest)"
  obtains (unmatched) od' vd' where "\<forall>q \<in> set qd. route_key q \<noteq> route_key p1"
      "merge_known tol ch md qd = (od', vd', rest)" "od = p1 # od'" "set vd \<subseteq> insert p1 (set vd')"
  | (matched) idx od' vd' where "idx < length qd" "route_key (qd ! idx) = route_key p1"
      "merge_known tol ch md (remove_nth idx qd) = (od', vd', rest)"
      "od = (if path_changed tol p1 (qd ! idx) then qd ! idx else p1) # od'"
      "set vd \<subseteq> insert p1 (insert (qd ! idx) (set vd'))"
proof (cases "position (\<lambda>p_test. hops_arcs_equal p_test (np_path p1)) qd")
  case None
  obtain od' vd' rest' where m: "merge_known tol ch md qd = (od', vd', rest')" by (metis prod_cases3)
  have e: "od = p1 # od'" "set vd \<subseteq> insert p1 (set vd')" "rest' = rest"
    using assms unfolding merge_known.simps None by (auto simp: m split: if_splits)
  have "\<forall>q \<in> set qd. route_key q \<noteq> route_key p1"
    using None by (auto simp: hops_arcs_equal_route)
  from unmatched [OF this _ e(1,2)] m e(3) show ?thesis by simp
next
  case (Some idx)
  obtain od' vd' rest' where m: "merge_known tol ch md (remove_nth idx qd) = (od', vd', rest')"
    by (metis prod_cases3)
  have "od = (if path_changed tol p1 (qd ! idx) then qd ! idx else p1) # od'" "rest = rest'"
    "set vd \<subseteq> insert p1 (insert (qd ! idx) (set vd'))"
    using assms unfolding merge_known.simps Some by (auto simp: m Let_def split: if_splits)
  moreover have "idx < length qd" "route_key (qd ! idx) = route_key p1"
    using position_SomeD [OF Some] unfolding hops_arcs_equal_route by blast+
  ultimately show ?thesis using matched [of idx od' vd'] m by blast
qed

lemma remove_nth_subset: "x \<in> set (remove_nth i xs) \<Longrightarrow> x \<in> set xs"
  by (rule subsetD [OF set_remove_nth])

lemma merge_known_origin:
  assumes "merge_known tol ch md qd = (od, vd, rest)"
  shows "set od \<union> set vd \<union> set rest \<subseteq> set md \<union> set qd"
  using assms
proof (induction md arbitrary: qd od vd rest)
  case Nil
  then show ?case by simp
next
  case (Cons p1 md)
  from Cons.prems show ?case
  proof (cases rule: merge_known_ConsE)
    case (unmatched od' vd')
    with Cons.IH [OF unmatched(2)] show ?thesis by auto
  next
    case (matched idx od' vd')
    with Cons.IH [OF matched(3)] show ?thesis by (fastforce dest: remove_nth_subset)
  qed
qed

text \<open>Silence turned into a dead candidate: a stored route whose only candidates are dead leaves the
  merge dead.\<close>

lemma merge_known_withdraws:
  assumes "merge_known tol ch md qd = (od, vd, rest)" "distinct (map route_key md)"
    and "\<forall>p \<in> set md. ep_cost (np_path p) \<noteq> Dead"
    and "\<forall>q \<in> set qd. route_key q = r \<longrightarrow> ep_cost (np_path q) = Dead"
    and "\<exists>q \<in> set qd. route_key q = r"
    and "p \<in> set od \<union> set rest" "route_key p = r"
  shows "ep_cost (np_path p) = Dead"
  using assms
proof (induction md arbitrary: qd od vd rest)
  case Nil
  then show ?case by simp
next
  case (Cons p1 md)
  from Cons.prems(1) show ?case
  proof (cases rule: merge_known_ConsE)
    case (unmatched od' vd')
    then have "p \<in> set od' \<union> set rest" using Cons.prems(5-7) by auto
    with Cons.IH [OF unmatched(2)] Cons.prems show ?thesis by auto
  next
    case (matched idx od' vd')
    let ?q = "qd ! idx" and ?qd = "remove_nth idx qd"
    have q: "?q \<in> set qd" using matched(1) by simp
    show ?thesis
    proof (cases "route_key p1 = r")
      case True
      then have dead: "ep_cost (np_path ?q) = Dead" using q matched(2) Cons.prems(4) by simp
      then have "path_changed tol p1 ?q"
        using Cons.prems(3) by (auto simp: path_changed_def important_variation_def)
      moreover have "ep_cost (np_path p) = Dead" if "p \<in> set od' \<union> set rest"
      proof -
        have "p \<in> set md \<union> set ?qd" using merge_known_origin [OF matched(3)] that by auto
        moreover have "p \<notin> set md" using Cons.prems(2,7) True by force
        ultimately show ?thesis using Cons.prems(4,7) by (auto dest: remove_nth_subset)
      qed
      ultimately show ?thesis using Cons.prems(6) matched(4) dead by auto
    next
      case False
      have "\<exists>q \<in> set ?qd. route_key q = r"
        using Cons.prems(5) set_remove_nth_insert [OF matched(1)] matched(2) False by (metis insert_iff)
      moreover have "p \<in> set od' \<union> set rest"
        using Cons.prems(6,7) matched(2,4) False by (auto split: if_splits)
      ultimately show ?thesis
        using Cons.IH [OF matched(3)] Cons.prems by (auto dest: remove_nth_subset)
    qed
  qed
qed

subsection \<open>Pruning and deduplication\<close>

definition known_hops :: "qspn_state \<Rightarrow> node_path \<Rightarrow> bool" where
  "known_hops s np \<longleftrightarrow> (\<forall>h \<in> set (butlast (np_hops np)). destination_at s (hc_level h) (hc_pos h) \<noteq> None)"

lemma intermediate_sizes_total:
  assumes "wf_state s" "\<forall>h \<in> set hs. hc_level h < levels_of s"
  shows "\<exists>sizes'. intermediate_sizes s hs sizes =
     Ok (\<forall>h \<in> set hs. destination_at s (hc_level h) (hc_pos h) \<noteq> None, sizes')"
  using assms(2)
proof (induction hs arbitrary: sizes)
  case Nil
  then show ?case by simp
next
  case (Cons h hs)
  then have l: "hc_level h < length (st_dests s)" using wf_statesD(7) [OF assms(1)] by simp
  show ?case
  proof (cases "map_of (st_dests s ! hc_level h) (hc_pos h)")
    case None
    then show ?thesis using l by (simp add: destination_at_def)
  next
    case (Some d)
    then have at: "destination_at s (hc_level h) (hc_pos h) = Some d" using l by (simp add: destination_at_def)
    obtain f nn i where ev: "dest_evaluate d (arc_cost s) = Ok (f, nn, i)"
      using wf_dest_evaluate [OF wf_destination_at(2) [OF assms(1) at], of "arc_cost s"] by metis
    show ?thesis using Cons Some l at ev by auto
  qed
qed

lemma prune_unknown_total:
  assumes "wf_state s" "\<forall>np \<in> set od. wf_path (levels_of s) (np_path np)"
  shows "\<exists>sizes. prune_unknown s od = Ok (filter (known_hops s) od, sizes)"
proof -
  let ?f = "\<lambda>(kept, sizes) np. res_bind (intermediate_sizes s (butlast (np_hops np)) sizes) (\<lambda>(known, sizes').
       Ok (if known then kept @ [np] else kept, sizes'))"
  have "\<exists>sizes'. fold_res ?f (kept, sizes) od = Ok (kept @ filter (known_hops s) od, sizes')" for kept sizes
    using assms(2)
  proof (induction od arbitrary: kept sizes)
    case Nil
    then show ?case by simp
  next
    case (Cons np od)
    have "\<forall>h \<in> set (butlast (np_hops np)). hc_level h < levels_of s"
      using Cons.prems by (auto simp: wf_path_def dest: in_set_butlastD)
    from intermediate_sizes_total [OF assms(1) this, of sizes] obtain sizes'
      where "intermediate_sizes s (butlast (np_hops np)) sizes = Ok (known_hops s np, sizes')"
      unfolding known_hops_def by blast
    moreover have "\<exists>sizes''. fold_res ?f (if known_hops s np then kept @ [np] else kept, sizes') od =
        Ok ((if known_hops s np then kept @ [np] else kept) @ filter (known_hops s) od, sizes'')"
      using Cons.prems by (intro Cons.IH) simp
    ultimately show ?case by (cases "known_hops s np") simp_all
  qed
  from this [of "[]" "[]"] show ?thesis by (simp add: prune_unknown_def)
qed

lemma dedupe_routes_spec:
  "distinct (map route_key (dedupe_routes seen nps)) \<and>
   set (dedupe_routes seen nps) \<subseteq> {np \<in> set nps. route_key np \<notin> set seen} \<and>
   route_key ` set (dedupe_routes seen nps) = route_key ` set nps - set seen"
proof (induction nps arbitrary: seen)
  case Nil
  then show ?case by simp
next
  case (Cons np nps)
  show ?case
  proof (cases "route_key np \<in> set seen")
    case True
    with Cons.IH [of seen] show ?thesis by auto
  next
    case False
    with Cons.IH [of "seen @ [route_key np]"] show ?thesis by auto
  qed
qed


subsection \<open>Admission\<close>

definition arcs_match :: "node_path \<Rightarrow> bool" where
  "arcs_match np \<longleftrightarrow> np_hops np \<noteq> [] \<and> length (np_arcs np) = length (np_hops np)"

lemma overlap_hops_total:
  assumes "arcs_match p2" "\<forall>i \<in> set is. i + 1 < length (np_hops p2)"
  shows "\<exists>t c. overlap_hops env p1 p2 is = Ok (t, c)"
  using assms by (induction "is") (auto simp: arcs_match_def Let_def)

lemma overlaps_too_much_total:
  assumes "arcs_match p2"
  shows "\<exists>b. overlaps_too_much env p1 p2 = Ok b"
proof -
  obtain t c where "overlap_hops env p1 p2 [0..<length (np_hops p2) - 1] = Ok (t, c)"
    using overlap_hops_total [OF assms, of "[0..<length (np_hops p2) - 1]" env p1]
    by (metis add.commute atLeastLessThan_iff less_diff_conv plus_1_eq_Suc set_upt)
  moreover have "\<exists>t c. overlap_dest env p1 p2 = Ok (t, c)"
    using assms by (auto simp: overlap_dest_def arcs_match_def Let_def split: option.splits)
  ultimately show ?thesis by (auto simp: overlaps_too_much_def)
qed

lemma disjoint_enough_total:
  assumes "\<forall>p \<in> set rd. arcs_match p"
  shows "\<exists>b. disjoint_enough env p1 rd = Ok b"
  using assms
proof (induction rd)
  case Nil
  then show ?case by (simp add: exI [of _ True])
next
  case (Cons p2 rd)
  then obtain b where "overlaps_too_much env p1 p2 = Ok b"
    using overlaps_too_much_total [of p2 env p1] by auto
  with Cons show ?case by (cases b) auto
qed

lemma cover_rd [simp]: "cover p a = (b, a') \<Longrightarrow> ad_rd a' = ad_rd a"
  by (auto simp: cover_def Let_def)

lemma subseq_set: "subseq xs ys \<Longrightarrow> set xs \<subseteq> set ys"
  by (auto elim: list_emb_set)

lemma subseq_distinct: "subseq xs ys \<Longrightarrow> distinct ys \<Longrightarrow> distinct xs"
  by (auto simp: subseq_conv_nths)

text \<open>What an admission step does to the admitted list.\<close>

lemma admit_Cons:
  assumes "\<not> is_dead (ep_cost (np_path p1))" "\<forall>p \<in> set (ad_rd a). arcs_match p"
  obtains a' where "admit max_p env a (p1 # od) = admit max_p env a' od"
    "ad_rd a' = ad_rd a \<or> ad_rd a' = ad_rd a @ [p1] \<and> length (ad_rd a) < max_p * MANDATORY_PATH_FACTOR"
    "fst (cover p1 a) \<Longrightarrow> length (ad_rd a) < max_p * MANDATORY_PATH_FACTOR \<Longrightarrow> ad_rd a' = ad_rd a @ [p1]"
proof -
  obtain m a1 where c: "cover p1 a = (m, a1)" by (cases "cover p1 a")
  then have rd: "ad_rd a1 = ad_rd a" by simp
  have f: "max_p \<le> max_p * MANDATORY_PATH_FACTOR" by (simp add: MANDATORY_PATH_FACTOR_def)
  consider (mand) "m" | (full) "\<not> m" "max_p \<le> length (ad_rd a)" | (room) "\<not> m" "length (ad_rd a) < max_p"
    by linarith
  then show ?thesis
  proof cases
    case mand
    then show ?thesis
      using that [of "if length (ad_rd a1) < max_p * MANDATORY_PATH_FACTOR then a1\<lparr>ad_rd := ad_rd a1 @ [p1]\<rparr> else a1"]
        assms(1) c rd by (simp split: if_splits)
  next
    case full
    then show ?thesis using that [of a1] assms(1) c rd by simp
  next
    case room
    obtain b where "disjoint_enough env p1 (ad_rd a1) = Ok b"
      using disjoint_enough_total assms(2) rd by metis
    then show ?thesis
      using that [of "if b then a1\<lparr>ad_rd := ad_rd a1 @ [p1]\<rparr> else a1"] room assms(1) c rd f
      by (simp split: if_splits)
  qed
qed

lemma admit_spec:
  assumes "\<forall>p \<in> set od \<union> set (ad_rd a). arcs_match p" "length (ad_rd a) \<le> max_p * MANDATORY_PATH_FACTOR"
  shows "\<exists>xs. admit max_p env a od = Ok (ad_rd a @ xs) \<and> subseq xs od \<and>
     (\<forall>p \<in> set xs. ep_cost (np_path p) \<noteq> Dead) \<and> length (ad_rd a @ xs) \<le> max_p * MANDATORY_PATH_FACTOR"
  using assms
proof (induction od arbitrary: a)
  case Nil
  then show ?case by simp
next
  case (Cons p1 od)
  show ?case
  proof (cases "is_dead (ep_cost (np_path p1))")
    case True
    then show ?thesis using Cons.prems by (intro exI [of _ "[]"]) simp
  next
    case False
    have m: "\<forall>p \<in> set (ad_rd a). arcs_match p" using Cons.prems by simp
    obtain a' where a': "admit max_p env a (p1 # od) = admit max_p env a' od"
      "ad_rd a' = ad_rd a \<or> ad_rd a' = ad_rd a @ [p1] \<and> length (ad_rd a) < max_p * MANDATORY_PATH_FACTOR"
      using admit_Cons [OF False m] by metis
    then have "\<forall>p \<in> set od \<union> set (ad_rd a'). arcs_match p" "length (ad_rd a') \<le> max_p * MANDATORY_PATH_FACTOR"
      using Cons.prems by auto
    then obtain xs where xs: "admit max_p env a' od = Ok (ad_rd a' @ xs)" "subseq xs od"
      "\<forall>p \<in> set xs. ep_cost (np_path p) \<noteq> Dead" "length (ad_rd a' @ xs) \<le> max_p * MANDATORY_PATH_FACTOR"
      using Cons.IH by blast
    have alive: "ep_cost (np_path p1) \<noteq> Dead" using False by simp
    show ?thesis
      using a'(2)
    proof
      assume "ad_rd a' = ad_rd a"
      then show ?thesis using a'(1) xs by (intro exI [of _ xs]) auto
    next
      assume "ad_rd a' = ad_rd a @ [p1] \<and> length (ad_rd a) < max_p * MANDATORY_PATH_FACTOR"
      then show ?thesis using a'(1) xs alive by (intro exI [of _ "p1 # xs"]) auto
    qed
  qed
qed

text \<open>The cheapest live candidate is always admitted: its fingerprint is the first one seen.\<close>

lemma admit_first:
  assumes "\<forall>p \<in> set (p1 # od). arcs_match p" "ep_cost (np_path p1) \<noteq> Dead" "0 < max_p"
    and "ad_fd a = []" "ad_rd a = []"
  shows "\<exists>xs. admit max_p env a (p1 # od) = Ok (p1 # xs)"
proof -
  have live: "\<not> is_dead (ep_cost (np_path p1))" using assms(2) by simp
  have "fst (cover p1 a)" using assms(4) by (simp add: cover_def Let_def)
  moreover have "length (ad_rd a) < max_p * MANDATORY_PATH_FACTOR"
    using assms(3,5) by (simp add: MANDATORY_PATH_FACTOR_def)
  ultimately obtain a' where a': "admit max_p env a (p1 # od) = admit max_p env a' od"
    "ad_rd a' = [p1]"
    using admit_Cons [OF live, of a max_p env od] assms(5) by (metis append_Nil empty_iff empty_set)
  then show ?thesis
    using admit_spec [of od a' max_p env] assms(1,3) by (auto simp: MANDATORY_PATH_FACTOR_def)
qed


subsection \<open>Exposure flags and forwarded paths\<close>

text \<open>A path up to its exposure flag.\<close>

definition hide :: "node_path \<Rightarrow> node_path" where
  "hide np = np\<lparr>np_exposed := False\<rparr>"

lemma hide_expose [simp]: "hide (np\<lparr>np_exposed := b\<rparr>) = hide np"
  by (simp add: hide_def)

lemma hide_cong:
  assumes "hide p = hide q"
  shows "np_path p = np_path q" "np_arc p = np_arc q" "route_key p = route_key q"
    "prepare_for_sending p c = prepare_for_sending q c" "wf_stored l arcs d p = wf_stored l arcs d q"
    "arcs_match p = arcs_match q"
proof -
  show "np_path p = np_path q" "np_arc p = np_arc q"
    using assms unfolding hide_def
    by (metis node_path.select_convs(2) node_path.surjective node_path.update_convs(3),
        metis node_path.select_convs(1) node_path.surjective node_path.update_convs(3))
  then show "route_key p = route_key q" "prepare_for_sending p c = prepare_for_sending q c"
    "wf_stored l arcs d p = wf_stored l arcs d q" "arcs_match p = arcs_match q"
    by (simp_all add: route_key_def prepare_for_sending_def total_cost_def wf_stored_def wf_node_path_def
        arcs_match_def)
qed

lemma hide_map_keys:
  assumes "map hide xs = map hide ys"
  shows "map route_key xs = map route_key ys"
proof -
  have "route_key (hide p) = route_key p" for p by (simp add: route_key_def hide_def)
  then have "map route_key zs = map route_key (map hide zs)" for zs by (simp add: comp_def)
  from this [of xs] this [of ys] show ?thesis unfolding assms by simp
qed

lemma hide_map_mem:
  assumes "map hide xs = map hide ys" "x \<in> set xs"
  shows "\<exists>y \<in> set ys. hide x = hide y"
proof -
  have "hide x \<in> set (map hide xs)" using assms(2) by simp
  then have "hide x \<in> hide ` set ys" unfolding assms(1) by simp
  then show ?thesis by blast
qed

lemma hide_map_wf_paths:
  assumes "map hide xs = map hide ys" "wf_paths l arcs d ys"
  shows "wf_paths l arcs d xs"
proof -
  have "wf_stored l arcs d x" if "x \<in> set xs" for x
  proof -
    from hide_map_mem [OF assms(1) that] obtain y where "y \<in> set ys" "hide x = hide y" by blast
    then show ?thesis using assms(2) hide_cong(5) [of x y] by (simp add: wf_paths_def)
  qed
  then show ?thesis using hide_map_keys [OF assms(1)] assms(2) by (simp add: wf_paths_def)
qed

fun path_event :: "qspn_event \<Rightarrow> bool" where
  "path_event (PathAdded _) = True"
| "path_event (PathChanged _) = True"
| "path_event (PathRemoved _) = True"
| "path_event _ = False"

lemma phase_sel [simp]:
  "ph_events phase_nil = []" "ph_paths phase_nil = []"
  "ph_events (phase_cons a b o') = a @ ph_events o'" "ph_paths (phase_cons a b o') = b @ ph_paths o'"
  by (simp_all add: phase_nil_def phase_cons_def)

lemma in_winning_branch_Some: "w \<noteq> None \<Longrightarrow> \<exists>b. in_winning_branch w p = Ok b"
  by (cases w) (auto simp: in_winning_branch_def)

lemma announce_new_spec:
  assumes "hc_level d = 0 \<or> w \<noteq> None \<or> od = []"
  shows "\<exists>od' o'. announce_new ac d w md od = Ok (od', o') \<and> map hide od' = map hide od \<and>
     (\<forall>e \<in> set (ph_events o'). path_event e) \<and>
     (\<forall>p \<in> set od. route_key p \<notin> route_key ` set md \<longrightarrow> prepare_for_sending p (ac (np_arc p)) \<in> set (ph_paths o'))"
  using assms
proof (induction od)
  case Nil
  then show ?case by simp
next
  case (Cons p od)
  obtain od' o' where ih: "announce_new ac d w md od = Ok (od', o')" "map hide od' = map hide od"
    "\<forall>e \<in> set (ph_events o'). path_event e"
    "\<forall>p \<in> set od. route_key p \<notin> route_key ` set md \<longrightarrow> prepare_for_sending p (ac (np_arc p)) \<in> set (ph_paths o')"
    using Cons by auto
  have k: "list_ex (\<lambda>m. hops_arcs_equal m (np_path p)) md \<longleftrightarrow> route_key p \<in> route_key ` set md"
    by (auto simp: list_ex_iff hops_arcs_equal_route image_iff) metis+
  consider (known) "route_key p \<in> route_key ` set md" | (base) "route_key p \<notin> route_key ` set md" "hc_level d = 0"
    | (above) b where "route_key p \<notin> route_key ` set md" "hc_level d \<noteq> 0" "in_winning_branch w p = Ok b"
    using Cons.prems in_winning_branch_Some by fastforce
  then show ?case
  proof cases
    case known
    then show ?thesis using ih k by simp
  next
    case base
    then show ?thesis using ih k by (simp add: Let_def)
  next
    case above
    then show ?thesis using ih k by (cases b) (simp_all add: Let_def)
  qed
qed

lemma announce_known_spec:
  assumes "hc_level d = 0 \<or> w \<noteq> None \<or> od = []"
  shows "\<exists>od' o'. announce_known ac d w vd md od = Ok (od', o') \<and> map hide od' = map hide od \<and>
     (\<forall>e \<in> set (ph_events o'). path_event e) \<and>
     (\<forall>p \<in> set md. route_key p \<notin> route_key ` set od \<longrightarrow>
        (prepare_for_sending p (ac (np_arc p)))\<lparr>ep_cost := Dead\<rparr> \<in> set (ph_paths o'))"
  using assms
proof (induction md arbitrary: od)
  case Nil
  then show ?case by simp
next
  case (Cons p md)
  show ?case
  proof (cases "position (\<lambda>o'. hops_arcs_equal o' (np_path p)) od")
    case None
    obtain od' o' where "announce_known ac d w vd md od = Ok (od', o')" "map hide od' = map hide od"
      "\<forall>e \<in> set (ph_events o'). path_event e"
      "\<forall>p \<in> set md. route_key p \<notin> route_key ` set od \<longrightarrow>
         (prepare_for_sending p (ac (np_arc p)))\<lparr>ep_cost := Dead\<rparr> \<in> set (ph_paths o')"
      using Cons.IH [OF Cons.prems] by blast
    then show ?thesis
      unfolding announce_known.simps None option.case by (auto simp: Let_def)
  next
    case (Some idx)
    have idx0: "idx < length od" "route_key (od ! idx) = route_key p"
      using position_SomeD [OF Some] unfolding hops_arcs_equal_route by blast+
    then have idx: "idx < length od" "route_key p \<in> route_key ` set od"
      using imageI [OF nth_mem [OF idx0(1)], of route_key] by simp_all
    then have w: "hc_level d = 0 \<or> w \<noteq> None" using Cons.prems by auto
    let ?e = "od[idx := (od ! idx)\<lparr>np_exposed := True\<rparr>]"
    have h: "map hide ?e = map hide od" using idx by (simp add: map_update list_update_same_conv)
    then have ke: "route_key ` set ?e = route_key ` set od" using hide_map_keys by (metis list.set_map)
    have ih: "\<exists>od' o'. announce_known ac d w vd md x = Ok (od', o') \<and> map hide od' = map hide od \<and>
     (\<forall>e \<in> set (ph_events o'). path_event e) \<and>
     (\<forall>p \<in> set md. route_key p \<notin> route_key ` set od \<longrightarrow>
        (prepare_for_sending p (ac (np_arc p)))\<lparr>ep_cost := Dead\<rparr> \<in> set (ph_paths o'))" if "x = od \<or> x = ?e" for x
      using Cons.IH [of x] w that h ke by auto
    consider (same) "\<not> list_ex (\<lambda>v. hops_arcs_equal v (np_path p)) vd"
      | (base) "list_ex (\<lambda>v. hops_arcs_equal v (np_path p)) vd" "hc_level d = 0"
      | (above) b where "list_ex (\<lambda>v. hops_arcs_equal v (np_path p)) vd" "hc_level d \<noteq> 0" "in_winning_branch w p = Ok b"
      using w in_winning_branch_Some by metis
    then show ?thesis
    proof cases
      case same
      then show ?thesis using ih [of od] idx(2) unfolding announce_known.simps Some option.case by simp
    next
      case base
      then show ?thesis using ih [of od] idx(2) unfolding announce_known.simps Some option.case
        by (auto simp: Let_def)
    next
      case above
      then show ?thesis using ih [of "if b then ?e else od"] idx(2) unfolding announce_known.simps Some option.case
        by (cases b) (auto simp: Let_def)
    qed
  qed
qed

lemma winner_of_total:
  assumes "level_fps (hc_level d) od"
  obtains w where "winner_of d od = Ok w" "hc_level d = 0 \<or> w \<noteq> None \<or> od = []"
proof (cases "hc_level d = 0 \<or> od = []")
  case True
  then show ?thesis
    using that [of None] by (cases "hc_level d = 0") (auto simp: winner_of_def winning_fingerprint_def)
next
  case False
  then obtain f where "winning_fingerprint od = Ok (Some f)"
    using winning_fingerprint_total [OF assms] by auto
  then show ?thesis using that False by (simp add: winner_of_def)
qed


subsection \<open>The split check\<close>

lemma branches_origin:
  assumes "b \<in> set (branches ps)"
  shows "\<exists>p \<in> set ps. b = (np_fp p, np_nodes_inside p)"
proof -
  have "\<forall>b \<in> set (foldl add_branch fs ps). b \<in> set fs \<or> (\<exists>p \<in> set ps. b = (np_fp p, np_nodes_inside p))" for fs
    by (induction ps arbitrary: fs) (fastforce simp: add_branch_def split: if_splits)+
  from this [of "[]"] assms show ?thesis by (auto simp: branches_def)
qed

lemma branches_seeded:
  assumes "level_fps l ps" "0 < l" "b \<in> set (branches ps)"
  shows "seeded l (fst b)"
  using branches_origin [OF assms(3)] level_fps_seeded [OF assms(1,2)] by auto

lemma eldest_fold_total:
  assumes "seeded l (fst b)" "\<forall>c \<in> set bs. seeded l (fst c)"
  shows "\<exists>e \<in> insert b (set bs). fold_res eldest_branch_step b bs = Ok e"
  using assms
proof (induction bs arbitrary: b)
  case Nil
  then show ?case by simp
next
  case (Cons c bs)
  have "\<exists>e \<in> {b, c}. eldest_branch_step b c = Ok e"
    by (rule elder_seed_seeded_cases [of l "fst c" "fst b"]) (use Cons.prems in \<open>auto simp: eldest_branch_step_def\<close>)
  then obtain e where e: "e \<in> {b, c}" "eldest_branch_step b c = Ok e" by blast
  then have "seeded l (fst e)" using Cons.prems by auto
  with Cons.IH [of e] Cons.prems e show ?case by auto
qed

lemma cheapest_with_total:
  assumes "b \<in> set (branches ps)"
  shows "\<exists>p \<in> set ps. cheapest_with ac ps b = Ok p \<and>
     same_branch (np_fp p) (fst b) (np_nodes_inside p) (snd b)"
proof -
  let ?xs = "filter (\<lambda>np. same_branch (np_fp np) (fst b) (np_nodes_inside np) (snd b)) ps"
  obtain q where "q \<in> set ps" "b = (np_fp q, np_nodes_inside q)" using branches_origin [OF assms] by blast
  then have "q \<in> set ?xs" by simp
  then have "?xs \<noteq> []" by (metis empty_iff empty_set)
  then obtain p where p: "min_by_key (\<lambda>np. total_cost np (ac (np_arc np))) ?xs = Some p"
    using min_by_key_total by blast
  from min_by_key_SomeD [OF p] have "p \<in> set ?xs" by blast
  with p show ?thesis by (auto simp: cheapest_with_def)
qed

lemma split_check_total:
  assumes "\<And>dd. destination_at s (hc_level d) (hc_pos d) = Some dd \<Longrightarrow> level_fps (hc_level d) (dest_paths dd)"
  shows "\<exists>first sigs. split_check ac d f1 s = Ok (first, sigs) \<and>
     (\<forall>sig \<in> set sigs. \<exists>dd. destination_at s (hc_level d) (hc_pos d) = Some dd \<and> 0 < hc_level d \<and>
        ss_destination sig = d \<and> ss_bp sig \<in> set (dest_paths dd) \<and> ss_bp_eldest sig \<in> set (dest_paths dd) \<and>
        \<not> identity_eq (ss_fp sig) (ss_fp_eldest sig))"
proof (cases "destination_at s (hc_level d) (hc_pos d)")
  case None
  then show ?thesis by (intro exI [of _ False] exI [of _ "[]"]) (simp add: split_check_def)
next
  case (Some dd)
  show ?thesis
  proof (cases "hc_level d = 0 \<or> length (branches (dest_paths dd)) \<le> 1")
    case True
    then show ?thesis by (auto simp: split_check_def Some split: list.splits)
  next
    case False
    then obtain b0 b1 bs where bs: "branches (dest_paths dd) = b0 # b1 # bs"
      by (metis One_nat_def length_0_conv length_Cons less_or_eq_imp_le list.exhaust not_le zero_le)
    have l: "0 < hc_level d" using False by simp
    have sd: "\<forall>b \<in> set (branches (dest_paths dd)). seeded (hc_level d) (fst b)"
      using branches_seeded [OF assms l] Some by blast
    obtain e where e: "e \<in> set (branches (dest_paths dd))" "fold_res eldest_branch_step b0 (b1 # bs) = Ok e"
    proof -
      have "seeded (hc_level d) (fst b0)" "\<forall>c \<in> set (b1 # bs). seeded (hc_level d) (fst c)"
        using sd unfolding bs by simp_all
      from eldest_fold_total [OF this] that show ?thesis unfolding bs by (metis list.simps(15))
    qed
    obtain bp where bp: "cheapest_with ac (dest_paths dd) e = Ok bp" "bp \<in> set (dest_paths dd)"
      using cheapest_with_total [OF e(1)] by blast
    let ?g = "\<lambda>b. res_bind (cheapest_with ac (dest_paths dd) b) (\<lambda>bp'.
        Ok \<lparr>ss_destination = d, ss_fp_eldest = fst e, ss_fp = fst b, ss_bp_eldest = bp, ss_bp = bp'\<rparr>)"
    let ?others = "filter (\<lambda>b. \<not> same_branch (fst b) (fst e) (snd b) (snd e)) (b0 # b1 # bs)"
    have each: "\<exists>bp' \<in> set (dest_paths dd). ?g b =
        Ok \<lparr>ss_destination = d, ss_fp_eldest = fst e, ss_fp = fst b, ss_bp_eldest = bp, ss_bp = bp'\<rparr>"
      if "b \<in> set ?others" for b
    proof -
      have "b \<in> set (branches (dest_paths dd))" using that unfolding bs by (meson filter_is_subset subsetD)
      then obtain q where "q \<in> set (dest_paths dd)" "cheapest_with ac (dest_paths dd) b = Ok q"
        using cheapest_with_total by blast
      then show ?thesis by auto
    qed
    then obtain sigs where sigs: "try_map ?g ?others = Ok sigs" using try_map_total [of ?others ?g] by blast
    have "ss_destination sig = d \<and> ss_bp sig \<in> set (dest_paths dd) \<and> ss_bp_eldest sig \<in> set (dest_paths dd) \<and>
        \<not> identity_eq (ss_fp sig) (ss_fp_eldest sig)" if "sig \<in> set sigs" for sig
    proof -
      from try_map_set [OF sigs that] obtain b where b: "b \<in> set ?others" "?g b = Ok sig" by blast
      have "\<not> same_branch (fst b) (fst e) (snd b) (snd e)" using b(1) unfolding set_filter by blast
      then have "\<not> identity_eq (fst b) (fst e)" by (simp add: same_branch_def)
      then show ?thesis using each [OF b(1)] b(2) bp(2) by auto
    qed
    then show ?thesis
      using l e(2) bp(1) sigs by (auto simp: split_check_def Some bs Let_def)
  qed
qed


subsection \<open>The plan for one destination\<close>

lemma direct_neighbors_total:
  assumes "wf_state s"
  shows "\<exists>vnd. direct_neighbors s = Ok vnd"
proof -
  have "\<exists>y. (case ae_peer e of None \<Rightarrow> Ok vnd
       | Some peer \<Rightarrow> res_bind (map_err CommonError (hcoord_of (st_naddr s) peer)) (\<lambda>v_opt.
           Ok (case v_opt of None \<Rightarrow> vnd | Some v \<Rightarrow> push_new v vnd))) = Ok y"
    if "(i, e) \<in> set (st_arcs s)" for i e vnd
  proof (cases "ae_peer e")
    case (Some peer)
    with that wf_statesD(4) [OF assms] have "wf_peer (st_naddr s) peer" by (auto simp: wf_arcs_def)
    then have w: "wf_naddr peer" "naddr_topology (st_naddr s) = naddr_topology peer" by (auto simp: wf_peer_def)
    from wf_statesD(1) [OF assms] w obtain r where "hcoord_of (st_naddr s) peer = Ok r"
      by (rule hcoord_of_cases) blast+
    with Some show ?thesis by simp
  qed simp
  then show ?thesis
    using fold_res_total [of "\<lambda>_. True" "[]" "st_arcs s" "\<lambda>vnd (i, e). case ae_peer e of None \<Rightarrow> Ok vnd
       | Some peer \<Rightarrow> res_bind (map_err CommonError (hcoord_of (st_naddr s) peer)) (\<lambda>v_opt.
           Ok (case v_opt of None \<Rightarrow> vnd | Some v \<Rightarrow> push_new v vnd))"]
    by (fastforce simp: direct_neighbors_def)
qed

lemma dest_evaluate_known:
  assumes "wf_state s" "destination_at s l pos = Some d"
  shows "\<exists>f nn i. dest_evaluate d c = Ok (f, nn, i)"
  using wf_dest_evaluate [OF wf_destination_at(2) [OF assms], of c] by metis

lemma admission_env_total:
  assumes "wf_state s"
  shows "\<exists>env. admission_env d sizes s = Ok env"
proof (cases "destination_at s (hc_level d) (hc_pos d)")
  case None
  then show ?thesis by (simp add: admission_env_def tolerance_for_def Let_def)
next
  case (Some dd)
  obtain f nn i where ev: "dest_evaluate dd (arc_cost s) = Ok (f, nn, i)"
    using dest_evaluate_known [OF assms Some] by blast
  have "d = HCoord (hc_level d) (hc_pos d)" by simp
  then obtain ps where "exposed_paths s d = Ok ps" using exposed_paths_known [OF assms Some] by metis
  then show ?thesis using Some ev by (simp add: admission_env_def tolerance_for_def Let_def)
qed

text \<open>The arguments of the admission pass: well-formed candidates for \<open>d\<close> through known arcs.\<close>

definition candidates_ok :: "qspn_state \<Rightarrow> hcoord \<Rightarrow> node_path list \<Rightarrow> bool" where
  "candidates_ok s d qd \<longleftrightarrow>
     (\<forall>np \<in> set qd. wf_node_path (levels_of s) np \<and> last (np_hops np) = d \<and> np_arc np \<in> arc_ids s)"

definition stored_paths :: "qspn_state \<Rightarrow> hcoord \<Rightarrow> node_path list" where
  "stored_paths s d =
     (case destination_at s (hc_level d) (hc_pos d) of None \<Rightarrow> [] | Some dd \<Rightarrow> dest_paths dd)"

lemma stored_paths_wf:
  "wf_state s \<Longrightarrow> wf_paths (levels_of s) (arc_ids s) d (stored_paths s d)"
  using wf_destination_at(2) [of s "hc_level d" "hc_pos d"]
  by (auto simp: stored_paths_def wf_dest_def wf_paths_def split: option.splits)

lemma stored_paths_candidates_ok:
  assumes "wf_state s"
  shows "candidates_ok s d (stored_paths s d)"
  using stored_paths_wf [OF assms] by (simp add: candidates_ok_def wf_paths_def wf_stored_def)

lemma candidates_arcs_match: "candidates_ok s d qd \<Longrightarrow> p \<in> set qd \<Longrightarrow> arcs_match p"
  by (auto simp: candidates_ok_def arcs_match_def wf_node_path_def wf_path_def)

text \<open>The candidates that reach the admission loop, in the order it sees them.\<close>

lemma admission_candidates_spec:
  assumes "wf_state s" "candidates_ok s d qd"
  obtains od vd sizes od0 vd0 rest where
    "admission_candidates (stored_paths s d) qd ch s = Ok (od, vd, sizes)"
    "merge_known (nodes_inside_tolerance (st_config s)) ch (stored_paths s d) qd = (od0, vd0, rest)"
    "set od \<subseteq> {p \<in> set od0 \<union> set rest. known_hops s p}" "distinct (map route_key od)"
    "sorted (map (\<lambda>np. total_cost np (arc_cost s (np_arc np))) od)"
    "od = dedupe_routes [] (filter (known_hops s) (sort_key (\<lambda>np. total_cost np (arc_cost s (np_arc np))) (od0 @ rest)))"
    "candidates_ok s d od" "set od \<subseteq> set (stored_paths s d) \<union> set qd"
proof -
  let ?k = "\<lambda>np. total_cost np (arc_cost s (np_arc np))"
  obtain od0 vd rest where m: "merge_known (nodes_inside_tolerance (st_config s)) ch (stored_paths s d) qd = (od0, vd, rest)"
    by (metis prod_cases3)
  have sub: "set (od0 @ rest) \<subseteq> set (stored_paths s d) \<union> set qd"
    using merge_known_origin [OF m] by auto
  then have ok: "candidates_ok s d (od0 @ rest)"
    using assms(2) stored_paths_candidates_ok [OF assms(1), of d] unfolding candidates_ok_def by blast
  then have "\<forall>np \<in> set (sort_key ?k (od0 @ rest)). wf_path (levels_of s) (np_path np)"
    by (simp add: candidates_ok_def wf_node_path_def)
  then obtain sizes where p: "prune_unknown s (sort_key ?k (od0 @ rest)) =
      Ok (filter (known_hops s) (sort_key ?k (od0 @ rest)), sizes)"
    using prune_unknown_total [OF assms(1)] by blast
  let ?od = "dedupe_routes [] (filter (known_hops s) (sort_key ?k (od0 @ rest)))"
  note dd = dedupe_routes_spec [of "[]" "filter (known_hops s) (sort_key ?k (od0 @ rest))"]
  have srt: "sorted (map ?k (dedupe_routes seen xs))" if "sorted (map ?k xs)" for seen xs
    using that
  proof (induction xs arbitrary: seen)
    case (Cons x xs)
    then show ?case using dedupe_routes_spec [of "seen @ [route_key x]" xs] by auto
  qed simp
  have a: "sorted (map ?k ?od)" by (intro srt sorted_filter sorted_sort_key)
  have b: "candidates_ok s d ?od" using ok dd by (auto simp: candidates_ok_def)
  have c: "set ?od \<subseteq> {p \<in> set od0 \<union> set rest. known_hops s p}" using dd by auto
  have e: "admission_candidates (stored_paths s d) qd ch s = Ok (?od, vd, sizes)"
    using m p by (simp add: admission_candidates_def Let_def)
  have f: "distinct (map route_key ?od)" using dd by simp
  have g: "set ?od \<subseteq> set (stored_paths s d) \<union> set qd" using c sub by auto
  show ?thesis by (rule that [OF e m c f a refl b g])
qed


text \<open>What the plan for a destination promises, relative to the stored paths and the candidates.\<close>

definition plan_ok :: "qspn_state \<Rightarrow> hcoord \<Rightarrow> node_path list \<Rightarrow> one_dest_plan \<Rightarrow> bool" where
  "plan_ok s d qd plan \<longleftrightarrow>
     pl_md plan = stored_paths s d \<and>
     wf_paths (levels_of s) (arc_ids s) d (pl_od plan) \<and>
     length (pl_od plan) \<le> max_paths (st_config s) * MANDATORY_PATH_FACTOR \<and>
     (\<forall>p \<in> set (pl_od plan). known_hops s p \<and> (\<exists>q \<in> set (stored_paths s d) \<union> set qd. hide p = hide q)) \<and>
     (\<forall>p \<in> set (pl_od plan). route_key p \<notin> route_key ` set (stored_paths s d) \<longrightarrow>
        prepare_for_sending p (arc_cost s (np_arc p)) \<in> set (ph_paths (pl_out plan))) \<and>
     (\<forall>p \<in> set (stored_paths s d). route_key p \<notin> route_key ` set (pl_od plan) \<longrightarrow>
        (prepare_for_sending p (arc_cost s (np_arc p)))\<lparr>ep_cost := Dead\<rparr> \<in> set (ph_paths (pl_out plan))) \<and>
     (DestinationAdded d \<in> set (ph_events (pl_out plan)) \<longleftrightarrow> stored_paths s d = [] \<and> pl_od plan \<noteq> []) \<and>
     (DestinationRemoved d \<in> set (ph_events (pl_out plan)) \<longleftrightarrow> stored_paths s d \<noteq> [] \<and> pl_od plan = []) \<and>
     (\<forall>e \<in> set (ph_events (pl_out plan)). path_event e \<or> e = DestinationAdded d \<or> e = DestinationRemoved d)"

definition withdrawn :: "node_path list \<Rightarrow> hcoord list \<times> arc_id list \<Rightarrow> bool" where
  "withdrawn qd r \<longleftrightarrow> (\<exists>q \<in> set qd. route_key q = r) \<and>
     (\<forall>q \<in> set qd. route_key q = r \<longrightarrow> ep_cost (np_path q) = Dead)"

definition plan_of ::
  "hcoord \<Rightarrow> node_path list \<Rightarrow> node_path list \<Rightarrow> phase_out \<Rightarrow> phase_out \<Rightarrow> one_dest_plan" where
  "plan_of d md od2 out1 out2 =
     (let evs = ph_events out1 @ ph_events out2;
          evs = (if md = [] \<and> od2 \<noteq> [] then DestinationAdded d # evs else evs);
          evs = (if md \<noteq> [] \<and> od2 = [] then evs @ [DestinationRemoved d] else evs) in
      \<lparr>pl_md = md, pl_od = od2, pl_out = \<lparr>ph_events = evs, ph_paths = ph_paths out1 @ ph_paths out2\<rparr>\<rparr>)"

lemma plan_of_sel [simp]:
  "pl_md (plan_of d md od2 out1 out2) = md" "pl_od (plan_of d md od2 out1 out2) = od2"
  "ph_paths (pl_out (plan_of d md od2 out1 out2)) = ph_paths out1 @ ph_paths out2"
  by (simp_all add: plan_of_def Let_def)

lemma plan_okI:
  assumes wf_rd: "wf_paths (levels_of s) (arc_ids s) d rd"
    and len: "length rd \<le> max_paths (st_config s) * MANDATORY_PATH_FACTOR"
    and orig: "\<forall>p \<in> set rd. known_hops s p \<and> p \<in> set (stored_paths s d) \<union> set qd"
    and o1: "map hide od1 = map hide rd" "\<forall>e \<in> set (ph_events out1). path_event e"
      "\<forall>p \<in> set rd. route_key p \<notin> route_key ` set (stored_paths s d) \<longrightarrow>
         prepare_for_sending p (arc_cost s (np_arc p)) \<in> set (ph_paths out1)"
    and o2: "map hide od2 = map hide od1" "\<forall>e \<in> set (ph_events out2). path_event e"
      "\<forall>p \<in> set (stored_paths s d). route_key p \<notin> route_key ` set od1 \<longrightarrow>
         (prepare_for_sending p (arc_cost s (np_arc p)))\<lparr>ep_cost := Dead\<rparr> \<in> set (ph_paths out2)"
  shows "plan_ok s d qd (plan_of d (stored_paths s d) od2 out1 out2)" (is "plan_ok s d qd ?plan")
  unfolding plan_ok_def
proof (intro conjI ballI impI)
  have h: "map hide od2 = map hide rd" using o1(1) o2(1) by simp
  have pe: "\<not> path_event (DestinationAdded d)" "\<not> path_event (DestinationRemoved d)" by simp_all
  show "wf_paths (levels_of s) (arc_ids s) d (pl_od ?plan)" using hide_map_wf_paths [OF h wf_rd] by simp
  show "length (pl_od ?plan) \<le> max_paths (st_config s) * MANDATORY_PATH_FACTOR"
    using len arg_cong [OF h, of length] by simp
  show "DestinationAdded d \<in> set (ph_events (pl_out ?plan)) \<longleftrightarrow> stored_paths s d = [] \<and> pl_od ?plan \<noteq> []"
    using o1(2) o2(2) pe by (auto simp: plan_of_def Let_def)
  show "DestinationRemoved d \<in> set (ph_events (pl_out ?plan)) \<longleftrightarrow> stored_paths s d \<noteq> [] \<and> pl_od ?plan = []"
    using o1(2) o2(2) pe by (auto simp: plan_of_def Let_def)
  show "path_event e \<or> e = DestinationAdded d \<or> e = DestinationRemoved d"
    if "e \<in> set (ph_events (pl_out ?plan))" for e
    using that o1(2) o2(2) by (auto simp: plan_of_def Let_def split: if_splits)
  fix p assume "p \<in> set (pl_od ?plan)"
  then have "p \<in> set od2" by simp
  from hide_map_mem [OF h this] obtain q where q: "q \<in> set rd" "hide p = hide q" by blast
  then show "known_hops s p" using orig hide_cong(1) [OF q(2)] by (auto simp: known_hops_def)
  show "\<exists>q \<in> set (stored_paths s d) \<union> set qd. hide p = hide q" using q orig by blast
  assume "route_key p \<notin> route_key ` set (stored_paths s d)"
  then show "prepare_for_sending p (arc_cost s (np_arc p)) \<in> set (ph_paths (pl_out ?plan))"
    using o1(3) q hide_cong(2,3,4) [OF q(2)] by simp
next
  fix p assume "p \<in> set (stored_paths s d)" "route_key p \<notin> route_key ` set (pl_od ?plan)"
  moreover have "route_key ` set od2 = route_key ` set od1" using hide_map_keys [OF o2(1)] by (metis list.set_map)
  ultimately show "(prepare_for_sending p (arc_cost s (np_arc p)))\<lparr>ep_cost := Dead\<rparr> \<in> set (ph_paths (pl_out ?plan))"
    using o2(3) by simp
qed simp

lemma plan_destination_admits:
  assumes "wf_state s" "candidates_ok s d qd" "hc_level d < levels_of s"
  obtains plan od vd sizes env vnd rd where "plan_destination qd d ch z_set s = Ok plan"
    "admission_candidates (stored_paths s d) qd ch s = Ok (od, vd, sizes)"
    "admit (max_paths (st_config s)) env
       \<lparr>ad_fd = [], ad_vnd = vnd, ad_z1d = concat (take (hc_level d) z_set), ad_rd = []\<rparr> od = Ok rd"
    "map hide (pl_od plan) = map hide rd" "subseq rd od" "plan_ok s d qd plan"
    "\<forall>p \<in> set rd. ep_cost (np_path p) \<noteq> Dead"
proof -
  let ?md = "stored_paths s d" and ?max = "max_paths (st_config s)"
  obtain od vd sizes od0 vd0 rest where c: "admission_candidates ?md qd ch s = Ok (od, vd, sizes)"
    and "merge_known (nodes_inside_tolerance (st_config s)) ch ?md qd = (od0, vd0, rest)"
    and k: "set od \<subseteq> {p \<in> set od0 \<union> set rest. known_hops s p}" and dist: "distinct (map route_key od)"
    and "sorted (map (\<lambda>np. total_cost np (arc_cost s (np_arc np))) od)"
    and "od = dedupe_routes [] (filter (known_hops s) (sort_key (\<lambda>np. total_cost np (arc_cost s (np_arc np))) (od0 @ rest)))"
    and cok: "candidates_ok s d od" and orig: "set od \<subseteq> set ?md \<union> set qd"
    by (rule admission_candidates_spec [OF assms(1,2), of ch])
  have known: "\<forall>p \<in> set od. known_hops s p" using k by blast
  obtain vnd where vnd: "direct_neighbors s = Ok vnd" using direct_neighbors_total [OF assms(1)] by blast
  obtain env where env: "admission_env d sizes s = Ok env" using admission_env_total [OF assms(1)] by blast
  let ?a = "\<lparr>ad_fd = [], ad_vnd = vnd, ad_z1d = concat (take (hc_level d) z_set), ad_rd = []\<rparr>"
  have "\<forall>p \<in> set od \<union> set (ad_rd ?a). arcs_match p" using candidates_arcs_match [OF cok] by simp
  from admit_spec [OF this, of ?max env] obtain rd where rd: "admit ?max env ?a od = Ok rd" "subseq rd od"
    "\<forall>p \<in> set rd. ep_cost (np_path p) \<noteq> Dead" "length rd \<le> ?max * MANDATORY_PATH_FACTOR" by auto
  have sub: "set rd \<subseteq> set od" using rd(2) by (rule subseq_set)
  have wf_rd: "wf_paths (levels_of s) (arc_ids s) d rd"
  proof -
    have "subseq (map route_key rd) (map route_key od)" using rd(2) by (rule subseq_map)
    then have "distinct (map route_key rd)" using dist by (rule subseq_distinct)
    then show ?thesis using sub cok rd(3) by (auto simp: wf_paths_def wf_stored_def candidates_ok_def)
  qed
  obtain w where w: "winner_of d rd = Ok w" "hc_level d = 0 \<or> w \<noteq> None \<or> rd = []"
    using winner_of_total [OF wf_paths_level_fps [OF wf_rd]] .
  obtain od1 out1 where o1: "announce_new (arc_cost s) d w ?md rd = Ok (od1, out1)" "map hide od1 = map hide rd"
    "\<forall>e \<in> set (ph_events out1). path_event e"
    "\<forall>p \<in> set rd. route_key p \<notin> route_key ` set ?md \<longrightarrow>
       prepare_for_sending p (arc_cost s (np_arc p)) \<in> set (ph_paths out1)"
    using announce_new_spec [OF w(2)] by blast
  have "hc_level d = 0 \<or> w \<noteq> None \<or> od1 = []" using w(2) o1(2) by auto
  from announce_known_spec [OF this] obtain od2 out2 where
    o2: "announce_known (arc_cost s) d w vd ?md od1 = Ok (od2, out2)" "map hide od2 = map hide od1"
    "\<forall>e \<in> set (ph_events out2). path_event e"
    "\<forall>p \<in> set ?md. route_key p \<notin> route_key ` set od1 \<longrightarrow>
       (prepare_for_sending p (arc_cost s (np_arc p)))\<lparr>ep_cost := Dead\<rparr> \<in> set (ph_paths out2)" by blast
  let ?plan = "plan_of d ?md od2 out1 out2"
  have h: "map hide od2 = map hide rd" using o1(2) o2(2) by simp
  have md: "(case map_of (st_dests s ! hc_level d) (hc_pos d) of None \<Rightarrow> [] | Some dd \<Rightarrow> dest_paths dd) = ?md"
    "hc_level d < length (st_dests s)"
    using assms(1,3) by (auto simp: stored_paths_def destination_at_def wf_statesD(7))
  have plan: "plan_destination qd d ch z_set s = Ok ?plan"
    using c vnd env rd(1) w(1) o1(1) o2(1) md by (simp add: plan_destination_def plan_of_def Let_def)
  have "plan_ok s d qd ?plan"
    by (rule plan_okI [OF wf_rd rd(4) _ o1(2-4) o2(2-4)]) (use known sub orig in blast)
  then show ?thesis using that [OF plan c rd(1) _ rd(2)] h rd(3) by simp
qed


lemma plan_withdraws:
  assumes "wf_state s" "candidates_ok s d qd" "hc_level d < levels_of s"
    and "plan_destination qd d ch z_set s = Ok plan" "withdrawn qd r"
  shows "r \<notin> route_key ` set (pl_od plan)"
proof
  assume "r \<in> route_key ` set (pl_od plan)"
  obtain plan' od vd sizes env vnd rd where p: "plan_destination qd d ch z_set s = Ok plan'"
    "admission_candidates (stored_paths s d) qd ch s = Ok (od, vd, sizes)"
    "admit (max_paths (st_config s)) env
       \<lparr>ad_fd = [], ad_vnd = vnd, ad_z1d = concat (take (hc_level d) z_set), ad_rd = []\<rparr> od = Ok rd"
    "map hide (pl_od plan') = map hide rd" "subseq rd od" "plan_ok s d qd plan'"
    "\<forall>p \<in> set rd. ep_cost (np_path p) \<noteq> Dead"
    by (rule plan_destination_admits [OF assms(1-3), of ch z_set])
  then have "map hide (pl_od plan) = map hide rd" using assms(4) by simp
  then have "r \<in> route_key ` set rd"
    using \<open>r \<in> route_key ` set (pl_od plan)\<close> hide_map_keys by (metis list.set_map)
  then obtain q where q: "q \<in> set rd" "route_key q = r" by blast
  obtain od' vd' sizes' od0 vd0 rest where c: "admission_candidates (stored_paths s d) qd ch s = Ok (od', vd', sizes')"
    and m: "merge_known (nodes_inside_tolerance (st_config s)) ch (stored_paths s d) qd = (od0, vd0, rest)"
    and k: "set od' \<subseteq> {p \<in> set od0 \<union> set rest. known_hops s p}" and "distinct (map route_key od')"
    and "sorted (map (\<lambda>np. total_cost np (arc_cost s (np_arc np))) od')"
    and "od' = dedupe_routes [] (filter (known_hops s) (sort_key (\<lambda>np. total_cost np (arc_cost s (np_arc np))) (od0 @ rest)))"
    and "candidates_ok s d od'" and "set od' \<subseteq> set (stored_paths s d) \<union> set qd"
    by (rule admission_candidates_spec [OF assms(1,2), of ch])
  have md: "distinct (map route_key (stored_paths s d))" "\<forall>p \<in> set (stored_paths s d). ep_cost (np_path p) \<noteq> Dead"
    using stored_paths_wf [OF assms(1), of d] by (auto simp: wf_paths_def wf_stored_def)
  have "q \<in> set od" using q(1) subseq_set [OF p(5)] by blast
  then have "q \<in> set od0 \<union> set rest" using k c p(2) by auto
  then have "ep_cost (np_path q) = Dead"
    using merge_known_withdraws [OF m md, of r q] assms(5) q(2) by (auto simp: withdrawn_def)
  with p(7) q(1) show False by blast
qed

lemma merge_known_keeps:
  assumes "merge_known tol ch md qd = (od, vd, rest)" "q \<in> set qd"
  shows "\<exists>p \<in> set od \<union> set rest. route_key p = route_key q \<and> ep_cost (np_path p) = ep_cost (np_path q)"
  using assms
proof (induction md arbitrary: qd od vd rest)
  case Nil
  then show ?case by auto
next
  case (Cons p1 md)
  from Cons.prems(1) show ?case
  proof (cases rule: merge_known_ConsE)
    case (unmatched od' vd')
    with Cons.IH [OF unmatched(2) Cons.prems(2)] show ?thesis by auto
  next
    case (matched idx od' vd')
    show ?thesis
    proof (cases "q \<in> set (remove_nth idx qd)")
      case True
      with Cons.IH [OF matched(3)] matched(4) show ?thesis by auto
    next
      case False
      then have q: "q = qd ! idx" using set_remove_nth_insert [OF matched(1)] Cons.prems(2) by blast
      show ?thesis
      proof (cases "path_changed tol p1 (qd ! idx)")
        case True
        then show ?thesis using matched(4) q by auto
      next
        case False
        then have "ep_cost (np_path p1) = ep_cost (np_path q)"
          by (auto simp: path_changed_def important_variation_def q)
        then show ?thesis using matched(2,4) False q by auto
      qed
    qed
  qed
qed

lemma merge_known_untouched:
  assumes "merge_known tol ch md qd = (od, vd, rest)" "p \<in> set md" "route_key p \<notin> route_key ` set qd"
  shows "p \<in> set od"
  using assms
proof (induction md arbitrary: qd od vd rest)
  case (Cons p1 md)
  from Cons.prems(1) show ?case
  proof (cases rule: merge_known_ConsE)
    case (unmatched od' vd')
    with Cons.IH [OF unmatched(2)] Cons.prems(2,3) show ?thesis by auto
  next
    case (matched idx od' vd')
    have "qd ! idx \<in> set qd" using matched(1) by simp
    then have "route_key (qd ! idx) \<in> route_key ` set qd" by (rule imageI)
    then have "p \<noteq> p1" using Cons.prems(3) matched(2) by auto
    moreover have "route_key p \<notin> route_key ` set (remove_nth idx qd)"
      using Cons.prems(3) image_mono [OF set_remove_nth, of route_key idx qd] by blast
    ultimately show ?thesis using Cons.IH [OF matched(3)] Cons.prems(2) matched(4) by auto
  qed
qed simp

text \<open>What is on offer for a destination: the candidates, and the stored paths no candidate replaces.\<close>

definition on_offer :: "node_path list \<Rightarrow> node_path list \<Rightarrow> node_path \<Rightarrow> bool" where
  "on_offer md qd q \<longleftrightarrow> q \<in> set qd \<or> (q \<in> set md \<and> route_key q \<notin> route_key ` set qd)"

lemma merge_known_offer:
  assumes "merge_known tol ch md qd = (od, vd, rest)" "on_offer md qd q"
  shows "\<exists>p \<in> set od \<union> set rest. route_key p = route_key q \<and> ep_cost (np_path p) = ep_cost (np_path q)"
  using assms(2) merge_known_keeps [OF assms(1)] merge_known_untouched [OF assms(1)]
  unfolding on_offer_def by (metis UnI1)

lemma plan_keeps_cheapest:
  assumes "wf_state s" "candidates_ok s d qd" "hc_level d < levels_of s"
    and "plan_destination qd d ch z_set s = Ok plan" "0 < max_paths (st_config s)"
    and q: "on_offer (stored_paths s d) qd q" "known_hops s q" "total_cost q (arc_cost s (np_arc q)) \<noteq> Dead"
  shows "\<exists>p \<in> set (pl_od plan). total_cost p (arc_cost s (np_arc p)) \<le> total_cost q (arc_cost s (np_arc q))"
proof -
  let ?k = "\<lambda>np. total_cost np (arc_cost s (np_arc np))"
  obtain plan' od vd sizes env vnd rd where p: "plan_destination qd d ch z_set s = Ok plan'"
    "admission_candidates (stored_paths s d) qd ch s = Ok (od, vd, sizes)"
    "admit (max_paths (st_config s)) env
       \<lparr>ad_fd = [], ad_vnd = vnd, ad_z1d = concat (take (hc_level d) z_set), ad_rd = []\<rparr> od = Ok rd"
    "map hide (pl_od plan') = map hide rd" "subseq rd od" "plan_ok s d qd plan'"
    "\<forall>p \<in> set rd. ep_cost (np_path p) \<noteq> Dead"
    by (rule plan_destination_admits [OF assms(1-3), of ch z_set])
  obtain od' vd' sizes' od0 vd0 rest where c: "admission_candidates (stored_paths s d) qd ch s = Ok (od', vd', sizes')"
    and m: "merge_known (nodes_inside_tolerance (st_config s)) ch (stored_paths s d) qd = (od0, vd0, rest)"
    and "set od' \<subseteq> {p \<in> set od0 \<union> set rest. known_hops s p}" and "distinct (map route_key od')"
    and srt: "sorted (map ?k od')"
    and od': "od' = dedupe_routes [] (filter (known_hops s) (sort_key ?k (od0 @ rest)))"
    and cok: "candidates_ok s d od'" and "set od' \<subseteq> set (stored_paths s d) \<union> set qd"
    by (rule admission_candidates_spec [OF assms(1,2), of ch])
  obtain p1 where p1: "p1 \<in> set od0 \<union> set rest" "route_key p1 = route_key q"
    "ep_cost (np_path p1) = ep_cost (np_path q)"
    using merge_known_offer [OF m q(1)] by blast
  have mem: "p1 \<in> set (stored_paths s d) \<union> set qd" using merge_known_origin [OF m] p1(1) by blast
  have arc: "np_arc x = hd (np_arcs x)" if "x \<in> set (stored_paths s d) \<union> set qd" for x
    using that assms(2) stored_paths_candidates_ok [OF assms(1), of d]
    by (auto simp: candidates_ok_def wf_node_path_def)
  have same: "?k p1 = ?k q" "known_hops s p1"
    using p1(2,3) arc [OF mem] arc [of q] q(1,2)
    by (auto simp: total_cost_def route_key_def known_hops_def on_offer_def)
  have first: "\<exists>p2 \<in> set (dedupe_routes seen xs). ?k p2 \<le> ?k p1"
    if "p1 \<in> set xs" "sorted (map ?k xs)" "route_key p1 \<notin> set seen" for seen xs
    using that
  proof (induction xs arbitrary: seen)
    case (Cons x xs)
    show ?case
    proof (cases "x = p1 \<or> route_key x \<notin> set seen")
      case True
      with Cons.prems show ?thesis by auto
    next
      case False
      with Cons.prems Cons.IH [of seen] show ?thesis by auto
    qed
  qed simp
  let ?cs = "filter (known_hops s) (sort_key ?k (od0 @ rest))"
  have "p1 \<in> set ?cs" "sorted (map ?k ?cs)" "route_key p1 \<notin> set []"
    using same(2) p1(1) by (simp_all add: sorted_filter)
  from first [OF this] obtain p2 where p2: "p2 \<in> set od'" "?k p2 \<le> ?k q"
    unfolding od' same(1) by blast
  then obtain x xs where x: "od' = x # xs" "?k x \<le> ?k q" using srt by (cases od') auto
  have "?k x \<noteq> Dead" using x(2) q(3) by (cases "?k q") auto
  then have live: "ep_cost (np_path x) \<noteq> Dead" by (auto simp: total_cost_def cost.add_eq_dead)
  have "\<forall>p \<in> set (x # xs). arcs_match p" using candidates_arcs_match [OF cok] x(1) by simp
  from admit_first [OF this live assms(5), of
      "\<lparr>ad_fd = [], ad_vnd = vnd, ad_z1d = concat (take (hc_level d) z_set), ad_rd = []\<rparr>" env]
  obtain ys where "rd = x # ys" using p(2,3) c x(1) by auto
  then have "hide (hd (pl_od plan)) = hide x" "pl_od plan \<noteq> []" using p(1,4) assms(4) by auto
  then show ?thesis
    using x(2) hide_cong(1,2) [of "hd (pl_od plan)" x] by (intro bexI [of _ "hd (pl_od plan)"]) (simp_all add: total_cost_def)
qed


subsection \<open>Committing\<close>

definition same_but_dests :: "qspn_state \<Rightarrow> qspn_state \<Rightarrow> bool" where
  "same_but_dests s s' \<longleftrightarrow> s' = s\<lparr>st_dests := st_dests s'\<rparr>"

lemma same_but_dests_sel:
  assumes "same_but_dests s s'"
  shows "st_naddr s' = st_naddr s" "st_arcs s' = st_arcs s" "st_config s' = st_config s"
    "st_fps s' = st_fps s" "st_nodes_inside s' = st_nodes_inside s" "st_bootstrap s' = st_bootstrap s"
    "levels_of s' = levels_of s" "arc_ids s' = arc_ids s" "arc_cost s' = arc_cost s"
    "candidates_ok s' d qd = candidates_ok s d qd"
proof -
  obtain x where s': "s' = s\<lparr>st_dests := x\<rparr>" using assms by (auto simp: same_but_dests_def)
  show "st_naddr s' = st_naddr s" "st_arcs s' = st_arcs s" "st_config s' = st_config s"
    "st_fps s' = st_fps s" "st_nodes_inside s' = st_nodes_inside s" "st_bootstrap s' = st_bootstrap s"
    "levels_of s' = levels_of s" "arc_ids s' = arc_ids s"
    by (simp_all add: s' arc_ids_def)
  then show "arc_cost s' = arc_cost s" "candidates_ok s' d qd = candidates_ok s d qd"
    by (auto simp: arc_cost_def candidates_ok_def)
qed

lemma same_but_dests_trans:
  "same_but_dests s s' \<Longrightarrow> same_but_dests s' s'' \<Longrightarrow> same_but_dests s s''"
  unfolding same_but_dests_def by (metis (no_types, lifting) qspn_state.fold_congs(5) qspn_state.surjective qspn_state.update_convs(5))

lemma commit_same: "same_but_dests s (commit_destination d od s)"
  by (simp add: same_but_dests_def commit_destination_def Let_def)

lemma commit_wf:
  assumes "wf_state s" "hc_level d < levels_of s" "wf_paths (levels_of s) (arc_ids s) d od"
  shows "wf_state (commit_destination d od s)"
proof -
  let ?m = "st_dests s ! hc_level d"
  have lvl: "wf_level (levels_of s) (arc_ids s) (hc_level d) ?m"
    using wf_dests_level [OF wf_statesD(6)] assms by blast
  have "wf_level (levels_of s) (arc_ids s) (hc_level d)
      (if od = [] then hm_remove (hc_pos d) ?m else hm_insert (hc_pos d) \<lparr>dest_coord = d, dest_paths = od\<rparr> ?m)"
    using wf_level_remove [OF lvl] wf_level_insert [OF lvl, of "hc_pos d" "\<lparr>dest_coord = d, dest_paths = od\<rparr>"] assms(3)
    by (auto simp: wf_dest_def)
  then have "wf_dests (levels_of s) (arc_ids s) (st_dests (commit_destination d od s))"
    using wf_statesD(6) [OF assms(1)] by (auto simp: commit_destination_def Let_def intro: wf_dests_update)
  with assms(1) show ?thesis
    using same_but_dests_sel [OF commit_same [of s d od]] by (simp add: wf_state_def)
qed

lemma commit_destination_at:
  assumes "wf_state s" "hc_level d < levels_of s"
  shows "destination_at (commit_destination d od s) l pos =
     (if HCoord l pos = d then (if od = [] then None else Some \<lparr>dest_coord = d, dest_paths = od\<rparr>)
      else destination_at s l pos)"
proof -
  have hm: "hm_wf (st_dests s ! hc_level d)"
    using wf_dests_level [OF wf_statesD(6)] assms by (simp add: wf_level_def)
  have len: "hc_level d < length (st_dests s)" using assms by (simp add: wf_statesD(7))
  show ?thesis
  proof (cases "l = hc_level d")
    case True
    have e: "HCoord l pos = d \<longleftrightarrow> pos = hc_pos d" using True by (cases d) auto
    show ?thesis
      using True len hm unfolding e
      by (simp add: destination_at_def commit_destination_def Let_def hm.get_insert hm.get_remove)
  next
    case False
    then have "HCoord l pos \<noteq> d" by (cases d) auto
    with False show ?thesis by (simp add: destination_at_def commit_destination_def Let_def)
  qed
qed

lemma stored_paths_commit:
  assumes "wf_state s" "hc_level d < levels_of s"
  shows "stored_paths (commit_destination d od s) c = (if c = d then od else stored_paths s c)"
  using commit_destination_at [OF assms, of od "hc_level c" "hc_pos c"] by (simp add: stored_paths_def)

lemma update_map_one_run:
  assumes "wf_state s" "candidates_ok s d qd" "hc_level d < levels_of s"
  obtains plan out where "plan_destination qd d ch z_set s = Ok plan" "plan_ok s d qd plan"
    "update_map_one_destination qd d ch z_set s = (Ok out, commit_destination d (pl_od plan) s)"
    "od_all_paths out = ph_paths (pl_out plan)" "od_events out = ph_events (pl_out plan)"
proof -
  obtain plan where plan: "plan_destination qd d ch z_set s = Ok plan" "plan_ok s d qd plan"
    using plan_destination_admits [OF assms, of ch z_set] by metis
  let ?s' = "commit_destination d (pl_od plan) s"
  let ?f1 = "if hc_level d > 0 then branches (pl_md plan) else []"
  have wf: "wf_state ?s'" using commit_wf [OF assms(1,3)] plan(2) by (simp add: plan_ok_def)
  have lf: "level_fps (hc_level d) (dest_paths dd)" if "destination_at ?s' (hc_level d) (hc_pos d) = Some dd" for dd
    using wf_destination_at(2) [OF wf that] wf_paths_level_fps by (auto simp: wf_dest_def)
  obtain first sigs where sp: "split_check (arc_cost s) d ?f1 ?s' = Ok (first, sigs)"
    using split_check_total [of ?s' d "arc_cost s" ?f1] lf by blast
  have "update_map_one_destination qd d ch z_set s =
      (Ok \<lparr>od_all_paths = ph_paths (pl_out plan), od_first_split = first,
          od_events = ph_events (pl_out plan), od_splits = sigs\<rparr>, ?s')"
    using plan(1) sp by (simp add: update_map_one_destination_def st_bind_def st_read_def st_put_def Let_def)
  with plan that show ?thesis by (metis one_dest_outcome.select_convs(1,3))
qed

subsection \<open>The loop over destinations\<close>

text \<open>What happened to one destination of the loop, seen from its initial and its final state.\<close>

definition step_done ::
  "qspn_state \<Rightarrow> qspn_state \<Rightarrow> hcoord \<Rightarrow> node_path list \<Rightarrow> arc_id option \<Rightarrow> hcoord list list
    \<Rightarrow> update_map_outcome \<Rightarrow> bool" where
  "step_done s s' d qd ch z_set out \<longleftrightarrow>
     (\<exists>s1 plan. wf_state s1 \<and> same_but_dests s s1 \<and> stored_paths s1 d = stored_paths s d \<and>
        (\<forall>c. stored_paths s1 c \<in> {stored_paths s c, stored_paths s' c}) \<and>
        plan_destination qd d ch z_set s1 = Ok plan \<and> plan_ok s1 d qd plan \<and>
        stored_paths s' d = pl_od plan \<and>
        set (ph_paths (pl_out plan)) \<subseteq> set (um_all_paths out) \<and>
        set (ph_events (pl_out plan)) \<subseteq> set (um_events out))"

lemma step_doneI:
  assumes "wf_state s1" "same_but_dests s s1" "stored_paths s1 d = stored_paths s d"
    "\<And>c. stored_paths s1 c \<in> {stored_paths s c, stored_paths s' c}"
    "plan_destination qd d ch z_set s1 = Ok plan" "plan_ok s1 d qd plan" "stored_paths s' d = pl_od plan"
    "set (ph_paths (pl_out plan)) \<subseteq> set (um_all_paths out)" "set (ph_events (pl_out plan)) \<subseteq> set (um_events out)"
  shows "step_done s s' d qd ch z_set out"
  unfolding step_done_def by (intro exI conjI allI) (rule assms)+

lemma step_doneE:
  assumes "step_done s s' d qd ch z_set out"
  obtains s1 plan where "wf_state s1" "same_but_dests s s1" "stored_paths s1 d = stored_paths s d"
    "\<forall>c. stored_paths s1 c \<in> {stored_paths s c, stored_paths s' c}"
    "plan_destination qd d ch z_set s1 = Ok plan" "plan_ok s1 d qd plan" "stored_paths s' d = pl_od plan"
    "set (ph_paths (pl_out plan)) \<subseteq> set (um_all_paths out)" "set (ph_events (pl_out plan)) \<subseteq> set (um_events out)"
  using assms unfolding step_done_def by - (elim exE conjE, rule that)

definition change_event :: "qspn_state \<Rightarrow> qspn_state \<Rightarrow> hcoord \<Rightarrow> qspn_event \<Rightarrow> bool" where
  "change_event s s' d e \<longleftrightarrow>
     (e = DestinationAdded d \<and> stored_paths s d = [] \<and> stored_paths s' d \<noteq> []) \<or>
     (e = DestinationRemoved d \<and> stored_paths s d \<noteq> [] \<and> stored_paths s' d = [])"

lemma plan_event:
  assumes "plan_ok s d qd plan" "e \<in> set (ph_events (pl_out plan))" "stored_paths s' d = pl_od plan"
  shows "path_event e \<or> change_event s s' d e"
proof -
  have "path_event e \<or> e = DestinationAdded d \<or> e = DestinationRemoved d"
    "DestinationAdded d \<in> set (ph_events (pl_out plan)) \<longleftrightarrow> stored_paths s d = [] \<and> pl_od plan \<noteq> []"
    "DestinationRemoved d \<in> set (ph_events (pl_out plan)) \<longleftrightarrow> stored_paths s d \<noteq> [] \<and> pl_od plan = []"
    using assms(1,2) by (simp_all add: plan_ok_def)
  with assms(2,3) show ?thesis by (auto simp: change_event_def)
qed

lemma update_map_loop_run:
  assumes "wf_state s" "distinct ds"
    and "\<forall>d \<in> set ds. hc_level d < levels_of s \<and> (\<exists>qd. map_of q d = Some qd \<and> candidates_ok s d qd)"
  shows "\<exists>out s'. update_map_loop q ch z_set ds acc s = (Ok out, s') \<and> wf_state s' \<and> same_but_dests s s' \<and>
     set (um_all_paths acc) \<subseteq> set (um_all_paths out) \<and> set (um_events acc) \<subseteq> set (um_events out) \<and>
     (\<forall>c. c \<notin> set ds \<longrightarrow> stored_paths s' c = stored_paths s c) \<and>
     (\<forall>d \<in> set ds. step_done s s' d (the (map_of q d)) ch z_set out) \<and>
     (\<forall>e \<in> set (um_events out). e \<in> set (um_events acc) \<or> path_event e \<or> (\<exists>d \<in> set ds. change_event s s' d e))"
  using assms
proof (induction ds arbitrary: s acc)
  case Nil
  then show ?case by (auto simp: same_but_dests_def)
next
  case (Cons d ds)
  obtain qd where qd: "map_of q d = Some qd" "candidates_ok s d qd" "hc_level d < levels_of s"
    using Cons.prems(3) by auto
  obtain plan o1 where p: "plan_destination qd d ch z_set s = Ok plan" "plan_ok s d qd plan"
    "update_map_one_destination qd d ch z_set s = (Ok o1, commit_destination d (pl_od plan) s)"
    "od_all_paths o1 = ph_paths (pl_out plan)" "od_events o1 = ph_events (pl_out plan)"
    using update_map_one_run [OF Cons.prems(1) qd(2,3), of ch z_set] by metis
  let ?s = "commit_destination d (pl_od plan) s"
  let ?acc = "\<lparr>um_all_paths = um_all_paths acc @ od_all_paths o1,
      um_b_set = (if od_first_split o1 then push_new d (um_b_set acc) else um_b_set acc),
      um_events = um_events acc @ od_events o1, um_splits = um_splits acc @ od_splits o1\<rparr>"
  have wf: "wf_state ?s" using commit_wf [OF Cons.prems(1) qd(3)] p(2) by (simp add: plan_ok_def)
  note sel = same_but_dests_sel [OF commit_same [of s d "pl_od plan"]]
  have "\<forall>d' \<in> set ds. hc_level d' < levels_of ?s \<and> (\<exists>qd. map_of q d' = Some qd \<and> candidates_ok ?s d' qd)"
    using Cons.prems(3) sel by simp
  from Cons.IH [OF wf _ this, of ?acc] obtain out s' where r: "update_map_loop q ch z_set ds ?acc ?s = (Ok out, s')"
    "wf_state s'" "same_but_dests ?s s'" "set (um_all_paths ?acc) \<subseteq> set (um_all_paths out)"
    "set (um_events ?acc) \<subseteq> set (um_events out)" "\<forall>c. c \<notin> set ds \<longrightarrow> stored_paths s' c = stored_paths ?s c"
    "\<forall>d \<in> set ds. step_done ?s s' d (the (map_of q d)) ch z_set out"
    "\<forall>e \<in> set (um_events out). e \<in> set (um_events ?acc) \<or> path_event e \<or> (\<exists>d \<in> set ds. change_event ?s s' d e)"
    using Cons.prems(2) by auto
  have stored: "stored_paths ?s c = (if c = d then pl_od plan else stored_paths s c)" for c
    by (rule stored_paths_commit [OF Cons.prems(1) qd(3)])
  have "stored_paths s' d = pl_od plan" using r(6) stored Cons.prems(2) by simp
  then have "step_done s s' d qd ch z_set out"
    using p(4,5) r(4,5) by (intro step_doneI [OF Cons.prems(1) _ _ _ p(1,2)]) (auto simp: same_but_dests_def)
  moreover have "step_done s s' c (the (map_of q c)) ch z_set out" if "c \<in> set ds" for c
  proof -
    have "c \<noteq> d" using that Cons.prems(2) by auto
    have mid: "stored_paths ?s c' \<in> {stored_paths s c', stored_paths s' c'}" for c'
      using stored r(6) Cons.prems(2) by simp
    from r(7) that have "step_done ?s s' c (the (map_of q c)) ch z_set out" by simp
    then obtain s1 p1 where s1: "wf_state s1" "same_but_dests ?s s1" "stored_paths s1 c = stored_paths ?s c"
      "\<forall>c'. stored_paths s1 c' \<in> {stored_paths ?s c', stored_paths s' c'}"
      "plan_destination (the (map_of q c)) c ch z_set s1 = Ok p1" "plan_ok s1 c (the (map_of q c)) p1"
      "stored_paths s' c = pl_od p1" "set (ph_paths (pl_out p1)) \<subseteq> set (um_all_paths out)"
      "set (ph_events (pl_out p1)) \<subseteq> set (um_events out)" by (rule step_doneE)
    have "stored_paths s1 c' \<in> {stored_paths s c', stored_paths s' c'}" for c'
      using spec [OF s1(4), of c'] mid [of c'] by auto
    moreover have "stored_paths s1 c = stored_paths s c" using s1(3) stored \<open>c \<noteq> d\<close> by simp
    ultimately show ?thesis
      by (intro step_doneI [OF s1(1) same_but_dests_trans [OF commit_same s1(2)] _ _ s1(5-9)])
  qed
  moreover have "e \<in> set (um_events acc) \<or> path_event e \<or> (\<exists>c \<in> set (d # ds). change_event s s' c e)"
    if e: "e \<in> set (um_events out)" for e
  proof -
    have d: "stored_paths s' d = pl_od plan" using r(6) stored Cons.prems(2) by simp
    consider "e \<in> set (um_events acc)" | "e \<in> set (ph_events (pl_out plan))" | "path_event e"
      | c where "c \<in> set ds" "change_event ?s s' c e" using r(8) e p(5) by auto
    then show ?thesis
    proof cases
      case 2
      from plan_event [OF p(2) this d] show ?thesis by auto
    next
      case (4 c)
      then have "c \<noteq> d" using Cons.prems(2) by auto
      then have "change_event s s' c e" using 4(2) stored by (simp add: change_event_def)
      with 4(1) show ?thesis by auto
    qed simp_all
  qed
  moreover have "update_map_loop q ch z_set (d # ds) acc s = (Ok out, s')"
    using qd(1) p(3) r(1) by (simp add: st_bind_def st_read_def)
  moreover have "\<forall>c. c \<notin> set (d # ds) \<longrightarrow> stored_paths s' c = stored_paths s c" using r(6) stored by simp
  ultimately show ?case
    using r(2,4,5) same_but_dests_trans [OF commit_same r(3)] qd(1) by (intro exI [of _ out] exI [of _ s']) auto
qed

end
