(* ===== verification/Qspn_MapLaws.thy ===== *)
theory Qspn_MapLaws
  imports Qspn_UpdateMap
begin

section \<open>What \<open>update_map\<close> promises\<close>

text \<open>
  The per-destination passes put together: the grouping and the ordering of the candidates, the loop
  over the destinations, and the guarantees a caller of \<open>update_map\<close> relies on.
\<close>

subsection \<open>Grouping the candidates\<close>

definition group_of :: "hcoord \<Rightarrow> node_path list \<Rightarrow> node_path list" where
  "group_of d q_set = filter (\<lambda>np. last (np_hops np) = d) q_set"

lemma hm_push_get:
  "hm_wf m \<Longrightarrow> map_of (hm_push k x m) k' =
     (if k' = k then Some ((case map_of m k of None \<Rightarrow> [] | Some xs \<Rightarrow> xs) @ [x]) else map_of m k')"
  by (simp add: hm_push_def hm.get_insert)

lemma hm_push_wf: "hm_wf m \<Longrightarrow> hm_wf (hm_push k x m)"
  by (simp add: hm_push_def hm.wf_insert)

definition grouped :: "(hcoord, node_path list) hash_map \<Rightarrow> node_path list \<Rightarrow> bool" where
  "grouped m q \<longleftrightarrow> hm_wf m \<and> (\<forall>d. map_of m d = (if group_of d q = [] then None else Some (group_of d q)))"

lemma grouped_push:
  assumes "grouped m p"
  shows "grouped (hm_push (last (np_hops np)) np m) (p @ [np])"
  using assms by (auto simp: grouped_def hm_push_get hm_push_wf group_of_def)

lemma group_fold:
  assumes "grouped m p" "\<forall>np \<in> set q. np_hops np \<noteq> []"
  shows "\<exists>m'. fold_res (\<lambda>m np. if np_hops np = [] then Panic else Ok (hm_push (last (np_hops np)) np m)) m q
       = Ok m' \<and> grouped m' (p @ q)"
  using assms
proof (induction q arbitrary: m p)
  case (Cons np q)
  from Cons.IH [OF grouped_push [OF Cons.prems(1), of np]] Cons.prems(2) show ?case by simp
qed simp

lemma group_by_dest_total:
  assumes "\<forall>np \<in> set q. np_hops np \<noteq> []"
  obtains m where "group_by_dest q = Ok m" "grouped m q"
proof -
  have "grouped [] []" by (simp add: grouped_def group_of_def hm.wf_empty)
  from group_fold [OF this assms] that show ?thesis by (auto simp: group_by_dest_def)
qed

lemma grouped_keys:
  assumes "grouped m q"
  shows "set (map fst m) = (\<lambda>np. last (np_hops np)) ` set q"
proof -
  have "d \<in> set (map fst m) \<longleftrightarrow> d \<in> (\<lambda>np. last (np_hops np)) ` set q" for d
  proof -
    have "d \<in> set (map fst m) \<longleftrightarrow> map_of m d \<noteq> None" by (simp add: map_of_eq_None_iff)
    also have "\<dots> \<longleftrightarrow> group_of d q \<noteq> []" using assms by (simp add: grouped_def)
    finally show ?thesis by (auto simp: group_of_def filter_empty_conv)
  qed
  then show ?thesis by blast
qed

lemma collect_entries_total:
  assumes "\<forall>np \<in> set ps. np_hops np \<noteq> []"
  shows "\<exists>ys. collect_entries i ps = Ok ys"
proof -
  have "\<exists>ys. collect_entries i ps = Ok ys \<and> True"
    unfolding collect_entries_def
    using assms by (intro fold_res_total [where I = "\<lambda>_. True"]) (auto simp: gnode_entry_def neq_Nil_conv)
  then show ?thesis by blast
qed

lemma my_gnode_neighbors_total:
  assumes "wf_state s"
  shows "\<exists>ys. my_gnode_neighbors s i = Ok ys"
proof -
  have "np_hops np \<noteq> []" if "np \<in> set (concat (map level_paths (drop i (st_dests s))))" for np
  proof -
    have "np \<in> set (concat (map level_paths (st_dests s)))" using that by (auto dest: in_set_dropD)
    then obtain l pos d where l: "l < length (st_dests s)" "(pos, d) \<in> set (st_dests s ! l)" "np \<in> set (dest_paths d)"
      using in_all_paths by metis
    have "wf_level (levels_of s) (arc_ids s) l (st_dests s ! l)"
      using wf_dests_level [OF wf_statesD(6) [OF assms]] l(1) wf_statesD(7) [OF assms] by simp
    then have "wf_dest (levels_of s) (arc_ids s) (HCoord l pos) d" using l(2) by (auto simp: wf_level_def)
    then have "wf_node_path (levels_of s) np" using l(3) by (auto simp: wf_dest_def wf_paths_def wf_stored_def)
    then show ?thesis by (auto simp: wf_node_path_def wf_path_def)
  qed
  then show ?thesis unfolding my_gnode_neighbors_def using collect_entries_total by blast
qed

subsection \<open>The whole update\<close>

text \<open>What \<open>update_map\<close> is called with: well-formed paths through the node's own arcs. A hash map may
  present its keys in any order.\<close>

definition revised_ok :: "qspn_state \<Rightarrow> node_path list \<Rightarrow> bool" where
  "revised_ok s q \<longleftrightarrow> (\<forall>np \<in> set q. wf_node_path (levels_of s) np \<and> np_arc np \<in> arc_ids s)"

definition permutes_keys :: "(hcoord list \<Rightarrow> hcoord list) \<Rightarrow> bool" where
  "permutes_keys ho \<longleftrightarrow> (\<forall>ks. mset (ho ks) = mset ks)"

lemma permutes_keysD: "permutes_keys ho \<Longrightarrow> set (ho ks) = set ks" "permutes_keys ho \<Longrightarrow> distinct (ho ks) = distinct ks"
  unfolding permutes_keys_def by (metis mset_eq_setD, metis mset_eq_imp_distinct_iff)

definition touched :: "node_path list \<Rightarrow> hcoord set" where
  "touched q = (\<lambda>np. last (np_hops np)) ` set q"

lemma group_candidates: "revised_ok s q \<Longrightarrow> candidates_ok s d (group_of d q)"
  by (simp add: revised_ok_def candidates_ok_def group_of_def)

lemma touched_level: "revised_ok s q \<Longrightarrow> d \<in> touched q \<Longrightarrow> hc_level d < levels_of s"
  by (auto simp: touched_def revised_ok_def wf_node_path_def intro: wf_path_last_level)

lemma update_map_run:
  assumes "wf_state s" "revised_ok s q" "permutes_keys ho"
  obtains out s' z_set where "update_map ho q ch s = (Ok out, s')" "wf_state s'" "same_but_dests s s'"
    "\<And>c. c \<notin> touched q \<Longrightarrow> stored_paths s' c = stored_paths s c"
    "\<And>d. d \<in> touched q \<Longrightarrow> step_done s s' d (group_of d q) ch z_set out"
    "\<And>e. e \<in> set (um_events out) \<Longrightarrow> path_event e \<or> (\<exists>d \<in> touched q. change_event s s' d e)"
proof -
  have ne: "\<forall>np \<in> set q. np_hops np \<noteq> []"
    using assms(2) by (auto simp: revised_ok_def wf_node_path_def wf_path_def)
  obtain m where m: "group_by_dest q = Ok m" "grouped m q" by (rule group_by_dest_total [OF ne])
  obtain z where z: "try_map (my_gnode_neighbors s) [0..<levels_of s] = Ok z"
    using try_map_total my_gnode_neighbors_total [OF assms(1)] by metis
  let ?ds = "sort_key (\<lambda>d. (hc_level d, hops_in_level (arc_cost s) m d)) (ho (map fst m))"
  have start: "update_map_start ho q s = Ok (z, m, ?ds)" by (simp add: update_map_start_def m(1) z)
  have set_ds: "set ?ds = touched q" using permutes_keysD(1) [OF assms(3)] grouped_keys [OF m(2)] by (simp add: touched_def)
  have dist: "distinct ?ds"
    using permutes_keysD(2) [OF assms(3), of "map fst m"] m(2) by (simp add: grouped_def hm_wf_def)
  have grp: "map_of m d = Some (group_of d q)" if "d \<in> touched q" for d
    using that m(2) by (auto simp: grouped_def touched_def group_of_def filter_empty_conv)
  have "\<forall>d \<in> set ?ds. hc_level d < levels_of s \<and> (\<exists>qd. map_of m d = Some qd \<and> candidates_ok s d qd)"
    using set_ds grp group_candidates [OF assms(2)] touched_level [OF assms(2)] by auto
  from update_map_loop_run [OF assms(1) dist this, of ch z "\<lparr>um_all_paths = [], um_b_set = [], um_events = [], um_splits = []\<rparr>"]
  obtain out s' where r: "update_map_loop m ch z ?ds \<lparr>um_all_paths = [], um_b_set = [], um_events = [], um_splits = []\<rparr> s = (Ok out, s')"
    "wf_state s'" "same_but_dests s s'" "\<forall>c. c \<notin> set ?ds \<longrightarrow> stored_paths s' c = stored_paths s c"
    "\<forall>d \<in> set ?ds. step_done s s' d (the (map_of m d)) ch z out"
    "\<forall>e \<in> set (um_events out). path_event e \<or> (\<exists>d \<in> set ?ds. change_event s s' d e)"
    by auto
  have "update_map ho q ch s = (Ok out, s')"
    using start r(1) by (simp add: update_map_def st_bind_def st_read_def)
  moreover have "step_done s s' d (group_of d q) ch z out" if "d \<in> touched q" for d
    using r(5) that set_ds grp by auto
  ultimately show ?thesis using that [of out s' z] r(2-4,6) set_ds by auto
qed


lemma update_map_det: "update_map ho q ch s = (Ok out, s') \<Longrightarrow> update_map ho q ch s = (Ok out', s'') \<Longrightarrow> out' = out \<and> s'' = s'"
  by simp

lemma step_done_announced:
  assumes "step_done s s' d qd ch z out" "change_event s s' d e"
  shows "e \<in> set (um_events out)"
proof -
  from step_doneE [OF assms(1)] obtain s1 plan where p: "stored_paths s1 d = stored_paths s d"
    "plan_ok s1 d qd plan" "stored_paths s' d = pl_od plan" "set (ph_events (pl_out plan)) \<subseteq> set (um_events out)"
    by metis
  have "DestinationAdded d \<in> set (ph_events (pl_out plan)) \<longleftrightarrow> stored_paths s1 d = [] \<and> pl_od plan \<noteq> []"
    "DestinationRemoved d \<in> set (ph_events (pl_out plan)) \<longleftrightarrow> stored_paths s1 d \<noteq> [] \<and> pl_od plan = []"
    using p(2) by (simp_all add: plan_ok_def)
  with assms(2) p(1,3) have "e \<in> set (ph_events (pl_out plan))" by (auto simp: change_event_def)
  with p(4) show ?thesis by blast
qed

lemma loop_free_stored:
  assumes "wf_state s"
  shows "loop_free s \<longleftrightarrow> (\<forall>d. \<forall>p \<in> set (stored_paths s d). \<not> loops_back (st_naddr s) (np_hops p))"
proof -
  have "p \<in> set (concat (map level_paths (st_dests s))) \<longleftrightarrow> (\<exists>d. p \<in> set (stored_paths s d))" for p
  proof
    assume "p \<in> set (concat (map level_paths (st_dests s)))"
    then obtain l pos dd where d: "l < length (st_dests s)" "(pos, dd) \<in> set (st_dests s ! l)" "p \<in> set (dest_paths dd)"
      using in_all_paths by metis
    have "hm_wf (st_dests s ! l)"
      using wf_dests_level [OF wf_statesD(6) [OF assms]] d(1) wf_statesD(7) [OF assms] by (simp add: wf_level_def)
    then have "destination_at s l pos = Some dd" using d by (simp add: destination_at_def hm.entry_iff_get)
    then have "p \<in> set (stored_paths s (HCoord l pos))" using d(3) by (simp add: stored_paths_def)
    then show "\<exists>d. p \<in> set (stored_paths s d)" by blast
  next
    assume "\<exists>d. p \<in> set (stored_paths s d)"
    then obtain d where pd: "p \<in> set (stored_paths s d)" by blast
    then obtain dd where d: "destination_at s (hc_level d) (hc_pos d) = Some dd" "p \<in> set (dest_paths dd)"
      by (cases "destination_at s (hc_level d) (hc_pos d)") (simp_all add: stored_paths_def)
    then have "hc_level d < length (st_dests s)" "(hc_pos d, dd) \<in> set (st_dests s ! hc_level d)"
      by (auto simp: destination_at_def split: if_splits dest: map_of_SomeD)
    with d(2) show "p \<in> set (concat (map level_paths (st_dests s)))" using in_all_paths by metis
  qed
  then show ?thesis unfolding loop_free_def by auto
qed

lemma stored_origin:
  assumes "wf_state s" "revised_ok s q" "permutes_keys ho" "update_map ho q ch s = (Ok out, s')"
    and "p \<in> set (stored_paths s' d)"
  shows "\<exists>x \<in> set (stored_paths s d) \<union> set q. hide p = hide x"
proof -
  obtain z where r: "\<And>c. c \<notin> touched q \<Longrightarrow> stored_paths s' c = stored_paths s c"
    "\<And>d. d \<in> touched q \<Longrightarrow> step_done s s' d (group_of d q) ch z out"
    using update_map_run [OF assms(1-3), of ch] update_map_det [OF assms(4)] by metis
  show ?thesis
  proof (cases "d \<in> touched q")
    case True
    from step_doneE [OF r(2) [OF True]] obtain s1 plan where p: "stored_paths s1 d = stored_paths s d"
      "plan_ok s1 d (group_of d q) plan" "stored_paths s' d = pl_od plan" by metis
    then have "\<exists>x \<in> set (stored_paths s d) \<union> set (group_of d q). hide p = hide x"
      using assms(5) by (simp add: plan_ok_def)
    then show ?thesis by (auto simp: group_of_def)
  next
    case False
    then show ?thesis using r(1) assms(5) by auto
  qed
qed


text \<open>C25: from a well-formed state, on well-formed paths through its arcs, \<open>update_map\<close> always succeeds and
  leaves a well-formed state. It changes nothing but the map, touches only the destinations the paths
  name, keeps at most four times \<open>max_paths\<close> routes for each of those, and stores no path that was
  neither stored nor offered (the exposure flag apart).\<close>

theorem update_map_correct:
  assumes "wf_state s" "revised_ok s q" "permutes_keys ho"
  shows "\<exists>out s'. update_map ho q ch s = (Ok out, s') \<and> wf_state s' \<and> s' = s\<lparr>st_dests := st_dests s'\<rparr> \<and>
     (\<forall>d. d \<notin> touched q \<longrightarrow> stored_paths s' d = stored_paths s d) \<and>
     (\<forall>d \<in> touched q. length (stored_paths s' d) \<le> 4 * max_paths (st_config s)) \<and>
     (\<forall>d. \<forall>p \<in> set (stored_paths s' d). \<exists>x \<in> set (stored_paths s d) \<union> set q.
        p\<lparr>np_exposed := False\<rparr> = x\<lparr>np_exposed := False\<rparr>)"
proof -
  obtain out s' z where r: "update_map ho q ch s = (Ok out, s')" "wf_state s'" "same_but_dests s s'"
    "\<And>c. c \<notin> touched q \<Longrightarrow> stored_paths s' c = stored_paths s c"
    "\<And>d. d \<in> touched q \<Longrightarrow> step_done s s' d (group_of d q) ch z out"
    using update_map_run [OF assms, of ch] by metis
  have "length (stored_paths s' d) \<le> 4 * max_paths (st_config s)" if "d \<in> touched q" for d
  proof -
    from step_doneE [OF r(5) [OF that]] obtain s1 plan where p: "same_but_dests s s1"
      "plan_ok s1 d (group_of d q) plan" "stored_paths s' d = pl_od plan" by metis
    then show ?thesis using same_but_dests_sel(3) [OF p(1)] by (simp add: plan_ok_def MANDATORY_PATH_FACTOR_def mult.commute)
  qed
  moreover have "\<exists>x \<in> set (stored_paths s d) \<union> set q. p\<lparr>np_exposed := False\<rparr> = x\<lparr>np_exposed := False\<rparr>"
    if "p \<in> set (stored_paths s' d)" for p d
    using stored_origin [OF assms r(1) that] by (simp add: hide_def)
  moreover have "s' = s\<lparr>st_dests := st_dests s'\<rparr>" using r(3) by (simp only: same_but_dests_def)
  ultimately show ?thesis using r(1,2,4) by (intro exI [of _ out] exI [of _ s'] conjI allI impI ballI) simp_all
qed

text \<open>Loop freedom is an invariant of the map: when no stored path and no offered path passes
  through this node's own position, none does after the update.\<close>

theorem update_map_loop_free:
  assumes "wf_state s" "revised_ok s q" "permutes_keys ho" "update_map ho q ch s = (Ok out, s')"
    and "loop_free s" "\<forall>np \<in> set q. \<not> loops_back (st_naddr s) (np_hops np)"
  shows "loop_free s'"
proof -
  have r: "wf_state s'" "same_but_dests s s'"
    using update_map_run [OF assms(1-3), of ch] update_map_det [OF assms(4)] by metis+
  have "\<not> loops_back (st_naddr s) (np_hops p)" if p: "p \<in> set (stored_paths s' d)" for p d
  proof -
    obtain x where x: "x \<in> set (stored_paths s d) \<union> set q" "hide p = hide x"
      using stored_origin [OF assms(1-4) p] by blast
    then have "\<not> loops_back (st_naddr s) (np_hops x)"
      using assms(5,6) loop_free_stored [OF assms(1)] by blast
    then show ?thesis using hide_cong(1) [OF x(2)] by simp
  qed
  then show ?thesis using loop_free_stored [OF r(1)] same_but_dests_sel(1) [OF r(2)] by simp
qed

text \<open>C26: a route every candidate of which is dead is withdrawn: after the update no destination
  stores it, and if it was stored, a dead copy of it is among the paths to forward.\<close>

theorem update_map_withdraws:
  assumes "wf_state s" "revised_ok s q" "permutes_keys ho" "update_map ho q ch s = (Ok out, s')"
    and "x \<in> set q" "\<forall>y \<in> set q. hops_arcs_equal y (np_path x) \<longrightarrow> ep_cost (np_path y) = Dead"
  shows "(\<forall>d. \<forall>p \<in> set (stored_paths s' d). \<not> hops_arcs_equal p (np_path x)) \<and>
    (\<forall>d. \<forall>p \<in> set (stored_paths s d). hops_arcs_equal p (np_path x) \<longrightarrow>
       (prepare_for_sending p (arc_cost s (np_arc p)))\<lparr>ep_cost := Dead\<rparr> \<in> set (um_all_paths out))"
proof (intro conjI)
  obtain z where r: "wf_state s'" "same_but_dests s s'"
    "\<And>d. d \<in> touched q \<Longrightarrow> step_done s s' d (group_of d q) ch z out"
    using update_map_run [OF assms(1-3), of ch] update_map_det [OF assms(4)] by metis
  let ?d = "last (np_hops x)" and ?r = "route_key x"
  have "?d \<in> touched q" using assms(5) by (auto simp: touched_def)
  from step_doneE [OF r(3) [OF this]] obtain s1 plan where p: "wf_state s1" "same_but_dests s s1"
    "stored_paths s1 ?d = stored_paths s ?d" "plan_destination (group_of ?d q) ?d ch z s1 = Ok plan"
    "plan_ok s1 ?d (group_of ?d q) plan" "stored_paths s' ?d = pl_od plan"
    "set (ph_paths (pl_out plan)) \<subseteq> set (um_all_paths out)" by metis
  note sel = same_but_dests_sel [OF p(2)]
  have "withdrawn (group_of ?d q) ?r"
    using assms(5,6) by (auto simp: withdrawn_def group_of_def hops_arcs_equal_route)
  moreover have "candidates_ok s1 ?d (group_of ?d q)" using group_candidates [OF assms(2)] sel by simp
  moreover have "hc_level ?d < levels_of s1" using touched_level [OF assms(2) \<open>?d \<in> touched q\<close>] sel by simp
  ultimately have gone: "?r \<notin> route_key ` set (stored_paths s' ?d)"
    using plan_withdraws [OF p(1) _ _ p(4)] p(6) by simp
  have only: "d = ?d" if "p \<in> set (stored_paths t d)" "route_key p = ?r" "wf_state t" for t d p
    using stored_paths_wf [OF that(3), of d] that(1,2) by (auto simp: wf_paths_def wf_stored_def route_key_def)
  show "\<forall>d. \<forall>p \<in> set (stored_paths s' d). \<not> hops_arcs_equal p (np_path x)"
    using gone only [OF _ _ r(1)] unfolding hops_arcs_equal_route by (metis imageI)
  have "(prepare_for_sending p (arc_cost s (np_arc p)))\<lparr>ep_cost := Dead\<rparr> \<in> set (um_all_paths out)"
    if "p \<in> set (stored_paths s d)" "route_key p = ?r" for d p
  proof -
    have "p \<in> set (stored_paths s1 ?d)" using only [OF that assms(1)] that(1) p(3) by simp
    moreover have "route_key p \<notin> route_key ` set (pl_od plan)" using gone that(2) p(6) by simp
    ultimately have "(prepare_for_sending p (arc_cost s1 (np_arc p)))\<lparr>ep_cost := Dead\<rparr> \<in> set (ph_paths (pl_out plan))"
      using p(5) by (simp add: plan_ok_def)
    then show ?thesis using p(7) sel(9) by auto
  qed
  then show "\<forall>d. \<forall>p \<in> set (stored_paths s d). hops_arcs_equal p (np_path x) \<longrightarrow>
       (prepare_for_sending p (arc_cost s (np_arc p)))\<lparr>ep_cost := Dead\<rparr> \<in> set (um_all_paths out)"
    unfolding hops_arcs_equal_route by blast
qed

text \<open>C27: neighbours are told of every change of the route set: a route stored now and not before is
  forwarded with its cost as seen from here, a route stored before and not now is forwarded dead. A
  destination is announced as added or removed exactly when it gains its first or loses its last path.\<close>

theorem update_map_announces:
  assumes "wf_state s" "revised_ok s q" "permutes_keys ho" "update_map ho q ch s = (Ok out, s')"
  shows "(p \<in> set (stored_paths s' d) \<and> route_key p \<notin> route_key ` set (stored_paths s d) \<longrightarrow>
       prepare_for_sending p (arc_cost s (np_arc p)) \<in> set (um_all_paths out)) \<and>
     (p \<in> set (stored_paths s d) \<and> route_key p \<notin> route_key ` set (stored_paths s' d) \<longrightarrow>
       (prepare_for_sending p (arc_cost s (np_arc p)))\<lparr>ep_cost := Dead\<rparr> \<in> set (um_all_paths out)) \<and>
     (DestinationAdded d \<in> set (um_events out) \<longleftrightarrow> stored_paths s d = [] \<and> stored_paths s' d \<noteq> []) \<and>
     (DestinationRemoved d \<in> set (um_events out) \<longleftrightarrow> stored_paths s d \<noteq> [] \<and> stored_paths s' d = [])"
proof (intro conjI)
  obtain z where r: "\<And>c. c \<notin> touched q \<Longrightarrow> stored_paths s' c = stored_paths s c"
    "\<And>d. d \<in> touched q \<Longrightarrow> step_done s s' d (group_of d q) ch z out"
    "\<And>e. e \<in> set (um_events out) \<Longrightarrow> path_event e \<or> (\<exists>d \<in> touched q. change_event s s' d e)"
    using update_map_run [OF assms(1-3), of ch] update_map_det [OF assms(4)] by metis
  have dn: "\<exists>s1 plan. arc_cost s1 = arc_cost s \<and> stored_paths s1 d = stored_paths s d \<and> plan_ok s1 d (group_of d q) plan \<and>
      stored_paths s' d = pl_od plan \<and> set (ph_paths (pl_out plan)) \<subseteq> set (um_all_paths out) \<and>
      set (ph_events (pl_out plan)) \<subseteq> set (um_events out)" if "d \<in> touched q"
    using step_doneE [OF r(2) [OF that]] same_but_dests_sel(9) by metis
  have ev: "e \<in> set (um_events out) \<Longrightarrow> \<not> path_event e \<Longrightarrow> \<exists>d \<in> touched q. change_event s s' d e" for e
    using r(3) by blast
  show "p \<in> set (stored_paths s' d) \<and> route_key p \<notin> route_key ` set (stored_paths s d) \<longrightarrow>
       prepare_for_sending p (arc_cost s (np_arc p)) \<in> set (um_all_paths out)"
    using r(1) dn unfolding plan_ok_def by (metis image_eqI subsetD)
  show "p \<in> set (stored_paths s d) \<and> route_key p \<notin> route_key ` set (stored_paths s' d) \<longrightarrow>
       (prepare_for_sending p (arc_cost s (np_arc p)))\<lparr>ep_cost := Dead\<rparr> \<in> set (um_all_paths out)"
    using r(1) dn unfolding plan_ok_def by (metis image_eqI subsetD)
  show "DestinationAdded d \<in> set (um_events out) \<longleftrightarrow> stored_paths s d = [] \<and> stored_paths s' d \<noteq> []"
  proof
    assume "DestinationAdded d \<in> set (um_events out)"
    with ev [of "DestinationAdded d"] show "stored_paths s d = [] \<and> stored_paths s' d \<noteq> []" by (auto simp: change_event_def)
  next
    assume c: "stored_paths s d = [] \<and> stored_paths s' d \<noteq> []"
    then have "d \<in> touched q" by (metis r(1))
    with c show "DestinationAdded d \<in> set (um_events out)"
      using step_done_announced [OF r(2)] by (simp add: change_event_def)
  qed
  show "DestinationRemoved d \<in> set (um_events out) \<longleftrightarrow> stored_paths s d \<noteq> [] \<and> stored_paths s' d = []"
  proof
    assume "DestinationRemoved d \<in> set (um_events out)"
    with ev [of "DestinationRemoved d"] show "stored_paths s d \<noteq> [] \<and> stored_paths s' d = []" by (auto simp: change_event_def)
  next
    assume c: "stored_paths s d \<noteq> [] \<and> stored_paths s' d = []"
    then have "d \<in> touched q" by (metis r(1))
    with c show "DestinationRemoved d \<in> set (um_events out)"
      using step_done_announced [OF r(2)] by (simp add: change_event_def)
  qed
qed


text \<open>C28: no destination is made worse than what is on offer: if a candidate, or a stored path no
  candidate replaces, is alive and each of its intermediate g-nodes is a destination both before and
  after the update, then its destination ends with a path that costs no more. In particular a live
  direct neighbour is always reachable after the update.\<close>

theorem update_map_keeps_cheapest:
  assumes "wf_state s" "revised_ok s q" "permutes_keys ho" "update_map ho q ch s = (Ok out, s')"
    and "0 < max_paths (st_config s)" "last (np_hops x) = d" "d \<in> touched q"
    and "x \<in> set q \<or> (x \<in> set (stored_paths s d) \<and> (\<forall>y \<in> set q. \<not> hops_arcs_equal y (np_path x)))"
    and "\<forall>h \<in> set (butlast (np_hops x)). stored_paths s h \<noteq> [] \<and> stored_paths s' h \<noteq> []"
    and "total_cost x (arc_cost s (np_arc x)) \<noteq> Dead"
  shows "\<exists>p \<in> set (stored_paths s' d). total_cost p (arc_cost s (np_arc p)) \<le> total_cost x (arc_cost s (np_arc x))"
proof -
  obtain z where r: "step_done s s' d (group_of d q) ch z out"
    using update_map_run [OF assms(1-3), of ch] update_map_det [OF assms(4)] assms(7) by metis
  from step_doneE [OF r] obtain s1 plan where p: "wf_state s1" "same_but_dests s s1"
    "stored_paths s1 d = stored_paths s d" "\<forall>c. stored_paths s1 c \<in> {stored_paths s c, stored_paths s' c}"
    "plan_destination (group_of d q) d ch z s1 = Ok plan" "stored_paths s' d = pl_od plan" by metis
  note sel = same_but_dests_sel [OF p(2)]
  have c: "candidates_ok s1 d (group_of d q)" "hc_level d < levels_of s1"
    using group_candidates [OF assms(2)] touched_level [OF assms(2,7)] sel by simp_all
  have "on_offer (stored_paths s1 d) (group_of d q) x"
    using assms(6,8) p(3) by (auto simp: on_offer_def group_of_def hops_arcs_equal_route image_iff)
  moreover have "known_hops s1 x"
    unfolding known_hops_def
  proof
    fix h assume h: "h \<in> set (butlast (np_hops x))"
    then have "stored_paths s1 h \<noteq> []" using assms(9) p(4) by (metis insertE singletonD)
    then show "destination_at s1 (hc_level h) (hc_pos h) \<noteq> None" by (auto simp: stored_paths_def split: option.splits)
  qed
  ultimately show ?thesis
    using plan_keeps_cheapest [OF p(1) c p(5), of x] assms(5,10) p(6) sel by simp
qed

subsection \<open>A concrete update\<close>

definition example_offer :: "node_path list" where
  "example_offer = rev_paths (example_revised True)"

lemma example_offer_ok: "revised_ok example_state example_offer"
proof -
  have "arc_ids example_state = {7}" by (simp add: arc_ids_def example_state_def)
  then show ?thesis
    by (simp add: revised_ok_def levels_of_example example_offer_def example_revised_def wf_node_path_def
        wf_path_def example_known_def example_fp_at_def wf_fp_def eldership_range_def)
qed

lemma permutes_id: "permutes_keys id"
  by (simp add: permutes_keys_def)

lemma example_update:
  obtains out s' where "update_map id example_offer None example_state = (Ok out, s')"
  by (rule update_map_run [OF wf_example_state example_offer_ok permutes_id])

lemma example_stored:
  "stored_paths example_state (HCoord 0 1) = [example_direct]"
  "stored_paths example_state (HCoord (Suc 0) 2) = [example_known]"
  "stored_paths example_state (HCoord (Suc 0) 3) = []"
  by (simp_all add: stored_paths_def destination_at_def example_state_def)

lemma example_offer_mem:
  "node_path_new 7 ((np_path example_known)\<lparr>ep_cost := Dead\<rparr>) \<in> set example_offer" "example_direct \<in> set example_offer"
  by (simp_all add: example_offer_def example_revised_def example_direct_def)

theorem update_map_correct_witness:
  "\<exists>out s'. update_map id example_offer None example_state = (Ok out, s') \<and> wf_state s'"
  using update_map_correct [OF wf_example_state example_offer_ok permutes_id] by blast

theorem update_map_loop_free_witness:
  "\<exists>out s'. update_map id example_offer None example_state = (Ok out, s') \<and> loop_free s'"
proof -
  obtain out s' where u: "update_map id example_offer None example_state = (Ok out, s')" by (rule example_update)
  have "loop_free example_state"
    by (simp add: loop_free_def example_state_def level_paths_def loops_back_def example_direct_def
        example_known_def pos_at_def example_naddr_def)
  moreover have "\<forall>np \<in> set example_offer. \<not> loops_back (st_naddr example_state) (np_hops np)"
    by (simp add: example_offer_def example_revised_def example_state_def loops_back_def
        example_known_def pos_at_def example_naddr_def)
  ultimately show ?thesis
    using update_map_loop_free [OF wf_example_state example_offer_ok permutes_id u] u by blast
qed

theorem update_map_withdraws_witness:
  "\<exists>out s'. update_map id example_offer None example_state = (Ok out, s') \<and>
     (prepare_for_sending example_known (Finite 5))\<lparr>ep_cost := Dead\<rparr> \<in> set (um_all_paths out)"
proof -
  obtain out s' where u: "update_map id example_offer None example_state = (Ok out, s')" by (rule example_update)
  let ?x = "node_path_new 7 ((np_path example_known)\<lparr>ep_cost := Dead\<rparr>)"
  have "\<forall>y \<in> set example_offer. hops_arcs_equal y (np_path ?x) \<longrightarrow> ep_cost (np_path y) = Dead"
    by (simp add: example_offer_def example_revised_def hops_arcs_equal_def example_known_def)
  moreover have "example_known \<in> set (stored_paths example_state (HCoord 1 2))" by (simp add: example_stored)
  moreover have "hops_arcs_equal example_known (np_path ?x)" by (simp add: hops_arcs_equal_def)
  moreover have "arc_cost example_state (np_arc example_known) = Finite 5"
    by (simp add: arc_cost_def example_state_def example_known_def)
  ultimately show ?thesis
    using update_map_withdraws [OF wf_example_state example_offer_ok permutes_id u example_offer_mem(1)] u by metis
qed

theorem update_map_announces_witness:
  "\<exists>out s'. update_map id example_offer None example_state = (Ok out, s') \<and>
     (DestinationRemoved (HCoord 1 2) \<in> set (um_events out) \<longleftrightarrow> stored_paths s' (HCoord 1 2) = [])"
proof -
  obtain out s' where u: "update_map id example_offer None example_state = (Ok out, s')" by (rule example_update)
  from update_map_announces [OF wf_example_state example_offer_ok permutes_id u, of _ "HCoord 1 2"] u
  show ?thesis by (auto simp: example_stored)
qed

theorem update_map_keeps_cheapest_witness:
  "\<exists>out s'. update_map id example_offer None example_state = (Ok out, s') \<and>
     (\<exists>p \<in> set (stored_paths s' (HCoord 0 1)). total_cost p (arc_cost example_state (np_arc p)) \<le> Finite 5)"
proof -
  obtain out s' where u: "update_map id example_offer None example_state = (Ok out, s')" by (rule example_update)
  have "last (np_hops example_direct) = HCoord 0 1" "butlast (np_hops example_direct) = []"
    "total_cost example_direct (arc_cost example_state (np_arc example_direct)) = Finite 5"
    by (simp_all add: example_direct_def total_cost_def arc_cost_def example_state_def)
  moreover have "HCoord 0 1 \<in> touched example_offer"
    using example_offer_mem(2) by (force simp: touched_def example_direct_def)
  moreover have "0 < max_paths (st_config example_state)" by (simp add: example_state_def qspn_config_default_def)
  ultimately show ?thesis
    using update_map_keeps_cheapest [OF wf_example_state example_offer_ok permutes_id u, of example_direct]
      example_offer_mem(2) u by auto
qed

end
