(* ===== verification/Qspn_Connectivity.thy ===== *)
theory Qspn_Connectivity
  imports Qspn_MapLaws
begin

section \<open>Splits, connectivity identities and leaving a network (\<open>state.rs\<close>)\<close>

text \<open>
  The debounce set of pending splits and the re-check after the debounce, the change into a
  connectivity identity, its retirement test, and \<open>exit_network\<close>. Several operations select the arcs
  whose peer sits at a coordinate with some property; that selection is \<open>select_arcs\<close>.
\<close>

subsection \<open>Pending splits\<close>

definition begin_pending_split :: "fp \<Rightarrow> fp \<Rightarrow> qspn_state \<Rightarrow> bool \<times> qspn_state" where
  "begin_pending_split fp_eldest f s =
     (let key = (fp_key_of fp_eldest, fp_key_of f) in
      (key \<notin> st_pending s, s\<lparr>st_pending := insert key (st_pending s)\<rparr>))"

definition clear_pending_split :: "fp \<Rightarrow> fp \<Rightarrow> qspn_state \<Rightarrow> qspn_state" where
  "clear_pending_split fp_eldest f s =
     s\<lparr>st_pending := st_pending s - {(fp_key_of fp_eldest, fp_key_of f)}\<rparr>"

subsection \<open>Arcs by the coordinate of their peer\<close>

definition coord_of_peer :: "naddr \<Rightarrow> arc_entry \<Rightarrow> (hcoord option, qspn_error) res" where
  "coord_of_peer my e =
     (case ae_peer e of
        None \<Rightarrow> Ok None
      | Some peer \<Rightarrow> (case hcoord_of my peer of Ok v \<Rightarrow> Ok v | Err _ \<Rightarrow> Ok None | Panic \<Rightarrow> Panic))"

fun select_arcs ::
  "naddr \<Rightarrow> (arc_id \<Rightarrow> hcoord \<Rightarrow> bool) \<Rightarrow> (arc_id \<times> arc_entry) list \<Rightarrow> (arc_id list, qspn_error) res" where
  "select_arcs my P [] = Ok []"
| "select_arcs my P ((i, e) # arcs) =
     res_bind (coord_of_peer my e) (\<lambda>v.
     res_bind (select_arcs my P arcs) (\<lambda>is.
     Ok (case v of None \<Rightarrow> is | Some v \<Rightarrow> if P i v then i # is else is)))"

text \<open>The re-check of a split after its debounce.\<close>

definition split_still_live :: "hcoord \<Rightarrow> fp \<Rightarrow> fp \<Rightarrow> qspn_state \<Rightarrow> (arc_id list, qspn_error) res" where
  "split_still_live d fp_eldest f s =
     (case destination_at s (hc_level d) (hc_pos d) of
        None \<Rightarrow> Ok []
      | Some dest \<Rightarrow>
          (case find (\<lambda>np. identity_eq (np_fp np) fp_eldest) (dest_paths dest) of
             None \<Rightarrow> Ok []
           | Some eldest_now \<Rightarrow>
               (let healed =
                  (case find (\<lambda>np. identity_eq (np_fp np) f) (dest_paths dest) of
                     None \<Rightarrow> False
                   | Some fp_now \<Rightarrow> same_branch (np_fp fp_now) (np_fp eldest_now)
                       (np_nodes_inside fp_now) (np_nodes_inside eldest_now))
                in if healed then Ok []
                   else select_arcs (st_naddr s) (\<lambda>arc v. v = d \<and>
                     (case find (\<lambda>np. np_arc np = arc) (dest_paths dest) of
                        None \<Rightarrow> False | Some np \<Rightarrow> identity_eq (np_fp np) f)) (st_arcs s))))"

subsection \<open>\<open>make_connectivity\<close>\<close>

record make_connectivity_outcome =
  mc_old_position :: hcoord
  mc_events :: "qspn_event list"

definition rewrite_peers :: "(naddr \<Rightarrow> naddr) \<Rightarrow> arc_id list \<Rightarrow> (arc_id, arc_entry) btree_map \<Rightarrow> (arc_id, arc_entry) btree_map" where
  "rewrite_peers update_naddr internal arcs =
     foldl (\<lambda>m arc. bt_modify arc (\<lambda>e. e\<lparr>ae_peer := map_option update_naddr (ae_peer e)\<rparr>) m) arcs internal"

definition connectivity_guard :: "usize \<Rightarrow> usize \<Rightarrow> qspn_state \<Rightarrow> (hcoord, qspn_error) res" where
  "connectivity_guard from to s =
     (if to < from then Err (InvalidConnectivity ''from level exceeds to level'')
      else if levels_of s < to then Err (InvalidConnectivity ''to level exceeds levels'')
      else if from = 0 then Err (InvalidConnectivity ''from level must be > 0'')
      else
      res_bind (expect (pos_at (st_naddr s) (from - 1))) (\<lambda>old_pos.
      if is_virtual_at (st_naddr s) (from - 1) \<noteq> Some False
      then Err (InvalidConnectivity ''position at from level - 1 is not currently real'')
      else Ok (HCoord (from - 1) old_pos)))"

definition make_connectivity ::
  "usize \<Rightarrow> usize \<Rightarrow> (naddr \<Rightarrow> naddr) \<Rightarrow> (qspn_state, make_connectivity_outcome, qspn_error) st" where
  "make_connectivity from to update_naddr =
     st_bind (st_read (connectivity_guard from to)) (\<lambda>old.
     st_bind (st_read (\<lambda>s. select_arcs (st_naddr s) (\<lambda>_ v. hc_level v < from - 1) (st_arcs s))) (\<lambda>internal.
     st_bind (st_put (\<lambda>s. s\<lparr>st_naddr := update_naddr (st_naddr s),
         st_arcs := rewrite_peers update_naddr internal (st_arcs s),
         st_conn_from := from, st_conn_to := to\<rparr>)) (\<lambda>_.
     st_bind update_clusters (\<lambda>events s.
     (Ok \<lparr>mc_old_position = old, mc_events = events\<rparr>, s)))))"

subsection \<open>\<open>exit_network\<close>\<close>

record exit_network_outcome =
  en_events :: "qspn_event list"
  en_removed :: "arc_id list"

definition strip_events :: "level_map \<Rightarrow> qspn_event list" where
  "strip_events m = concat (map (\<lambda>(pos, d).
     map (\<lambda>np. PathRemoved (to_route_path np Dead)) (dest_paths d) @ [DestinationRemoved (dest_coord d)]) m)"

definition strip_destinations_at_or_above :: "usize \<Rightarrow> (qspn_state, qspn_event list, qspn_error) st" where
  "strip_destinations_at_or_above lvl s =
     (let top = levels_of s; from = min lvl top in
      if length (st_dests s) < top then (Panic, s)
      else (Ok (concat (map strip_events (drop from (take top (st_dests s))))),
            s\<lparr>st_dests := take from (st_dests s) @ replicate (top - from) [] @ drop top (st_dests s)\<rparr>))"

definition drop_departing :: "arc_id \<Rightarrow> (qspn_state, qspn_event list, qspn_error) st" where
  "drop_departing arc s =
     (let (removal, s') = remove_arc arc s in (Ok (ra_events removal @ [ArcRemoved arc False]), s'))"

definition exit_network :: "usize \<Rightarrow> (qspn_state, exit_network_outcome, qspn_error) st" where
  "exit_network lvl =
     st_bind (strip_destinations_at_or_above lvl) (\<lambda>stripped.
     st_bind update_clusters (\<lambda>climb1.
     st_bind (st_read (\<lambda>s. select_arcs (st_naddr s) (\<lambda>_ v. lvl \<le> hc_level v) (st_arcs s))) (\<lambda>removed.
     st_bind (st_concat drop_departing removed) (\<lambda>dropped.
     st_bind update_clusters (\<lambda>climb2 s.
     (Ok \<lparr>en_events = stripped @ climb1 @ dropped @ climb2, en_removed = removed\<rparr>, s))))))"

subsection \<open>\<open>check_connectivity\<close>\<close>

function find_level :: "usize \<Rightarrow> usize \<Rightarrow> level_map list \<Rightarrow> (usize option, qspn_error) res" where
  "find_level i j ds =
     (if j \<le> i then Ok None
      else res_bind (index ds i) (\<lambda>m. if m \<noteq> [] then Ok (Some i) else find_level (Suc i) j ds))"
  by pat_completeness auto
termination
  by (relation "measure (\<lambda>(i, j, ds). j - i)") auto

declare find_level.simps [simp del]

definition connectivity_is_retirable :: "qspn_state \<Rightarrow> (bool, qspn_error) res" where
  "connectivity_is_retirable s =
     res_bind (find_level (st_conn_from s - 1) (st_conn_to s) (st_dests s)) (\<lambda>found.
     case found of
       None \<Rightarrow> Ok True
     | Some i \<Rightarrow>
         res_bind (try_map (index (st_dests s)) [i..<st_conn_to s]) (\<lambda>ms.
         let x_set = map snd (concat ms) in
         res_bind (collect_entries i (concat (map dest_paths x_set))) (\<lambda>y_set.
         Ok (list_all (\<lambda>x. list_all (\<lambda>y. dest_coord x \<noteq> y \<longrightarrow>
              list_ex (\<lambda>np. y \<in> set (np_hops np)) (dest_paths x)) y_set) x_set))))"

definition check_connectivity :: "qspn_state \<Rightarrow> (bool, qspn_error) res" where
  "check_connectivity s =
     (if is_main_identity s then Err (InvalidConnectivity ''main identity has no connectivity range'')
      else if st_conn_to s < st_conn_from s \<or> levels_of s < st_conn_to s
      then Err (InvalidConnectivity ''connectivity range invalid'')
      else connectivity_is_retirable s)"


subsection \<open>Selecting arcs\<close>

definition peer_coord :: "naddr \<Rightarrow> arc_entry \<Rightarrow> hcoord option" where
  "peer_coord my e = Option.bind (ae_peer e) (\<lambda>a. case hcoord_of my a of Ok v \<Rightarrow> v | _ \<Rightarrow> None)"

definition selected :: "naddr \<Rightarrow> (arc_id \<Rightarrow> hcoord \<Rightarrow> bool) \<Rightarrow> arc_id \<times> arc_entry \<Rightarrow> bool" where
  "selected my P ie = (case peer_coord my (snd ie) of None \<Rightarrow> False | Some v \<Rightarrow> P (fst ie) v)"

lemma coord_of_peer_eq:
  assumes "wf_naddr my" "pred_option (wf_peer my) (ae_peer e)"
  shows "coord_of_peer my e = Ok (peer_coord my e)"
proof (cases "ae_peer e")
  case None
  then show ?thesis by (simp add: coord_of_peer_def peer_coord_def)
next
  case (Some a)
  then have "hcoord_of my a \<noteq> Panic" using assms by (simp add: wf_peer_def hcoord_of_not_Panic)
  with Some show ?thesis by (simp add: coord_of_peer_def peer_coord_def split: res.splits)
qed

lemma select_arcs_eq:
  assumes "wf_naddr my" "wf_arcs my arcs"
  shows "select_arcs my P arcs = Ok (map fst (filter (selected my P) arcs))"
proof -
  have "select_arcs my P xs = Ok (map fst (filter (selected my P) xs))" if "set xs \<subseteq> set arcs" for xs
    using that
  proof (induction xs)
    case (Cons x xs)
    obtain i e where x: "x = (i, e)" by (cases x)
    have "coord_of_peer my e = Ok (peer_coord my e)"
      using Cons.prems assms by (intro coord_of_peer_eq) (auto simp: wf_arcs_def x)
    with Cons show ?case by (auto simp: x selected_def split: option.splits)
  qed simp
  then show ?thesis by blast
qed

lemma wf_select_arcs:
  "wf_state s \<Longrightarrow> select_arcs (st_naddr s) P (st_arcs s) = Ok (map fst (filter (selected (st_naddr s) P) (st_arcs s)))"
  using wf_statesD(1,4) by (intro select_arcs_eq) auto

subsection \<open>Leaving a network\<close>

lemma remove_arc_stored:
  assumes "wf_state s" "remove_arc arc s = (out, s')"
  shows "stored_paths s' c = filter (\<lambda>np. np_arc np \<noteq> arc) (stored_paths s c)"
proof (cases "contains_arc s arc")
  case True
  from remove_arc_destination_at [OF assms(1) True assms(2), of "hc_level c" "hc_pos c"]
  show ?thesis
    by (auto simp: stored_paths_def without_arc_def drop_arc_paths_def only_via_def filter_empty_conv
        split: option.splits Option.bind_splits)
next
  case False
  then have s': "s' = s" using assms(2) by (simp add: remove_arc_def contains_arc_def)
  have "np_arc np \<noteq> arc" if "np \<in> set (stored_paths s c)" for np
  proof -
    have "np_arc np \<in> arc_ids s"
      using stored_paths_wf [OF assms(1), of c] that by (auto simp: wf_paths_def wf_stored_def)
    then show ?thesis using False by (auto simp: arc_ids_contains)
  qed
  then show ?thesis by (simp add: s')
qed

lemma remove_arc_arcs:
  assumes "remove_arc arc s = (out, s')"
  shows "st_arcs s' = filter (\<lambda>ie. fst ie \<noteq> arc) (st_arcs s)"
proof (cases "map_of (st_arcs s) arc = None")
  case True
  then have "\<forall>ie \<in> set (st_arcs s). fst ie \<noteq> arc" unfolding map_of_eq_None_iff by blast
  with True assms show ?thesis by (auto simp: remove_arc_def filter_id_conv)
next
  case False
  have "(\<lambda>(k', _). k' \<noteq> arc) = (\<lambda>ie :: arc_id \<times> arc_entry. fst ie \<noteq> arc)" by auto
  with False assms show ?thesis by (auto simp: remove_arc_def Let_def bt_remove_def)
qed

lemma remove_arc_bootstrap: "remove_arc arc s = (out, s') \<Longrightarrow> st_bootstrap s' = st_bootstrap s"
  by (cases "map_of (st_arcs s) arc") (auto simp: remove_arc_def Let_def)

text \<open>What dropping a list of arcs does: \<open>s'\<close> is \<open>s\<close> without the arcs and the paths through them.\<close>

definition without_arcs :: "arc_id set \<Rightarrow> qspn_state \<Rightarrow> qspn_state \<Rightarrow> bool" where
  "without_arcs A s s' \<longleftrightarrow>
     st_arcs s' = filter (\<lambda>ie. fst ie \<notin> A) (st_arcs s) \<and> st_naddr s' = st_naddr s \<and>
     st_bootstrap s' = st_bootstrap s \<and>
     (\<forall>c. stored_paths s' c = filter (\<lambda>np. np_arc np \<notin> A) (stored_paths s c))"

lemma drop_departing_run:
  assumes "wf_state s"
  shows "\<exists>evs s'. st_concat drop_departing arcs s = (Ok evs, s') \<and> wf_state s' \<and> without_arcs (set arcs) s s' \<and>
     (\<forall>arc b. ArcRemoved arc b \<in> set evs \<longrightarrow> arc \<in> set arcs \<and> \<not> b) \<and> (\<forall>arc \<in> set arcs. ArcRemoved arc False \<in> set evs)"
  using assms
proof (induction arcs arbitrary: s)
  case Nil
  then show ?case by (auto simp: without_arcs_def filter_True)
next
  case (Cons arc arcs)
  obtain rem s1 where r: "remove_arc arc s = (rem, s1)" by (cases "remove_arc arc s")
  have wf: "wf_state s1" "st_naddr s1 = st_naddr s" "st_bootstrap s1 = st_bootstrap s"
    using wf_remove_arc [OF Cons.prems r] remove_arc_bootstrap [OF r] by auto
  from Cons.IH [OF wf(1)] obtain evs s' where i: "st_concat drop_departing arcs s1 = (Ok evs, s')" "wf_state s'"
    "without_arcs (set arcs) s1 s'" "\<forall>arc b. ArcRemoved arc b \<in> set evs \<longrightarrow> arc \<in> set arcs \<and> \<not> b"
    "\<forall>arc \<in> set arcs. ArcRemoved arc False \<in> set evs" by blast
  have "ArcRemoved a b \<notin> set (ra_events rem)" for a b
  proof (cases "contains_arc s arc")
    case True
    then show ?thesis using remove_arc_events [OF Cons.prems True r] by auto
  next
    case False
    then show ?thesis using r by (auto simp: remove_arc_def contains_arc_def)
  qed
  moreover have "without_arcs (set (arc # arcs)) s s'"
    using i(3) remove_arc_arcs [OF r] remove_arc_stored [OF Cons.prems r] wf(2,3)
    by (simp add: without_arcs_def conj_commute)
  moreover have "st_concat drop_departing (arc # arcs) s = (Ok ((ra_events rem @ [ArcRemoved arc False]) @ evs), s')"
    using i(1) by (simp add: drop_departing_def st_bind_def r)
  ultimately show ?case using i(2,4,5) by (intro exI [of _ "(ra_events rem @ [ArcRemoved arc False]) @ evs"] exI [of _ s']) auto
qed


lemma in_set_drop_conv: "m \<in> set (drop k xs) \<longleftrightarrow> (\<exists>l < length xs. k \<le> l \<and> xs ! l = m)"
proof
  assume "m \<in> set (drop k xs)"
  then obtain i where "i < length xs - k" "xs ! (k + i) = m" by (auto simp: in_set_conv_nth)
  then show "\<exists>l < length xs. k \<le> l \<and> xs ! l = m" by (intro exI [of _ "k + i"]) simp
next
  assume "\<exists>l < length xs. k \<le> l \<and> xs ! l = m"
  then obtain l where l: "l < length xs" "k \<le> l" "xs ! l = m" by blast
  then have "drop k xs ! (l - k) = m" "l - k < length (drop k xs)" by simp_all
  then show "m \<in> set (drop k xs)" by (metis nth_mem)
qed

lemma strip_run:
  assumes "wf_state s"
  obtains evs s' where "strip_destinations_at_or_above lvl s = (Ok evs, s')" "wf_state s'" "same_but_dests s s'"
    "\<And>c. stored_paths s' c = (if lvl \<le> hc_level c then [] else stored_paths s c)"
    "\<And>d. DestinationRemoved d \<in> set evs \<longleftrightarrow> lvl \<le> hc_level d \<and> stored_paths s d \<noteq> []"
    "\<And>arc b. ArcRemoved arc b \<notin> set evs"
proof -
  let ?top = "levels_of s" and ?from = "min lvl (levels_of s)"
  obtain ds where ds: "ds = take ?from (st_dests s) @ replicate (?top - ?from) []" by blast
  let ?s = "s\<lparr>st_dests := ds\<rparr>" and ?evs = "concat (map strip_events (drop ?from (st_dests s)))"
  have len: "length (st_dests s) = ?top" using wf_statesD(7) [OF assms] .
  have run: "strip_destinations_at_or_above lvl s = (Ok ?evs, ?s)"
    using len by (simp add: strip_destinations_at_or_above_def Let_def ds)
  have ds_len: "length ds = ?top" using len by (simp add: ds)
  have nth: "ds ! l = (if lvl \<le> l then [] else st_dests s ! l)" if "l < ?top" for l
    using that len by (auto simp: ds nth_append)
  have same: "same_but_dests s ?s" by (simp add: same_but_dests_def)
  have "wf_dests ?top (arc_ids s) ds"
    using wf_statesD(6) [OF assms] ds_len nth by (auto simp: wf_dests_def wf_level_def hm.wf_empty)
  then have wf: "wf_state ?s" using assms same_but_dests_sel [OF same] by (simp add: wf_state_def)
  have stored: "stored_paths ?s c = (if lvl \<le> hc_level c then [] else stored_paths s c)" for c
    using nth [of "hc_level c"] len ds_len by (simp add: stored_paths_def destination_at_def)
  have "DestinationRemoved d \<in> set ?evs \<longleftrightarrow> lvl \<le> hc_level d \<and> stored_paths s d \<noteq> []" for d
  proof -
    have mem: "m \<in> set (drop ?from (st_dests s)) \<longleftrightarrow> (\<exists>l < ?top. lvl \<le> l \<and> st_dests s ! l = m)" for m
      unfolding in_set_drop_conv len by (metis linorder_not_less min_le_iff_disj)
    have "DestinationRemoved d \<in> set ?evs \<longleftrightarrow> (\<exists>m \<in> set (drop ?from (st_dests s)). \<exists>(pos, dd) \<in> set m. dest_coord dd = d)"
      by (auto simp: strip_events_def)
    also have "\<dots> \<longleftrightarrow> (\<exists>l < ?top. lvl \<le> l \<and> (\<exists>(pos, dd) \<in> set (st_dests s ! l). dest_coord dd = d))"
      unfolding Bex_def mem by blast
    also have "\<dots> \<longleftrightarrow> lvl \<le> hc_level d \<and> stored_paths s d \<noteq> []"
    proof
      assume "\<exists>l < ?top. lvl \<le> l \<and> (\<exists>(pos, dd) \<in> set (st_dests s ! l). dest_coord dd = d)"
      then obtain l pos dd where l: "l < ?top" "lvl \<le> l" "(pos, dd) \<in> set (st_dests s ! l)" "dest_coord dd = d" by blast
      then have w: "wf_dest ?top (arc_ids s) (HCoord l pos) dd" "hm_wf (st_dests s ! l)"
        using wf_dests_level [OF wf_statesD(6) [OF assms] l(1)] by (auto simp: wf_level_def)
      then have "d = HCoord l pos" "dest_paths dd \<noteq> []" using l(4) by (auto simp: wf_dest_def)
      moreover have "destination_at s l pos = Some dd"
        using l(1,3) len w(2) by (simp add: destination_at_def hm.entry_iff_get)
      ultimately show "lvl \<le> hc_level d \<and> stored_paths s d \<noteq> []" using l(2) by (simp add: stored_paths_def)
    next
      assume a: "lvl \<le> hc_level d \<and> stored_paths s d \<noteq> []"
      then obtain dd where dd: "destination_at s (hc_level d) (hc_pos d) = Some dd"
        by (auto simp: stored_paths_def split: option.splits)
      then have "dest_coord dd = d" "hc_level d < ?top"
        using wf_destination_at [OF assms dd] by (simp_all add: wf_dest_def)
      with a dd show "\<exists>l < ?top. lvl \<le> l \<and> (\<exists>(pos, dd) \<in> set (st_dests s ! l). dest_coord dd = d)"
        by (intro exI [of _ "hc_level d"]) (auto simp: destination_at_def split: if_splits dest!: map_of_SomeD)
    qed
    finally show ?thesis .
  qed
  moreover have "ArcRemoved arc b \<notin> set ?evs" for arc b by (auto simp: strip_events_def)
  ultimately show ?thesis using that [OF run wf same] stored by blast
qed

lemma stored_paths_clusters: "same_but_clusters s s' \<Longrightarrow> stored_paths s' c = stored_paths s c"
  using same_but_clusters_sel(11) by (simp add: stored_paths_def)


lemma exit_network_run:
  assumes "wf_state s"
  shows "\<exists>out s'. exit_network lvl s = (Ok out, s') \<and> wf_state s' \<and> st_naddr s' = st_naddr s \<and> st_bootstrap s' = st_bootstrap s \<and>
     en_removed out = map fst (filter (\<lambda>(i, e). \<exists>v. peer_coord (st_naddr s) e = Some v \<and> lvl \<le> hc_level v) (st_arcs s)) \<and>
     st_arcs s' = filter (\<lambda>(i, e). i \<notin> set (en_removed out)) (st_arcs s) \<and>
     (\<forall>d. stored_paths s' d = (if lvl \<le> hc_level d then [] else
        filter (\<lambda>np. np_arc np \<notin> set (en_removed out)) (stored_paths s d))) \<and>
     (\<forall>arc b. ArcRemoved arc b \<in> set (en_events out) \<longleftrightarrow> arc \<in> set (en_removed out) \<and> \<not> b) \<and>
     update_clusters s' = (Ok [], s')"
proof -
  obtain e1 s1 where 1: "strip_destinations_at_or_above lvl s = (Ok e1, s1)" "wf_state s1" "same_but_dests s s1"
    "\<And>c. stored_paths s1 c = (if lvl \<le> hc_level c then [] else stored_paths s c)"
    "\<And>arc b. ArcRemoved arc b \<notin> set e1" using strip_run [OF assms, of lvl] by metis
  obtain e2 s2 where 2: "update_clusters s1 = (Ok e2, s2)" "wf_state s2" "same_but_clusters s1 s2"
    "set e2 = cluster_changes s1 s2 1 (levels_of s1)" using update_clusters_run [OF 1(2)] by metis
  let ?P = "\<lambda>_ v. lvl \<le> hc_level v"
  obtain rem where rem: "rem = map fst (filter (selected (st_naddr s) ?P) (st_arcs s))" by blast
  have sel: "select_arcs (st_naddr s2) ?P (st_arcs s2) = Ok rem"
    using wf_select_arcs [OF 2(2)] same_but_clusters_sel [OF 2(3)] same_but_dests_sel [OF 1(3)] by (simp add: rem)
  obtain e3 s3 where 3: "st_concat drop_departing rem s2 = (Ok e3, s3)" "wf_state s3" "without_arcs (set rem) s2 s3"
    "\<forall>arc b. ArcRemoved arc b \<in> set e3 \<longrightarrow> arc \<in> set rem \<and> \<not> b" "\<forall>arc \<in> set rem. ArcRemoved arc False \<in> set e3"
    using drop_departing_run [OF 2(2)] by metis
  obtain e4 s4 where 4: "update_clusters s3 = (Ok e4, s4)" "wf_state s4" "same_but_clusters s3 s4"
    "clusters_ok s4 (levels_of s3)" "set e4 = cluster_changes s3 s4 1 (levels_of s3)"
    using update_clusters_run [OF 3(2)] by metis
  have run: "exit_network lvl s = (Ok \<lparr>en_events = e1 @ e2 @ e3 @ e4, en_removed = rem\<rparr>, s4)"
    using 1(1) 2(1) sel 3(1) 4(1) by (simp add: exit_network_def st_bind_def st_read_def)
  have "\<And>arc b. ArcRemoved arc b \<notin> set e2 \<union> set e4" using 2(4) 4(5) by (auto simp: cluster_changes_def)
  then have ev: "ArcRemoved arc b \<in> set (e1 @ e2 @ e3 @ e4) \<longleftrightarrow> arc \<in> set rem \<and> \<not> b" for arc b
    using 1(5) 3(4,5) by (cases b) auto
  have "levels_of s4 = levels_of s3" using 4(3) by (rule same_but_clusters_sel)
  then have again: "update_clusters s4 = (Ok [], s4)"
    unfolding update_clusters_def using 4(4) by (intro climb_again [OF 4(2)]) auto
  have arcs: "st_arcs s4 = filter (\<lambda>(i, e). i \<notin> set rem) (st_arcs s)"
    using same_but_clusters_sel(2) [OF 4(3)] 3(3) same_but_clusters_sel(2) [OF 2(3)] same_but_dests_sel(2) [OF 1(3)]
    by (simp add: without_arcs_def case_prod_unfold)
  have st: "stored_paths s4 d = (if lvl \<le> hc_level d then [] else filter (\<lambda>np. np_arc np \<notin> set rem) (stored_paths s d))" for d
    using stored_paths_clusters [OF 4(3)] 3(3) stored_paths_clusters [OF 2(3)] 1(4) by (simp add: without_arcs_def)
  have "selected (st_naddr s) ?P = (\<lambda>(i, e). \<exists>v. peer_coord (st_naddr s) e = Some v \<and> lvl \<le> hc_level v)"
    by (rule ext) (auto simp: selected_def split: option.splits)
  moreover have "st_naddr s4 = st_naddr s" "st_bootstrap s4 = st_bootstrap s"
    using same_but_clusters_sel [OF 4(3)] 3(3) same_but_clusters_sel [OF 2(3)] same_but_dests_sel [OF 1(3)]
    by (simp_all add: without_arcs_def)
  ultimately show ?thesis using run 4(2) arcs st ev again rem by simp
qed

text \<open>C36: from a well-formed state leaving the network at \<open>lvl\<close> always succeeds: no destination at or
  above \<open>lvl\<close> is left, exactly the arcs whose peer sits at such a coordinate are gone, each reported
  once as a removal that is no bad link, and of the destinations below only the paths through those
  arcs are lost. The node's own chain is consistent again, and the second strip upstream performs
  would find nothing.\<close>

theorem exit_network_correct:
  assumes "wf_state s"
  shows "\<exists>out s'. exit_network lvl s = (Ok out, s') \<and> wf_state s' \<and>
     en_removed out = map fst (filter (\<lambda>(i, e). \<exists>v. peer_coord (st_naddr s) e = Some v \<and> lvl \<le> hc_level v) (st_arcs s)) \<and>
     st_arcs s' = filter (\<lambda>(i, e). i \<notin> set (en_removed out)) (st_arcs s) \<and>
     (\<forall>d. stored_paths s' d = (if lvl \<le> hc_level d then [] else
        filter (\<lambda>np. np_arc np \<notin> set (en_removed out)) (stored_paths s d))) \<and>
     (\<forall>arc b. ArcRemoved arc b \<in> set (en_events out) \<longleftrightarrow> arc \<in> set (en_removed out) \<and> \<not> b) \<and>
     update_clusters s' = (Ok [], s')"
  using exit_network_run [OF assms, of lvl] by blast

theorem exit_network_correct_witness:
  "\<exists>out s'. exit_network 1 example_state = (Ok out, s') \<and> stored_paths s' (HCoord 1 2) = [] \<and> en_removed out = []"
proof -
  have "hcoord_of (example_naddr 0 0) (example_naddr 1 0) = Ok (Some (HCoord 0 1))"
    by (simp add: hcoord_of_def example_naddr_def index_def)
  then have "filter (\<lambda>(i, e). \<exists>v. peer_coord (st_naddr example_state) e = Some v \<and> 1 \<le> hc_level v) (st_arcs example_state) = []"
    by (simp add: example_state_def peer_coord_def)
  then show ?thesis using exit_network_correct [OF wf_example_state, of 1] by auto
qed

subsection \<open>Connectivity identities\<close>

definition connectivity_valid :: "usize \<Rightarrow> usize \<Rightarrow> qspn_state \<Rightarrow> bool" where
  "connectivity_valid from to s \<longleftrightarrow> 0 < from \<and> from \<le> to \<and> to \<le> levels_of s \<and>
     is_virtual_at (st_naddr s) (from - 1) = Some False"

lemma connectivity_guard_eq:
  assumes "wf_state s"
  shows "if connectivity_valid from to s
     then \<exists>pos. pos_at (st_naddr s) (from - 1) = Some pos \<and> connectivity_guard from to s = Ok (HCoord (from - 1) pos)
     else \<exists>msg. connectivity_guard from to s = Err (InvalidConnectivity msg)"
proof -
  have "length (naddr_pos (st_naddr s)) = levels_of s"
    using wf_statesD(1) [OF assms] by (simp add: wf_naddr_def levels_of_def topology_levels_def)
  then have "\<exists>pos. pos_at (st_naddr s) (from - 1) = Some pos" if "0 < from" "from \<le> to" "to \<le> levels_of s"
    using that by (simp add: pos_at_def)
  then show ?thesis
  proof (cases "0 < from \<and> from \<le> to \<and> to \<le> levels_of s")
    case False
    then show ?thesis by (simp add: connectivity_guard_def connectivity_valid_def) linarith
  qed (fastforce simp: connectivity_guard_def connectivity_valid_def)
qed

lemma rewrite_peers_wf:
  assumes "wf_arcs my arcs" "\<And>a. wf_peer my a \<Longrightarrow> wf_peer my (f a)"
  shows "wf_arcs my (rewrite_peers f internal arcs)" "map fst (rewrite_peers f internal arcs) = map fst arcs"
proof -
  have "wf_arcs my (rewrite_peers f internal arcs) \<and> map fst (rewrite_peers f internal arcs) = map fst arcs"
    using assms(1)
  proof (induction internal arbitrary: arcs)
    case Nil
    then show ?case by (simp add: rewrite_peers_def)
  next
    case (Cons i js)
    let ?m = "bt_modify i (\<lambda>e. e\<lparr>ae_peer := map_option f (ae_peer e)\<rparr>) arcs"
    have "wf_arcs my ?m"
      using Cons.prems by (rule wf_arcs_modify) (auto simp: assms(2) pred_option_def split: option.splits)
    from Cons.IH [OF this] show ?case by (simp add: rewrite_peers_def)
  qed
  then show "wf_arcs my (rewrite_peers f internal arcs)" "map fst (rewrite_peers f internal arcs) = map fst arcs" by auto
qed

lemma make_connectivity_run:
  assumes "wf_state s" and "\<And>a. wf_peer (st_naddr s) a \<Longrightarrow> wf_peer (st_naddr s) (update_naddr a)"
  shows "if connectivity_valid from to s
     then \<exists>pos out s'. pos_at (st_naddr s) (from - 1) = Some pos \<and>
       make_connectivity from to update_naddr s = (Ok out, s') \<and> mc_old_position out = HCoord (from - 1) pos \<and>
       wf_state s' \<and> st_bootstrap s' = st_bootstrap s \<and> st_naddr s' = update_naddr (st_naddr s) \<and> arc_ids s' = arc_ids s \<and>
       st_dests s' = st_dests s \<and> \<not> is_main_identity s' \<and>
       st_conn_from s' = from \<and> st_conn_to s' = to \<and> check_connectivity s' = connectivity_is_retirable s'
     else \<exists>msg. make_connectivity from to update_naddr s = (Err (InvalidConnectivity msg), s)"
proof (cases "connectivity_valid from to s")
  case False
  then obtain msg where "connectivity_guard from to s = Err (InvalidConnectivity msg)"
    using connectivity_guard_eq [OF assms(1), of "from" to] by auto
  with False show ?thesis by (auto simp: make_connectivity_def st_bind_def st_read_def)
next
  case True
  then obtain pos where pos: "pos_at (st_naddr s) (from - 1) = Some pos"
    "connectivity_guard from to s = Ok (HCoord (from - 1) pos)"
    using connectivity_guard_eq [OF assms(1), of "from" to] by auto
  let ?my = "st_naddr s"
  have my: "wf_peer ?my ?my" using wf_statesD(1) [OF assms(1)] by (simp add: wf_peer_def)
  then have up: "wf_naddr (update_naddr ?my)" "naddr_topology (update_naddr ?my) = naddr_topology ?my"
    using assms(2) [OF my] by (simp_all add: wf_peer_def)
  obtain ints where i: "select_arcs ?my (\<lambda>_ v. hc_level v < from - 1) (st_arcs s) = Ok ints"
    using wf_select_arcs [OF assms(1)] by blast
  let ?arcs = "rewrite_peers update_naddr ints (st_arcs s)"
  let ?s = "s\<lparr>st_naddr := update_naddr ?my, st_arcs := ?arcs, st_conn_from := from, st_conn_to := to\<rparr>"
  have keys: "map fst ?arcs = map fst (st_arcs s)" and arcs: "wf_arcs ?my ?arcs"
    using rewrite_peers_wf [OF wf_statesD(4) [OF assms(1)], of update_naddr ints] assms(2) by auto
  have ids: "arc_ids ?s = arc_ids s" using arg_cong [OF keys, of set] by (simp add: arc_ids_def)
  have lv: "levels_of ?s = levels_of s" using up(2) by (simp add: levels_of_def)
  have "wf_peer (update_naddr ?my) = wf_peer ?my" by (rule ext) (simp add: wf_peer_def up(2))
  then have "wf_arcs (update_naddr ?my) ?arcs" using arcs by (simp add: wf_arcs_def)
  then have wf: "wf_state ?s"
    using assms(1) up ids lv unfolding wf_state_def by simp
  obtain evs s' where c: "update_clusters ?s = (Ok evs, s')" "wf_state s'" "same_but_clusters ?s s'"
    using update_clusters_run [OF wf] by metis
  note sel = same_but_clusters_sel [OF c(3)]
  have run: "make_connectivity from to update_naddr s = (Ok \<lparr>mc_old_position = HCoord (from - 1) pos, mc_events = evs\<rparr>, s')"
    using pos(2) i c(1) by (simp add: make_connectivity_def st_bind_def st_read_def st_put_def)
  have "0 < from" "from \<le> to" "to \<le> levels_of s" using True by (auto simp: connectivity_valid_def)
  then have "\<not> is_main_identity s'" "check_connectivity s' = connectivity_is_retirable s'"
    using sel lv by (auto simp: check_connectivity_def is_main_identity_def)
  then show ?thesis using True pos(1) run c(2) sel ids by simp
qed

text \<open>A request for a connectivity range is refused exactly when the range is empty, starts at 0,
  ends above the hierarchy, or this node's position below it is virtual, and a refused request leaves
  the state alone. An accepted one, for a rewrite of addresses that keeps them well formed and of the
  same topology, succeeds with a well-formed state at the rewritten address that keeps every arc and
  every path, reports the vacated position, and is no longer a main identity: its retirement test
  is then defined.\<close>

theorem make_connectivity_correct:
  assumes "wf_state s" and "\<And>a. wf_peer (st_naddr s) a \<Longrightarrow> wf_peer (st_naddr s) (update_naddr a)"
  shows "if connectivity_valid from to s
     then \<exists>pos out s'. pos_at (st_naddr s) (from - 1) = Some pos \<and>
       make_connectivity from to update_naddr s = (Ok out, s') \<and> mc_old_position out = HCoord (from - 1) pos \<and>
       wf_state s' \<and> st_naddr s' = update_naddr (st_naddr s) \<and> arc_ids s' = arc_ids s \<and>
       st_dests s' = st_dests s \<and> \<not> is_main_identity s' \<and>
       st_conn_from s' = from \<and> st_conn_to s' = to \<and> check_connectivity s' = connectivity_is_retirable s'
     else \<exists>msg. make_connectivity from to update_naddr s = (Err (InvalidConnectivity msg), s)"
proof (cases "connectivity_valid from to s")
  case True
  with make_connectivity_run [of s update_naddr "from" to, OF assms] show ?thesis by simp blast
next
  case False
  with make_connectivity_run [of s update_naddr "from" to, OF assms] show ?thesis by simp
qed

theorem make_connectivity_correct_witness:
  "\<exists>out s'. make_connectivity 1 2 id example_state = (Ok out, s') \<and> mc_old_position out = HCoord 0 0 \<and> \<not> is_main_identity s'"
proof -
  have "connectivity_valid 1 2 example_state"
    by (simp add: connectivity_valid_def levels_of_example)
       (simp add: example_state_def is_virtual_at_def pos_at_def topology_gsize_def example_naddr_def example_topology_def)
  moreover have "pos_at (st_naddr example_state) 0 = Some 0" by (simp add: example_state_def example_naddr_def pos_at_def)
  ultimately show ?thesis using make_connectivity_correct [OF wf_example_state, of id 1 2] by auto
qed

text \<open>On a path whose levels never fall, the scan finds the first hop of its level.\<close>

lemma scan_hops_sorted:
  "sorted (map hc_level (y # ys)) \<Longrightarrow> hc_level y \<noteq> i \<Longrightarrow> scan_hops i y ys = find (\<lambda>h. hc_level h = i) ys"
proof (induction ys arbitrary: y)
  case (Cons z zs)
  then show ?case by (cases "hc_level z = i") auto
qed simp

lemma gnode_entry_sorted:
  assumes "hops \<noteq> []" "sorted (map hc_level hops)"
  shows "gnode_entry i hops = Ok (find (\<lambda>h. hc_level h = i) hops)"
  using assms scan_hops_sorted [of "hd hops" "tl hops" i] by (cases hops) (auto simp: gnode_entry_def)

definition entry_hops :: "usize \<Rightarrow> node_path list \<Rightarrow> hcoord set" where
  "entry_hops i ps = {y. \<exists>np \<in> set ps. find (\<lambda>h. hc_level h = i) (np_hops np) = Some y}"

lemma collect_entries_spec:
  assumes "\<forall>np \<in> set ps. np_hops np \<noteq> [] \<and> sorted (map hc_level (np_hops np))"
  shows "\<exists>ys. collect_entries i ps = Ok ys \<and> set ys = entry_hops i ps"
proof -
  let ?f = "\<lambda>y_set np. res_bind (gnode_entry i (np_hops np)) (\<lambda>entry.
       Ok (case entry of None \<Rightarrow> y_set | Some y \<Rightarrow> push_new y y_set))"
  have "\<exists>ys. fold_res ?f acc qs = Ok ys \<and> set ys = set acc \<union> entry_hops i qs" if "set qs \<subseteq> set ps" for acc qs
    using that
  proof (induction qs arbitrary: acc)
    case (Cons np qs)
    let ?e = "find (\<lambda>h. hc_level h = i) (np_hops np)"
    have g: "gnode_entry i (np_hops np) = Ok ?e" using assms Cons.prems by (intro gnode_entry_sorted) auto
    let ?acc = "case ?e of None \<Rightarrow> acc | Some y \<Rightarrow> push_new y acc"
    have "set ?acc \<union> entry_hops i qs = set acc \<union> entry_hops i (np # qs)"
      by (auto simp: entry_hops_def push_new_def split: option.splits)
    then show ?case using Cons.IH [of ?acc] Cons.prems g by simp
  qed (simp add: entry_hops_def)
  from this [of ps "[]"] show ?thesis by (simp add: collect_entries_def)
qed

lemma find_level_spec:
  assumes "j \<le> length ds"
  shows "find_level i j ds =
     Ok (if \<exists>l. i \<le> l \<and> l < j \<and> ds ! l \<noteq> [] then Some (LEAST l. i \<le> l \<and> l < j \<and> ds ! l \<noteq> []) else None)"
  using assms
proof (induction i j ds rule: find_level.induct)
  case (1 i j ds)
  show ?case
  proof (cases "i < j \<and> ds ! i = []")
    case True
    then have "(i \<le> l \<and> l < j \<and> ds ! l \<noteq> []) = (Suc i \<le> l \<and> l < j \<and> ds ! l \<noteq> [])" for l
      by (metis Suc_leD le_neq_implies_less Suc_leI)
    then show ?thesis using 1 True by (subst find_level.simps) (simp, blast)
  next
    case False
    then consider "j \<le> i" | "i < j" "ds ! i \<noteq> []" by force
    then show ?thesis
    proof cases
      case 2
      then have "(LEAST l. i \<le> l \<and> l < j \<and> ds ! l \<noteq> []) = i" by (intro Least_equality) auto
      then show ?thesis using 2 1(2) by (subst find_level.simps) auto
    qed (subst find_level.simps, auto)
  qed
qed


lemma level_nonempty:
  assumes "wf_state s" "l < levels_of s"
  shows "st_dests s ! l \<noteq> [] \<longleftrightarrow> (\<exists>d. hc_level d = l \<and> stored_paths s d \<noteq> [])"
proof
  assume "st_dests s ! l \<noteq> []"
  then obtain pos dd where e: "(pos, dd) \<in> set (st_dests s ! l)" by (cases "st_dests s ! l") auto
  then have "wf_dest (levels_of s) (arc_ids s) (HCoord l pos) dd" "hm_wf (st_dests s ! l)"
    using wf_dests_level [OF wf_statesD(6) [OF assms(1)] assms(2)] by (auto simp: wf_level_def)
  then have "stored_paths s (HCoord l pos) \<noteq> []"
    using e assms(2) wf_statesD(7) [OF assms(1)]
    by (simp add: stored_paths_def destination_at_def wf_dest_def hm.entry_iff_get)
  then show "\<exists>d. hc_level d = l \<and> stored_paths s d \<noteq> []" by (intro exI [of _ "HCoord l pos"]) simp
qed (auto simp: stored_paths_def destination_at_def split: option.splits if_splits)

lemma levels_slice_dests:
  assumes "wf_state s" "j \<le> levels_of s"
  shows "x \<in> set (map snd (concat (map ((!) (st_dests s)) [i..<j]))) \<longleftrightarrow>
     (\<exists>d. i \<le> hc_level d \<and> hc_level d < j \<and> stored_paths s d \<noteq> [] \<and> dest_coord x = d \<and> dest_paths x = stored_paths s d)"
proof
  assume "x \<in> set (map snd (concat (map ((!) (st_dests s)) [i..<j])))"
  then obtain l pos where e: "i \<le> l" "l < j" "(pos, x) \<in> set (st_dests s ! l)" by auto
  then have "wf_dest (levels_of s) (arc_ids s) (HCoord l pos) x" "hm_wf (st_dests s ! l)"
    using wf_dests_level [OF wf_statesD(6) [OF assms(1)], of l] assms(2) by (auto simp: wf_level_def)
  moreover from this have "destination_at s l pos = Some x"
    using e assms(2) wf_statesD(7) [OF assms(1)] by (simp add: destination_at_def hm.entry_iff_get)
  ultimately show "\<exists>d. i \<le> hc_level d \<and> hc_level d < j \<and> stored_paths s d \<noteq> [] \<and> dest_coord x = d \<and> dest_paths x = stored_paths s d"
    using e by (intro exI [of _ "HCoord l pos"]) (simp add: wf_dest_def stored_paths_def)
next
  assume "\<exists>d. i \<le> hc_level d \<and> hc_level d < j \<and> stored_paths s d \<noteq> [] \<and> dest_coord x = d \<and> dest_paths x = stored_paths s d"
  then obtain d where d: "i \<le> hc_level d" "hc_level d < j" "stored_paths s d \<noteq> []" "dest_coord x = d" "dest_paths x = stored_paths s d"
    by blast
  then obtain y where y: "destination_at s (hc_level d) (hc_pos d) = Some y"
    by (auto simp: stored_paths_def split: option.splits)
  then have "dest_coord y = d" "dest_paths y = stored_paths s d"
    using wf_destination_at(2) [OF assms(1) y] by (simp_all add: wf_dest_def stored_paths_def)
  then have "y = x" using d(4,5) by simp
  then have "(hc_pos d, x) \<in> set (st_dests s ! hc_level d)"
    using y by (auto simp: destination_at_def split: if_splits dest: map_of_SomeD)
  with d(1,2) show "x \<in> set (map snd (concat (map ((!) (st_dests s)) [i..<j])))" by force
qed

text \<open>The retirement test of a connectivity identity, said over the map. \<open>bridges s i\<close>: the lowest
  level of the range with a destination is \<open>i\<close>.\<close>

definition in_conn_range :: "qspn_state \<Rightarrow> hcoord \<Rightarrow> bool" where
  "in_conn_range s d \<longleftrightarrow> st_conn_from s - 1 \<le> hc_level d \<and> hc_level d < st_conn_to s \<and> stored_paths s d \<noteq> []"

definition bridges :: "qspn_state \<Rightarrow> usize \<Rightarrow> bool" where
  "bridges s i \<longleftrightarrow> (\<exists>d. in_conn_range s d \<and> hc_level d = i) \<and> (\<forall>d. in_conn_range s d \<longrightarrow> i \<le> hc_level d)"

definition bridge_hops :: "qspn_state \<Rightarrow> usize \<Rightarrow> hcoord set" where
  "bridge_hops s i = {y. \<exists>d np. in_conn_range s d \<and> np \<in> set (stored_paths s d) \<and>
     find (\<lambda>h. hc_level h = i) (np_hops np) = Some y}"

definition retirable :: "qspn_state \<Rightarrow> bool" where
  "retirable s \<longleftrightarrow> (\<forall>i x y. bridges s i \<and> in_conn_range s x \<and> y \<in> bridge_hops s i \<and> x \<noteq> y \<longrightarrow>
     (\<exists>np \<in> set (stored_paths s x). y \<in> set (np_hops np)))"

lemma find_bridge_level:
  assumes "wf_state s" "st_conn_to s \<le> levels_of s"
  obtains (none) "find_level (st_conn_from s - 1) (st_conn_to s) (st_dests s) = Ok None" "\<And>d. \<not> in_conn_range s d"
  | (found) i where "find_level (st_conn_from s - 1) (st_conn_to s) (st_dests s) = Ok (Some i)" "bridges s i"
      "st_conn_from s - 1 \<le> i"
proof -
  let ?P = "\<lambda>l. st_conn_from s - 1 \<le> l \<and> l < st_conn_to s \<and> st_dests s ! l \<noteq> []"
  have P: "?P l \<longleftrightarrow> (\<exists>d. in_conn_range s d \<and> hc_level d = l)" for l
    using level_nonempty [OF assms(1), of l] assms(2) by (auto simp: in_conn_range_def)
  have f: "find_level (st_conn_from s - 1) (st_conn_to s) (st_dests s) = Ok (if \<exists>l. ?P l then Some (LEAST l. ?P l) else None)"
    by (rule find_level_spec) (use assms(2) wf_statesD(7) [OF assms(1)] in simp)
  show ?thesis
  proof (cases "\<exists>l. ?P l")
    case True
    have "?P (LEAST l. ?P l)" using LeastI_ex [OF True] .
    moreover have "(LEAST l. ?P l) \<le> hc_level d" if "in_conn_range s d" for d
      using P [of "hc_level d"] that by (intro Least_le) blast
    ultimately show ?thesis using found [of "LEAST l. ?P l"] f True P unfolding bridges_def by auto
  next
    case False
    then show ?thesis using none f P by auto
  qed
qed

lemma check_connectivity_eq:
  assumes "wf_state s"
  shows "check_connectivity s =
     (if st_conn_from s = 0 then Err (InvalidConnectivity ''main identity has no connectivity range'')
      else if st_conn_from s \<le> st_conn_to s \<and> st_conn_to s \<le> levels_of s then Ok (retirable s)
      else Err (InvalidConnectivity ''connectivity range invalid''))"
proof (cases "st_conn_from s \<noteq> 0 \<and> st_conn_from s \<le> st_conn_to s \<and> st_conn_to s \<le> levels_of s")
  case False
  then show ?thesis by (auto simp: check_connectivity_def is_main_identity_def)
next
  case True
  then have to: "st_conn_to s \<le> levels_of s" by simp
  have "connectivity_is_retirable s = Ok (retirable s)"
    using assms to
  proof (cases rule: find_bridge_level)
    case none
    then show ?thesis by (simp add: connectivity_is_retirable_def retirable_def)
  next
    case (found i)
    let ?ms = "map ((!) (st_dests s)) [i..<st_conn_to s]"
    obtain xs where xs: "xs = map snd (concat ?ms)" by blast
    have rng: "i \<le> hc_level d \<and> hc_level d < st_conn_to s \<and> stored_paths s d \<noteq> [] \<longleftrightarrow> in_conn_range s d" for d
      using found(2,3) by (auto simp: bridges_def in_conn_range_def)
    have x: "x \<in> set xs \<longleftrightarrow> in_conn_range s (dest_coord x) \<and> dest_paths x = stored_paths s (dest_coord x)" for x
      unfolding xs levels_slice_dests [OF assms to] using rng by auto
    have ex: "\<exists>x \<in> set xs. dest_coord x = d \<and> dest_paths x = stored_paths s d" if "in_conn_range s d" for d
      using x [of "\<lparr>dest_coord = d, dest_paths = stored_paths s d\<rparr>"] that by (intro bexI) auto
    have ms: "try_map (index (st_dests s)) [i..<st_conn_to s] = (Ok ?ms :: (level_map list, qspn_error) res)"
      using to wf_statesD(7) [OF assms] by (intro try_map_all_Ok) auto
    have "np_hops np \<noteq> [] \<and> sorted (map hc_level (np_hops np))" if "np \<in> set (concat (map dest_paths xs))" for np
    proof -
      from that obtain d where "np \<in> set (stored_paths s d)" using x by auto
      then have "wf_node_path (levels_of s) np" using stored_paths_wf [OF assms] by (auto simp: wf_paths_def wf_stored_def)
      then show ?thesis by (simp add: wf_node_path_def wf_path_def)
    qed
    then obtain ys where ys: "collect_entries i (concat (map dest_paths xs)) = Ok ys"
      "set ys = entry_hops i (concat (map dest_paths xs))" using collect_entries_spec by blast
    have "entry_hops i (concat (map dest_paths xs)) = bridge_hops s i"
      unfolding entry_hops_def bridge_hops_def using x ex by (auto; metis)
    then have y: "set ys = bridge_hops s i" using ys(2) by simp
    have uniq: "bridges s k \<longleftrightarrow> k = i" for k using found(2) by (auto simp: bridges_def intro: order.antisym)
    have "retirable s \<longleftrightarrow> list_all (\<lambda>x. list_all (\<lambda>y. dest_coord x \<noteq> y \<longrightarrow>
              list_ex (\<lambda>np. y \<in> set (np_hops np)) (dest_paths x)) ys) xs"
      unfolding retirable_def list_all_iff list_ex_iff y uniq using x ex by (auto; metis)
    then show ?thesis using found(1) ms ys(1) xs by (simp add: connectivity_is_retirable_def Let_def)
  qed
  then show ?thesis using True by (simp add: check_connectivity_def is_main_identity_def)
qed


text \<open>The retirement test never panics; it refuses a main identity and an invalid range, and
  otherwise answers exactly whether, with \<open>i\<close> the lowest level of the range that has a destination,
  every destination of the range is, or has a path through, each g-node of level \<open>i\<close> by which some
  path of the range first enters that level.\<close>

theorem check_connectivity_correct:
  assumes "wf_state s"
  shows "check_connectivity s =
     (if st_conn_from s = 0 then Err (InvalidConnectivity ''main identity has no connectivity range'')
      else if st_conn_from s \<le> st_conn_to s \<and> st_conn_to s \<le> levels_of s then Ok (retirable s)
      else Err (InvalidConnectivity ''connectivity range invalid''))"
  by (rule check_connectivity_eq [OF assms])

theorem check_connectivity_correct_witness:
  "\<exists>b. check_connectivity (example_state\<lparr>st_conn_from := 1, st_conn_to := 2\<rparr>) = Ok b"
proof -
  let ?s = "example_state\<lparr>st_conn_from := 1, st_conn_to := 2\<rparr>"
  have "levels_of ?s = 2" using levels_of_example by (simp add: levels_of_def)
  moreover have "wf_state ?s" using wf_example_state by (simp add: wf_state_def levels_of_def arc_ids_def)
  ultimately show ?thesis using check_connectivity_correct [of ?s] by simp
qed

end
