(* ===== verification/Qspn_Flood.thy ===== *)
theory Qspn_Flood
  imports Qspn_Connectivity
begin

section \<open>Outgoing messages (\<open>ntk-qspn/src/flood.rs\<close>)\<close>

text \<open>
  The construction of every ETP this node sends: the header (own address, fingerprints and sizes), the
  paths with the cost of the arc added, and the \<open>ignore_outside\<close> flags. The lemmas show that
  construction cannot panic on a well-formed state and that its result passes the receivers' gate.
\<close>

definition prepare_new_etp :: "qspn_state \<Rightarrow> etp_path list \<Rightarrow> hcoord list \<Rightarrow> (etp_message, qspn_error) res" where
  "prepare_new_etp s paths etp_hops =
     res_bind (try_map (\<lambda>l. expect (fingerprint_at s l)) [0..<Suc (levels_of s)]) (\<lambda>fps.
     res_bind (try_map (\<lambda>l. expect (nodes_inside_at s l)) [0..<Suc (levels_of s)]) (\<lambda>nns.
     Ok \<lparr>em_node_address = st_naddr s, em_fingerprints = fps, em_nodes_inside = nns,
         em_hops = etp_hops, em_paths = paths\<rparr>))"

text \<open>\<open>(0..j).all(...)\<close> with a body that may panic.\<close>

fun all_res :: "('a \<Rightarrow> (bool, 'e) res) \<Rightarrow> 'a list \<Rightarrow> (bool, 'e) res" where
  "all_res f [] = Ok True"
| "all_res f (x # xs) = res_bind (f x) (\<lambda>b. if b then all_res f xs else Ok False)"

definition same_up_to :: "usize \<Rightarrow> etp_path \<Rightarrow> etp_path \<Rightarrow> (bool, qspn_error) res" where
  "same_up_to j best p =
     (if length (ep_hops best) \<noteq> j + 1 then Ok False
      else all_res (\<lambda>k.
        res_bind (index (ep_hops best) k) (\<lambda>h1. res_bind (index (ep_hops p) k) (\<lambda>h2.
        if h1 \<noteq> h2 then Ok False
        else res_bind (index (ep_arcs best) k) (\<lambda>a1. res_bind (index (ep_arcs p) k) (\<lambda>a2. Ok (a1 = a2)))))) [0..<j])"

text \<open>The cheapest stored path to a destination whose last arc is \<open>arc\<close>; the first among equals.\<close>

definition best_via :: "qspn_state \<Rightarrow> destination \<Rightarrow> arc_id \<Rightarrow> node_path option" where
  "best_via s d arc =
     min_by_key (\<lambda>q. total_cost q (arc_cost s (np_arc q)))
       (filter (\<lambda>q. np_arcs q \<noteq> [] \<and> last (np_arcs q) = arc) (dest_paths d))"

definition ignore_at :: "qspn_state \<Rightarrow> etp_path \<Rightarrow> usize \<Rightarrow> usize \<Rightarrow> (bool, qspn_error) res" where
  "ignore_at s p last_level i =
     (if last_level < i then Ok True
      else
      res_bind (expect (position (\<lambda>h. i \<le> hc_level h) (ep_hops p))) (\<lambda>j.
      res_bind (index (ep_hops p) j) (\<lambda>hop.
      case destination_at s (hc_level hop) (hc_pos hop) of
        None \<Rightarrow> Ok False
      | Some d \<Rightarrow>
          if dest_paths d = [] then Ok False
          else
          res_bind (index (ep_arcs p) j) (\<lambda>arc_j.
          case best_via s d arc_j of
            None \<Rightarrow> Ok False
          | Some best \<Rightarrow> res_bind (same_up_to j (np_path best) p) (\<lambda>same. Ok (\<not> same))))))"

definition set_ignore_outside_for_sending :: "qspn_state \<Rightarrow> etp_path \<Rightarrow> (etp_path, qspn_error) res" where
  "set_ignore_outside_for_sending s p =
     (if ep_hops p = [] then Panic
      else res_bind (try_map (ignore_at s p (hc_level (last (ep_hops p)))) [1..<levels_of s]) (\<lambda>flags.
        Ok (p\<lparr>ep_ignore_outside := False # flags\<rparr>)))"

definition finalize_for_sending :: "qspn_state \<Rightarrow> etp_path list \<Rightarrow> (etp_path list, qspn_error) res" where
  "finalize_for_sending s paths = try_map (set_ignore_outside_for_sending s) paths"

definition prepare_full_etp :: "qspn_state \<Rightarrow> (etp_message, qspn_error) res" where
  "prepare_full_etp s =
     res_bind (try_map (\<lambda>np. set_ignore_outside_for_sending s (prepare_for_sending np (arc_cost s (np_arc np))))
       (concat (map (all_paths_at s) [0..<levels_of s]))) (\<lambda>paths.
     prepare_new_etp s paths [])"

subsection \<open>The flags\<close>

lemma all_res_Ok: "(\<And>x. x \<in> set xs \<Longrightarrow> f x = Ok (g x)) \<Longrightarrow> all_res f xs = Ok (list_all g xs)"
  by (induction xs) auto

lemma same_up_to_eq:
  assumes "length (ep_arcs best) = length (ep_hops best)" "length (ep_arcs p) = length (ep_hops p)" "j < length (ep_hops p)"
  shows "same_up_to j best p = Ok (length (ep_hops best) = j + 1 \<and>
     take j (ep_hops best) = take j (ep_hops p) \<and> take j (ep_arcs best) = take j (ep_arcs p))"
proof (cases "length (ep_hops best) = j + 1")
  case True
  let ?g = "\<lambda>k. ep_hops best ! k = ep_hops p ! k \<and> ep_arcs best ! k = ep_arcs p ! k"
  have "same_up_to j best p = Ok (list_all ?g [0..<j])"
    unfolding same_up_to_def using True assms by (simp, intro all_res_Ok) auto
  moreover have "list_all ?g [0..<j] \<longleftrightarrow> take j (ep_hops best) = take j (ep_hops p) \<and> take j (ep_arcs best) = take j (ep_arcs p)"
    using True assms by (auto simp: list_all_iff list_eq_iff_nth_eq)
  ultimately show ?thesis using True by simp
qed (simp add: same_up_to_def)

text \<open>What a flag says: \<open>covered s p i\<close> holds when the way \<open>p\<close> takes to its first hop at or above
  level \<open>i\<close> is not the best stored way to that g-node through that arc.\<close>

definition exit_index :: "usize \<Rightarrow> etp_path \<Rightarrow> usize" where
  "exit_index i p = length (takeWhile (\<lambda>h. hc_level h < i) (ep_hops p))"

lemma position_takeWhile: "(\<exists>x \<in> set xs. P x) \<Longrightarrow> position P xs = Some (length (takeWhile (\<lambda>x. \<not> P x) xs))"
  by (induction xs) auto

definition is_prefix_path :: "etp_path \<Rightarrow> usize \<Rightarrow> node_path \<Rightarrow> bool" where
  "is_prefix_path p j q \<longleftrightarrow> length (np_hops q) = j + 1 \<and>
     take j (np_hops q) = take j (ep_hops p) \<and> take j (np_arcs q) = take j (ep_arcs p)"

definition covered :: "qspn_state \<Rightarrow> etp_path \<Rightarrow> usize \<Rightarrow> bool" where
  "covered s p i \<longleftrightarrow>
     (let j = exit_index i p; hop = ep_hops p ! j in
      case destination_at s (hc_level hop) (hc_pos hop) of
        None \<Rightarrow> False
      | Some d \<Rightarrow> (case best_via s d (ep_arcs p ! j) of None \<Rightarrow> False | Some best \<Rightarrow> \<not> is_prefix_path p j best))"

lemma best_via_mem: "best_via s d arc = Some q \<Longrightarrow> q \<in> set (dest_paths d) \<and> last (np_arcs q) = arc"
  unfolding best_via_def by (drule min_by_key_SomeD) simp

lemma ignore_at_eq:
  assumes "wf_state s" "wf_path (levels_of s) p" "i < levels_of s"
  shows "ignore_at s p (hc_level (last (ep_hops p))) i = Ok (hc_level (last (ep_hops p)) < i \<or> covered s p i)"
proof (cases "hc_level (last (ep_hops p)) < i")
  case True
  then show ?thesis by (simp add: ignore_at_def)
next
  case False
  let ?j = "exit_index i p"
  have ne: "ep_hops p \<noteq> []" "length (ep_arcs p) = length (ep_hops p)" using assms(2) by (auto simp: wf_path_def)
  then have ex: "\<exists>h \<in> set (ep_hops p). i \<le> hc_level h" using False by (intro bexI [of _ "last (ep_hops p)"]) auto
  then have pos: "position (\<lambda>h. i \<le> hc_level h) (ep_hops p) = Some ?j"
    by (simp add: position_takeWhile exit_index_def not_le)
  then have j: "?j < length (ep_hops p)" using position_SomeD by blast
  show ?thesis
  proof (cases "destination_at s (hc_level (ep_hops p ! ?j)) (hc_pos (ep_hops p ! ?j))")
    case None
    then show ?thesis using False pos j by (simp add: ignore_at_def covered_def Let_def)
  next
    case (Some d)
    have d: "wf_dest (levels_of s) (arc_ids s) (HCoord (hc_level (ep_hops p ! ?j)) (hc_pos (ep_hops p ! ?j))) d"
      using wf_destination_at(2) [OF assms(1) Some] .
    then have dne: "dest_paths d \<noteq> []" by (simp add: wf_dest_def)
    show ?thesis
    proof (cases "best_via s d (ep_arcs p ! ?j)")
      case None
      then show ?thesis using False pos j Some dne ne by (simp add: ignore_at_def covered_def Let_def)
    next
      case best: (Some q)
      have "length (np_arcs q) = length (np_hops q)"
        using best_via_mem [OF best] d by (auto simp: wf_dest_def wf_paths_def wf_stored_def wf_node_path_def wf_path_def)
      then have "same_up_to ?j (np_path q) p = Ok (is_prefix_path p ?j q)"
        using same_up_to_eq [of "np_path q" p ?j] ne j by (simp add: is_prefix_path_def)
      then show ?thesis using False pos j Some dne ne best by (simp add: ignore_at_def covered_def Let_def)
    qed
  qed
qed

lemma set_ignore_eq:
  assumes "wf_state s" "wf_path (levels_of s) p"
  shows "set_ignore_outside_for_sending s p = Ok (p\<lparr>ep_ignore_outside :=
     False # map (\<lambda>i. hc_level (last (ep_hops p)) < i \<or> covered s p i) [1..<levels_of s]\<rparr>)"
proof -
  have "try_map (ignore_at s p (hc_level (last (ep_hops p)))) [1..<levels_of s] =
      Ok (map (\<lambda>i. hc_level (last (ep_hops p)) < i \<or> covered s p i) [1..<levels_of s])"
    using ignore_at_eq [OF assms] by (intro try_map_all_Ok) auto
  then show ?thesis using assms(2) by (simp add: set_ignore_outside_for_sending_def wf_path_def)
qed


text \<open>The cheapest of the paths \<open>ps\<close> whose last arc is \<open>arc\<close>, the first among equals.\<close>

definition cheapest_via :: "qspn_state \<Rightarrow> arc_id \<Rightarrow> node_path list \<Rightarrow> node_path \<Rightarrow> bool" where
  "cheapest_via s arc ps best \<longleftrightarrow> last (np_arcs best) = arc \<and>
     (\<exists>pre post. ps = pre @ best # post \<and>
        (\<forall>q \<in> set pre. last (np_arcs q) = arc \<longrightarrow> total_cost best (arc_cost s (np_arc best)) < total_cost q (arc_cost s (np_arc q))) \<and>
        (\<forall>q \<in> set post. last (np_arcs q) = arc \<longrightarrow> total_cost best (arc_cost s (np_arc best)) \<le> total_cost q (arc_cost s (np_arc q))))"

lemma best_via_iff:
  assumes "\<And>q. q \<in> set (dest_paths d) \<Longrightarrow> np_arcs q \<noteq> []"
  shows "best_via s d arc = Some best \<longleftrightarrow> cheapest_via s arc (dest_paths d) best"
proof -
  have "filter (\<lambda>q. np_arcs q \<noteq> [] \<and> last (np_arcs q) = arc) (dest_paths d) = filter (\<lambda>q. last (np_arcs q) = arc) (dest_paths d)"
    using assms by (intro filter_cong) auto
  then show ?thesis by (auto simp: best_via_def min_by_key_filter cheapest_via_def)
qed

text \<open>C37: the flags of an outgoing path are computed without a panic, one per level, the first never
  set. Above that, flag \<open>i\<close> is set exactly when the path ends below level \<open>i\<close>, or when the g-node by
  which it first enters level \<open>i\<close> is a known destination and the cheapest stored way to it whose last arc
  is the path's own differs from the path so far.\<close>

theorem ignore_outside_correct:
  assumes "wf_state s" "wf_path (levels_of s) p"
  shows "\<exists>flags. set_ignore_outside_for_sending s p = Ok (p\<lparr>ep_ignore_outside := flags\<rparr>) \<and>
     length flags = levels_of s \<and> \<not> flags ! 0 \<and>
     (\<forall>i. 1 \<le> i \<and> i < levels_of s \<longrightarrow> (flags ! i \<longleftrightarrow>
        hc_level (last (ep_hops p)) < i \<or>
        (\<exists>best. cheapest_via s (ep_arcs p ! exit_index i p) (stored_paths s (ep_hops p ! exit_index i p)) best \<and>
           \<not> is_prefix_path p (exit_index i p) best)))"
proof -
  obtain flags where flags: "flags = False # map (\<lambda>i. hc_level (last (ep_hops p)) < i \<or> covered s p i) [1..<levels_of s]" by blast
  have "0 < levels_of s"
    using wf_statesD(1) [OF assms(1)] by (simp add: wf_naddr_def wf_topology_def levels_of_def topology_levels_def)
  then have len: "length flags = levels_of s" by (simp add: flags)
  have "flags ! i \<longleftrightarrow> hc_level (last (ep_hops p)) < i \<or> covered s p i" if "1 \<le> i" "i < levels_of s" for i
    using that by (cases i) (auto simp: flags)
  moreover have "covered s p i \<longleftrightarrow> (\<exists>best. cheapest_via s (ep_arcs p ! exit_index i p) (stored_paths s (ep_hops p ! exit_index i p)) best \<and>
           \<not> is_prefix_path p (exit_index i p) best)" for i
  proof (cases "destination_at s (hc_level (ep_hops p ! exit_index i p)) (hc_pos (ep_hops p ! exit_index i p))")
    case None
    then show ?thesis by (simp add: covered_def Let_def stored_paths_def cheapest_via_def)
  next
    case (Some d)
    have "np_arcs q \<noteq> []" if "q \<in> set (dest_paths d)" for q
      using wf_destination_at [OF assms(1) Some] that by (auto simp: wf_dest_def wf_paths_def wf_stored_def wf_node_path_def wf_path_def)
    then have b: "best_via s d (ep_arcs p ! exit_index i p) = Some best \<longleftrightarrow> cheapest_via s (ep_arcs p ! exit_index i p) (dest_paths d) best" for best
      by (rule best_via_iff)
    show ?thesis
    proof (cases "best_via s d (ep_arcs p ! exit_index i p)")
      case None
      then have "\<not> cheapest_via s (ep_arcs p ! exit_index i p) (dest_paths d) best" for best using b [of best] by simp
      then show ?thesis using None Some by (simp add: covered_def Let_def stored_paths_def)
    next
      case (Some q)
      then have "cheapest_via s (ep_arcs p ! exit_index i p) (dest_paths d) best \<longleftrightarrow> best = q" for best using b [of best] by auto
      then show ?thesis using Some \<open>destination_at s _ _ = Some d\<close> by (simp add: covered_def Let_def stored_paths_def)
    qed
  qed
  moreover have "\<not> flags ! 0" by (simp add: flags)
  ultimately show ?thesis using set_ignore_eq [OF assms, folded flags] len by (intro exI [of _ flags] conjI) simp_all
qed

subsection \<open>Emitted messages pass the gate\<close>

text \<open>A path ready to be wrapped into a message, its flags apart.\<close>

definition sendable :: "qspn_state \<Rightarrow> etp_path \<Rightarrow> bool" where
  "sendable s p \<longleftrightarrow> wf_path (levels_of s) p \<and> list_all (hop_in_range (naddr_topology (st_naddr s))) (ep_hops p)"

definition real_hops :: "qspn_state \<Rightarrow> bool" where
  "real_hops s \<longleftrightarrow> (\<forall>d. \<forall>np \<in> set (stored_paths s d). list_all (hop_in_range (naddr_topology (st_naddr s))) (np_hops np))"

lemma finalize_ok:
  assumes "wf_state s" "\<forall>p \<in> set ps. sendable s p"
  obtains qs where "finalize_for_sending s ps = Ok qs" "list_all (path_shape_ok (naddr_topology (st_naddr s))) qs"
    "map (\<lambda>p. p\<lparr>ep_ignore_outside := []\<rparr>) qs = map (\<lambda>p. p\<lparr>ep_ignore_outside := []\<rparr>) ps"
proof -
  let ?t = "naddr_topology (st_naddr s)"
  let ?fl = "\<lambda>p. False # map (\<lambda>i. hc_level (last (ep_hops p)) < i \<or> covered s p i) [1..<levels_of s]"
  let ?g = "\<lambda>p. p\<lparr>ep_ignore_outside := ?fl p\<rparr>"
  have run: "finalize_for_sending s ps = Ok (map ?g ps)"
    unfolding finalize_for_sending_def using set_ignore_eq [OF assms(1)] assms(2)
    by (intro try_map_all_Ok) (simp add: sendable_def)
  have lv: "levels_of s = topology_levels ?t" by (simp add: levels_of_def)
  have "0 < levels_of s"
    using wf_statesD(1) [OF assms(1)] by (simp add: wf_naddr_def wf_topology_def levels_of_def topology_levels_def)
  then have fl: "length (?fl p) = levels_of s" "l < levels_of s \<Longrightarrow> hc_level (last (ep_hops p)) < l \<Longrightarrow> ?fl p ! l" for p l
    by (auto simp: nth_Cons split: nat.splits)
  have "path_shape_ok ?t (?g p)" if "p \<in> set ps" for p
    using assms(2) that fl(1) [of p] fl(2) [of _ p] unfolding path_shape_ok_def sendable_def wf_path_def hops_ok_def lv by auto
  then have "list_all (path_shape_ok ?t) (map ?g ps)" by (simp add: list_all_iff)
  with run show ?thesis by (intro that [of "map ?g ps"]) (simp_all add: comp_def)
qed

lemma prepare_new_etp_eq:
  assumes "wf_state s"
  shows "prepare_new_etp s paths hops = Ok \<lparr>em_node_address = st_naddr s, em_fingerprints = st_fps s,
     em_nodes_inside = st_nodes_inside s, em_hops = hops, em_paths = paths\<rparr>"
proof -
  have len: "length (st_fps s) = Suc (levels_of s)" "length (st_nodes_inside s) = Suc (levels_of s)"
    using wf_statesD(2,3) [OF assms] by (simp_all add: wf_chain_def)
  have "try_map (\<lambda>l. expect (fingerprint_at s l)) [0..<Suc (levels_of s)] =
      (Ok (map ((!) (st_fps s)) [0..<Suc (levels_of s)]) :: (fp list, qspn_error) res)"
    using len by (intro try_map_all_Ok) (auto simp: fingerprint_at_def)
  moreover have "try_map (\<lambda>l. expect (nodes_inside_at s l)) [0..<Suc (levels_of s)] =
      (Ok (map ((!) (st_nodes_inside s)) [0..<Suc (levels_of s)]) :: (u32 list, qspn_error) res)"
    using len by (intro try_map_all_Ok) (auto simp: nodes_inside_at_def)
  moreover have "map ((!) (st_fps s)) [0..<Suc (levels_of s)] = st_fps s" "map ((!) (st_nodes_inside s)) [0..<Suc (levels_of s)] = st_nodes_inside s"
    using len by (metis map_nth)+
  ultimately show ?thesis by (simp add: prepare_new_etp_def del: upt_Suc)
qed

text \<open>A message this node emits: built from its state, with sendable paths and a hop trail in range.\<close>

definition gate_passes :: "qspn_state \<Rightarrow> etp_message \<Rightarrow> bool" where
  "gate_passes s m \<longleftrightarrow> em_node_address m = st_naddr s \<and> message_shape_ok (naddr_topology (st_naddr s)) m \<and>
     length (em_nodes_inside m) = levels_of s + 1"

lemma emitted_passes:
  assumes "wf_state s" "\<forall>p \<in> set ps. sendable s p" "hops_ok (naddr_topology (st_naddr s)) hops"
  obtains qs m where "finalize_for_sending s ps = Ok qs" "prepare_new_etp s qs hops = Ok m" "gate_passes s m"
    "em_hops m = hops" "map (\<lambda>p. p\<lparr>ep_ignore_outside := []\<rparr>) (em_paths m) = map (\<lambda>p. p\<lparr>ep_ignore_outside := []\<rparr>) ps"
proof -
  obtain qs where qs: "finalize_for_sending s ps = Ok qs" "list_all (path_shape_ok (naddr_topology (st_naddr s))) qs"
    "map (\<lambda>p. p\<lparr>ep_ignore_outside := []\<rparr>) qs = map (\<lambda>p. p\<lparr>ep_ignore_outside := []\<rparr>) ps"
    using finalize_ok [OF assms(1,2)] .
  have ch: "length (st_fps s) = levels_of s + 1" "\<forall>l \<le> levels_of s. fp_level (st_fps s ! l) = l"
    using wf_statesD(2) [OF assms(1)] by (simp_all add: wf_chain_def)
  show ?thesis
    using prepare_new_etp_eq [OF assms(1), of qs hops] qs ch assms(3) wf_statesD(3) [OF assms(1)]
    by (intro that [OF qs(1)]) (auto simp: gate_passes_def message_shape_ok_def levels_of_def)
qed

lemma stored_sendable:
  assumes "wf_state s" "real_hops s" "np \<in> set (stored_paths s d)"
  shows "sendable s (prepare_for_sending np c)"
  using stored_paths_wf [OF assms(1), of d] assms(2,3)
  by (auto simp: sendable_def real_hops_def prepare_for_sending_def wf_paths_def wf_stored_def wf_node_path_def wf_path_def)

lemma all_paths_stored:
  assumes "wf_state s"
  shows "np \<in> set (concat (map (all_paths_at s) [i..<levels_of s])) \<longleftrightarrow> (\<exists>d. i \<le> hc_level d \<and> np \<in> set (stored_paths s d))"
proof
  assume "np \<in> set (concat (map (all_paths_at s) [i..<levels_of s]))"
  then obtain l where l: "i \<le> l" "l < levels_of s" "np \<in> set (level_paths (st_dests s ! l))"
    using wf_statesD(7) [OF assms] by (auto simp: all_paths_at_def split: if_splits)
  then obtain pos dd where e: "(pos, dd) \<in> set (st_dests s ! l)" "np \<in> set (dest_paths dd)"
    using in_level_paths by metis
  have "hm_wf (st_dests s ! l)" using wf_dests_level [OF wf_statesD(6) [OF assms] l(2)] by (simp add: wf_level_def)
  then have "destination_at s l pos = Some dd"
    using e(1) l(2) wf_statesD(7) [OF assms] by (simp add: destination_at_def hm.entry_iff_get)
  then show "\<exists>d. i \<le> hc_level d \<and> np \<in> set (stored_paths s d)"
    using l(1) e(2) by (intro exI [of _ "HCoord l pos"]) (simp add: stored_paths_def)
next
  assume "\<exists>d. i \<le> hc_level d \<and> np \<in> set (stored_paths s d)"
  then obtain d where d: "i \<le> hc_level d" "np \<in> set (stored_paths s d)" by blast
  then obtain dd where dd: "destination_at s (hc_level d) (hc_pos d) = Some dd" "np \<in> set (dest_paths dd)"
    by (cases "destination_at s (hc_level d) (hc_pos d)") (simp_all add: stored_paths_def)
  then have "hc_level d < levels_of s" "np \<in> set (all_paths_at s (hc_level d))"
    using wf_statesD(7) [OF assms]
    by (auto simp: destination_at_def all_paths_at_def in_level_paths split: if_splits dest!: map_of_SomeD)
  with d(1) show "np \<in> set (concat (map (all_paths_at s) [i..<levels_of s]))" by auto
qed

text \<open>A node whose map holds only real coordinates can always build its full ETP; the message
  passes its own outgoing check and the incoming check of every neighbour of its topology, tells every
  stored path and nothing else, each at its cost seen from here, and carries no hop trail.\<close>

theorem full_etp_accepted:
  assumes "wf_state s" "real_hops s" "wf_peer (st_naddr s) peer" "peer \<noteq> st_naddr s"
  shows "\<exists>m. prepare_full_etp s = Ok m \<and>
     check_outgoing_message m (st_naddr s) = (Ok True :: (bool, qspn_error) res) \<and>
     check_incoming_message m peer = (Ok True :: (bool, qspn_error) res) \<and> em_hops m = [] \<and>
     (\<lambda>p. p\<lparr>ep_ignore_outside := []\<rparr>) ` set (em_paths m) =
       {prepare_for_sending np (arc_cost s (np_arc np)) | d np. np \<in> set (stored_paths s d)}"
proof -
  let ?nps = "concat (map (all_paths_at s) [0..<levels_of s])"
  let ?ps = "map (\<lambda>np. prepare_for_sending np (arc_cost s (np_arc np))) ?nps"
  have mem: "np \<in> set ?nps \<longleftrightarrow> (\<exists>d. np \<in> set (stored_paths s d))" for np
    using all_paths_stored [OF assms(1), of np 0] by simp
  have "\<forall>p \<in> set ?ps. sendable s p" using mem stored_sendable [OF assms(1,2)] by auto
  then obtain qs m where qm: "finalize_for_sending s ?ps = Ok qs" "prepare_new_etp s qs [] = Ok m" "gate_passes s m"
    "em_hops m = []" "map (\<lambda>p. p\<lparr>ep_ignore_outside := []\<rparr>) (em_paths m) = map (\<lambda>p. p\<lparr>ep_ignore_outside := []\<rparr>) ?ps"
    by (rule emitted_passes [OF assms(1) _ hops_ok_simps(1)])
  have "try_map f (map g xs) = try_map (\<lambda>x. f (g x)) xs" for f :: "etp_path \<Rightarrow> (etp_path, qspn_error) res" and g and xs :: "node_path list"
    by (induction xs) auto
  then have run: "prepare_full_etp s = Ok m" using qm(1,2) by (simp add: prepare_full_etp_def finalize_for_sending_def)
  have "(\<lambda>p. p\<lparr>ep_ignore_outside := []\<rparr>) ` set (em_paths m) = (\<lambda>p. p\<lparr>ep_ignore_outside := []\<rparr>) ` set ?ps"
    using arg_cong [OF qm(5), of set] unfolding set_map .
  also have "\<dots> = {prepare_for_sending np (arc_cost s (np_arc np)) | d np. np \<in> set (stored_paths s d)}"
  proof -
    have "(prepare_for_sending np c)\<lparr>ep_ignore_outside := []\<rparr> = prepare_for_sending np c" for np c
      by (simp add: prepare_for_sending_def)
    moreover have "set ?nps = {np. \<exists>d. np \<in> set (stored_paths s d)}" using mem by blast
    ultimately show ?thesis unfolding set_map image_image by (simp only:) blast
  qed
  finally have paths: "(\<lambda>p. p\<lparr>ep_ignore_outside := []\<rparr>) ` set (em_paths m) = \<dots>" .
  have "wf_naddr peer" "wf_naddr (em_node_address m)" "naddr_topology peer = naddr_topology (st_naddr s)" "em_node_address m = st_naddr s"
    using assms(3) qm(3) wf_statesD(1) [OF assms(1)] by (simp_all add: wf_peer_def gate_passes_def)
  then show ?thesis
    using run qm(3,4) paths assms(4) check_incoming_message_eq [of peer m] check_outgoing_message_eq [of "st_naddr s" m]
    by (auto simp: gate_passes_def)
qed

theorem ignore_outside_correct_witness:
  "\<exists>flags. set_ignore_outside_for_sending example_state (np_path example_known) = Ok ((np_path example_known)\<lparr>ep_ignore_outside := flags\<rparr>)"
proof -
  have "wf_path (levels_of example_state) (np_path example_known)"
    by (simp add: levels_of_example example_known_def wf_path_def example_fp_at_def wf_fp_def eldership_range_def)
  from ignore_outside_correct [OF wf_example_state this] show ?thesis by blast
qed

lemma stored_example: "np \<in> set (stored_paths example_state d) \<Longrightarrow> np = example_direct \<or> np = example_known"
  by (auto simp: stored_paths_def destination_at_def example_state_def nth_Cons split: option.splits if_splits nat.splits)

lemma real_example: "real_hops example_state"
  using stored_example
  by (fastforce simp: real_hops_def example_direct_def example_known_def hop_in_range_def example_state_def
      example_naddr_def example_topology_def topology_levels_def)

theorem full_etp_accepted_witness:
  "\<exists>m. prepare_full_etp example_state = Ok m \<and> check_incoming_message m (example_naddr 1 0) = (Ok True :: (bool, qspn_error) res)"
proof -
  have "wf_peer (st_naddr example_state) (example_naddr 1 0)" "example_naddr 1 0 \<noteq> st_naddr example_state"
    using wf_example_naddr [of 1 0] by (simp_all add: wf_peer_def example_state_def) (simp_all add: example_naddr_def)
  from full_etp_accepted [OF wf_example_state real_example this] show ?thesis by blast
qed

end
