(* ===== verification/Qspn_Arc.thy ===== *)
theory Qspn_Arc
  imports Ntk_Prelude
begin

section \<open>Arc identifiers (\<open>ntk-qspn/src/arc.rs\<close>)\<close>

text \<open>
  The \<open>SplitMix64\<close> generator behind \<open>DefaultArcIdSource\<close>: the state of the source is the value of
  its atomic counter, the seed is the process's hasher output (a parameter), and \<open>next\<close> is the
  \<open>loop\<close> that retries until a candidate is not 0. The loop's termination is a fact about the
  generator: its counter moves by an odd constant, so it visits every 64-bit state, and some state
  yields a non-zero candidate.
\<close>

unbundle bit_operations_syntax

definition golden_gamma :: u64 where
  "golden_gamma = 0x9E3779B97F4A7C15"

definition arc_source_new :: "u64 \<Rightarrow> u64" where
  "arc_source_new hasher_output = hasher_output OR 1"

text \<open>One round of the mixing steps, down to the candidate.\<close>

definition arc_id_candidate :: "u64 \<Rightarrow> u32" where
  "arc_id_candidate z =
     (let z = (z XOR drop_bit 30 z) * 0xBF58476D1CE4E5B9;
          z = (z XOR drop_bit 27 z) * 0x94D049BB133111EB;
          z = z XOR drop_bit 31 z
      in (ucast z :: u32) AND 0x7FFFFFFF)"

text \<open>\<open>golden_inverse\<close> is the inverse of the increment modulo \<open>2 ^ 64\<close>: it measures how many
  increments the counter is away from the state 1, whose candidate is not 0.\<close>

definition golden_inverse :: u64 where
  "golden_inverse = 0xF1DE83E19937733D"

definition rounds_left :: "u64 \<Rightarrow> nat" where
  "rounds_left s = unat ((1 - s) * golden_inverse - 1)"

lemma golden_inverse_mult: "golden_gamma * golden_inverse = 1"
  by (simp add: golden_gamma_def golden_inverse_def)

lemma candidate_1: "arc_id_candidate 1 \<noteq> 0"
  unfolding arc_id_candidate_def Let_def by code_simp

lemma rounds_left_0: "rounds_left s = 0 \<Longrightarrow> s + golden_gamma = 1"
proof -
  assume "rounds_left s = 0"
  then have "(1 - s) * golden_inverse = 1" by (simp add: rounds_left_def unat_eq_0)
  then have "(1 - s) * (golden_gamma * golden_inverse) = golden_gamma"
    by (metis mult.assoc mult.commute mult.left_neutral)
  then have "1 - s = golden_gamma" by (simp only: golden_inverse_mult mult_1_right)
  then show ?thesis by (metis diff_eq_eq add.commute)
qed

lemma rounds_left_decreases:
  assumes "arc_id_candidate (s + golden_gamma) = 0"
  shows "rounds_left (s + golden_gamma) < rounds_left s"
proof -
  have "rounds_left s \<noteq> 0" using assms candidate_1 rounds_left_0 [of s] by metis
  moreover have "(1 - (s + golden_gamma)) * golden_inverse - 1 = ((1 - s) * golden_inverse - 1) - 1"
    using golden_inverse_mult by (simp add: algebra_simps)
  ultimately show ?thesis
    unfolding rounds_left_def
    by (metis One_nat_def Suc_pred bot_nat_0.not_eq_extremum lessI unat_1 unat_minus_one unat_0)
qed

function arc_source_next :: "u64 \<Rightarrow> u32 \<times> u64" where
  "arc_source_next s =
     (let z = s + golden_gamma; candidate = arc_id_candidate z in
      if candidate \<noteq> 0 then (candidate, z) else arc_source_next z)"
  by pat_completeness auto
termination
  by (relation "measure rounds_left") (auto simp: rounds_left_decreases)

declare arc_source_next.simps [simp del]

lemma unat_candidate_mask: "unat ((c :: u32) AND mask 31) < 2 ^ 31"
proof -
  have "unat (c AND mask 31) = unat c mod 2 ^ 31"
    by (simp only: take_bit_eq_mask [symmetric] unsigned_take_bit_eq take_bit_eq_mod [where 'a = nat])
  then show ?thesis by simp
qed

text \<open>From every state of the counter the retry loop ends, and the identifier it returns lies in
  \<open>1 ..= 0x7FFF_FFFF\<close>.\<close>

theorem arc_source_next_range:
  "1 \<le> unat (fst (arc_source_next s)) \<and> unat (fst (arc_source_next s)) \<le> 0x7FFFFFFF"
proof (induction s rule: arc_source_next.induct)
  case (1 s)
  let ?c = "arc_id_candidate (s + golden_gamma)"
  have "?c = ?c AND mask 31"
    by (simp add: arc_id_candidate_def Let_def mask_eq_exp_minus_1)
  then have "unat ?c < 2 ^ 31" by (metis unat_candidate_mask)
  moreover have "?c \<noteq> 0 \<Longrightarrow> 1 \<le> unat ?c" by (simp add: Suc_leI unat_gt_0)
  ultimately show ?case
    using 1 by (subst (1 2) arc_source_next.simps) (auto simp: Let_def)
qed


subsection \<open>Allocating an identifier no arc uses\<close>

text \<open>
  The loop of \<open>handle_add_arc\<close>: draw until the identifier is free. It ends as long as some identifier
  is free, because the mixing steps are invertible and the counter visits every state. \<open>None\<close> is the
  loop that never ends.
\<close>

partial_function (option) alloc_arc :: "(u32 \<Rightarrow> bool) \<Rightarrow> u64 \<Rightarrow> (u32 \<times> u64) option" where
  "alloc_arc used src =
     (let (candidate, src') = arc_source_next src in
      if used candidate then alloc_arc used src' else Some (candidate, src'))"

lemma unshift:
  fixes w :: u64
  assumes "64 \<le> 3 * n"
  shows "(w XOR drop_bit n w XOR drop_bit (2 * n) w) XOR drop_bit n (w XOR drop_bit n w XOR drop_bit (2 * n) w) = w"
proof -
  have "drop_bit (3 * n) w = 0" using assms by (intro drop_bit_word_beyond) simp
  then have "drop_bit n (drop_bit n (drop_bit n w)) = 0" by (simp add: numeral_3_eq_3)
  then show ?thesis by (simp add: numeral_2_eq_2 xor.assoc xor.left_commute)
qed

lemma unmix:
  fixes y c ci :: u64
  assumes "64 \<le> 3 * n" "ci * c = 1"
  shows "\<exists>z. (z XOR drop_bit n z) * c = y"
proof -
  obtain z where "z XOR drop_bit n z = y * ci" using unshift [OF assms(1)] by meson
  then have "(z XOR drop_bit n z) * c = y" by (simp only: mult.assoc assms(2) mult_1_right)
  then show ?thesis by blast
qed

lemma candidate_onto:
  assumes "unat x < 2 ^ 31"
  shows "\<exists>z. arc_id_candidate z = x"
proof -
  let ?z2 = "ucast x :: u64"
  obtain y where y: "(y XOR drop_bit 27 y) * 0x94D049BB133111EB = ?z2"
    using unmix [of 27 "0x319642b2d24d8ec3" "0x94D049BB133111EB" ?z2] by auto
  obtain z where z: "(z XOR drop_bit 30 z) * 0xBF58476D1CE4E5B9 = y"
    using unmix [of 30 "0x96de1b173f119089" "0xBF58476D1CE4E5B9" y] by auto
  have "unat ?z2 < 2 ^ 31" using assms by (simp add: unsigned_ucast_eq take_bit_nat_eq_self)
  then have "drop_bit 31 ?z2 = 0"
    by (intro word_unat_eq_iff [THEN iffD2])
      (simp add: unsigned_drop_bit_eq drop_bit_eq_div [where 'a = nat] take_bit_nat_eq_self unsigned_ucast_eq)
  moreover have "(ucast ?z2 :: u32) = x"
    by (intro word_unat_eq_iff [THEN iffD2]) (simp add: unsigned_ucast_eq unsigned_take_bit_eq [symmetric] take_bit_word_beyond_length_eq)
  moreover have "x AND mask 31 = x"
  proof -
    have "take_bit 31 x = x" 
      by (intro word_unat_eq_iff [THEN iffD2]) (use assms in \<open>simp add: unsigned_take_bit_eq take_bit_nat_eq_self\<close>)
    then show ?thesis by (simp add: take_bit_eq_mask)
  qed
  ultimately have "arc_id_candidate z = x" using y z by (simp add: arc_id_candidate_def Let_def mask_eq_exp_minus_1)
  then show ?thesis by blast
qed

definition draws_to :: "u64 \<Rightarrow> u64 \<Rightarrow> nat" where
  "draws_to t s = unat ((t - s) * golden_inverse - 1)"

lemma draws_to_0: "draws_to t s = 0 \<Longrightarrow> s + golden_gamma = t"
proof -
  assume "draws_to t s = 0"
  then have "(t - s) * golden_inverse = 1" by (simp add: draws_to_def unat_eq_0)
  then have "(t - s) * golden_inverse * golden_gamma = golden_gamma" by simp
  then have "(t - s) * (golden_gamma * golden_inverse) = golden_gamma"
    by (simp only: mult.assoc mult.commute [of golden_inverse])
  then have "t - s = golden_gamma" by (simp only: golden_inverse_mult mult_1_right)
  then show ?thesis by (simp add: algebra_simps)
qed

lemma draws_to_step:
  assumes "s + golden_gamma \<noteq> t"
  shows "draws_to t (s + golden_gamma) < draws_to t s"
proof -
  have "draws_to t s \<noteq> 0" using assms draws_to_0 [of t s] by metis
  moreover have "(t - (s + golden_gamma)) * golden_inverse - 1 = ((t - s) * golden_inverse - 1) - 1"
    using golden_inverse_mult by (simp add: algebra_simps)
  ultimately show ?thesis
    unfolding draws_to_def
    by (metis One_nat_def Suc_pred bot_nat_0.not_eq_extremum lessI unat_1 unat_minus_one unat_0)
qed

lemma arc_source_next_draw:
  assumes "arc_id_candidate t \<noteq> 0" "arc_source_next s = (c, s')"
  shows "c = arc_id_candidate s' \<and> (s' = t \<or> draws_to t s' < draws_to t s)"
  using assms(2)
proof (induction s rule: arc_source_next.induct)
  case (1 s)
  let ?z = "s + golden_gamma"
  show ?case
  proof (cases "arc_id_candidate ?z = 0")
    case True
    then have "?z \<noteq> t" using assms(1) by auto
    moreover have "arc_source_next ?z = (c, s')" using 1(2) True by (subst (asm) arc_source_next.simps) (simp add: Let_def)
    ultimately show ?thesis using 1(1) [OF refl refl] True draws_to_step [of s t] by auto
  next
    case False
    then show ?thesis using 1(2) draws_to_step [of s t] by (subst (asm) arc_source_next.simps) (auto simp: Let_def)
  qed
qed

lemma alloc_arc_reaches:
  assumes "\<not> used (arc_id_candidate t)" "arc_id_candidate t \<noteq> 0"
  shows "\<exists>c s'. alloc_arc used s = Some (c, s') \<and> \<not> used c"
proof (induction "draws_to t s" arbitrary: s rule: less_induct)
  case less
  obtain c s1 where n: "arc_source_next s = (c, s1)" by (cases "arc_source_next s")
  from arc_source_next_draw [OF assms(2) n] have c: "c = arc_id_candidate s1" "s1 = t \<or> draws_to t s1 < draws_to t s" by auto
  show ?case
  proof (cases "used c")
    case True
    then have "draws_to t s1 < draws_to t s" using c assms(1) by auto
    from less [OF this] True show ?thesis by (subst alloc_arc.simps) (simp add: n)
  next
    case False
    then show ?thesis by (subst alloc_arc.simps) (simp add: n)
  qed
qed

lemma alloc_arc_total:
  assumes "finite U" "card U < 2 ^ 31 - 1"
  obtains c s' where "alloc_arc (\<lambda>i. i \<in> U) s = Some (c, s')" "c \<notin> U"
proof -
  define m :: nat where "m = 2 ^ 31"
  have u: "unat (of_nat a :: u32) = a" if "a < m" for a
    using that by (simp add: m_def unsigned_of_nat take_bit_nat_eq_self)
  have inj: "inj_on (of_nat :: nat \<Rightarrow> u32) {1..<m}" by (intro inj_onI) (metis atLeastLessThan_iff u)
  have "card ((of_nat :: nat \<Rightarrow> u32) ` {1..<m}) = m - 1" by (subst card_image [OF inj]) simp
  then have "\<not> (of_nat :: nat \<Rightarrow> u32) ` {1..<m} \<subseteq> U"
    using assms card_mono [OF assms(1), of "(of_nat :: nat \<Rightarrow> u32) ` {1..<m}"] by (auto simp: m_def)
  then obtain n where n: "1 \<le> n" "n < m" "(of_nat n :: u32) \<notin> U" by fastforce
  obtain t where t: "arc_id_candidate t = of_nat n" using candidate_onto [of "of_nat n"] n(2) u [OF n(2)] by (auto simp: m_def)
  moreover have "(of_nat n :: u32) \<noteq> 0" using n(1) u [OF n(2)] by (metis not_one_le_zero unat_0)
  ultimately show ?thesis using alloc_arc_reaches [of "\<lambda>i. i \<in> U" t s] n(3) that by auto
qed

lemma alloc_arc_range: "alloc_arc used s = Some r \<Longrightarrow> 1 \<le> unat (fst r) \<and> unat (fst r) \<le> 0x7FFFFFFF"
proof (rule alloc_arc.raw_induct [where P = "\<lambda>used s r. 1 \<le> unat (fst r) \<and> unat (fst r) \<le> 0x7FFFFFFF"])
  fix alloc used s and r :: "u32 \<times> u64"
  assume ih: "\<And>used s r. alloc used s = Some r \<Longrightarrow> 1 \<le> unat (fst r) \<and> unat (fst r) \<le> 0x7FFFFFFF"
    and r: "(let (candidate, src') = arc_source_next s in if used candidate then alloc used src' else Some (candidate, src')) = Some r"
  show "1 \<le> unat (fst r) \<and> unat (fst r) \<le> 0x7FFFFFFF"
  proof (cases "used (fst (arc_source_next s))")
    case True
    then show ?thesis using r ih by (simp add: case_prod_beta)
  next
    case False
    then have "arc_source_next s = r" using r by (simp add: case_prod_beta)
    then show ?thesis using arc_source_next_range [of s] by simp
  qed
qed

text \<open>C35: as long as fewer than \<open>2 ^ 31 - 1\<close> arcs exist, allocating an arc identifier ends, whatever the
  state of the counter, with an identifier in \<open>1 ..= 0x7FFF_FFFF\<close> that no arc uses.\<close>

theorem alloc_arc_fresh:
  assumes "finite U" "card U < 2 ^ 31 - 1"
  shows "\<exists>c s'. alloc_arc (\<lambda>i. i \<in> U) s = Some (c, s') \<and> c \<notin> U \<and> 1 \<le> unat c \<and> unat c \<le> 0x7FFFFFFF"
  using alloc_arc_total [OF assms] alloc_arc_range by (metis fst_conv)

theorem alloc_arc_fresh_witness:
  "\<exists>c s'. alloc_arc (\<lambda>i. i \<in> {7, 9}) 1 = Some (c, s') \<and> c \<notin> {7, 9} \<and> 1 \<le> unat c \<and> unat c \<le> 0x7FFFFFFF"
  using alloc_arc_fresh [of "{7, 9}" 1] by simp

end
