(* ===== verification/Ntk_Programs.thy ===== *)
theory Ntk_Programs
  imports Ntk_Prelude
begin

section \<open>Sequential programs over a state and their triples\<close>

text \<open>
  The rest of the control flow of \<open>&mut self\<close> code: returning, \<open>match\<close> on the outcome of a fallible call,
  \<open>if\<close> without \<open>else\<close>, and \<open>for\<close> loops run for their effect; and total-correctness triples over it.
  \<open>runs P m Q\<close> says that from every state with \<open>P\<close> the program ends normally, without panic or error,
  in a state that satisfies \<open>Q\<close> with its result.
\<close>

definition st_ret :: "'a \<Rightarrow> ('s, 'a, 'e) st" where
  "st_ret x s = (Ok x, s)"

text \<open>\<open>match m { Ok(x) => ..., Err(e) => ... }\<close>: an error becomes a value, a panic stays one.\<close>

definition st_result :: "('s, 'a, 'e) st \<Rightarrow> ('s, 'e + 'a, 'e) st" where
  "st_result m s =
     (case m s of (Ok x, s') \<Rightarrow> (Ok (Inr x), s') | (Err e, s') \<Rightarrow> (Ok (Inl e), s') | (Panic, s') \<Rightarrow> (Panic, s'))"

definition st_when :: "bool \<Rightarrow> ('s, unit, 'e) st \<Rightarrow> ('s, unit, 'e) st" where
  "st_when b m = (if b then m else st_ret ())"

fun st_iter :: "('x \<Rightarrow> ('s, unit, 'e) st) \<Rightarrow> 'x list \<Rightarrow> ('s, unit, 'e) st" where
  "st_iter f [] = st_ret ()"
| "st_iter f (x # xs) = st_bind (f x) (\<lambda>_. st_iter f xs)"

text \<open>A read that cannot fail.\<close>

definition st_get :: "('s \<Rightarrow> 'a) \<Rightarrow> ('s, 'a, 'e) st" where
  "st_get f s = (Ok (f s), s)"

text \<open>A program over a part of the state.\<close>

definition st_zoom :: "('s \<Rightarrow> 't) \<Rightarrow> ('t \<Rightarrow> 's \<Rightarrow> 's) \<Rightarrow> ('t, 'a, 'e) st \<Rightarrow> ('s, 'a, 'e) st" where
  "st_zoom get put m s = (case m (get s) of (r, t) \<Rightarrow> (r, put t s))"

subsection \<open>Triples\<close>

definition runs :: "('s \<Rightarrow> bool) \<Rightarrow> ('s, 'a, 'e) st \<Rightarrow> ('a \<Rightarrow> 's \<Rightarrow> bool) \<Rightarrow> bool" where
  "runs P m Q \<longleftrightarrow> (\<forall>s. P s \<longrightarrow> (\<exists>x s'. m s = (Ok x, s') \<and> Q x s'))"

named_theorems run_rules \<open>rules of the triple calculus\<close>

lemma runsI: "(\<And>s. P s \<Longrightarrow> \<exists>x s'. m s = (Ok x, s') \<and> Q x s') \<Longrightarrow> runs P m Q"
  by (simp add: runs_def)

lemma runsD: "runs P m Q \<Longrightarrow> P s \<Longrightarrow> \<exists>x s'. m s = (Ok x, s') \<and> Q x s'"
  by (simp add: runs_def)

lemma runs_conseq: "runs P' m Q' \<Longrightarrow> (\<And>s. P s \<Longrightarrow> P' s) \<Longrightarrow> (\<And>x s. Q' x s \<Longrightarrow> Q x s) \<Longrightarrow> runs P m Q"
  unfolding runs_def by blast

lemma runs_pre: "runs P' m Q \<Longrightarrow> (\<And>s. P s \<Longrightarrow> P' s) \<Longrightarrow> runs P m Q"
  by (erule runs_conseq)

lemma runs_post: "runs P m Q' \<Longrightarrow> (\<And>x s. Q' x s \<Longrightarrow> Q x s) \<Longrightarrow> runs P m Q"
  by (erule runs_conseq)

lemma runs_bind: "runs P m R \<Longrightarrow> (\<And>x. runs (R x) (f x) Q) \<Longrightarrow> runs P (st_bind m f) Q"
  unfolding runs_def by (metis st_bind_run)

lemma runs_ret: "(\<And>s. P s \<Longrightarrow> Q x s) \<Longrightarrow> runs P (st_ret x) Q"
  by (simp add: runs_def st_ret_def)

lemma runs_put: "(\<And>s. P s \<Longrightarrow> Q () (f s)) \<Longrightarrow> runs P (st_put f) Q"
  by (simp add: runs_def st_put_def)

lemma runs_get: "runs P (st_get f) (\<lambda>x s. P s \<and> x = f s)"
  by (simp add: runs_def st_get_def)

lemma runs_read: "(\<And>s. P s \<Longrightarrow> \<exists>x. f s = Ok x \<and> Q x s) \<Longrightarrow> runs P (st_read f) Q"
  by (auto simp: runs_def st_read_def)

lemma runs_result: "runs P m (\<lambda>x. Q (Inr x)) \<Longrightarrow> runs P (st_result m) Q"
  unfolding runs_def st_result_def by fastforce

lemma runs_if: "(b \<Longrightarrow> runs P m Q) \<Longrightarrow> (\<not> b \<Longrightarrow> runs P m' Q) \<Longrightarrow> runs P (if b then m else m') Q"
  by simp

lemma runs_when: "(b \<Longrightarrow> runs P m (\<lambda>_. Q)) \<Longrightarrow> (\<And>s. \<not> b \<Longrightarrow> P s \<Longrightarrow> Q s) \<Longrightarrow> runs P (st_when b m) (\<lambda>_. Q)"
  by (auto simp: st_when_def intro: runs_ret)

lemma runs_assume: "(p \<Longrightarrow> runs P m Q) \<Longrightarrow> runs (\<lambda>s. P s \<and> p) m Q"
  by (auto simp: runs_def)

lemma runs_assume_pre: "(\<And>s. P s \<Longrightarrow> p) \<Longrightarrow> (p \<Longrightarrow> runs P m Q) \<Longrightarrow> runs P m Q"
  by (auto simp: runs_def)

text \<open>Loops: the invariant sees the elements still to come.\<close>

lemma runs_iter:
  assumes "\<And>x xs. runs (I (x # xs)) (f x) (\<lambda>_. I xs)"
  shows "runs (I xs) (st_iter f xs) (\<lambda>_. I [])"
proof (induction xs)
  case Nil
  show ?case by (simp add: runs_ret)
next
  case (Cons x xs)
  show ?case by (simp add: runs_bind [OF assms Cons])
qed

lemma runs_iter_const:
  assumes "\<And>x. x \<in> set xs \<Longrightarrow> runs I (f x) (\<lambda>_. I)"
  shows "runs I (st_iter f xs) (\<lambda>_. I)"
  using assms
proof (induction xs)
  case Nil
  show ?case by (simp add: runs_ret)
next
  case (Cons x xs)
  then have "runs I (f x) (\<lambda>_. I)" "runs I (st_iter f xs) (\<lambda>_. I)" by simp_all
  then show ?case by (simp add: runs_bind)
qed

end
