(* ===== verification/Qspn_Actor.thy ===== *)
theory Qspn_Actor
  imports Qspn_Flood Qspn_Arc Ntk_Programs
begin

section \<open>The QSPN actor (\<open>ntk-qspn/src/manager.rs\<close>)\<close>

text \<open>
  The task that owns one \<open>QspnState\<close> and serves the commands of its queue, one at a time. A command is a
  constructor of \<open>command\<close>, without its reply channel; the outcome of a remote call is an option, \<open>None\<close>
  being the \<open>RpcError\<close>. What the actor does to the outside, a reply, an event, a published snapshot, a
  spawned call or timer, is appended to its outbox \<open>ac_out\<close> in the order the code performs it. Every
  spawned task is an \<open>effect\<close> that carries what the task captured; the theory of the running system says
  which commands it sends back. Parameters: \<open>ho\<close>, the iteration order of \<open>update_map\<close>'s grouping map,
  and \<open>tc\<close>, the threshold calculator of the deployment.
\<close>

datatype command =
    AddArc cost
  | ArcAddFetched arc_id "etp_message option"
  | ArcChanged arc_id cost
  | RemoveArc arc_id
  | GatherComplete "arc_id option" "etp_path list" "(arc_id \<times> etp_message option) list"
  | CurrentArcs
  | PeerNaddr arc_id
  | MyEldership usize
  | Eldership usize u32
  | FingerprintId usize
  | GetFullEtp arc_id naddr
  | SendEtp arc_id etp_message bool
  | GotPrepareDestroy
  | GotDestroy arc_id
  | DestroyStub
  | ResendEtp arc_id etp_message bool
  | ResendFailed arc_id
  | PeriodicFullEtp
  | FirstDetectionSplitFire "hcoord list"
  | SplitTimerFire hcoord fp fp
  | BootstrapEtpFetched arc_id "etp_message option"
  | BootstrapTimeout
  | ExitBootstrapGathered "(arc_id \<times> etp_message option) list"
  | IsBootstrapComplete
  | CurrentNaddr
  | MakeConnectivity usize usize "naddr \<Rightarrow> naddr"
  | PublishConnectivity hcoord
  | ExitNetwork usize
  | CheckConnectivity
  | ArcGatherWindowElapsed

text \<open>What is sent on a command's reply channel.\<close>

datatype reply =
    ReplyUnit
  | ReplyArc arc_id
  | ReplyArcs "arc_id list"
  | ReplyPeer "naddr option"
  | ReplyMyEldership "u32 option option"
  | ReplyEldership "(u32 option option, qspn_error) res"
  | ReplyFingerprintId "u8 list option"
  | ReplyEtp "(etp_message, qspn_error) res"
  | ReplyResult "(unit, qspn_error) res"
  | ReplyStub "arc_id list option"
  | ReplyBool bool
  | ReplyNaddr naddr
  | ReplyCheck "(bool, qspn_error) res"

datatype effect =
    Reply reply
  | Emit qspn_event
  | Publish route_snapshot
  | FetchNewArc arc_id naddr
  | Gather "arc_id option" "etp_path list" "arc_id list" naddr
  | ArcGatherWindow duration
  | Unicast arc_id etp_message bool
  | Broadcast "arc_id list" etp_message bool
  | Resend arc_id etp_message bool
  | BootstrapSignal duration duration
  | BootstrapFetch arc_id naddr
  | BootstrapTimer duration
  | ExitBootstrapGather "arc_id list" naddr
  | PeriodicLoop duration
  | PresenceTimer duration
  | FirstSplitTimer duration "hcoord list"
  | SplitTimer duration hcoord fp fp
  | PublishConnectivityTimer duration hcoord

record ingested =
  ig_hops :: "hcoord list"
  ig_all_paths :: "etp_path list"
  ig_changed_my_gnodes :: bool

record pending_arc_gather =
  pg_latest_arc :: arc_id
  pg_trailing_owed :: bool

text \<open>The default source of arc identifiers is the value of its counter.\<close>

record actor =
  ac_state :: qspn_state
  ac_source :: u64
  ac_window :: "pending_arc_gather option"
  ac_out :: "effect list"

type_synonym 'a act = "(actor, 'a, qspn_error) st"

definition on_state :: "(qspn_state, 'a, qspn_error) st \<Rightarrow> 'a act" where
  "on_state = st_zoom ac_state (\<lambda>s. ac_state_update (\<lambda>_. s))"

definition do_effect :: "effect \<Rightarrow> unit act" where
  "do_effect e = st_put (ac_out_update (\<lambda>es. es @ [e]))"

definition ask :: "(qspn_state \<Rightarrow> 'a) \<Rightarrow> 'a act" where
  "ask f = st_get (\<lambda>a. f (ac_state a))"

definition ask_res :: "(qspn_state \<Rightarrow> ('a, qspn_error) res) \<Rightarrow> 'a act" where
  "ask_res f = st_read (\<lambda>a. f (ac_state a))"

definition arc_list :: "qspn_state \<Rightarrow> arc_id list" where
  "arc_list s = map fst (st_arcs s)"

definition emit :: "qspn_event \<Rightarrow> unit act" where
  "emit event = do_effect (Emit event)"

definition emit_all :: "qspn_event list \<Rightarrow> unit act" where
  "emit_all events = st_iter emit events"

definition publish_snapshot :: "unit act" where
  "publish_snapshot =
     st_bind (st_result (ask_res snapshot)) (\<lambda>r.
     case r of Inr s \<Rightarrow> do_effect (Publish s) | Inl e \<Rightarrow> st_ret ())"

subsection \<open>Outbound calls and timers\<close>

definition spawn_fetch_for_new_arc :: "arc_id \<Rightarrow> unit act" where
  "spawn_fetch_for_new_arc arc = st_bind (ask st_naddr) (\<lambda>my_naddr. do_effect (FetchNewArc arc my_naddr))"

definition spawn_gather :: "arc_id option \<Rightarrow> etp_path list \<Rightarrow> unit act" where
  "spawn_gather a_changed extra_dead_paths =
     st_bind (ask arc_list) (\<lambda>arcs.
     st_bind (ask st_naddr) (\<lambda>my_naddr.
     do_effect (Gather a_changed extra_dead_paths arcs my_naddr)))"

definition spawn_arc_gather_window :: "unit act" where
  "spawn_arc_gather_window =
     st_bind (ask (\<lambda>s. arc_gather_debounce (st_config s))) (\<lambda>interval. do_effect (ArcGatherWindow interval))"

definition open_window :: "arc_id \<Rightarrow> unit act" where
  "open_window arc =
     st_bind (spawn_gather (Some arc) []) (\<lambda>_.
     st_bind (st_put (ac_window_update (\<lambda>_. Some \<lparr>pg_latest_arc = arc, pg_trailing_owed = False\<rparr>))) (\<lambda>_.
     spawn_arc_gather_window))"

definition request_arc_gather :: "arc_id \<Rightarrow> unit act" where
  "request_arc_gather arc =
     st_bind (st_get ac_window) (\<lambda>window.
     case window of
       None \<Rightarrow> open_window arc
     | Some pending \<Rightarrow>
         st_put (ac_window_update (\<lambda>_. Some (pending\<lparr>pg_latest_arc := arc, pg_trailing_owed := True\<rparr>))))"

definition handle_arc_gather_window_elapsed :: "unit act" where
  "handle_arc_gather_window_elapsed =
     st_bind (st_get ac_window) (\<lambda>window.
     st_bind (st_put (ac_window_update (\<lambda>_. None))) (\<lambda>_.
     case window of
       None \<Rightarrow> st_ret ()
     | Some pending \<Rightarrow> st_when (pg_trailing_owed pending) (open_window (pg_latest_arc pending))))"

definition spawn_unicast :: "arc_id \<Rightarrow> etp_message \<Rightarrow> bool \<Rightarrow> unit act" where
  "spawn_unicast arc msg is_full = do_effect (Unicast arc msg is_full)"

definition spawn_broadcast :: "arc_id list \<Rightarrow> etp_message \<Rightarrow> bool \<Rightarrow> unit act" where
  "spawn_broadcast arcs msg is_full = st_when (arcs \<noteq> []) (do_effect (Broadcast arcs msg is_full))"

definition spawn_broadcast_all :: "etp_message \<Rightarrow> bool \<Rightarrow> unit act" where
  "spawn_broadcast_all msg is_full = st_bind (ask arc_list) (\<lambda>arcs. spawn_broadcast arcs msg is_full)"

definition spawn_broadcast_all_but :: "etp_message \<Rightarrow> bool \<Rightarrow> arc_id \<Rightarrow> unit act" where
  "spawn_broadcast_all_but msg is_full except =
     st_bind (ask arc_list) (\<lambda>arcs. spawn_broadcast (filter (\<lambda>a. a \<noteq> except) arcs) msg is_full)"

definition spawn_bootstrap_and_periodic :: "unit act" where
  "spawn_bootstrap_and_periodic =
     st_bind (ask (\<lambda>s. bootstrap_signal_delay (st_config s))) (\<lambda>signal_delay.
     st_bind (ask (\<lambda>s. periodic_full_etp_interval (st_config s))) (\<lambda>interval.
     do_effect (BootstrapSignal signal_delay interval)))"

definition spawn_bootstrap_fetches :: "arc_id list \<Rightarrow> unit act" where
  "spawn_bootstrap_fetches arcs =
     st_bind (ask st_naddr) (\<lambda>my_naddr. st_iter (\<lambda>arc. do_effect (BootstrapFetch arc my_naddr)) arcs)"

definition spawn_bootstrap_entering :: "arc_id list \<Rightarrow> unit act" where
  "spawn_bootstrap_entering bootstrap_arcs =
     st_bind (spawn_bootstrap_fetches bootstrap_arcs) (\<lambda>_.
     st_bind (ask (\<lambda>s. bootstrap_fallback_max_wait (st_config s))) (\<lambda>max_wait.
     do_effect (BootstrapTimer max_wait)))"

definition spawn_exit_bootstrap_gather :: "unit act" where
  "spawn_exit_bootstrap_gather =
     st_bind (ask arc_list) (\<lambda>arcs.
     st_bind (ask st_naddr) (\<lambda>my_naddr. do_effect (ExitBootstrapGather arcs my_naddr)))"

definition spawn_first_detection_split :: "hcoord list \<Rightarrow> unit act" where
  "spawn_first_detection_split b_set =
     st_bind (ask (\<lambda>s. first_detection_split_delay (st_config s))) (\<lambda>delay.
     do_effect (FirstSplitTimer delay b_set))"

type_synonym threshold_calculator = "route_path \<Rightarrow> route_path \<Rightarrow> duration"

definition spawn_split_signal :: "threshold_calculator \<Rightarrow> split_signal \<Rightarrow> unit act" where
  "spawn_split_signal tc s =
     st_bind (on_state (\<lambda>q. case begin_pending_split (ss_fp_eldest s) (ss_fp s) q of (b, q') \<Rightarrow> (Ok b, q'))) (\<lambda>fresh.
     st_when fresh (
       st_bind (ask (\<lambda>q. to_route_path (ss_bp_eldest s) (arc_cost q (np_arc (ss_bp_eldest s))))) (\<lambda>bp_eldest_route.
       st_bind (ask (\<lambda>q. to_route_path (ss_bp s) (arc_cost q (np_arc (ss_bp s))))) (\<lambda>bp_route.
       do_effect (SplitTimer (tc bp_eldest_route bp_route) (ss_destination s) (ss_fp_eldest s) (ss_fp s))))))"

definition spawn_split_signals :: "threshold_calculator \<Rightarrow> split_signal list \<Rightarrow> unit act" where
  "spawn_split_signals tc signals = st_iter (spawn_split_signal tc) signals"

subsection \<open>Arcs come and go\<close>

definition handle_add_arc :: "cost \<Rightarrow> unit act" where
  "handle_add_arc cost a =
     (case alloc_arc (contains_arc (ac_state a)) (ac_source a) of
        None \<Rightarrow> (Panic, a)
      | Some (i, source') \<Rightarrow>
          st_bind (st_put (ac_state_update (add_arc i cost))) (\<lambda>_.
          st_bind (do_effect (Reply (ReplyArc i))) (\<lambda>_.
          st_bind (ask is_bootstrap_complete) (\<lambda>complete.
          if complete then spawn_fetch_for_new_arc i else spawn_bootstrap_fetches [i])))
          (a\<lparr>ac_source := source'\<rparr>))"

definition do_remove_arc :: "arc_id \<Rightarrow> bool \<Rightarrow> unit act" where
  "do_remove_arc arc bad_link =
     st_bind (on_state (\<lambda>s. case remove_arc arc s of (removal, s') \<Rightarrow> (Ok removal, s'))) (\<lambda>removal.
     st_bind (emit_all (ra_events removal)) (\<lambda>_.
     st_bind (emit (ArcRemoved arc bad_link)) (\<lambda>_.
     st_bind (st_when (ra_events removal \<noteq> []) publish_snapshot) (\<lambda>_.
     st_when (ra_dead_paths removal \<noteq> []) (spawn_gather None (ra_dead_paths removal))))))"

definition handle_arc_changed :: "arc_id \<Rightarrow> cost \<Rightarrow> unit act" where
  "handle_arc_changed arc cost =
     st_bind (ask (\<lambda>s. contains_arc s arc)) (\<lambda>known.
     if \<not> known then do_effect (Reply (ReplyResult (Err UnknownArc)))
     else
       st_bind (st_put (ac_state_update (set_arc_cost arc cost))) (\<lambda>_.
       st_bind (do_effect (Reply (ReplyResult (Ok ())))) (\<lambda>_.
       st_bind (ask is_bootstrap_complete) (\<lambda>complete.
       st_when complete (request_arc_gather arc)))))"

definition handle_remove_arc :: "arc_id \<Rightarrow> unit act" where
  "handle_remove_arc arc =
     st_bind (ask (\<lambda>s. contains_arc s arc)) (\<lambda>known.
     st_bind (ask is_bootstrap_complete) (\<lambda>complete.
     if \<not> known then do_effect (Reply (ReplyResult (Err UnknownArc)))
     else if \<not> complete then do_effect (Reply (ReplyResult (Ok ())))
     else
       st_bind (on_state (\<lambda>s. case remove_arc arc s of (removal, s') \<Rightarrow> (Ok removal, s'))) (\<lambda>removal.
       st_bind (emit_all (ra_events removal)) (\<lambda>_.
       st_bind (st_when (ra_events removal \<noteq> []) publish_snapshot) (\<lambda>_.
       st_bind (do_effect (Reply (ReplyResult (Ok ())))) (\<lambda>_.
       spawn_gather None (ra_dead_paths removal)))))))"

subsection \<open>Ingesting\<close>

definition check_and_remove_on_junk :: "arc_id \<Rightarrow> etp_message \<Rightarrow> bool act" where
  "check_and_remove_on_junk arc etp =
     st_bind (ask_res (\<lambda>s. check_incoming_message etp (st_naddr s))) (\<lambda>ok.
     if ok then st_ret True
     else st_bind (do_remove_arc arc False) (\<lambda>_. st_ret False))"

text \<open>\<open>self.state.update_clusters().unwrap_or_default()\<close>.\<close>

definition clusters_or_default :: "qspn_event list act" where
  "clusters_or_default =
     st_bind (st_result (on_state update_clusters)) (\<lambda>r. st_ret (case r of Inl _ \<Rightarrow> [] | Inr evs \<Rightarrow> evs))"

text \<open>The common tail of an ingest: the outcome of \<open>update_map\<close> is announced, its splits are scheduled, the
  clusters are recomputed. The result says whether this node's own g-nodes changed.\<close>

definition after_update :: "threshold_calculator \<Rightarrow> update_map_outcome \<Rightarrow> bool act" where
  "after_update tc outcome =
     st_bind (emit_all (um_events outcome)) (\<lambda>_.
     st_bind (st_when (um_b_set outcome \<noteq> []) (spawn_first_detection_split (um_b_set outcome))) (\<lambda>_.
     st_bind (spawn_split_signals tc (um_splits outcome)) (\<lambda>_.
     st_bind clusters_or_default (\<lambda>cluster_events.
     st_bind (emit_all cluster_events) (\<lambda>_.
     st_ret (cluster_events \<noteq> []))))))"

type_synonym hash_order = "hcoord list \<Rightarrow> hcoord list"

definition record_peer :: "arc_id \<Rightarrow> naddr \<Rightarrow> (naddr option) act" where
  "record_peer arc addr = on_state (\<lambda>s. case record_peer_naddr arc addr s of (old, s') \<Rightarrow> (Ok old, s'))"

text \<open>\<open>ingest_checked_etp\<close> from the revised paths on.\<close>

definition merge_revised :: "hash_order \<Rightarrow> threshold_calculator \<Rightarrow> revised_etp \<Rightarrow> (ingested option) act" where
  "merge_revised ho tc rv =
     st_bind (st_result (on_state (update_map ho (rev_paths rv) None))) (\<lambda>u.
     case u of
       Inl e \<Rightarrow> st_ret None
     | Inr outcome \<Rightarrow>
         st_bind (after_update tc outcome) (\<lambda>changed_my_gnodes.
         st_ret (Some \<lparr>ig_hops = rev_hops rv, ig_all_paths = um_all_paths outcome,
           ig_changed_my_gnodes = changed_my_gnodes\<rparr>)))"

definition ingest_checked_etp ::
  "hash_order \<Rightarrow> threshold_calculator \<Rightarrow> arc_id \<Rightarrow> etp_message \<Rightarrow> bool \<Rightarrow> (ingested option) act" where
  "ingest_checked_etp ho tc arc etp is_full =
     st_bind (record_peer arc (em_node_address etp)) (\<lambda>old_peer.
     st_bind (ask (\<lambda>s. if is_full then paths_via_arc0 s arc else [])) (\<lambda>existing.
     st_bind (st_result (ask_res (\<lambda>s. revise_etp (st_naddr s) etp arc old_peer is_full existing))) (\<lambda>r.
     case r of Inl e \<Rightarrow> st_ret None | Inr rv \<Rightarrow> merge_revised ho tc rv)))"

definition ingest_incoming_etp ::
  "hash_order \<Rightarrow> threshold_calculator \<Rightarrow> arc_id \<Rightarrow> etp_message \<Rightarrow> bool \<Rightarrow> (ingested option) act" where
  "ingest_incoming_etp ho tc arc etp is_full =
     st_bind (check_and_remove_on_junk arc etp) (\<lambda>ok.
     if \<not> ok then st_ret None else ingest_checked_etp ho tc arc etp is_full)"

definition ingested_changed :: "ingested \<Rightarrow> bool" where
  "ingested_changed i \<longleftrightarrow> ig_all_paths i \<noteq> [] \<or> ig_changed_my_gnodes i"

text \<open>\<open>finalize_for_sending\<close> followed by \<open>flood::prepare_new_etp\<close>.\<close>

definition build_etp :: "etp_path list \<Rightarrow> hcoord list \<Rightarrow> etp_message act" where
  "build_etp paths hops =
     st_bind (ask_res (\<lambda>s. finalize_for_sending s paths)) (\<lambda>ps.
     ask_res (\<lambda>s. prepare_new_etp s ps hops))"

text \<open>What \<open>handle_arc_add_fetched\<close> and \<open>handle_inbound_send_etp\<close> do with a successful ingest.\<close>

definition publish_and_forward :: "arc_id \<Rightarrow> ingested \<Rightarrow> unit act" where
  "publish_and_forward arc ingested =
     st_bind (st_when (ingested_changed ingested) publish_snapshot) (\<lambda>_.
     st_bind (ask (\<lambda>s. length (st_arcs s))) (\<lambda>count.
     st_when (ingested_changed ingested \<and> count > 1)
       (st_bind (build_etp (ig_all_paths ingested) (ig_hops ingested)) (\<lambda>msg.
        spawn_broadcast_all_but msg False arc))))"

definition handle_arc_add_fetched ::
  "hash_order \<Rightarrow> threshold_calculator \<Rightarrow> arc_id \<Rightarrow> etp_message option \<Rightarrow> unit act" where
  "handle_arc_add_fetched ho tc arc result =
     st_bind (ask (\<lambda>s. contains_arc s arc)) (\<lambda>known.
     if \<not> known then st_ret ()
     else
     case result of
       None \<Rightarrow> do_remove_arc arc True
     | Some etp \<Rightarrow>
         st_bind (ingest_incoming_etp ho tc arc etp True) (\<lambda>r.
         case r of
           None \<Rightarrow> st_ret ()
         | Some ingested \<Rightarrow>
             st_bind (publish_and_forward arc ingested) (\<lambda>_.
             st_bind (ask_res prepare_full_etp) (\<lambda>full.
             spawn_unicast arc full True))))"

text \<open>One result of a gathered batch: the revised paths it contributes.\<close>

definition gather_checked :: "arc_id \<Rightarrow> etp_message \<Rightarrow> node_path list act" where
  "gather_checked arc etp =
     st_bind (record_peer arc (em_node_address etp)) (\<lambda>old_peer.
     st_bind (ask (\<lambda>s. paths_via_arc0 s arc)) (\<lambda>existing.
     st_bind (st_result (ask_res (\<lambda>s. revise_etp (st_naddr s) etp arc old_peer True existing))) (\<lambda>r.
     st_ret (case r of Inl e \<Rightarrow> [] | Inr rv \<Rightarrow> rev_paths rv))))"

definition gather_answer :: "arc_id \<Rightarrow> etp_message option \<Rightarrow> node_path list act" where
  "gather_answer arc result =
     (case result of
       None \<Rightarrow> st_bind (do_remove_arc arc True) (\<lambda>_. st_ret [])
     | Some etp \<Rightarrow>
         st_bind (ask_res (\<lambda>s. check_incoming_message etp (st_naddr s))) (\<lambda>ok.
         if \<not> ok then st_bind (do_remove_arc arc False) (\<lambda>_. st_ret [])
         else gather_checked arc etp))"

definition gather_one :: "arc_id \<times> etp_message option \<Rightarrow> node_path list act" where
  "gather_one ar =
     (case ar of (arc, result) \<Rightarrow>
     st_bind (ask (\<lambda>s. contains_arc s arc)) (\<lambda>known.
     if \<not> known then st_ret [] else gather_answer arc result))"

definition handle_gather_complete ::
  "hash_order \<Rightarrow> threshold_calculator \<Rightarrow> arc_id option \<Rightarrow> etp_path list \<Rightarrow> (arc_id \<times> etp_message option) list \<Rightarrow> unit act" where
  "handle_gather_complete ho tc a_changed extra_dead_paths results =
     st_bind (st_concat gather_one results) (\<lambda>q.
     st_bind (st_result (on_state (update_map ho q a_changed))) (\<lambda>u.
     case u of
       Inl e \<Rightarrow> st_ret ()
     | Inr outcome \<Rightarrow>
         st_bind (after_update tc outcome) (\<lambda>changed_my_gnodes.
         let all_paths_set = um_all_paths outcome @ extra_dead_paths;
             changed = (all_paths_set \<noteq> [] \<or> changed_my_gnodes) in
         st_bind (st_when changed publish_snapshot) (\<lambda>_.
         st_bind (ask (\<lambda>s. length (st_arcs s))) (\<lambda>count.
         st_when (changed \<and> count > 0)
           (st_bind (build_etp all_paths_set []) (\<lambda>msg. spawn_broadcast_all msg False)))))))"

subsection \<open>Inbound calls\<close>

text \<open>The paths of level \<open>b.level\<close> and above that do not pass through the requester.\<close>

definition told_to :: "qspn_state \<Rightarrow> hcoord \<Rightarrow> etp_path list" where
  "told_to s b =
     map (\<lambda>np. prepare_for_sending np (arc_cost s (np_arc np)))
       (filter (\<lambda>np. b \<notin> set (np_hops np)) (concat (map (all_paths_at s) [hc_level b..<levels_of s])))"

definition handle_inbound_get_full_etp :: "arc_id \<Rightarrow> naddr \<Rightarrow> qspn_state \<Rightarrow> (etp_message, qspn_error) res" where
  "handle_inbound_get_full_etp arc requesting_address s =
     (if \<not> is_bootstrap_complete s then Err BootstrapInProgress
      else if \<not> contains_arc s arc then Err NotAnArc
      else
      res_bind (map_err CommonError (hcoord_of (st_naddr s) requesting_address)) (\<lambda>v.
      res_bind (ok_or v EtpFromSelf) (\<lambda>b.
      res_bind (finalize_for_sending s (told_to s b)) (\<lambda>paths.
      prepare_new_etp s paths []))))"

definition do_exit_bootstrap :: "unit act" where
  "do_exit_bootstrap =
     st_bind (st_put (ac_state_update exit_bootstrap)) (\<lambda>_.
     st_bind publish_snapshot (\<lambda>_.
     st_bind (emit BootstrapComplete) (\<lambda>_.
     st_bind (ask (\<lambda>s. periodic_full_etp_interval (st_config s))) (\<lambda>interval.
     st_bind (do_effect (PeriodicLoop interval)) (\<lambda>_.
     spawn_exit_bootstrap_gather)))))"

text \<open>The gate of the bootstrap phase: the sender is inside the hooking g-node and the message has a
  destination of level \<open>host_gnode_level - 1\<close>. A subtraction below 0 is a panic.\<close>

definition qualifies_by_send :: "etp_message \<Rightarrow> qspn_state \<Rightarrow> (bool, qspn_error) res" where
  "qualifies_by_send etp s =
     res_bind (expect (host_gnode_level s)) (\<lambda>host.
     case hcoord_of (st_naddr s) (em_node_address etp) of
       Panic \<Rightarrow> Panic
     | Err _ \<Rightarrow> Ok False
     | Ok None \<Rightarrow> Ok False
     | Ok (Some sender) \<Rightarrow>
         if guest_gnode_level s \<le> hc_level sender then Ok False
         else if host = 0 then (if list_ex (\<lambda>p. ep_hops p \<noteq> []) (em_paths etp) then Panic else Ok False)
         else Ok (list_ex (\<lambda>p. ep_hops p \<noteq> [] \<and> hc_level (last (ep_hops p)) = host - 1) (em_paths etp)))"

definition handle_inbound_send_etp ::
  "hash_order \<Rightarrow> threshold_calculator \<Rightarrow> arc_id \<Rightarrow> etp_message \<Rightarrow> bool \<Rightarrow> unit act" where
  "handle_inbound_send_etp ho tc arc etp is_full =
     st_bind (ask (\<lambda>s. contains_arc s arc)) (\<lambda>known.
     if \<not> known then do_effect (Reply (ReplyResult (Err NotAnArc)))
     else
     st_bind (check_and_remove_on_junk arc etp) (\<lambda>ok.
     if \<not> ok then do_effect (Reply (ReplyResult (Ok ())))
     else
     st_bind (ask is_bootstrap_complete) (\<lambda>complete.
     if \<not> complete then
       st_bind (ask_res (qualifies_by_send etp)) (\<lambda>qualifies.
       if \<not> qualifies then do_effect (Reply (ReplyResult (Ok ())))
       else
         st_bind (ingest_checked_etp ho tc arc etp is_full) (\<lambda>_.
         st_bind do_exit_bootstrap (\<lambda>_.
         do_effect (Reply (ReplyResult (Ok ()))))))
     else
       st_bind (ingest_checked_etp ho tc arc etp is_full) (\<lambda>r.
       st_bind (case r of None \<Rightarrow> st_ret () | Some ingested \<Rightarrow> publish_and_forward arc ingested) (\<lambda>_.
       do_effect (Reply (ReplyResult (Ok ()))))))))"

subsection \<open>Timers fire\<close>

definition broadcast_full :: "unit act" where
  "broadcast_full =
     st_bind (ask (\<lambda>s. length (st_arcs s))) (\<lambda>count.
     st_when (count > 0) (st_bind (ask_res prepare_full_etp) (\<lambda>msg. spawn_broadcast_all msg True)))"

definition handle_periodic_full_etp :: "unit act" where
  "handle_periodic_full_etp = broadcast_full"

definition split_paths :: "qspn_state \<Rightarrow> hcoord list \<Rightarrow> etp_path list" where
  "split_paths s b_set =
     concat (map (\<lambda>g. case destination_at s (hc_level g) (hc_pos g) of
        None \<Rightarrow> []
      | Some d \<Rightarrow> map (\<lambda>np. prepare_for_sending np (arc_cost s (np_arc np))) (dest_paths d)) b_set)"

definition handle_first_detection_split :: "hcoord list \<Rightarrow> unit act" where
  "handle_first_detection_split b_set =
     st_bind (ask (\<lambda>s. split_paths s b_set)) (\<lambda>paths.
     st_when (paths \<noteq> []) (st_bind (build_etp paths []) (\<lambda>msg. spawn_broadcast_all msg False)))"

definition handle_split_timer_fire :: "hcoord \<Rightarrow> fp \<Rightarrow> fp \<Rightarrow> unit act" where
  "handle_split_timer_fire destination fp_eldest f =
     st_bind (st_put (ac_state_update (clear_pending_split fp_eldest f))) (\<lambda>_.
     st_bind (ask_res (split_still_live destination fp_eldest f)) (\<lambda>arcs.
     st_iter (\<lambda>arc. emit (GnodeSplitted arc destination f)) arcs))"

subsection \<open>Bootstrap\<close>

definition handle_bootstrap_etp_fetched ::
  "hash_order \<Rightarrow> threshold_calculator \<Rightarrow> arc_id \<Rightarrow> etp_message option \<Rightarrow> unit act" where
  "handle_bootstrap_etp_fetched ho tc arc result =
     st_bind (ask (\<lambda>s. is_bootstrap_complete s \<or> \<not> contains_arc s arc)) (\<lambda>stop.
     if stop then st_ret ()
     else
     case result of
       None \<Rightarrow> do_remove_arc arc True
     | Some etp \<Rightarrow>
         st_bind (st_result (ask_res (\<lambda>s. map_err CommonError (hcoord_of (st_naddr s) (em_node_address etp))))) (\<lambda>v.
         case v of
           Inl _ \<Rightarrow> st_ret ()
         | Inr None \<Rightarrow> st_ret ()
         | Inr (Some sender) \<Rightarrow>
             st_bind (ask guest_gnode_level) (\<lambda>guest.
             st_bind (ask_res (\<lambda>s. expect (host_gnode_level s))) (\<lambda>host.
             if hc_level sender < guest \<or> host \<le> hc_level sender then st_ret ()
             else
               st_bind (ingest_incoming_etp ho tc arc etp True) (\<lambda>_.
               do_exit_bootstrap)))))"

definition handle_bootstrap_timeout :: "unit act" where
  "handle_bootstrap_timeout =
     st_bind (ask is_bootstrap_complete) (\<lambda>complete. st_when (\<not> complete) do_exit_bootstrap)"

text \<open>The loop of the exit-bootstrap re-fetch; the result says whether the map learnt anything.\<close>

definition exit_gather_one ::
  "hash_order \<Rightarrow> threshold_calculator \<Rightarrow> arc_id \<times> etp_message option \<Rightarrow> bool act" where
  "exit_gather_one ho tc ar =
     (case ar of (arc, result) \<Rightarrow>
     st_bind (ask (\<lambda>s. contains_arc s arc)) (\<lambda>known.
     if \<not> known then st_ret False
     else
     case result of
       Some etp \<Rightarrow>
         st_bind (ingest_incoming_etp ho tc arc etp True) (\<lambda>r.
         st_ret (case r of None \<Rightarrow> False | Some ingested \<Rightarrow> ingested_changed ingested))
     | None \<Rightarrow> st_bind (do_remove_arc arc True) (\<lambda>_. st_ret False)))"

definition handle_exit_bootstrap_gathered ::
  "hash_order \<Rightarrow> threshold_calculator \<Rightarrow> (arc_id \<times> etp_message option) list \<Rightarrow> unit act" where
  "handle_exit_bootstrap_gathered ho tc results =
     st_bind (st_concat (\<lambda>ar. st_bind (exit_gather_one ho tc ar) (\<lambda>b. st_ret [b])) results) (\<lambda>changes.
     st_bind (st_when (True \<in> set changes) publish_snapshot) (\<lambda>_.
     st_bind broadcast_full (\<lambda>_.
     st_bind (ask (\<lambda>s. presence_notified_delay (st_config s))) (\<lambda>delay.
     do_effect (PresenceTimer delay)))))"

subsection \<open>Connectivity\<close>

definition handle_make_connectivity :: "usize \<Rightarrow> usize \<Rightarrow> (naddr \<Rightarrow> naddr) \<Rightarrow> unit act" where
  "handle_make_connectivity from to update_naddr =
     st_bind (st_result (on_state (make_connectivity from to update_naddr))) (\<lambda>r.
     case r of
       Inl e \<Rightarrow> do_effect (Reply (ReplyResult (Err e)))
     | Inr outcome \<Rightarrow>
         st_bind (emit_all (mc_events outcome)) (\<lambda>_.
         st_bind (st_when (mc_events outcome \<noteq> []) publish_snapshot) (\<lambda>_.
         st_bind (do_effect (Reply (ReplyResult (Ok ())))) (\<lambda>_.
         st_bind (ask (\<lambda>s. publish_connectivity_delay (st_config s))) (\<lambda>delay.
         do_effect (PublishConnectivityTimer delay (mc_old_position outcome)))))))"

definition outer_arcs_after_connectivity :: "hcoord \<Rightarrow> qspn_state \<Rightarrow> (arc_id list, qspn_error) res" where
  "outer_arcs_after_connectivity old_position s =
     select_arcs (st_naddr s) (\<lambda>_ h. (hc_level h = hc_level old_position \<and> hc_pos h \<noteq> hc_pos old_position) \<or>
       hc_level old_position < hc_level h) (st_arcs s)"

definition handle_publish_connectivity :: "hcoord \<Rightarrow> unit act" where
  "handle_publish_connectivity old_position =
     st_bind (ask_res (outer_arcs_after_connectivity old_position)) (\<lambda>outer_arcs.
     st_bind (ask_res (\<lambda>s. prepare_new_etp s [] [old_position])) (\<lambda>msg.
     spawn_broadcast outer_arcs msg False))"

definition handle_exit_network :: "usize \<Rightarrow> unit act" where
  "handle_exit_network level =
     st_bind (st_result (on_state (exit_network level))) (\<lambda>r.
     case r of
       Inl e \<Rightarrow> do_effect (Reply (ReplyResult (Err e)))
     | Inr outcome \<Rightarrow>
         st_bind (emit_all (en_events outcome)) (\<lambda>_.
         st_bind (st_when (en_events outcome \<noteq> []) publish_snapshot) (\<lambda>_.
         st_bind (do_effect (Reply (ReplyResult (Ok ())))) (\<lambda>_.
         broadcast_full))))"

subsection \<open>Dispatch\<close>

definition resend :: "arc_id \<Rightarrow> etp_message \<Rightarrow> bool \<Rightarrow> unit act" where
  "resend arc etp is_full =
     st_bind (ask (\<lambda>s. contains_arc s arc)) (\<lambda>known. st_when known (do_effect (Resend arc etp is_full)))"

text \<open>A reply computed by a read that may fail: its error is the reply, its panic the actor's.\<close>

definition answer :: "(('a, qspn_error) res \<Rightarrow> reply) \<Rightarrow> (qspn_state \<Rightarrow> ('a, qspn_error) res) \<Rightarrow> unit act" where
  "answer wrap f a =
     (case f (ac_state a) of Panic \<Rightarrow> (Panic, a) | r \<Rightarrow> do_effect (Reply (wrap r)) a)"

fun handle :: "hash_order \<Rightarrow> threshold_calculator \<Rightarrow> command \<Rightarrow> unit act" where
  "handle ho tc (AddArc cost) = handle_add_arc cost"
| "handle ho tc (ArcAddFetched arc result) = handle_arc_add_fetched ho tc arc result"
| "handle ho tc (ArcChanged arc cost) = handle_arc_changed arc cost"
| "handle ho tc (RemoveArc arc) = handle_remove_arc arc"
| "handle ho tc (GatherComplete a_changed extra_dead_paths results) =
     handle_gather_complete ho tc a_changed extra_dead_paths results"
| "handle ho tc CurrentArcs = st_bind (ask arc_list) (\<lambda>arcs. do_effect (Reply (ReplyArcs arcs)))"
| "handle ho tc (PeerNaddr arc) = st_bind (ask (\<lambda>s. peer_naddr s arc)) (\<lambda>n. do_effect (Reply (ReplyPeer n)))"
| "handle ho tc (MyEldership level) =
     st_bind (ask (\<lambda>s. my_eldership s level)) (\<lambda>e. do_effect (Reply (ReplyMyEldership e)))"
| "handle ho tc (Eldership level pos) = answer ReplyEldership (\<lambda>s. eldership_of s level pos)"
| "handle ho tc (FingerprintId level) =
     st_bind (ask (\<lambda>s. map_option fp_id (fingerprint_at s level))) (\<lambda>i. do_effect (Reply (ReplyFingerprintId i)))"
| "handle ho tc (GetFullEtp arc requesting_address) =
     answer ReplyEtp (handle_inbound_get_full_etp arc requesting_address)"
| "handle ho tc (SendEtp arc etp is_full) = handle_inbound_send_etp ho tc arc etp is_full"
| "handle ho tc GotPrepareDestroy = do_effect (Reply ReplyUnit)"
| "handle ho tc (GotDestroy arc) = st_bind (do_remove_arc arc False) (\<lambda>_. do_effect (Reply ReplyUnit))"
| "handle ho tc DestroyStub =
     st_bind (ask arc_list) (\<lambda>arcs. do_effect (Reply (ReplyStub (if arcs = [] then None else Some arcs))))"
| "handle ho tc (ResendEtp arc etp is_full) = resend arc etp is_full"
| "handle ho tc (ResendFailed arc) = do_remove_arc arc True"
| "handle ho tc PeriodicFullEtp = handle_periodic_full_etp"
| "handle ho tc (BootstrapEtpFetched arc result) = handle_bootstrap_etp_fetched ho tc arc result"
| "handle ho tc BootstrapTimeout = handle_bootstrap_timeout"
| "handle ho tc (ExitBootstrapGathered results) = handle_exit_bootstrap_gathered ho tc results"
| "handle ho tc IsBootstrapComplete =
     st_bind (ask is_bootstrap_complete) (\<lambda>b. do_effect (Reply (ReplyBool b)))"
| "handle ho tc CurrentNaddr = st_bind (ask st_naddr) (\<lambda>n. do_effect (Reply (ReplyNaddr n)))"
| "handle ho tc (MakeConnectivity from to update_naddr) = handle_make_connectivity from to update_naddr"
| "handle ho tc (PublishConnectivity old_position) = handle_publish_connectivity old_position"
| "handle ho tc (ExitNetwork level) = handle_exit_network level"
| "handle ho tc CheckConnectivity = answer ReplyCheck check_connectivity"
| "handle ho tc (FirstDetectionSplitFire b_set) = handle_first_detection_split b_set"
| "handle ho tc (SplitTimerFire destination fp_eldest f) = handle_split_timer_fire destination fp_eldest f"
| "handle ho tc ArcGatherWindowElapsed = handle_arc_gather_window_elapsed"

subsection \<open>Starting an actor\<close>

definition actor_of :: "qspn_state \<Rightarrow> u64 \<Rightarrow> actor" where
  "actor_of s source = \<lparr>ac_state = s, ac_source = source, ac_window = None, ac_out = []\<rparr>"

text \<open>The first value of the watch channel.\<close>

definition initial_snapshot :: "qspn_state \<Rightarrow> (route_snapshot option, qspn_error) res" where
  "initial_snapshot s = (case snapshot s of Ok r \<Rightarrow> Ok (Some r) | Err _ \<Rightarrow> Ok None | Panic \<Rightarrow> Panic)"

definition spawn :: "naddr \<Rightarrow> fp \<Rightarrow> qspn_config \<Rightarrow> u64 \<Rightarrow> (actor, qspn_error) res" where
  "spawn my_naddr my_fingerprint config source =
     res_bind (state_new my_naddr my_fingerprint config) (\<lambda>s.
     res_bind (initial_snapshot s) (\<lambda>_.
     let (r, a) = spawn_bootstrap_and_periodic (actor_of s source) in res_bind r (\<lambda>_. Ok a)))"

definition spawn_entering ::
  "naddr \<Rightarrow> fp \<Rightarrow> qspn_config \<Rightarrow> internal_arc list \<Rightarrow> (arc_id \<times> cost) list \<Rightarrow> usize \<Rightarrow> usize
    \<Rightarrow> usize \<times> usize \<Rightarrow> level_map list \<Rightarrow> u64 \<Rightarrow> (actor, qspn_error) res" where
  "spawn_entering my_naddr my_fingerprint config internal external guest host connectivity previous source =
     res_bind (new_entering my_naddr my_fingerprint config internal external guest host connectivity previous) (\<lambda>s.
     res_bind (initial_snapshot s) (\<lambda>_.
     let (r, a) = spawn_bootstrap_entering (map fst external) (actor_of s source) in res_bind r (\<lambda>_. Ok a)))"

end
