(* ===== verification/Qspn_Forwarded.thy ===== *)
theory Qspn_Forwarded
  imports Qspn_MapLaws
begin

section \<open>Where the forwarded paths come from\<close>

text \<open>
  The paths \<open>update_map\<close> hands on for flooding are copies of stored paths or of live offers, with the cost
  seen from here or dead: the actor never tells a path nobody told it.
\<close>

definition tells :: "node_path \<Rightarrow> etp_path \<Rightarrow> bool" where
  "tells np p \<longleftrightarrow> ep_hops p = np_hops np \<and> ep_arcs p = np_arcs np \<and> ep_fingerprint p = np_fp np \<and>
     ep_nodes_inside p = np_nodes_inside np"

lemma tells_prepare [simp]: "tells np (prepare_for_sending np c)" "tells np ((prepare_for_sending np c)\<lparr>ep_cost := d\<rparr>)"
  by (simp_all add: tells_def prepare_for_sending_def)

lemma tells_exposed [simp]: "tells (np\<lparr>np_exposed := b\<rparr>) p = tells np p"
  by (simp add: tells_def)

lemma tells_wf: "tells np p \<Longrightarrow> wf_node_path levels np \<Longrightarrow> wf_path levels p"
  by (simp add: tells_def wf_node_path_def wf_path_def)

lemma announce_new_told:
  "announce_new ac d w md od = Ok (od', o') \<Longrightarrow> p \<in> set (ph_paths o') \<Longrightarrow> \<exists>np \<in> set od. tells np p"
proof (induction od arbitrary: od' o')
  case (Cons x od)
  then show ?case
    by (fastforce simp: res_simps Let_def split: if_splits prod.splits)
qed simp

lemma announce_new_same:
  "announce_new ac d w md od = Ok (od', o') \<Longrightarrow> x \<in> set od' \<Longrightarrow> \<exists>np \<in> set od. \<forall>p. tells x p \<longleftrightarrow> tells np p"
proof (induction od arbitrary: od' o')
  case (Cons y od)
  obtain od1 o1 b where r: "announce_new ac d w md od = Ok (od1, o1)" "od' = y # od1 \<or> od' = y\<lparr>np_exposed := b\<rparr> # od1"
    using Cons.prems(1) by (fastforce simp: res_simps Let_def split: if_splits prod.splits)
  consider "x \<in> set od1" | "x = y \<or> x = y\<lparr>np_exposed := b\<rparr>" using r(2) Cons.prems(2) by auto
  then show ?case
  proof cases
    case 1
    then show ?thesis using Cons.IH [OF r(1)] by auto
  next
    case 2
    then show ?thesis by auto
  qed
qed simp

lemma announce_known_told:
  "announce_known ac d w vd md od = Ok (od', o') \<Longrightarrow> p \<in> set (ph_paths o') \<Longrightarrow>
     \<exists>np \<in> set md \<union> set od. tells np p"
proof (induction md arbitrary: od od' o')
  case (Cons x md)
  show ?case
  proof (cases "position (\<lambda>o'. hops_arcs_equal o' (np_path x)) od")
    case None
    with Cons show ?thesis by (fastforce simp: res_simps Let_def split: if_splits prod.splits)
  next
    case (Some idx)
    have idx: "idx < length od" using position_SomeD [OF Some] by simp
    let ?e = "od[idx := (od ! idx)\<lparr>np_exposed := True\<rparr>]"
    have e: "\<exists>np \<in> set md \<union> set od. tells np p" if e: "\<exists>np \<in> set md \<union> set ?e. tells np p"
    proof -
      from e obtain np where np: "np \<in> set md \<union> set ?e" "tells np p" by blast
      have "np \<in> set md \<union> set od \<or> np = (od ! idx)\<lparr>np_exposed := True\<rparr>"
        using np(1) set_update_subset_insert [of od idx] by auto
      then show ?thesis using np(2) nth_mem [OF idx] by auto
    qed
    obtain od1 o1 where r: "announce_known ac d w vd md od1 = Ok (od', o1)" "od1 = od \<or> od1 = ?e"
      "ph_paths o' = ph_paths o1 \<or> (\<exists>c. ph_paths o' = prepare_for_sending (od ! idx) c # ph_paths o1)"
      using Cons.prems(1) Some
      by (fastforce simp: res_simps Let_def split: if_splits prod.splits)
    consider "p \<in> set (ph_paths o1)" | c where "p = prepare_for_sending (od ! idx) c"
      using r(3) Cons.prems(2) by auto
    then show ?thesis
    proof cases
      case 1
      then show ?thesis using Cons.IH [OF r(1)] r(2) e by auto
    next
      case 2
      then show ?thesis using nth_mem [OF idx] by (intro bexI [of _ "od ! idx"]) simp_all
    qed
  qed
qed simp

text \<open>What may be forwarded for a destination: its stored paths and its live candidates.\<close>

definition forwardable :: "qspn_state \<Rightarrow> hcoord \<Rightarrow> node_path list \<Rightarrow> node_path set" where
  "forwardable s d qd = set (stored_paths s d) \<union> {q \<in> set qd. ep_cost (np_path q) \<noteq> Dead}"

lemma plan_told:
  assumes "wf_state s" "candidates_ok s d qd" "hc_level d < levels_of s"
    and plan: "plan_destination qd d ch z_set s = Ok plan" and p: "p \<in> set (ph_paths (pl_out plan))"
  shows "\<exists>np \<in> forwardable s d qd. tells np p"
proof -
  let ?md = "stored_paths s d" and ?max = "max_paths (st_config s)"
  have md: "(case map_of (st_dests s ! hc_level d) (hc_pos d) of None \<Rightarrow> [] | Some dd \<Rightarrow> dest_paths dd) = ?md"
    "hc_level d < length (st_dests s)"
    using assms(1,3) by (auto simp: stored_paths_def destination_at_def wf_statesD(7))
  obtain od vd sizes vnd env rd w od1 out1 od2 out2 where
    c: "admission_candidates ?md qd ch s = Ok (od, vd, sizes)" and
    rd: "admit ?max env \<lparr>ad_fd = [], ad_vnd = vnd, ad_z1d = concat (take (hc_level d) z_set), ad_rd = []\<rparr> od = Ok rd" and
    o1: "announce_new (arc_cost s) d w ?md rd = Ok (od1, out1)" and
    o2: "announce_known (arc_cost s) d w vd ?md od1 = Ok (od2, out2)" and
    out: "ph_paths (pl_out plan) = ph_paths out1 @ ph_paths out2"
    using plan md(2) unfolding plan_destination_def Let_def
    by (auto simp: res_bind_eq_Ok md(1) case_prod_unfold)
  obtain od' vd' sizes' where c': "admission_candidates ?md qd ch s = Ok (od', vd', sizes')"
    "candidates_ok s d od'" "set od' \<subseteq> set ?md \<union> set qd"
    by (rule admission_candidates_spec [OF assms(1,2), of ch])
  have cok: "candidates_ok s d od" "set od \<subseteq> set ?md \<union> set qd" using c c' by simp_all
  have "\<exists>x. admit ?max env \<lparr>ad_fd = [], ad_vnd = vnd, ad_z1d = concat (take (hc_level d) z_set), ad_rd = []\<rparr> od = Ok x \<and>
      subseq x od \<and> (\<forall>p \<in> set x. ep_cost (np_path p) \<noteq> Dead)"
    using admit_spec [of od "\<lparr>ad_fd = [], ad_vnd = vnd, ad_z1d = concat (take (hc_level d) z_set), ad_rd = []\<rparr>" ?max env]
      candidates_arcs_match [OF cok(1)] by auto
  then have sub: "set rd \<subseteq> set od" "\<forall>p \<in> set rd. ep_cost (np_path p) \<noteq> Dead"
    using rd subseq_set by auto
  then have fw: "set rd \<subseteq> forwardable s d qd" "set ?md \<subseteq> forwardable s d qd"
    using cok(2) by (auto simp: forwardable_def)
  consider "p \<in> set (ph_paths out1)" | "p \<in> set (ph_paths out2)" using p out by auto
  then show ?thesis
  proof cases
    case 1
    then show ?thesis using announce_new_told [OF o1] fw by blast
  next
    case 2
    then obtain x where "x \<in> set ?md \<union> set od1" "tells x p" using announce_known_told [OF o2] by blast
    then show ?thesis using announce_new_same [OF o1, of x] fw by blast
  qed
qed

lemma update_map_loop_told:
  assumes "wf_state s" "distinct ds"
    and "\<forall>d \<in> set ds. hc_level d < levels_of s \<and> (\<exists>qd. map_of q d = Some qd \<and> candidates_ok s d qd)"
    and "update_map_loop q ch z_set ds acc s = (Ok out, s')" "p \<in> set (um_all_paths out)"
  shows "p \<in> set (um_all_paths acc) \<or> (\<exists>d \<in> set ds. \<exists>np \<in> forwardable s d (the (map_of q d)). tells np p)"
  using assms
proof (induction ds arbitrary: s acc)
  case Nil
  then show ?case by simp
next
  case (Cons d ds)
  obtain qd where qd: "map_of q d = Some qd" "candidates_ok s d qd" "hc_level d < levels_of s"
    using Cons.prems(3) by auto
  obtain plan o1 where pl: "plan_destination qd d ch z_set s = Ok plan" "plan_ok s d qd plan"
    "update_map_one_destination qd d ch z_set s = (Ok o1, commit_destination d (pl_od plan) s)"
    "od_all_paths o1 = ph_paths (pl_out plan)"
    using update_map_one_run [OF Cons.prems(1) qd(2,3), of ch z_set] by metis
  let ?s = "commit_destination d (pl_od plan) s"
  let ?acc = "\<lparr>um_all_paths = um_all_paths acc @ od_all_paths o1,
      um_b_set = (if od_first_split o1 then push_new d (um_b_set acc) else um_b_set acc),
      um_events = um_events acc @ od_events o1, um_splits = um_splits acc @ od_splits o1\<rparr>"
  have wf: "wf_state ?s" using commit_wf [OF Cons.prems(1) qd(3)] pl(2) by (simp add: plan_ok_def)
  note sel = same_but_dests_sel [OF commit_same [of s d "pl_od plan"]]
  have rest: "\<forall>d' \<in> set ds. hc_level d' < levels_of ?s \<and> (\<exists>qd. map_of q d' = Some qd \<and> candidates_ok ?s d' qd)"
    using Cons.prems(3) sel by simp
  have "update_map_loop q ch z_set ds ?acc ?s = (Ok out, s')"
    using Cons.prems(4) qd(1) pl(3) by (simp add: st_bind_def st_read_def)
  from Cons.IH [OF wf _ rest this Cons.prems(5)] have "p \<in> set (um_all_paths ?acc) \<or> (\<exists>d \<in> set ds. \<exists>np \<in> forwardable ?s d (the (map_of q d)). tells np p)"
    using Cons.prems(2) by simp
  moreover have "forwardable ?s c x = forwardable s c x" if "c \<in> set ds" for c x
    using that Cons.prems(2) stored_paths_commit [OF Cons.prems(1) qd(3)] by (auto simp: forwardable_def)
  ultimately consider "p \<in> set (um_all_paths acc)" | "p \<in> set (ph_paths (pl_out plan))"
    | c where "c \<in> set ds" "\<exists>np \<in> forwardable s c (the (map_of q c)). tells np p"
    using pl(4) by auto
  then show ?case
  proof cases
    case 2
    then show ?thesis using plan_told [OF Cons.prems(1) qd(2,3) pl(1)] qd(1) by auto
  qed auto
qed

lemma update_map_told:
  assumes "wf_state s" "revised_ok s q" "permutes_keys ho" "update_map ho q ch s = (Ok out, s')"
    and "p \<in> set (um_all_paths out)"
  shows "\<exists>d. \<exists>np \<in> forwardable s d q. tells np p"
proof -
  obtain m where m: "group_by_dest q = Ok m" "grouped m q"
    by (rule group_by_dest_total [of q]) (use assms(2) in \<open>auto simp: revised_ok_def wf_node_path_def wf_path_def\<close>)
  obtain z where z: "try_map (my_gnode_neighbors s) [0..<levels_of s] = Ok z"
    using try_map_total my_gnode_neighbors_total [OF assms(1)] by metis
  let ?ds = "sort_key (\<lambda>d. (hc_level d, hops_in_level (arc_cost s) m d)) (ho (map fst m))"
  have start: "update_map_start ho q s = Ok (z, m, ?ds)" by (simp add: update_map_start_def m(1) z)
  have set_ds: "set ?ds = touched q" using permutes_keysD(1) [OF assms(3)] grouped_keys [OF m(2)] by (simp add: touched_def)
  have dist: "distinct ?ds"
    using permutes_keysD(2) [OF assms(3), of "map fst m"] m(2) by (simp add: grouped_def hm_wf_def)
  have grp: "map_of m d = Some (group_of d q)" if "d \<in> touched q" for d
    using that m(2) by (auto simp: grouped_def touched_def group_of_def filter_empty_conv)
  have "\<forall>d \<in> set ?ds. hc_level d < levels_of s \<and> (\<exists>qd. map_of m d = Some qd \<and> candidates_ok s d qd)"
    using set_ds grp group_candidates [OF assms(2)] touched_level [OF assms(2)] by auto
  moreover have "update_map_loop m ch z ?ds \<lparr>um_all_paths = [], um_b_set = [], um_events = [], um_splits = []\<rparr> s = (Ok out, s')"
    using assms(4) start by (simp add: update_map_def st_bind_def st_read_def)
  ultimately obtain d np where d: "d \<in> set ?ds" "np \<in> forwardable s d (the (map_of m d))" "tells np p"
    using update_map_loop_told [OF assms(1) dist _ _ assms(5)] by fastforce
  then have "np \<in> forwardable s d q" using grp set_ds by (auto simp: forwardable_def group_of_def)
  with d(3) show ?thesis by blast
qed

end
