(* ===== verification/Qspn_ActorState.thy ===== *)
theory Qspn_ActorState
  imports Qspn_Actor Qspn_Forwarded
begin

section \<open>The invariant of the actor's state\<close>

text \<open>
  What every state operation the actor calls keeps: well-formedness, the range of the bootstrap levels,
  and a condition \<open>path_ok\<close> on the hops of every stored path, read against the node's own address. The
  condition is a parameter: the actor's laws are proved once for every condition that regrouped paths
  of an accepted message meet, and used for several.
\<close>

definition boot_ok :: "qspn_state \<Rightarrow> bool" where
  "boot_ok s \<longleftrightarrow> (case st_bootstrap s of Complete \<Rightarrow> True | InProgress g h \<Rightarrow> g < h \<and> h \<le> levels_of s)"

definition state_inv :: "(naddr \<Rightarrow> hcoord list \<Rightarrow> bool) \<Rightarrow> qspn_state \<Rightarrow> bool" where
  "state_inv path_ok s \<longleftrightarrow> wf_state s \<and> boot_ok s \<and>
     (\<forall>d. \<forall>np \<in> set (stored_paths s d). path_ok (st_naddr s) (np_hops np))"

lemma state_invD:
  assumes "state_inv path_ok s"
  shows "wf_state s" "boot_ok s" "np \<in> set (stored_paths s d) \<Longrightarrow> path_ok (st_naddr s) (np_hops np)"
  using assms by (auto simp: state_inv_def)

text \<open>A state with the same map, address and bootstrap phase.\<close>

lemma state_inv_transfer:
  assumes "state_inv path_ok s" "wf_state s'" "st_naddr s' = st_naddr s" "st_bootstrap s' = st_bootstrap s"
    and "\<And>d. set (stored_paths s' d) \<subseteq> set (stored_paths s d)"
  shows "state_inv path_ok s'"
  using assms by (auto simp: state_inv_def boot_ok_def levels_of_def split: bootstrap.splits)

lemma stored_paths_same_dests: "st_dests s' = st_dests s \<Longrightarrow> stored_paths s' d = stored_paths s d"
  by (simp add: stored_paths_def destination_at_def)

lemma inv_add_arc: "state_inv path_ok s \<Longrightarrow> state_inv path_ok (add_arc i c s) \<and> st_naddr (add_arc i c s) = st_naddr s"
  using state_inv_transfer [of path_ok s "add_arc i c s"] wf_add_arc [of s i c] state_invD(1) [of path_ok s]
    stored_paths_same_dests [of "add_arc i c s" s] by (simp add: add_arc_def)

lemma inv_set_arc_cost:
  "state_inv path_ok s \<Longrightarrow> state_inv path_ok (set_arc_cost i c s) \<and> st_naddr (set_arc_cost i c s) = st_naddr s"
  using state_inv_transfer [of path_ok s "set_arc_cost i c s"] wf_set_arc_cost [of s i c] state_invD(1) [of path_ok s]
    stored_paths_same_dests [of "set_arc_cost i c s" s] by (simp add: set_arc_cost_def)

lemma inv_record_peer:
  assumes "state_inv path_ok s" "wf_peer (st_naddr s) a" "record_peer_naddr i a s = (old, s')"
  shows "state_inv path_ok s' \<and> st_naddr s' = st_naddr s \<and> arc_ids s' = arc_ids s \<and> pred_option wf_naddr old"
proof -
  have s': "s' = s\<lparr>st_arcs := bt_modify i (\<lambda>e. e\<lparr>ae_peer := Some a\<rparr>) (st_arcs s)\<rparr>"
    using assms(3) by (auto simp: record_peer_naddr_def)
  have w: "wf_state s'" "pred_option (wf_peer (st_naddr s)) old"
    using wf_record_peer_naddr [OF state_invD(1) [OF assms(1)] assms(2,3)] by auto
  have "state_inv path_ok s'"
    by (rule state_inv_transfer [OF assms(1) w(1)]) (simp_all add: s' stored_paths_def destination_at_def)
  moreover have "pred_option wf_naddr old" using w(2) by (cases old) (simp_all add: wf_peer_def)
  ultimately show ?thesis by (simp add: s')
qed

lemma remove_arc_dead:
  assumes "wf_state s" "remove_arc arc s = (out, s')" "p \<in> set (ra_dead_paths out)"
  shows "\<exists>d. \<exists>np \<in> set (stored_paths s d). tells np p"
proof (cases "contains_arc s arc")
  case True
  have "ra_dead_paths out = concat (map (fst \<circ> (snd \<circ> remove_arc_level arc)) (st_dests s))"
    using remove_arc_present [OF True] assms(2) by simp
  then obtain m where m: "m \<in> set (st_dests s)" "p \<in> set (fst (snd (remove_arc_level arc m)))"
    using assms(3) by auto
  then obtain np where np: "np \<in> set (level_paths m)" "p = (prepare_for_sending np Dead)\<lparr>ep_cost := Dead\<rparr>"
    by (auto simp: remove_arc_level_def Let_def split: prod.splits)
  obtain l where l: "l < levels_of s" "m = st_dests s ! l" using m(1) wf_statesD(7) [OF assms(1)] by (metis in_set_conv_nth)
  then have "np \<in> set (concat (map (all_paths_at s) [0..<levels_of s]))"
    using np(1) wf_statesD(7) [OF assms(1)] by (auto simp: all_paths_at_def)
  then obtain d where "np \<in> set (stored_paths s d)" using all_paths_stored [OF assms(1), of np 0] by blast
  then show ?thesis using np(2) tells_prepare(2) [of np Dead Dead] by (intro exI [of _ d] bexI [of _ np]) simp_all
next
  case False
  then show ?thesis using assms(2,3) by (auto simp: remove_arc_def contains_arc_def)
qed

lemma inv_remove_arc:
  assumes "state_inv path_ok s" "remove_arc arc s = (out, s')"
  shows "state_inv path_ok s' \<and> st_naddr s' = st_naddr s \<and> arc_ids s' = arc_ids s - {arc} \<and>
     (\<forall>p \<in> set (ra_dead_paths out). \<exists>np. tells np p \<and> wf_node_path (levels_of s) np \<and> path_ok (st_naddr s) (np_hops np))"
proof -
  have wf: "wf_state s" using assms(1) by (rule state_invD)
  note r = wf_remove_arc [OF wf assms(2)]
  have "state_inv path_ok s'"
    by (rule state_inv_transfer [OF assms(1)])
      (use r remove_arc_stored [OF wf assms(2)] remove_arc_bootstrap [OF assms(2)] in auto)
  moreover have "\<exists>np. tells np p \<and> wf_node_path (levels_of s) np \<and> path_ok (st_naddr s) (np_hops np)"
    if p: "p \<in> set (ra_dead_paths out)" for p
  proof -
    obtain d np where np: "np \<in> set (stored_paths s d)" "tells np p" using remove_arc_dead [OF wf assms(2) p] by blast
    then show ?thesis using stored_paths_wf [OF wf, of d] state_invD(3) [OF assms(1)]
      by (auto simp: wf_paths_def wf_stored_def)
  qed
  ultimately show ?thesis using r by auto
qed

lemma inv_update_clusters:
  assumes "state_inv path_ok s"
  shows "\<exists>evs s'. update_clusters s = (Ok evs, s') \<and> state_inv path_ok s' \<and> st_naddr s' = st_naddr s \<and> arc_ids s' = arc_ids s"
proof -
  obtain evs s' where r: "update_clusters s = (Ok evs, s')" "wf_state s'" "same_but_clusters s s'"
    using update_clusters_run [OF state_invD(1) [OF assms]] by metis
  note sel = same_but_clusters_sel [OF r(3)]
  have "state_inv path_ok s'"
    using sel stored_paths_same_dests [OF sel(3)] by (intro state_inv_transfer [OF assms r(2)]) simp_all
  then show ?thesis using r(1) sel(1,10) by (intro exI [of _ evs] exI [of _ s'] conjI)
qed

lemma inv_pending:
  assumes "state_inv path_ok s"
  shows "state_inv path_ok (s\<lparr>st_pending := x\<rparr>)"
proof (rule state_inv_transfer [OF assms])
  show "wf_state (s\<lparr>st_pending := x\<rparr>)"
    using state_invD(1) [OF assms] by (simp add: wf_state_def levels_of_def arc_ids_def)
qed (simp_all add: stored_paths_def destination_at_def)

lemma inv_exit_bootstrap:
  assumes "state_inv path_ok s"
  shows "state_inv path_ok (exit_bootstrap s) \<and> st_naddr (exit_bootstrap s) = st_naddr s"
proof -
  have "wf_state (exit_bootstrap s)"
    using state_invD(1) [OF assms] by (simp add: wf_state_def levels_of_def arc_ids_def exit_bootstrap_def)
  moreover have "stored_paths (exit_bootstrap s) d = stored_paths s d" for d
    by (rule stored_paths_same_dests) (simp add: exit_bootstrap_def)
  ultimately show ?thesis
    using state_invD(3) [OF assms] by (simp add: state_inv_def) (simp add: boot_ok_def exit_bootstrap_def)
qed

text \<open>The paths offered to \<open>update_map\<close>.\<close>

definition offered :: "(naddr \<Rightarrow> hcoord list \<Rightarrow> bool) \<Rightarrow> naddr \<Rightarrow> arc_id set \<Rightarrow> node_path list \<Rightarrow> bool" where
  "offered path_ok my arcs q \<longleftrightarrow> (\<forall>np \<in> set q. wf_node_path (topology_levels (naddr_topology my)) np \<and>
     np_arc np \<in> arcs \<and> (ep_cost (np_path np) \<noteq> Dead \<longrightarrow> path_ok my (np_hops np)))"

lemma inv_update_map:
  assumes "state_inv path_ok s" "offered path_ok (st_naddr s) (arc_ids s) q" "permutes_keys ho"
  shows "\<exists>out s'. update_map ho q ch s = (Ok out, s') \<and> state_inv path_ok s' \<and> st_naddr s' = st_naddr s \<and>
     arc_ids s' = arc_ids s \<and> st_bootstrap s' = st_bootstrap s \<and>
     (\<forall>p \<in> set (um_all_paths out). \<exists>np. tells np p \<and> wf_node_path (levels_of s) np \<and> path_ok (st_naddr s) (np_hops np))"
proof -
  have wf: "wf_state s" using assms(1) by (rule state_invD)
  have rok: "revised_ok s q" using assms(2) by (simp add: revised_ok_def offered_def levels_of_def)
  obtain out s' where r: "update_map ho q ch s = (Ok out, s')" "wf_state s'" "same_but_dests s s'"
    using update_map_run [OF wf rok assms(3), of ch] by metis
  note sel = same_but_dests_sel [OF r(3)]
  have ok: "wf_node_path (levels_of s) np \<and> path_ok (st_naddr s) (np_hops np)" if "np \<in> forwardable s d q" for np d
    using that stored_paths_wf [OF wf, of d] state_invD(3) [OF assms(1)] assms(2)
    by (auto simp: forwardable_def offered_def levels_of_def wf_paths_def wf_stored_def)
  have "path_ok (st_naddr s') (np_hops np)" if np: "np \<in> set (stored_paths s' d)" for np d
  proof -
    obtain x where x: "x \<in> set (stored_paths s d) \<union> set q" "hide np = hide x"
      using stored_origin [OF wf rok assms(3) r(1) np] by blast
    have "ep_cost (np_path np) \<noteq> Dead" using stored_paths_wf [OF r(2), of d] np by (auto simp: wf_paths_def wf_stored_def)
    then have "x \<in> forwardable s d q" using x hide_cong(1) [OF x(2)] by (auto simp: forwardable_def)
    then show ?thesis using ok [of x d] hide_cong(1) [OF x(2)] sel(1) by simp
  qed
  moreover have "boot_ok s'" using state_invD(2) [OF assms(1)] unfolding boot_ok_def sel(6,7) .
  ultimately have "state_inv path_ok s'" using r(2) by (simp add: state_inv_def)
  moreover have "\<exists>np. tells np p \<and> wf_node_path (levels_of s) np \<and> path_ok (st_naddr s) (np_hops np)"
    if "p \<in> set (um_all_paths out)" for p
    using update_map_told [OF wf rok assms(3) r(1) that] ok by blast
  ultimately show ?thesis using r(1) sel(1,6,8) by (intro exI [of _ out] exI [of _ s'] conjI) auto
qed

lemma inv_exit_network:
  assumes "state_inv path_ok s"
  shows "\<exists>out s'. exit_network lvl s = (Ok out, s') \<and> state_inv path_ok s' \<and> st_naddr s' = st_naddr s"
proof -
  obtain out s' where r: "exit_network lvl s = (Ok out, s')" "wf_state s'" "st_naddr s' = st_naddr s"
    "st_bootstrap s' = st_bootstrap s"
    "\<forall>d. stored_paths s' d = (if lvl \<le> hc_level d then [] else
        filter (\<lambda>np. np_arc np \<notin> set (en_removed out)) (stored_paths s d))"
    using exit_network_run [OF state_invD(1) [OF assms], of lvl] by - (elim exE conjE, rule that)
  have "state_inv path_ok s'" by (rule state_inv_transfer [OF assms r(2-4)]) (use r(5) in auto)
  then show ?thesis using r(1,3) by (intro exI [of _ out] exI [of _ s'] conjI)
qed

text \<open>A rewrite of addresses that \<open>make_connectivity\<close> may be called with.\<close>

definition rewrite_ok :: "(naddr \<Rightarrow> hcoord list \<Rightarrow> bool) \<Rightarrow> qspn_state \<Rightarrow> (naddr \<Rightarrow> naddr) \<Rightarrow> bool" where
  "rewrite_ok path_ok s f \<longleftrightarrow> (\<forall>a. wf_peer (st_naddr s) a \<longrightarrow> wf_peer (st_naddr s) (f a)) \<and>
     (\<forall>d. \<forall>np \<in> set (stored_paths s d). path_ok (f (st_naddr s)) (np_hops np))"

lemma inv_make_connectivity:
  assumes "state_inv path_ok s" "rewrite_ok path_ok s f"
  shows "(\<exists>e. make_connectivity from to f s = (Err e, s)) \<or>
     (\<exists>out s'. make_connectivity from to f s = (Ok out, s') \<and> state_inv path_ok s' \<and>
        naddr_topology (st_naddr s') = naddr_topology (st_naddr s) \<and>
        hop_in_range (naddr_topology (st_naddr s)) (mc_old_position out))"
proof (cases "connectivity_valid from to s")
  case False
  then show ?thesis
    using make_connectivity_run [of s f "from" to] assms state_invD(1) [OF assms(1)] by (auto simp: rewrite_ok_def)
next
  case True
  then obtain pos out s' where r: "pos_at (st_naddr s) (from - 1) = Some pos"
    "make_connectivity from to f s = (Ok out, s')" "mc_old_position out = HCoord (from - 1) pos"
    "wf_state s'" "st_naddr s' = f (st_naddr s)" "st_dests s' = st_dests s" "st_bootstrap s' = st_bootstrap s"
    using make_connectivity_run [of s f "from" to] assms state_invD(1) [OF assms(1)]
    by (auto simp: rewrite_ok_def split: if_splits)
  have "wf_peer (st_naddr s) (st_naddr s)" using wf_statesD(1) [OF state_invD(1) [OF assms(1)]] by (simp add: wf_peer_def)
  then have top: "naddr_topology (st_naddr s') = naddr_topology (st_naddr s)"
    using assms(2) r(5) by (simp add: rewrite_ok_def wf_peer_def)
  have "state_inv path_ok s'"
    using assms r(4-7) top stored_paths_same_dests [OF r(6)]
    by (auto simp: state_inv_def rewrite_ok_def boot_ok_def levels_of_def split: bootstrap.splits)
  moreover have "hop_in_range (naddr_topology (st_naddr s)) (mc_old_position out)"
    using True r(1,3) unfolding connectivity_valid_def
    by (auto simp: hop_in_range_def is_virtual_at_def topology_gsize_def topology_levels_def levels_of_def
        split: if_splits option.splits)
  ultimately show ?thesis using r(2) top by blast
qed

end
