(* ===== verification/Qspn_ActorLaws.thy ===== *)
theory Qspn_ActorLaws
  imports Qspn_ActorState
begin

section \<open>Serving a command keeps the actor's invariant\<close>

text \<open>
  The actor's invariant adds to the state's that everything in the outbox is fit to leave: the messages
  have the shape every receiver checks for, and the dead paths a gather carries can be flooded later.
  \<open>sent_ok\<close> is what is known of the hops of anything sent. The locale \<open>actor_contract\<close> is the interface
  between the revision of messages and the actor: whatever condition the regrouped hops of an accepted
  message meet, the actor keeps and sends. It is interpreted for no condition at all (the actor never
  panics), for loop freedom, and for real coordinates.
\<close>

definition path_sent :: "(topology \<Rightarrow> hcoord list \<Rightarrow> bool) \<Rightarrow> topology \<Rightarrow> etp_path \<Rightarrow> bool" where
  "path_sent sent_ok t p \<longleftrightarrow> wf_path (topology_levels t) p \<and> sent_ok t (ep_hops p)"

definition message_sent :: "(topology \<Rightarrow> hcoord list \<Rightarrow> bool) \<Rightarrow> topology \<Rightarrow> etp_message \<Rightarrow> bool" where
  "message_sent sent_ok t m \<longleftrightarrow>
     wf_naddr (em_node_address m) \<and> naddr_topology (em_node_address m) = t \<and>
     length (em_fingerprints m) = topology_levels t + 1 \<and>
     (\<forall>l \<le> topology_levels t. wf_fp (em_fingerprints m ! l) \<and> fp_level (em_fingerprints m ! l) = l) \<and>
     length (em_nodes_inside m) = topology_levels t + 1 \<and>
     sorted (map hc_level (em_hops m)) \<and> sent_ok t (em_hops m) \<and>
     (\<forall>p \<in> set (em_paths m). path_sent sent_ok t p \<and> length (ep_ignore_outside p) = topology_levels t \<and>
        (\<forall>l < topology_levels t. hc_level (last (ep_hops p)) < l \<longrightarrow> ep_ignore_outside p ! l))"

fun effect_ok :: "(topology \<Rightarrow> hcoord list \<Rightarrow> bool) \<Rightarrow> topology \<Rightarrow> effect \<Rightarrow> bool" where
  "effect_ok sent_ok t (Reply (ReplyEtp (Ok m))) = message_sent sent_ok t m"
| "effect_ok sent_ok t (Gather a dead arcs my) = (distinct arcs \<and> list_all (path_sent sent_ok t) dead)"
| "effect_ok sent_ok t (ExitBootstrapGather arcs my) = distinct arcs"
| "effect_ok sent_ok t (Unicast arc m is_full) = message_sent sent_ok t m"
| "effect_ok sent_ok t (Broadcast arcs m is_full) = (message_sent sent_ok t m \<and> arcs \<noteq> [])"
| "effect_ok sent_ok t (Resend arc m is_full) = message_sent sent_ok t m"
| "effect_ok sent_ok t (PublishConnectivityTimer delay d) = sent_ok t [d]"
| "effect_ok sent_ok t e = True"

definition actor_inv ::
  "(naddr \<Rightarrow> hcoord list \<Rightarrow> bool) \<Rightarrow> (topology \<Rightarrow> hcoord list \<Rightarrow> bool) \<Rightarrow> topology \<Rightarrow> actor \<Rightarrow> bool" where
  "actor_inv path_ok sent_ok t a \<longleftrightarrow>
     state_inv path_ok (ac_state a) \<and> naddr_topology (st_naddr (ac_state a)) = t \<and>
     list_all (effect_ok sent_ok t) (ac_out a)"

text \<open>The commands the queue may hold. A message has been decoded, so its parts are valid, and satisfies
  \<open>msg_ok\<close>; the batch of a gather has one result per arc; the dead paths and resent messages are those
  the actor itself sent out; there is room for another arc.\<close>

definition message_ok :: "(etp_message \<Rightarrow> bool) \<Rightarrow> etp_message \<Rightarrow> bool" where
  "message_ok msg_ok m \<longleftrightarrow> valid_message m \<and> msg_ok m"

definition results_ok :: "(etp_message \<Rightarrow> bool) \<Rightarrow> (arc_id \<times> etp_message option) list \<Rightarrow> bool" where
  "results_ok msg_ok results \<longleftrightarrow> distinct (map fst results) \<and>
     list_all (\<lambda>r. pred_option (message_ok msg_ok) (snd r)) results"

fun command_ok ::
  "(naddr \<Rightarrow> hcoord list \<Rightarrow> bool) \<Rightarrow> (topology \<Rightarrow> hcoord list \<Rightarrow> bool) \<Rightarrow> (etp_message \<Rightarrow> bool) \<Rightarrow> qspn_state
    \<Rightarrow> command \<Rightarrow> bool" where
  "command_ok path_ok sent_ok msg_ok s (AddArc c) = (card (arc_ids s) < 2 ^ 31 - 1)"
| "command_ok path_ok sent_ok msg_ok s (ArcAddFetched arc r) = pred_option (message_ok msg_ok) r"
| "command_ok path_ok sent_ok msg_ok s (GatherComplete ch dead results) =
     (results_ok msg_ok results \<and> list_all (path_sent sent_ok (naddr_topology (st_naddr s))) dead)"
| "command_ok path_ok sent_ok msg_ok s (GetFullEtp arc addr) = wf_naddr addr"
| "command_ok path_ok sent_ok msg_ok s (SendEtp arc m is_full) = message_ok msg_ok m"
| "command_ok path_ok sent_ok msg_ok s (ResendEtp arc m is_full) = message_sent sent_ok (naddr_topology (st_naddr s)) m"
| "command_ok path_ok sent_ok msg_ok s (BootstrapEtpFetched arc r) = pred_option (message_ok msg_ok) r"
| "command_ok path_ok sent_ok msg_ok s (ExitBootstrapGathered results) = results_ok msg_ok results"
| "command_ok path_ok sent_ok msg_ok s (MakeConnectivity from to f) = rewrite_ok path_ok s f"
| "command_ok path_ok sent_ok msg_ok s (PublishConnectivity d) = sent_ok (naddr_topology (st_naddr s)) [d]"
| "command_ok path_ok sent_ok msg_ok s cmd = True"

text \<open>A triple whose assertions are the invariant at a fixed address and a fact about the state.\<close>

definition at_addr ::
  "(naddr \<Rightarrow> hcoord list \<Rightarrow> bool) \<Rightarrow> (topology \<Rightarrow> hcoord list \<Rightarrow> bool) \<Rightarrow> naddr \<Rightarrow> (qspn_state \<Rightarrow> bool) \<Rightarrow> actor \<Rightarrow> bool" where
  "at_addr path_ok sent_ok my S a \<longleftrightarrow>
     actor_inv path_ok sent_ok (naddr_topology my) a \<and> st_naddr (ac_state a) = my \<and> S (ac_state a)"

lemma at_addrI: "actor_inv path_ok sent_ok t a \<Longrightarrow> at_addr path_ok sent_ok (st_naddr (ac_state a)) (\<lambda>s. s = ac_state a) a"
  by (simp add: at_addr_def actor_inv_def)

lemma at_addr_mono: "at_addr path_ok sent_ok my S a \<Longrightarrow> (\<And>s. S s \<Longrightarrow> S' s) \<Longrightarrow> at_addr path_ok sent_ok my S' a"
  by (simp add: at_addr_def)

lemma at_addr_conseq:
  assumes "runs (at_addr path_ok sent_ok my S') m (\<lambda>x. at_addr path_ok sent_ok my (T' x))"
    and "\<And>s. S s \<Longrightarrow> S' s" "\<And>x s. T' x s \<Longrightarrow> T x s"
  shows "runs (at_addr path_ok sent_ok my S) m (\<lambda>x. at_addr path_ok sent_ok my (T x))"
  using assms(1) by (rule runs_conseq) (auto elim: at_addr_mono intro: assms(2,3))

lemma run_effect:
  "effect_ok sent_ok (naddr_topology my) e \<Longrightarrow>
     runs (at_addr path_ok sent_ok my S) (do_effect e) (\<lambda>_. at_addr path_ok sent_ok my S)"
  unfolding do_effect_def by (rule runs_put) (simp add: at_addr_def actor_inv_def)

lemma run_ask:
  assumes "\<And>s. state_inv path_ok s \<Longrightarrow> st_naddr s = my \<Longrightarrow> S s \<Longrightarrow> T (f s) s"
  shows "runs (at_addr path_ok sent_ok my S) (ask f) (\<lambda>x. at_addr path_ok sent_ok my (T x))"
  using assms by (simp add: runs_def ask_def st_get_def at_addr_def actor_inv_def)

lemma run_ask_res:
  assumes "\<And>s. state_inv path_ok s \<Longrightarrow> st_naddr s = my \<Longrightarrow> S s \<Longrightarrow> \<exists>x. f s = Ok x \<and> T x s"
  shows "runs (at_addr path_ok sent_ok my S) (ask_res f) (\<lambda>x. at_addr path_ok sent_ok my (T x))"
  unfolding ask_res_def by (rule runs_read) (use assms in \<open>auto simp: at_addr_def actor_inv_def\<close>)

lemma run_try_ask_res:
  assumes "\<And>s. state_inv path_ok s \<Longrightarrow> st_naddr s = my \<Longrightarrow> S s \<Longrightarrow>
     (\<exists>x. f s = Ok x \<and> T (Inr x) s) \<or> (\<exists>e. f s = Err e \<and> T (Inl e) s)"
  shows "runs (at_addr path_ok sent_ok my S) (st_result (ask_res f)) (\<lambda>r. at_addr path_ok sent_ok my (T r))"
proof (rule runsI)
  fix a assume a: "at_addr path_ok sent_ok my S a"
  then have "(\<exists>x. f (ac_state a) = Ok x \<and> T (Inr x) (ac_state a)) \<or> (\<exists>e. f (ac_state a) = Err e \<and> T (Inl e) (ac_state a))"
    using assms by (simp add: at_addr_def actor_inv_def)
  then show "\<exists>r a'. st_result (ask_res f) a = (Ok r, a') \<and> at_addr path_ok sent_ok my (T r) a'"
    using a by (auto simp: st_result_def ask_res_def st_read_def at_addr_def)
qed

lemma run_known:
  "(p \<Longrightarrow> runs (at_addr path_ok sent_ok my S) m Q) \<Longrightarrow> runs (at_addr path_ok sent_ok my (\<lambda>s. S s \<and> p)) m Q"
  by (auto simp: runs_def at_addr_def)

lemma run_put_state:
  assumes "\<And>s. state_inv path_ok s \<Longrightarrow> st_naddr s = my \<Longrightarrow> S s \<Longrightarrow> state_inv path_ok (f s) \<and> st_naddr (f s) = my \<and> S' (f s)"
  shows "runs (at_addr path_ok sent_ok my S) (st_put (ac_state_update f)) (\<lambda>_. at_addr path_ok sent_ok my S')"
  by (rule runs_put) (use assms in \<open>auto simp: at_addr_def actor_inv_def\<close>)

lemma run_on_state:
  assumes "\<And>s. state_inv path_ok s \<Longrightarrow> st_naddr s = my \<Longrightarrow> S s \<Longrightarrow>
     \<exists>x s'. m s = (Ok x, s') \<and> state_inv path_ok s' \<and> st_naddr s' = my \<and> S' x s'"
  shows "runs (at_addr path_ok sent_ok my S) (on_state m) (\<lambda>x. at_addr path_ok sent_ok my (S' x))"
proof (rule runsI)
  fix a assume "at_addr path_ok sent_ok my S a"
  then have a: "state_inv path_ok (ac_state a)" "st_naddr (ac_state a) = my" "S (ac_state a)"
    "list_all (effect_ok sent_ok (naddr_topology my)) (ac_out a)" by (simp_all add: at_addr_def actor_inv_def)
  then obtain x s' where "m (ac_state a) = (Ok x, s')" "state_inv path_ok s'" "st_naddr s' = my" "S' x s'"
    using assms by blast
  with a(4) show "\<exists>x a'. on_state m a = (Ok x, a') \<and> at_addr path_ok sent_ok my (S' x) a'"
    by (simp add: on_state_def st_zoom_def at_addr_def actor_inv_def)
qed

lemma run_emit_all:
  "runs (at_addr path_ok sent_ok my S) (emit_all events) (\<lambda>_. at_addr path_ok sent_ok my S)"
  unfolding emit_all_def emit_def by (intro runs_iter_const run_effect) simp

lemma snapshot_total: "wf_state s \<Longrightarrow> \<exists>x. snapshot s = Ok x"
  using snapshot_run by blast

lemma run_publish_snapshot:
  "runs (at_addr path_ok sent_ok my S) publish_snapshot (\<lambda>_. at_addr path_ok sent_ok my S)"
  unfolding publish_snapshot_def
proof (rule runs_bind)
  show "runs (at_addr path_ok sent_ok my S) (st_result (ask_res snapshot))
      (\<lambda>r. at_addr path_ok sent_ok my (\<lambda>s. S s \<and> (\<exists>x. r = Inr x)))"
    by (rule run_try_ask_res) (use state_invD(1) snapshot_total in fastforce)
  show "runs (at_addr path_ok sent_ok my (\<lambda>s. S s \<and> (\<exists>x. r = Inr x)))
      (case r of Inl e \<Rightarrow> st_ret () | Inr s \<Rightarrow> do_effect (Publish s)) (\<lambda>_. at_addr path_ok sent_ok my S)" for r
    by (rule run_known) (auto intro!: run_effect)
qed

lemma run_when:
  assumes "b \<Longrightarrow> runs (at_addr path_ok sent_ok my S) m (\<lambda>_. at_addr path_ok sent_ok my S)"
  shows "runs (at_addr path_ok sent_ok my S) (st_when b m) (\<lambda>_. at_addr path_ok sent_ok my S)"
  using assms by (intro runs_when) auto

lemma arc_list_distinct: "state_inv path_ok s \<Longrightarrow> distinct (arc_list s)"
  using wf_statesD(5) [OF state_invD(1)] by (simp add: arc_list_def bt_wf_distinct)

lemma run_spawn_gather:
  assumes "list_all (path_sent sent_ok (naddr_topology my)) dead"
  shows "runs (at_addr path_ok sent_ok my S) (spawn_gather ch dead) (\<lambda>_. at_addr path_ok sent_ok my S)"
  unfolding spawn_gather_def
proof (rule runs_bind [OF run_ask [where T = "\<lambda>arcs s. S s \<and> distinct arcs"]])
  show "S (s :: qspn_state) \<and> distinct (arc_list s)" if "state_inv path_ok s" "st_naddr s = my" "S s" for s
    using that arc_list_distinct by blast
  show "runs (at_addr path_ok sent_ok my (\<lambda>s. S s \<and> distinct arcs))
      (st_bind (ask st_naddr) (\<lambda>my_naddr. do_effect (Gather ch dead arcs my_naddr))) (\<lambda>_. at_addr path_ok sent_ok my S)" for arcs
    by (intro run_known runs_bind [OF run_ask [where T = "\<lambda>_. S"]] run_effect) (use assms in simp_all)
qed

subsection \<open>Messages built from the state\<close>

definition flags_of :: "qspn_state \<Rightarrow> etp_path \<Rightarrow> bool list" where
  "flags_of s p = False # map (\<lambda>i. hc_level (last (ep_hops p)) < i \<or> covered s p i) [1..<levels_of s]"

lemma flags_of_shape:
  assumes "wf_state s"
  shows "length (flags_of s p) = levels_of s"
    "l < levels_of s \<Longrightarrow> hc_level (last (ep_hops p)) < l \<Longrightarrow> flags_of s p ! l"
proof -
  have "0 < levels_of s"
    using wf_statesD(1) [OF assms] by (simp add: wf_naddr_def wf_topology_def levels_of_def topology_levels_def)
  then show "length (flags_of s p) = levels_of s"
    "l < levels_of s \<Longrightarrow> hc_level (last (ep_hops p)) < l \<Longrightarrow> flags_of s p ! l"
    by (auto simp: flags_of_def nth_Cons split: nat.splits)
qed

lemma built_message:
  assumes "wf_state s" "\<forall>p \<in> set ps. path_sent sent_ok (naddr_topology (st_naddr s)) p"
    and "sorted (map hc_level hops)" "sent_ok (naddr_topology (st_naddr s)) hops"
  shows "\<exists>qs m. finalize_for_sending s ps = Ok qs \<and> prepare_new_etp s qs hops = Ok m \<and>
     message_sent sent_ok (naddr_topology (st_naddr s)) m"
proof -
  let ?t = "naddr_topology (st_naddr s)" and ?g = "\<lambda>p. p\<lparr>ep_ignore_outside := flags_of s p\<rparr>"
  have lv: "topology_levels ?t = levels_of s" by (simp add: levels_of_def)
  have fin: "finalize_for_sending s ps = Ok (map ?g ps)"
    unfolding finalize_for_sending_def using set_ignore_eq [OF assms(1)] assms(2)
    by (intro try_map_all_Ok) (simp add: path_sent_def lv flags_of_def)
  have ch: "wf_chain (levels_of s) (st_fps s)" "length (st_nodes_inside s) = levels_of s + 1"
    using wf_statesD(2,3) [OF assms(1)] .
  have "path_sent sent_ok ?t (?g p) \<and> length (ep_ignore_outside (?g p)) = levels_of s \<and>
      (\<forall>l < levels_of s. hc_level (last (ep_hops (?g p))) < l \<longrightarrow> ep_ignore_outside (?g p) ! l)" if "p \<in> set ps" for p
    using that assms(2) flags_of_shape [OF assms(1)] by (simp add: path_sent_def)
  then show ?thesis
    using fin prepare_new_etp_eq [OF assms(1), of "map ?g ps" hops] ch assms(3,4) wf_statesD(1) [OF assms(1)]
    by (auto simp: message_sent_def lv wf_chain_def)
qed

definition sent_covers :: "(naddr \<Rightarrow> hcoord list \<Rightarrow> bool) \<Rightarrow> (topology \<Rightarrow> hcoord list \<Rightarrow> bool) \<Rightarrow> naddr \<Rightarrow> bool" where
  "sent_covers path_ok sent_ok my \<longleftrightarrow> (\<forall>hs. path_ok my hs \<longrightarrow> sent_ok (naddr_topology my) hs)"

lemma stored_sent:
  assumes "state_inv path_ok s" "sent_covers path_ok sent_ok (st_naddr s)"
    and "np \<in> set (stored_paths s d)"
  shows "path_sent sent_ok (naddr_topology (st_naddr s)) (prepare_for_sending np c)"
  using stored_paths_wf [OF state_invD(1) [OF assms(1)], of d] state_invD(3) [OF assms(1,3)] assms(2,3)
    tells_wf [OF tells_prepare(1)]
  by (auto simp: path_sent_def wf_paths_def wf_stored_def levels_of_def sent_covers_def) (simp add: prepare_for_sending_def)

lemma try_map_map: "try_map f (map g xs) = try_map (\<lambda>x. f (g x)) xs"
  by (induction xs) auto

lemma full_message:
  assumes "state_inv path_ok s" "sent_covers path_ok sent_ok (st_naddr s)"
    and "sent_ok (naddr_topology (st_naddr s)) []"
  shows "\<exists>m. prepare_full_etp s = Ok m \<and> message_sent sent_ok (naddr_topology (st_naddr s)) m"
proof -
  let ?nps = "concat (map (all_paths_at s) [0..<levels_of s])"
  let ?ps = "map (\<lambda>np. prepare_for_sending np (arc_cost s (np_arc np))) ?nps"
  have wf: "wf_state s" using assms(1) by (rule state_invD)
  have "\<forall>np \<in> set ?nps. \<exists>d. np \<in> set (stored_paths s d)" using all_paths_stored [OF wf, of _ 0] by blast
  then have "\<forall>p \<in> set ?ps. path_sent sent_ok (naddr_topology (st_naddr s)) p"
    using stored_sent [OF assms(1,2)] by fastforce
  then obtain qs m where "finalize_for_sending s ?ps = Ok qs" "prepare_new_etp s qs [] = Ok m"
    "message_sent sent_ok (naddr_topology (st_naddr s)) m"
    using built_message [OF wf, of ?ps sent_ok "[]"] assms(3) by auto
  then show ?thesis by (simp add: prepare_full_etp_def finalize_for_sending_def try_map_map)
qed

lemma told_to_sent:
  assumes "state_inv path_ok s" "sent_covers path_ok sent_ok (st_naddr s)"
    and "p \<in> set (told_to s b)"
  shows "path_sent sent_ok (naddr_topology (st_naddr s)) p"
proof -
  from assms(3) obtain np where "np \<in> set (concat (map (all_paths_at s) [hc_level b..<levels_of s]))"
    "p = prepare_for_sending np (arc_cost s (np_arc np))" by (auto simp: told_to_def)
  moreover from this obtain d where "np \<in> set (stored_paths s d)"
    using all_paths_stored [OF state_invD(1) [OF assms(1)]] by blast
  ultimately show ?thesis using stored_sent [OF assms(1,2)] by simp
qed

lemma split_paths_sent:
  assumes "state_inv path_ok s" "sent_covers path_ok sent_ok (st_naddr s)"
    and "p \<in> set (split_paths s b_set)"
  shows "path_sent sent_ok (naddr_topology (st_naddr s)) p"
proof -
  have "split_paths s b_set = concat (map (\<lambda>g. map (\<lambda>np. prepare_for_sending np (arc_cost s (np_arc np))) (stored_paths s g)) b_set)"
    unfolding split_paths_def by (intro arg_cong [of _ _ concat] map_cong refl) (simp add: stored_paths_def split: option.split)
  with assms(3) obtain g np where "np \<in> set (stored_paths s g)" "p = prepare_for_sending np (arc_cost s (np_arc np))" by auto
  then show ?thesis using stored_sent [OF assms(1,2)] by simp
qed

end
