(* ===== verification/Qspn_ActorServe.thy ===== *)
theory Qspn_ActorServe
  imports Qspn_ActorLaws
begin

section \<open>Every command is served\<close>

text \<open>
  The contract between message revision and the actor, and the theorem proved under it: from an actor
  with the invariant, every admissible command is served to the end and leaves the invariant.
\<close>

locale actor_contract =
  fixes path_ok :: "naddr \<Rightarrow> hcoord list \<Rightarrow> bool"
    and sent_ok :: "topology \<Rightarrow> hcoord list \<Rightarrow> bool"
    and msg_ok :: "etp_message \<Rightarrow> bool"
  assumes grouped_ok: "\<lbrakk>wf_naddr my; accepted_message my m; msg_ok m; diverges_at my (em_node_address m) v;
      hops_ok (naddr_topology my) hs; \<not> loops_back my (group_hops v hs)\<rbrakk> \<Longrightarrow> path_ok my (group_hops v hs)"
    and sent_path: "path_ok my hs \<Longrightarrow> sent_ok (naddr_topology my) hs"
    and sent_empty: "sent_ok t []"
    and sent_position: "hop_in_range t d \<Longrightarrow> sent_ok t [d]"
begin

lemma covers: "sent_covers path_ok sent_ok my"
  using sent_path by (simp add: sent_covers_def)

lemma told_sent: "tells np p \<Longrightarrow> wf_node_path (topology_levels (naddr_topology my)) np \<Longrightarrow> path_ok my (np_hops np) \<Longrightarrow>
    path_sent sent_ok (naddr_topology my) p"
  using tells_wf [of np p] sent_path by (simp add: path_sent_def tells_def)

definition revised :: "naddr \<Rightarrow> arc_id \<Rightarrow> revised_etp \<Rightarrow> bool" where
  "revised my arc r \<longleftrightarrow> offered path_ok my {arc} (rev_paths r) \<and>
     sorted (map hc_level (rev_hops r)) \<and> sent_ok (naddr_topology my) (rev_hops r)"

lemma revise_law:
  assumes my: "wf_naddr my" and m: "message_ok msg_ok m" "naddr_topology (em_node_address m) = naddr_topology my"
      "em_node_address m \<noteq> my" "message_shape_ok (naddr_topology my) m"
    and old: "pred_option wf_naddr old"
    and ex: "\<forall>np \<in> set existing. wf_node_path (topology_levels (naddr_topology my)) np \<and> np_arc np = arc"
  shows "(\<exists>e. revise_etp my m arc old is_full existing = Err e) \<or>
     (\<exists>r. revise_etp my m arc old is_full existing = Ok r \<and> revised my arc r)"
proof (cases "length (em_nodes_inside m) = topology_levels (naddr_topology my) + 1")
  case False
  then show ?thesis by (simp add: revise_etp_def Let_def)
next
  case True
  then have acc: "accepted_message my m" using m by (simp add: accepted_message_def message_ok_def)
  then have "revise_args_ok my m old" using my old by (simp add: revise_args_ok_def)
  from revise_etp_cases [OF this, of arc] obtain v oc where v: "diverges_at my (em_node_address m) v"
    and r: "revise_etp my m arc old is_full existing =
     (if loops_back my (group_hops v (em_hops m)) then Err Acyclic
      else Ok \<lparr>rev_hops = group_hops v (em_hops m),
          rev_paths = (if is_full then withdrawals arc (told_paths my m arc v oc) existing else [])
            @ map (node_path_new arc) (told_paths my m arc v oc)\<rparr>)"
    and told: "\<And>p. p \<in> set (told_paths my m arc v oc) \<Longrightarrow>
       wf_path (topology_levels (naddr_topology my)) p \<and> hd (ep_arcs p) = arc \<and> \<not> loops_back my (ep_hops p)"
    by metis
  have shape: "hops_ok (naddr_topology my) (em_hops m)" "p \<in> set (em_paths m) \<Longrightarrow> hops_ok (naddr_topology my) (ep_hops p)" for p
    using m(4) by (auto simp: message_shape_ok_def list_all_iff path_shape_ok_def)
  note grp = grouped_ok [OF my acc _ v]
  have msg: "msg_ok m" using m(1) by (simp add: message_ok_def)
  have live: "path_ok my (ep_hops p)" if p: "p \<in> set (told_paths my m arc v oc)" "ep_cost p \<noteq> Dead" for p
  proof -
    consider q where "q \<in> set (em_paths m)" "p = regroup v arc q" | "ep_hops p = [v]"
      using p by (auto simp: told_paths_def old_path_of_def sender_path_def split: option.splits)
    then show ?thesis
    proof cases
      case 1
      then have "ep_hops p = group_hops v (ep_hops q)" by (simp add: regroup_def)
      then show ?thesis using grp [OF msg shape(2) [OF 1(1)]] told [OF p(1)] by simp
    next
      case 2
      then show ?thesis using grp [OF msg, of "[]"] told [OF p(1)] by (simp add: group_hops_def)
    qed
  qed
  show ?thesis
  proof (cases "loops_back my (group_hops v (em_hops m))")
    case True
    then show ?thesis using r by simp
  next
    case False
    let ?ps = "(if is_full then withdrawals arc (told_paths my m arc v oc) existing else []) @ map (node_path_new arc) (told_paths my m arc v oc)"
    have "offered path_ok my {arc} ?ps"
      unfolding offered_def
    proof
      fix np assume np: "np \<in> set ?ps"
      then consider p where "p \<in> set (told_paths my m arc v oc)" "np = node_path_new arc p"
        | q where "q \<in> set existing" "np = node_path_new arc ((np_path q)\<lparr>ep_cost := Dead\<rparr>)"
        by (auto simp: withdrawals_def split: if_splits)
      then show "wf_node_path (topology_levels (naddr_topology my)) np \<and> np_arc np \<in> {arc} \<and>
          (ep_cost (np_path np) \<noteq> Dead \<longrightarrow> path_ok my (np_hops np))"
      proof cases
        case 1
        then show ?thesis using told [OF 1(1)] live [OF 1(1)] by (simp add: wf_node_path_def)
      next
        case 2
        then show ?thesis using ex by (auto simp: wf_node_path_def)
      qed
    qed
    moreover have "sorted (map hc_level (group_hops v (em_hops m)))"
      using group_hops_sorted shape(1) by (simp add: hops_ok_def)
    moreover have "sent_ok (naddr_topology my) (group_hops v (em_hops m))"
      using sent_path grp [OF msg shape(1) False] by simp
    ultimately show ?thesis using r False by (simp add: revised_def)
  qed
qed

lemma existing_ok:
  assumes "state_inv path_ok s" "np \<in> set (paths_via_arc0 s arc)"
  shows "wf_node_path (levels_of s) np \<and> np_arc np = arc"
proof -
  have wf: "wf_state s" using assms(1) by (rule state_invD)
  from assms(2) obtain m where m: "m \<in> set (st_dests s)" "np \<in> set (level_paths m)" "hd (np_arcs np) = arc"
    by (auto simp: paths_via_arc0_def)
  then obtain l where "l < levels_of s" "m = st_dests s ! l" using wf_statesD(7) [OF wf] by (metis in_set_conv_nth)
  then have "np \<in> set (concat (map (all_paths_at s) [0..<levels_of s]))"
    using m(2) wf_statesD(7) [OF wf] by (auto simp: all_paths_at_def)
  then obtain d where "np \<in> set (stored_paths s d)" using all_paths_stored [OF wf, of np 0] by blast
  then show ?thesis using stored_paths_wf [OF wf, of d] m(3) by (auto simp: wf_paths_def wf_stored_def wf_node_path_def)
qed

text \<open>What a stop at the gate means for the state.\<close>

lemma gate_total:
  assumes "state_inv path_ok s" "message_ok msg_ok m"
  shows "check_incoming_message m (st_naddr s) = Ok (naddr_topology (em_node_address m) = naddr_topology (st_naddr s) \<and>
     em_node_address m \<noteq> st_naddr s \<and> message_shape_ok (naddr_topology (st_naddr s)) m)"
  using assms check_incoming_message_eq wf_statesD(1) [OF state_invD(1)] by (auto simp: message_ok_def valid_message_def)

subsection \<open>Triples of the helpers\<close>

abbreviation "inv_at \<equiv> at_addr path_ok sent_ok"

lemma run_do_remove_arc:
  assumes "\<And>s s'. S s \<Longrightarrow> arc_ids s' = arc_ids s - {arc} \<Longrightarrow> S' s'"
  shows "runs (inv_at my S) (do_remove_arc arc bad_link) (\<lambda>_. inv_at my S')"
  unfolding do_remove_arc_def
proof (rule runs_bind)
  let ?Q = "\<lambda>removal s. S' s \<and> list_all (path_sent sent_ok (naddr_topology my)) (ra_dead_paths removal)"
  show "runs (inv_at my S) (on_state (\<lambda>s. case remove_arc arc s of (removal, s') \<Rightarrow> (Ok removal, s')))
      (\<lambda>removal. inv_at my (?Q removal))"
  proof (rule run_on_state)
    fix s assume s: "state_inv path_ok s" "st_naddr s = my" "S s"
    obtain removal s' where r: "remove_arc arc s = (removal, s')" by (cases "remove_arc arc s")
    note i = inv_remove_arc [OF s(1) r]
    have "list_all (path_sent sent_ok (naddr_topology my)) (ra_dead_paths removal)"
      using i told_sent s(2) unfolding list_all_iff levels_of_def by blast
    then show "\<exists>x s'. (case remove_arc arc s of (removal, s') \<Rightarrow> (Ok removal, s')) = (Ok x, s') \<and> state_inv path_ok s' \<and>
        st_naddr s' = my \<and> ?Q x s'"
      using r i s(2,3) assms by simp
  qed
  show "runs (inv_at my (?Q removal))
      (st_bind (emit_all (ra_events removal)) (\<lambda>_. st_bind (emit (ArcRemoved arc bad_link)) (\<lambda>_.
       st_bind (st_when (ra_events removal \<noteq> []) publish_snapshot) (\<lambda>_.
       st_when (ra_dead_paths removal \<noteq> []) (spawn_gather None (ra_dead_paths removal))))))
      (\<lambda>_. inv_at my S')" for removal
    unfolding emit_def
    by (intro run_known runs_bind [OF run_emit_all] runs_bind [OF run_effect] runs_bind [OF run_when]
        run_when run_publish_snapshot run_spawn_gather) simp_all
qed

lemma run_check_and_remove_on_junk:
  assumes "message_ok msg_ok m" "\<And>s s'. S s \<Longrightarrow> arc_ids s' = arc_ids s - {arc} \<Longrightarrow> T False s'"
    and "\<And>s. S s \<Longrightarrow> wf_peer my (em_node_address m) \<Longrightarrow> em_node_address m \<noteq> my \<Longrightarrow>
       message_shape_ok (naddr_topology my) m \<Longrightarrow> T True s"
  shows "runs (inv_at my S) (check_and_remove_on_junk arc m) (\<lambda>ok. inv_at my (T ok))"
  unfolding check_and_remove_on_junk_def
proof (rule runs_bind)
  let ?Q = "\<lambda>ok s. S s \<and> (ok \<longrightarrow> wf_peer my (em_node_address m) \<and> em_node_address m \<noteq> my \<and> message_shape_ok (naddr_topology my) m)"
  show "runs (inv_at my S) (ask_res (\<lambda>s. check_incoming_message m (st_naddr s))) (\<lambda>ok. inv_at my (?Q ok))"
    by (rule run_ask_res) (use assms(1) gate_total in \<open>auto simp: wf_peer_def message_ok_def valid_message_def\<close>)
  show "runs (inv_at my (?Q ok)) (if ok then st_ret True else st_bind (do_remove_arc arc False) (\<lambda>_. st_ret False))
      (\<lambda>ok. inv_at my (T ok))" for ok
  proof (cases ok)
    case True
    then show ?thesis using assms(3) by (auto intro!: runs_ret elim: at_addr_mono)
  next
    case False
    then show ?thesis
      by (auto intro!: runs_bind [OF run_do_remove_arc [where S' = "T False"]] runs_ret assms(2))
  qed
qed

lemma run_spawn_split_signals:
  assumes "\<And>s x. S s \<Longrightarrow> S (s\<lparr>st_pending := x\<rparr>)"
  shows "runs (inv_at my S) (spawn_split_signals tc signals) (\<lambda>_. inv_at my S)"
  unfolding spawn_split_signals_def spawn_split_signal_def
proof (intro runs_iter_const runs_bind)
  fix sig
  show "runs (inv_at my S) (on_state (\<lambda>q. case begin_pending_split (ss_fp_eldest sig) (ss_fp sig) q of (b, q') \<Rightarrow> (Ok b, q')))
      (\<lambda>_. inv_at my S)"
    by (rule run_on_state) (use assms inv_pending in \<open>auto simp: begin_pending_split_def Let_def\<close>)
  show "runs (inv_at my S) (st_when fresh
       (st_bind (ask (\<lambda>q. to_route_path (ss_bp_eldest sig) (arc_cost q (np_arc (ss_bp_eldest sig))))) (\<lambda>bp_eldest_route.
       st_bind (ask (\<lambda>q. to_route_path (ss_bp sig) (arc_cost q (np_arc (ss_bp sig))))) (\<lambda>bp_route.
       do_effect (SplitTimer (tc bp_eldest_route bp_route) (ss_destination sig) (ss_fp_eldest sig) (ss_fp sig))))))
      (\<lambda>_. inv_at my S)" for fresh
    by (intro run_when runs_bind [OF run_ask [where T = "\<lambda>_. S"]] run_effect) simp_all
qed

lemma run_clusters_or_default:
  assumes "\<And>s s'. S s \<Longrightarrow> arc_ids s' = arc_ids s \<Longrightarrow> S s'"
  shows "runs (inv_at my S) clusters_or_default (\<lambda>_. inv_at my S)"
  unfolding clusters_or_default_def
proof (rule runs_bind)
  show "runs (inv_at my S) (st_result (on_state update_clusters)) (\<lambda>_. inv_at my S)"
    by (rule runs_result, rule run_on_state) (use inv_update_clusters assms in blast)
qed (rule runs_ret)

lemma run_after_update:
  assumes "\<And>s s'. S s \<Longrightarrow> arc_ids s' = arc_ids s \<Longrightarrow> S s'"
  shows "runs (inv_at my S) (after_update tc outcome) (\<lambda>_. inv_at my S)"
proof -
  have p: "S (s\<lparr>st_pending := x\<rparr>)" if "S s" for s x using assms [OF that] by (simp add: arc_ids_def)
  have "runs (inv_at my S) (spawn_first_detection_split b) (\<lambda>_. inv_at my S)" for b
    unfolding spawn_first_detection_split_def
    by (intro runs_bind [OF run_ask [where T = "\<lambda>_. S"]] run_effect) simp_all
  then show ?thesis
    unfolding after_update_def
    by (intro runs_bind [OF run_emit_all] runs_bind [OF run_when] runs_bind [OF run_spawn_split_signals]
        runs_bind [OF run_clusters_or_default] runs_ret) (use p assms in auto)
qed

subsection \<open>Building and sending\<close>

lemma run_build_etp:
  assumes "list_all (path_sent sent_ok (naddr_topology my)) paths" "sorted (map hc_level hops)" "sent_ok (naddr_topology my) hops"
  shows "runs (inv_at my S) (build_etp paths hops) (\<lambda>m. inv_at my (\<lambda>s. S s \<and> message_sent sent_ok (naddr_topology my) m))"
  unfolding build_etp_def
proof (rule runs_bind)
  let ?Q = "\<lambda>ps s. S s \<and> (\<exists>m. prepare_new_etp s ps hops = Ok m \<and> message_sent sent_ok (naddr_topology my) m)"
  show "runs (inv_at my S) (ask_res (\<lambda>s. finalize_for_sending s paths)) (\<lambda>ps. inv_at my (?Q ps))"
    by (rule run_ask_res) (use built_message [OF state_invD(1), of path_ok _ paths sent_ok hops] assms in \<open>auto simp: list_all_iff\<close>)
  show "runs (inv_at my (?Q ps)) (ask_res (\<lambda>s. prepare_new_etp s ps hops))
      (\<lambda>m. inv_at my (\<lambda>s. S s \<and> message_sent sent_ok (naddr_topology my) m))" for ps
    by (rule run_ask_res) auto
qed

lemma run_broadcast:
  assumes "message_sent sent_ok (naddr_topology my) m"
  shows "runs (inv_at my S) (spawn_broadcast arcs m is_full) (\<lambda>_. inv_at my S)"
  unfolding spawn_broadcast_def by (intro run_when run_effect) (use assms in simp)

lemma run_broadcast_all:
  assumes "message_sent sent_ok (naddr_topology my) m"
  shows "runs (inv_at my S) (spawn_broadcast_all m is_full) (\<lambda>_. inv_at my S)"
  unfolding spawn_broadcast_all_def
  by (intro runs_bind [OF run_ask [where T = "\<lambda>_. S"]] run_broadcast assms)

lemma run_broadcast_all_but:
  assumes "message_sent sent_ok (naddr_topology my) m"
  shows "runs (inv_at my S) (spawn_broadcast_all_but m is_full arc) (\<lambda>_. inv_at my S)"
  unfolding spawn_broadcast_all_but_def
  by (intro runs_bind [OF run_ask [where T = "\<lambda>_. S"]] run_broadcast assms)

lemma run_prepare_full:
  "runs (inv_at my S) (ask_res prepare_full_etp) (\<lambda>m. inv_at my (\<lambda>s. S s \<and> message_sent sent_ok (naddr_topology my) m))"
  by (rule run_ask_res) (use full_message [OF _ covers sent_empty] in fastforce)

lemma run_broadcast_full: "runs (inv_at my S) broadcast_full (\<lambda>_. inv_at my S)"
  unfolding broadcast_full_def
  by (intro runs_bind [OF run_ask [where T = "\<lambda>_. S"]] run_when runs_bind [OF run_prepare_full] run_known run_broadcast_all)

subsection \<open>Ingesting\<close>

definition ingest_ok :: "naddr \<Rightarrow> ingested \<Rightarrow> bool" where
  "ingest_ok my i \<longleftrightarrow> list_all (path_sent sent_ok (naddr_topology my)) (ig_all_paths i) \<and>
     sorted (map hc_level (ig_hops i)) \<and> sent_ok (naddr_topology my) (ig_hops i)"

definition passed_gate :: "naddr \<Rightarrow> etp_message \<Rightarrow> bool" where
  "passed_gate my m \<longleftrightarrow> message_ok msg_ok m \<and> wf_peer my (em_node_address m) \<and> em_node_address m \<noteq> my \<and>
     message_shape_ok (naddr_topology my) m"

lemma run_record_peer:
  assumes "passed_gate my m" "\<And>s s'. S s \<Longrightarrow> arc_ids s' = arc_ids s \<Longrightarrow> S s'"
  shows "runs (inv_at my S) (record_peer arc (em_node_address m)) (\<lambda>old. inv_at my (\<lambda>s. S s \<and> pred_option wf_naddr old))"
  unfolding record_peer_def
proof (rule run_on_state)
  fix s assume s: "state_inv path_ok s" "st_naddr s = my" "S s"
  obtain old s' where r: "record_peer_naddr arc (em_node_address m) s = (old, s')" by (cases "record_peer_naddr arc (em_node_address m) s")
  have "wf_peer (st_naddr s) (em_node_address m)" using assms(1) s(2) by (simp add: passed_gate_def)
  from inv_record_peer [OF s(1) this r] show "\<exists>x s'. (case record_peer_naddr arc (em_node_address m) s of (old, s') \<Rightarrow> (Ok old, s')) = (Ok x, s') \<and>
      state_inv path_ok s' \<and> st_naddr s' = my \<and> S s' \<and> pred_option wf_naddr x"
    using r s(2,3) assms(2) by auto
qed

lemma run_revise:
  assumes "passed_gate my m" "pred_option wf_naddr old"
    and "\<forall>np \<in> set existing. wf_node_path (topology_levels (naddr_topology my)) np \<and> np_arc np = arc"
  shows "runs (inv_at my S) (st_result (ask_res (\<lambda>s. revise_etp (st_naddr s) m arc old is_full existing)))
     (\<lambda>r. inv_at my (\<lambda>s. S s \<and> pred_sum (\<lambda>_. True) (revised my arc) r))"
proof (rule run_try_ask_res)
  fix s assume s: "state_inv path_ok s" "st_naddr s = my" "S s"
  have "wf_naddr my" using wf_statesD(1) [OF state_invD(1) [OF s(1)]] s(2) by simp
  moreover have "naddr_topology (em_node_address m) = naddr_topology my" "message_ok msg_ok m" "em_node_address m \<noteq> my"
    "message_shape_ok (naddr_topology my) m" using assms(1) by (simp_all add: passed_gate_def wf_peer_def)
  ultimately show "(\<exists>x. revise_etp (st_naddr s) m arc old is_full existing = Ok x \<and> S s \<and> pred_sum (\<lambda>_. True) (revised my arc) (Inr x)) \<or>
     (\<exists>e. revise_etp (st_naddr s) m arc old is_full existing = Err e \<and> S s \<and> pred_sum (\<lambda>_. True) (revised my arc) (Inl e))"
    using revise_law [of my m old existing arc is_full] assms(2,3) s by auto
qed

lemma run_update_map:
  assumes "permutes_keys ho" "\<And>s. S s \<Longrightarrow> offered path_ok my (arc_ids s) q"
    and "\<And>s s'. S s \<Longrightarrow> arc_ids s' = arc_ids s \<Longrightarrow> S' s'"
  shows "runs (inv_at my S) (st_result (on_state (update_map ho q ch)))
     (\<lambda>u. inv_at my (\<lambda>s. S' s \<and> (\<exists>out. u = Inr out \<and> list_all (path_sent sent_ok (naddr_topology my)) (um_all_paths out))))"
proof (rule runs_result, rule run_on_state)
  fix s assume s: "state_inv path_ok s" "st_naddr s = my" "S s"
  then have "offered path_ok (st_naddr s) (arc_ids s) q" using assms(2) by simp
  from inv_update_map [OF s(1) this assms(1), of ch] obtain out s' where r: "update_map ho q ch s = (Ok out, s')"
    "state_inv path_ok s'" "st_naddr s' = st_naddr s" "arc_ids s' = arc_ids s"
    "\<forall>p \<in> set (um_all_paths out). \<exists>np. tells np p \<and> wf_node_path (levels_of s) np \<and> path_ok (st_naddr s) (np_hops np)"
    by - (elim exE conjE, rule that)
  have "list_all (path_sent sent_ok (naddr_topology my)) (um_all_paths out)"
    using r(5) told_sent s(2) unfolding list_all_iff levels_of_def by blast
  then show "\<exists>x s'. update_map ho q ch s = (Ok x, s') \<and> state_inv path_ok s' \<and> st_naddr s' = my \<and> S' s' \<and>
      (\<exists>out. Inr x = (Inr out :: qspn_error + _) \<and> list_all (path_sent sent_ok (naddr_topology my)) (um_all_paths out))"
    using r(1-4) s(2,3) assms(3) by (intro exI [of _ out] exI [of _ s']) auto
qed

lemma run_merge_revised:
  assumes "permutes_keys ho" "revised my arc rv"
  shows "runs (inv_at my (\<lambda>s. arc \<in> arc_ids s)) (merge_revised ho tc rv) (\<lambda>r. inv_at my (\<lambda>s. True \<and> pred_option (ingest_ok my) r))"
  unfolding merge_revised_def
proof (intro runs_bind [OF run_update_map [OF assms(1), where S' = "\<lambda>_. True"]] run_known)
  show "offered path_ok my (arc_ids s) (rev_paths rv)" if "arc \<in> arc_ids s" for s
    using that assms(2) by (auto simp: revised_def offered_def)
  fix u :: "qspn_error + update_map_outcome"
  assume "\<exists>out. u = Inr out \<and> list_all (path_sent sent_ok (naddr_topology my)) (um_all_paths out)"
  with assms(2) show "runs (inv_at my (\<lambda>_. True)) (case u of Inl e \<Rightarrow> st_ret None
     | Inr outcome \<Rightarrow> st_bind (after_update tc outcome) (\<lambda>changed_my_gnodes.
         st_ret (Some \<lparr>ig_hops = rev_hops rv, ig_all_paths = um_all_paths outcome,
           ig_changed_my_gnodes = changed_my_gnodes\<rparr>))) (\<lambda>r. inv_at my (\<lambda>s. True \<and> pred_option (ingest_ok my) r))"
    by (auto intro!: runs_bind [OF run_after_update] runs_ret simp: ingest_ok_def revised_def elim: at_addr_mono)
qed simp

lemma run_existing:
  "runs (inv_at my (\<lambda>s. arc \<in> arc_ids s)) (ask (\<lambda>s. if is_full then paths_via_arc0 s arc else []))
     (\<lambda>existing. inv_at my (\<lambda>s. arc \<in> arc_ids s \<and>
        (\<forall>np \<in> set existing. wf_node_path (topology_levels (naddr_topology my)) np \<and> np_arc np = arc)))"
  by (rule run_ask) (use existing_ok in \<open>auto simp: levels_of_def\<close>)

lemma run_ingest_checked_etp:
  assumes "permutes_keys ho" "passed_gate my m"
  shows "runs (inv_at my (\<lambda>s. arc \<in> arc_ids s)) (ingest_checked_etp ho tc arc m is_full)
     (\<lambda>r. inv_at my (\<lambda>s. True \<and> pred_option (ingest_ok my) r))"
proof -
  have c: "runs (inv_at my (\<lambda>s. arc \<in> arc_ids s)) (case r of Inl e \<Rightarrow> st_ret None | Inr rv \<Rightarrow> merge_revised ho tc rv)
     (\<lambda>r. inv_at my (\<lambda>s. True \<and> pred_option (ingest_ok my) r))" if "pred_sum (\<lambda>_. True) (revised my arc) r"
    for r :: "qspn_error + revised_etp"
    using that by (cases r) (auto intro!: runs_ret run_merge_revised [OF assms(1), simplified] elim: at_addr_mono)
  show ?thesis
    unfolding ingest_checked_etp_def
    by (intro runs_bind [OF run_record_peer [OF assms(2)]] runs_bind [OF run_existing]
        runs_bind [OF run_revise [OF assms(2)]] run_known c) auto
qed

lemma run_ingest_incoming_etp:
  assumes "permutes_keys ho" "message_ok msg_ok m"
  shows "runs (inv_at my (\<lambda>s. arc \<in> arc_ids s)) (ingest_incoming_etp ho tc arc m is_full)
     (\<lambda>r. inv_at my (\<lambda>s. True \<and> pred_option (ingest_ok my) r))"
  unfolding ingest_incoming_etp_def
proof (rule runs_bind [OF run_check_and_remove_on_junk [OF assms(2),
      where T = "\<lambda>ok s. (ok \<longrightarrow> arc \<in> arc_ids s) \<and> (ok \<longrightarrow> passed_gate my m)"]])
  show "runs (inv_at my (\<lambda>s. (ok \<longrightarrow> arc \<in> arc_ids s) \<and> (ok \<longrightarrow> passed_gate my m)))
      (if \<not> ok then st_ret None else ingest_checked_etp ho tc arc m is_full)
      (\<lambda>r. inv_at my (\<lambda>s. True \<and> pred_option (ingest_ok my) r))" for ok
    using run_ingest_checked_etp [OF assms(1)]
    by (intro run_known) (cases ok; auto intro!: runs_ret elim: at_addr_mono)
qed (use assms(2) in \<open>auto simp: passed_gate_def\<close>)

lemma run_publish_and_forward:
  assumes "ingest_ok my i"
  shows "runs (inv_at my S) (publish_and_forward arc i) (\<lambda>_. inv_at my S)"
  unfolding publish_and_forward_def
  by (intro runs_bind [OF run_when [OF run_publish_snapshot]] runs_bind [OF run_ask [where T = "\<lambda>_. S"]] run_when
      runs_bind [OF run_build_etp] run_known run_broadcast_all_but)
    (use assms in \<open>auto simp: ingest_ok_def\<close>)

text \<open>Which arcs are known is read first by most handlers.\<close>

lemma run_known_arc:
  "runs (inv_at my S) (ask (\<lambda>s. contains_arc s arc)) (\<lambda>known. inv_at my (\<lambda>s. S s \<and> (known \<longrightarrow> arc \<in> arc_ids s)))"
  by (rule run_ask) (simp add: arc_ids_contains)

lemma drop_pre:
  "runs (inv_at my (\<lambda>_. True)) m Q \<Longrightarrow> runs (inv_at my S) m Q"
  by (erule runs_pre) (erule at_addr_mono, simp)

subsection \<open>Triples of the handlers\<close>

abbreviation "served my m \<equiv> runs (inv_at my (\<lambda>_. True)) m (\<lambda>_. inv_at my (\<lambda>_. True))"

lemma served_effect: "effect_ok sent_ok (naddr_topology my) e \<Longrightarrow> served my (do_effect e)"
  by (rule run_effect)

lemma served_do_remove_arc: "served my (do_remove_arc arc b)"
  by (rule run_do_remove_arc) simp

lemma served_bind_ask: "(\<And>x. served my (g x)) \<Longrightarrow> served my (st_bind (ask f) g)"
  by (intro runs_bind [OF run_ask [where T = "\<lambda>_ _. True"]]) simp_all

lemma served_bind: "served my m \<Longrightarrow> (\<And>x. served my (g x)) \<Longrightarrow> served my (st_bind m g)"
  by (rule runs_bind)

lemma served_ret: "served my (st_ret x)"
  by (rule runs_ret)

lemma served_when: "(b \<Longrightarrow> served my m) \<Longrightarrow> served my (st_when b m)"
  by (rule run_when)

lemma served_prepare_full:
  "(\<And>m. message_sent sent_ok (naddr_topology my) m \<Longrightarrow> served my (g m)) \<Longrightarrow> served my (st_bind (ask_res prepare_full_etp) g)"
  by (rule runs_bind [OF run_prepare_full]) (rule run_known)

lemma served_build:
  assumes "list_all (path_sent sent_ok (naddr_topology my)) paths" "sorted (map hc_level hops)" "sent_ok (naddr_topology my) hops"
    and "\<And>m. message_sent sent_ok (naddr_topology my) m \<Longrightarrow> served my (g m)"
  shows "served my (st_bind (build_etp paths hops) g)"
  by (rule runs_bind [OF run_build_etp [OF assms(1-3)]]) (rule run_known, rule assms(4))

text \<open>A handler that serves only known arcs.\<close>

lemma served_known_arc:
  assumes "served my m" "runs (inv_at my (\<lambda>s. arc \<in> arc_ids s)) m' (\<lambda>_. inv_at my (\<lambda>_. True))"
  shows "served my (st_bind (ask (\<lambda>s. contains_arc s arc)) (\<lambda>known. if \<not> known then m else m'))"
proof (rule runs_bind [OF run_known_arc])
  fix known
  show "runs (inv_at my (\<lambda>s. True \<and> (known \<longrightarrow> arc \<in> arc_ids s))) (if \<not> known then m else m') (\<lambda>_. inv_at my (\<lambda>_. True))"
    using assms by (cases known) simp_all
qed

lemma served_ingest:
  assumes "permutes_keys ho" "message_ok msg_ok m" "\<And>r. pred_option (ingest_ok my) r \<Longrightarrow> served my (g r)"
  shows "runs (inv_at my (\<lambda>s. arc \<in> arc_ids s)) (st_bind (ingest_incoming_etp ho tc arc m is_full) g) (\<lambda>_. inv_at my (\<lambda>_. True))"
  by (rule runs_bind [OF run_ingest_incoming_etp [OF assms(1,2)]]) (rule run_known, rule assms(3))

lemma served_arc_add_fetched:
  assumes "permutes_keys ho" "pred_option (message_ok msg_ok) r"
  shows "served my (handle_arc_add_fetched ho tc arc r)"
proof -
  have ok: "served my (case i of None \<Rightarrow> st_ret () | Some ingested \<Rightarrow> st_bind (publish_and_forward arc ingested) (\<lambda>_.
      st_bind (ask_res prepare_full_etp) (\<lambda>full. spawn_unicast arc full True)))" if "pred_option (ingest_ok my) i" for i
    using that
    by (cases i) (simp_all add: spawn_unicast_def served_ret served_bind run_publish_and_forward served_prepare_full served_effect)
  show ?thesis
    unfolding handle_arc_add_fetched_def
    using assms(2) by (intro served_known_arc)
      (cases r; simp add: served_ret drop_pre [OF served_do_remove_arc] served_ingest [OF assms(1)] ok)+
qed

text \<open>A gathered batch: the paths collected so far enter through arcs that no later result can remove.\<close>

definition gathered :: "naddr \<Rightarrow> arc_id \<Rightarrow> arc_id set \<Rightarrow> node_path list \<Rightarrow> qspn_state \<Rightarrow> bool" where
  "gathered my arc A q s \<longleftrightarrow> A - {arc} \<subseteq> arc_ids s \<and> (q \<noteq> [] \<longrightarrow> arc \<in> arc_ids s) \<and> offered path_ok my {arc} q"

lemma gathered_nil: "A - {arc} \<subseteq> arc_ids s \<Longrightarrow> gathered my arc A [] s"
  by (simp add: gathered_def offered_def)

lemma run_gather_checked:
  assumes "passed_gate my etp"
  shows "runs (inv_at my (\<lambda>s. arc_ids s = A \<and> arc \<in> A)) (gather_checked arc etp) (\<lambda>q. inv_at my (gathered my arc A q))"
  unfolding gather_checked_def
proof (intro runs_bind [OF run_record_peer [OF assms]] run_known
    runs_bind [OF run_ask [where T = "\<lambda>existing s. (arc_ids s = A \<and> arc \<in> A) \<and>
      (\<forall>np \<in> set existing. wf_node_path (topology_levels (naddr_topology my)) np \<and> np_arc np = arc)"]]
    runs_bind [OF run_revise [OF assms]] runs_ret)
  fix r :: "qspn_error + revised_etp" and a assume "pred_sum (\<lambda>_. True) (revised my arc) r"
  then have "offered path_ok my {arc} (case r of Inl e \<Rightarrow> [] | Inr rv \<Rightarrow> rev_paths rv)"
    by (cases r) (simp add: offered_def, simp add: revised_def)
  moreover assume "inv_at my (\<lambda>s. arc_ids s = A) a" "arc \<in> A"
  ultimately show "inv_at my (gathered my arc A (case r of Inl e \<Rightarrow> [] | Inr rv \<Rightarrow> rev_paths rv)) a"
    by (auto simp: gathered_def elim!: at_addr_mono)
qed (use existing_ok in \<open>auto simp: levels_of_def\<close>)

lemma run_gather_answer:
  assumes "pred_option (message_ok msg_ok) r"
  shows "runs (inv_at my (\<lambda>s. arc_ids s = A \<and> arc \<in> A)) (gather_answer arc r) (\<lambda>q. inv_at my (gathered my arc A q))"
proof -
  have gone: "runs (inv_at my (\<lambda>s. arc_ids s = A \<and> arc \<in> A)) (st_bind (do_remove_arc arc b) (\<lambda>_. st_ret [])) (\<lambda>q. inv_at my (gathered my arc A q))" for b
    by (intro runs_bind [OF run_do_remove_arc [where S' = "\<lambda>s. A - {arc} \<subseteq> arc_ids s"]] runs_ret)
      (auto intro: gathered_nil elim: at_addr_mono)
  show ?thesis
  proof (cases r)
    case None
    then show ?thesis using gone by (simp add: gather_answer_def)
  next
    case (Some etp)
    then have m: "message_ok msg_ok etp" using assms by simp
    have "runs (inv_at my (\<lambda>s. arc_ids s = A \<and> arc \<in> A)) (ask_res (\<lambda>s. check_incoming_message etp (st_naddr s)))
        (\<lambda>ok. inv_at my (\<lambda>s. (arc_ids s = A \<and> arc \<in> A) \<and> (ok \<longrightarrow> passed_gate my etp)))"
      by (rule run_ask_res) (use m gate_total in \<open>auto simp: passed_gate_def wf_peer_def message_ok_def valid_message_def\<close>)
    then show ?thesis unfolding Some gather_answer_def option.case
      by (rule runs_bind) (rule run_known, use gone run_gather_checked in simp)
  qed
qed

lemma run_gather_one:
  assumes "pred_option (message_ok msg_ok) r"
  shows "runs (inv_at my (\<lambda>s. arc_ids s = A)) (gather_one (arc, r)) (\<lambda>q. inv_at my (gathered my arc A q))"
  unfolding gather_one_def prod.case
proof (rule runs_bind [OF run_ask [where T = "\<lambda>known s. arc_ids s = A \<and> (known \<longrightarrow> arc \<in> A)"]])
  show "runs (inv_at my (\<lambda>s. arc_ids s = A \<and> (known \<longrightarrow> arc \<in> A))) (if \<not> known then st_ret [] else gather_answer arc r)
      (\<lambda>q. inv_at my (gathered my arc A q))" for known
    using run_gather_answer [OF assms] by (cases known) (auto intro!: runs_ret gathered_nil elim: at_addr_mono)
qed (auto simp: arc_ids_contains)

lemma run_gather_all:
  assumes "distinct (map fst rs)" "list_all (\<lambda>r. pred_option (message_ok msg_ok) (snd r)) rs"
  shows "runs (inv_at my (\<lambda>s. arc_ids s = A)) (st_concat gather_one rs)
     (\<lambda>q. inv_at my (\<lambda>s. A - fst ` set rs \<subseteq> arc_ids s \<and> offered path_ok my (arc_ids s) q))"
  using assms
proof (induction rs arbitrary: A)
  case Nil
  then show ?case by (auto simp: runs_def offered_def at_addr_def)
next
  case (Cons r rs)
  obtain arc x where r: "r = (arc, x)" by (cases r)
  have one: "runs (inv_at my (\<lambda>s. arc_ids s = A)) (gather_one r) (\<lambda>q. inv_at my (gathered my arc A q))"
    using run_gather_one Cons.prems(2) by (simp add: r)
  have rest: "runs (inv_at my (gathered my arc A q)) (st_bind (st_concat gather_one rs) (\<lambda>zs s'. (Ok (q @ zs), s')))
      (\<lambda>q. inv_at my (\<lambda>s. A - fst ` set (r # rs) \<subseteq> arc_ids s \<and> offered path_ok my (arc_ids s) q))" for q
  proof (rule runsI)
    fix a assume a: "inv_at my (gathered my arc A q) a"
    then have "inv_at my (\<lambda>s. arc_ids s = arc_ids (ac_state a)) a" by (simp add: at_addr_def)
    from runsD [OF Cons.IH this] Cons.prems obtain zs a' where z: "st_concat gather_one rs a = (Ok zs, a')"
      "inv_at my (\<lambda>s. arc_ids (ac_state a) - fst ` set rs \<subseteq> arc_ids s \<and> offered path_ok my (arc_ids s) zs) a'" by auto
    have g: "gathered my arc A q (ac_state a)" using a by (simp add: at_addr_def)
    have "arc \<notin> fst ` set rs" using Cons.prems(1) by (simp add: r)
    then have "offered path_ok my (arc_ids (ac_state a')) (q @ zs)" "A - fst ` set (r # rs) \<subseteq> arc_ids (ac_state a')"
      using z(2) g by (auto simp: at_addr_def gathered_def offered_def r)
    then show "\<exists>x a'. st_bind (st_concat gather_one rs) (\<lambda>zs s'. (Ok (q @ zs), s')) a = (Ok x, a') \<and>
        inv_at my (\<lambda>s. A - fst ` set (r # rs) \<subseteq> arc_ids s \<and> offered path_ok my (arc_ids s) x) a'"
      using z by (intro exI [of _ "q @ zs"] exI [of _ a']) (simp add: st_bind_run at_addr_def)
  qed
  have "st_concat gather_one (r # rs) = st_bind (gather_one r) (\<lambda>q. st_bind (st_concat gather_one rs) (\<lambda>zs s'. (Ok (q @ zs), s')))"
    by (rule ext) simp
  then show ?case using runs_bind [OF one rest] by simp
qed

lemma served_gather_complete:
  assumes "permutes_keys ho" "results_ok msg_ok results" "list_all (path_sent sent_ok (naddr_topology my)) dead"
  shows "served my (handle_gather_complete ho tc ch dead results)"
proof -
  have tail: "served my (case u of Inl e \<Rightarrow> st_ret () | Inr outcome \<Rightarrow>
         st_bind (after_update tc outcome) (\<lambda>changed_my_gnodes.
         let all_paths_set = um_all_paths outcome @ dead; changed = (all_paths_set \<noteq> [] \<or> changed_my_gnodes) in
         st_bind (st_when changed publish_snapshot) (\<lambda>_.
         st_bind (ask (\<lambda>s. length (st_arcs s))) (\<lambda>count.
         st_when (changed \<and> count > 0)
           (st_bind (build_etp all_paths_set []) (\<lambda>msg. spawn_broadcast_all msg False))))))"
    if "\<exists>out. u = Inr out \<and> list_all (path_sent sent_ok (naddr_topology my)) (um_all_paths out)" for u :: "qspn_error + update_map_outcome"
    using that assms(3) unfolding Let_def
    by (auto intro!: runs_bind [OF run_after_update] runs_bind [OF run_when [OF run_publish_snapshot]] served_when served_bind_ask
        served_build run_broadcast_all simp: sent_empty)
  have start: "runs (inv_at my (\<lambda>_. True)) (st_concat gather_one results) (\<lambda>q. inv_at my (\<lambda>s. offered path_ok my (arc_ids s) q))"
  proof (rule runsI)
    fix a assume "inv_at my (\<lambda>_. True) a"
    then have "inv_at my (\<lambda>s. arc_ids s = arc_ids (ac_state a)) a" by (simp add: at_addr_def)
    from runsD [OF run_gather_all this] assms(2)
    show "\<exists>q a'. st_concat gather_one results a = (Ok q, a') \<and> inv_at my (\<lambda>s. offered path_ok my (arc_ids s) q) a'"
      by (fastforce simp: results_ok_def elim: at_addr_mono)
  qed
  show ?thesis
    unfolding handle_gather_complete_def
    by (intro runs_bind [OF start] runs_bind [OF run_update_map [OF assms(1), where S' = "\<lambda>_. True"]] run_known tail) simp_all
qed

lemma served_exit_bootstrap: "runs (inv_at my S) do_exit_bootstrap (\<lambda>_. inv_at my (\<lambda>_. True))"
  unfolding do_exit_bootstrap_def spawn_exit_bootstrap_gather_def emit_def
  by (intro runs_bind [OF run_put_state [where S' = "\<lambda>_. True"]] runs_bind [OF run_publish_snapshot] served_bind served_bind_ask
      served_effect runs_bind [OF run_ask [where T = "\<lambda>arcs s. True \<and> distinct arcs"]] run_known)
    (use inv_exit_bootstrap arc_list_distinct in auto)

lemma hcoord_total: "state_inv path_ok s \<Longrightarrow> wf_naddr a \<Longrightarrow> hcoord_of (st_naddr s) a \<noteq> Panic"
  using wf_statesD(1) [OF state_invD(1)] by (intro hcoord_of_not_Panic)

lemma run_qualifies:
  assumes "message_ok msg_ok m"
  shows "runs (inv_at my (\<lambda>s. \<not> is_bootstrap_complete s \<and> arc \<in> arc_ids s)) (ask_res (qualifies_by_send m))
     (\<lambda>_. inv_at my (\<lambda>s. arc \<in> arc_ids s))"
proof (rule run_ask_res)
  fix s assume s: "state_inv path_ok s" "\<not> is_bootstrap_complete s \<and> arc \<in> arc_ids s"
  then obtain g h where b: "st_bootstrap s = InProgress g h" by (cases "st_bootstrap s") (simp_all add: is_bootstrap_complete_def)
  then have "0 < h" using state_invD(2) [OF s(1)] by (simp add: boot_ok_def)
  moreover have "hcoord_of (st_naddr s) (em_node_address m) \<noteq> Panic"
    using hcoord_total [OF s(1)] assms by (simp add: message_ok_def valid_message_def)
  ultimately show "\<exists>x. qualifies_by_send m s = Ok x \<and> arc \<in> arc_ids s"
    using b s(2) by (auto simp: qualifies_by_send_def host_gnode_level_def split: res.splits option.splits)
qed

lemma served_inbound_send_etp:
  assumes "permutes_keys ho" "message_ok msg_ok m"
  shows "served my (handle_inbound_send_etp ho tc arc m is_full)"
proof -
  let ?reply = "do_effect (Reply (ReplyResult (Ok ())))"
  let ?boot = "st_bind (ask_res (qualifies_by_send m)) (\<lambda>qualifies. if \<not> qualifies then ?reply
       else st_bind (ingest_checked_etp ho tc arc m is_full) (\<lambda>_. st_bind do_exit_bootstrap (\<lambda>_. ?reply)))"
  let ?main = "st_bind (ingest_checked_etp ho tc arc m is_full) (\<lambda>r.
       st_bind (case r of None \<Rightarrow> st_ret () | Some ingested \<Rightarrow> publish_and_forward arc ingested) (\<lambda>_. ?reply))"
  have reply: "served my ?reply" by (rule served_effect) simp
  have boot: "runs (inv_at my (\<lambda>s. \<not> is_bootstrap_complete s \<and> arc \<in> arc_ids s)) ?boot (\<lambda>_. inv_at my (\<lambda>_. True))" if g: "passed_gate my m"
  proof (rule runs_bind [OF run_qualifies [OF assms(2)]])
    show "runs (inv_at my (\<lambda>s. arc \<in> arc_ids s)) (if \<not> q then ?reply
       else st_bind (ingest_checked_etp ho tc arc m is_full) (\<lambda>_. st_bind do_exit_bootstrap (\<lambda>_. ?reply))) (\<lambda>_. inv_at my (\<lambda>_. True))" for q
      by (cases q) (auto intro!: drop_pre [OF reply] runs_bind [OF run_ingest_checked_etp [OF assms(1) g]] runs_bind [OF served_exit_bootstrap] reply)
  qed
  have main: "runs (inv_at my (\<lambda>s. arc \<in> arc_ids s)) ?main (\<lambda>_. inv_at my (\<lambda>_. True))" if g: "passed_gate my m"
  proof (rule runs_bind [OF run_ingest_checked_etp [OF assms(1) g]], rule run_known)
    fix r assume "pred_option (ingest_ok my) r"
    then show "served my (st_bind (case r of None \<Rightarrow> st_ret () | Some ingested \<Rightarrow> publish_and_forward arc ingested) (\<lambda>_. ?reply))"
      by (cases r) (simp_all add: served_bind served_ret reply run_publish_and_forward)
  qed
  have gated: "runs (inv_at my (\<lambda>s. arc \<in> arc_ids s)) (st_bind (ask is_bootstrap_complete) (\<lambda>complete. if \<not> complete then ?boot else ?main))
      (\<lambda>_. inv_at my (\<lambda>_. True))" if g: "passed_gate my m"
  proof (rule runs_bind [OF run_ask [where T = "\<lambda>c s. (\<not> c \<longrightarrow> \<not> is_bootstrap_complete s) \<and> arc \<in> arc_ids s"]])
    show "runs (inv_at my (\<lambda>s. (\<not> c \<longrightarrow> \<not> is_bootstrap_complete s) \<and> arc \<in> arc_ids s)) (if \<not> c then ?boot else ?main) (\<lambda>_. inv_at my (\<lambda>_. True))" for c
      using boot [OF g] main [OF g] by (cases c) simp_all
  qed simp
  show ?thesis
    unfolding handle_inbound_send_etp_def
  proof (rule served_known_arc)
    show "served my (do_effect (Reply (ReplyResult (Err NotAnArc))))" by (rule served_effect) simp
    show "runs (inv_at my (\<lambda>s. arc \<in> arc_ids s)) (st_bind (check_and_remove_on_junk arc m) (\<lambda>ok.
       if \<not> ok then ?reply else st_bind (ask is_bootstrap_complete) (\<lambda>complete. if \<not> complete then ?boot else ?main)))
       (\<lambda>_. inv_at my (\<lambda>_. True))"
    proof (rule runs_bind [OF run_check_and_remove_on_junk [OF assms(2),
        where T = "\<lambda>ok s. (ok \<longrightarrow> arc \<in> arc_ids s) \<and> (ok \<longrightarrow> passed_gate my m)"]])
      show "runs (inv_at my (\<lambda>s. (ok \<longrightarrow> arc \<in> arc_ids s) \<and> (ok \<longrightarrow> passed_gate my m)))
          (if \<not> ok then ?reply else st_bind (ask is_bootstrap_complete) (\<lambda>complete. if \<not> complete then ?boot else ?main))
          (\<lambda>_. inv_at my (\<lambda>_. True))" for ok
        using gated reply by (intro run_known) (cases ok; simp)
    qed (use assms(2) in \<open>auto simp: passed_gate_def\<close>)
  qed
qed

lemma served_bootstrap_etp_fetched:
  assumes "permutes_keys ho" "pred_option (message_ok msg_ok) r"
  shows "served my (handle_bootstrap_etp_fetched ho tc arc r)"
  unfolding handle_bootstrap_etp_fetched_def
proof (rule runs_bind [OF run_ask [where T = "\<lambda>stop s. \<not> stop \<longrightarrow> \<not> is_bootstrap_complete s \<and> arc \<in> arc_ids s"]])
  let ?S = "\<lambda>s. \<not> is_bootstrap_complete s \<and> arc \<in> arc_ids s"
  let ?exit = "\<lambda>etp. st_bind (ingest_incoming_etp ho tc arc etp True) (\<lambda>_. do_exit_bootstrap)"
  let ?gate = "\<lambda>etp sender. st_bind (ask guest_gnode_level) (\<lambda>guest.
             st_bind (ask_res (\<lambda>s. expect (host_gnode_level s))) (\<lambda>host.
             if hc_level sender < guest \<or> host \<le> hc_level sender then st_ret () else ?exit etp))"
  have exit: "runs (inv_at my (\<lambda>s. arc \<in> arc_ids s)) (?exit etp) (\<lambda>_. inv_at my (\<lambda>_. True))" if m: "message_ok msg_ok etp" for etp
    by (rule runs_bind [OF run_ingest_incoming_etp [OF assms(1) m]]) (rule served_exit_bootstrap)
  have host: "runs (inv_at my ?S) (ask_res (\<lambda>s. expect (host_gnode_level s))) (\<lambda>_. inv_at my (\<lambda>s. arc \<in> arc_ids s))"
    by (rule run_ask_res) (auto simp: host_gnode_level_def is_bootstrap_complete_def split: bootstrap.splits)
  have gate: "runs (inv_at my ?S) (?gate etp sender) (\<lambda>_. inv_at my (\<lambda>_. True))" if m: "message_ok msg_ok etp" for etp sender
    by (intro runs_bind [OF run_ask [where T = "\<lambda>_. ?S"]] runs_bind [OF host] runs_if drop_pre [OF served_ret] exit [OF m])
  have some: "runs (inv_at my ?S) (st_bind (st_result (ask_res (\<lambda>s. map_err CommonError (hcoord_of (st_naddr s) (em_node_address etp))))) (\<lambda>v.
         case v of Inl _ \<Rightarrow> st_ret () | Inr None \<Rightarrow> st_ret () | Inr (Some sender) \<Rightarrow> ?gate etp sender)) (\<lambda>_. inv_at my (\<lambda>_. True))"
    if m: "message_ok msg_ok etp" for etp
  proof (rule runs_bind [OF run_try_ask_res [where T = "\<lambda>_. ?S"]])
    show "(\<exists>x. map_err CommonError (hcoord_of (st_naddr s) (em_node_address etp)) = Ok x \<and> ?S s) \<or>
        (\<exists>e. map_err CommonError (hcoord_of (st_naddr s) (em_node_address etp)) = Err e \<and> ?S s)"
      if "state_inv path_ok s" "?S s" for s
      using that hcoord_total [OF that(1)] m by (cases "hcoord_of (st_naddr s) (em_node_address etp)") (auto simp: message_ok_def valid_message_def)
    show "runs (inv_at my ?S) (case v of Inl _ \<Rightarrow> st_ret () | Inr None \<Rightarrow> st_ret () | Inr (Some sender) \<Rightarrow> ?gate etp sender)
        (\<lambda>_. inv_at my (\<lambda>_. True))" for v :: "qspn_error + hcoord option"
      using gate [OF m] drop_pre [OF served_ret] by (auto split: sum.splits option.splits)
  qed
  show "runs (inv_at my (\<lambda>s. \<not> stop \<longrightarrow> ?S s)) (if stop then st_ret () else (case r of None \<Rightarrow> do_remove_arc arc True
     | Some etp \<Rightarrow> st_bind (st_result (ask_res (\<lambda>s. map_err CommonError (hcoord_of (st_naddr s) (em_node_address etp))))) (\<lambda>v.
         case v of Inl _ \<Rightarrow> st_ret () | Inr None \<Rightarrow> st_ret () | Inr (Some sender) \<Rightarrow> ?gate etp sender))) (\<lambda>_. inv_at my (\<lambda>_. True))" for stop
    using some assms(2) drop_pre [OF served_ret] drop_pre [OF served_do_remove_arc] by (cases stop; cases r) simp_all
qed (simp add: arc_ids_contains)

lemma served_exit_bootstrap_gathered:
  assumes "permutes_keys ho" "results_ok msg_ok results"
  shows "served my (handle_exit_bootstrap_gathered ho tc results)"
proof -
  have one: "served my (exit_gather_one ho tc r)" if r: "pred_option (message_ok msg_ok) (snd r)" for r
  proof -
    obtain arc x where x: "r = (arc, x)" by (cases r)
    show ?thesis
      unfolding x exit_gather_one_def prod.case
      using r by (intro served_known_arc served_ret)
        (cases x; simp add: x served_ingest [OF assms(1)] served_ret drop_pre [OF served_bind [OF served_do_remove_arc served_ret]])
  qed
  have "served my (st_concat (\<lambda>ar. st_bind (exit_gather_one ho tc ar) (\<lambda>b. st_ret [b])) rs)"
    if "list_all (\<lambda>r. pred_option (message_ok msg_ok) (snd r)) rs" for rs
    using that
  proof (induction rs)
    case Nil
    then show ?case by (auto simp: runs_def)
  next
    case (Cons r rs)
    have "st_concat (\<lambda>ar. st_bind (exit_gather_one ho tc ar) (\<lambda>b. st_ret [b])) (r # rs) =
        st_bind (st_bind (exit_gather_one ho tc r) (\<lambda>b. st_ret [b])) (\<lambda>ys.
        st_bind (st_concat (\<lambda>ar. st_bind (exit_gather_one ho tc ar) (\<lambda>b. st_ret [b])) rs) (\<lambda>zs. st_ret (ys @ zs)))"
      by (rule ext) (simp add: st_ret_def [abs_def])
    then show ?case using Cons by (simp only:) (intro served_bind one served_ret; simp)
  qed
  then show ?thesis
    unfolding handle_exit_bootstrap_gathered_def
    using assms(2) by (intro served_bind served_when run_publish_snapshot run_broadcast_full served_bind_ask served_effect)
      (simp_all add: results_ok_def)
qed

lemma served_split_timer: "served my (handle_split_timer_fire d f1 f2)"
proof -
  have live: "\<exists>x. split_still_live d f1 f2 s = Ok x" if "state_inv path_ok s" for s
    using wf_select_arcs [OF state_invD(1) [OF that]] by (auto simp: split_still_live_def Let_def split: option.splits)
  show ?thesis
    unfolding handle_split_timer_fire_def clear_pending_split_def emit_def
    by (intro served_bind run_put_state run_ask_res runs_iter_const served_effect) (use live inv_pending in auto)
qed

lemma served_add_arc:
  "runs (inv_at my (\<lambda>s. card (arc_ids s) < 2 ^ 31 - 1)) (handle_add_arc c) (\<lambda>_. inv_at my (\<lambda>_. True))"
proof (rule runsI)
  fix a assume a: "inv_at my (\<lambda>s. card (arc_ids s) < 2 ^ 31 - 1) a"
  let ?s = "ac_state a"
  have u: "contains_arc ?s = (\<lambda>i. i \<in> arc_ids ?s)" by (rule ext) (simp add: arc_ids_contains)
  obtain i src where alloc: "alloc_arc (contains_arc ?s) (ac_source a) = Some (i, src)"
    unfolding u by (rule alloc_arc_total [of "arc_ids ?s"]) (use a in \<open>simp_all add: at_addr_def arc_ids_def\<close>)
  let ?rest = "st_bind (st_put (ac_state_update (add_arc i c))) (\<lambda>_. st_bind (do_effect (Reply (ReplyArc i))) (\<lambda>_.
      st_bind (ask is_bootstrap_complete) (\<lambda>complete. if complete then spawn_fetch_for_new_arc i else spawn_bootstrap_fetches [i])))"
  have "served my (if b then spawn_fetch_for_new_arc i else spawn_bootstrap_fetches [i])" for b
    unfolding spawn_fetch_for_new_arc_def spawn_bootstrap_fetches_def
    by (intro runs_if served_bind_ask served_effect runs_iter_const) simp_all
  then have rest: "served my ?rest"
    by (intro served_bind run_put_state served_bind_ask served_effect) (use inv_add_arc in auto)
  have "inv_at my (\<lambda>_. True) (a\<lparr>ac_source := src\<rparr>)" using a by (simp add: at_addr_def actor_inv_def)
  from runsD [OF rest this] show "\<exists>x a'. handle_add_arc c a = (Ok x, a') \<and> inv_at my (\<lambda>_. True) a'"
    by (simp add: handle_add_arc_def alloc)
qed

lemma served_answer:
  assumes "\<And>s. state_inv path_ok s \<Longrightarrow> st_naddr s = my \<Longrightarrow> f s \<noteq> Panic \<and> effect_ok sent_ok (naddr_topology my) (Reply (wrap (f s)))"
  shows "served my (answer wrap f)"
proof (rule runsI)
  fix a assume a: "inv_at my (\<lambda>_. True) a"
  then have "f (ac_state a) \<noteq> Panic" "effect_ok sent_ok (naddr_topology my) (Reply (wrap (f (ac_state a))))"
    using assms by (simp_all add: at_addr_def actor_inv_def)
  with runsD [OF served_effect [OF this(2)] a] show "\<exists>x a'. answer wrap f a = (Ok x, a') \<and> inv_at my (\<lambda>_. True) a'"
    by (auto simp: answer_def split: res.splits)
qed

lemma get_full_etp_total:
  assumes "state_inv path_ok s" "st_naddr s = my" "wf_naddr addr"
  shows "handle_inbound_get_full_etp arc addr s \<noteq> Panic \<and>
     effect_ok sent_ok (naddr_topology my) (Reply (ReplyEtp (handle_inbound_get_full_etp arc addr s)))"
proof (cases "is_bootstrap_complete s \<and> contains_arc s arc")
  case False
  then show ?thesis by (auto simp: handle_inbound_get_full_etp_def)
next
  case True
  show ?thesis
  proof (cases "hcoord_of (st_naddr s) addr")
    case (Ok v)
    show ?thesis
    proof (cases v)
      case (Some b)
      have "\<forall>p \<in> set (told_to s b). path_sent sent_ok (naddr_topology (st_naddr s)) p"
        using told_to_sent [OF assms(1) covers] by blast
      then obtain qs m where "finalize_for_sending s (told_to s b) = Ok qs" "prepare_new_etp s qs [] = Ok m"
        "message_sent sent_ok (naddr_topology (st_naddr s)) m"
        using built_message [OF state_invD(1) [OF assms(1)], of "told_to s b" sent_ok "[]"] sent_empty by auto
      then show ?thesis using True Ok Some assms(2) by (simp add: handle_inbound_get_full_etp_def)
    qed (use True Ok in \<open>simp add: handle_inbound_get_full_etp_def\<close>)
  next
    case Panic
    then show ?thesis using hcoord_total [OF assms(1,3)] by simp
  qed (use True in \<open>simp add: handle_inbound_get_full_etp_def\<close>)
qed

lemma eldership_total:
  assumes "state_inv path_ok s"
  shows "eldership_of s level pos \<noteq> Panic"
proof (cases "destination_at s level pos")
  case (Some d)
  from wf_destination_at(2) [OF state_invD(1) [OF assms] Some] obtain f i where "dest_evaluate d (arc_cost s) = Ok (f, np_nodes_inside (dest_paths d ! i), i)"
    by (rule wf_dest_evaluate)
  with Some show ?thesis by (simp add: eldership_of_def)
qed (simp add: eldership_of_def)

lemma served_window: "served my (st_put (ac_window_update f))"
  by (rule runs_put) (simp add: at_addr_def actor_inv_def)

lemma served_bind_window: "(\<And>x. served my (g x)) \<Longrightarrow> served my (st_bind (st_get ac_window) g)"
  by (rule runs_bind [OF runs_get], rule runs_pre, assumption) simp

lemma served_open_window: "served my (open_window arc)"
  unfolding open_window_def spawn_arc_gather_window_def
  by (intro served_bind run_spawn_gather served_window served_bind_ask served_effect) simp_all

lemma served_arc_changed: "served my (handle_arc_changed arc c)"
proof -
  have "served my (request_arc_gather arc)"
    unfolding request_arc_gather_def
    by (intro served_bind_window) (simp add: served_open_window served_window split: option.split)
  then show ?thesis
    unfolding handle_arc_changed_def
    by (intro served_bind_ask runs_if served_effect served_bind run_put_state served_when) (use inv_set_arc_cost in auto)
qed

lemma served_window_elapsed: "served my handle_arc_gather_window_elapsed"
  unfolding handle_arc_gather_window_elapsed_def
  by (intro served_bind_window served_bind [OF served_window]) (simp add: served_ret served_when served_open_window split: option.split)

lemma served_remove_arc: "served my (handle_remove_arc arc)"
proof -
  let ?Q = "\<lambda>removal s. True \<and> list_all (path_sent sent_ok (naddr_topology my)) (ra_dead_paths removal)"
  have rem: "runs (inv_at my (\<lambda>_. True)) (on_state (\<lambda>s. case remove_arc arc s of (removal, s') \<Rightarrow> (Ok removal, s')))
      (\<lambda>removal. inv_at my (?Q removal))"
  proof (rule run_on_state)
    fix s assume s: "state_inv path_ok s" "st_naddr s = my"
    obtain removal s' where r: "remove_arc arc s = (removal, s')" by (cases "remove_arc arc s")
    note i = inv_remove_arc [OF s(1) r]
    have "list_all (path_sent sent_ok (naddr_topology my)) (ra_dead_paths removal)"
      using i told_sent s(2) unfolding list_all_iff levels_of_def by blast
    then show "\<exists>x s'. (case remove_arc arc s of (removal, s') \<Rightarrow> (Ok removal, s')) = (Ok x, s') \<and> state_inv path_ok s' \<and>
        st_naddr s' = my \<and> ?Q x s'" using r i s(2) by simp
  qed
  have body: "served my (st_bind (on_state (\<lambda>s. case remove_arc arc s of (removal, s') \<Rightarrow> (Ok removal, s'))) (\<lambda>removal.
       st_bind (emit_all (ra_events removal)) (\<lambda>_. st_bind (st_when (ra_events removal \<noteq> []) publish_snapshot) (\<lambda>_.
       st_bind (do_effect (Reply (ReplyResult (Ok ())))) (\<lambda>_. spawn_gather None (ra_dead_paths removal))))))"
    by (intro runs_bind [OF rem] run_known served_bind run_emit_all served_when run_publish_snapshot served_effect run_spawn_gather) simp_all
  show ?thesis
    unfolding handle_remove_arc_def
    by (intro served_bind_ask runs_if served_effect body) simp_all
qed

lemma served_first_detection: "served my (handle_first_detection_split b)"
  unfolding handle_first_detection_split_def
proof (rule runs_bind [OF run_ask [where T = "\<lambda>ps s. True \<and> list_all (path_sent sent_ok (naddr_topology my)) ps"]], goal_cases)
  case (1 s)
  then show ?case using split_paths_sent [OF 1(1) covers, of _ b] by (auto simp: list_all_iff)
next
  case (2 ps)
  show ?case by (rule run_known) (intro served_when served_build run_broadcast_all, auto simp: sent_empty)
qed

lemma served_publish_connectivity:
  assumes "sent_ok (naddr_topology my) [d]"
  shows "served my (handle_publish_connectivity d)"
  unfolding handle_publish_connectivity_def
proof (rule served_bind [OF run_ask_res])
  show "\<exists>x. outer_arcs_after_connectivity d s = Ok x \<and> True" if "state_inv path_ok s" for s
    using wf_select_arcs [OF state_invD(1) [OF that]] by (simp add: outer_arcs_after_connectivity_def)
  have "runs (inv_at my (\<lambda>_. True)) (ask_res (\<lambda>s. prepare_new_etp s [] [d])) (\<lambda>m. inv_at my (\<lambda>s. True \<and> message_sent sent_ok (naddr_topology my) m))"
    by (rule run_ask_res)
      (use built_message [OF state_invD(1), of path_ok _ "[]" sent_ok "[d]"] assms in \<open>auto simp: finalize_for_sending_def\<close>)
  then show "served my (st_bind (ask_res (\<lambda>s. prepare_new_etp s [] [d])) (\<lambda>msg. spawn_broadcast arcs msg False))" for arcs
    by (rule runs_bind) (rule run_known, rule run_broadcast)
qed

lemma served_exit_network: "served my (handle_exit_network level)"
  unfolding handle_exit_network_def
proof (rule runs_bind [where R = "\<lambda>r. inv_at my (\<lambda>s. True \<and> (\<exists>out. r = Inr out))"])
  show "runs (inv_at my (\<lambda>_. True)) (st_result (on_state (exit_network level))) (\<lambda>r. inv_at my (\<lambda>s. True \<and> (\<exists>out. r = Inr out)))"
    by (rule runs_result, rule run_on_state) (use inv_exit_network [of path_ok _ level] in fastforce)
  show "runs (inv_at my (\<lambda>s. True \<and> (\<exists>out. r = Inr out))) (case r of Inl e \<Rightarrow> do_effect (Reply (ReplyResult (Err e)))
     | Inr outcome \<Rightarrow> st_bind (emit_all (en_events outcome)) (\<lambda>_.
         st_bind (st_when (en_events outcome \<noteq> []) publish_snapshot) (\<lambda>_.
         st_bind (do_effect (Reply (ReplyResult (Ok ())))) (\<lambda>_. broadcast_full)))) (\<lambda>_. inv_at my (\<lambda>_. True))" for r :: "qspn_error + exit_network_outcome"
    by (rule run_known) (auto intro!: served_bind run_emit_all served_when run_publish_snapshot served_effect run_broadcast_full)
qed

text \<open>\<open>make_connectivity\<close> alone moves the node to another address.\<close>

lemma make_connectivity_served:
  assumes "inv_at my (\<lambda>s. rewrite_ok path_ok s f) a"
  shows "\<exists>a'. handle_make_connectivity from to f a = (Ok (), a') \<and> actor_inv path_ok sent_ok (naddr_topology my) a'"
proof -
  let ?s = "ac_state a"
  let ?tail = "\<lambda>outcome. st_bind (emit_all (mc_events outcome)) (\<lambda>_.
         st_bind (st_when (mc_events outcome \<noteq> []) publish_snapshot) (\<lambda>_.
         st_bind (do_effect (Reply (ReplyResult (Ok ())))) (\<lambda>_.
         st_bind (ask (\<lambda>s. publish_connectivity_delay (st_config s))) (\<lambda>delay.
         do_effect (PublishConnectivityTimer delay (mc_old_position outcome))))))"
  have a: "state_inv path_ok ?s" "rewrite_ok path_ok ?s f" "naddr_topology (st_naddr ?s) = naddr_topology my"
    using assms by (simp_all add: at_addr_def actor_inv_def)
  from inv_make_connectivity [OF a(1,2), of "from" to] consider
      e where "make_connectivity from to f ?s = (Err e, ?s)"
    | out s' where "make_connectivity from to f ?s = (Ok out, s')" "state_inv path_ok s'"
        "naddr_topology (st_naddr s') = naddr_topology my" "hop_in_range (naddr_topology my) (mc_old_position out)"
    unfolding a(3) by blast
  then show ?thesis
  proof cases
    case 1
    then show ?thesis using assms
      by (simp add: handle_make_connectivity_def st_bind_def st_result_def on_state_def st_zoom_def do_effect_def st_put_def
          at_addr_def actor_inv_def)
  next
    case 2
    let ?a = "a\<lparr>ac_state := s'\<rparr>"
    have i: "inv_at (st_naddr s') (\<lambda>_. True) ?a" using assms 2 by (simp add: at_addr_def actor_inv_def)
    have "sent_ok (naddr_topology (st_naddr s')) [mc_old_position out]" using sent_position 2 by simp
    then have "served (st_naddr s') (?tail out)"
      by (intro served_bind run_emit_all served_when run_publish_snapshot served_bind_ask served_effect) simp_all
    from runsD [OF this i] obtain a' where "?tail out ?a = (Ok (), a')" "inv_at (st_naddr s') (\<lambda>_. True) a'" by auto
    moreover have "handle_make_connectivity from to f a = ?tail out ?a"
      using 2(1) by (simp add: handle_make_connectivity_def st_bind_def st_result_def on_state_def st_zoom_def)
    ultimately show ?thesis using 2(3) by (auto simp: at_addr_def)
  qed
qed

subsection \<open>Dispatch\<close>

lemma command_served:
  assumes "permutes_keys ho" "\<And>from to f. cmd \<noteq> MakeConnectivity from to f"
    and "inv_at my (\<lambda>s. command_ok path_ok sent_ok msg_ok s cmd) a"
  shows "\<exists>a'. handle ho tc cmd a = (Ok (), a') \<and> inv_at my (\<lambda>_. True) a'"
proof -
  have i: "inv_at my (\<lambda>_. True) a" "st_naddr (ac_state a) = my" "command_ok path_ok sent_ok msg_ok (ac_state a) cmd"
    using assms(3) by (simp_all add: at_addr_def)
  have other: "served my (handle ho tc cmd)" if "\<And>c. cmd \<noteq> AddArc c"
  proof (cases cmd)
    case (AddArc c)
    with that show ?thesis by blast
  next
    case (MakeConnectivity f t u)
    with assms(2) show ?thesis by blast
  next
    case (GetFullEtp arc addr)
    then have "wf_naddr addr" using i(3) by simp
    then show ?thesis unfolding GetFullEtp handle.simps using get_full_etp_total by (intro served_answer)
  next
    case (CheckConnectivity)
    then show ?thesis unfolding CheckConnectivity handle.simps
      by (intro served_answer) (simp add: check_connectivity_eq [OF state_invD(1)])
  qed (use i(2,3) in \<open>simp_all add: served_arc_add_fetched assms(1) served_arc_changed served_remove_arc served_gather_complete
      served_bind_ask served_effect served_answer eldership_total served_inbound_send_etp served_bind served_do_remove_arc
      resend_def served_when handle_periodic_full_etp_def run_broadcast_full served_first_detection served_split_timer
      served_bootstrap_etp_fetched handle_bootstrap_timeout_def served_exit_bootstrap served_exit_bootstrap_gathered
      served_publish_connectivity served_exit_network served_window_elapsed\<close>)
  show ?thesis
  proof (cases "\<exists>c. cmd = AddArc c")
    case True
    then obtain c where c: "cmd = AddArc c" by blast
    have "inv_at my (\<lambda>s. card (arc_ids s) < 2 ^ 31 - 1) a" using assms(3) unfolding c command_ok.simps .
    from runsD [OF served_add_arc this] show ?thesis by (auto simp: c)
  next
    case False
    then have "served my (handle ho tc cmd)" using other by blast
    from runsD [OF this i(1)] show ?thesis by auto
  qed
qed

lemma handle_served:
  assumes "permutes_keys ho" "actor_inv path_ok sent_ok t a" "command_ok path_ok sent_ok msg_ok (ac_state a) cmd"
  shows "\<exists>a'. handle ho tc cmd a = (Ok (), a') \<and> actor_inv path_ok sent_ok t a'"
proof -
  let ?my = "st_naddr (ac_state a)"
  have t: "naddr_topology ?my = t" using assms(2) by (simp add: actor_inv_def)
  have i: "inv_at ?my (\<lambda>s. command_ok path_ok sent_ok msg_ok s cmd) a" using assms(2,3) t by (simp add: at_addr_def)
  show ?thesis
  proof (cases "\<exists>f t u. cmd = MakeConnectivity f t u")
    case True
    then show ?thesis using make_connectivity_served [of ?my _ a] i t by auto
  next
    case False
    then have "\<And>f t u. cmd \<noteq> MakeConnectivity f t u" by blast
    from command_served [OF assms(1) this i, of tc] show ?thesis using t by (auto simp: at_addr_def)
  qed
qed

end

section \<open>Three instances\<close>

text \<open>No condition on paths: what remains is that nothing panics and well-formedness is kept.\<close>

interpretation any_paths: actor_contract "\<lambda>_ _. True" "\<lambda>_ _. True" "\<lambda>_. True"
  by unfold_locales simp_all

text \<open>No stored path passes through this node.\<close>

interpretation loop_free_paths: actor_contract "\<lambda>my hs. \<not> loops_back my hs" "\<lambda>_ _. True" "\<lambda>_. True"
  by unfold_locales simp_all

text \<open>Every hop is a real coordinate, as long as the senders' own addresses are real.\<close>

definition real_path :: "topology \<Rightarrow> hcoord list \<Rightarrow> bool" where
  "real_path t hs \<longleftrightarrow> list_all (hop_in_range t) hs"

definition real_sender :: "etp_message \<Rightarrow> bool" where
  "real_sender m \<longleftrightarrow> \<not> is_virtual (em_node_address m)"

lemma real_divergence:
  assumes "wf_naddr my" "wf_naddr a" "naddr_topology a = naddr_topology my" "diverges_at my a v" "\<not> is_virtual a"
  shows "hop_in_range (naddr_topology my) v"
proof -
  have l: "hc_level v < topology_levels (naddr_topology my)" "pos_at a (hc_level v) = Some (hc_pos v)"
    using assms(1-4) by (auto simp: diverges_at_def naddr_defs wf_naddr_def)
  then have "is_virtual_at a (hc_level v) \<noteq> Some True"
    using assms(2,3,5) by (auto simp: is_virtual_def list_ex_iff naddr_levels_def wf_naddr_def topology_levels_def)
  then have "\<not> gsizes (naddr_topology my) ! hc_level v \<le> hc_pos v"
    using l assms(2,3) is_virtual_at_wf [OF assms(2), of "hc_level v"]
    by (auto simp: pos_at_def naddr_levels_def topology_levels_def wf_naddr_def split: if_splits)
  then show ?thesis using l(1) by (simp add: hop_in_range_def)
qed

lemma group_hops_in_range:
  assumes "hop_in_range t v" "hops_ok t hs"
  shows "real_path t (group_hops v hs)"
  using assms set_dropWhileD [of _ "\<lambda>h. hc_level h < hc_level v" hs]
  by (auto simp: real_path_def group_hops_def hops_ok_def list_all_iff)

interpretation real_paths: actor_contract "\<lambda>my. real_path (naddr_topology my)" real_path real_sender
proof
  show "real_path (naddr_topology my) (group_hops v hs)"
    if "wf_naddr my" "accepted_message my m" "real_sender m" "diverges_at my (em_node_address m) v"
      "hops_ok (naddr_topology my) hs" for my m v hs
    using that real_divergence [of my "em_node_address m" v]
    by (intro group_hops_in_range) (auto simp: accepted_message_def valid_message_def real_sender_def)
qed (simp_all add: real_path_def)

end
