(* ===== verification/Qspn_System.thy ===== *)
theory Qspn_System
  imports Qspn_ActorServe
begin

section \<open>The running actor\<close>

text \<open>
  The actor together with the tasks it has spawned, as a state machine. A command arrives from outside
  (a handle's caller or an inbound call) or from a spawned task; tasks run concurrently, so any pending
  task may send next. The outbox of each command becomes new tasks; effects that send nothing back (a
  reply, an event, a published snapshot, a unicast) stay in the list as the record of what left the
  node. A handler that panics, or an allocation loop that never ends, takes the actor down: \<open>Crashed\<close>.
\<close>

text \<open>Which commands a task sends back. A broadcast sends one per neighbour that missed it; the
  periodic loops send for ever.\<close>

inductive sends :: "effect \<Rightarrow> command \<Rightarrow> bool" where
  "sends (FetchNewArc arc my) (ArcAddFetched arc r)"
| "map fst results = arcs \<Longrightarrow> sends (Gather ch dead arcs my) (GatherComplete ch dead results)"
| "sends (ArcGatherWindow d) ArcGatherWindowElapsed"
| "arc \<in> set arcs \<Longrightarrow> sends (Broadcast arcs m is_full) (ResendEtp arc m is_full)"
| "sends (Resend arc m is_full) (ResendFailed arc)"
| "sends (BootstrapSignal d i) PeriodicFullEtp"
| "sends (PeriodicLoop i) PeriodicFullEtp"
| "sends (BootstrapFetch arc my) (BootstrapEtpFetched arc r)"
| "sends (BootstrapTimer d) BootstrapTimeout"
| "map fst results = arcs \<Longrightarrow> sends (ExitBootstrapGather arcs my) (ExitBootstrapGathered results)"
| "sends (FirstSplitTimer d b) (FirstDetectionSplitFire b)"
| "sends (SplitTimer d c f1 f2) (SplitTimerFire c f1 f2)"
| "sends (PublishConnectivityTimer d c) (PublishConnectivity c)"

fun keeps_sending :: "effect \<Rightarrow> bool" where
  "keeps_sending (Broadcast arcs m is_full) = True"
| "keeps_sending (BootstrapSignal d i) = True"
| "keeps_sending (PeriodicLoop i) = True"
| "keeps_sending e = False"

text \<open>The commands of the handle's methods.\<close>

fun is_request :: "command \<Rightarrow> bool" where
  "is_request (AddArc c) = True"
| "is_request (ArcChanged arc c) = True"
| "is_request (RemoveArc arc) = True"
| "is_request CurrentArcs = True"
| "is_request (PeerNaddr arc) = True"
| "is_request (MyEldership l) = True"
| "is_request (Eldership l p) = True"
| "is_request (FingerprintId l) = True"
| "is_request (GetFullEtp arc a) = True"
| "is_request (SendEtp arc m b) = True"
| "is_request GotPrepareDestroy = True"
| "is_request (GotDestroy arc) = True"
| "is_request DestroyStub = True"
| "is_request IsBootstrapComplete = True"
| "is_request CurrentNaddr = True"
| "is_request (MakeConnectivity f t u) = True"
| "is_request (ExitNetwork l) = True"
| "is_request CheckConnectivity = True"
| "is_request cmd = False"

text \<open>The messages a command carries back from the network.\<close>

fun carried :: "command \<Rightarrow> etp_message list" where
  "carried (ArcAddFetched arc r) = (case r of None \<Rightarrow> [] | Some m \<Rightarrow> [m])"
| "carried (BootstrapEtpFetched arc r) = (case r of None \<Rightarrow> [] | Some m \<Rightarrow> [m])"
| "carried (GatherComplete ch dead results) = List.map_filter snd results"
| "carried (ExitBootstrapGathered results) = List.map_filter snd results"
| "carried cmd = []"

datatype system = Running actor "effect list" | Crashed

inductive arrives ::
  "(naddr \<Rightarrow> hcoord list \<Rightarrow> bool) \<Rightarrow> (etp_message \<Rightarrow> bool) \<Rightarrow> actor \<Rightarrow> effect list \<Rightarrow> command \<Rightarrow> effect list \<Rightarrow> bool"
  for path_ok msg_ok where
  request: "is_request cmd \<Longrightarrow> command_ok path_ok (\<lambda>_ _. True) msg_ok (ac_state a) cmd \<Longrightarrow> arrives path_ok msg_ok a ts cmd ts"
| once: "e \<in> set ts \<Longrightarrow> sends e cmd \<Longrightarrow> \<not> keeps_sending e \<Longrightarrow> list_all (message_ok msg_ok) (carried cmd) \<Longrightarrow>
    arrives path_ok msg_ok a ts cmd (remove1 e ts)"
| again: "e \<in> set ts \<Longrightarrow> sends e cmd \<Longrightarrow> keeps_sending e \<Longrightarrow> arrives path_ok msg_ok a ts cmd ts"

inductive sys_step ::
  "hash_order \<Rightarrow> threshold_calculator \<Rightarrow> (naddr \<Rightarrow> hcoord list \<Rightarrow> bool) \<Rightarrow> (etp_message \<Rightarrow> bool) \<Rightarrow> system \<Rightarrow> system \<Rightarrow> bool"
  for ho tc path_ok msg_ok where
  serve: "arrives path_ok msg_ok a ts cmd ts' \<Longrightarrow> handle ho tc cmd (a\<lparr>ac_out := []\<rparr>) = (Ok (), a') \<Longrightarrow>
    sys_step ho tc path_ok msg_ok (Running a ts) (Running a' (ts' @ ac_out a'))"
| crash: "arrives path_ok msg_ok a ts cmd ts' \<Longrightarrow> handle ho tc cmd (a\<lparr>ac_out := []\<rparr>) = (r, a') \<Longrightarrow> r \<noteq> Ok () \<Longrightarrow>
    sys_step ho tc path_ok msg_ok (Running a ts) Crashed"

inductive reaches ::
  "hash_order \<Rightarrow> threshold_calculator \<Rightarrow> (naddr \<Rightarrow> hcoord list \<Rightarrow> bool) \<Rightarrow> (etp_message \<Rightarrow> bool) \<Rightarrow> system \<Rightarrow> system \<Rightarrow> bool"
  for ho tc path_ok msg_ok S0 where
  start: "reaches ho tc path_ok msg_ok S0 S0"
| step: "reaches ho tc path_ok msg_ok S0 S \<Longrightarrow> sys_step ho tc path_ok msg_ok S S' \<Longrightarrow> reaches ho tc path_ok msg_ok S0 S'"

inductive_cases arrivesE: "arrives path_ok msg_ok a ts cmd ts'"
inductive_cases sys_stepE: "sys_step ho tc path_ok msg_ok (Running a ts) S"
inductive_cases sys_step_CrashedE: "sys_step ho tc path_ok msg_ok Crashed S"

definition starts :: "actor \<Rightarrow> system" where
  "starts a = Running a (ac_out a)"

definition sys_inv ::
  "(naddr \<Rightarrow> hcoord list \<Rightarrow> bool) \<Rightarrow> (topology \<Rightarrow> hcoord list \<Rightarrow> bool) \<Rightarrow> topology \<Rightarrow> system \<Rightarrow> bool" where
  "sys_inv path_ok sent_ok t S \<longleftrightarrow>
     (\<exists>a ts. S = Running a ts \<and> actor_inv path_ok sent_ok t a \<and> list_all (effect_ok sent_ok t) ts)"

text \<open>A task's command is admissible because the task was.\<close>

lemma map_filter_carried:
  "list_all P (List.map_filter snd rs) \<Longrightarrow> list_all (\<lambda>r. pred_option P (snd r)) rs"
  by (induction rs) (auto simp: map_filter_simps split: option.splits)

lemma sent_command_ok:
  assumes "effect_ok sent_ok t e" "sends e cmd" "list_all (message_ok msg_ok) (carried cmd)" "naddr_topology (st_naddr s) = t"
  shows "command_ok path_ok sent_ok msg_ok s cmd"
  using assms(2,1,3,4)
  by (induction rule: sends.induct) (auto simp: results_ok_def map_filter_carried split: option.splits)

lemma request_ok:
  "is_request cmd \<Longrightarrow> command_ok path_ok (\<lambda>_ _. True) msg_ok s cmd \<Longrightarrow> command_ok path_ok sent_ok msg_ok s cmd"
  by (cases cmd) simp_all

lemma carried_again: "sends e cmd \<Longrightarrow> keeps_sending e \<Longrightarrow> carried cmd = []"
  by (induction rule: sends.induct) simp_all

context actor_contract
begin

lemma arrival_ok:
  assumes "arrives path_ok msg_ok a ts cmd ts'" "list_all (effect_ok sent_ok t) ts" "naddr_topology (st_naddr (ac_state a)) = t"
  shows "command_ok path_ok sent_ok msg_ok (ac_state a) cmd \<and> list_all (effect_ok sent_ok t) ts'"
  using assms(1)
proof (cases rule: arrives.cases)
  case request
  then show ?thesis using request_ok assms(2) by blast
next
  case (once e)
  then show ?thesis using sent_command_ok assms(2,3) by (auto simp: list_all_iff dest: notin_set_remove1 set_mp [OF set_remove1_subset])
next
  case (again e)
  then show ?thesis using sent_command_ok assms(2,3) carried_again by (auto simp: list_all_iff)
qed

lemma step_inv:
  assumes "permutes_keys ho" "sys_inv path_ok sent_ok t S" "sys_step ho tc path_ok msg_ok S S'"
  shows "sys_inv path_ok sent_ok t S'"
proof -
  obtain a ts where S: "S = Running a ts" "actor_inv path_ok sent_ok t a" "list_all (effect_ok sent_ok t) ts"
    using assms(2) by (auto simp: sys_inv_def)
  have a: "actor_inv path_ok sent_ok t (a\<lparr>ac_out := []\<rparr>)" using S(2) by (simp add: actor_inv_def)
  have served: "\<exists>a'. handle ho tc cmd (a\<lparr>ac_out := []\<rparr>) = (Ok (), a') \<and> actor_inv path_ok sent_ok t a' \<and> list_all (effect_ok sent_ok t) ts'"
    if arr: "arrives path_ok msg_ok a ts cmd ts'" for cmd ts'
  proof -
    have "naddr_topology (st_naddr (ac_state a)) = t" using S(2) by (simp add: actor_inv_def)
    from arrival_ok [OF arr S(3) this] have "command_ok path_ok sent_ok msg_ok (ac_state (a\<lparr>ac_out := []\<rparr>)) cmd" "list_all (effect_ok sent_ok t) ts'" by simp_all
    with handle_served [OF assms(1) a, of cmd tc] show ?thesis by auto
  qed
  from assms(3) show ?thesis unfolding S(1)
  proof (cases rule: sys_step.cases)
    case (serve cmd ts' a')
    from served [OF serve(2)] serve(3) have "actor_inv path_ok sent_ok t a'" "list_all (effect_ok sent_ok t) ts'" by auto
    then show ?thesis using serve by (auto simp: sys_inv_def actor_inv_def)
  next
    case (crash cmd ts' r a')
    from served [OF crash(2)] crash(3,4) show ?thesis by auto
  qed
qed

lemma reaches_inv:
  assumes "permutes_keys ho" "sys_inv path_ok sent_ok t S0" "reaches ho tc path_ok msg_ok S0 S"
  shows "sys_inv path_ok sent_ok t S"
  using assms(3) by (induction rule: reaches.induct) (use assms(1,2) step_inv in blast)+

lemma starts_inv: "actor_inv path_ok sent_ok t a \<Longrightarrow> sys_inv path_ok sent_ok t (starts a)"
  by (auto simp: sys_inv_def starts_def actor_inv_def)

end

section \<open>What holds of every run\<close>

text \<open>The arguments of \<open>spawn\<close>.\<close>

definition spawn_args_ok :: "naddr \<Rightarrow> fp \<Rightarrow> bool" where
  "spawn_args_ok my f \<longleftrightarrow> wf_naddr my \<and> wf_fp f \<and> fp_level f = 0 \<and> topology_levels (naddr_topology my) \<le> length (fp_pending f)"

lemma spawn_actor:
  assumes "spawn_args_ok my f"
  shows "\<exists>a. spawn my f config src = Ok a \<and> actor_inv path_ok sent_ok (naddr_topology my) a \<and> ac_window a = None \<and>
     st_pending (ac_state a) = {} \<and> st_bootstrap (ac_state a) = Complete \<and> st_arcs (ac_state a) = [] \<and>
     st_naddr (ac_state a) = my \<and>
     ac_out a = [BootstrapSignal (bootstrap_signal_delay config) (periodic_full_etp_interval config)]"
proof -
  obtain s where s: "state_new my f config = Ok s" "wf_state s" "st_naddr s = my" "st_config s = config" "st_pending s = {}"
    "st_bootstrap s = Complete" "st_dests s = replicate (topology_levels (naddr_topology my)) []" "st_arcs s = []"
    by (rule state_new_run [of my f config]) (use assms in \<open>simp_all add: spawn_args_ok_def\<close>)
  have "stored_paths s d = []" for d using s(7) by (simp add: stored_paths_def destination_at_def)
  then have "state_inv path_ok s" using s(2,6) by (simp add: state_inv_def boot_ok_def)
  moreover obtain snap where "snapshot s = Ok snap" using snapshot_total [OF s(2)] by blast
  ultimately show ?thesis using s
    by (simp add: spawn_def initial_snapshot_def spawn_bootstrap_and_periodic_def st_bind_def ask_def st_get_def
        do_effect_def st_put_def actor_of_def actor_inv_def)
qed

text \<open>C1: an actor that founds a network never goes down. Whatever requests, inbound messages, failures and
  results of its own tasks arrive, in any order, every command is served to the end without a panic
  and every identifier allocation ends, and the routing state stays well formed.\<close>

theorem actor_never_crashes:
  assumes "permutes_keys ho" "spawn_args_ok my f" "spawn my f config src = Ok a"
    and "reaches ho tc (\<lambda>_ _. True) (\<lambda>_. True) (starts a) S"
  shows "\<exists>b ts. S = Running b ts \<and> wf_state (ac_state b) \<and> naddr_topology (st_naddr (ac_state b)) = naddr_topology my"
proof -
  have "actor_inv (\<lambda>_ _. True) (\<lambda>_ _. True) (naddr_topology my) a" using spawn_actor [OF assms(2), of config src] assms(3) by auto
  from any_paths.reaches_inv [OF assms(1) any_paths.starts_inv [OF this] assms(4)] show ?thesis
    by (auto simp: sys_inv_def actor_inv_def dest: state_invD(1))
qed

text \<open>C2: in every run, as long as this node's address is only ever rewritten to one its stored paths do
  not pass through, no stored path passes through this node.\<close>

theorem actor_loop_free:
  assumes "permutes_keys ho" "spawn_args_ok my f" "spawn my f config src = Ok a"
    and "reaches ho tc (\<lambda>my hs. \<not> loops_back my hs) (\<lambda>_. True) (starts a) S"
  shows "\<exists>b ts. S = Running b ts \<and> loop_free (ac_state b)"
proof -
  have "actor_inv (\<lambda>my hs. \<not> loops_back my hs) (\<lambda>_ _. True) (naddr_topology my) a"
    using spawn_actor [OF assms(2), of config src] assms(3) by auto
  from loop_free_paths.reaches_inv [OF assms(1) loop_free_paths.starts_inv [OF this] assms(4)] obtain b ts
    where b: "S = Running b ts" "state_inv (\<lambda>my hs. \<not> loops_back my hs) (ac_state b)" by (auto simp: sys_inv_def actor_inv_def)
  then show ?thesis using loop_free_stored [OF state_invD(1) [OF b(2)]] state_invD(3) [OF b(2)] by blast
qed

text \<open>The messages that leave the node.\<close>

fun sent_message :: "effect \<Rightarrow> etp_message option" where
  "sent_message (Unicast arc m is_full) = Some m"
| "sent_message (Broadcast arcs m is_full) = Some m"
| "sent_message (Resend arc m is_full) = Some m"
| "sent_message (Reply (ReplyEtp (Ok m))) = Some m"
| "sent_message e = None"

lemma sent_passes:
  assumes "effect_ok real_path t e" "sent_message e = Some m" "wf_naddr peer" "naddr_topology peer = t" "peer \<noteq> em_node_address m"
  shows "check_incoming_message m peer = Ok True"
proof -
  have m: "message_sent real_path t m" using assms(1,2) by (induction e rule: sent_message.induct) simp_all
  then have "message_shape_ok t m"
    by (auto simp: message_sent_def message_shape_ok_def hops_ok_def real_path_def list_all_iff path_shape_ok_def path_sent_def wf_path_def)
  then show ?thesis using m assms(3-5) check_incoming_message_eq [OF assms(3), of m] by (auto simp: message_sent_def)
qed

text \<open>C3: as long as every sender's own address is real, every message that ever leaves the node, flooded,
  resent, sent to a new neighbour or returned to a caller, passes the check of every other node of the
  topology: no neighbour drops its arc to this node for what it sends.\<close>

theorem actor_messages_accepted:
  assumes "permutes_keys ho" "spawn_args_ok my f" "spawn my f config src = Ok a"
    and "reaches ho tc (\<lambda>my. real_path (naddr_topology my)) real_sender (starts a) (Running b ts)"
    and "e \<in> set ts" "sent_message e = Some m" "wf_peer my peer" "peer \<noteq> em_node_address m"
  shows "check_incoming_message m peer = Ok True"
proof -
  have "actor_inv (\<lambda>my. real_path (naddr_topology my)) real_path (naddr_topology my) a"
    using spawn_actor [OF assms(2), of config src] assms(3) by auto
  from real_paths.reaches_inv [OF assms(1) real_paths.starts_inv [OF this] assms(4)]
  have "effect_ok real_path (naddr_topology my) e" using assms(5) by (auto simp: sys_inv_def list_all_iff)
  then show ?thesis using assms(6-8) by (intro sent_passes) (simp_all add: wf_peer_def)
qed

subsection \<open>A concrete run\<close>

text \<open>The founder of a network adds an arc; its periodic loop then floods a full ETP.\<close>

definition example_founder :: fp where
  "example_founder = fingerprint_new [9] 0 [0, 0]"

lemma example_spawn_args: "spawn_args_ok (example_naddr 0 0) example_founder"
  using wf_fp_new [of "[9]" 0 "[0, 0]"]
  by (simp add: spawn_args_ok_def example_founder_def)
    (simp add: fingerprint_new_def example_naddr_def example_topology_def topology_levels_def)

lemma add_arc_runs:
  assumes "card (arc_ids (ac_state a)) < 2 ^ 31 - 1"
  shows "\<exists>i b. handle ho tc (AddArc c) a = (Ok (), b) \<and> ac_state b = add_arc i c (ac_state a)"
proof -
  have u: "contains_arc (ac_state a) = (\<lambda>i. i \<in> arc_ids (ac_state a))" by (rule ext) (simp add: arc_ids_contains)
  obtain i src where alloc: "alloc_arc (contains_arc (ac_state a)) (ac_source a) = Some (i, src)"
    unfolding u by (rule alloc_arc_total [of "arc_ids (ac_state a)"]) (use assms in \<open>simp_all add: arc_ids_def\<close>)
  show ?thesis
    by (rule exI [of _ i]) (simp add: handle_add_arc_def alloc st_bind_def st_put_def do_effect_def ask_def st_get_def
        spawn_fetch_for_new_arc_def spawn_bootstrap_fetches_def st_ret_def)
qed

lemma broadcast_runs:
  assumes "prepare_full_etp (ac_state a) = Ok m" "st_arcs (ac_state a) \<noteq> []"
  shows "handle ho tc PeriodicFullEtp a = (Ok (), a\<lparr>ac_out := ac_out a @ [Broadcast (arc_list (ac_state a)) m True]\<rparr>)"
  using assms
  by (simp add: handle_periodic_full_etp_def broadcast_full_def spawn_broadcast_all_def spawn_broadcast_def st_bind_def ask_def
      st_get_def ask_res_def st_read_def st_when_def do_effect_def st_put_def arc_list_def)

lemma example_run:
  "\<exists>a b ts arcs m. spawn (example_naddr 0 0) example_founder qspn_config_default 1 = Ok a \<and>
     reaches ho tc path_ok msg_ok (starts a) (Running b ts) \<and> Broadcast arcs m True \<in> set ts \<and>
     em_node_address m = example_naddr 0 0"
proof -
  let ?any = "\<lambda>_ _. True"
  obtain a where a: "spawn (example_naddr 0 0) example_founder qspn_config_default 1 = Ok a"
    "actor_inv ?any ?any (naddr_topology (example_naddr 0 0)) a" "st_arcs (ac_state a) = []" "st_naddr (ac_state a) = example_naddr 0 0"
    "ac_out a = [BootstrapSignal (bootstrap_signal_delay qspn_config_default) (periodic_full_etp_interval qspn_config_default)]"
    using spawn_actor [OF example_spawn_args] by blast
  have room: "card (arc_ids (ac_state a)) < 2 ^ 31 - 1" using a(3) by (simp add: arc_ids_def)
  obtain i b where b: "handle ho tc (AddArc Null) (a\<lparr>ac_out := []\<rparr>) = (Ok (), b)" "ac_state b = add_arc i Null (ac_state a)"
    using add_arc_runs [of "a\<lparr>ac_out := []\<rparr>" ho tc Null] room by auto
  let ?ts = "ac_out a @ ac_out b"
  have "arrives path_ok msg_ok a (ac_out a) (AddArc Null) (ac_out a)" by (rule arrives.request) (use room in simp_all)
  then have 1: "sys_step ho tc path_ok msg_ok (starts a) (Running b ?ts)" unfolding starts_def using b(1) by (rule sys_step.serve)
  have inv: "state_inv ?any (ac_state b)" using inv_add_arc a(2) by (simp add: b(2) actor_inv_def)
  from full_message [OF this, of ?any] obtain m where m: "prepare_full_etp (ac_state b) = Ok m" by (auto simp: sent_covers_def)
  have addr: "em_node_address m = example_naddr 0 0"
    using m prepare_new_etp_eq [OF state_invD(1) [OF inv]] a(4) by (auto simp: prepare_full_etp_def res_simps b(2) add_arc_def)
  have "st_arcs (ac_state b) \<noteq> []" using a(3) by (simp add: b(2) add_arc_def)
  from broadcast_runs [of "b\<lparr>ac_out := []\<rparr>" m ho tc] this m
  have h: "handle ho tc PeriodicFullEtp (b\<lparr>ac_out := []\<rparr>) = (Ok (), b\<lparr>ac_out := [Broadcast (arc_list (ac_state b)) m True]\<rparr>)" by simp
  have "arrives path_ok msg_ok b ?ts PeriodicFullEtp ?ts" by (rule arrives.again) (use a(5) in \<open>auto intro: sends.intros\<close>)
  from sys_step.serve [OF this h] have "reaches ho tc path_ok msg_ok (starts a)
      (Running (b\<lparr>ac_out := [Broadcast (arc_list (ac_state b)) m True]\<rparr>) (?ts @ [Broadcast (arc_list (ac_state b)) m True]))"
    using reaches.step [OF reaches.step [OF reaches.start 1]] by simp
  then show ?thesis using a(1) addr by (intro exI conjI) auto
qed

theorem actor_never_crashes_witness:
  "\<exists>a b ts. spawn (example_naddr 0 0) example_founder qspn_config_default 1 = Ok a \<and>
     reaches id (\<lambda>_ _. 1000) (\<lambda>_ _. True) (\<lambda>_. True) (starts a) (Running b ts) \<and> ts \<noteq> [] \<and> wf_state (ac_state b)"
proof -
  obtain a b ts arcs m where r: "spawn (example_naddr 0 0) example_founder qspn_config_default 1 = Ok a"
    "reaches id (\<lambda>_ _. 1000) (\<lambda>_ _. True) (\<lambda>_. True) (starts a) (Running b ts)" "Broadcast arcs m True \<in> set ts"
    using example_run by blast
  from actor_never_crashes [OF permutes_id example_spawn_args r(1,2)] have "wf_state (ac_state b)" by auto
  with r show ?thesis by fastforce
qed

theorem actor_loop_free_witness:
  "\<exists>a b ts. spawn (example_naddr 0 0) example_founder qspn_config_default 1 = Ok a \<and>
     reaches id (\<lambda>_ _. 1000) (\<lambda>my hs. \<not> loops_back my hs) (\<lambda>_. True) (starts a) (Running b ts) \<and> ts \<noteq> [] \<and> loop_free (ac_state b)"
proof -
  obtain a b ts arcs m where r: "spawn (example_naddr 0 0) example_founder qspn_config_default 1 = Ok a"
    "reaches id (\<lambda>_ _. 1000) (\<lambda>my hs. \<not> loops_back my hs) (\<lambda>_. True) (starts a) (Running b ts)" "Broadcast arcs m True \<in> set ts"
    using example_run by blast
  from actor_loop_free [OF permutes_id example_spawn_args r(1,2)] have "loop_free (ac_state b)" by auto
  with r show ?thesis by fastforce
qed

theorem actor_messages_accepted_witness:
  "\<exists>a b ts e m. spawn (example_naddr 0 0) example_founder qspn_config_default 1 = Ok a \<and>
     reaches id (\<lambda>_ _. 1000) (\<lambda>my. real_path (naddr_topology my)) real_sender (starts a) (Running b ts) \<and> e \<in> set ts \<and>
     sent_message e = Some m \<and> check_incoming_message m (example_naddr 1 0) = (Ok True :: (bool, qspn_error) res)"
proof -
  obtain a b ts arcs m where r: "spawn (example_naddr 0 0) example_founder qspn_config_default 1 = Ok a"
    "reaches id (\<lambda>_ _. 1000) (\<lambda>my. real_path (naddr_topology my)) real_sender (starts a) (Running b ts)"
    "Broadcast arcs m True \<in> set ts" "em_node_address m = example_naddr 0 0"
    using example_run by blast
  have "example_naddr 1 0 \<noteq> example_naddr 0 0" by (simp add: example_naddr_def)
  moreover have "wf_peer (example_naddr 0 0) (example_naddr 1 0)"
    by (simp add: wf_peer_def) (simp add: example_naddr_def)
  ultimately have "check_incoming_message m (example_naddr 1 0) = (Ok True :: (bool, qspn_error) res)"
    using actor_messages_accepted [OF permutes_id example_spawn_args r(1,2,3), of m "example_naddr 1 0"] r(4) by simp
  with r show ?thesis by (intro exI [of _ a] exI [of _ b] exI [of _ ts] exI [of _ "Broadcast arcs m True"] exI [of _ m]) simp
qed

end
