(* ===== verification/Peers_Tuple.thy ===== *)
theory Peers_Tuple
  imports Ntk_Domain
begin

section \<open>Tuples and distances (\<open>ntk-peerservices/src/tuple.rs\<close>, \<open>hashnode.rs\<close>, \<open>error.rs\<close>)\<close>

text \<open>
  The address arithmetic of the distributed services: a node or a g-node named by its positions from a
  level up to a scope, how such a name relates to this node's own address, the distance from a
  hashed key to a node, and the choice of the closest visible g-node. A Rust tuple has private fields, so
  every value comes out of a constructor; \<open>wf_tuple_node\<close> and \<open>wf_tuple_gnode\<close> are what the
  constructors guarantee. The functions that assert, index or \<open>expect\<close> return a \<open>res\<close> whose \<open>Panic\<close> is
  the failed check; an arithmetic overflow of the distance is a panic as well.
\<close>

datatype peers_error =
    TopOutOfRange usize usize
  | PeersPositionOutOfRange usize u32 u32
  | EmptyGNodeTuple
  | GNodeTupleTooLong usize usize
  | ServiceIdOutOfRange u32
  | PeersLevelOutOfRange usize usize
  | InvalidParticipantSet
  | MissingField string
  | PeersDomain domain_decode_error
  | PeersTypeTagMismatch string string
  | PeersDecode string

text \<open>\<open>Result::expect\<close>: an error is a panic.\<close>

fun expect_ok :: "('a, 'f) res \<Rightarrow> ('a, 'e) res" where
  "expect_ok (Ok x) = Ok x"
| "expect_ok (Err e) = Panic"
| "expect_ok Panic = Panic"

lemma expect_ok_eq_Ok [res_simps]: "expect_ok m = Ok x \<longleftrightarrow> m = Ok x"
  by (cases m) auto

text \<open>\<open>&xs[a..b]\<close>.\<close>

definition slice :: "usize \<Rightarrow> usize \<Rightarrow> 'a list \<Rightarrow> ('a list, 'e) res" where
  "slice a b xs = (if a \<le> b \<and> b \<le> length xs then Ok (take (b - a) (drop a xs)) else Panic)"

subsection \<open>Node and g-node tuples\<close>

record tuple_node =
  tn_topology :: topology
  tn_pos :: "u32 list"

record tuple_gnode =
  tg_topology :: topology
  tg_top :: usize
  tg_pos :: "u32 list"

text \<open>The loop of both constructors: the first position out of range, from a level on.\<close>

fun check_positions :: "topology \<Rightarrow> usize \<Rightarrow> u32 list \<Rightarrow> (unit, peers_error) res" where
  "check_positions t level [] = Ok ()"
| "check_positions t level (p # ps) =
     res_bind (expect (topology_gsize t level)) (\<lambda>gsize.
     if gsize \<le> p then Err (PeersPositionOutOfRange level p gsize)
     else check_positions t (Suc level) ps)"

definition tuple_node_new :: "topology \<Rightarrow> u32 list \<Rightarrow> (tuple_node, peers_error) res" where
  "tuple_node_new t pos =
     (if topology_levels t < length pos then Err (TopOutOfRange (length pos) (topology_levels t))
      else res_bind (check_positions t 0 pos) (\<lambda>_. Ok \<lparr>tn_topology = t, tn_pos = pos\<rparr>))"

definition tn_top :: "tuple_node \<Rightarrow> usize" where
  "tn_top n = length (tn_pos n)"

definition tuple_gnode_new :: "topology \<Rightarrow> usize \<Rightarrow> u32 list \<Rightarrow> (tuple_gnode, peers_error) res" where
  "tuple_gnode_new t scope pos =
     (if pos = [] then Err EmptyGNodeTuple
      else if topology_levels t < scope then Err (TopOutOfRange scope (topology_levels t))
      else if scope < length pos then Err (GNodeTupleTooLong (length pos) scope)
      else res_bind (check_positions t (scope - length pos) pos) (\<lambda>_. Ok \<lparr>tg_topology = t, tg_top = scope, tg_pos = pos\<rparr>))"

definition tg_level :: "tuple_gnode \<Rightarrow> usize" where
  "tg_level g = tg_top g - length (tg_pos g)"

definition tg_hcoord :: "tuple_gnode \<Rightarrow> (hcoord, peers_error) res" where
  "tg_hcoord g = res_bind (index (tg_pos g) 0) (\<lambda>p. Ok (HCoord (tg_level g) p))"

subsection \<open>Naming a g-node of my map\<close>

definition make_tuple_node :: "topology \<Rightarrow> u32 list \<Rightarrow> hcoord \<Rightarrow> usize \<Rightarrow> (tuple_node, peers_error) res" where
  "make_tuple_node t my_pos h scope =
     (if scope \<le> hc_level h then Panic
      else
      res_bind (try_map (index my_pos) [Suc (hc_level h)..<scope]) (\<lambda>mine.
      expect_ok (tuple_node_new t (replicate (hc_level h) 0 @ hc_pos h # mine))))"

definition make_tuple_gnode :: "topology \<Rightarrow> u32 list \<Rightarrow> hcoord \<Rightarrow> usize \<Rightarrow> (tuple_gnode, peers_error) res" where
  "make_tuple_gnode t my_pos h scope =
     (if scope \<le> hc_level h then Panic
      else
      res_bind (try_map (index my_pos) [Suc (hc_level h)..<scope]) (\<lambda>mine.
      expect_ok (tuple_gnode_new t scope (hc_pos h # mine))))"

datatype gnode_relation = Mine | Visible | Hidden

fun convert_loop :: "u32 list \<Rightarrow> u32 list \<Rightarrow> usize \<Rightarrow> usize \<Rightarrow> (gnode_relation \<times> hcoord, peers_error) res" where
  "convert_loop my_pos tuple level 0 = res_bind (index tuple 0) (\<lambda>p. Ok (Mine, HCoord level p))"
| "convert_loop my_pos tuple level (Suc offset) =
     res_bind (index my_pos (level + offset)) (\<lambda>m.
     res_bind (index tuple offset) (\<lambda>p.
     if m \<noteq> p then Ok (if offset = 0 then Visible else Hidden, HCoord (level + offset) p)
     else convert_loop my_pos tuple level offset))"

definition convert_tuple_gnode :: "u32 list \<Rightarrow> tuple_gnode \<Rightarrow> (gnode_relation \<times> hcoord, peers_error) res" where
  "convert_tuple_gnode my_pos g = convert_loop my_pos (tg_pos g) (tg_level g) (length (tg_pos g))"

definition tuple_node_to_tuple_gnode :: "tuple_node \<Rightarrow> (tuple_gnode, peers_error) res" where
  "tuple_node_to_tuple_gnode n = expect_ok (tuple_gnode_new (tn_topology n) (tn_top n) (tn_pos n))"

definition rebase_tuple_gnode :: "u32 list \<Rightarrow> tuple_gnode \<Rightarrow> usize \<Rightarrow> (tuple_gnode, peers_error) res" where
  "rebase_tuple_gnode my_pos g new_top =
     (if new_top < tg_top g then Panic
      else
      res_bind (slice (tg_top g) new_top my_pos) (\<lambda>mine.
      expect_ok (tuple_gnode_new (tg_topology g) new_top (tg_pos g @ mine))))"

definition rebase_tuple_node :: "u32 list \<Rightarrow> tuple_node \<Rightarrow> usize \<Rightarrow> (tuple_node, peers_error) res" where
  "rebase_tuple_node my_pos n new_top =
     (if new_top < tn_top n then Panic
      else
      res_bind (slice (tn_top n) new_top my_pos) (\<lambda>mine.
      expect_ok (tuple_node_new (tn_topology n) (tn_pos n @ mine))))"

definition tuple_gnode_containing :: "tuple_gnode \<Rightarrow> usize \<Rightarrow> (tuple_gnode, peers_error) res" where
  "tuple_gnode_containing g new_level =
     (if new_level < tg_level g then Panic
      else tuple_gnode_new (tg_topology g) (tg_top g) (drop (min (new_level - tg_level g) (length (tg_pos g))) (tg_pos g)))"

definition visible_by_someone_inside_my_gnode :: "u32 list \<Rightarrow> tuple_gnode \<Rightarrow> usize \<Rightarrow> (bool, peers_error) res" where
  "visible_by_someone_inside_my_gnode my_pos g lvl =
     (let level = tg_level g; l = (if lvl = 0 \<or> lvl - 1 \<le> level then level + 1 else lvl) in
      if tg_top g \<le> l then Ok True
      else
      res_bind (slice (l - level) (length (tg_pos g)) (tg_pos g)) (\<lambda>ps.
      res_bind (expect_ok (tuple_gnode_new (tg_topology g) (tg_top g) ps)) (\<lambda>h.
      res_bind (convert_tuple_gnode my_pos h) (\<lambda>r. Ok (fst r = Mine)))))"

definition tuple_contains :: "tuple_gnode \<Rightarrow> tuple_gnode \<Rightarrow> (bool, peers_error) res" where
  "tuple_contains outer inner =
     (if tg_top outer \<noteq> tg_top inner then Panic
      else let c = tg_pos outer; d = tg_pos inner in
        Ok (length c \<le> length d \<and> c = drop (length d - length c) d))"

subsection \<open>Distance and the closest g-node\<close>

definition mul_add128 :: "u128 \<Rightarrow> u128 \<Rightarrow> u128 \<Rightarrow> (u128, peers_error) res" where
  "mul_add128 a b c = (if unat a * unat b + unat c < 2 ^ 128 then Ok (a * b + c) else Panic)"

definition dist_digit :: "u32 \<Rightarrow> u32 \<Rightarrow> u32 \<Rightarrow> u128" where
  "dist_digit gsize xbarj xj =
     (if xbarj \<le> xj then ucast xj - ucast xbarj else ucast xj + ucast gsize - ucast xbarj)"

definition dist_step :: "topology \<Rightarrow> tuple_node \<Rightarrow> tuple_node \<Rightarrow> u128 \<Rightarrow> usize \<Rightarrow> (u128, peers_error) res" where
  "dist_step t x_macron x distance level =
     res_bind (expect (topology_gsize t level)) (\<lambda>gsize.
     res_bind (index (tn_pos x) level) (\<lambda>xj.
     res_bind (index (tn_pos x_macron) level) (\<lambda>xbarj.
     mul_add128 distance (ucast gsize) (dist_digit gsize xbarj xj))))"

definition tuple_dist :: "topology \<Rightarrow> tuple_node \<Rightarrow> tuple_node \<Rightarrow> (u128, peers_error) res" where
  "tuple_dist t x_macron x =
     (if tn_top x_macron \<noteq> tn_top x then Panic
      else fold_res (dist_step t x_macron x) 0 (rev [0..<tn_top x]))"

text \<open>\<open>for p in 0..gsize\<close>.\<close>

definition positions_below :: "u32 \<Rightarrow> u32 list" where
  "positions_below gsize = map word_of_nat [0..<unat gsize]"

text \<open>A candidate replaces the best so far only when it is strictly closer.\<close>

definition approximate_try ::
  "topology \<Rightarrow> u32 list \<Rightarrow> tuple_node \<Rightarrow> (hcoord \<times> u128) option \<Rightarrow> hcoord \<Rightarrow> ((hcoord \<times> u128) option, peers_error) res" where
  "approximate_try t my_pos x_macron best h =
     res_bind (make_tuple_node t my_pos h (tn_top x_macron)) (\<lambda>tuple_x.
     res_bind (tuple_dist t x_macron tuple_x) (\<lambda>d.
     Ok (case best of None \<Rightarrow> Some (h, d) | Some (_, bd) \<Rightarrow> if d < bd then Some (h, d) else best)))"

definition approximate_pos ::
  "topology \<Rightarrow> u32 list \<Rightarrow> tuple_node \<Rightarrow> hcoord list \<Rightarrow> (hcoord \<Rightarrow> bool) \<Rightarrow> usize
    \<Rightarrow> (hcoord \<times> u128) option \<Rightarrow> u32 \<Rightarrow> ((hcoord \<times> u128) option, peers_error) res" where
  "approximate_pos t my_pos x_macron exclude_list gnode_exists level best p =
     res_bind (index my_pos level) (\<lambda>m.
     if p = m then Ok best
     else let h = HCoord level p in
       if h \<in> set exclude_list \<or> \<not> gnode_exists h then Ok best
       else approximate_try t my_pos x_macron best h)"

definition approximate_level ::
  "topology \<Rightarrow> u32 list \<Rightarrow> tuple_node \<Rightarrow> hcoord list \<Rightarrow> (hcoord \<Rightarrow> bool)
    \<Rightarrow> (hcoord \<times> u128) option \<Rightarrow> usize \<Rightarrow> ((hcoord \<times> u128) option, peers_error) res" where
  "approximate_level t my_pos x_macron exclude_list gnode_exists best level =
     res_bind (expect (topology_gsize t level)) (\<lambda>gsize.
     fold_res (approximate_pos t my_pos x_macron exclude_list gnode_exists level) best (positions_below gsize))"

definition approximate ::
  "topology \<Rightarrow> u32 list \<Rightarrow> tuple_node option \<Rightarrow> hcoord list \<Rightarrow> (hcoord \<Rightarrow> bool) \<Rightarrow> (hcoord option, peers_error) res" where
  "approximate t my_pos x_macron exclude_list gnode_exists =
     res_bind (index my_pos 0) (\<lambda>me0.
     let me = HCoord 0 me0 in
     case x_macron of
       None \<Rightarrow> Ok (if me \<in> set exclude_list then None else Some me)
     | Some x \<Rightarrow>
         if tn_top x = 0 then Ok (if me \<in> set exclude_list then None else Some me)
         else
           res_bind (fold_res (approximate_level t my_pos x exclude_list gnode_exists) None [0..<tn_top x]) (\<lambda>best.
           res_bind (if me \<in> set exclude_list then Ok best else approximate_try t my_pos x best me) (\<lambda>best'.
           Ok (map_option fst best'))))"

subsection \<open>The hash node of a key\<close>

fun hash_digits :: "u32 list \<Rightarrow> u128 \<Rightarrow> u32 list" where
  "hash_digits [] h = []"
| "hash_digits (gsize # gs) h = ucast (h mod ucast gsize) # hash_digits gs (h div ucast gsize)"

definition hash_to_tuple :: "topology \<Rightarrow> u128 \<Rightarrow> (tuple_node, peers_error) res" where
  "hash_to_tuple t h = expect_ok (tuple_node_new t (hash_digits (gsizes t) h))"

end
