(* ===== verification/Peers_Distance.thy ===== *)
theory Peers_Distance
  imports Peers_Tuple
begin

section \<open>What tuples and distances guarantee\<close>

text \<open>
  The laws of the tuples of \<open>tuple.rs\<close>: when the constructors succeed, what the conversions between scopes yield, and
  the distance from a key to a tuple as a number in a mixed radix.
\<close>

subsection \<open>Well-formed tuples\<close>

text \<open>Positions of the levels from \<open>level\<close> on, in range.\<close>

definition in_ranges :: "topology \<Rightarrow> usize \<Rightarrow> u32 list \<Rightarrow> bool" where
  "in_ranges t level ps \<longleftrightarrow> level + length ps \<le> length (gsizes t) \<and> (\<forall>i < length ps. ps ! i < gsizes t ! (level + i))"

definition wf_tuple_node :: "topology \<Rightarrow> tuple_node \<Rightarrow> bool" where
  "wf_tuple_node t n \<longleftrightarrow> tn_topology n = t \<and> in_ranges t 0 (tn_pos n)"

definition wf_tuple_gnode :: "topology \<Rightarrow> tuple_gnode \<Rightarrow> bool" where
  "wf_tuple_gnode t g \<longleftrightarrow> tg_topology g = t \<and> tg_pos g \<noteq> [] \<and> length (tg_pos g) \<le> tg_top g \<and>
     tg_top g \<le> length (gsizes t) \<and> in_ranges t (tg_level g) (tg_pos g)"

text \<open>This node's own address: one real position per level.\<close>

definition wf_my_pos :: "topology \<Rightarrow> u32 list \<Rightarrow> bool" where
  "wf_my_pos t my_pos \<longleftrightarrow> wf_topology t \<and> length my_pos = length (gsizes t) \<and> in_ranges t 0 my_pos"

lemma in_ranges_Cons:
  "in_ranges t level (p # ps) \<longleftrightarrow> level < length (gsizes t) \<and> p < gsizes t ! level \<and> in_ranges t (Suc level) ps"
  by (auto simp: in_ranges_def nth_Cons less_Suc_eq_0_disj split: nat.splits)

lemma in_ranges_Nil [simp]: "in_ranges t level [] \<longleftrightarrow> level \<le> length (gsizes t)"
  by (simp add: in_ranges_def)

lemma in_ranges_append:
  "in_ranges t level (ps @ qs) \<longleftrightarrow> in_ranges t level ps \<and> in_ranges t (level + length ps) qs"
proof (induction ps arbitrary: level)
  case Nil
  then show ?case by (auto simp: in_ranges_def)
next
  case (Cons p ps)
  then show ?case by (auto simp: in_ranges_Cons)
qed

lemma in_ranges_drop: "in_ranges t level ps \<Longrightarrow> k \<le> length ps \<Longrightarrow> in_ranges t (level + k) (drop k ps)"
  by (auto simp: in_ranges_def) (metis add.assoc less_diff_conv add.commute)

lemma in_ranges_take: "in_ranges t level ps \<Longrightarrow> in_ranges t level (take k ps)"
  by (auto simp: in_ranges_def)

lemma in_ranges_zeros:
  "wf_topology t \<Longrightarrow> n \<le> length (gsizes t) \<Longrightarrow> in_ranges t 0 (replicate n 0)"
  by (auto simp: in_ranges_def wf_topology_def word_gt_0) (metis nth_mem order_less_le_trans)

lemma check_positions_Ok:
  "level + length ps \<le> length (gsizes t) \<Longrightarrow> check_positions t level ps = Ok () \<longleftrightarrow> in_ranges t level ps"
  by (induction ps arbitrary: level)
    (auto simp: in_ranges_Cons topology_gsize_def not_le res_simps)

lemma check_positions_not_Panic:
  "level + length ps \<le> length (gsizes t) \<Longrightarrow> check_positions t level ps \<noteq> Panic"
  by (induction ps arbitrary: level) (auto simp: topology_gsize_def)

lemma tuple_node_new_Ok:
  "tuple_node_new t pos = Ok n \<longleftrightarrow> n = \<lparr>tn_topology = t, tn_pos = pos\<rparr> \<and> in_ranges t 0 pos"
proof (cases "length pos \<le> length (gsizes t)")
  case True
  then show ?thesis using check_positions_Ok [of 0 pos t] by (auto simp: tuple_node_new_def topology_levels_def res_simps)
next
  case False
  then show ?thesis by (simp add: tuple_node_new_def topology_levels_def in_ranges_def)
qed

lemma tuple_gnode_new_Ok:
  "tuple_gnode_new t scope pos = Ok g \<longleftrightarrow> g = \<lparr>tg_topology = t, tg_top = scope, tg_pos = pos\<rparr> \<and>
     pos \<noteq> [] \<and> length pos \<le> scope \<and> scope \<le> length (gsizes t) \<and> in_ranges t (scope - length pos) pos"
proof (cases "pos \<noteq> [] \<and> length pos \<le> scope \<and> scope \<le> length (gsizes t)")
  case True
  then show ?thesis using check_positions_Ok [of "scope - length pos" pos t]
    by (auto simp: tuple_gnode_new_def topology_levels_def res_simps)
next
  case False
  then show ?thesis by (auto simp: tuple_gnode_new_def topology_levels_def)
qed

lemma tuple_node_new_not_Panic: "tuple_node_new t pos \<noteq> Panic"
  by (auto simp: tuple_node_new_def topology_levels_def res_simps check_positions_not_Panic not_less)

lemma tuple_gnode_new_not_Panic: "tuple_gnode_new t scope pos \<noteq> Panic"
  by (auto simp: tuple_gnode_new_def topology_levels_def res_simps check_positions_not_Panic not_less)

subsection \<open>Naming\<close>

lemma mine_above:
  "scope \<le> length my_pos \<Longrightarrow> try_map (index my_pos) [a..<scope] = Ok (drop a (take scope my_pos))"
proof -
  assume s: "scope \<le> length my_pos"
  have "try_map (index my_pos) [a..<scope] = Ok (map ((!) my_pos) [a..<scope])"
    using s by (intro try_map_all_Ok) simp
  also have "map ((!) my_pos) [a..<scope] = drop a (take scope my_pos)"
    using s by (intro nth_equalityI) auto
  finally show ?thesis .
qed

lemma my_pos_ranges: "wf_my_pos t my_pos \<Longrightarrow> a \<le> scope \<Longrightarrow> scope \<le> length my_pos \<Longrightarrow> in_ranges t a (drop a (take scope my_pos))"
  using in_ranges_drop [OF in_ranges_take, of t 0 my_pos a scope] by (simp add: wf_my_pos_def)

text \<open>A coordinate of my map within a scope.\<close>

definition coord_in :: "topology \<Rightarrow> usize \<Rightarrow> hcoord \<Rightarrow> bool" where
  "coord_in t scope h \<longleftrightarrow> hc_level h < scope \<and> scope \<le> length (gsizes t) \<and> hc_pos h < gsizes t ! hc_level h"

lemma make_tuple_node_run:
  assumes "wf_my_pos t my_pos" "coord_in t scope h"
  obtains n where "make_tuple_node t my_pos h scope = Ok n" "wf_tuple_node t n"
    "tn_pos n = replicate (hc_level h) 0 @ hc_pos h # drop (Suc (hc_level h)) (take scope my_pos)"
proof -
  let ?l = "hc_level h" let ?ps = "replicate ?l 0 @ hc_pos h # drop (Suc ?l) (take scope my_pos)"
  have l: "?l < scope" "scope \<le> length my_pos" using assms by (auto simp: coord_in_def wf_my_pos_def)
  have "in_ranges t 0 ?ps"
    using assms my_pos_ranges [OF assms(1), of "Suc ?l" scope] l
    by (auto simp: in_ranges_append in_ranges_Cons coord_in_def wf_my_pos_def intro!: in_ranges_zeros)
  then have "tuple_node_new t ?ps = Ok \<lparr>tn_topology = t, tn_pos = ?ps\<rparr>"
    by (simp add: tuple_node_new_Ok)
  with that [of "\<lparr>tn_topology = t, tn_pos = ?ps\<rparr>"] l show thesis
    by (simp add: make_tuple_node_def mine_above [OF l(2)] wf_tuple_node_def \<open>in_ranges t 0 ?ps\<close>)
qed

lemma make_tuple_gnode_run:
  assumes "wf_my_pos t my_pos" "coord_in t scope h"
  obtains g where "make_tuple_gnode t my_pos h scope = Ok g" "wf_tuple_gnode t g" "tg_top g = scope"
    "tg_pos g = hc_pos h # drop (Suc (hc_level h)) (take scope my_pos)" "tg_level g = hc_level h"
proof -
  let ?l = "hc_level h" let ?ps = "hc_pos h # drop (Suc ?l) (take scope my_pos)"
  let ?g = "\<lparr>tg_topology = t, tg_top = scope, tg_pos = ?ps\<rparr>"
  have l: "?l < scope" "scope \<le> length my_pos" using assms by (auto simp: coord_in_def wf_my_pos_def)
  have len: "length ?ps = scope - ?l" using l by simp
  then have lev: "tg_level ?g = ?l" using l by (simp add: tg_level_def)
  have "in_ranges t ?l ?ps"
    using assms my_pos_ranges [OF assms(1), of "Suc ?l" scope] l
    by (auto simp: in_ranges_Cons coord_in_def wf_my_pos_def)
  then have wf: "wf_tuple_gnode t ?g" using lev len l assms by (simp add: wf_tuple_gnode_def coord_in_def)
  then have "tuple_gnode_new t scope ?ps = Ok ?g" using lev by (simp add: tuple_gnode_new_Ok wf_tuple_gnode_def tg_level_def)
  with that [of ?g] wf lev l show thesis by (simp add: make_tuple_gnode_def mine_above [OF l(2)])
qed

text \<open>The result of the conversion loop: the highest of the first \<open>k\<close> levels of the tuple at which it
  leaves my address.\<close>

lemma convert_loop_spec:
  assumes "k \<le> length tuple" "level + k \<le> length my_pos" "tuple \<noteq> []"
  shows "convert_loop my_pos tuple level k =
     (if \<forall>i < k. my_pos ! (level + i) = tuple ! i then Ok (Mine, HCoord level (tuple ! 0))
      else let i = (GREATEST i. i < k \<and> my_pos ! (level + i) \<noteq> tuple ! i) in
        Ok (if i = 0 then Visible else Hidden, HCoord (level + i) (tuple ! i)))"
  using assms
proof (induction k)
  case 0
  then show ?case by simp
next
  case (Suc k)
  show ?case
  proof (cases "my_pos ! (level + k) = tuple ! k")
    case True
    have all: "(\<forall>i < Suc k. my_pos ! (level + i) = tuple ! i) \<longleftrightarrow> (\<forall>i < k. my_pos ! (level + i) = tuple ! i)"
      using True by (auto simp: less_Suc_eq)
    have ex: "(i < Suc k \<and> my_pos ! (level + i) \<noteq> tuple ! i) \<longleftrightarrow> (i < k \<and> my_pos ! (level + i) \<noteq> tuple ! i)" for i
      using True by (auto simp: less_Suc_eq)
    show ?thesis using Suc True unfolding all ex by simp
  next
    case False
    have "(GREATEST i. i < Suc k \<and> my_pos ! (level + i) \<noteq> tuple ! i) = k"
      by (rule Greatest_equality) (use False in auto)
    with False Suc show ?thesis by auto
  qed
qed

subsection \<open>The distance as a number\<close>

text \<open>The reference: each level's clockwise distance is a digit, the digits are read in the mixed radix of
  the level sizes with level 0 least significant.\<close>

definition circ :: "u32 \<Rightarrow> u32 \<Rightarrow> u32 \<Rightarrow> nat" where
  "circ g a b = (if a \<le> b then unat b - unat a else unat b + unat g - unat a)"

fun ring_dist :: "u32 list \<Rightarrow> u32 list \<Rightarrow> u32 list \<Rightarrow> nat" where
  "ring_dist (g # gs) (a # as) (b # bs) = circ g a b + unat g * ring_dist gs as bs"
| "ring_dist gs as bs = 0"

definition fits :: "u32 list \<Rightarrow> u32 list \<Rightarrow> bool" where
  "fits gs ps \<longleftrightarrow> length ps = length gs \<and> (\<forall>i < length ps. ps ! i < gs ! i)"

lemma fits_simps [simp]:
  "fits [] ps \<longleftrightarrow> ps = []"
  "fits gs [] \<longleftrightarrow> gs = []"
  "fits (g # gs) (p # ps) \<longleftrightarrow> p < g \<and> fits gs ps"
  by (auto simp: fits_def nth_Cons less_Suc_eq_0_disj split: nat.splits)

lemma fits_Cons: "fits (g # gs) ps \<longleftrightarrow> (\<exists>p qs. ps = p # qs \<and> p < g \<and> fits gs qs)"
  by (cases ps) auto

lemma circ_less: "a < g \<Longrightarrow> b < g \<Longrightarrow> circ g a b < unat g"
  by (auto simp: circ_def word_less_nat_alt word_le_nat_alt)

lemma circ_0: "a < g \<Longrightarrow> b < g \<Longrightarrow> circ g a b = 0 \<longleftrightarrow> a = b"
  by (auto simp: circ_def word_less_nat_alt word_le_nat_alt word_unat_eq_iff)

lemma circ_inj: "a < g \<Longrightarrow> b < g \<Longrightarrow> c < g \<Longrightarrow> circ g a b = circ g a c \<Longrightarrow> b = c"
  by (auto simp: circ_def word_less_nat_alt word_le_nat_alt word_unat_eq_iff split: if_splits)

lemma circ_triangle: "a < g \<Longrightarrow> b < g \<Longrightarrow> c < g \<Longrightarrow> circ g a c \<le> circ g a b + circ g b c"
  by (auto simp: circ_def word_less_nat_alt word_le_nat_alt)

lemma ring_dist_bound: "fits gs as \<Longrightarrow> fits gs bs \<Longrightarrow> ring_dist gs as bs < prod_list (map unat gs)"
proof (induction gs arbitrary: as bs)
  case Nil
  then show ?case by simp
next
  case (Cons g gs)
  then obtain a as' b bs' where ab: "as = a # as'" "bs = b # bs'" "a < g" "b < g" "fits gs as'" "fits gs bs'"
    by (auto simp: fits_Cons)
  have "ring_dist gs as' bs' + 1 \<le> prod_list (map unat gs)" using Cons.IH [OF ab(5,6)] by simp
  then have "unat g * (ring_dist gs as' bs' + 1) \<le> unat g * prod_list (map unat gs)" by (rule mult_le_mono2)
  moreover have "circ g a b < unat g" using ab by (intro circ_less)
  ultimately show ?case using ab by (simp add: algebra_simps)
qed

lemma ring_dist_0: "fits gs as \<Longrightarrow> fits gs bs \<Longrightarrow> ring_dist gs as bs = 0 \<longleftrightarrow> as = bs"
  by (induction gs as bs rule: ring_dist.induct) (auto simp: circ_0 fits_Cons word_less_nat_alt)

lemma ring_dist_inj: "fits gs as \<Longrightarrow> fits gs bs \<Longrightarrow> fits gs cs \<Longrightarrow> ring_dist gs as bs = ring_dist gs as cs \<Longrightarrow> bs = cs"
proof (induction gs arbitrary: as bs cs)
  case Nil
  then show ?case by simp
next
  case (Cons g gs)
  then obtain a as' b bs' c cs' where abc: "as = a # as'" "bs = b # bs'" "cs = c # cs'" "a < g" "b < g" "c < g"
    "fits gs as'" "fits gs bs'" "fits gs cs'" by (auto simp: fits_Cons)
  have eq: "circ g a b + unat g * ring_dist gs as' bs' = circ g a c + unat g * ring_dist gs as' cs'"
    using Cons.prems(4) abc by simp
  have lt: "circ g a b < unat g" "circ g a c < unat g" using abc by (auto intro: circ_less)
  from arg_cong [OF eq, of "\<lambda>x. x mod unat g"] lt have "circ g a b = circ g a c" by simp
  moreover with eq lt have "ring_dist gs as' bs' = ring_dist gs as' cs'" by simp
  ultimately show ?case using abc circ_inj [of a g b c] Cons.IH [of as' bs' cs'] by simp
qed

lemma ring_dist_triangle:
  "fits gs as \<Longrightarrow> fits gs bs \<Longrightarrow> fits gs cs \<Longrightarrow> ring_dist gs as cs \<le> ring_dist gs as bs + ring_dist gs bs cs"
proof (induction gs arbitrary: as bs cs)
  case Nil
  then show ?case by simp
next
  case (Cons g gs)
  then obtain a as' b bs' c cs' where abc: "as = a # as'" "bs = b # bs'" "cs = c # cs'" "a < g" "b < g" "c < g"
    "fits gs as'" "fits gs bs'" "fits gs cs'" by (auto simp: fits_Cons)
  have "unat g * ring_dist gs as' cs' \<le> unat g * (ring_dist gs as' bs' + ring_dist gs bs' cs')"
    by (rule mult_le_mono2) (use Cons.IH abc in simp)
  moreover have "circ g a c \<le> circ g a b + circ g b c" using abc by (intro circ_triangle)
  ultimately show ?case using abc by (simp add: algebra_simps)
qed

subsection \<open>The code computes it\<close>

lemma unat_ucast_128 [simp]: "unat (ucast (w :: u32) :: u128) = unat w"
proof -
  have "unat w < 2 ^ LENGTH(32)" by (rule unsigned_less)
  then show ?thesis by (simp add: unsigned_ucast_eq take_bit_nat_eq_self_iff)
qed

lemma unat_dist_digit: "a < g \<Longrightarrow> b < g \<Longrightarrow> unat (dist_digit g a b) = circ g a b"
proof (cases "a \<le> b")
  case True
  then show ?thesis by (simp add: dist_digit_def circ_def unat_sub word_le_nat_alt)
next
  case False
  assume ab: "a < g" "b < g"
  have lim: "unat b < 2 ^ LENGTH(32)" "unat g < 2 ^ LENGTH(32)" by (rule unsigned_less)+
  have s: "unat (ucast b + ucast g :: u128) = unat b + unat g" using lim by (simp add: unat_word_ariths)
  have "unat a \<le> unat b + unat g" using ab by (simp add: word_less_nat_alt)
  then have "unat (ucast b + ucast g - ucast a :: u128) = unat b + unat g - unat a"
    by (subst unat_sub) (simp_all add: word_le_nat_alt s)
  then show ?thesis using False by (simp add: dist_digit_def circ_def)
qed

lemma fold_res_append: "fold_res f s (xs @ ys) = res_bind (fold_res f s xs) (\<lambda>s'. fold_res f s' ys)"
  by (induction xs arbitrary: s) (simp_all, case_tac "f s a", simp_all)

lemma mul_add128_Ok:
  assumes "unat a * unat b + unat c < 2 ^ 128"
  shows "mul_add128 a b c = Ok (a * b + c) \<and> unat (a * b + c) = unat a * unat b + unat c"
proof -
  have "unat a * unat b < 2 ^ LENGTH(128)" "unat a * unat b + unat c < 2 ^ LENGTH(128)" using assms by simp_all
  then show ?thesis using assms by (simp only: mul_add128_def unat_word_ariths if_True mod_less simp_thms)
qed

lemma drop_all_fits:
  "k < length gs \<Longrightarrow> drop k gs = gs ! k # drop (Suc k) gs"
  by (rule Cons_nth_drop_Suc [symmetric])

text \<open>The levels of a scope have at most \<open>2 ^ 128\<close> addresses, so that no distance overflows.\<close>

definition dist_fits :: "topology \<Rightarrow> usize \<Rightarrow> bool" where
  "dist_fits t scope \<longleftrightarrow> prod_list (map unat (take scope (gsizes t))) \<le> 2 ^ 128"

lemma prod_list_drop_le:
  assumes "0 \<notin> set gs"
  shows "prod_list (map unat (drop k (gs :: u32 list))) \<le> prod_list (map unat gs)"
proof -
  have "0 < prod_list (map unat (take k gs))"
    using assms by (auto simp: prod_list_zero_iff zero_less_iff_neq_zero unat_eq_0 dest: in_set_takeD)
  moreover have "prod_list (map unat gs) = prod_list (map unat (take k gs)) * prod_list (map unat (drop k gs))"
    by (simp flip: prod_list.append map_append)
  ultimately show ?thesis by simp
qed

lemma dist_loop:
  assumes "wf_topology t" "dist_fits t n" "n \<le> length (gsizes t)" "k \<le> n"
    and "fits (take n (gsizes t)) (tn_pos a)" "fits (take n (gsizes t)) (tn_pos b)"
  shows "\<exists>d. fold_res (dist_step t a b) 0 (rev [k..<n]) = (Ok d :: (u128, peers_error) res) \<and>
     unat d = ring_dist (drop k (take n (gsizes t))) (drop k (tn_pos a)) (drop k (tn_pos b))"
  using assms(4)
proof (induction "n - k" arbitrary: k)
  case 0
  then show ?case by simp
next
  case (Suc m)
  let ?gs = "take n (gsizes t)"
  have k: "k < n" "m = n - Suc k" using Suc by auto
  have len: "length (tn_pos a) = n" "length (tn_pos b) = n" "length ?gs = n" using assms by (auto simp: fits_def)
  obtain d where d: "fold_res (dist_step t a b) 0 (rev [Suc k..<n]) = (Ok d :: (u128, peers_error) res)"
    "unat d = ring_dist (drop (Suc k) ?gs) (drop (Suc k) (tn_pos a)) (drop (Suc k) (tn_pos b))"
    using Suc.hyps(1) [of "Suc k"] k by auto
  have lt: "tn_pos a ! k < ?gs ! k" "tn_pos b ! k < ?gs ! k" using assms(5,6) k len by (auto simp: fits_def)
  let ?v = "ring_dist (drop k ?gs) (drop k (tn_pos a)) (drop k (tn_pos b))"
  have v: "?v = circ (?gs ! k) (tn_pos a ! k) (tn_pos b ! k) + unat (?gs ! k) * unat d"
    using k len d(2) by (simp add: drop_all_fits)
  have fit: "fits (drop k ?gs) (drop k (tn_pos c))" if "fits ?gs (tn_pos c)" for c
    using that len k by (auto simp: fits_def)
  have "0 \<notin> set ?gs" using assms(1) by (auto simp: wf_topology_def dest: in_set_takeD)
  then have bound: "?v < 2 ^ 128"
    using ring_dist_bound [OF fit fit, OF assms(5,6)] prod_list_drop_le [of ?gs k] assms(2) by (simp add: dist_fits_def)
  let ?dd = "dist_digit (?gs ! k) (tn_pos a ! k) (tn_pos b ! k)"
  have dv: "unat d * unat (ucast (?gs ! k) :: u128) + unat ?dd = ?v" using lt v by (simp add: unat_dist_digit)
  with bound have "unat d * unat (ucast (?gs ! k) :: u128) + unat ?dd < 2 ^ 128" by simp
  note ma = mul_add128_Ok [OF this]
  have m: "mul_add128 d (ucast (?gs ! k)) ?dd = (Ok (d * ucast (?gs ! k) + ?dd) :: (u128, peers_error) res)"
    "unat (d * ucast (?gs ! k) + ?dd) = ?v" using dv by (simp_all only: ma)
  have "dist_step t a b d k = (Ok (d * ucast (?gs ! k) + ?dd) :: (u128, peers_error) res)"
    using k len assms(3) m(1) by (simp add: dist_step_def topology_gsize_def)
  moreover note m(2)
  moreover have "rev [k..<n] = rev [Suc k..<n] @ [k]" using k by (simp add: upt_conv_Cons)
  ultimately show ?case using d(1) by (simp add: fold_res_append)
qed

lemma wf_tuple_fits: "wf_tuple_node t n \<Longrightarrow> fits (take (tn_top n) (gsizes t)) (tn_pos n)"
  by (auto simp: wf_tuple_node_def in_ranges_def fits_def tn_top_def)

lemma tuple_dist_run:
  assumes "wf_topology t" "wf_tuple_node t a" "wf_tuple_node t b" "tn_top a = tn_top b" "dist_fits t (tn_top b)"
  shows "\<exists>d. tuple_dist t a b = (Ok d :: (u128, peers_error) res) \<and>
     unat d = ring_dist (take (tn_top b) (gsizes t)) (tn_pos a) (tn_pos b)"
  using dist_loop [OF assms(1,5), of 0 a b] assms wf_tuple_fits [OF assms(2)] wf_tuple_fits [OF assms(3)]
  by (auto simp: tuple_dist_def wf_tuple_node_def in_ranges_def tn_top_def)

lemma set_positions_below: "set (positions_below g) = {p. p < g}"
proof -
  have "p \<in> word_of_nat ` {0..<unat g}" if "p < g" for p
    using that by (intro image_eqI [of _ _ "unat p"]) (auto simp: word_less_nat_alt)
  moreover have "(word_of_nat n :: u32) < g" if "n < unat g" for n
    using that unsigned_less [of g] by (simp add: word_less_nat_alt unat_of_nat)
  ultimately show ?thesis by (auto simp: positions_below_def)
qed

end
