(* ===== verification/Peers_Participation.thy ===== *)
theory Peers_Participation
  imports Peers_Distance Ntk_Maps
begin

section \<open>Participation maps (\<open>ntk-peerservices/src/participation.rs\<close>, the gossip half of \<open>tuple.rs\<close>)\<close>

text \<open>
  Which g-nodes take part in which service, and how a neighbour's snapshot is re-expressed at the
  granularity of this node's address. A \<open>BTreeSet<HCoord>\<close> is a finite set. What the facts mean is stated
  over addresses: a coordinate of a map kept at address \<open>my_pos\<close> names the set \<open>gnode my_pos h\<close> of the
  addresses inside that g-node.
\<close>

type_synonym service_id = "16 word"
type_synonym participant_maps = "(service_id, hcoord set) btree_map"

record participant_set =
  ps_retrieved_below_level :: usize
  ps_my_pos :: "u32 list"
  ps_maps :: participant_maps

definition participant_map_is_valid :: "topology \<Rightarrow> hcoord set \<Rightarrow> bool" where
  "participant_map_is_valid t m \<longleftrightarrow>
     (\<forall>hc \<in> m. case topology_gsize t (hc_level hc) of None \<Rightarrow> False | Some gsize \<Rightarrow> hc_pos hc < gsize)"

definition participant_set_is_valid :: "topology \<Rightarrow> participant_set \<Rightarrow> bool" where
  "participant_set_is_valid t ps \<longleftrightarrow>
     ps_retrieved_below_level ps \<le> topology_levels t \<and> length (ps_my_pos ps) = topology_levels t \<and>
     list_all (\<lambda>(level, pos). case topology_gsize t level of None \<Rightarrow> False | Some gsize \<Rightarrow> pos < gsize)
       (enumerate 0 (ps_my_pos ps)) \<and>
     list_all (\<lambda>(_, m). participant_map_is_valid t m) (ps_maps ps)"

definition produce_step :: "usize \<Rightarrow> service_id \<times> hcoord set \<Rightarrow> participant_maps \<Rightarrow> participant_maps" where
  "produce_step below_level pm out =
     (let filtered = {hc \<in> snd pm. hc_level hc < below_level} in
      if filtered = {} then out else bt_insert (fst pm) filtered out)"

definition produce_below_level :: "participant_maps \<Rightarrow> u32 list \<Rightarrow> usize \<Rightarrow> participant_set" where
  "produce_below_level maps my_pos below_level =
     \<lparr>ps_retrieved_below_level = below_level, ps_my_pos = my_pos, ps_maps = fold (produce_step below_level) maps []\<rparr>"

text \<open>\<open>entry(p_id).or_default().insert(h)\<close>.\<close>

definition entry_insert :: "service_id \<Rightarrow> hcoord \<Rightarrow> participant_maps \<Rightarrow> participant_maps" where
  "entry_insert p_id h maps = bt_insert p_id (insert h (case map_of maps p_id of None \<Rightarrow> {} | Some m \<Rightarrow> m)) maps"

text \<open>The loop that finds the level of the maximum distinct g-node.\<close>

fun mdg_loop :: "u32 list \<Rightarrow> u32 list \<Rightarrow> usize \<Rightarrow> (usize, peers_error) res" where
  "mdg_loop my_pos theirs 0 = Ok 0"
| "mdg_loop my_pos theirs (Suc level) =
     res_bind (index my_pos (Suc level)) (\<lambda>p. res_bind (index theirs (Suc level)) (\<lambda>q.
     if p = q then mdg_loop my_pos theirs level else Ok (Suc level)))"

definition fold_maps :: "usize \<Rightarrow> u32 \<Rightarrow> participant_maps \<Rightarrow> participant_maps" where
  "fold_maps mdg_lvl mdg_pos maps =
     (let mdg_services = map fst (filter (\<lambda>(_, m). \<exists>hc \<in> m. hc_level hc < mdg_lvl) maps);
          coarse = map (\<lambda>(p_id, m). (p_id, {hc \<in> m. mdg_lvl \<le> hc_level hc})) maps in
      fold (\<lambda>p_id. entry_insert p_id (HCoord mdg_lvl mdg_pos)) mdg_services coarse)"

definition fold_to_my_granularity :: "u32 list \<Rightarrow> usize \<Rightarrow> participant_set \<Rightarrow> (participant_set, peers_error) res" where
  "fold_to_my_granularity my_pos levels incoming =
     (if length my_pos \<noteq> levels \<or> length (ps_my_pos incoming) \<noteq> levels \<or> levels = 0 then Panic
      else
      res_bind (mdg_loop my_pos (ps_my_pos incoming) (levels - 1)) (\<lambda>mdg_lvl.
      res_bind (index (ps_my_pos incoming) mdg_lvl) (\<lambda>mdg_pos.
      Ok (incoming\<lparr>ps_maps := fold_maps mdg_lvl mdg_pos (ps_maps incoming)\<rparr>))))"

definition is_fresher :: "usize \<Rightarrow> participant_set \<Rightarrow> bool" where
  "is_fresher my_retrieved_below_level incoming \<longleftrightarrow> my_retrieved_below_level < ps_retrieved_below_level incoming"

subsection \<open>What coordinates and tuples denote\<close>

definition gnode :: "u32 list \<Rightarrow> hcoord \<Rightarrow> u32 list set" where
  "gnode my_pos h = {a. length a = length my_pos \<and> hc_level h < length my_pos \<and> a ! hc_level h = hc_pos h \<and>
     (\<forall>i. hc_level h < i \<and> i < length my_pos \<longrightarrow> a ! i = my_pos ! i)}"

definition tuple_members :: "u32 list \<Rightarrow> tuple_gnode \<Rightarrow> u32 list set" where
  "tuple_members my_pos g = {a. length a = length my_pos \<and>
     (\<forall>i. tg_level g \<le> i \<and> i < tg_top g \<longrightarrow> a ! i = tg_pos g ! (i - tg_level g)) \<and>
     (\<forall>i. tg_top g \<le> i \<and> i < length my_pos \<longrightarrow> a ! i = my_pos ! i)}"

text \<open>The level at which an address leaves mine, 0 when it never does; the coordinate of its g-node in my map.\<close>

definition mdg :: "u32 list \<Rightarrow> u32 list \<Rightarrow> nat" where
  "mdg my_pos a = Max (insert 0 {i. i < length my_pos \<and> my_pos ! i \<noteq> a ! i})"

definition coord_of :: "u32 list \<Rightarrow> u32 list \<Rightarrow> hcoord" where
  "coord_of my_pos a = HCoord (mdg my_pos a) (a ! mdg my_pos a)"

lemma mdg_eqI:
  assumes "k < length my_pos \<or> k = 0" "k = 0 \<or> my_pos ! k \<noteq> a ! k" "\<And>i. k < i \<Longrightarrow> i < length my_pos \<Longrightarrow> my_pos ! i = a ! i"
  shows "mdg my_pos a = k"
  unfolding mdg_def
  by (rule Max_eqI) (use assms in \<open>auto simp: not_less_eq_eq intro: leI\<close>)

lemma mdg_cases:
  shows "mdg my_pos a = 0 \<or> mdg my_pos a < length my_pos \<and> my_pos ! mdg my_pos a \<noteq> a ! mdg my_pos a"
    and "mdg my_pos a < i \<Longrightarrow> i < length my_pos \<Longrightarrow> my_pos ! i = a ! i"
proof -
  let ?S = "insert 0 {i. i < length my_pos \<and> my_pos ! i \<noteq> a ! i}"
  have fin: "finite ?S" by simp
  from Max_in [OF this] show "mdg my_pos a = 0 \<or> mdg my_pos a < length my_pos \<and> my_pos ! mdg my_pos a \<noteq> a ! mdg my_pos a"
    by (auto simp: mdg_def)
  show "mdg my_pos a < i \<Longrightarrow> i < length my_pos \<Longrightarrow> my_pos ! i = a ! i"
    using Max_ge [OF fin, of i] by (auto simp: mdg_def)
qed

lemma mdg_less: "0 < length my_pos \<Longrightarrow> mdg my_pos a < length my_pos"
  using mdg_cases(1) [of my_pos a] by auto

lemma coord_of_gnode: "length a = length my_pos \<Longrightarrow> 0 < length my_pos \<Longrightarrow> a \<in> gnode my_pos (coord_of my_pos a)"
  using mdg_less [of my_pos a] mdg_cases(2) [of my_pos a] by (auto simp: gnode_def coord_of_def)

lemma mdg_loop_run:
  assumes "length theirs = length my_pos" "n < length my_pos" "\<And>i. n < i \<Longrightarrow> i < length my_pos \<Longrightarrow> my_pos ! i = theirs ! i"
  shows "mdg_loop my_pos theirs n = Ok (mdg my_pos theirs)"
  using assms(2,3)
proof (induction n)
  case 0
  then show ?case using mdg_eqI [of 0 my_pos theirs] by simp
next
  case (Suc n)
  show ?case
  proof (cases "my_pos ! Suc n = theirs ! Suc n")
    case True
    then have "\<And>i. n < i \<Longrightarrow> i < length my_pos \<Longrightarrow> my_pos ! i = theirs ! i" using Suc.prems(2) by (metis Suc_lessI)
    then show ?thesis using True Suc.IH Suc.prems(1) assms(1) by simp
  next
    case False
    then have "mdg my_pos theirs = Suc n" using Suc.prems by (intro mdg_eqI) auto
    then show ?thesis using False Suc.prems(1) assms(1) by simp
  qed
qed

end
