(* ===== verification/Peers_Gossip.thy ===== *)
theory Peers_Gossip
  imports Peers_Participation
begin

section \<open>What re-expressed names and snapshots mean\<close>

text \<open>
  What a participation fact means, as a set of addresses, and that the conversions of facts and snapshots between the
  addresses of two nodes (\<open>participation.rs\<close>, \<open>gossip.rs\<close>) keep that meaning.
\<close>

subsection \<open>Tuples\<close>

text \<open>Where a tuple leaves my address, if it does.\<close>

lemma convert_cases:
  assumes "wf_tuple_gnode t g" "tg_top g \<le> length my_pos"
  obtains (mine) "convert_tuple_gnode my_pos g = Ok (Mine, HCoord (tg_level g) (tg_pos g ! 0))"
      "\<And>i. tg_level g \<le> i \<Longrightarrow> i < tg_top g \<Longrightarrow> my_pos ! i = tg_pos g ! (i - tg_level g)"
    | (leaves) k where "tg_level g \<le> k" "k < tg_top g" "my_pos ! k \<noteq> tg_pos g ! (k - tg_level g)"
      "\<And>i. k < i \<Longrightarrow> i < tg_top g \<Longrightarrow> my_pos ! i = tg_pos g ! (i - tg_level g)"
      "convert_tuple_gnode my_pos g =
         Ok (if k = tg_level g then Visible else Hidden, HCoord k (tg_pos g ! (k - tg_level g)))"
proof -
  let ?l = "tg_level g" let ?n = "length (tg_pos g)"
  have top: "tg_top g = ?l + ?n" and ne: "tg_pos g \<noteq> []" using assms(1) by (auto simp: wf_tuple_gnode_def tg_level_def)
  have spec: "convert_tuple_gnode my_pos g =
     (if \<forall>i < ?n. my_pos ! (?l + i) = tg_pos g ! i then Ok (Mine, HCoord ?l (tg_pos g ! 0))
      else let i = (GREATEST i. i < ?n \<and> my_pos ! (?l + i) \<noteq> tg_pos g ! i) in
        Ok (if i = 0 then Visible else Hidden, HCoord (?l + i) (tg_pos g ! i)))"
    unfolding convert_tuple_gnode_def using top assms(2) ne by (intro convert_loop_spec) auto
  show thesis
  proof (cases "\<forall>i < ?n. my_pos ! (?l + i) = tg_pos g ! i")
    case True
    have "my_pos ! i = tg_pos g ! (i - ?l)" if "?l \<le> i" "i < tg_top g" for i
      using True [rule_format, of "i - ?l"] that top by simp
    then show thesis using mine True spec by simp
  next
    case False
    let ?P = "\<lambda>i. i < ?n \<and> my_pos ! (?l + i) \<noteq> tg_pos g ! i" let ?i = "Greatest ?P"
    obtain j where "?P j" using False by auto
    then have i: "?P ?i" by (rule GreatestI_nat [of _ _ ?n]) simp
    have above: "my_pos ! m = tg_pos g ! (m - ?l)" if "?l + ?i < m" "m < tg_top g" for m
      using Greatest_le_nat [of ?P "m - ?l" ?n] that top by (cases "?P (m - ?l)") auto
    show thesis
      by (rule leaves [of "?l + ?i"]) (use i above spec False top in \<open>auto simp: Let_def\<close>)
  qed
qed

lemma wf_level_less: "wf_tuple_gnode t g \<Longrightarrow> tg_level g < tg_top g"
proof -
  assume "wf_tuple_gnode t g"
  then have "0 < length (tg_pos g)" "length (tg_pos g) \<le> tg_top g" by (auto simp: wf_tuple_gnode_def)
  then show ?thesis unfolding tg_level_def by arith
qed

text \<open>Both kinds of name fix the positions from a level on.\<close>

definition tuple_pos :: "u32 list \<Rightarrow> tuple_gnode \<Rightarrow> nat \<Rightarrow> u32" where
  "tuple_pos my_pos g i = (if i < tg_top g then tg_pos g ! (i - tg_level g) else my_pos ! i)"

definition coord_pos :: "u32 list \<Rightarrow> hcoord \<Rightarrow> nat \<Rightarrow> u32" where
  "coord_pos my_pos h i = (if i = hc_level h then hc_pos h else my_pos ! i)"

definition fixed_from :: "nat \<Rightarrow> nat \<Rightarrow> (nat \<Rightarrow> u32) \<Rightarrow> u32 list set" where
  "fixed_from n l f = {a. length a = n \<and> (\<forall>i. l \<le> i \<and> i < n \<longrightarrow> a ! i = f i)}"

lemma tuple_members_fixed:
  assumes "tg_level g < tg_top g" "tg_top g \<le> length my_pos"
  shows "tuple_members my_pos g = fixed_from (length my_pos) (tg_level g) (tuple_pos my_pos g)"
proof (intro equalityI subsetI)
  fix a assume "a \<in> tuple_members my_pos g"
  then show "a \<in> fixed_from (length my_pos) (tg_level g) (tuple_pos my_pos g)"
    by (simp add: tuple_members_def fixed_from_def tuple_pos_def)
next
  fix a assume "a \<in> fixed_from (length my_pos) (tg_level g) (tuple_pos my_pos g)"
  then have a: "length a = length my_pos" "\<And>i. tg_level g \<le> i \<Longrightarrow> i < length my_pos \<Longrightarrow> a ! i = tuple_pos my_pos g i"
    by (simp_all add: fixed_from_def)
  have "a ! i = my_pos ! i" if "tg_top g \<le> i" "i < length my_pos" for i
    using a(2) [of i] that assms by (simp add: tuple_pos_def)
  moreover have "a ! i = tg_pos g ! (i - tg_level g)" if "tg_level g \<le> i" "i < tg_top g" for i
    using a(2) [of i] that assms by (simp add: tuple_pos_def)
  ultimately show "a \<in> tuple_members my_pos g" using a(1) by (simp add: tuple_members_def)
qed

lemma gnode_fixed:
  assumes "hc_level h < length my_pos"
  shows "gnode my_pos h = fixed_from (length my_pos) (hc_level h) (coord_pos my_pos h)"
proof (intro equalityI subsetI)
  fix a assume "a \<in> gnode my_pos h"
  then show "a \<in> fixed_from (length my_pos) (hc_level h) (coord_pos my_pos h)"
    by (simp add: gnode_def fixed_from_def coord_pos_def)
next
  fix a assume "a \<in> fixed_from (length my_pos) (hc_level h) (coord_pos my_pos h)"
  then have a: "length a = length my_pos" "\<And>i. hc_level h \<le> i \<Longrightarrow> i < length my_pos \<Longrightarrow> a ! i = coord_pos my_pos h i"
    by (simp_all add: fixed_from_def)
  have "a ! i = my_pos ! i" if "hc_level h < i" "i < length my_pos" for i
    using a(2) [of i] that by (simp add: coord_pos_def)
  moreover have "a ! hc_level h = hc_pos h" using a(2) [of "hc_level h"] assms by (simp add: coord_pos_def)
  ultimately show "a \<in> gnode my_pos h" using a(1) assms by (simp add: gnode_def)
qed

lemma fixed_from_cong: "(\<And>i. l \<le> i \<Longrightarrow> i < n \<Longrightarrow> f i = g i) \<Longrightarrow> fixed_from n l f = fixed_from n l g"
  by (auto simp: fixed_from_def)

lemma fixed_from_mono: "l \<le> k \<Longrightarrow> (\<And>i. k \<le> i \<Longrightarrow> i < n \<Longrightarrow> f i = g i) \<Longrightarrow> fixed_from n l f \<subseteq> fixed_from n k g"
  by (auto simp: fixed_from_def)

lemma convert_meaning:
  assumes "wf_my_pos t my_pos" "wf_tuple_gnode t g"
  shows "\<exists>rel h. convert_tuple_gnode my_pos g = Ok (rel, h) \<and>
     (case rel of
        Mine \<Rightarrow> my_pos \<in> tuple_members my_pos g \<and> tuple_members my_pos g = gnode my_pos h
      | Visible \<Rightarrow> my_pos \<notin> gnode my_pos h \<and> tuple_members my_pos g = gnode my_pos h
      | Hidden \<Rightarrow> my_pos \<notin> gnode my_pos h \<and> tuple_members my_pos g \<subseteq> gnode my_pos h \<and> tg_level g < hc_level h)"
proof -
  have len: "tg_top g \<le> length my_pos" using assms by (simp add: wf_my_pos_def wf_tuple_gnode_def)
  have lt: "tg_level g < tg_top g" using assms(2) by (rule wf_level_less)
  note fixed = tuple_members_fixed [OF lt len]
  have whole: "tuple_members my_pos g = gnode my_pos (HCoord (tg_level g) (tg_pos g ! 0))"
    if same: "\<And>i. tg_level g < i \<Longrightarrow> i < tg_top g \<Longrightarrow> my_pos ! i = tg_pos g ! (i - tg_level g)"
  proof -
    let ?h = "HCoord (tg_level g) (tg_pos g ! 0)"
    have "fixed_from (length my_pos) (tg_level g) (tuple_pos my_pos g) = fixed_from (length my_pos) (tg_level g) (coord_pos my_pos ?h)"
      by (rule fixed_from_cong) (use lt same in \<open>simp add: tuple_pos_def coord_pos_def\<close>)
    moreover have "gnode my_pos ?h = fixed_from (length my_pos) (tg_level g) (coord_pos my_pos ?h)"
      using gnode_fixed [of ?h my_pos] lt len by simp
    ultimately show ?thesis by (simp only: fixed)
  qed
  show ?thesis using assms(2) len
  proof (cases rule: convert_cases)
    case mine
    have "my_pos \<in> tuple_members my_pos g" using mine(2) by (simp add: tuple_members_def)
    then show ?thesis using mine whole by simp
  next
    case (leaves k)
    let ?h = "HCoord k (tg_pos g ! (k - tg_level g))"
    have out: "my_pos \<notin> gnode my_pos ?h" using leaves(3) by (simp add: gnode_def)
    show ?thesis
    proof (cases "k = tg_level g")
      case True
      then show ?thesis using leaves(4,5) out whole by simp
    next
      case False
      have "tuple_pos my_pos g i = coord_pos my_pos ?h i" if "k \<le> i" for i
        using leaves(2) leaves(4) [of i] that by (simp add: tuple_pos_def coord_pos_def)
      then have "fixed_from (length my_pos) (tg_level g) (tuple_pos my_pos g) \<subseteq> fixed_from (length my_pos) k (coord_pos my_pos ?h)"
        using leaves(1) by (intro fixed_from_mono) auto
      moreover have "gnode my_pos ?h = fixed_from (length my_pos) k (coord_pos my_pos ?h)"
        using gnode_fixed [of ?h my_pos] leaves(2) len by simp
      ultimately have "tuple_members my_pos g \<subseteq> gnode my_pos ?h" by (simp add: fixed)
      then show ?thesis using leaves(1,5) out False by simp
    qed
  qed
qed

lemma make_tuple_gnode_members:
  assumes "wf_my_pos t my_pos" "coord_in t scope h" "make_tuple_gnode t my_pos h scope = Ok g"
  shows "tuple_members my_pos g = gnode my_pos h"
proof -
  have len: "hc_level h < scope" "scope \<le> length my_pos" using assms(1,2) by (auto simp: coord_in_def wf_my_pos_def)
  have g: "tg_top g = scope" "tg_level g = hc_level h" "tg_pos g = hc_pos h # drop (Suc (hc_level h)) (take scope my_pos)"
    using make_tuple_gnode_run [OF assms(1,2)] assms(3) by (metis res.inject(1))+
  have "tuple_pos my_pos g i = coord_pos my_pos h i" if "hc_level h \<le> i" for i
    using that len by (auto simp: tuple_pos_def coord_pos_def g nth_Cons')
  then have "fixed_from (length my_pos) (hc_level h) (tuple_pos my_pos g) = fixed_from (length my_pos) (hc_level h) (coord_pos my_pos h)"
    by (intro fixed_from_cong)
  then show ?thesis using tuple_members_fixed [of g my_pos] gnode_fixed [of h my_pos] len g(1,2) by simp
qed

lemma rebase_tuple_gnode_run:
  assumes "wf_my_pos t my_pos" "wf_tuple_gnode t g" "tg_top g \<le> new_top" "new_top \<le> length my_pos"
  obtains g' where "rebase_tuple_gnode my_pos g new_top = Ok g'" "wf_tuple_gnode t g'" "tg_top g' = new_top"
    "tg_level g' = tg_level g" "tuple_members my_pos g' = tuple_members my_pos g"
proof -
  let ?mine = "take (new_top - tg_top g) (drop (tg_top g) my_pos)"
  let ?g' = "\<lparr>tg_topology = t, tg_top = new_top, tg_pos = tg_pos g @ ?mine\<rparr>"
  have g: "tg_topology g = t" "tg_pos g \<noteq> []" "length (tg_pos g) \<le> tg_top g" "in_ranges t (tg_level g) (tg_pos g)"
    using assms(2) by (auto simp: wf_tuple_gnode_def)
  have lev: "tg_level ?g' = tg_level g" "tg_level g + length (tg_pos g) = tg_top g" using g(3) assms(3,4) by (simp_all add: tg_level_def)
  have "?mine = drop (tg_top g) (take new_top my_pos)" by (simp add: drop_take)
  then have "in_ranges t (tg_top g) ?mine" using my_pos_ranges [OF assms(1,3,4)] by simp
  then have r: "in_ranges t (tg_level g) (tg_pos g @ ?mine)" using g(4) lev(2) by (simp add: in_ranges_append)
  have wf: "wf_tuple_gnode t ?g'" using r lev g assms by (simp add: wf_tuple_gnode_def wf_my_pos_def)
  then have new: "tuple_gnode_new t new_top (tg_pos g @ ?mine) = Ok ?g'" by (simp add: tuple_gnode_new_Ok wf_tuple_gnode_def tg_level_def)
  have "tuple_pos my_pos ?g' i = tuple_pos my_pos g i" if "tg_level g \<le> i" for i
    using that lev assms(3,4) by (auto simp: tuple_pos_def nth_append)
  then have "fixed_from (length my_pos) (tg_level g) (tuple_pos my_pos ?g') = fixed_from (length my_pos) (tg_level g) (tuple_pos my_pos g)"
    by (intro fixed_from_cong)
  then have "tuple_members my_pos ?g' = tuple_members my_pos g"
    using tuple_members_fixed [of ?g' my_pos] tuple_members_fixed [of g my_pos] wf_level_less [OF wf] wf_level_less [OF assms(2)] lev assms(3,4)
    by simp
  moreover have "rebase_tuple_gnode my_pos g new_top = Ok ?g'"
    using new g(1) assms(3,4) by (simp add: rebase_tuple_gnode_def slice_def)
  ultimately show thesis using that wf lev by simp
qed

lemma tuple_gnode_containing_run:
  assumes "wf_tuple_gnode t g" "tg_level g \<le> lvl"
  shows "if lvl < tg_top g
    then \<exists>g'. tuple_gnode_containing g lvl = Ok g' \<and> wf_tuple_gnode t g' \<and> tg_top g' = tg_top g \<and> tg_level g' = lvl \<and>
      (tg_top g \<le> length my_pos \<longrightarrow> tuple_members my_pos g \<subseteq> tuple_members my_pos g')
    else tuple_gnode_containing g lvl = Err EmptyGNodeTuple"
proof (cases "lvl < tg_top g")
  case True
  let ?k = "lvl - tg_level g" let ?g' = "\<lparr>tg_topology = t, tg_top = tg_top g, tg_pos = drop ?k (tg_pos g)\<rparr>"
  have g: "tg_topology g = t" "length (tg_pos g) \<le> tg_top g" "in_ranges t (tg_level g) (tg_pos g)" "tg_top g \<le> length (gsizes t)"
    using assms(1) by (auto simp: wf_tuple_gnode_def)
  have k: "?k < length (tg_pos g)" "tg_level g + length (tg_pos g) = tg_top g" using True assms(2) g(2) by (auto simp: tg_level_def)
  have lev: "tg_level ?g' = lvl" using k assms(2) by (simp add: tg_level_def [of ?g'])
  have r: "in_ranges t lvl (drop ?k (tg_pos g))" using in_ranges_drop [OF g(3), of ?k] k assms(2) by simp
  have wf: "wf_tuple_gnode t ?g'" using r lev g k by (simp add: wf_tuple_gnode_def)
  then have "tuple_gnode_containing g lvl = Ok ?g'"
    using g(1) k assms(2) True by (simp add: tuple_gnode_containing_def tuple_gnode_new_Ok wf_tuple_gnode_def tg_level_def min_def)
  moreover have "tuple_members my_pos g \<subseteq> tuple_members my_pos ?g'" if "tg_top g \<le> length my_pos"
  proof -
    have "tuple_pos my_pos g i = tuple_pos my_pos ?g' i" if "lvl \<le> i" for i
      using that k assms(2) by (simp add: tuple_pos_def lev)
    then have "fixed_from (length my_pos) (tg_level g) (tuple_pos my_pos g) \<subseteq> fixed_from (length my_pos) lvl (tuple_pos my_pos ?g')"
      using assms(2) by (intro fixed_from_mono) auto
    then show ?thesis
      using tuple_members_fixed [of ?g' my_pos] tuple_members_fixed [of g my_pos] wf_level_less [OF wf] wf_level_less [OF assms(1)] lev that
      by simp
  qed
  ultimately show ?thesis using True wf lev by auto
next
  case False
  have "length (tg_pos g) \<le> lvl - tg_level g" using False assms by (auto simp: wf_tuple_gnode_def tg_level_def)
  then show ?thesis using False assms(2) by (simp add: tuple_gnode_containing_def tuple_gnode_new_def)
qed

subsection \<open>Snapshots\<close>

text \<open>A map kept at \<open>my_pos\<close> is sound when every fact in it is true: some participant of the service lies in
  the g-node. It is complete between two levels when every participant whose g-node in my map has such a
  level is recorded.\<close>

definition maps_sound :: "(service_id \<Rightarrow> u32 list set) \<Rightarrow> u32 list \<Rightarrow> participant_maps \<Rightarrow> bool" where
  "maps_sound P my_pos maps \<longleftrightarrow> (\<forall>p m h. map_of maps p = Some m \<longrightarrow> h \<in> m \<longrightarrow> P p \<inter> gnode my_pos h \<noteq> {})"

definition recorded :: "participant_maps \<Rightarrow> service_id \<Rightarrow> hcoord set" where
  "recorded maps p = (case map_of maps p of None \<Rightarrow> {} | Some m \<Rightarrow> m)"

definition maps_complete :: "(service_id \<Rightarrow> u32 list set) \<Rightarrow> u32 list \<Rightarrow> nat \<Rightarrow> nat \<Rightarrow> participant_maps \<Rightarrow> bool" where
  "maps_complete P my_pos lo hi maps \<longleftrightarrow>
     (\<forall>p a. a \<in> P p \<longrightarrow> length a = length my_pos \<longrightarrow> lo \<le> mdg my_pos a \<longrightarrow> mdg my_pos a < hi \<longrightarrow> coord_of my_pos a \<in> recorded maps p)"

lemma maps_sound_recorded: "maps_sound P my_pos maps \<longleftrightarrow> (\<forall>p. \<forall>h \<in> recorded maps p. P p \<inter> gnode my_pos h \<noteq> {})"
  by (auto simp: maps_sound_def recorded_def split: option.splits)

lemma recorded_entry_insert:
  "bt_wf maps \<Longrightarrow> recorded (entry_insert p h maps) q = (if q = p then insert h (recorded maps p) else recorded maps q)"
  by (auto simp: recorded_def entry_insert_def bt.get_insert)

lemma bt_wf_entry_insert: "bt_wf maps \<Longrightarrow> bt_wf (entry_insert p h maps)"
  by (simp add: entry_insert_def bt.wf_insert)

lemma fold_entry_insert:
  "bt_wf maps \<Longrightarrow> bt_wf (fold (\<lambda>p. entry_insert p h) ps maps) \<and>
     recorded (fold (\<lambda>p. entry_insert p h) ps maps) q = (if q \<in> set ps then insert h (recorded maps q) else recorded maps q)"
  by (induction ps arbitrary: maps) (auto simp: recorded_entry_insert bt_wf_entry_insert)

lemma map_of_map_values: "map_of (map (\<lambda>(k, v). (k, f v)) m) k = map_option f (map_of m k)"
  by (induction m) auto

lemma fold_maps_recorded:
  assumes "bt_wf maps"
  shows "bt_wf (fold_maps l x maps)"
    and "recorded (fold_maps l x maps) p = {h \<in> recorded maps p. l \<le> hc_level h} \<union>
      (if \<exists>h \<in> recorded maps p. hc_level h < l then {HCoord l x} else {})"
proof -
  let ?services = "map fst (filter (\<lambda>(_, m). \<exists>hc \<in> m. hc_level hc < l) maps)"
  let ?coarse = "map (\<lambda>(p, m). (p, {hc \<in> m. l \<le> hc_level hc})) maps"
  have wf: "bt_wf ?coarse" using assms by (simp add: bt_wf_def comp_def case_prod_beta)
  have mem: "p \<in> set ?services \<longleftrightarrow> (\<exists>h \<in> recorded maps p. hc_level h < l)" for p
    using bt.entry_iff_get [OF assms] by (force simp: recorded_def split: option.splits)
  have rec: "recorded ?coarse p = {h \<in> recorded maps p. l \<le> hc_level h}" for p
    by (auto simp: recorded_def map_of_map_values split: option.splits)
  show "bt_wf (fold_maps l x maps)" using fold_entry_insert [OF wf] by (simp add: fold_maps_def)
  show "recorded (fold_maps l x maps) p = {h \<in> recorded maps p. l \<le> hc_level h} \<union>
      (if \<exists>h \<in> recorded maps p. hc_level h < l then {HCoord l x} else {})"
    using fold_entry_insert [OF wf, of "HCoord l x" ?services p] unfolding mem rec by (simp add: fold_maps_def Let_def)
qed

text \<open>Re-expressing a snapshot: the facts that leave my address and the sender's at the same level are kept,
  the deeper ones become one fact about the sender's g-node.\<close>

lemma gnode_same_above:
  "length b = length a \<Longrightarrow> (\<And>i. hc_level h < i \<Longrightarrow> i < length a \<Longrightarrow> a ! i = b ! i) \<Longrightarrow> gnode a h = gnode b h"
  by (auto simp: gnode_def)

lemma fold_maps_sound:
  assumes "bt_wf maps" "length sender = length my_pos" "0 < length my_pos" "maps_sound P sender maps"
  shows "maps_sound P my_pos (fold_maps (mdg my_pos sender) (sender ! mdg my_pos sender) maps)"
  unfolding maps_sound_recorded
proof (intro allI ballI)
  let ?k = "mdg my_pos sender"
  fix p h assume h: "h \<in> recorded (fold_maps ?k (sender ! ?k) maps) p"
  have true: "P p \<inter> gnode sender h' \<noteq> {}" if "h' \<in> recorded maps p" for h'
    using assms(4) that by (simp add: maps_sound_recorded)
  have above: "my_pos ! i = sender ! i" if "?k < i" "i < length my_pos" for i using mdg_cases(2) that .
  from h consider "h \<in> recorded maps p" "?k \<le> hc_level h" |
    h' where "h' \<in> recorded maps p" "hc_level h' < ?k" "h = HCoord ?k (sender ! ?k)"
    by (auto simp: fold_maps_recorded(2) [OF assms(1)] split: if_splits)
  then show "P p \<inter> gnode my_pos h \<noteq> {}"
  proof cases
    case 1
    then have "gnode my_pos h = gnode sender h" using assms(2) above by (intro gnode_same_above) auto
    then show ?thesis using true 1 by simp
  next
    case 2
    from true [OF 2(1)] obtain a where "a \<in> P p" "a \<in> gnode sender h'" by auto
    moreover then have "a \<in> gnode my_pos h" using 2(2,3) assms(2) above mdg_less [OF assms(3)] by (auto simp: gnode_def)
    ultimately show ?thesis by auto
  qed
qed

lemma fold_maps_complete:
  assumes "bt_wf maps" "length sender = length my_pos" "0 < length my_pos" "maps_complete P sender 0 r maps"
  shows "maps_complete P my_pos (mdg my_pos sender) r (fold_maps (mdg my_pos sender) (sender ! mdg my_pos sender) maps)"
  unfolding maps_complete_def
proof (intro allI impI)
  let ?k = "mdg my_pos sender"
  fix p a assume a: "a \<in> P p" "length a = length my_pos" "?k \<le> mdg my_pos a" "mdg my_pos a < r"
  let ?l = "mdg my_pos a" let ?j = "mdg sender a"
  have above: "my_pos ! i = sender ! i" if "?k < i" "i < length my_pos" for i using mdg_cases(2) that .
  have lt: "?l < length my_pos" using mdg_less [OF assms(3)] .
  have "sender ! i = a ! i" if "?l < i" "i < length sender" for i
    using mdg_cases(2) [of my_pos a i] above [of i] that a(3) assms(2) by simp
  then have j: "?j \<le> ?l"
    using mdg_cases(1) [of sender a] by (metis leI less_nat_zero_code)
  then have rec: "HCoord ?j (a ! ?j) \<in> recorded maps p"
    using assms(2,4) a by (auto simp: maps_complete_def coord_of_def)
  have "HCoord ?l (a ! ?l) \<in> recorded (fold_maps ?k (sender ! ?k) maps) p"
  proof (cases "?k \<le> ?j")
    case True
    have "?j = ?l"
    proof (rule ccontr)
      assume "?j \<noteq> ?l"
      then have "?j < ?l" "?k < ?l" using j True by auto
      then have "my_pos ! ?l = a ! ?l" using mdg_cases(2) [of sender a ?l] above [of ?l] lt assms(2) by simp
      then show False using mdg_cases(1) [of my_pos a] \<open>?j < ?l\<close> by simp
    qed
    then show ?thesis using rec True by (simp add: fold_maps_recorded(2) [OF assms(1)])
  next
    case False
    have "?l = ?k"
    proof (rule ccontr)
      assume "?l \<noteq> ?k"
      then have "?j < ?l" "?k < ?l" using a(3) False by auto
      then have "my_pos ! ?l = a ! ?l" using mdg_cases(2) [of sender a ?l] above [of ?l] lt assms(2) by simp
      then show False using mdg_cases(1) [of my_pos a] \<open>?j < ?l\<close> by simp
    qed
    moreover have "a ! ?k = sender ! ?k" using mdg_cases(2) [of sender a ?k] False mdg_less [OF assms(3)] assms(2) by simp
    ultimately show ?thesis using rec False by (force simp: fold_maps_recorded(2) [OF assms(1)])
  qed
  then show "coord_of my_pos a \<in> recorded (fold_maps ?k (sender ! ?k) maps) p" by (simp add: coord_of_def)
qed

lemma fold_to_my_granularity_run:
  assumes "length my_pos = levels" "length (ps_my_pos inc) = levels" "0 < levels"
  shows "fold_to_my_granularity my_pos levels inc =
     Ok (inc\<lparr>ps_maps := fold_maps (mdg my_pos (ps_my_pos inc)) (ps_my_pos inc ! mdg my_pos (ps_my_pos inc)) (ps_maps inc)\<rparr>)"
proof -
  have "mdg_loop my_pos (ps_my_pos inc) (levels - 1) = Ok (mdg my_pos (ps_my_pos inc))"
    using assms by (intro mdg_loop_run) auto
  moreover have "mdg my_pos (ps_my_pos inc) < levels" using mdg_less [of my_pos] assms by simp
  ultimately show ?thesis using assms by (simp add: fold_to_my_granularity_def)
qed

lemma fold_maps_again:
  assumes "bt_wf maps"
  shows "recorded (fold_maps l x (fold_maps l x maps)) p = recorded (fold_maps l x maps) p"
  using fold_maps_recorded(2) [OF assms, of l x p] fold_maps_recorded(2) [OF fold_maps_recorded(1) [OF assms], of l x l x p]
  by (auto split: if_splits)

end
