(* ===== verification/Ntk_Auth.thy ===== *)
theory Ntk_Auth
  imports Ntk_Domain Ntk_Maps
begin

section \<open>Sender authentication (\<open>ntk-proto/src/auth.rs\<close>, \<open>ntk-peerservices/src/origin_auth.rs\<close>)\<close>

text \<open>
  The bytes a signature covers, the sign and verify helpers, and the bounded replay guard. \<open>ed25519-dalek\<close>
  and \<open>blake3\<close> are parameters: \<open>sign_raw\<close> and \<open>verify_raw\<close> are the scheme, \<open>public_key\<close> a signing key's
  verifying key, \<open>key_ok\<close> says whether 32 bytes are a valid key, \<open>blake3\<close> is the digest of a byte
  sequence. A \<open>String\<close> is the list of its bytes as characters. The guard's clock counts calls, so it is a
  natural number.
\<close>

unbundle bit_operations_syntax

datatype auth_error =
    BadKeyLength usize
  | BadSignatureLength usize
  | MalformedKey
  | SignatureMismatch
  | Replayed u64 u64

record auth_msg =
  auth_signer_key :: "u8 list"
  auth_sequence :: u64
  auth_signature :: "u8 list"

text \<open>\<open>to_le_bytes\<close> of an integer of \<open>n\<close> bytes, and \<open>as_bytes\<close>.\<close>

definition to_le_bytes :: "nat \<Rightarrow> 'a::len word \<Rightarrow> u8 list" where
  "to_le_bytes n w = map (\<lambda>i. ucast (drop_bit (8 * i) w)) [0..<n]"

definition as_bytes :: "string \<Rightarrow> u8 list" where
  "as_bytes s = map of_char s"

definition le32_len :: "'a list \<Rightarrow> u8 list" where
  "le32_len xs = to_le_bytes 4 (word_of_nat (length xs) :: u32)"

definition DOMAIN_TAG :: "u8 list" where
  "DOMAIN_TAG = as_bytes (''netsukuku-rs/v1/rpc-auth'' @ [CHR 0x00])"

definition digest_input :: "string \<Rightarrow> u8 list \<Rightarrow> u8 list" where
  "digest_input method bytes = le32_len method @ as_bytes method @ le32_len bytes @ bytes"

definition auth_digest :: "(u8 list \<Rightarrow> u8 list) \<Rightarrow> string \<Rightarrow> u8 list \<Rightarrow> u8 list" where
  "auth_digest blake3 method bytes = blake3 (digest_input method bytes)"

definition signing_bytes :: "(u8 list \<Rightarrow> u8 list) \<Rightarrow> string \<Rightarrow> u8 list \<Rightarrow> u64 \<Rightarrow> u8 list" where
  "signing_bytes blake3 method bytes sequence =
     DOMAIN_TAG @ auth_digest blake3 method bytes @ to_le_bytes 8 sequence"

definition sign_auth ::
  "(u8 list \<Rightarrow> u8 list) \<Rightarrow> ('sk \<Rightarrow> u8 list) \<Rightarrow> ('sk \<Rightarrow> u8 list \<Rightarrow> u8 list) \<Rightarrow> 'sk \<Rightarrow> u64 \<Rightarrow> string \<Rightarrow> u8 list \<Rightarrow> auth_msg" where
  "sign_auth blake3 public_key sign_raw signing_key sequence method bytes =
     \<lparr>auth_signer_key = public_key signing_key, auth_sequence = sequence,
      auth_signature = sign_raw signing_key (signing_bytes blake3 method bytes sequence)\<rparr>"

definition verify_auth ::
  "(u8 list \<Rightarrow> u8 list) \<Rightarrow> (u8 list \<Rightarrow> bool) \<Rightarrow> (u8 list \<Rightarrow> u8 list \<Rightarrow> u8 list \<Rightarrow> bool) \<Rightarrow> auth_msg \<Rightarrow> string \<Rightarrow> u8 list
    \<Rightarrow> (u8 list, auth_error) res" where
  "verify_auth blake3 key_ok verify_raw auth method bytes =
     (if length (auth_signer_key auth) \<noteq> 32 then Err (BadKeyLength (length (auth_signer_key auth)))
      else if length (auth_signature auth) \<noteq> 64 then Err (BadSignatureLength (length (auth_signature auth)))
      else if \<not> key_ok (auth_signer_key auth) then Err MalformedKey
      else if \<not> verify_raw (auth_signer_key auth) (signing_bytes blake3 method bytes (auth_sequence auth)) (auth_signature auth)
      then Err SignatureMismatch
      else Ok (auth_signer_key auth))"

definition ORIGIN_AUTH_METHOD :: string where
  "ORIGIN_AUTH_METHOD = ''ntk-peerservices/v1/origin-request''"

definition origin_signing_payload :: "u32 list \<Rightarrow> 16 word \<Rightarrow> typed_value_msg \<Rightarrow> u8 list" where
  "origin_signing_payload client_tuple p_id request =
     le32_len client_tuple @ concat (map (to_le_bytes 4) client_tuple) @ to_le_bytes 2 p_id @
     le32_len (type_tag request) @ as_bytes (type_tag request) @ le32_len (payload request) @ payload request"

subsection \<open>The replay guard\<close>

definition DEFAULT_MAX_SIGNERS :: usize where
  "DEFAULT_MAX_SIGNERS = 4096"

record sequence_guard =
  sg_max_signers :: usize
  sg_clock :: nat
  sg_seen :: "(u8 list, u64 \<times> nat) hash_map"

definition sequence_guard_with_capacity :: "usize \<Rightarrow> sequence_guard" where
  "sequence_guard_with_capacity max_signers = \<lparr>sg_max_signers = max max_signers 1, sg_clock = 0, sg_seen = []\<rparr>"

definition sequence_guard_new :: sequence_guard where
  "sequence_guard_new = sequence_guard_with_capacity DEFAULT_MAX_SIGNERS"

definition evict_oldest :: "sequence_guard \<Rightarrow> (u8 list, u64 \<times> nat) hash_map" where
  "evict_oldest g =
     (if sg_max_signers g \<le> length (sg_seen g)
      then case min_by_key (\<lambda>(_, _, touched). touched) (sg_seen g) of
             Some (oldest, _) \<Rightarrow> hm_remove oldest (sg_seen g)
           | None \<Rightarrow> sg_seen g
      else sg_seen g)"

definition observe :: "u8 list \<Rightarrow> u64 \<Rightarrow> sequence_guard \<Rightarrow> (unit, auth_error) res \<times> sequence_guard" where
  "observe signer sequence g =
     (let clock = sg_clock g + 1; g1 = g\<lparr>sg_clock := clock\<rparr> in
      case map_of (sg_seen g) signer of
        Some (last_seen, touched) \<Rightarrow>
          if sequence \<le> last_seen then (Err (Replayed sequence last_seen), g1)
          else (Ok (), g1\<lparr>sg_seen := hm_insert signer (sequence, clock) (sg_seen g)\<rparr>)
      | None \<Rightarrow> (Ok (), g1\<lparr>sg_seen := hm_insert signer (sequence, clock) (evict_oldest g)\<rparr>))"

text \<open>A sequence of calls, with their outcomes.\<close>

fun observe_all :: "(u8 list \<times> u64) list \<Rightarrow> sequence_guard \<Rightarrow> (u8 list \<times> u64) list \<times> sequence_guard" where
  "observe_all [] g = ([], g)"
| "observe_all ((signer, sequence) # calls) g =
     (case observe signer sequence g of (r, g') \<Rightarrow>
      case observe_all calls g' of (accepted, g'') \<Rightarrow>
        ((if r = Ok () then [(signer, sequence)] else []) @ accepted, g''))"

subsection \<open>The encodings are unambiguous\<close>

lemma length_to_le_bytes [simp]: "length (to_le_bytes n w) = n"
  by (simp add: to_le_bytes_def)

lemma to_le_bytes_inj:
  assumes "to_le_bytes n v = to_le_bytes n w" "LENGTH('a) \<le> 8 * n"
  shows "(v :: 'a::len word) = w"
proof (rule bit_word_eqI)
  fix j assume j: "j < LENGTH('a)"
  let ?i = "j div 8"
  have i: "?i < n" using j assms(2) by (simp add: less_mult_imp_div_less mult.commute)
  have byte: "ucast (drop_bit (8 * ?i) v) = (ucast (drop_bit (8 * ?i) w) :: u8)"
    using arg_cong [OF assms(1), of "\<lambda>bs. bs ! ?i"] i by (simp add: to_le_bytes_def)
  have at: "bit (ucast (drop_bit (8 * ?i) u) :: u8) (j mod 8) = bit u j" for u :: "'a word"
    by (simp add: bit_ucast_iff bit_drop_bit_eq)
  show "bit v j = bit w j" using arg_cong [OF byte, of "\<lambda>b. bit b (j mod 8)"] by (simp only: at)
qed

lemma as_bytes_inj: "as_bytes s = as_bytes s' \<Longrightarrow> s = s'"
proof -
  have "inj (of_char :: char \<Rightarrow> u8)"
  proof (rule injI)
    fix c d :: char assume "(of_char c :: u8) = of_char d"
    then have "(of_nat (of_char c) :: u8) = of_nat (of_char d)" by (simp only: of_nat_of_char)
    then have "unat (of_nat (of_char c) :: u8) = unat (of_nat (of_char d) :: u8)" by simp
    then have "(of_char c :: nat) mod 256 = of_char d mod 256" by (simp only: unat_of_nat) simp
    then have "char_of (of_char c mod 256 :: nat) = char_of (of_char d mod 256 :: nat)" by simp
    then show "c = d" by simp
  qed
  then show "as_bytes s = as_bytes s' \<Longrightarrow> s = s'" by (simp add: as_bytes_def map_injective)
qed

text \<open>Two lists that a length field precedes differ before their ends do.\<close>

lemma le32_len_inj:
  assumes "le32_len xs = le32_len ys" "length xs < 2 ^ 32" "length ys < 2 ^ 32"
  shows "length xs = length ys"
proof -
  have "(word_of_nat (length xs) :: u32) = word_of_nat (length ys)"
    using to_le_bytes_inj [of 4 "word_of_nat (length xs) :: u32" "word_of_nat (length ys)"] assms(1) by (simp add: le32_len_def)
  then have "unat (word_of_nat (length xs) :: u32) = unat (word_of_nat (length ys) :: u32)" by simp
  then show ?thesis using assms(2,3) by (simp add: unat_of_nat)
qed

lemma length_le32_len [simp]: "length (le32_len xs) = 4"
  by (simp add: le32_len_def)

lemma framed_inj:
  assumes "le32_len xs @ f xs @ r = le32_len ys @ f ys @ s" "length xs < 2 ^ 32" "length ys < 2 ^ 32"
    and "\<And>zs. length (f zs) = k * length zs" "\<And>us vs. length us = length vs \<Longrightarrow> f us = f vs \<Longrightarrow> us = vs"
  shows "xs = ys \<and> r = s"
proof -
  from assms(1) have "le32_len xs = le32_len ys" "f xs @ r = f ys @ s" by auto
  moreover have len: "length xs = length ys" using le32_len_inj calculation(1) assms(2,3) by blast
  ultimately have "f xs = f ys \<and> r = s" using assms(4) by (metis append_eq_append_conv)
  then show ?thesis using assms(5) len by blast
qed

lemma concat_le_bytes_inj:
  "length us = length vs \<Longrightarrow> concat (map (to_le_bytes 4) us) = concat (map (to_le_bytes 4) vs) \<Longrightarrow> (us :: u32 list) = vs"
  by (induction us vs rule: list_induct2) (auto dest: to_le_bytes_inj)

lemma length_concat_le_bytes: "length (concat (map (to_le_bytes 4) (us :: u32 list))) = 4 * length us"
  by (induction us) auto

lemma digest_input_inj:
  assumes "digest_input m p = digest_input m' p'"
    and "length m < 2 ^ 32" "length m' < 2 ^ 32" "length p < 2 ^ 32" "length p' < 2 ^ 32"
  shows "m = m' \<and> p = p'"
proof -
  have 1: "m = m' \<and> le32_len p @ p = le32_len p' @ p'"
    using framed_inj [of m as_bytes "le32_len p @ p" m' "le32_len p' @ p'" 1] assms
    by (simp add: digest_input_def as_bytes_inj) (simp add: as_bytes_def)
  then have "p = p' \<and> [] = ([] :: u8 list)"
    using framed_inj [of p id "[]" p' "[]" 1] assms(4,5) by simp
  with 1 show ?thesis by simp
qed

text \<open>The bytes an origin signature covers determine the claimed client position, the service and the
  request: a signature for one request never covers another.\<close>

theorem origin_signing_payload_inj:
  assumes "length c < 2 ^ 32" "length c' < 2 ^ 32" "length (type_tag q) < 2 ^ 32" "length (type_tag q') < 2 ^ 32"
    and "length (payload q) < 2 ^ 32" "length (payload q') < 2 ^ 32"
  shows "origin_signing_payload c p q = origin_signing_payload c' p' q' \<longleftrightarrow> c = c' \<and> p = p' \<and> q = q'"
proof
  let ?tail = "\<lambda>q. le32_len (type_tag q) @ as_bytes (type_tag q) @ le32_len (payload q) @ payload q"
  assume eq: "origin_signing_payload c p q = origin_signing_payload c' p' q'"
  have 1: "c = c' \<and> to_le_bytes 2 p @ ?tail q = to_le_bytes 2 p' @ ?tail q'"
    using framed_inj [of c "\<lambda>c. concat (map (to_le_bytes 4) c)" "to_le_bytes 2 p @ ?tail q" c' "to_le_bytes 2 p' @ ?tail q'" 4]
      eq assms(1,2) concat_le_bytes_inj by (simp add: origin_signing_payload_def length_concat_le_bytes)
  then have 2: "to_le_bytes 2 p = to_le_bytes 2 p'" "digest_input (type_tag q) (payload q) = digest_input (type_tag q') (payload q')"
    by (simp_all add: digest_input_def)
  have "p = p'" using to_le_bytes_inj [OF 2(1)] by simp
  moreover have "type_tag q = type_tag q' \<and> payload q = payload q'" using digest_input_inj [OF 2(2)] assms(3-6) by simp
  ultimately show "c = c' \<and> p = p' \<and> q = q'" using 1 by simp
qed simp

theorem origin_signing_payload_inj_witness:
  "origin_signing_payload [1] 1 \<lparr>type_tag = ''x'', payload = [121]\<rparr> \<noteq> origin_signing_payload [1] 1 \<lparr>type_tag = ''xy'', payload = []\<rparr>"
  using origin_signing_payload_inj [of "[1]" "[1]" "\<lparr>type_tag = ''x'', payload = [121]\<rparr>" "\<lparr>type_tag = ''xy'', payload = []\<rparr>" 1 1] by simp

text \<open>What the helpers rely on of \<open>ed25519-dalek\<close>.\<close>

definition ed25519_ok ::
  "('sk \<Rightarrow> u8 list) \<Rightarrow> ('sk \<Rightarrow> u8 list \<Rightarrow> u8 list) \<Rightarrow> (u8 list \<Rightarrow> bool) \<Rightarrow> (u8 list \<Rightarrow> u8 list \<Rightarrow> u8 list \<Rightarrow> bool) \<Rightarrow> bool" where
  "ed25519_ok public_key sign_raw key_ok verify_raw \<longleftrightarrow>
     (\<forall>sk. length (public_key sk) = 32 \<and> key_ok (public_key sk) \<and>
        (\<forall>bytes. length (sign_raw sk bytes) = 64 \<and> verify_raw (public_key sk) bytes (sign_raw sk bytes)))"

text \<open>C39: what \<open>sign\<close> produced verifies for the same call and yields the signer, and whenever the bytes signed
  for one call equal those of another, the two are the same call at the same sequence, or BLAKE3 collides.\<close>

theorem sign_verify_roundtrip:
  assumes "ed25519_ok public_key sign_raw key_ok verify_raw"
    and "length m < 2 ^ 32" "length m' < 2 ^ 32" "length p < 2 ^ 32" "length p' < 2 ^ 32"
    and "length (blake3 (digest_input m p)) = length (blake3 (digest_input m' p'))"
  shows "verify_auth blake3 key_ok verify_raw (sign_auth blake3 public_key sign_raw sk seq m p) m p = Ok (public_key sk)
    \<and> (signing_bytes blake3 m p seq = signing_bytes blake3 m' p' seq' \<longrightarrow>
        seq = seq' \<and> (m = m' \<and> p = p' \<or> digest_input m p \<noteq> digest_input m' p' \<and> blake3 (digest_input m p) = blake3 (digest_input m' p')))"
proof
  show "verify_auth blake3 key_ok verify_raw (sign_auth blake3 public_key sign_raw sk seq m p) m p = Ok (public_key sk)"
    using assms(1) by (simp add: verify_auth_def sign_auth_def ed25519_ok_def)
  show "signing_bytes blake3 m p seq = signing_bytes blake3 m' p' seq' \<longrightarrow>
        seq = seq' \<and> (m = m' \<and> p = p' \<or> digest_input m p \<noteq> digest_input m' p' \<and> blake3 (digest_input m p) = blake3 (digest_input m' p'))"
  proof
    assume "signing_bytes blake3 m p seq = signing_bytes blake3 m' p' seq'"
    then have "blake3 (digest_input m p) = blake3 (digest_input m' p')" "to_le_bytes 8 seq = to_le_bytes 8 seq'"
      using assms(6) by (simp_all add: signing_bytes_def auth_digest_def)
    moreover have "seq = seq'" using to_le_bytes_inj [OF calculation(2)] by simp
    ultimately show "seq = seq' \<and> (m = m' \<and> p = p' \<or> digest_input m p \<noteq> digest_input m' p' \<and> blake3 (digest_input m p) = blake3 (digest_input m' p'))"
      using digest_input_inj assms(2-5) by blast
  qed
qed

text \<open>A scheme that signs a message with its first 64 bytes, and a digest that keeps 32.\<close>

definition example_take :: "nat \<Rightarrow> u8 list \<Rightarrow> u8 list" where
  "example_take n bs = take n (bs @ replicate n 0)"

lemma example_scheme:
  "ed25519_ok (\<lambda>_ :: unit. replicate 32 7) (\<lambda>_. example_take 64) (\<lambda>_. True) (\<lambda>_ bytes sig. sig = example_take 64 bytes)"
  by (simp add: ed25519_ok_def example_take_def min_def)

theorem sign_verify_roundtrip_witness:
  "verify_auth (example_take 32) (\<lambda>_. True) (\<lambda>_ bytes sig. sig = example_take 64 bytes)
     (sign_auth (example_take 32) (\<lambda>_ :: unit. replicate 32 7) (\<lambda>_. example_take 64) () 5 ''m'' [1]) ''m'' [1] = Ok (replicate 32 7)
   \<and> signing_bytes (example_take 32) ''m'' [1] 5 \<noteq> signing_bytes (example_take 32) ''m'' [1] 6"
  using sign_verify_roundtrip [OF example_scheme, of "''m''" "''m''" "[1]" "[1]" "example_take 32" "()" 5 6] by auto

subsection \<open>No replay\<close>

definition guard_ok :: "sequence_guard \<Rightarrow> bool" where
  "guard_ok g \<longleftrightarrow> hm_wf (sg_seen g) \<and> length (sg_seen g) \<le> sg_max_signers g \<and> 0 < sg_max_signers g"

lemma keys_hm_insert: "fst ` set (hm_insert k v m) = insert k (fst ` set m)"
  by (simp add: hm_insert_def dom_update)

lemma length_hm: "hm_wf m \<Longrightarrow> length m = card (fst ` set m)"
  using distinct_card [of "map fst m"] by (simp add: hm_wf_def)

lemma evict_oldest_room:
  assumes "guard_ok g"
  shows "hm_wf (evict_oldest g) \<and> length (evict_oldest g) < sg_max_signers g \<and> fst ` set (evict_oldest g) \<subseteq> fst ` set (sg_seen g)"
proof (cases "sg_max_signers g \<le> length (sg_seen g)")
  case True
  then have "sg_seen g \<noteq> []" using assms by (auto simp: guard_ok_def)
  then obtain k v where k: "min_by_key (\<lambda>(_, _, touched). touched) (sg_seen g) = Some (k, v)"
    using min_by_key_total [of "sg_seen g"] by (metis surj_pair)
  have mem: "(k, v) \<in> set (sg_seen g)" using min_by_key_SomeD [OF k] by simp
  have "hm_wf (sg_seen g)" using assms by (simp add: guard_ok_def)
  then have wf: "hm_wf (hm_remove k (sg_seen g))" by (rule hm.wf_remove)
  have keys: "fst ` set (hm_remove k (sg_seen g)) = fst ` set (sg_seen g) - {k}" 
    using arg_cong [OF delete_keys [of k "sg_seen g"], of set] by (simp add: hm_remove_def)
  have "card (fst ` set (sg_seen g) - {k}) < card (fst ` set (sg_seen g))"
    using mem by (intro psubset_card_mono) force+
  then have "length (hm_remove k (sg_seen g)) < length (sg_seen g)"
    using length_hm [OF wf] length_hm [of "sg_seen g"] assms keys by (simp add: guard_ok_def)
  then show ?thesis using True wf keys k assms by (auto simp: evict_oldest_def guard_ok_def)
next
  case False
  then show ?thesis using assms by (simp add: evict_oldest_def guard_ok_def)
qed

lemma observe_ok:
  assumes "guard_ok g"
  shows "guard_ok (snd (observe k s g)) \<and> sg_max_signers (snd (observe k s g)) = sg_max_signers g"
proof (cases "map_of (sg_seen g) k")
  case None
  have e: "hm_wf (evict_oldest g)" "length (evict_oldest g) < sg_max_signers g" using evict_oldest_room [OF assms] by simp_all
  have "length (hm_insert k v (evict_oldest g)) \<le> Suc (length (evict_oldest g))" for v
    using length_hm [OF hm.wf_insert [OF e(1)], of k v] length_hm [OF e(1)] by (simp add: keys_hm_insert card_insert_le_m1 card_insert_if)
  then have "length (hm_insert k v (evict_oldest g)) \<le> sg_max_signers g" for v using e(2) by (meson Suc_leI le_trans)
  then show ?thesis using None assms hm.wf_insert [OF e(1)] by (simp add: observe_def guard_ok_def Let_def)
next
  case (Some v)
  then have "k \<in> fst ` set (sg_seen g)" by (metis domI dom_map_of_conv_image_fst)
  then have "length (hm_insert k w (sg_seen g)) = length (sg_seen g)" for w
    using length_hm [OF hm.wf_insert [of "sg_seen g"], of k w] length_hm [of "sg_seen g"] assms
    by (simp add: guard_ok_def keys_hm_insert insert_absorb)
  then show ?thesis using Some assms hm.wf_insert [of "sg_seen g"]
    by (auto simp: observe_def guard_ok_def Let_def split: prod.splits)
qed

lemma observe_all_ok:
  "guard_ok g \<Longrightarrow> guard_ok (snd (observe_all calls g)) \<and> sg_max_signers (snd (observe_all calls g)) = sg_max_signers g"
proof (induction calls arbitrary: g)
  case Nil
  then show ?case by simp
next
  case (Cons c calls)
  obtain k s where c: "c = (k, s)" by (cases c)
  from observe_ok [OF Cons.prems, of k s] Cons.IH [of "snd (observe k s g)"] show ?case
    by (auto simp: c split: prod.splits)
qed

text \<open>As long as no signer is ever evicted the guard remembers each one's last accepted sequence.\<close>

lemma observe_tracked:
  assumes "guard_ok g" "fst ` set (sg_seen g) \<subseteq> S" "finite S" "card S \<le> sg_max_signers g" "k \<in> S" "observe k s g = (r, g')"
  shows "map_of (sg_seen g') = (if r = Ok () then (map_of (sg_seen g))(k \<mapsto> (s, sg_clock g')) else map_of (sg_seen g))"
    and "fst ` set (sg_seen g') \<subseteq> S"
    and "r = Ok () \<longleftrightarrow> (case map_of (sg_seen g) k of None \<Rightarrow> True | Some (q, _) \<Rightarrow> q < s)"
proof -
  have wf: "hm_wf (sg_seen g)" using assms(1) by (simp add: guard_ok_def)
  have none: "evict_oldest g = sg_seen g" if "map_of (sg_seen g) k = None"
  proof -
    have "fst ` set (sg_seen g) \<subset> S" using that assms(2,5) by (auto simp: map_of_eq_None_iff)
    then have "card (fst ` set (sg_seen g)) < card S" using assms(3) by (rule psubset_card_mono [rotated])
    then show ?thesis using length_hm [OF wf] assms(4) by (simp add: evict_oldest_def)
  qed
  show "map_of (sg_seen g') = (if r = Ok () then (map_of (sg_seen g))(k \<mapsto> (s, sg_clock g')) else map_of (sg_seen g))"
    using assms(6) none hm.get_insert [OF wf] by (auto simp: observe_def Let_def split: option.splits if_splits)
  show "fst ` set (sg_seen g') \<subseteq> S"
  proof (cases "map_of (sg_seen g) k")
    case None
    then have "g' = g\<lparr>sg_clock := Suc (sg_clock g), sg_seen := hm_insert k (s, Suc (sg_clock g)) (sg_seen g)\<rparr>"
      using assms(6) none by (simp add: observe_def Let_def)
    then show ?thesis using assms(2,5) by (simp add: keys_hm_insert)
  next
    case (Some v)
    then have "sg_seen g' = sg_seen g \<or> sg_seen g' = hm_insert k (s, Suc (sg_clock g)) (sg_seen g)"
      using assms(6) by (auto simp: observe_def Let_def split: prod.splits if_splits)
    then show ?thesis using assms(2,5) keys_hm_insert by (metis insert_subset)
  qed
  show "r = Ok () \<longleftrightarrow> (case map_of (sg_seen g) k of None \<Rightarrow> True | Some (q, _) \<Rightarrow> q < s)"
    using assms(6) by (auto simp: observe_def Let_def not_le split: option.splits if_splits)
qed

lemma observe_all_increasing:
  assumes "guard_ok g" "fst ` set (sg_seen g) \<subseteq> S" "finite S" "card S \<le> sg_max_signers g" "fst ` set calls \<subseteq> S"
    and "observe_all calls g = (accepted, g')"
  shows "sorted_wrt (<) (map snd (filter (\<lambda>c. fst c = k) accepted)) \<and>
     (\<forall>q c. map_of (sg_seen g) k = Some (q, c) \<longrightarrow> (\<forall>s \<in> snd ` set (filter (\<lambda>c. fst c = k) accepted). q < s))"
  using assms
proof (induction calls arbitrary: g accepted g')
  case Nil
  then show ?case by simp
next
  case (Cons call calls)
  obtain k1 s1 where c: "call = (k1, s1)" by (cases call)
  obtain r g1 where o: "observe k1 s1 g = (r, g1)" by fastforce
  obtain acc g2 where rest: "observe_all calls g1 = (acc, g2)" by fastforce
  have S: "k1 \<in> S" "fst ` set calls \<subseteq> S" using Cons.prems(5) c by auto
  have g1: "guard_ok g1" "sg_max_signers g1 = sg_max_signers g" using observe_ok [OF Cons.prems(1), of k1 s1] o by simp_all
  note t = observe_tracked [OF Cons.prems(1-4) S(1) o]
  have acc: "accepted = (if r = Ok () then [(k1, s1)] else []) @ acc" using Cons.prems(6) by (simp add: c o rest)
  have IH: "sorted_wrt (<) (map snd (filter (\<lambda>c. fst c = k) acc)) \<and>
     (\<forall>q c. map_of (sg_seen g1) k = Some (q, c) \<longrightarrow> (\<forall>s \<in> snd ` set (filter (\<lambda>c. fst c = k) acc). q < s))"
    by (rule Cons.IH [OF g1(1) t(2) Cons.prems(3) _ S(2) rest]) (use Cons.prems(4) g1(2) in simp)
  show ?case
  proof (cases "r = Ok () \<and> k1 = k")
    case True
    have "map_of (sg_seen g1) k = Some (s1, sg_clock g1)" using t(1) True by simp
    then have later: "\<forall>s \<in> snd ` set (filter (\<lambda>c. fst c = k) acc). s1 < s" using IH by blast
    moreover have "q < s1" if "map_of (sg_seen g) k = Some (q, c)" for q c using t(3) True that by simp
    ultimately show ?thesis using IH True by (auto simp: acc intro: less_trans)
  next
    case False
    then show ?thesis using IH t(1) by (auto simp: acc split: if_splits)
  qed
qed

text \<open>C40: as long as no more distinct signers call than the guard has room for, the sequences it accepts from
  each signer strictly increase: no request is accepted twice. Whatever is called, the guard's table never
  exceeds its bound.\<close>

theorem guard_rejects_replays:
  assumes "observe_all calls (sequence_guard_with_capacity n) = (accepted, g)"
  shows "length (sg_seen g) \<le> max n 1 \<and>
     (card (set (map fst calls)) \<le> max n 1 \<longrightarrow> sorted_wrt (<) (map snd (filter (\<lambda>c. fst c = k) accepted)))"
proof -
  let ?g = "sequence_guard_with_capacity n"
  have ok: "guard_ok ?g" "sg_max_signers ?g = max n 1" "sg_seen ?g = []"
    by (simp_all add: sequence_guard_with_capacity_def guard_ok_def hm_wf_def)
  have "length (sg_seen g) \<le> max n 1" using observe_all_ok [OF ok(1), of calls] assms ok(2) by (simp add: guard_ok_def)
  moreover have "sorted_wrt (<) (map snd (filter (\<lambda>c. fst c = k) accepted))" if "card (set (map fst calls)) \<le> max n 1"
    using observe_all_increasing [OF ok(1) _ _ _ _ assms, of "set (map fst calls)" k] that ok(2,3) by simp
  ultimately show ?thesis by blast
qed

theorem guard_rejects_replays_witness:
  "fst (observe_all [([1], 5), ([1], 5), ([2], 3), ([1], 4), ([1], 7)] (sequence_guard_with_capacity 2)) = [([1], 5), ([2], 3), ([1], 7)]
   \<and> sorted_wrt (<) (map snd (filter (\<lambda>c. fst c = [1])
       (fst (observe_all [([1], 5), ([1], 5), ([2], 3), ([1], 4), ([1], 7)] (sequence_guard_with_capacity 2)))))"
proof
  let ?calls = "[([1], 5), ([1], 5), ([2], 3), ([1], 4), ([1], 7)] :: (u8 list \<times> u64) list"
  show "fst (observe_all ?calls (sequence_guard_with_capacity 2)) = [([1], 5), ([2], 3), ([1], 7)]" by code_simp
  have "card (set (map fst ?calls)) \<le> max 2 1" by (simp add: card_insert_if)
  then show "sorted_wrt (<) (map snd (filter (\<lambda>c. fst c = [1]) (fst (observe_all ?calls (sequence_guard_with_capacity 2)))))"
    using guard_rejects_replays [of ?calls 2 _ _ "[1]"] by (metis prod.collapse)
qed

end
