(* ===== verification/Peers_State.thy ===== *)
theory Peers_State
  imports Peers_Gossip Ntk_Auth Ntk_Programs
begin

section \<open>The peer services actor (\<open>ntk-peerservices/src/actor.rs\<close>, \<open>config.rs\<close>, \<open>service.rs\<close>, \<open>gossip.rs\<close>)\<close>

text \<open>
  The state behind every peer services handle: the registered services, the participation maps, the table
  of the searches that wait for an answer and the replay guard. A command is a constructor of \<open>peers_cmd\<close>
  without its reply channel; \<open>handle_cmd\<close> returns what is sent on it. The snapshot a handle reads, the
  event stream and each search's channel are components of the state: the latest snapshot, the events and
  the route events sent so far, in order. Parameters: \<open>hash_one\<close>, the keyed hash of a message counter, and
  \<open>now\<close>, the clock. A registered service is its \<open>is_optional\<close>. The two \<open>BTreeMap\<close>s that are never
  iterated in order, \<open>waiting\<close> and \<open>recent_published\<close>, are unordered maps.
\<close>

type_synonym i32 = "32 word"
type_synonym duration = nat

text \<open>A \<open>Duration\<close> counts nanoseconds.\<close>

definition from_millis :: "nat \<Rightarrow> duration" where
  "from_millis ms = ms * 1000000"

record peers_config =
  min_timeout :: duration
  routing_timeout_small :: duration
  routing_timeout_medium :: duration
  routing_timeout_large :: duration
  routing_timeout_medium_threshold :: usize
  routing_timeout_large_threshold :: usize
  participation_poll_interval :: duration
  gateway_retry_backoff :: duration
  max_relay_attempts :: usize
  max_refuse_messages :: usize
  default_replication_factor :: u32
  participation_reannounce_interval :: "duration option"
  max_contact_peer_hops :: usize
  max_participants_per_service :: usize
  max_services :: usize
  replicate_deadline_multiplier :: u32
  require_auth :: bool

definition peers_config_default :: peers_config where
  "peers_config_default =
     \<lparr>min_timeout = from_millis 500, routing_timeout_small = from_millis 200, routing_timeout_medium = from_millis 2000,
      routing_timeout_large = from_millis 20000,
      routing_timeout_medium_threshold = 100, routing_timeout_large_threshold = 1000,
      participation_poll_interval = from_millis 10, gateway_retry_backoff = from_millis 20, max_relay_attempts = 16, max_refuse_messages = 10,
      default_replication_factor = 31, participation_reannounce_interval = None, max_contact_peer_hops = 64,
      max_participants_per_service = 8192, max_services = 256, replicate_deadline_multiplier = 4, require_auth = False\<rparr>"

definition routing_timeout :: "peers_config \<Rightarrow> usize \<Rightarrow> duration" where
  "routing_timeout c nodes =
     (if routing_timeout_large_threshold c < nodes then routing_timeout_large c
      else if routing_timeout_medium_threshold c < nodes then routing_timeout_medium c
      else routing_timeout_small c) + min_timeout c"

definition service_id_from_i32 :: "i32 \<Rightarrow> (service_id, peers_error) res" where
  "service_id_from_i32 v = (if 0 \<le> sint v \<and> sint v < 2 ^ 16 then Ok (ucast v) else Err (ServiceIdOutOfRange v))"

definition service_id_to_i32 :: "service_id \<Rightarrow> i32" where
  "service_id_to_i32 s = ucast s"

record refusal =
  rf_level :: usize
  rf_message :: string

datatype exec_error = Refuse refusal | RedoFromStart

datatype route_event =
    NextDestination tuple_gnode
  | Failure tuple_gnode
  | NonParticipant tuple_gnode
  | MissingOptionalMaps
  | RespondantNode tuple_node
  | Response typed_value_msg
  | RefuseEvent refusal
  | RedoFromStartEvent

record waiting_answer =
  wa_min_target :: tuple_gnode
  wa_respondant_node :: "tuple_node option"
  wa_request :: "typed_value_msg option"
  wa_sent :: "route_event list"

definition respondant_matches :: "waiting_answer \<Rightarrow> tuple_node \<Rightarrow> bool" where
  "respondant_matches wa respondant =
     (case wa_respondant_node wa of None \<Rightarrow> False | Some r \<Rightarrow> tn_pos r = tn_pos respondant)"

definition is_deeper_or_equal :: "waiting_answer \<Rightarrow> tuple_gnode \<Rightarrow> bool \<Rightarrow> bool" where
  "is_deeper_or_equal wa g strictly =
     (if tg_top (wa_min_target wa) \<noteq> tg_top g then False
      else if strictly then tg_level g < tg_level (wa_min_target wa)
      else tg_level g \<le> tg_level (wa_min_target wa))"

definition RECENT_PUBLISHED_TTL :: duration where
  "RECENT_PUBLISHED_TTL = 60000"

definition RECENT_PUBLISHED_PRUNE_AT :: usize where
  "RECENT_PUBLISHED_PRUNE_AT = 4096"

record peers_snapshot =
  sn_retrieved_below_level :: usize
  sn_participants :: participant_maps

datatype peers_event = ParticipantAdded service_id hcoord | ParticipantRemoved service_id hcoord

record peers_state =
  pz_topology :: topology
  pz_my_pos :: naddr
  pz_config :: peers_config
  pz_services :: "(service_id, bool) btree_map"
  pz_my_services :: "service_id set"
  pz_participants :: participant_maps
  pz_capacity_warned :: "service_id set"
  pz_retrieved_below_level :: usize
  pz_recent_published :: "(service_id \<times> hcoord, nat) hash_map"
  pz_waiting :: "(i32, waiting_answer) hash_map"
  pz_next_msg_id :: i32
  pz_snapshot :: peers_snapshot
  pz_events :: "peers_event list"
  pz_origin_replay :: sequence_guard

datatype get_request_outcome = UnknownMessage | InvalidRequest

datatype peers_cmd =
    Register service_id bool
  | LookupService service_id
  | IsServiceOptional service_id
  | NonParticipantGnodes service_id usize
  | GnodeParticipates service_id usize
  | NextMsgId
  | RegisterWaiting i32 tuple_gnode "typed_value_msg option"
  | UnregisterWaiting i32
  | GetRequest i32 tuple_node
  | SetResponse i32 typed_value_msg tuple_node
  | SetRefuseMessage i32 refusal tuple_node
  | SetRedoFromStart i32 tuple_node
  | SetNextDestination i32 tuple_gnode
  | SetFailure i32 tuple_gnode
  | SetNonParticipant i32 tuple_gnode
  | SetMissingOptionalMaps i32
  | ApplyParticipant service_id hcoord
  | MyOptionalServices
  | AskParticipantMaps
  | ApplyParticipantSet participant_set
  | ObserveOriginSequence "u8 list" u64

datatype peers_reply =
    NoReply
  | ReplyService "bool option"
  | ReplyOptional bool
  | ReplyGnodes "hcoord list"
  | ReplyParticipates bool
  | ReplyMsgId i32
  | ReplyRegistered
  | ReplyRequest "get_request_outcome + typed_value_msg"
  | ReplyApplied "hcoord option"
  | ReplyServices "service_id list"
  | ReplyMaps participant_set
  | ReplyForward "participant_set option"
  | ReplyObserved "(unit, auth_error) res"

type_synonym 'a peers_act = "(peers_state, 'a, peers_error) st"

definition publish_peers_snapshot :: "peers_state \<Rightarrow> peers_state" where
  "publish_peers_snapshot s =
     s\<lparr>pz_snapshot := \<lparr>sn_retrieved_below_level = pz_retrieved_below_level s, sn_participants = pz_participants s\<rparr>\<rparr>"

text \<open>\<open>all_gnodes_up_to_lvl\<close>: every other g-node of the levels below \<open>lvl\<close>, then myself.\<close>

definition gnodes_of_level :: "topology \<Rightarrow> usize \<times> u32 \<Rightarrow> (hcoord list, peers_error) res" where
  "gnodes_of_level t lp =
     (case lp of (level, my_p) \<Rightarrow>
      res_bind (expect (topology_gsize t level)) (\<lambda>gsize.
      Ok (map (HCoord level) (filter (\<lambda>p. p \<noteq> my_p) (positions_below gsize)))))"

definition all_gnodes_up_to_lvl :: "topology \<Rightarrow> u32 list \<Rightarrow> usize \<Rightarrow> (hcoord list, peers_error) res" where
  "all_gnodes_up_to_lvl t my_pos lvl =
     res_bind (try_map (gnodes_of_level t) (take lvl (enumerate 0 my_pos))) (\<lambda>gs.
     res_bind (index my_pos 0) (\<lambda>p0. Ok (concat gs @ [HCoord 0 p0])))"

definition is_optional_service :: "peers_state \<Rightarrow> service_id \<Rightarrow> bool" where
  "is_optional_service s p_id = (case map_of (pz_services s) p_id of None \<Rightarrow> True | Some optional \<Rightarrow> optional)"

definition non_participant_gnodes :: "service_id \<Rightarrow> usize \<Rightarrow> peers_state \<Rightarrow> (hcoord list, peers_error) res" where
  "non_participant_gnodes p_id target_levels s =
     (if \<not> is_optional_service s p_id then Ok []
      else
      res_bind (index (naddr_pos (pz_my_pos s)) 0) (\<lambda>p0.
      res_bind (all_gnodes_up_to_lvl (pz_topology s) (naddr_pos (pz_my_pos s)) target_levels) (\<lambda>gs.
      Ok (filter (\<lambda>lp. \<not> (map_of (pz_services s) p_id \<noteq> None \<and> lp = HCoord 0 p0))
           (filter (\<lambda>lp. case map_of (pz_participants s) p_id of None \<Rightarrow> True | Some m \<Rightarrow> lp \<notin> m) gs)))))"

definition gnode_participates :: "service_id \<Rightarrow> usize \<Rightarrow> peers_state \<Rightarrow> bool" where
  "gnode_participates p_id level s \<longleftrightarrow>
     map_of (pz_services s) p_id \<noteq> None \<or>
     (case map_of (pz_participants s) p_id of None \<Rightarrow> False | Some m \<Rightarrow> \<exists>g \<in> m. hc_level g < level)"

text \<open>The retry loop of \<open>NextMsgId\<close>.\<close>

partial_function (option) next_msg_id_loop :: "(i32 \<Rightarrow> i32) \<Rightarrow> (i32 \<Rightarrow> bool) \<Rightarrow> i32 \<Rightarrow> (i32 \<times> i32) option" where
  "next_msg_id_loop hash_one used counter =
     (let counter' = counter + 1; candidate = hash_one counter' in
      if used candidate then next_msg_id_loop hash_one used counter' else Some (candidate, counter'))"

definition send_event :: "i32 \<Rightarrow> route_event \<Rightarrow> peers_state \<Rightarrow> peers_state" where
  "send_event msg_id e s =
     (case map_of (pz_waiting s) msg_id of
        None \<Rightarrow> s
      | Some wa \<Rightarrow> s\<lparr>pz_waiting := hm_insert msg_id (wa\<lparr>wa_sent := wa_sent wa @ [e]\<rparr>) (pz_waiting s)\<rparr>)"

definition send_if :: "i32 \<Rightarrow> (waiting_answer \<Rightarrow> bool) \<Rightarrow> route_event \<Rightarrow> peers_state \<Rightarrow> peers_state" where
  "send_if msg_id P e s =
     (case map_of (pz_waiting s) msg_id of
        None \<Rightarrow> s
      | Some wa \<Rightarrow> if P wa then send_event msg_id e s else s)"

definition get_request :: "i32 \<Rightarrow> tuple_node \<Rightarrow> peers_state \<Rightarrow> (get_request_outcome + typed_value_msg) \<times> peers_state" where
  "get_request msg_id respondant s =
     (case map_of (pz_waiting s) msg_id of
        None \<Rightarrow> (Inl UnknownMessage, s)
      | Some wa \<Rightarrow>
          if tg_top (wa_min_target wa) \<noteq> tn_top respondant then (Inl InvalidRequest, s)
          else
            let s' = send_event msg_id (RespondantNode respondant)
              (s\<lparr>pz_waiting := hm_insert msg_id (wa\<lparr>wa_respondant_node := Some respondant\<rparr>) (pz_waiting s)\<rparr>) in
            (case wa_request wa of None \<Rightarrow> Inl UnknownMessage | Some r \<Rightarrow> Inr r, s'))"

definition set_next_destination :: "i32 \<Rightarrow> tuple_gnode \<Rightarrow> peers_state \<Rightarrow> peers_state" where
  "set_next_destination msg_id g s =
     (case map_of (pz_waiting s) msg_id of
        None \<Rightarrow> s
      | Some wa \<Rightarrow>
          if is_deeper_or_equal wa g True
          then send_event msg_id (NextDestination g)
            (s\<lparr>pz_waiting := hm_insert msg_id (wa\<lparr>wa_min_target := g\<rparr>) (pz_waiting s)\<rparr>)
          else s)"

definition service_limit_reached :: "service_id \<Rightarrow> peers_state \<Rightarrow> bool" where
  "service_limit_reached p_id s \<longleftrightarrow>
     map_of (pz_participants s) p_id = None \<and> map_of (pz_services s) p_id = None \<and>
     max_services (pz_config s) \<le> length (pz_participants s)"

definition add_participant :: "service_id \<Rightarrow> hcoord \<Rightarrow> peers_state \<Rightarrow> peers_state" where
  "add_participant p_id h s =
     (if pos_at (pz_my_pos s) (hc_level h) = Some (hc_pos h) then s
      else if service_limit_reached p_id s then s\<lparr>pz_capacity_warned := insert p_id (pz_capacity_warned s)\<rparr>
      else
        let m = (case map_of (pz_participants s) p_id of None \<Rightarrow> {} | Some m \<Rightarrow> m);
            s1 = s\<lparr>pz_participants := bt_insert p_id m (pz_participants s)\<rparr> in
        if h \<notin> m \<and> max_participants_per_service (pz_config s) \<le> card m
        then s1\<lparr>pz_capacity_warned := insert p_id (pz_capacity_warned s)\<rparr>
        else if h \<in> m then s1
        else s1\<lparr>pz_participants := bt_insert p_id (insert h m) (pz_participants s),
               pz_snapshot := \<lparr>sn_retrieved_below_level = pz_retrieved_below_level s,
                 sn_participants = entry_insert p_id h (sn_participants (pz_snapshot s))\<rparr>,
               pz_events := pz_events s @ [ParticipantAdded p_id h]\<rparr>)"

definition produce_maps_copy :: "peers_state \<Rightarrow> (participant_set, peers_error) res" where
  "produce_maps_copy s =
     (let my = naddr_pos (pz_my_pos s) in
      res_bind (if pz_my_services s = {} then Ok (pz_participants s)
        else res_bind (index my 0) (\<lambda>p0.
          Ok (fold (\<lambda>p_id. entry_insert p_id (HCoord 0 p0)) (sorted_list_of_set (pz_my_services s)) (pz_participants s)))) (\<lambda>out.
      Ok (produce_below_level out my (pz_retrieved_below_level s))))"

definition apply_participant :: "nat \<Rightarrow> service_id \<Rightarrow> hcoord \<Rightarrow> peers_state \<Rightarrow> hcoord option \<times> peers_state" where
  "apply_participant now p_id at s =
     (if (case map_of (pz_recent_published s) (p_id, at) of None \<Rightarrow> False | Some until \<Rightarrow> now < until) then (None, s)
      else
        let recent = (if RECENT_PUBLISHED_PRUNE_AT \<le> length (pz_recent_published s)
              then filter (\<lambda>(_, until). now < until) (pz_recent_published s) else pz_recent_published s);
            s1 = s\<lparr>pz_recent_published := hm_insert (p_id, at) (now + RECENT_PUBLISHED_TTL) recent\<rparr> in
        (Some at, add_participant p_id at s1))"

text \<open>The loop over a folded snapshot: the facts of the levels not known yet.\<close>

definition merge_folded :: "participant_set \<Rightarrow> peers_state \<Rightarrow> peers_state" where
  "merge_folded folded s =
     fold (\<lambda>(p_id, m) s. fold (\<lambda>hc s.
         if pz_retrieved_below_level s \<le> hc_level hc \<and> hc_level hc < ps_retrieved_below_level folded
         then add_participant p_id hc s else s) (sorted_list_of_set m) s) (ps_maps folded) s"

definition apply_participant_set :: "participant_set \<Rightarrow> (participant_set option) peers_act" where
  "apply_participant_set incoming s =
     (if \<not> is_fresher (pz_retrieved_below_level s) incoming then (Ok None, s)
      else
      let my = naddr_pos (pz_my_pos s) in
      case fold_to_my_granularity my (topology_levels (pz_topology s)) incoming of
        Panic \<Rightarrow> (Panic, s)
      | Err e \<Rightarrow> (Err e, s)
      | Ok folded \<Rightarrow>
          let s1 = (merge_folded folded s)\<lparr>pz_retrieved_below_level := ps_retrieved_below_level folded\<rparr>;
              s2 = publish_peers_snapshot s1 in
          (Ok (Some (produce_below_level (pz_participants s2) my (pz_retrieved_below_level s2))), s2))"

text \<open>A read whose failure is the actor's panic.\<close>

definition reply_read :: "(peers_state \<Rightarrow> ('a, peers_error) res) \<Rightarrow> ('a \<Rightarrow> peers_reply) \<Rightarrow> peers_reply peers_act" where
  "reply_read f wrap = st_bind (st_read f) (\<lambda>x. st_ret (wrap x))"

fun handle_cmd :: "(i32 \<Rightarrow> i32) \<Rightarrow> nat \<Rightarrow> peers_cmd \<Rightarrow> peers_reply peers_act" where
  "handle_cmd hash_one now (Register p_id optional) s =
     (Ok NoReply, s\<lparr>pz_services := bt_insert p_id optional (pz_services s),
        pz_my_services := (if optional then insert p_id (pz_my_services s) else pz_my_services s)\<rparr>)"
| "handle_cmd hash_one now (LookupService p_id) s = (Ok (ReplyService (map_of (pz_services s) p_id)), s)"
| "handle_cmd hash_one now (IsServiceOptional p_id) s = (Ok (ReplyOptional (is_optional_service s p_id)), s)"
| "handle_cmd hash_one now (NonParticipantGnodes p_id target_levels) s =
     reply_read (non_participant_gnodes p_id target_levels) ReplyGnodes s"
| "handle_cmd hash_one now (GnodeParticipates p_id level) s = (Ok (ReplyParticipates (gnode_participates p_id level s)), s)"
| "handle_cmd hash_one now NextMsgId s =
     (case next_msg_id_loop hash_one (\<lambda>i. map_of (pz_waiting s) i \<noteq> None) (pz_next_msg_id s) of
        None \<Rightarrow> (Panic, s)
      | Some (i, counter) \<Rightarrow> (Ok (ReplyMsgId i), s\<lparr>pz_next_msg_id := counter\<rparr>))"
| "handle_cmd hash_one now (RegisterWaiting msg_id min_target request) s =
     (Ok ReplyRegistered, s\<lparr>pz_waiting := hm_insert msg_id
        \<lparr>wa_min_target = min_target, wa_respondant_node = None, wa_request = request, wa_sent = []\<rparr> (pz_waiting s)\<rparr>)"
| "handle_cmd hash_one now (UnregisterWaiting msg_id) s = (Ok NoReply, s\<lparr>pz_waiting := hm_remove msg_id (pz_waiting s)\<rparr>)"
| "handle_cmd hash_one now (GetRequest msg_id respondant) s =
     (let (r, s') = get_request msg_id respondant s in (Ok (ReplyRequest r), s'))"
| "handle_cmd hash_one now (SetResponse msg_id response respondant) s =
     (Ok NoReply, send_if msg_id (\<lambda>wa. respondant_matches wa respondant) (Response response) s)"
| "handle_cmd hash_one now (SetRefuseMessage msg_id refusal respondant) s =
     (Ok NoReply, send_if msg_id (\<lambda>wa. respondant_matches wa respondant) (RefuseEvent refusal) s)"
| "handle_cmd hash_one now (SetRedoFromStart msg_id respondant) s =
     (Ok NoReply, send_if msg_id (\<lambda>wa. respondant_matches wa respondant) RedoFromStartEvent s)"
| "handle_cmd hash_one now (SetNextDestination msg_id g) s = (Ok NoReply, set_next_destination msg_id g s)"
| "handle_cmd hash_one now (SetFailure msg_id g) s =
     (Ok NoReply, send_if msg_id (\<lambda>wa. is_deeper_or_equal wa g False) (Failure g) s)"
| "handle_cmd hash_one now (SetNonParticipant msg_id g) s =
     (Ok NoReply, send_if msg_id (\<lambda>wa. is_deeper_or_equal wa g False) (NonParticipant g) s)"
| "handle_cmd hash_one now (SetMissingOptionalMaps msg_id) s = (Ok NoReply, send_event msg_id MissingOptionalMaps s)"
| "handle_cmd hash_one now (ApplyParticipant p_id at) s =
     (let (r, s') = apply_participant now p_id at s in (Ok (ReplyApplied r), s'))"
| "handle_cmd hash_one now MyOptionalServices s = (Ok (ReplyServices (sorted_list_of_set (pz_my_services s))), s)"
| "handle_cmd hash_one now AskParticipantMaps s = reply_read produce_maps_copy ReplyMaps s"
| "handle_cmd hash_one now (ApplyParticipantSet incoming) s =
     st_bind (apply_participant_set incoming) (\<lambda>r. st_ret (ReplyForward r)) s"
| "handle_cmd hash_one now (ObserveOriginSequence signer sequence) s =
     (let (r, g) = observe signer sequence (pz_origin_replay s) in (Ok (ReplyObserved r), s\<lparr>pz_origin_replay := g\<rparr>))"

definition peers_new :: "topology \<Rightarrow> naddr \<Rightarrow> peers_config \<Rightarrow> usize \<Rightarrow> peers_state" where
  "peers_new t my_pos config retrieved_below_level =
     \<lparr>pz_topology = t, pz_my_pos = my_pos, pz_config = config, pz_services = [], pz_my_services = {}, pz_participants = [],
      pz_capacity_warned = {}, pz_retrieved_below_level = retrieved_below_level, pz_recent_published = [], pz_waiting = [],
      pz_next_msg_id = 0, pz_snapshot = \<lparr>sn_retrieved_below_level = 0, sn_participants = []\<rparr>, pz_events = [],
      pz_origin_replay = sequence_guard_new\<rparr>"

subsection \<open>Gossip\<close>

text \<open>\<open>register\<close> and \<open>reannounce_participation\<close>: the fact that is flooded for each optional service of mine.\<close>

definition my_participation_fact :: "peers_state \<Rightarrow> (tuple_gnode, peers_error) res" where
  "my_participation_fact s =
     (let my = naddr_pos (pz_my_pos s) in
      res_bind (index my 0) (\<lambda>p0. make_tuple_gnode (pz_topology s) my (HCoord 0 p0) (topology_levels (pz_topology s))))"

text \<open>\<open>handle_set_participant\<close>: the fact to flood on to the neighbours, if any.\<close>

definition handle_set_participant :: "nat \<Rightarrow> service_id \<Rightarrow> tuple_gnode \<Rightarrow> ((service_id \<times> tuple_gnode) option) peers_act" where
  "handle_set_participant now p_id g =
     st_bind (st_read (\<lambda>s. convert_tuple_gnode (naddr_pos (pz_my_pos s)) g)) (\<lambda>(relation, at).
     if relation = Mine then st_ret None
     else
     st_bind (\<lambda>s. let (r, s') = apply_participant now p_id at s in (Ok r, s')) (\<lambda>r.
     case r of
       None \<Rightarrow> st_ret None
     | Some at \<Rightarrow>
         st_bind (st_read (\<lambda>s. make_tuple_gnode (pz_topology s) (naddr_pos (pz_my_pos s)) at (topology_levels (pz_topology s)))) (\<lambda>gn.
         st_ret (Some (p_id, gn)))))"

end
