(* ===== verification/Peers_Wire.thy ===== *)
theory Peers_Wire
  imports Peers_State
begin

section \<open>Peer services messages (\<open>ntk-peerservices/src/wire.rs\<close>, \<open>stub.rs\<close>, \<open>handler.rs\<close>)\<close>

text \<open>
  The messages of \<open>peerservices.proto\<close> (one record field per protobuf field, a message field being
  optional, a map an association list in the order it is iterated), their conversions from and to the tuples
  and snapshots, and the dispatch of an inbound call: a command for the actor, or a task for the bounded set
  of spawned tasks. The texts of the errors a caller is answered are not modelled, the values they print are.
  Every conversion meets the codec contract.
\<close>

record forwarder =
  mf_inside_level :: usize
  mf_n :: tuple_node
  mf_x_macron :: "tuple_node option"
  mf_lvl :: usize
  mf_pos :: u32
  mf_p_id :: service_id
  mf_msg_id :: i32
  mf_exclude_tuple_list :: "tuple_gnode list"
  mf_non_participant_tuple_list :: "tuple_gnode list"
  mf_auth :: "auth_msg option"

record wire_tuple_node =
  wt_pos :: "u32 list"

record wire_tuple_gnode =
  wg_pos :: "u32 list"
  wg_top :: u32

record wire_forwarder =
  wf_inside_level :: u32
  wf_n :: "wire_tuple_node option"
  wf_x_macron :: "wire_tuple_node option"
  wf_lvl :: u32
  wf_pos :: u32
  wf_p_id :: i32
  wf_msg_id :: i32
  wf_exclude_tuple_list :: "wire_tuple_gnode list"
  wf_non_participant_tuple_list :: "wire_tuple_gnode list"
  wf_auth :: "auth_msg option"

record wire_participant_map =
  wpm_participant_list :: "wire_hcoord list"

record wire_participant_set =
  wps_retrieved_below_level :: u32
  wps_my_pos :: "u32 list"
  wps_participant_set :: "(i32, wire_participant_map) hash_map"

definition tuple_node_to_wire :: "tuple_node \<Rightarrow> wire_tuple_node" where
  "tuple_node_to_wire n = \<lparr>wt_pos = tn_pos n\<rparr>"

definition tuple_node_from_wire :: "topology \<Rightarrow> wire_tuple_node \<Rightarrow> (tuple_node, peers_error) res" where
  "tuple_node_from_wire t w = tuple_node_new t (wt_pos w)"

definition tuple_gnode_to_wire :: "tuple_gnode \<Rightarrow> wire_tuple_gnode" where
  "tuple_gnode_to_wire g = \<lparr>wg_pos = tg_pos g, wg_top = of_nat (tg_top g)\<rparr>"

definition tuple_gnode_from_wire :: "topology \<Rightarrow> wire_tuple_gnode \<Rightarrow> (tuple_gnode, peers_error) res" where
  "tuple_gnode_from_wire t w = tuple_gnode_new t (unat (wg_top w)) (wg_pos w)"

definition forwarder_to_wire :: "forwarder \<Rightarrow> wire_forwarder" where
  "forwarder_to_wire mf =
     \<lparr>wf_inside_level = of_nat (mf_inside_level mf), wf_n = Some (tuple_node_to_wire (mf_n mf)),
      wf_x_macron = map_option tuple_node_to_wire (mf_x_macron mf), wf_lvl = of_nat (mf_lvl mf), wf_pos = mf_pos mf,
      wf_p_id = service_id_to_i32 (mf_p_id mf), wf_msg_id = mf_msg_id mf,
      wf_exclude_tuple_list = map tuple_gnode_to_wire (mf_exclude_tuple_list mf),
      wf_non_participant_tuple_list = map tuple_gnode_to_wire (mf_non_participant_tuple_list mf), wf_auth = mf_auth mf\<rparr>"

text \<open>\<open>Option::map\<close> of a fallible conversion, then \<open>transpose\<close>.\<close>

fun transpose_res :: "('a \<Rightarrow> ('b, 'e) res) \<Rightarrow> 'a option \<Rightarrow> ('b option, 'e) res" where
  "transpose_res f None = Ok None"
| "transpose_res f (Some x) = res_bind (f x) (\<lambda>y. Ok (Some y))"

definition check_hop :: "topology \<Rightarrow> tuple_node \<Rightarrow> usize \<Rightarrow> u32 \<Rightarrow> (unit, peers_error) res" where
  "check_hop t n lvl pos =
     res_bind (ok_or (topology_gsize t lvl) (PeersLevelOutOfRange lvl (topology_levels t))) (\<lambda>gsize.
     if tn_top n \<le> lvl then Err (PeersLevelOutOfRange lvl (tn_top n))
     else if gsize \<le> pos then Err (PeersPositionOutOfRange lvl pos gsize)
     else Ok ())"

definition forwarder_from_wire :: "topology \<Rightarrow> wire_forwarder \<Rightarrow> (forwarder, peers_error) res" where
  "forwarder_from_wire t w =
     res_bind (ok_or (wf_n w) (MissingField ''n'')) (\<lambda>wn.
     res_bind (tuple_node_from_wire t wn) (\<lambda>n.
     res_bind (transpose_res (tuple_node_from_wire t) (wf_x_macron w)) (\<lambda>x_macron.
     res_bind (try_map (tuple_gnode_from_wire t) (wf_exclude_tuple_list w)) (\<lambda>exclude.
     res_bind (try_map (tuple_gnode_from_wire t) (wf_non_participant_tuple_list w)) (\<lambda>non_participant.
     res_bind (check_hop t n (unat (wf_lvl w)) (wf_pos w)) (\<lambda>_.
     res_bind (service_id_from_i32 (wf_p_id w)) (\<lambda>p_id.
     Ok \<lparr>mf_inside_level = unat (wf_inside_level w), mf_n = n, mf_x_macron = x_macron, mf_lvl = unat (wf_lvl w),
         mf_pos = wf_pos w, mf_p_id = p_id, mf_msg_id = wf_msg_id w, mf_exclude_tuple_list = exclude,
         mf_non_participant_tuple_list = non_participant, mf_auth = wf_auth w\<rparr>)))))))"

definition participant_map_to_wire :: "hcoord set \<Rightarrow> wire_participant_map" where
  "participant_map_to_wire m = \<lparr>wpm_participant_list = map hcoord_to_wire (sorted_list_of_set m)\<rparr>"

definition participant_map_from_wire :: "wire_participant_map \<Rightarrow> (hcoord set, peers_error) res" where
  "participant_map_from_wire w =
     res_bind (try_map (\<lambda>h. map_err PeersDomain (hcoord_from_wire h)) (wpm_participant_list w)) (\<lambda>hs. Ok (set hs))"

definition participant_set_to_wire :: "participant_set \<Rightarrow> wire_participant_set" where
  "participant_set_to_wire ps =
     \<lparr>wps_retrieved_below_level = of_nat (ps_retrieved_below_level ps), wps_my_pos = ps_my_pos ps,
      wps_participant_set = map (\<lambda>(p_id, m). (service_id_to_i32 p_id, participant_map_to_wire m)) (ps_maps ps)\<rparr>"

definition participant_entry_from_wire :: "participant_maps \<Rightarrow> i32 \<times> wire_participant_map \<Rightarrow> (participant_maps, peers_error) res" where
  "participant_entry_from_wire maps e =
     res_bind (service_id_from_i32 (fst e)) (\<lambda>p_id.
     res_bind (participant_map_from_wire (snd e)) (\<lambda>m. Ok (bt_insert p_id m maps)))"

definition participant_set_from_wire :: "topology \<Rightarrow> wire_participant_set \<Rightarrow> (participant_set, peers_error) res" where
  "participant_set_from_wire t w =
     res_bind (fold_res participant_entry_from_wire [] (wps_participant_set w)) (\<lambda>maps.
     let ps = \<lparr>ps_retrieved_below_level = unat (wps_retrieved_below_level w), ps_my_pos = wps_my_pos w, ps_maps = maps\<rparr> in
     if participant_set_is_valid t ps then Ok ps else Err InvalidParticipantSet)"

definition TAG_TUPLE_NODE :: string where "TAG_TUPLE_NODE = ''peerservices.PeerTupleNode''"
definition TAG_TUPLE_GNODE :: string where "TAG_TUPLE_GNODE = ''peerservices.PeerTupleGNode''"
definition TAG_FORWARDER :: string where "TAG_FORWARDER = ''peerservices.PeerMessageForwarder''"
definition TAG_PARTICIPANT_SET :: string where "TAG_PARTICIPANT_SET = ''peerservices.PeerParticipantSet''"

text \<open>Protobuf's \<open>encode_to_vec\<close> and \<open>decode\<close>, one pair per message.\<close>

record peers_protobuf =
  enc_node :: "wire_tuple_node \<Rightarrow> u8 list"
  dec_node :: "u8 list \<Rightarrow> (wire_tuple_node, string) res"
  enc_gnode :: "wire_tuple_gnode \<Rightarrow> u8 list"
  dec_gnode :: "u8 list \<Rightarrow> (wire_tuple_gnode, string) res"
  enc_forwarder :: "wire_forwarder \<Rightarrow> u8 list"
  dec_forwarder :: "u8 list \<Rightarrow> (wire_forwarder, string) res"
  enc_set :: "wire_participant_set \<Rightarrow> u8 list"
  dec_set :: "u8 list \<Rightarrow> (wire_participant_set, string) res"

definition unpack :: "(u8 list \<Rightarrow> ('w, string) res) \<Rightarrow> string \<Rightarrow> ('w \<Rightarrow> ('a, peers_error) res) \<Rightarrow> typed_value_msg \<Rightarrow> ('a, peers_error) res" where
  "unpack decode tag from_wire tv = res_bind (map_err PeersDomain (from_typed_value decode tv tag)) from_wire"

definition pack_tuple_node :: "peers_protobuf \<Rightarrow> tuple_node \<Rightarrow> typed_value_msg" where
  "pack_tuple_node pb n = typed_value (enc_node pb) TAG_TUPLE_NODE (tuple_node_to_wire n)"

definition unpack_tuple_node :: "peers_protobuf \<Rightarrow> topology \<Rightarrow> typed_value_msg \<Rightarrow> (tuple_node, peers_error) res" where
  "unpack_tuple_node pb t = unpack (dec_node pb) TAG_TUPLE_NODE (tuple_node_from_wire t)"

definition pack_tuple_gnode :: "peers_protobuf \<Rightarrow> tuple_gnode \<Rightarrow> typed_value_msg" where
  "pack_tuple_gnode pb g = typed_value (enc_gnode pb) TAG_TUPLE_GNODE (tuple_gnode_to_wire g)"

definition unpack_tuple_gnode :: "peers_protobuf \<Rightarrow> topology \<Rightarrow> typed_value_msg \<Rightarrow> (tuple_gnode, peers_error) res" where
  "unpack_tuple_gnode pb t = unpack (dec_gnode pb) TAG_TUPLE_GNODE (tuple_gnode_from_wire t)"

definition pack_forwarder :: "peers_protobuf \<Rightarrow> forwarder \<Rightarrow> typed_value_msg" where
  "pack_forwarder pb mf = typed_value (enc_forwarder pb) TAG_FORWARDER (forwarder_to_wire mf)"

definition unpack_forwarder :: "peers_protobuf \<Rightarrow> topology \<Rightarrow> typed_value_msg \<Rightarrow> (forwarder, peers_error) res" where
  "unpack_forwarder pb t = unpack (dec_forwarder pb) TAG_FORWARDER (forwarder_from_wire t)"

definition pack_participant_set :: "peers_protobuf \<Rightarrow> participant_set \<Rightarrow> typed_value_msg" where
  "pack_participant_set pb ps = typed_value (enc_set pb) TAG_PARTICIPANT_SET (participant_set_to_wire ps)"

definition unpack_participant_set :: "peers_protobuf \<Rightarrow> topology \<Rightarrow> typed_value_msg \<Rightarrow> (participant_set, peers_error) res" where
  "unpack_participant_set pb t = unpack (dec_set pb) TAG_PARTICIPANT_SET (participant_set_from_wire t)"

subsection \<open>The codec contract\<close>

definition fits32 :: "nat \<Rightarrow> bool" where
  "fits32 n \<longleftrightarrow> n < 2 ^ 32"

lemma unat_of_fits32 [simp]: "fits32 n \<Longrightarrow> unat (of_nat n :: u32) = n"
  by (simp add: fits32_def unat_of_nat)

lemma fits32_unat [simp]: "fits32 (unat (w :: u32))"
  using unsigned_less [of w] by (simp add: fits32_def)

interpretation service_id_codec: wire_codec service_id_to_i32 service_id_from_i32 "\<lambda>_. True"
proof
  show "service_id_from_i32 (service_id_to_i32 p) = Ok p" for p
  proof -
    have "uint p < 2 ^ 16" using uint_lt2p [of p] by simp
    moreover have "sint (service_id_to_i32 p) = uint p"
      using \<open>uint p < 2 ^ 16\<close> by (simp add: service_id_to_i32_def sint_uint unsigned_ucast_eq signed_take_bit_eq_if_positive
          bit_uint_iff bit_ucast_iff take_bit_int_eq_self)
    moreover have "ucast (service_id_to_i32 p) = p"
      unfolding service_id_to_i32_def by (rule bit_word_eqI) (simp add: bit_ucast_iff)
    ultimately show ?thesis by (simp add: service_id_from_i32_def)
  qed
qed (simp_all add: service_id_from_i32_def)

definition valid_gnode :: "topology \<Rightarrow> tuple_gnode \<Rightarrow> bool" where
  "valid_gnode t g \<longleftrightarrow> wf_tuple_gnode t g \<and> fits32 (tg_top g)"

definition valid_forwarder :: "topology \<Rightarrow> forwarder \<Rightarrow> bool" where
  "valid_forwarder t mf \<longleftrightarrow> fits32 (mf_inside_level mf) \<and> wf_tuple_node t (mf_n mf) \<and>
     pred_option (wf_tuple_node t) (mf_x_macron mf) \<and> fits32 (mf_lvl mf) \<and> mf_lvl mf < tn_top (mf_n mf) \<and>
     mf_pos mf < gsizes t ! mf_lvl mf \<and> list_all (valid_gnode t) (mf_exclude_tuple_list mf) \<and>
     list_all (valid_gnode t) (mf_non_participant_tuple_list mf)"

definition valid_set :: "topology \<Rightarrow> participant_set \<Rightarrow> bool" where
  "valid_set t ps \<longleftrightarrow> participant_set_is_valid t ps \<and> fits32 (ps_retrieved_below_level ps) \<and> bt_wf (ps_maps ps) \<and>
     (\<forall>(p, m) \<in> set (ps_maps ps). finite m \<and> (\<forall>h \<in> m. level_fits (hc_level h)))"

interpretation node_codec: wire_codec tuple_node_to_wire "tuple_node_from_wire t" "wf_tuple_node t" for t
  by unfold_locales
    (auto simp: tuple_node_to_wire_def tuple_node_from_wire_def tuple_node_new_Ok wf_tuple_node_def tuple_node_new_not_Panic)

interpretation gnode_codec: wire_codec tuple_gnode_to_wire "tuple_gnode_from_wire t" "valid_gnode t" for t
proof
  show "tuple_gnode_from_wire t (tuple_gnode_to_wire g) = Ok g" if "valid_gnode t g" for g
    using that by (simp add: tuple_gnode_to_wire_def tuple_gnode_from_wire_def tuple_gnode_new_Ok valid_gnode_def wf_tuple_gnode_def tg_level_def)
  show "valid_gnode t g" if "tuple_gnode_from_wire t w = Ok g" for w g
    using that by (auto simp: tuple_gnode_from_wire_def tuple_gnode_new_Ok valid_gnode_def wf_tuple_gnode_def tg_level_def)
  show "tuple_gnode_from_wire t w \<noteq> Panic" for w by (simp add: tuple_gnode_from_wire_def tuple_gnode_new_not_Panic)
qed

lemma check_hop_Ok:
  "wf_tuple_node t n \<Longrightarrow> check_hop t n lvl pos = Ok () \<longleftrightarrow> lvl < tn_top n \<and> pos < gsizes t ! lvl"
  by (auto simp: check_hop_def res_simps topology_gsize_def wf_tuple_node_def in_ranges_def tn_top_def not_le)

lemma check_hop_not_Panic: "check_hop t n lvl pos \<noteq> Panic"
  by (auto simp: check_hop_def res_simps)

lemma transpose_not_Panic: "(\<And>x. f x \<noteq> Panic) \<Longrightarrow> transpose_res f o' \<noteq> Panic"
  by (cases o') (auto simp: res_simps)

interpretation forwarder_codec: wire_codec forwarder_to_wire "forwarder_from_wire t" "valid_forwarder t" for t
proof
  show "forwarder_from_wire t (forwarder_to_wire mf) = Ok mf" if v: "valid_forwarder t mf" for mf
  proof -
    have x: "transpose_res (tuple_node_from_wire t) (map_option tuple_node_to_wire (mf_x_macron mf)) = Ok (mf_x_macron mf)"
      using v by (cases "mf_x_macron mf") (simp_all add: valid_forwarder_def node_codec.roundtrip)
    have hop: "check_hop t (mf_n mf) (mf_lvl mf) (mf_pos mf) = Ok ()"
      using v by (simp add: valid_forwarder_def check_hop_Ok)
    have l: "try_map (tuple_gnode_from_wire t) (map tuple_gnode_to_wire (mf_exclude_tuple_list mf)) = Ok (mf_exclude_tuple_list mf)"
      "try_map (tuple_gnode_from_wire t) (map tuple_gnode_to_wire (mf_non_participant_tuple_list mf)) = Ok (mf_non_participant_tuple_list mf)"
      using v by (simp_all add: valid_forwarder_def gnode_codec.list_roundtrip)
    show ?thesis
      using v x hop l by (simp add: forwarder_from_wire_def forwarder_to_wire_def node_codec.roundtrip service_id_codec.roundtrip valid_forwarder_def)
  qed
  show "valid_forwarder t mf" if d: "forwarder_from_wire t w = Ok mf" for w mf
  proof -
    from d obtain wn n x where n: "tuple_node_from_wire t wn = Ok n" "transpose_res (tuple_node_from_wire t) (wf_x_macron w) = Ok x"
      "check_hop t n (unat (wf_lvl w)) (wf_pos w) = Ok ()" "mf_n mf = n" "mf_x_macron mf = x" "mf_lvl mf = unat (wf_lvl w)"
      "mf_pos mf = wf_pos w" "mf_inside_level mf = unat (wf_inside_level w)"
      "try_map (tuple_gnode_from_wire t) (wf_exclude_tuple_list w) = Ok (mf_exclude_tuple_list mf)"
      "try_map (tuple_gnode_from_wire t) (wf_non_participant_tuple_list w) = Ok (mf_non_participant_tuple_list mf)"
      by (auto simp: forwarder_from_wire_def res_simps)
    have wn: "wf_tuple_node t n" using n(1) by (rule node_codec.revalidates)
    have "pred_option (wf_tuple_node t) x"
      using n(2) by (cases "wf_x_macron w") (auto simp: res_simps dest: node_codec.revalidates)
    then show ?thesis
      using n wn check_hop_Ok [OF wn] gnode_codec.list_revalidates by (simp add: valid_forwarder_def)
  qed
  show "forwarder_from_wire t w \<noteq> Panic" for w
    by (auto simp: forwarder_from_wire_def res_simps node_codec.never_panics gnode_codec.list_never_panics
        service_id_codec.never_panics check_hop_not_Panic transpose_not_Panic)
qed

text \<open>Snapshots.\<close>

lemma bt_insert_last: "sorted_wrt (<) (map fst m @ [k]) \<Longrightarrow> bt_insert k v m = m @ [(k, v)]"
  by (induction k v m rule: bt_insert.induct) (auto simp: sorted_wrt_append)

lemma participant_map_roundtrip:
  assumes "finite m" "\<forall>h \<in> m. level_fits (hc_level h)"
  shows "participant_map_from_wire (participant_map_to_wire m) = Ok m"
proof -
  have "try_map (\<lambda>h. map_err PeersDomain (hcoord_from_wire h)) (map hcoord_to_wire hs) = Ok hs"
    if "\<forall>h \<in> set hs. level_fits (hc_level h)" for hs
    using that by (induction hs) (simp_all add: hcoord_codec.roundtrip)
  then show ?thesis using assms by (simp add: participant_map_from_wire_def participant_map_to_wire_def)
qed

lemma participant_map_from_wire_valid:
  "\<exists>m. participant_map_from_wire w = Ok m \<and> finite m \<and> (\<forall>h \<in> m. level_fits (hc_level h))"
proof -
  let ?f = "\<lambda>h. map_err PeersDomain (hcoord_from_wire h)"
  have "\<exists>xs. try_map ?f hs = Ok xs \<and> (\<forall>h \<in> set xs. level_fits (hc_level h))" for hs
    by (induction hs) (auto simp: hcoord_from_wire_def)
  from this [of "wpm_participant_list w"] show ?thesis by (auto simp: participant_map_from_wire_def)
qed

lemma entries_roundtrip:
  assumes "bt_wf (done' @ maps)" "\<forall>(p, m) \<in> set maps. finite m \<and> (\<forall>h \<in> m. level_fits (hc_level h))"
  shows "fold_res participant_entry_from_wire done' (map (\<lambda>(p, m). (service_id_to_i32 p, participant_map_to_wire m)) maps) = Ok (done' @ maps)"
  using assms
proof (induction maps arbitrary: done')
  case (Cons x maps)
  obtain p m where x: "x = (p, m)" by (cases x)
  have "sorted_wrt (<) (map fst done' @ [p])" using Cons.prems(1) by (auto simp: bt_wf_def x sorted_wrt_append)
  then have "bt_insert p m done' = done' @ [(p, m)]" by (rule bt_insert_last)
  moreover have "participant_map_from_wire (participant_map_to_wire m) = Ok m"
    using Cons.prems(2) by (intro participant_map_roundtrip) (auto simp: x)
  ultimately show ?case using Cons.IH [of "done' @ [(p, m)]"] Cons.prems by (simp add: x participant_entry_from_wire_def service_id_codec.roundtrip)
qed simp

lemma entries_valid:
  assumes "fold_res participant_entry_from_wire maps0 es = Ok maps" "bt_wf maps0"
    "\<forall>(p, m) \<in> set maps0. finite m \<and> (\<forall>h \<in> m. level_fits (hc_level h))"
  shows "bt_wf maps \<and> (\<forall>(p, m) \<in> set maps. finite m \<and> (\<forall>h \<in> m. level_fits (hc_level h)))"
  using assms
proof (induction es arbitrary: maps0)
  case (Cons e es)
  obtain maps1 where e: "participant_entry_from_wire maps0 e = Ok maps1" "fold_res participant_entry_from_wire maps1 es = Ok maps"
    using Cons.prems(1) by (auto simp: res_simps)
  obtain p m where m: "maps1 = bt_insert p m maps0" "fold_res participant_entry_from_wire (bt_insert p m maps0) es = Ok maps"
    "finite m \<and> (\<forall>h \<in> m. level_fits (hc_level h))"
    using e participant_map_from_wire_valid [of "snd e"] by (auto simp: participant_entry_from_wire_def [of maps0 e] res_simps)
  show ?case
    using Cons.IH [OF m(2)] Cons.prems(2,3) m(3) by (auto simp: bt.wf_insert bt.entries_insert)
qed simp

interpretation set_codec: wire_codec participant_set_to_wire "participant_set_from_wire t" "valid_set t" for t
proof
  show "participant_set_from_wire t (participant_set_to_wire ps) = Ok ps" if "valid_set t ps" for ps
    using that entries_roundtrip [of "[]" "ps_maps ps"]
    by (cases ps) (simp add: participant_set_from_wire_def participant_set_to_wire_def valid_set_def Let_def)
  show "valid_set t ps" if "participant_set_from_wire t w = Ok ps" for w ps
    using that entries_valid [of "[]" "wps_participant_set w"] bt.wf_empty
    by (auto simp: participant_set_from_wire_def res_simps Let_def valid_set_def split: if_splits)
  show "participant_set_from_wire t w \<noteq> Panic" for w
  proof -
    have "participant_entry_from_wire maps e \<noteq> Panic" for maps e
      using participant_map_from_wire_valid [of "snd e"]
      by (auto simp: participant_entry_from_wire_def res_simps service_id_codec.never_panics)
    then have "fold_res participant_entry_from_wire maps es \<noteq> Panic" for maps es
      by (induction es arbitrary: maps) (auto simp: res_simps)
    then show ?thesis by (simp add: participant_set_from_wire_def res_simps Let_def)
  qed
qed

subsection \<open>Dispatch of an inbound call\<close>

datatype peers_call =
    PeersForwardPeerMessage typed_value_msg
  | PeersGetRequest i32 "typed_value_msg option"
  | PeersSetResponse i32 "typed_value_msg option" "typed_value_msg option"
  | PeersSetRefuseMessage i32 string i32 "typed_value_msg option"
  | PeersSetRedoFromStart i32 "typed_value_msg option"
  | PeersSetNextDestination i32 "typed_value_msg option"
  | PeersSetFailure i32 "typed_value_msg option"
  | PeersSetNonParticipant i32 "typed_value_msg option"
  | PeersSetMissingOptionalMaps i32
  | PeersSetParticipant i32 "typed_value_msg option"
  | PeersGiveParticipantMaps typed_value_msg
  | PeersAskParticipantMaps
  | NotAPeersCall

datatype remote_error = Malformed string | DecodeErr peers_error | UnknownMsgId | NotSameGnode | TooManyInFlight

datatype peers_task = ForwardMsg forwarder | GotParticipant service_id tuple_gnode | GotMaps participant_set

datatype inbound = ToActor peers_cmd | Spawn peers_task | Shed

definition MAX_INFLIGHT_TASKS :: usize where
  "MAX_INFLIGHT_TASKS = 1024"

definition require_tuple_node :: "peers_protobuf \<Rightarrow> topology \<Rightarrow> typed_value_msg option \<Rightarrow> (tuple_node, remote_error) res" where
  "require_tuple_node pb t tv =
     res_bind (ok_or tv (Malformed ''missing respondant'')) (\<lambda>tv. map_err DecodeErr (unpack_tuple_node pb t tv))"

definition require_tuple_gnode :: "peers_protobuf \<Rightarrow> topology \<Rightarrow> typed_value_msg option \<Rightarrow> (tuple_gnode, remote_error) res" where
  "require_tuple_gnode pb t tv =
     res_bind (ok_or tv (Malformed ''missing tuple'')) (\<lambda>tv. map_err DecodeErr (unpack_tuple_gnode pb t tv))"

definition spawn_tracked :: "usize \<Rightarrow> peers_task \<Rightarrow> inbound" where
  "spawn_tracked in_flight task = (if MAX_INFLIGHT_TASKS \<le> in_flight then Shed else Spawn task)"

fun dispatch :: "peers_protobuf \<Rightarrow> topology \<Rightarrow> usize \<Rightarrow> peers_call option \<Rightarrow> (inbound, remote_error) res" where
  "dispatch pb t in_flight None = Err (Malformed ''MethodCall.call unset'')"
| "dispatch pb t in_flight (Some (PeersForwardPeerMessage tv)) =
     res_bind (map_err DecodeErr (unpack_forwarder pb t tv)) (\<lambda>mf.
     case spawn_tracked in_flight (ForwardMsg mf) of Shed \<Rightarrow> Err TooManyInFlight | act \<Rightarrow> Ok act)"
| "dispatch pb t in_flight (Some (PeersGetRequest msg_id respondant)) =
     res_bind (require_tuple_node pb t respondant) (\<lambda>n. Ok (ToActor (GetRequest msg_id n)))"
| "dispatch pb t in_flight (Some (PeersSetResponse msg_id response respondant)) =
     res_bind (ok_or response (Malformed ''PeersSetResponseArgs.response unset'')) (\<lambda>r.
     res_bind (require_tuple_node pb t respondant) (\<lambda>n. Ok (ToActor (SetResponse msg_id r n))))"
| "dispatch pb t in_flight (Some (PeersSetRefuseMessage msg_id message e_lvl respondant)) =
     res_bind (require_tuple_node pb t respondant) (\<lambda>n.
     if sint e_lvl < 0 then Err (Malformed ''e_lvl out of range'')
     else let level = nat (sint e_lvl) in
       if tn_top n \<le> level then Err (DecodeErr (PeersLevelOutOfRange level (tn_top n)))
       else Ok (ToActor (SetRefuseMessage msg_id \<lparr>rf_level = level, rf_message = message\<rparr> n)))"
| "dispatch pb t in_flight (Some (PeersSetRedoFromStart msg_id respondant)) =
     res_bind (require_tuple_node pb t respondant) (\<lambda>n. Ok (ToActor (SetRedoFromStart msg_id n)))"
| "dispatch pb t in_flight (Some (PeersSetNextDestination msg_id tuple)) =
     res_bind (require_tuple_gnode pb t tuple) (\<lambda>g. Ok (ToActor (SetNextDestination msg_id g)))"
| "dispatch pb t in_flight (Some (PeersSetFailure msg_id tuple)) =
     res_bind (require_tuple_gnode pb t tuple) (\<lambda>g. Ok (ToActor (SetFailure msg_id g)))"
| "dispatch pb t in_flight (Some (PeersSetNonParticipant msg_id tuple)) =
     res_bind (require_tuple_gnode pb t tuple) (\<lambda>g. Ok (ToActor (SetNonParticipant msg_id g)))"
| "dispatch pb t in_flight (Some (PeersSetMissingOptionalMaps msg_id)) = Ok (ToActor (SetMissingOptionalMaps msg_id))"
| "dispatch pb t in_flight (Some (PeersSetParticipant p_id tuple)) =
     res_bind (require_tuple_gnode pb t tuple) (\<lambda>g.
     res_bind (map_err DecodeErr (service_id_from_i32 p_id)) (\<lambda>p. Ok (spawn_tracked in_flight (GotParticipant p g))))"
| "dispatch pb t in_flight (Some (PeersGiveParticipantMaps tv)) =
     res_bind (map_err DecodeErr (unpack_participant_set pb t tv)) (\<lambda>ps. Ok (spawn_tracked in_flight (GotMaps ps)))"
| "dispatch pb t in_flight (Some PeersAskParticipantMaps) = Ok (ToActor AskParticipantMaps)"
| "dispatch pb t in_flight (Some NotAPeersCall) = Err (Malformed ''not a PeerServices method'')"

text \<open>What the caller is answered once the actor has replied.\<close>

datatype response_payload = EmptyPayload | TypedPayload typed_value_msg

fun respond :: "peers_protobuf \<Rightarrow> peers_reply \<Rightarrow> (response_payload, remote_error) res" where
  "respond pb (ReplyRequest (Inr tv)) = Ok (TypedPayload tv)"
| "respond pb (ReplyRequest (Inl UnknownMessage)) = Err UnknownMsgId"
| "respond pb (ReplyRequest (Inl InvalidRequest)) = Err NotSameGnode"
| "respond pb (ReplyMaps ps) = Ok (TypedPayload (pack_participant_set pb ps))"
| "respond pb _ = Ok EmptyPayload"

text \<open>What an accepted call may ask of the actor or of a task.\<close>

fun cmd_wf :: "topology \<Rightarrow> peers_cmd \<Rightarrow> bool" where
  "cmd_wf t (GetRequest _ n) \<longleftrightarrow> wf_tuple_node t n"
| "cmd_wf t (SetResponse _ _ n) \<longleftrightarrow> wf_tuple_node t n"
| "cmd_wf t (SetRefuseMessage _ r n) \<longleftrightarrow> wf_tuple_node t n \<and> rf_level r < tn_top n"
| "cmd_wf t (SetRedoFromStart _ n) \<longleftrightarrow> wf_tuple_node t n"
| "cmd_wf t (SetNextDestination _ g) \<longleftrightarrow> valid_gnode t g"
| "cmd_wf t (SetFailure _ g) \<longleftrightarrow> valid_gnode t g"
| "cmd_wf t (SetNonParticipant _ g) \<longleftrightarrow> valid_gnode t g"
| "cmd_wf t (SetMissingOptionalMaps _) \<longleftrightarrow> True"
| "cmd_wf t AskParticipantMaps \<longleftrightarrow> True"
| "cmd_wf t _ \<longleftrightarrow> False"

fun task_wf :: "topology \<Rightarrow> peers_task \<Rightarrow> bool" where
  "task_wf t (ForwardMsg mf) \<longleftrightarrow> valid_forwarder t mf"
| "task_wf t (GotParticipant p g) \<longleftrightarrow> valid_gnode t g"
| "task_wf t (GotMaps ps) \<longleftrightarrow> valid_set t ps"

definition decodes :: "peers_protobuf \<Rightarrow> bool" where
  "decodes pb \<longleftrightarrow> (\<forall>b. dec_node pb b \<noteq> Panic \<and> dec_gnode pb b \<noteq> Panic \<and> dec_forwarder pb b \<noteq> Panic \<and> dec_set pb b \<noteq> Panic)"

lemma unpack_Ok: "unpack decode tag f tv = Ok x \<Longrightarrow> \<exists>w. f w = Ok x"
  by (auto simp: unpack_def res_simps)

lemma unpack_not_Panic: "(\<And>b. decode b \<noteq> Panic) \<Longrightarrow> (\<And>w. f w \<noteq> Panic) \<Longrightarrow> unpack decode tag f tv \<noteq> Panic"
  by (auto simp: unpack_def res_simps from_typed_value_def)

lemma unpack_roundtrip: "prost_ok_on encode decode w \<Longrightarrow> unpack decode tag f (typed_value encode tag w) = f w"
  by (simp add: unpack_def from_typed_value_roundtrip)

lemmas unpack_defs = unpack_tuple_node_def unpack_tuple_gnode_def unpack_forwarder_def unpack_participant_set_def
lemmas pack_defs = pack_tuple_node_def pack_tuple_gnode_def pack_forwarder_def pack_participant_set_def

lemma unpack_wf:
  "unpack_tuple_node pb t tv = Ok n \<Longrightarrow> wf_tuple_node t n"
  "unpack_tuple_gnode pb t tv = Ok g \<Longrightarrow> valid_gnode t g"
  "unpack_forwarder pb t tv = Ok mf \<Longrightarrow> valid_forwarder t mf"
  "unpack_participant_set pb t tv = Ok ps \<Longrightarrow> valid_set t ps"
  unfolding unpack_defs
  by (drule unpack_Ok, blast intro: node_codec.revalidates gnode_codec.revalidates forwarder_codec.revalidates set_codec.revalidates)+

lemma unpack_total:
  assumes "decodes pb"
  shows "unpack_tuple_node pb t tv \<noteq> Panic" "unpack_tuple_gnode pb t tv \<noteq> Panic" "unpack_forwarder pb t tv \<noteq> Panic"
    "unpack_participant_set pb t tv \<noteq> Panic"
  using assms unfolding unpack_defs decodes_def
  by (simp_all add: unpack_not_Panic node_codec.never_panics gnode_codec.never_panics forwarder_codec.never_panics set_codec.never_panics)

lemma require_wf:
  "require_tuple_node pb t tv = Ok n \<Longrightarrow> wf_tuple_node t n"
  "require_tuple_gnode pb t tv = Ok g \<Longrightarrow> valid_gnode t g"
  by (auto simp: require_tuple_node_def require_tuple_gnode_def res_simps dest: unpack_wf)

lemma require_total: "decodes pb \<Longrightarrow> require_tuple_node pb t tv \<noteq> Panic" "decodes pb \<Longrightarrow> require_tuple_gnode pb t tv \<noteq> Panic"
  by (auto simp: require_tuple_node_def require_tuple_gnode_def res_simps unpack_total)

subsection \<open>Properties\<close>

text \<open>Every peer services message of valid parts survives its encoding, at the receiver of the same topology.\<close>

theorem peers_message_roundtrip:
  assumes "prost_ok_on (enc_node pb) (dec_node pb) (tuple_node_to_wire n)" "prost_ok_on (enc_gnode pb) (dec_gnode pb) (tuple_gnode_to_wire g)"
    "prost_ok_on (enc_forwarder pb) (dec_forwarder pb) (forwarder_to_wire mf)"
    "prost_ok_on (enc_set pb) (dec_set pb) (participant_set_to_wire ps)"
    "wf_tuple_node t n" "valid_gnode t g" "valid_forwarder t mf" "valid_set t ps"
  shows "unpack_tuple_node pb t (pack_tuple_node pb n) = Ok n \<and> unpack_tuple_gnode pb t (pack_tuple_gnode pb g) = Ok g \<and>
     unpack_forwarder pb t (pack_forwarder pb mf) = Ok mf \<and> unpack_participant_set pb t (pack_participant_set pb ps) = Ok ps"
  using assms
  by (simp add: unpack_defs pack_defs unpack_roundtrip node_codec.roundtrip gnode_codec.roundtrip
      forwarder_codec.roundtrip set_codec.roundtrip)

text \<open>C11: the dispatch of an inbound call never panics, whatever bytes it carries, and what it passes on to the
  actor or to a task is well formed for this node's topology: tuples in range, a refused level inside the
  respondant's scope, a forwarder whose next hop is a position of its originator's scope, a snapshot that
  is valid. A task is started only below the bound on tasks in flight.\<close>

theorem dispatch_well_formed:
  assumes "decodes pb"
  shows "dispatch pb t in_flight call \<noteq> Panic \<and>
     (\<forall>act. dispatch pb t in_flight call = Ok act \<longrightarrow>
       (case act of ToActor c \<Rightarrow> cmd_wf t c | Spawn task \<Rightarrow> task_wf t task \<and> in_flight < MAX_INFLIGHT_TASKS | Shed \<Rightarrow> MAX_INFLIGHT_TASKS \<le> in_flight))"
proof -
  note total = unpack_total [OF assms] require_total [OF assms] service_id_codec.never_panics
  show ?thesis
  proof (cases call)
    case (Some c)
    then show ?thesis
      by (cases c) (auto simp: res_simps total spawn_tracked_def Let_def split: if_splits inbound.splits dest: unpack_wf require_wf)
  qed simp
qed

text \<open>An encoding that knows one message of each kind.\<close>

definition example_net :: topology where
  "example_net = \<lparr>gsizes = [4, 2]\<rparr>"

definition example_n :: tuple_node where
  "example_n = \<lparr>tn_topology = example_net, tn_pos = [1, 0]\<rparr>"

definition example_g :: tuple_gnode where
  "example_g = \<lparr>tg_topology = example_net, tg_top = 2, tg_pos = [1]\<rparr>"

definition example_mf :: forwarder where
  "example_mf = \<lparr>mf_inside_level = 2, mf_n = example_n, mf_x_macron = None, mf_lvl = 1, mf_pos = 1, mf_p_id = 7, mf_msg_id = 5,
     mf_exclude_tuple_list = [], mf_non_participant_tuple_list = [], mf_auth = None\<rparr>"

definition example_ps :: participant_set where
  "example_ps = \<lparr>ps_retrieved_below_level = 2, ps_my_pos = [1, 0], ps_maps = [(7, {HCoord 0 2})]\<rparr>"

definition example_protobuf :: peers_protobuf where
  "example_protobuf =
     \<lparr>enc_node = \<lambda>_. [], dec_node = \<lambda>_. Ok (tuple_node_to_wire example_n),
      enc_gnode = \<lambda>_. [], dec_gnode = \<lambda>_. Ok (tuple_gnode_to_wire example_g),
      enc_forwarder = \<lambda>_. [], dec_forwarder = \<lambda>_. Ok (forwarder_to_wire example_mf),
      enc_set = \<lambda>_. [], dec_set = \<lambda>_. Ok (participant_set_to_wire example_ps)\<rparr>"

lemma example_valid:
  "wf_tuple_node example_net example_n" "valid_gnode example_net example_g" "valid_forwarder example_net example_mf"
  "valid_set example_net example_ps"
proof -
  show n: "wf_tuple_node example_net example_n" by (simp add: wf_tuple_node_def example_n_def in_ranges_Cons) (simp add: example_net_def)
  show "valid_gnode example_net example_g"
    by (simp add: valid_gnode_def wf_tuple_gnode_def example_g_def tg_level_def in_ranges_Cons fits32_def) (simp add: example_net_def)
  show "valid_forwarder example_net example_mf"
    using n by (simp add: valid_forwarder_def example_mf_def fits32_def) (simp add: example_n_def example_net_def tn_top_def)
  show "valid_set example_net example_ps"
    by (simp add: valid_set_def participant_set_is_valid_def participant_map_is_valid_def example_ps_def example_net_def topology_levels_def
        topology_gsize_def fits32_def level_fits_def bt_wf_def)
qed

theorem peers_message_roundtrip_witness:
  "unpack_forwarder example_protobuf example_net (pack_forwarder example_protobuf example_mf) = Ok example_mf \<and>
   unpack_participant_set example_protobuf example_net (pack_participant_set example_protobuf example_ps) = Ok example_ps"
  using peers_message_roundtrip [OF _ _ _ _ example_valid, of example_protobuf]
  by (simp add: prost_ok_on_def example_protobuf_def)

theorem dispatch_well_formed_witness:
  "dispatch example_protobuf example_net 1024 (Some (PeersForwardPeerMessage (pack_forwarder example_protobuf example_mf))) \<noteq> Panic \<and>
   decodes example_protobuf"
proof -
  have "decodes example_protobuf" by (simp add: decodes_def example_protobuf_def)
  with dispatch_well_formed [OF this] show ?thesis by blast
qed

end
