(* ===== verification/Peers_Routing.thy ===== *)
theory Peers_Routing
  imports Peers_Wire
begin

section \<open>Routing of peer services requests (\<open>ntk-peerservices/src/routing.rs\<close>)\<close>

text \<open>
  \<open>contact_peer\<close> and \<open>replicate\<close> at the node that asks, \<open>forward_msg\<close> at every node on the way. What these
  tasks await is an argument: \<open>attempt\<close> is what the outside contributes to one round of \<open>contact_peer\<close> (the
  replies of the actor, the gateways, the events that arrive and how long each takes), \<open>hop_env\<close> what it
  contributes to one forwarded message, round by round. The results are the values returned and the messages
  sent, in order. The receive loop of \<open>contact_peer\<close> arms its timeout anew for every event and the retry loop of
  \<open>forward_msg\<close> has no bound, so both are partial functions whose \<open>None\<close> is a task that never ends. Log lines are
  not modelled, durations only where the code compares them.
\<close>

text \<open>A task that may panic or never end.\<close>

type_synonym ('a, 'e) task = "('a, 'e) res option"

fun task_bind :: "('a, 'e) task \<Rightarrow> ('a \<Rightarrow> ('b, 'e) task) \<Rightarrow> ('b, 'e) task" where
  "task_bind None f = None"
| "task_bind (Some (Ok x)) f = f x"
| "task_bind (Some (Err e)) f = Some (Err e)"
| "task_bind (Some Panic) f = Some Panic"

datatype contact_peer_error = NoParticipants | Database string | TooManyHops usize

definition format_refusals :: "refusal list \<Rightarrow> string" where
  "format_refusals refusals = concat (map (\<lambda>r. rf_message r @ '' - '') refusals)"

definition actor_shut_down :: contact_peer_error where
  "actor_shut_down = Database ''peerservices actor is shutting down''"

subsection \<open>Gateways\<close>

text \<open>The environment of one \<open>try_forward\<close>, by attempt: whether the manager is shut down, the gateway offered
  for a target after a failed one, and whether a gateway accepts the message.\<close>

type_synonym stub_id = nat

record relay_env =
  re_shut_down :: "nat \<Rightarrow> bool"
  re_gateway :: "nat \<Rightarrow> hcoord \<Rightarrow> stub_id option \<Rightarrow> stub_id option"
  re_accepts :: "nat \<Rightarrow> stub_id \<Rightarrow> bool"

fun try_forward_loop :: "relay_env \<Rightarrow> hcoord \<Rightarrow> nat list \<Rightarrow> stub_id option \<Rightarrow> bool \<times> stub_id list" where
  "try_forward_loop env target [] failed = (False, [])"
| "try_forward_loop env target (i # is') failed =
     (if re_shut_down env i then (False, [])
      else case re_gateway env i target failed of
        None \<Rightarrow> (False, [])
      | Some gw \<Rightarrow>
          if re_accepts env i gw then (True, [gw])
          else let (delivered, tried) = try_forward_loop env target is' (Some gw) in (delivered, gw # tried))"

definition try_forward :: "peers_config \<Rightarrow> relay_env \<Rightarrow> hcoord \<Rightarrow> bool \<times> stub_id list" where
  "try_forward c env target = try_forward_loop env target [0..<max_relay_attempts c] None"

subsection \<open>The next hop's message\<close>

text \<open>\<open>(x.level > 0).then(|| TupleNode::new(.., x_macron[..x.level]))\<close>.\<close>

definition prefix_target :: "topology \<Rightarrow> tuple_node option \<Rightarrow> usize \<Rightarrow> (tuple_node option, peers_error) res" where
  "prefix_target t x_macron level =
     (if level = 0 then Ok None
      else
      res_bind (expect x_macron) (\<lambda>xm.
      res_bind (slice 0 level (tn_pos xm)) (\<lambda>ps.
      res_bind (expect_ok (tuple_node_new t ps)) (\<lambda>n. Ok (Some n)))))"

text \<open>The excluded tuples that lie hidden inside the elected g-node, named inside it.\<close>

definition deeper_exclude :: "topology \<Rightarrow> u32 list \<Rightarrow> hcoord \<Rightarrow> tuple_gnode \<Rightarrow> (tuple_gnode list, peers_error) res" where
  "deeper_exclude t my_pos x g =
     res_bind (convert_tuple_gnode my_pos g) (\<lambda>(rel, ret).
     if rel = Hidden \<and> ret = x
     then if hc_level x < tg_level g then Panic
       else
       res_bind (slice 0 (hc_level x - tg_level g) (tg_pos g)) (\<lambda>ps.
       res_bind (expect_ok (tuple_gnode_new t (hc_level x) ps)) (\<lambda>g'. Ok [g']))
     else Ok [])"

definition deeper_excludes :: "topology \<Rightarrow> u32 list \<Rightarrow> hcoord \<Rightarrow> tuple_gnode list \<Rightarrow> (tuple_gnode list, peers_error) res" where
  "deeper_excludes t my_pos x gs = res_bind (try_map (deeper_exclude t my_pos x) gs) (\<lambda>gss. Ok (concat gss))"

definition visible_tuple :: "u32 list \<Rightarrow> usize \<Rightarrow> tuple_gnode \<Rightarrow> (tuple_gnode list, peers_error) res" where
  "visible_tuple my_pos lvl g =
     res_bind (visible_by_someone_inside_my_gnode my_pos g lvl) (\<lambda>v. Ok (if v then [g] else []))"

definition visible_tuples :: "u32 list \<Rightarrow> usize \<Rightarrow> tuple_gnode list \<Rightarrow> (tuple_gnode list, peers_error) res" where
  "visible_tuples my_pos lvl gs = res_bind (try_map (visible_tuple my_pos lvl) gs) (\<lambda>gss. Ok (concat gss))"

subsection \<open>\<open>contact_peer\<close>\<close>

record contact_params =
  cp_config :: peers_config
  cp_topology :: topology
  cp_my_pos :: "u32 list"
  cp_p_id :: service_id
  cp_x_macron :: "tuple_node option"
  cp_request :: typed_value_msg
  cp_timeout_exec :: duration
  cp_exclude_my_gnode :: "usize option"
  cp_seed_exclude_tuple_list :: "tuple_gnode list"

definition target_levels :: "contact_params \<Rightarrow> usize" where
  "target_levels cp = (case cp_x_macron cp of None \<Rightarrow> 0 | Some x \<Rightarrow> tn_top x)"

text \<open>What arrives on the channel of an attempt: an event some time after the previous one, without end, or nothing any
  more (the channel is closed, or nobody sends).\<close>

codatatype arrivals = Silent | Arrives duration route_event arrivals

record attempt =
  at_non_participants :: "hcoord list option"
  at_exists :: "hcoord \<Rightarrow> bool"
  at_exec_local :: "(exec_error + typed_value_msg) option"
  at_msg_id :: "i32 option"
  at_auth :: "auth_msg option"
  at_registered :: bool
  at_relay :: relay_env
  at_nodes_in_my_group :: "usize \<Rightarrow> usize"
  at_events :: "forwarder \<Rightarrow> arrivals"

record search =
  se_refuse_messages :: "refusal list"
  se_exclude_gnode_list :: "hcoord list"
  se_exclude_tuple_list :: "tuple_gnode list"
  se_non_participant_tuple_list :: "tuple_gnode list"

datatype contact_outcome = Found typed_value_msg tuple_node | Failed contact_peer_error

datatype search_step = Again search | Restart | Finished contact_outcome

definition exclude_visible :: "u32 list \<Rightarrow> tuple_gnode \<Rightarrow> hcoord list \<Rightarrow> (hcoord list, peers_error) res" where
  "exclude_visible my_pos g excl =
     res_bind (convert_tuple_gnode my_pos g) (\<lambda>(rel, ret). Ok (if rel = Visible then excl @ [ret] else excl))"

text \<open>The head of \<open>'restart\<close>.\<close>

definition begin_search :: "contact_params \<Rightarrow> hcoord list \<Rightarrow> (search, peers_error) res" where
  "begin_search cp non_participants =
     res_bind (case cp_exclude_my_gnode cp of
         None \<Rightarrow> Ok []
       | Some lvl \<Rightarrow> all_gnodes_up_to_lvl (cp_topology cp) (cp_my_pos cp) lvl) (\<lambda>mine.
     res_bind (fold_res (\<lambda>excl g. exclude_visible (cp_my_pos cp) g excl) (non_participants @ mine) (cp_seed_exclude_tuple_list cp)) (\<lambda>excl.
     Ok \<lparr>se_refuse_messages = [], se_exclude_gnode_list = excl, se_exclude_tuple_list = cp_seed_exclude_tuple_list cp,
         se_non_participant_tuple_list = []\<rparr>))"

definition push_refusal :: "peers_config \<Rightarrow> refusal \<Rightarrow> refusal list \<Rightarrow> refusal list" where
  "push_refusal c r rs = (let rs' = rs @ [r] in if max_refuse_messages c < length rs' then drop 1 rs' else rs')"

definition serve_locally :: "contact_params \<Rightarrow> attempt \<Rightarrow> search \<Rightarrow> (search_step, peers_error) res" where
  "serve_locally cp at' s =
     res_bind (index (cp_my_pos cp) 0) (\<lambda>p0.
     case at_exec_local at' of
       None \<Rightarrow> Ok (Again (s\<lparr>se_exclude_gnode_list := se_exclude_gnode_list s @ [HCoord 0 p0]\<rparr>))
     | Some (Inr response) \<Rightarrow>
         res_bind (if target_levels cp = 0 then expect_ok (tuple_node_new (cp_topology cp) [])
           else make_tuple_node (cp_topology cp) (cp_my_pos cp) (HCoord 0 p0) (target_levels cp)) (\<lambda>n.
         Ok (Finished (Found response n)))
     | Some (Inl RedoFromStart) \<Rightarrow> Ok Restart
     | Some (Inl (Refuse refusal)) \<Rightarrow>
         res_bind (all_gnodes_up_to_lvl (cp_topology cp) (cp_my_pos cp) (rf_level refusal)) (\<lambda>gs.
         Ok (Again (s\<lparr>se_refuse_messages := push_refusal (cp_config cp) refusal (se_refuse_messages s),
           se_exclude_gnode_list := se_exclude_gnode_list s @ gs\<rparr>))))"

text \<open>A g-node of the search's scope that failed: named in the scope of the target and left out from now on.\<close>

definition exclude_failed :: "contact_params \<Rightarrow> tuple_gnode \<Rightarrow> search \<Rightarrow> (tuple_gnode \<times> search, peers_error) res" where
  "exclude_failed cp g s =
     res_bind (rebase_tuple_gnode (cp_my_pos cp) g (target_levels cp)) (\<lambda>g'.
     res_bind (exclude_visible (cp_my_pos cp) g' (se_exclude_gnode_list s)) (\<lambda>excl.
     Ok (g', s\<lparr>se_exclude_gnode_list := excl, se_exclude_tuple_list := se_exclude_tuple_list s @ [g']\<rparr>)))"

definition exclude_refused :: "contact_params \<Rightarrow> tuple_node \<Rightarrow> refusal \<Rightarrow> search \<Rightarrow> (search, peers_error) res" where
  "exclude_refused cp respondant refusal s =
     (let s1 = s\<lparr>se_refuse_messages := push_refusal (cp_config cp) refusal (se_refuse_messages s)\<rparr> in
      res_bind (tuple_node_to_tuple_gnode respondant) (\<lambda>gn.
      case tuple_gnode_containing gn (rf_level refusal) of
        Panic \<Rightarrow> Panic
      | Err e \<Rightarrow>
          res_bind (all_gnodes_up_to_lvl (cp_topology cp) (cp_my_pos cp) (rf_level refusal)) (\<lambda>gs.
          Ok (s1\<lparr>se_exclude_gnode_list := se_exclude_gnode_list s @ gs\<rparr>))
      | Ok g \<Rightarrow>
          res_bind (convert_tuple_gnode (cp_my_pos cp) g) (\<lambda>(rel, ret).
          res_bind (case rel of
              Visible \<Rightarrow> Ok [ret]
            | Mine \<Rightarrow> all_gnodes_up_to_lvl (cp_topology cp) (cp_my_pos cp) (rf_level refusal)
            | Hidden \<Rightarrow> Ok []) (\<lambda>gs.
          Ok (s1\<lparr>se_exclude_gnode_list := se_exclude_gnode_list s @ gs, se_exclude_tuple_list := se_exclude_tuple_list s @ [g]\<rparr>)))))"

text \<open>The receive loop: what one event does to it, and the loop. Every turn waits for at most the current timeout.\<close>

datatype listening = Listen duration tuple_gnode "tuple_node option" | Leave search_step

definition on_event ::
  "contact_params \<Rightarrow> duration \<Rightarrow> tuple_gnode \<Rightarrow> tuple_node option \<Rightarrow> search \<Rightarrow> route_event \<Rightarrow> (listening, peers_error) res" where
  "on_event cp timeout min_target respondant s e =
     (case e of
        NextDestination g \<Rightarrow> Ok (Listen timeout g respondant)
      | Failure g \<Rightarrow> res_bind (exclude_failed cp g s) (\<lambda>(_, s'). Ok (Leave (Again s')))
      | NonParticipant g \<Rightarrow>
          res_bind (exclude_failed cp g s) (\<lambda>(g', s').
          Ok (Leave (Again (s'\<lparr>se_non_participant_tuple_list := se_non_participant_tuple_list s' @ [g']\<rparr>))))
      | MissingOptionalMaps \<Rightarrow> Ok (Leave Restart)
      | RespondantNode n \<Rightarrow>
          (case respondant of
             None \<Rightarrow>
               res_bind (rebase_tuple_node (cp_my_pos cp) n (target_levels cp)) (\<lambda>n'.
               Ok (Listen (cp_timeout_exec cp) min_target (Some n')))
           | Some _ \<Rightarrow> Ok (Listen timeout min_target respondant))
      | Response response \<Rightarrow> res_bind (expect respondant) (\<lambda>n. Ok (Leave (Finished (Found response n))))
      | RefuseEvent refusal \<Rightarrow>
          (case respondant of
             None \<Rightarrow> Ok (Listen timeout min_target respondant)
           | Some n \<Rightarrow> res_bind (exclude_refused cp n refusal s) (\<lambda>s'. Ok (Leave (Again s'))))
      | RedoFromStartEvent \<Rightarrow>
          (case respondant of None \<Rightarrow> Ok (Listen timeout min_target respondant) | Some n \<Rightarrow> Ok (Leave Restart)))"

definition attempt_timed_out :: "contact_params \<Rightarrow> tuple_gnode \<Rightarrow> search \<Rightarrow> (search_step, peers_error) res" where
  "attempt_timed_out cp min_target s = res_bind (exclude_failed cp min_target s) (\<lambda>(_, s'). Ok (Again s'))"

partial_function (option) await_events ::
  "contact_params \<Rightarrow> duration \<Rightarrow> tuple_gnode \<Rightarrow> tuple_node option \<Rightarrow> search \<Rightarrow> arrivals \<Rightarrow> (search_step, peers_error) task" where
  "await_events cp timeout min_target respondant s incoming =
     (case incoming of
        Silent \<Rightarrow> Some (attempt_timed_out cp min_target s)
      | Arrives d e later \<Rightarrow>
          if timeout < d then Some (attempt_timed_out cp min_target s)
          else (case on_event cp timeout min_target respondant s e of
              Panic \<Rightarrow> Some Panic
            | Err err \<Rightarrow> Some (Err err)
            | Ok l \<Rightarrow> (case l of
                Leave step \<Rightarrow> Some (Ok step)
              | Listen timeout' min_target' respondant' \<Rightarrow> await_events cp timeout' min_target' respondant' s later)))"

definition contact_forwarder :: "contact_params \<Rightarrow> attempt \<Rightarrow> i32 \<Rightarrow> hcoord \<Rightarrow> search \<Rightarrow> (forwarder, peers_error) res" where
  "contact_forwarder cp at' msg_id x s =
     res_bind (index (cp_my_pos cp) 0) (\<lambda>p0.
     res_bind (make_tuple_node (cp_topology cp) (cp_my_pos cp) (HCoord 0 p0) (hc_level x + 1)) (\<lambda>n.
     res_bind (prefix_target (cp_topology cp) (cp_x_macron cp) (hc_level x)) (\<lambda>x_macron.
     res_bind (deeper_excludes (cp_topology cp) (cp_my_pos cp) x (se_exclude_tuple_list s)) (\<lambda>exclude.
     res_bind (visible_tuples (cp_my_pos cp) (hc_level x + 1) (se_non_participant_tuple_list s)) (\<lambda>non_participant.
     Ok \<lparr>mf_inside_level = target_levels cp, mf_n = n, mf_x_macron = x_macron, mf_lvl = hc_level x, mf_pos = hc_pos x,
         mf_p_id = cp_p_id cp, mf_msg_id = msg_id, mf_exclude_tuple_list = exclude,
         mf_non_participant_tuple_list = non_participant, mf_auth = at_auth at'\<rparr>)))))"

text \<open>One round after the election of \<open>x\<close>: the message sent, if any gateway took it, and the next step.\<close>

definition contact_remote :: "contact_params \<Rightarrow> attempt \<Rightarrow> hcoord \<Rightarrow> search \<Rightarrow> (forwarder list \<times> search_step, peers_error) task" where
  "contact_remote cp at' x s =
     (case at_msg_id at' of
        None \<Rightarrow> Some (Ok ([], Finished (Failed actor_shut_down)))
      | Some msg_id \<Rightarrow>
          task_bind (Some (contact_forwarder cp at' msg_id x s)) (\<lambda>mf.
          task_bind (Some (make_tuple_gnode (cp_topology cp) (cp_my_pos cp) x (hc_level x + 1))) (\<lambda>min_target.
          if \<not> at_registered at' then Some (Ok ([], Finished (Failed actor_shut_down)))
          else if \<not> fst (try_forward (cp_config cp) (at_relay at') x) then Some (Ok ([], Again s))
          else
          task_bind (await_events cp (routing_timeout (cp_config cp) (at_nodes_in_my_group at' (hc_level x + 1)))
              min_target None s (at_events at' mf)) (\<lambda>step.
          Some (Ok ([mf], step))))))"

definition contact_attempt :: "contact_params \<Rightarrow> attempt \<Rightarrow> search \<Rightarrow> (forwarder list \<times> search_step, peers_error) task" where
  "contact_attempt cp at' s =
     task_bind (Some (approximate (cp_topology cp) (cp_my_pos cp) (cp_x_macron cp) (se_exclude_gnode_list s) (at_exists at'))) (\<lambda>elected.
     case elected of
       None \<Rightarrow> Some (Ok ([], Finished (Failed (if se_refuse_messages s = [] then NoParticipants
                       else Database (format_refusals (se_refuse_messages s))))))
     | Some x \<Rightarrow>
         task_bind (Some (index (cp_my_pos cp) 0)) (\<lambda>p0.
         if hc_level x = 0 \<and> hc_pos x = p0
         then task_bind (Some (serve_locally cp at' s)) (\<lambda>step. Some (Ok ([], step)))
         else contact_remote cp at' x s))"

text \<open>The two nested loops: \<open>None\<close> is a (re)start. Rounds are numbered from 1 by the hop counter.\<close>

definition start_if :: "contact_params \<Rightarrow> attempt \<Rightarrow> search option \<Rightarrow> (contact_peer_error + search, peers_error) res" where
  "start_if cp at' st =
     (case st of
        Some s \<Rightarrow> Ok (Inr s)
      | None \<Rightarrow>
          (case at_non_participants at' of
             None \<Rightarrow> Ok (Inl actor_shut_down)
           | Some ns \<Rightarrow> res_bind (begin_search cp ns) (\<lambda>s. Ok (Inr s))))"

fun contact_rounds :: "contact_params \<Rightarrow> (nat \<Rightarrow> attempt) \<Rightarrow> nat \<Rightarrow> search option \<Rightarrow> nat \<Rightarrow> (forwarder list \<times> contact_outcome, peers_error) task" where
  "contact_rounds cp w hops st 0 =
     task_bind (Some (start_if cp (w (hops + 1)) st)) (\<lambda>r.
     case r of
       Inl e \<Rightarrow> Some (Ok ([], Failed e))
     | Inr s \<Rightarrow> Some (Ok ([], Failed (TooManyHops (max_contact_peer_hops (cp_config cp))))))"
| "contact_rounds cp w hops st (Suc left) =
     task_bind (Some (start_if cp (w (hops + 1)) st)) (\<lambda>r.
     case r of
       Inl e \<Rightarrow> Some (Ok ([], Failed e))
     | Inr s \<Rightarrow>
         task_bind (contact_attempt cp (w (hops + 1)) s) (\<lambda>(sent, step).
         case step of
           Finished out \<Rightarrow> Some (Ok (sent, out))
         | Again s' \<Rightarrow> task_bind (contact_rounds cp w (hops + 1) (Some s') left) (\<lambda>(more, out). Some (Ok (sent @ more, out)))
         | Restart \<Rightarrow> task_bind (contact_rounds cp w (hops + 1) None left) (\<lambda>(more, out). Some (Ok (sent @ more, out)))))"

definition contact_peer :: "contact_params \<Rightarrow> (nat \<Rightarrow> attempt) \<Rightarrow> (forwarder list \<times> contact_outcome, peers_error) task" where
  "contact_peer cp w = contact_rounds cp w 0 None (max_contact_peer_hops (cp_config cp))"

subsection \<open>\<open>replicate\<close>\<close>

text \<open>\<open>w k\<close> is the outside of the \<open>k\<close>-th call, \<open>None\<close> when the deadline has passed before or during it. A call that
  would never end is cut off by the deadline as well.\<close>

fun replicate_loop :: "contact_params \<Rightarrow> (nat \<Rightarrow> (nat \<Rightarrow> attempt) option) \<Rightarrow> nat \<Rightarrow> tuple_gnode list \<Rightarrow> nat
    \<Rightarrow> ((typed_value_msg \<times> tuple_node) list, peers_error) res" where
  "replicate_loop cp w k excl 0 = Ok []"
| "replicate_loop cp w k excl (Suc q) =
     (case w k of
        None \<Rightarrow> Ok []
      | Some wk \<Rightarrow>
          (case contact_peer (cp\<lparr>cp_exclude_my_gnode := None, cp_seed_exclude_tuple_list := excl\<rparr>) wk of
             None \<Rightarrow> Ok []
           | Some outcome \<Rightarrow>
               res_bind outcome (\<lambda>(_, out).
               case out of
                 Failed e \<Rightarrow> Ok []
               | Found response n \<Rightarrow>
                   res_bind (tuple_node_to_tuple_gnode n) (\<lambda>g.
                   res_bind (replicate_loop cp w (k + 1) (excl @ [g]) q) (\<lambda>more. Ok ((response, n) # more))))))"

definition replicate_request :: "contact_params \<Rightarrow> tuple_node \<Rightarrow> (nat \<Rightarrow> (nat \<Rightarrow> attempt) option) \<Rightarrow> u32
    \<Rightarrow> ((typed_value_msg \<times> tuple_node) list, peers_error) res" where
  "replicate_request cp target w q = replicate_loop (cp\<lparr>cp_x_macron := Some target\<rparr>) w 0 [] (unat q)"

subsection \<open>Origin authentication\<close>

datatype origin_auth_error = OriginMissing | OriginAuth auth_error | OriginActorShutDown

text \<open>The next sequence number, from the previous one and the wall clock in microseconds.\<close>

definition allocate_sequence :: "u64 \<Rightarrow> u64 \<Rightarrow> u64" where
  "allocate_sequence now_micros prev = max (sat_add64 prev 1) now_micros"

definition sign_origin ::
  "(u8 list \<Rightarrow> u8 list) \<Rightarrow> ('key \<Rightarrow> u8 list) \<Rightarrow> ('key \<Rightarrow> u8 list \<Rightarrow> u8 list) \<Rightarrow> 'key option \<Rightarrow> u64 \<Rightarrow> u32 list \<Rightarrow> service_id
    \<Rightarrow> typed_value_msg \<Rightarrow> auth_msg option" where
  "sign_origin blake3 public_key sign_raw key sequence client_tuple p_id request =
     (case key of
        None \<Rightarrow> None
      | Some k \<Rightarrow> Some (sign_auth blake3 public_key sign_raw k sequence ORIGIN_AUTH_METHOD (origin_signing_payload client_tuple p_id request)))"

text \<open>\<open>demanded\<close> is the \<open>requires_origin_auth\<close> of the service registered here, \<open>None\<close> when there is none;
  \<open>alive\<close> tells whether the actor still answers.\<close>

definition verify_origin ::
  "(u8 list \<Rightarrow> u8 list) \<Rightarrow> (u8 list \<Rightarrow> bool) \<Rightarrow> (u8 list \<Rightarrow> u8 list \<Rightarrow> u8 list \<Rightarrow> bool) \<Rightarrow> peers_config
    \<Rightarrow> (typed_value_msg \<Rightarrow> bool) option \<Rightarrow> bool \<Rightarrow> auth_msg option \<Rightarrow> u32 list \<Rightarrow> service_id \<Rightarrow> typed_value_msg \<Rightarrow> sequence_guard
    \<Rightarrow> (unit, origin_auth_error) res \<times> sequence_guard" where
  "verify_origin blake3 key_ok verify_raw c demanded alive auth client_tuple p_id request g =
     (if \<not> require_auth c \<and> \<not> (case demanded of None \<Rightarrow> False | Some f \<Rightarrow> f request) then (Ok (), g)
      else
      case auth of
        None \<Rightarrow> (Err OriginMissing, g)
      | Some a \<Rightarrow>
          (case verify_auth blake3 key_ok verify_raw a ORIGIN_AUTH_METHOD (origin_signing_payload client_tuple p_id request) of
             Panic \<Rightarrow> (Panic, g)
           | Err e \<Rightarrow> (Err (OriginAuth e), g)
           | Ok signer \<Rightarrow>
               if \<not> alive then (Err OriginActorShutDown, g)
               else (case observe signer (auth_sequence a) g of (r, g') \<Rightarrow> (map_err OriginAuth r, g'))))"

subsection \<open>\<open>forward_msg\<close>\<close>

datatype to_originator =
    TellMissingOptionalMaps i32
  | TellNonParticipant i32 tuple_gnode
  | TellFailure i32 tuple_gnode
  | TellNextDestination i32 tuple_gnode
  | AskRequest i32 tuple_node
  | TellResponse i32 typed_value_msg tuple_node
  | TellRedoFromStart i32 tuple_node
  | TellRefuse i32 refusal tuple_node

record hop_env =
  he_config :: peers_config
  he_topology :: topology
  he_my_pos :: "u32 list"
  he_optional :: "bool option"
  he_below_level :: usize
  he_dial :: bool
  he_participates :: "bool option"
  he_non_participants :: "hcoord list option"
  he_exists :: "nat \<Rightarrow> hcoord \<Rightarrow> bool"
  he_request :: "typed_value_msg option"
  he_origin :: "typed_value_msg \<Rightarrow> string option"
  he_exec_local :: "(exec_error + typed_value_msg) option"
  he_relay :: "nat \<Rightarrow> relay_env"

text \<open>What one forwarded message leads to: the message passed on, with its next target, if a gateway took it, and
  what the originator is sent.\<close>

record forwarded =
  fw_passed :: "(hcoord \<times> forwarder) option"
  fw_told :: "to_originator list"

definition told :: "to_originator list \<Rightarrow> forwarded" where
  "told ms = \<lparr>fw_passed = None, fw_told = ms\<rparr>"

definition tell_if_dialed :: "hop_env \<Rightarrow> forwarder \<Rightarrow> (i32 \<Rightarrow> tuple_gnode \<Rightarrow> to_originator) \<Rightarrow> hcoord \<Rightarrow> (to_originator list, peers_error) res" where
  "tell_if_dialed env mf msg h =
     (if he_dial env
      then res_bind (make_tuple_gnode (he_topology env) (he_my_pos env) h (tn_top (mf_n mf))) (\<lambda>g. Ok [msg (mf_msg_id mf) g])
      else Ok [])"

text \<open>The request is fetched, checked and executed here; \<open>he_origin\<close> is the text of a failed origin check.\<close>

definition serve_request :: "hop_env \<Rightarrow> forwarder \<Rightarrow> (forwarded, peers_error) res" where
  "serve_request env mf =
     (if \<not> he_dial env then Ok (told [])
      else
      res_bind (index (he_my_pos env) 0) (\<lambda>p0.
      res_bind (make_tuple_node (he_topology env) (he_my_pos env) (HCoord 0 p0) (tn_top (mf_n mf))) (\<lambda>me.
      let asked = AskRequest (mf_msg_id mf) me in
      case he_request env of
        None \<Rightarrow> Ok (told [asked])
      | Some request \<Rightarrow>
          (case he_origin env request of
             Some err \<Rightarrow>
               Ok (told [asked, TellRefuse (mf_msg_id mf) \<lparr>rf_level = 0, rf_message = ''origin authentication failed: '' @ err\<rparr> me])
           | None \<Rightarrow>
               (case he_exec_local env of
                  None \<Rightarrow> Ok (told [asked])
                | Some (Inr response) \<Rightarrow> Ok (told [asked, TellResponse (mf_msg_id mf) response me])
                | Some (Inl RedoFromStart) \<Rightarrow> Ok (told [asked, TellRedoFromStart (mf_msg_id mf) me])
                | Some (Inl (Refuse refusal)) \<Rightarrow> Ok (told [asked, TellRefuse (mf_msg_id mf) refusal me]))))))"

definition next_forwarder :: "hop_env \<Rightarrow> forwarder \<Rightarrow> hcoord \<Rightarrow> (forwarder, peers_error) res" where
  "next_forwarder env mf x =
     res_bind (prefix_target (he_topology env) (mf_x_macron mf) (hc_level x)) (\<lambda>x_macron.
     res_bind (deeper_excludes (he_topology env) (he_my_pos env) x (mf_exclude_tuple_list mf)) (\<lambda>exclude.
     res_bind (visible_tuples (he_my_pos env) (hc_level x + 1) (mf_non_participant_tuple_list mf)) (\<lambda>non_participant.
     Ok (mf\<lparr>mf_lvl := hc_level x, mf_pos := hc_pos x, mf_x_macron := x_macron, mf_exclude_tuple_list := exclude,
         mf_non_participant_tuple_list := non_participant\<rparr>))))"

text \<open>The body of the dispatch loop, \<open>Ok None\<close> when no gateway took the message; the loop, whose \<open>i\<close> counts the
  rounds.\<close>

definition forward_attempt :: "hop_env \<Rightarrow> forwarder \<Rightarrow> hcoord list \<Rightarrow> nat \<Rightarrow> (forwarded option, peers_error) res" where
  "forward_attempt env mf excl i =
     res_bind (approximate (he_topology env) (he_my_pos env) (mf_x_macron mf) excl (he_exists env i)) (\<lambda>elected.
     case elected of
       None \<Rightarrow> res_bind (tell_if_dialed env mf TellFailure (HCoord (mf_lvl mf) (mf_pos mf))) (\<lambda>ms. Ok (Some (told ms)))
     | Some x \<Rightarrow>
         res_bind (index (he_my_pos env) 0) (\<lambda>p0.
         if hc_level x = 0 \<and> hc_pos x = p0 then res_bind (serve_request env mf) (\<lambda>f. Ok (Some f))
         else
         res_bind (next_forwarder env mf x) (\<lambda>mf2.
         if fst (try_forward (he_config env) (he_relay env i) x)
         then res_bind (tell_if_dialed env mf TellNextDestination x) (\<lambda>ms. Ok (Some \<lparr>fw_passed = Some (x, mf2), fw_told = ms\<rparr>))
         else Ok None)))"

partial_function (option) forward_rounds ::
  "hop_env \<Rightarrow> forwarder \<Rightarrow> hcoord list \<Rightarrow> nat \<Rightarrow> (forwarded, peers_error) res option" where
  "forward_rounds env mf excl i =
     (case forward_attempt env mf excl i of
        Panic \<Rightarrow> Some Panic
      | Err e \<Rightarrow> Some (Err e)
      | Ok (Some f) \<Rightarrow> Some (Ok f)
      | Ok None \<Rightarrow> forward_rounds env mf excl (i + 1))"

text \<open>The tuples the message says to leave out, as seen from here.\<close>

definition exclude_here :: "hop_env \<Rightarrow> hcoord list \<Rightarrow> tuple_gnode \<Rightarrow> (hcoord list, peers_error) res" where
  "exclude_here env excl g =
     res_bind (convert_tuple_gnode (he_my_pos env) g) (\<lambda>(rel, ret).
     case rel of
       Mine \<Rightarrow> res_bind (all_gnodes_up_to_lvl (he_topology env) (he_my_pos env) (hc_level ret)) (\<lambda>gs. Ok (excl @ gs))
     | Visible \<Rightarrow> Ok (excl @ [ret])
     | Hidden \<Rightarrow> Ok excl)"

definition forward_here :: "hop_env \<Rightarrow> forwarder \<Rightarrow> (forwarded, peers_error) res option" where
  "forward_here env mf =
     (case he_non_participants env of
        None \<Rightarrow> Some (Ok (told []))
      | Some ns \<Rightarrow>
          (case fold_res (exclude_here env) ns (mf_exclude_tuple_list mf) of
             Panic \<Rightarrow> Some Panic
           | Err e \<Rightarrow> Some (Err e)
           | Ok excl \<Rightarrow> forward_rounds env mf excl 0))"

definition forward_msg :: "hop_env \<Rightarrow> forwarder \<Rightarrow> (forwarded, peers_error) res option" where
  "forward_msg env mf =
     (case index (he_my_pos env) (mf_lvl mf) of
        Panic \<Rightarrow> Some Panic
      | Err e \<Rightarrow> Some (Err e)
      | Ok mine \<Rightarrow>
          let target = HCoord (mf_lvl mf) (mf_pos mf) in
          if mine \<noteq> mf_pos mf
          then Some (Ok (if fst (try_forward (he_config env) (he_relay env 0) target)
            then \<lparr>fw_passed = Some (target, mf), fw_told = []\<rparr> else told []))
          else
          case he_optional env of
            None \<Rightarrow> Some (Ok (told []))
          | Some optional \<Rightarrow>
              if optional \<and> (case mf_x_macron mf of None \<Rightarrow> False | Some xm \<Rightarrow> he_below_level env < tn_top xm)
              then Some (Ok (told (if he_dial env then [TellMissingOptionalMaps (mf_msg_id mf)] else [])))
              else if \<not> optional then forward_here env mf
              else
              (case he_participates env of
                 None \<Rightarrow> Some (Ok (told []))
               | Some True \<Rightarrow> forward_here env mf
               | Some False \<Rightarrow> Some (res_bind (tell_if_dialed env mf TellNonParticipant target) (\<lambda>ms. Ok (told ms)))))"

end
