(* ===== verification/Peers_StateLaws.thy ===== *)
theory Peers_StateLaws
  imports Peers_State
begin

section \<open>What the peer services actor keeps\<close>

text \<open>
  The invariant of the participation maps of \<open>Peers_State\<close> (true, about others, bounded, published) and that every
  operation on them keeps it.
\<close>

subsection \<open>Participation\<close>

abbreviation my_addr :: "peers_state \<Rightarrow> u32 list" where
  "my_addr s \<equiv> naddr_pos (pz_my_pos s)"

text \<open>\<open>P p\<close> is the set of the addresses that take part in service \<open>p\<close>. Everything recorded is true, is about
  somebody else, is within the configured bounds, and is what the published snapshot says.\<close>

definition part_shape :: "peers_state \<Rightarrow> bool" where
  "part_shape s \<longleftrightarrow> wf_my_pos (pz_topology s) (my_addr s) \<and> bt_wf (pz_participants s) \<and> bt_wf (pz_services s) \<and>
     bt_wf (sn_participants (pz_snapshot s)) \<and> finite (pz_my_services s) \<and> (\<forall>p. finite (recorded (pz_participants s) p))"

definition part_bounded :: "peers_state \<Rightarrow> bool" where
  "part_bounded s \<longleftrightarrow>
     (\<forall>p. card (recorded (pz_participants s) p) \<le> max_participants_per_service (pz_config s)) \<and>
     card (fst ` set (pz_participants s) - fst ` set (pz_services s)) \<le> max_services (pz_config s)"

definition part_others :: "peers_state \<Rightarrow> bool" where
  "part_others s \<longleftrightarrow> (\<forall>p. \<forall>h \<in> recorded (pz_participants s) p. pos_at (pz_my_pos s) (hc_level h) \<noteq> Some (hc_pos h))"

definition part_published :: "peers_state \<Rightarrow> bool" where
  "part_published s \<longleftrightarrow> (\<forall>p. recorded (sn_participants (pz_snapshot s)) p = recorded (pz_participants s) p)"

definition part_sound :: "(service_id \<Rightarrow> u32 list set) \<Rightarrow> peers_state \<Rightarrow> bool" where
  "part_sound P s \<longleftrightarrow> maps_sound P (my_addr s) (pz_participants s) \<and> (\<forall>p \<in> pz_my_services s. my_addr s \<in> P p) \<and>
     (\<forall>p \<in> fst ` set (pz_participants s). P p \<noteq> {})"

definition part_inv :: "(service_id \<Rightarrow> u32 list set) \<Rightarrow> peers_state \<Rightarrow> bool" where
  "part_inv P s \<longleftrightarrow> part_shape s \<and> part_bounded s \<and> part_others s \<and> part_published s \<and> part_sound P s"

lemmas part_defs = part_shape_def part_bounded_def part_others_def part_published_def part_sound_def

text \<open>What recording a fact leaves alone.\<close>

definition same_identity :: "peers_state \<Rightarrow> peers_state \<Rightarrow> bool" where
  "same_identity s s' \<longleftrightarrow> pz_topology s' = pz_topology s \<and> pz_my_pos s' = pz_my_pos s \<and> pz_config s' = pz_config s \<and>
     pz_services s' = pz_services s \<and> pz_my_services s' = pz_my_services s \<and>
     pz_retrieved_below_level s' = pz_retrieved_below_level s \<and> pz_waiting s' = pz_waiting s"

lemma same_identity_refl [simp]: "same_identity s s"
  by (simp add: same_identity_def)

lemma same_identity_trans: "same_identity s s1 \<Longrightarrow> same_identity s1 s2 \<Longrightarrow> same_identity s s2"
  by (simp add: same_identity_def)

lemma recorded_bt_insert: "bt_wf maps \<Longrightarrow> recorded (bt_insert p m maps) q = (if q = p then m else recorded maps q)"
  by (simp add: recorded_def bt.get_insert)

lemma keys_bt_insert_same: "fst ` set (bt_insert k v m) = insert k (fst ` set m)"
  using keys_bt_insert [of k v m] by simp

lemma recorded_nonempty_key: "h \<in> recorded maps p \<Longrightarrow> p \<in> fst ` set maps"
  by (auto simp: recorded_def split: option.splits dest: map_of_SomeD intro: rev_image_eqI)

lemma add_participant_cases:
  assumes "bt_wf (pz_participants s)"
  obtains (same) "add_participant p h s = s"
  | (limit) w where "add_participant p h s = s\<lparr>pz_capacity_warned := w\<rparr>"
  | (entry) w where "\<not> service_limit_reached p s" "pos_at (pz_my_pos s) (hc_level h) \<noteq> Some (hc_pos h)"
      "add_participant p h s =
         s\<lparr>pz_participants := bt_insert p (recorded (pz_participants s) p) (pz_participants s), pz_capacity_warned := w\<rparr>"
  | (new) "\<not> service_limit_reached p s" "pos_at (pz_my_pos s) (hc_level h) \<noteq> Some (hc_pos h)"
      "h \<notin> recorded (pz_participants s) p" "card (recorded (pz_participants s) p) < max_participants_per_service (pz_config s)"
      "add_participant p h s =
         s\<lparr>pz_participants := bt_insert p (insert h (recorded (pz_participants s) p)) (pz_participants s),
           pz_snapshot := \<lparr>sn_retrieved_below_level = pz_retrieved_below_level s,
             sn_participants = entry_insert p h (sn_participants (pz_snapshot s))\<rparr>,
           pz_events := pz_events s @ [ParticipantAdded p h]\<rparr>"
proof -
  let ?m = "recorded (pz_participants s) p"
  consider (1) "pos_at (pz_my_pos s) (hc_level h) = Some (hc_pos h)"
    | (2) "pos_at (pz_my_pos s) (hc_level h) \<noteq> Some (hc_pos h)" "service_limit_reached p s"
    | (3) "pos_at (pz_my_pos s) (hc_level h) \<noteq> Some (hc_pos h)" "\<not> service_limit_reached p s"
        "h \<notin> ?m \<and> max_participants_per_service (pz_config s) \<le> card ?m"
    | (4) "pos_at (pz_my_pos s) (hc_level h) \<noteq> Some (hc_pos h)" "\<not> service_limit_reached p s" "h \<in> ?m"
    | (5) "pos_at (pz_my_pos s) (hc_level h) \<noteq> Some (hc_pos h)" "\<not> service_limit_reached p s" "h \<notin> ?m"
        "card ?m < max_participants_per_service (pz_config s)"
    by force
  then show thesis
  proof cases
    case 1
    then show thesis by (intro same) (simp add: add_participant_def)
  next
    case 2
    then show thesis by (intro limit) (simp add: add_participant_def)
  next
    case 3
    then show thesis by (intro entry) (simp_all add: add_participant_def Let_def flip: recorded_def)
  next
    case 4
    then show thesis by (intro entry [of "pz_capacity_warned s"]) (simp_all add: add_participant_def Let_def flip: recorded_def)
  next
    case 5
    then show thesis by (intro new) (simp_all add: add_participant_def Let_def flip: recorded_def)
  qed
qed

lemma key_room:
  assumes "part_bounded s" "\<not> service_limit_reached p s" "bt_wf (pz_participants s)"
  shows "card (insert p (fst ` set (pz_participants s)) - fst ` set (pz_services s)) \<le> max_services (pz_config s)"
proof -
  let ?K = "fst ` set (pz_participants s)" let ?V = "fst ` set (pz_services s)"
  consider "p \<in> ?K" | "p \<in> ?V" | "length (pz_participants s) < max_services (pz_config s)"
    using assms(2) by (auto simp: service_limit_reached_def map_of_eq_None_iff not_le)
  then show ?thesis
  proof cases
    case 3
    have "card ?K \<le> length (pz_participants s)" by (metis card_length length_map set_map)
    moreover have "card (insert p ?K - ?V) \<le> card (insert p ?K)" by (intro card_mono) auto
    moreover have "card (insert p ?K) \<le> Suc (card ?K)" by (simp add: card_insert_if)
    ultimately show ?thesis using 3 by linarith
  qed (use assms(1) in \<open>simp_all add: part_bounded_def insert_absorb insert_Diff_if\<close>)
qed

text \<open>A fact that is true and within reach keeps everything.\<close>

lemma add_participant_inv:
  assumes "part_inv P s" "P p \<inter> gnode (my_addr s) h \<noteq> {}"
  shows "part_inv P (add_participant p h s)" "same_identity s (add_participant p h s)"
proof -
  let ?s' = "add_participant p h s"
  have inv: "part_shape s" "part_bounded s" "part_others s" "part_published s" "part_sound P s"
    using assms(1) by (simp_all add: part_inv_def)
  have wf: "bt_wf (pz_participants s)" "bt_wf (sn_participants (pz_snapshot s))" using inv(1) by (simp_all add: part_shape_def)
  show "same_identity s ?s'"
    using wf(1) by (cases rule: add_participant_cases [of s p h]) (simp_all add: same_identity_def)
  have some: "P p \<noteq> {}" using assms(2) by auto
  have keys: "card (insert p (fst ` set (pz_participants s)) - fst ` set (pz_services s)) \<le> max_services (pz_config s)"
    if "\<not> service_limit_reached p s"
    using key_room inv(2) that wf(1) .
  from wf(1) show "part_inv P ?s'"
  proof (cases rule: add_participant_cases [of s p h])
    case same
    then show ?thesis using assms(1) by simp
  next
    case limit
    then show ?thesis using assms(1) by (simp add: part_inv_def part_defs)
  next
    case (entry w)
    then show ?thesis
      using inv wf keys some by (auto simp: part_inv_def part_defs recorded_bt_insert keys_bt_insert_same bt.wf_insert maps_sound_recorded)
  next
    case new
    have fin: "finite (recorded (pz_participants s) p)" using inv(1) by (simp add: part_shape_def)
    have rec: "recorded (pz_participants ?s') q =
        (if q = p then insert h (recorded (pz_participants s) p) else recorded (pz_participants s) q)" for q
      using new(5) wf(1) by (simp add: recorded_bt_insert)
    have "part_shape ?s'" using new(5) inv(1) wf rec by (simp add: part_shape_def bt.wf_insert bt_wf_entry_insert)
    moreover have "part_bounded ?s'"
      using inv(2) rec new keys fin by (simp add: part_bounded_def keys_bt_insert_same)
    moreover have "part_others ?s'" using inv(3) rec new by (auto simp: part_others_def)
    moreover have "part_published ?s'"
      using inv(4) rec new(5) wf by (simp add: part_published_def recorded_entry_insert)
    moreover have "part_sound P ?s'" using inv(5) rec new(5) assms(2) some by (auto simp: part_sound_def maps_sound_recorded keys_bt_insert_same)
    ultimately show ?thesis by (simp add: part_inv_def)
  qed
qed

text \<open>When the network has no more services and participants than the bounds allow, nothing is refused.\<close>

definition fits_caps :: "(service_id \<Rightarrow> u32 list set) \<Rightarrow> peers_state \<Rightarrow> bool" where
  "fits_caps P s \<longleftrightarrow> card {p. P p \<noteq> {}} \<le> max_services (pz_config s) \<and>
     (\<forall>p. finite {h. P p \<inter> gnode (my_addr s) h \<noteq> {}} \<and>
        card {h. P p \<inter> gnode (my_addr s) h \<noteq> {}} \<le> max_participants_per_service (pz_config s))"

lemma add_participant_keeps:
  assumes "h' \<in> recorded (pz_participants s) q" "bt_wf (pz_participants s)"
  shows "h' \<in> recorded (pz_participants (add_participant p h s)) q"
  using assms(2)
proof (cases rule: add_participant_cases [of s p h])
  case (entry w)
  then show ?thesis using assms by (auto simp: recorded_bt_insert)
next
  case new
  then show ?thesis using assms by (auto simp: recorded_bt_insert)
qed (use assms in simp_all)

lemma add_participant_records:
  assumes "part_inv P s" "fits_caps P s" "P p \<inter> gnode (my_addr s) h \<noteq> {}" "pos_at (pz_my_pos s) (hc_level h) \<noteq> Some (hc_pos h)"
  shows "h \<in> recorded (pz_participants (add_participant p h s)) p"
proof -
  let ?K = "fst ` set (pz_participants s)" let ?m = "recorded (pz_participants s) p"
  have wf: "bt_wf (pz_participants s)" and keys: "?K \<subseteq> {p. P p \<noteq> {}}" and
    sound: "?m \<subseteq> {h. P p \<inter> gnode (my_addr s) h \<noteq> {}}"
    using assms(1) by (auto simp: part_inv_def part_defs maps_sound_recorded)
  have room: "\<not> service_limit_reached p s"
  proof
    assume l: "service_limit_reached p s"
    then have "?K \<subset> {p. P p \<noteq> {}}"
      using keys assms(3) by (auto simp: service_limit_reached_def map_of_eq_None_iff)
    then have "card ?K < card {p. P p \<noteq> {}}" by (intro psubset_card_mono) simp_all
    moreover have "card ?K = length (pz_participants s)"
      using bt_wf_distinct [OF wf] by (metis distinct_card length_map set_map)
    ultimately show False using l assms(2) by (simp add: service_limit_reached_def fits_caps_def)
  qed
  have less: "card ?m < max_participants_per_service (pz_config s)" if "h \<notin> ?m"
  proof -
    let ?S = "{h. P p \<inter> gnode (my_addr s) h \<noteq> {}}"
    have cap: "finite ?S" "card ?S \<le> max_participants_per_service (pz_config s)" using assms(2) unfolding fits_caps_def by blast+
    have "?m \<subset> ?S" using sound that assms(3) by blast
    with cap(1) have "card ?m < card ?S" by (rule psubset_card_mono)
    with cap(2) show ?thesis by linarith
  qed
  show ?thesis
  proof (cases "h \<in> ?m")
    case True
    then show ?thesis using wf by (rule add_participant_keeps)
  next
    case False
    have "card ?m < max_participants_per_service (pz_config s)" using less False .
    then have "pz_participants (add_participant p h s) = bt_insert p (insert h ?m) (pz_participants s)"
      using assms(4) room False by (simp add: add_participant_def Let_def flip: recorded_def)
    then show ?thesis using recorded_bt_insert [OF wf, of p "insert h ?m" p] by simp
  qed
qed

subsection \<open>Snapshots received and sent\<close>

lemma produce_below_level_recorded:
  assumes "bt_wf maps"
  shows "bt_wf (ps_maps (produce_below_level maps my l))"
    and "recorded (ps_maps (produce_below_level maps my l)) p = {h \<in> recorded maps p. hc_level h < l}"
proof -
  have *: "bt_wf (fold (produce_step l) ms out) \<and>
      recorded (fold (produce_step l) ms out) p =
        (case map_of ms p of None \<Rightarrow> recorded out p
         | Some m \<Rightarrow> if {h \<in> m. hc_level h < l} = {} then recorded out p else {h \<in> m. hc_level h < l})"
    if "bt_wf out" "distinct (map fst ms)" for ms out
    using that
  proof (induction ms arbitrary: out)
    case Nil
    then show ?case by simp
  next
    case (Cons x ms)
    obtain q m where x: "x = (q, m)" by (cases x)
    let ?out = "produce_step l (q, m) out"
    have wf: "bt_wf ?out" using Cons.prems(1) by (simp add: produce_step_def Let_def bt.wf_insert)
    have rec: "recorded ?out p = (if p = q \<and> {h \<in> m. hc_level h < l} \<noteq> {} then {h \<in> m. hc_level h < l} else recorded out p)"
      using Cons.prems(1) by (cases "{h \<in> m. hc_level h < l} = {}") (simp_all only: produce_step_def Let_def recorded_bt_insert fst_conv snd_conv if_True if_False simp_thms)
    have none: "map_of ms q = None" using Cons.prems(2) by (simp add: x map_of_eq_None_iff)
    have "distinct (map fst ms)" using Cons.prems(2) by simp
    from Cons.IH [OF wf this] show ?case using none unfolding x rec by (cases "q = p") auto
  qed
  have d: "distinct (map fst maps)" using assms by (rule bt_wf_distinct)
  have w: "bt_wf ([] :: participant_maps)" by (rule bt.wf_empty)
  show "bt_wf (ps_maps (produce_below_level maps my l))" using * [OF w d] by (simp add: produce_below_level_def)
  have "recorded [] p = {}" by (simp add: recorded_def)
  then show "recorded (ps_maps (produce_below_level maps my l)) p = {h \<in> recorded maps p. hc_level h < l}"
    using * [OF w d] by (auto simp: produce_below_level_def recorded_def split: option.splits)
qed

text \<open>A snapshot that may be told: every fact in it holds as seen from the address it names.\<close>

definition true_snapshot :: "(service_id \<Rightarrow> u32 list set) \<Rightarrow> nat \<Rightarrow> participant_set \<Rightarrow> bool" where
  "true_snapshot P n ps \<longleftrightarrow> length (ps_my_pos ps) = n \<and> bt_wf (ps_maps ps) \<and> (\<forall>p. finite (recorded (ps_maps ps) p)) \<and>
     maps_sound P (ps_my_pos ps) (ps_maps ps)"

lemma fold_inv: "(\<And>x s. x \<in> set xs \<Longrightarrow> I s \<Longrightarrow> I (f x s)) \<Longrightarrow> I s \<Longrightarrow> I (fold f xs s)"
  by (induction xs arbitrary: s) auto

lemma merge_folded_inv:
  assumes "part_inv P s" "bt_wf (ps_maps inc)" "\<And>p. finite (recorded (ps_maps inc) p)" "maps_sound P (my_addr s) (ps_maps inc)"
  shows "part_inv P (merge_folded inc s)" "same_identity s (merge_folded inc s)"
proof -
  let ?I = "\<lambda>s'. part_inv P s' \<and> same_identity s s'"
  have step: "?I (add_participant p h s')" if "?I s'" "h \<in> recorded (ps_maps inc) p" for p h s'
  proof -
    have "P p \<inter> gnode (my_addr s) h \<noteq> {}" using assms(4) that(2) by (simp add: maps_sound_recorded)
    then have "P p \<inter> gnode (my_addr s') h \<noteq> {}" using that(1) by (simp add: same_identity_def)
    then show ?thesis using add_participant_inv [of P s' p h] that(1) same_identity_trans by blast
  qed
  have "?I (merge_folded inc s)"
    unfolding merge_folded_def
  proof (rule fold_inv, clarify)
    fix p m s' assume pm: "(p, m) \<in> set (ps_maps inc)" and I: "part_inv P s'" "same_identity s s'"
    have m: "recorded (ps_maps inc) p = m" using pm bt.entry_iff_get [OF assms(2)] by (simp add: recorded_def)
    show "?I (fold (\<lambda>hc s. if pz_retrieved_below_level s \<le> hc_level hc \<and> hc_level hc < ps_retrieved_below_level inc
         then add_participant p hc s else s) (sorted_list_of_set m) s')"
      by (rule fold_inv) (use step assms(3) [of p] m I in \<open>auto split: if_splits\<close>)
  qed (simp add: assms(1))
  then show "part_inv P (merge_folded inc s)" "same_identity s (merge_folded inc s)" by simp_all
qed

lemma apply_participant_set_inv:
  assumes "part_inv P s" "true_snapshot P (length (my_addr s)) inc"
  shows "\<exists>r s'. apply_participant_set inc s = (Ok r, s') \<and> part_inv P s' \<and> my_addr s' = my_addr s \<and>
     (\<forall>ps. r = Some ps \<longrightarrow> true_snapshot P (length (my_addr s)) ps \<and> ps_my_pos ps = my_addr s)"
proof (cases "is_fresher (pz_retrieved_below_level s) inc")
  case True
  let ?k = "mdg (my_addr s) (ps_my_pos inc)"
  let ?f = "inc\<lparr>ps_maps := fold_maps ?k (ps_my_pos inc ! ?k) (ps_maps inc)\<rparr>"
  let ?s1 = "(merge_folded ?f s)\<lparr>pz_retrieved_below_level := ps_retrieved_below_level ?f\<rparr>"
  let ?s2 = "publish_peers_snapshot ?s1"
  let ?out = "produce_below_level (pz_participants ?s2) (my_addr s) (pz_retrieved_below_level ?s2)"
  have pos: "wf_my_pos (pz_topology s) (my_addr s)" using assms(1) by (simp add: part_inv_def part_shape_def)
  have ne: "0 < length (my_addr s)" using pos by (auto simp: wf_my_pos_def wf_topology_def)
  have inc: "length (ps_my_pos inc) = length (my_addr s)" "bt_wf (ps_maps inc)" "\<And>p. finite (recorded (ps_maps inc) p)"
    "maps_sound P (ps_my_pos inc) (ps_maps inc)" using assms(2) by (simp_all add: true_snapshot_def)
  have run: "fold_to_my_granularity (my_addr s) (topology_levels (pz_topology s)) inc = Ok ?f"
    using pos ne inc(1) by (intro fold_to_my_granularity_run) (simp_all add: wf_my_pos_def topology_levels_def)
  have f: "bt_wf (ps_maps ?f)" "\<And>p. finite (recorded (ps_maps ?f) p)" "maps_sound P (my_addr s) (ps_maps ?f)"
    using fold_maps_recorded [OF inc(2)] fold_maps_sound [OF inc(2,1) ne inc(4)] inc(3) by simp_all
  note m = merge_folded_inv [OF assms(1) f]
  have s2: "part_inv P ?s2" using m(1) by (simp add: part_inv_def part_defs publish_peers_snapshot_def)
  have wf: "bt_wf (pz_participants ?s2)" "\<And>p. finite (recorded (pz_participants ?s2) p)"
    using s2 by (simp_all add: part_inv_def part_shape_def)
  have addr: "my_addr ?s2 = my_addr s" using m(2) by (simp add: same_identity_def publish_peers_snapshot_def)
  have "maps_sound P (my_addr s) (ps_maps ?out)"
    using s2 addr produce_below_level_recorded(2) [OF wf(1)] by (simp add: part_inv_def part_sound_def maps_sound_recorded)
  then have "true_snapshot P (length (my_addr s)) ?out"
    using produce_below_level_recorded [OF wf(1)] wf(2) by (simp add: true_snapshot_def) (simp add: produce_below_level_def)
  then show ?thesis
    using True run s2 addr by (simp add: apply_participant_set_def Let_def) (simp add: produce_below_level_def)
qed (use assms(1) in \<open>simp add: apply_participant_set_def\<close>)

lemma produce_maps_copy_true:
  assumes "part_inv P s"
  shows "\<exists>ps. produce_maps_copy s = Ok ps \<and> true_snapshot P (length (my_addr s)) ps \<and> ps_my_pos ps = my_addr s"
proof -
  have pos: "wf_my_pos (pz_topology s) (my_addr s)" using assms by (simp add: part_inv_def part_shape_def)
  then have ne: "my_addr s \<noteq> []" by (auto simp: wf_my_pos_def wf_topology_def)
  have wf: "bt_wf (pz_participants s)" "finite (pz_my_services s)" "\<And>p. finite (recorded (pz_participants s) p)"
    and sound: "maps_sound P (my_addr s) (pz_participants s)" and mine: "\<And>p. p \<in> pz_my_services s \<Longrightarrow> my_addr s \<in> P p"
    using assms by (simp_all add: part_inv_def part_shape_def part_sound_def)
  let ?h = "HCoord 0 (my_addr s ! 0)"
  let ?maps = "fold (\<lambda>p. entry_insert p ?h) (sorted_list_of_set (pz_my_services s)) (pz_participants s)"
  have "my_addr s \<in> gnode (my_addr s) ?h" using ne by (simp add: gnode_def)
  then have me: "P p \<inter> gnode (my_addr s) ?h \<noteq> {}" if "p \<in> pz_my_services s" for p using mine that by blast
  have m: "bt_wf ?maps" "\<And>p. finite (recorded ?maps p)" "maps_sound P (my_addr s) ?maps"
    using fold_entry_insert [OF wf(1), of ?h "sorted_list_of_set (pz_my_services s)"] wf sound me
    by (simp_all add: maps_sound_recorded)
  have run: "produce_maps_copy s = Ok (produce_below_level ?maps (my_addr s) (pz_retrieved_below_level s))"
    using ne wf(2) by (simp add: produce_maps_copy_def Let_def)
  have "true_snapshot P (length (my_addr s)) (produce_below_level ?maps (my_addr s) (pz_retrieved_below_level s))"
    using produce_below_level_recorded [OF m(1)] m(2,3) by (simp add: true_snapshot_def maps_sound_recorded) (simp add: produce_below_level_def)
  then show ?thesis using run by (simp add: produce_below_level_def)
qed

lemma apply_participant_inv:
  assumes "part_inv P s" "P p \<inter> gnode (my_addr s) h \<noteq> {}" "apply_participant now p h s = (r, s')"
  shows "part_inv P s' \<and> my_addr s' = my_addr s \<and> pz_topology s' = pz_topology s \<and> (\<forall>h'. r = Some h' \<longrightarrow> h' = h)"
proof -
  have step: "part_inv P (add_participant p h (s\<lparr>pz_recent_published := m\<rparr>)) \<and>
      same_identity (s\<lparr>pz_recent_published := m\<rparr>) (add_participant p h (s\<lparr>pz_recent_published := m\<rparr>))" for m
    using assms(1,2) add_participant_inv [of P "s\<lparr>pz_recent_published := m\<rparr>" p h] by (simp add: part_inv_def part_defs)
  show ?thesis
    using assms(1,3) step by (auto simp: apply_participant_def Let_def same_identity_def split: if_splits)
qed

subsection \<open>Every command\<close>

text \<open>What a caller may tell the actor: services this node really runs, participants that exist, snapshots that
  are true where they were taken.\<close>

fun true_cmd :: "(service_id \<Rightarrow> u32 list set) \<Rightarrow> peers_state \<Rightarrow> peers_cmd \<Rightarrow> bool" where
  "true_cmd P s (Register p optional) \<longleftrightarrow> (optional \<longrightarrow> my_addr s \<in> P p)"
| "true_cmd P s (ApplyParticipant p h) \<longleftrightarrow> P p \<inter> gnode (my_addr s) h \<noteq> {}"
| "true_cmd P s (ApplyParticipantSet inc) \<longleftrightarrow> true_snapshot P (length (my_addr s)) inc"
| "true_cmd P s _ \<longleftrightarrow> True"

text \<open>What the actor may answer.\<close>

fun true_reply :: "(service_id \<Rightarrow> u32 list set) \<Rightarrow> peers_state \<Rightarrow> peers_reply \<Rightarrow> bool" where
  "true_reply P s (ReplyMaps ps) \<longleftrightarrow> true_snapshot P (length (my_addr s)) ps \<and> ps_my_pos ps = my_addr s"
| "true_reply P s (ReplyForward r) \<longleftrightarrow>
     (case r of None \<Rightarrow> True | Some ps \<Rightarrow> true_snapshot P (length (my_addr s)) ps \<and> ps_my_pos ps = my_addr s)"
| "true_reply P s _ \<longleftrightarrow> True"

text \<open>Message numbers: the search for an unused one ends as soon as some counter ahead hashes to one.\<close>

lemma next_msg_id_loop_ends:
  assumes "\<not> used (hash_one k)"
  shows "\<exists>i c'. next_msg_id_loop hash_one used c = Some (i, c') \<and> \<not> used i"
proof -
  have *: "\<exists>i c'. next_msg_id_loop hash_one used c = Some (i, c') \<and> \<not> used i"
    if "\<not> used (hash_one (c + 1 + word_of_nat n))" for n c
    using that
  proof (induction n arbitrary: c)
    case 0
    then show ?case by (subst next_msg_id_loop.simps) (simp add: Let_def)
  next
    case (Suc n)
    show ?case
    proof (cases "used (hash_one (c + 1))")
      case True
      have "\<not> used (hash_one (c + 1 + 1 + word_of_nat n))" using Suc.prems by (simp add: add.assoc)
      from Suc.IH [OF this] show ?thesis using True by (subst next_msg_id_loop.simps) (simp add: Let_def)
    next
      case False
      then show ?thesis by (subst next_msg_id_loop.simps) (simp add: Let_def)
    qed
  qed
  show ?thesis using * [of c "unat (k - (c + 1))"] assms by (simp add: word_of_nat_eq_0_iff)
qed

lemma all_gnodes_up_to_lvl_run:
  assumes "wf_my_pos t my"
  shows "\<exists>gs. all_gnodes_up_to_lvl t my lvl = Ok gs \<and>
     set gs = {h. hc_level h < lvl \<and> hc_level h < length my \<and> hc_pos h < gsizes t ! hc_level h \<and> hc_pos h \<noteq> my ! hc_level h} \<union>
       {HCoord 0 (my ! 0)}"
proof -
  have my: "length my = length (gsizes t)" "my \<noteq> []" using assms by (auto simp: wf_my_pos_def wf_topology_def)
  let ?f = "\<lambda>(l, p). map (HCoord l) (filter (\<lambda>q. q \<noteq> p) (positions_below (gsizes t ! l)))"
  let ?lps = "take lvl (enumerate 0 my)"
  have lps: "set ?lps = {(l, my ! l) | l. l < lvl \<and> l < length my}"
    by (force simp: set_conv_nth nth_enumerate_eq)
  have run: "try_map (gnodes_of_level t) ?lps = Ok (map ?f ?lps)"
    using my(1) lps by (intro try_map_all_Ok) (auto simp: gnodes_of_level_def topology_gsize_def)
  note pos = set_positions_below
  have "set (concat (map ?f ?lps)) =
      {h. hc_level h < lvl \<and> hc_level h < length my \<and> hc_pos h < gsizes t ! hc_level h \<and> hc_pos h \<noteq> my ! hc_level h}"
  proof (intro equalityI subsetI)
    fix h assume "h \<in> set (concat (map ?f ?lps))"
    then show "h \<in> {h. hc_level h < lvl \<and> hc_level h < length my \<and> hc_pos h < gsizes t ! hc_level h \<and> hc_pos h \<noteq> my ! hc_level h}"
      by (auto simp: lps pos)
  next
    fix h assume h: "h \<in> {h. hc_level h < lvl \<and> hc_level h < length my \<and> hc_pos h < gsizes t ! hc_level h \<and> hc_pos h \<noteq> my ! hc_level h}"
    then have "(hc_level h, my ! hc_level h) \<in> set ?lps" "h \<in> set (?f (hc_level h, my ! hc_level h))"
      by (cases h; simp add: lps pos)+
    then show "h \<in> set (concat (map ?f ?lps))" by (simp only: set_concat set_map) blast
  qed
  then show ?thesis using run my(2) by (auto simp: all_gnodes_up_to_lvl_def)
qed

end
