(* ===== verification/Peers_Serve.thy ===== *)
theory Peers_Serve
  imports Peers_StateLaws
begin

section \<open>Every run of the peer services actor\<close>

text \<open>
  The table of pending searches: what each command of the actor does to it, and the invariant that links the recorded
  respondant to the events sent.
\<close>

subsection \<open>The table of pending searches\<close>

text \<open>What a search has been sent: the nodes that fetched its request, the answers, the successive targets.\<close>

fun last_respondant :: "route_event list \<Rightarrow> tuple_node option" where
  "last_respondant [] = None"
| "last_respondant (e # es) =
     (case last_respondant es of Some n \<Rightarrow> Some n | None \<Rightarrow> (case e of RespondantNode n \<Rightarrow> Some n | _ \<Rightarrow> None))"

fun is_answer :: "route_event \<Rightarrow> bool" where
  "is_answer (Response _) \<longleftrightarrow> True"
| "is_answer (RefuseEvent _) \<longleftrightarrow> True"
| "is_answer RedoFromStartEvent \<longleftrightarrow> True"
| "is_answer _ \<longleftrightarrow> False"

fun next_target :: "route_event \<Rightarrow> tuple_gnode list" where
  "next_target (NextDestination g) = [g]"
| "next_target _ = []"

definition targets :: "route_event list \<Rightarrow> tuple_gnode list" where
  "targets es = concat (map next_target es)"

definition answered_after :: "route_event list \<Rightarrow> bool" where
  "answered_after es \<longleftrightarrow> (\<forall>i < length es. is_answer (es ! i) \<longrightarrow> last_respondant (take i es) \<noteq> None)"

definition waiting_ok :: "waiting_answer \<Rightarrow> bool" where
  "waiting_ok wa \<longleftrightarrow> wa_respondant_node wa = last_respondant (wa_sent wa) \<and> answered_after (wa_sent wa) \<and>
     sorted_wrt (>) (map tg_level (targets (wa_sent wa))) \<and>
     (\<forall>g \<in> set (targets (wa_sent wa)). tg_level (wa_min_target wa) \<le> tg_level g \<and> tg_top g = tg_top (wa_min_target wa)) \<and>
     (\<forall>n. RespondantNode n \<in> set (wa_sent wa) \<longrightarrow> tn_top n = tg_top (wa_min_target wa))"

definition table_ok :: "peers_state \<Rightarrow> bool" where
  "table_ok s \<longleftrightarrow> hm_wf (pz_waiting s) \<and> (\<forall>i wa. map_of (pz_waiting s) i = Some wa \<longrightarrow> waiting_ok wa)"

lemma last_respondant_snoc:
  "last_respondant (es @ [e]) = (case e of RespondantNode n \<Rightarrow> Some n | _ \<Rightarrow> last_respondant es)"
  by (induction es) (auto split: option.splits route_event.splits)

lemma targets_snoc [simp]: "targets (es @ [e]) = targets es @ next_target e"
  by (simp add: targets_def)

lemma answered_after_snoc:
  "answered_after (es @ [e]) \<longleftrightarrow> answered_after es \<and> (is_answer e \<longrightarrow> last_respondant es \<noteq> None)"
  by (auto simp: answered_after_def nth_append less_Suc_eq)

lemmas log_simps = last_respondant_snoc answered_after_snoc

text \<open>One more event, on a table entry.\<close>

lemma table_ok_insert:
  "table_ok s \<Longrightarrow> waiting_ok wa \<Longrightarrow> table_ok (s\<lparr>pz_waiting := hm_insert i wa (pz_waiting s)\<rparr>)"
  by (auto simp: table_ok_def hm.wf_insert hm.get_insert split: if_splits)

lemma table_ok_remove: "table_ok s \<Longrightarrow> table_ok (s\<lparr>pz_waiting := hm_remove i (pz_waiting s)\<rparr>)"
  by (auto simp: table_ok_def hm.wf_remove hm.get_remove split: if_splits)

lemma table_okD: "table_ok s \<Longrightarrow> map_of (pz_waiting s) i = Some wa \<Longrightarrow> waiting_ok wa"
  by (simp add: table_ok_def)

text \<open>An event that names no node and no target: an answer may be one only when some node has fetched the request.\<close>

definition plain :: "route_event \<Rightarrow> bool" where
  "plain e \<longleftrightarrow> (\<forall>n. e \<noteq> RespondantNode n) \<and> next_target e = []"

lemma waiting_ok_plain:
  assumes "waiting_ok wa" "plain e" "is_answer e \<Longrightarrow> wa_respondant_node wa \<noteq> None"
  shows "waiting_ok (wa\<lparr>wa_sent := wa_sent wa @ [e]\<rparr>)"
proof -
  have "last_respondant (wa_sent wa @ [e]) = last_respondant (wa_sent wa)"
    using assms(2) by (auto simp: last_respondant_snoc plain_def split: route_event.splits)
  then show ?thesis using assms by (auto simp: waiting_ok_def answered_after_snoc plain_def)
qed

lemma send_if_table:
  assumes "table_ok s" "plain e" "\<And>wa. P wa \<Longrightarrow> is_answer e \<Longrightarrow> wa_respondant_node wa \<noteq> None"
  shows "table_ok (send_if i P e s)"
proof (cases "map_of (pz_waiting s) i")
  case (Some wa)
  have "P wa \<Longrightarrow> waiting_ok (wa\<lparr>wa_sent := wa_sent wa @ [e]\<rparr>)"
    using waiting_ok_plain [OF table_okD [OF assms(1) Some] assms(2)] assms(3) by blast
  then show ?thesis using Some assms(1) table_ok_insert by (simp add: send_if_def send_event_def)
qed (simp add: send_if_def assms(1))

lemma send_if_plain_table: "table_ok s \<Longrightarrow> plain e \<Longrightarrow> \<not> is_answer e \<Longrightarrow> table_ok (send_if i P e s)"
  by (rule send_if_table) simp_all

lemma send_event_table:
  assumes "table_ok s" "plain e" "\<not> is_answer e"
  shows "table_ok (send_event i e s)"
  using send_if_table [of s e "\<lambda>_. True" i] assms by (cases "map_of (pz_waiting s) i") (simp_all add: send_if_def send_event_def)

lemma respondant_matches_some: "respondant_matches wa n \<Longrightarrow> wa_respondant_node wa \<noteq> None"
  by (auto simp: respondant_matches_def split: option.splits)

lemma get_request_table:
  assumes "table_ok s" "get_request i n s = (r, s')"
  shows "table_ok s'"
proof (cases "map_of (pz_waiting s) i")
  case (Some wa)
  let ?wa = "wa\<lparr>wa_respondant_node := Some n, wa_sent := wa_sent wa @ [RespondantNode n]\<rparr>"
  have ok: "waiting_ok wa" using assms(1) Some by (rule table_okD)
  have wf: "hm_wf (pz_waiting s)" using assms(1) by (simp add: table_ok_def)
  show ?thesis
  proof (cases "tg_top (wa_min_target wa) = tn_top n")
    case True
    have "waiting_ok ?wa" using ok True by (auto simp: waiting_ok_def log_simps)
    moreover have "s' = s\<lparr>pz_waiting := hm_insert i ?wa (hm_insert i (wa\<lparr>wa_respondant_node := Some n\<rparr>) (pz_waiting s))\<rparr>"
      using assms(2) Some True wf by (simp add: get_request_def send_event_def hm.get_insert Let_def)
    ultimately show ?thesis using assms(1) by (auto simp: table_ok_def hm.wf_insert hm.get_insert split: if_splits)
  qed (use assms Some in \<open>simp add: get_request_def\<close>)
qed (use assms in \<open>simp add: get_request_def\<close>)

lemma set_next_destination_table:
  assumes "table_ok s"
  shows "table_ok (set_next_destination i g s)"
proof (cases "map_of (pz_waiting s) i")
  case (Some wa)
  let ?wa = "wa\<lparr>wa_min_target := g, wa_sent := wa_sent wa @ [NextDestination g]\<rparr>"
  have ok: "waiting_ok wa" using assms(1) Some by (rule table_okD)
  have wf: "hm_wf (pz_waiting s)" using assms(1) by (simp add: table_ok_def)
  show ?thesis
  proof (cases "is_deeper_or_equal wa g True")
    case True
    then have "tg_top g = tg_top (wa_min_target wa)" "tg_level g < tg_level (wa_min_target wa)"
      by (auto simp: is_deeper_or_equal_def split: if_splits)
    note g = this
    have deeper: "tg_level g < tg_level g'" "tg_top g' = tg_top g" if "g' \<in> set (targets (wa_sent wa))" for g'
      using ok that g by (auto simp: waiting_ok_def dest: order_less_le_trans)
    then have "sorted_wrt (>) (map tg_level (targets (wa_sent wa) @ [g]))"
      using ok by (simp add: waiting_ok_def sorted_wrt_append)
    then have "waiting_ok ?wa" using ok deeper g by (auto simp: waiting_ok_def log_simps less_imp_le)
    moreover have "set_next_destination i g s =
        s\<lparr>pz_waiting := hm_insert i ?wa (hm_insert i (wa\<lparr>wa_min_target := g\<rparr>) (pz_waiting s))\<rparr>"
      using Some True wf by (simp add: set_next_destination_def send_event_def hm.get_insert)
    ultimately show ?thesis using assms by (auto simp: table_ok_def hm.wf_insert hm.get_insert split: if_splits)
  qed (use assms Some in \<open>simp add: set_next_destination_def\<close>)
qed (use assms in \<open>simp add: set_next_destination_def\<close>)

subsection \<open>Every command\<close>

definition peers_inv :: "(service_id \<Rightarrow> u32 list set) \<Rightarrow> peers_state \<Rightarrow> bool" where
  "peers_inv P s \<longleftrightarrow> part_inv P s \<and> table_ok s"

definition same_address :: "peers_state \<Rightarrow> peers_state \<Rightarrow> bool" where
  "same_address s s' \<longleftrightarrow> pz_topology s' = pz_topology s \<and> pz_my_pos s' = pz_my_pos s \<and> pz_config s' = pz_config s"

text \<open>Parts of the state that participation says nothing about.\<close>

lemma part_inv_frame [simp]:
  "part_inv P (s\<lparr>pz_waiting := w\<rparr>) = part_inv P s"
  "part_inv P (s\<lparr>pz_next_msg_id := n\<rparr>) = part_inv P s"
  "part_inv P (s\<lparr>pz_origin_replay := g\<rparr>) = part_inv P s"
  by (simp_all add: part_inv_def part_defs)

definition only_waiting :: "peers_state \<Rightarrow> peers_state \<Rightarrow> bool" where
  "only_waiting s s' \<longleftrightarrow> (\<exists>w. s' = s\<lparr>pz_waiting := w\<rparr>)"

lemma only_waiting_inv: "only_waiting s s' \<Longrightarrow> peers_inv P s \<Longrightarrow> table_ok s' \<Longrightarrow> peers_inv P s' \<and> same_address s s'"
  by (auto simp: only_waiting_def peers_inv_def same_address_def)

lemma only_waiting_refl [simp]: "only_waiting s s"
  unfolding only_waiting_def by (rule exI [of _ "pz_waiting s"]) simp

lemma only_waiting_send: "only_waiting s s' \<Longrightarrow> only_waiting s (send_event i e s')"
  by (auto simp: only_waiting_def send_event_def split: option.splits)

lemma only_waiting_put: "only_waiting s s' \<Longrightarrow> only_waiting s (s'\<lparr>pz_waiting := w\<rparr>)"
  by (auto simp: only_waiting_def)

lemmas only_waiting_intros = only_waiting_refl only_waiting_send only_waiting_put

lemma only_waiting_send_if: "only_waiting s (send_if i Q e s)"
  by (simp add: send_if_def only_waiting_intros split: option.splits)

lemma only_waiting_get_request: "get_request i n s = (r, s') \<Longrightarrow> only_waiting s s'"
  by (auto simp: get_request_def Let_def only_waiting_intros split: option.splits if_splits)

lemma only_waiting_set_next: "only_waiting s (set_next_destination i g s)"
  by (simp add: set_next_destination_def only_waiting_intros split: option.splits)

lemma plain_simps [simp]:
  "plain (Response v)" "plain (RefuseEvent f)" "plain RedoFromStartEvent" "plain (Failure g)" "plain (NonParticipant g)"
  "plain MissingOptionalMaps"
  by (simp_all add: plain_def)

text \<open>A message number is free.\<close>

definition ids_left :: "(i32 \<Rightarrow> i32) \<Rightarrow> peers_state \<Rightarrow> bool" where
  "ids_left hash_one s \<longleftrightarrow> (\<exists>k. map_of (pz_waiting s) (hash_one k) = None)"

definition serves :: "(service_id \<Rightarrow> u32 list set) \<Rightarrow> (i32 \<Rightarrow> i32) \<Rightarrow> nat \<Rightarrow> peers_cmd \<Rightarrow> peers_state \<Rightarrow> bool" where
  "serves P hash_one now c s \<longleftrightarrow> (\<exists>r s'. handle_cmd hash_one now c s = (Ok r, s') \<and> peers_inv P s' \<and> same_address s s' \<and> true_reply P s r)"

lemma servesI:
  "handle_cmd hash_one now c s = (Ok r, s') \<Longrightarrow> peers_inv P s' \<and> same_address s s' \<Longrightarrow> true_reply P s r \<Longrightarrow> serves P hash_one now c s"
  by (auto simp: serves_def)

lemma serves_waiting:
  assumes "peers_inv P s" "handle_cmd hash_one now c s = (Ok r, s')" "only_waiting s s'" "table_ok s'" "true_reply P s r"
  shows "serves P hash_one now c s"
  using assms(2) only_waiting_inv [OF assms(3,1,4)] assms(5) by (rule servesI)

lemma same_address_refl [simp]: "same_address s s"
  by (simp add: same_address_def)

lemma serves_register:
  assumes "peers_inv P s" "true_cmd P s (Register p opt)"
  shows "serves P hash_one now (Register p opt) s"
proof (rule servesI [OF handle_cmd.simps(1)])
  let ?s' = "s\<lparr>pz_services := bt_insert p opt (pz_services s),
    pz_my_services := (if opt then insert p (pz_my_services s) else pz_my_services s)\<rparr>"
  have inv: "part_inv P s" "table_ok s" using assms(1) by (simp_all add: peers_inv_def)
  let ?K = "fst ` set (pz_participants s)" let ?V = "fst ` set (pz_services s)"
  have "card (?K - insert p ?V) \<le> card (?K - ?V)" by (intro card_mono) auto
  then have "part_bounded ?s'" using inv(1) by (simp add: part_inv_def part_bounded_def keys_bt_insert_same)
  then have "part_inv P ?s'"
    using inv(1) assms(2) by (auto simp: part_inv_def part_shape_def part_others_def part_published_def part_sound_def bt.wf_insert)
  then show "peers_inv P ?s' \<and> same_address s ?s'" using inv(2) by (simp add: peers_inv_def table_ok_def same_address_def)
qed simp

lemma serves_gnodes:
  assumes "peers_inv P s"
  shows "serves P hash_one now (NonParticipantGnodes p l) s"
proof -
  have "wf_my_pos (pz_topology s) (my_addr s)" using assms by (simp add: peers_inv_def part_inv_def part_shape_def)
  moreover then have "my_addr s \<noteq> []" by (auto simp: wf_my_pos_def wf_topology_def)
  ultimately have "\<exists>gs. non_participant_gnodes p l s = Ok gs"
    using all_gnodes_up_to_lvl_run [of "pz_topology s" "my_addr s" l] by (auto simp: non_participant_gnodes_def)
  then obtain gs where "non_participant_gnodes p l s = Ok gs" ..
  then have "handle_cmd hash_one now (NonParticipantGnodes p l) s = (Ok (ReplyGnodes gs), s)"
    by (simp add: reply_read_def st_bind_def st_read_def st_ret_def)
  from servesI [OF this] show ?thesis using assms by simp
qed

lemma serves_next_id:
  assumes "peers_inv P s" "ids_left hash_one s"
  shows "serves P hash_one now NextMsgId s"
proof -
  obtain k where "map_of (pz_waiting s) (hash_one k) = None" using assms(2) by (auto simp: ids_left_def)
  then obtain i c where "next_msg_id_loop hash_one (\<lambda>i. map_of (pz_waiting s) i \<noteq> None) (pz_next_msg_id s) = Some (i, c)"
    using next_msg_id_loop_ends [of "\<lambda>i. map_of (pz_waiting s) i \<noteq> None" hash_one k "pz_next_msg_id s"] by auto
  then have "handle_cmd hash_one now NextMsgId s = (Ok (ReplyMsgId i), s\<lparr>pz_next_msg_id := c\<rparr>)" by simp
  from servesI [OF this] show ?thesis using assms(1) by (simp add: peers_inv_def table_ok_def same_address_def)
qed

lemma add_participant_frame:
  "pz_waiting (add_participant p h s) = pz_waiting s \<and> same_address s (add_participant p h s)"
  by (simp add: add_participant_def Let_def same_address_def)

lemma serves_participant:
  assumes "peers_inv P s" "true_cmd P s (ApplyParticipant p h)"
  shows "serves P hash_one now (ApplyParticipant p h) s"
proof -
  obtain r s' where run: "apply_participant now p h s = (r, s')" by fastforce
  have part: "part_inv P s'" using apply_participant_inv [OF _ _ run] assms by (simp add: peers_inv_def)
  have wf: "bt_wf (pz_participants s)" using assms(1) by (simp add: peers_inv_def part_inv_def part_shape_def)
  have "pz_waiting (add_participant p h (s\<lparr>pz_recent_published := m\<rparr>)) = pz_waiting s \<and>
      same_address s (add_participant p h (s\<lparr>pz_recent_published := m\<rparr>))" for m
    using add_participant_frame [of p h "s\<lparr>pz_recent_published := m\<rparr>"] by (simp add: same_address_def)
  then have "pz_waiting s' = pz_waiting s" "same_address s s'"
    using run by (auto simp: apply_participant_def Let_def split: if_splits)
  moreover have "handle_cmd hash_one now (ApplyParticipant p h) s = (Ok (ReplyApplied r), s')" by (simp add: run)
  from servesI [OF this] have "peers_inv P s' \<and> same_address s s' \<Longrightarrow> ?thesis" by simp
  ultimately show ?thesis using part assms(1) by (simp add: peers_inv_def table_ok_def)
qed

lemma serves_maps:
  assumes "peers_inv P s"
  shows "serves P hash_one now AskParticipantMaps s"
proof -
  obtain ps where ps: "produce_maps_copy s = Ok ps" "true_snapshot P (length (my_addr s)) ps" "ps_my_pos ps = my_addr s"
    using produce_maps_copy_true assms by (auto simp: peers_inv_def)
  then have "handle_cmd hash_one now AskParticipantMaps s = (Ok (ReplyMaps ps), s)"
    by (simp add: reply_read_def st_bind_def st_read_def st_ret_def)
  from servesI [OF this] show ?thesis using assms ps by simp
qed

lemma merge_folded_waiting: "pz_waiting (merge_folded f s) = pz_waiting s \<and> same_address s (merge_folded f s)"
proof -
  let ?I = "\<lambda>s'. pz_waiting s' = pz_waiting s \<and> same_address s s'"
  let ?f = "\<lambda>p hc s. if pz_retrieved_below_level s \<le> hc_level hc \<and> hc_level hc < ps_retrieved_below_level f
         then add_participant p hc s else s"
  have step: "?I (?f p h s')" if "?I s'" for p h s'
    using add_participant_frame [of p h s'] that by (simp add: same_address_def)
  have inner: "?I (fold (?f p) hs s')" if "?I s'" for p hs s'
    by (rule fold_inv [of hs ?I "?f p" s']) (rule step, assumption, rule that)
  have "?I (fold (\<lambda>(p, m). fold (?f p) (sorted_list_of_set m)) (ps_maps f) s)"
  proof (rule fold_inv [of "ps_maps f" ?I "\<lambda>(p, m). fold (?f p) (sorted_list_of_set m)" s])
    show "?I ((\<lambda>(p, m). fold (?f p) (sorted_list_of_set m)) x s')" if "?I s'" for x s'
      using inner [OF that, of "fst x" "sorted_list_of_set (snd x)"] by (simp only: case_prod_beta)
  qed simp
  then show ?thesis unfolding merge_folded_def .
qed

lemma serves_participant_set:
  assumes "peers_inv P s" "true_cmd P s (ApplyParticipantSet inc)"
  shows "serves P hash_one now (ApplyParticipantSet inc) s"
proof -
  obtain r s' where run: "apply_participant_set inc s = (Ok r, s')" "part_inv P s'"
    "\<forall>ps. r = Some ps \<longrightarrow> true_snapshot P (length (my_addr s)) ps \<and> ps_my_pos ps = my_addr s"
    using apply_participant_set_inv [of P s inc] assms by (auto simp: peers_inv_def)
  have "pz_waiting s' = pz_waiting s \<and> same_address s s'"
    using run(1) merge_folded_waiting [of _ s]
    by (auto simp: apply_participant_set_def Let_def publish_peers_snapshot_def same_address_def split: if_splits res.splits)
  moreover have "handle_cmd hash_one now (ApplyParticipantSet inc) s = (Ok (ReplyForward r), s')"
    by (simp add: run(1) st_bind_def st_ret_def)
  from servesI [OF this] have "peers_inv P s' \<and> same_address s s' \<Longrightarrow> ?thesis" using run(3) by (simp split: option.splits)
  ultimately show ?thesis using run(2) assms(1) by (simp add: peers_inv_def table_ok_def)
qed

text \<open>The commands of the table.\<close>

fun table_cmd :: "peers_cmd \<Rightarrow> bool" where
  "table_cmd (RegisterWaiting _ _ _) = True"
| "table_cmd (UnregisterWaiting _) = True"
| "table_cmd (GetRequest _ _) = True"
| "table_cmd (SetResponse _ _ _) = True"
| "table_cmd (SetRefuseMessage _ _ _) = True"
| "table_cmd (SetRedoFromStart _ _) = True"
| "table_cmd (SetNextDestination _ _) = True"
| "table_cmd (SetFailure _ _) = True"
| "table_cmd (SetNonParticipant _ _) = True"
| "table_cmd (SetMissingOptionalMaps _) = True"
| "table_cmd _ = False"

lemma serves_table:
  assumes "peers_inv P s" "table_cmd c"
  shows "serves P hash_one now c s"
proof -
  have t: "table_ok s" using assms(1) by (simp add: peers_inv_def)
  show ?thesis using assms(2)
  proof (cases c)
    case (RegisterWaiting i g r)
    let ?wa = "\<lparr>wa_min_target = g, wa_respondant_node = None, wa_request = r, wa_sent = []\<rparr>"
    have "waiting_ok ?wa" by (simp add: waiting_ok_def answered_after_def targets_def)
    then show ?thesis unfolding RegisterWaiting
      by (intro serves_waiting [OF assms(1) handle_cmd.simps(7)] only_waiting_intros table_ok_insert t) simp_all
  next
    case (UnregisterWaiting i)
    then show ?thesis
      by (simp only:) (intro serves_waiting [OF assms(1) handle_cmd.simps(8)] only_waiting_intros table_ok_remove t, simp)
  next
    case (GetRequest i n)
    obtain r s' where run: "get_request i n s = (r, s')" by fastforce
    then have "handle_cmd hash_one now c s = (Ok (ReplyRequest r), s')" by (simp add: GetRequest)
    from serves_waiting [OF assms(1) this only_waiting_get_request [OF run] get_request_table [OF t run]] show ?thesis by simp
  next
    case (SetResponse i v n)
    then show ?thesis
      by (simp only:) (intro serves_waiting [OF assms(1) handle_cmd.simps(10)] only_waiting_send_if send_if_table t,
        simp_all add: respondant_matches_some)
  next
    case (SetRefuseMessage i v n)
    then show ?thesis
      by (simp only:) (intro serves_waiting [OF assms(1) handle_cmd.simps(11)] only_waiting_send_if send_if_table t,
        simp_all add: respondant_matches_some)
  next
    case (SetRedoFromStart i n)
    then show ?thesis
      by (simp only:) (intro serves_waiting [OF assms(1) handle_cmd.simps(12)] only_waiting_send_if send_if_table t,
        simp_all add: respondant_matches_some)
  next
    case (SetNextDestination i g)
    then show ?thesis
      by (simp only:) (intro serves_waiting [OF assms(1) handle_cmd.simps(13)] only_waiting_set_next set_next_destination_table t, simp)
  next
    case (SetFailure i g)
    then show ?thesis
      by (simp only:) (intro serves_waiting [OF assms(1) handle_cmd.simps(14)] only_waiting_send_if send_if_table t, simp_all)
  next
    case (SetNonParticipant i g)
    then show ?thesis
      by (simp only:) (intro serves_waiting [OF assms(1) handle_cmd.simps(15)] only_waiting_send_if send_if_table t, simp_all)
  next
    case (SetMissingOptionalMaps i)
    then show ?thesis
      by (simp only:) (intro serves_waiting [OF assms(1) handle_cmd.simps(16)] only_waiting_intros send_event_table t, simp_all)
  qed simp_all
qed

lemma handle_cmd_serves:
  assumes "peers_inv P s" "true_cmd P s c" "c = NextMsgId \<Longrightarrow> ids_left hash_one s"
  shows "serves P hash_one now c s"
proof (cases "table_cmd c")
  case True
  then show ?thesis using serves_table assms(1) by blast
next
  case False
  then show ?thesis
  proof (cases c)
    case (Register p opt)
    then show ?thesis using serves_register assms by simp
  next
    case (NonParticipantGnodes p l)
    then show ?thesis using serves_gnodes assms by simp
  next
    case NextMsgId
    then show ?thesis using serves_next_id assms by simp
  next
    case (ApplyParticipant p h)
    then show ?thesis using serves_participant assms by simp
  next
    case AskParticipantMaps
    then show ?thesis using serves_maps assms by simp
  next
    case (ApplyParticipantSet inc)
    then show ?thesis using serves_participant_set assms by simp
  next
    case (ObserveOriginSequence k q)
    obtain r g where "observe k q (pz_origin_replay s) = (r, g)" by fastforce
    then have "handle_cmd hash_one now c s = (Ok (ReplyObserved r), s\<lparr>pz_origin_replay := g\<rparr>)" by (simp add: ObserveOriginSequence)
    from servesI [OF this] show ?thesis using assms(1) by (simp add: peers_inv_def table_ok_def same_address_def)
  qed (use assms(1) False in \<open>auto simp: serves_def\<close>)
qed

text \<open>The table alone needs no truth: whatever is told, an answer is delivered only to a search whose request
  was fetched by the node that answers.\<close>

lemma other_cmd_waiting: "\<not> table_cmd c \<Longrightarrow> pz_waiting (snd (handle_cmd hash_one now c s)) = pz_waiting s"
proof (cases c)
  case (ApplyParticipant p h)
  show ?thesis using add_participant_frame [of p h "s\<lparr>pz_recent_published := _\<rparr>"] ApplyParticipant
    by (simp add: apply_participant_def Let_def)
next
  case (ApplyParticipantSet inc)
  have "pz_waiting (snd (apply_participant_set inc s)) = pz_waiting s"
    using merge_folded_waiting [of _ s] by (simp add: apply_participant_set_def Let_def publish_peers_snapshot_def split: res.splits)
  then show ?thesis
    unfolding ApplyParticipantSet by (auto simp: st_bind_def st_ret_def split: prod.splits res.splits)
qed (simp_all add: case_prod_beta Let_def reply_read_def st_bind_def st_read_def st_ret_def split: res.splits option.splits)

lemma handle_cmd_table:
  assumes "table_ok s"
  shows "table_ok (snd (handle_cmd hash_one now c s))"
proof (cases "table_cmd c")
  case True
  then show ?thesis
  proof (cases c)
    case (RegisterWaiting i g r)
    have "waiting_ok \<lparr>wa_min_target = g, wa_respondant_node = None, wa_request = r, wa_sent = []\<rparr>"
      by (simp add: waiting_ok_def answered_after_def targets_def)
    then show ?thesis using assms RegisterWaiting by (simp add: table_ok_insert)
  next
    case (GetRequest i n)
    obtain r s' where "get_request i n s = (r, s')" by fastforce
    then show ?thesis using get_request_table [OF assms] GetRequest by simp
  qed (use assms in \<open>simp_all add: table_ok_remove set_next_destination_table send_if_table send_if_plain_table send_event_table
      respondant_matches_some\<close>)
next
  case False
  then show ?thesis using other_cmd_waiting [OF False, of hash_one now s] assms by (simp add: table_ok_def)
qed

subsection \<open>Runs\<close>

text \<open>Runs of the actor from its creation, over commands that \<open>ok\<close> allows.\<close>

inductive peers_run ::
  "(peers_state \<Rightarrow> peers_cmd \<Rightarrow> bool) \<Rightarrow> (i32 \<Rightarrow> i32) \<Rightarrow> topology \<Rightarrow> naddr \<Rightarrow> peers_config \<Rightarrow> usize \<Rightarrow> peers_state \<Rightarrow> bool"
  for ok hash_one t my config retrieved_below_level where
  start: "peers_run ok hash_one t my config retrieved_below_level (peers_new t my config retrieved_below_level)"
| serve: "peers_run ok hash_one t my config retrieved_below_level s \<Longrightarrow> ok s c \<Longrightarrow> handle_cmd hash_one now c s = (r, s') \<Longrightarrow>
     peers_run ok hash_one t my config retrieved_below_level s'"

lemma recorded_Nil [simp]: "recorded [] p = {}"
  by (simp add: recorded_def)

lemma peers_new_inv: "wf_my_pos t (naddr_pos my) \<Longrightarrow> peers_inv P (peers_new t my config r)"
  by (simp add: bt.wf_empty hm.wf_empty peers_inv_def part_inv_def part_defs table_ok_def peers_new_def maps_sound_recorded)

lemma handle_cmd_inv:
  assumes "peers_inv P s" "true_cmd P s c" "handle_cmd hash_one now c s = (r, s')"
  shows "peers_inv P s' \<and> same_address s s'"
proof (cases "c = NextMsgId")
  case True
  then show ?thesis using assms by (auto simp: peers_inv_def table_ok_def same_address_def split: option.splits)
next
  case False
  have "serves P hash_one now c s" using assms(1,2) False by (intro handle_cmd_serves) simp_all
  then show ?thesis using assms(3) by (auto simp: serves_def)
qed

lemma peers_run_inv:
  assumes "peers_run (true_cmd P) hash_one t my config r s" "wf_my_pos t (naddr_pos my)"
  shows "peers_inv P s \<and> pz_topology s = t \<and> pz_my_pos s = my \<and> pz_config s = config"
  using assms(1)
proof induction
  case start
  then show ?case using peers_new_inv [OF assms(2)] by (simp add: peers_new_def)
next
  case (serve s c now r' s')
  then show ?case using handle_cmd_inv [of P s c hash_one now r' s'] by (simp add: same_address_def)
qed

lemma peers_run_table: "peers_run ok hash_one t my config r s \<Longrightarrow> table_ok s"
proof (induction rule: peers_run.induct)
  case start
  then show ?case by (simp add: table_ok_def peers_new_def hm.wf_empty)
next
  case (serve s c now r' s')
  then show ?case using handle_cmd_table [of s hash_one now c] by simp
qed

lemma not_my_gnode: "pos_at my (hc_level h) \<noteq> Some (hc_pos h) \<Longrightarrow> naddr_pos my \<notin> gnode (naddr_pos my) h"
  by (auto simp: pos_at_def gnode_def)

lemma next_msg_id_loop_unused:
  assumes "next_msg_id_loop hash_one used c = Some r"
  shows "\<not> used (fst r)"
proof (rule next_msg_id_loop.raw_induct [OF _ assms, where P = "\<lambda>_ u _ r. \<not> u (fst r)"])
  fix loop :: "(i32 \<Rightarrow> i32) \<Rightarrow> (i32 \<Rightarrow> bool) \<Rightarrow> i32 \<Rightarrow> (i32 \<times> i32) option" and h u c r
  assume IH: "\<And>h u c r. loop h u c = Some r \<Longrightarrow> \<not> u (fst r)"
    and step: "(let c' = c + 1; candidate = h c' in if u candidate then loop h u c' else Some (candidate, c')) = Some r"
  show "\<not> u (fst r)"
  proof (cases "u (h (c + 1))")
    case True
    then show ?thesis using step IH by (simp add: Let_def)
  next
    case False
    then show ?thesis using step by (auto simp: Let_def)
  qed
qed

text \<open>What a command does to one entry of the table.\<close>

lemma send_event_entry:
  assumes "hm_wf (pz_waiting s)" "map_of (pz_waiting s) i = Some wa"
  shows "map_of (pz_waiting (send_event j e s)) i = Some (if i = j then wa\<lparr>wa_sent := wa_sent wa @ [e]\<rparr> else wa)"
  using assms by (auto simp: send_event_def hm.get_insert split: option.splits)

lemma send_if_entry:
  assumes "hm_wf (pz_waiting s)" "map_of (pz_waiting s) i = Some wa"
  shows "map_of (pz_waiting (send_if j Q e s)) i = Some (if i = j \<and> Q wa then wa\<lparr>wa_sent := wa_sent wa @ [e]\<rparr> else wa)"
  using assms send_event_entry [OF assms] by (auto simp: send_if_def split: option.splits)

lemma put_entry:
  assumes "hm_wf (pz_waiting s)" "map_of (pz_waiting s) i = Some wa"
  shows "hm_wf (pz_waiting (s\<lparr>pz_waiting := hm_insert j w (pz_waiting s)\<rparr>))"
    "map_of (pz_waiting (s\<lparr>pz_waiting := hm_insert j w (pz_waiting s)\<rparr>)) i = Some (if i = j then w else wa)"
  using assms by (simp_all add: hm.get_insert hm.wf_insert)

lemma get_request_entry:
  assumes "hm_wf (pz_waiting s)" "map_of (pz_waiting s) i = Some wa" "get_request j n s = (r, s')"
    "map_of (pz_waiting s') i = Some wa'"
  shows "wa_sent wa' = wa_sent wa \<or> wa_sent wa' = wa_sent wa @ [RespondantNode n]"
proof (cases "map_of (pz_waiting s) j")
  case (Some w)
  note p = put_entry [OF assms(1,2), of j "w\<lparr>wa_respondant_node := Some n\<rparr>"]
  show ?thesis
    using assms Some send_event_entry [OF p, of j "RespondantNode n"] by (auto simp: get_request_def Let_def split: if_splits)
qed (use assms in \<open>simp add: get_request_def\<close>)

lemma set_next_destination_entry:
  assumes "hm_wf (pz_waiting s)" "map_of (pz_waiting s) i = Some wa" "map_of (pz_waiting (set_next_destination j g s)) i = Some wa'"
  shows "wa_sent wa' = wa_sent wa \<or> wa_sent wa' = wa_sent wa @ [NextDestination g]"
proof (cases "map_of (pz_waiting s) j")
  case (Some w)
  note p = put_entry [OF assms(1,2), of j "w\<lparr>wa_min_target := g\<rparr>"]
  show ?thesis
    using assms Some send_event_entry [OF p, of j "NextDestination g"] by (auto simp: set_next_destination_def split: if_splits)
qed (use assms in \<open>simp add: set_next_destination_def\<close>)

lemma respondant_matches_last: "waiting_ok wa \<Longrightarrow> respondant_matches wa n \<Longrightarrow> \<exists>n'. last_respondant (wa_sent wa) = Some n' \<and> tn_pos n = tn_pos n'"
  by (auto simp: respondant_matches_def waiting_ok_def split: option.splits)

lemma answer_delivered:
  assumes "table_ok s" "map_of (pz_waiting s) i = Some wa"
    "map_of (pz_waiting (snd (handle_cmd hash_one now c s))) i = Some wa'" "wa_sent wa' = wa_sent wa @ [e]" "is_answer e"
  shows "\<exists>n m. last_respondant (wa_sent wa) = Some n \<and> tn_pos m = tn_pos n \<and>
     (c = SetRedoFromStart i m \<and> e = RedoFromStartEvent \<or>
      (\<exists>v. c = SetResponse i v m \<and> e = Response v) \<or> (\<exists>f. c = SetRefuseMessage i f m \<and> e = RefuseEvent f))"
proof (cases "table_cmd c")
  case True
  have wf: "hm_wf (pz_waiting s)" and ok: "waiting_ok wa" using assms(1,2) by (auto simp: table_ok_def)
  note sent = assms(3,4)
  note matches = respondant_matches_last [OF ok]
  from True show ?thesis
  proof (cases c)
    case (RegisterWaiting j g r)
    then show ?thesis using sent assms(2) wf by (auto simp: hm.get_insert split: if_splits)
  next
    case (UnregisterWaiting j)
    then show ?thesis using sent assms(2) wf by (auto simp: hm.get_remove split: if_splits)
  next
    case (GetRequest j n)
    obtain r s' where "get_request j n s = (r, s')" by fastforce
    then show ?thesis using get_request_entry [OF wf assms(2), of j n r s' wa'] GetRequest sent assms(5) by auto
  next
    case (SetNextDestination j g)
    then show ?thesis using set_next_destination_entry [OF wf assms(2), of j g wa'] sent assms(5) by auto
  next
    case (SetResponse j v n)
    then show ?thesis using sent matches [of n] by (auto simp: send_if_entry [OF wf assms(2)] split: if_splits)
  next
    case (SetRefuseMessage j v n)
    then show ?thesis using sent matches [of n] by (auto simp: send_if_entry [OF wf assms(2)] split: if_splits)
  next
    case (SetRedoFromStart j n)
    then show ?thesis using sent matches [of n] by (auto simp: send_if_entry [OF wf assms(2)] split: if_splits)
  qed (use sent assms(5) in \<open>auto simp: send_if_entry [OF wf assms(2)] send_event_entry [OF wf assms(2)] split: if_splits\<close>)
next
  case False
  then show ?thesis using other_cmd_waiting [OF False, of hash_one now s] assms(2,3,4) by simp
qed

end
