(* ===== verification/Peers_Closest.thy ===== *)
theory Peers_Closest
  imports Peers_Distance
begin

section \<open>The closest g-node and the hash node\<close>

text \<open>
  That the scan \<open>approximate\<close> of \<open>tuple.rs\<close> elects the candidate closest to the key: distances of different
  candidates differ, and every step of the scan keeps the closest one seen so far.
\<close>

subsection \<open>The scan keeps the closest\<close>

text \<open>The address a coordinate of my map stands for, and its distance from the target.\<close>

definition coord_tuple :: "u32 list \<Rightarrow> usize \<Rightarrow> hcoord \<Rightarrow> u32 list" where
  "coord_tuple my_pos scope h = replicate (hc_level h) 0 @ hc_pos h # drop (Suc (hc_level h)) (take scope my_pos)"

definition coord_dist :: "topology \<Rightarrow> u32 list \<Rightarrow> tuple_node \<Rightarrow> hcoord \<Rightarrow> nat" where
  "coord_dist t my_pos x h = ring_dist (take (tn_top x) (gsizes t)) (tn_pos x) (coord_tuple my_pos (tn_top x) h)"

text \<open>The candidates: the g-nodes of the scope that exist and are not mine, and myself, less the excluded.\<close>

definition candidates :: "topology \<Rightarrow> u32 list \<Rightarrow> usize \<Rightarrow> hcoord list \<Rightarrow> (hcoord \<Rightarrow> bool) \<Rightarrow> hcoord set" where
  "candidates t my_pos scope exclude_list gnode_exists =
     {h. coord_in t scope h \<and> h \<notin> set exclude_list \<and>
        (h = HCoord 0 (my_pos ! 0) \<or> hc_pos h \<noteq> my_pos ! hc_level h \<and> gnode_exists h)}"

definition best_of :: "topology \<Rightarrow> u32 list \<Rightarrow> tuple_node \<Rightarrow> hcoord set \<Rightarrow> (hcoord \<times> u128) option \<Rightarrow> bool" where
  "best_of t my_pos x S best \<longleftrightarrow>
     (case best of
        None \<Rightarrow> S = {}
      | Some (h, d) \<Rightarrow> h \<in> S \<and> unat d = coord_dist t my_pos x h \<and> (\<forall>h' \<in> S. coord_dist t my_pos x h \<le> coord_dist t my_pos x h'))"

definition scan_ok :: "topology \<Rightarrow> u32 list \<Rightarrow> tuple_node \<Rightarrow> bool" where
  "scan_ok t my_pos x \<longleftrightarrow> wf_my_pos t my_pos \<and> wf_tuple_node t x \<and> 0 < tn_top x \<and> dist_fits t (tn_top x)"

lemma coord_dist_run:
  assumes "scan_ok t my_pos x" "coord_in t (tn_top x) h"
  obtains n d where "make_tuple_node t my_pos h (tn_top x) = Ok n" "tuple_dist t x n = Ok d" "unat d = coord_dist t my_pos x h"
proof -
  from assms(1) have my: "wf_my_pos t my_pos" and x: "wf_tuple_node t x" "dist_fits t (tn_top x)" by (auto simp: scan_ok_def)
  have t: "wf_topology t" using my by (simp add: wf_my_pos_def)
  obtain n where n: "make_tuple_node t my_pos h (tn_top x) = Ok n" "wf_tuple_node t n" "tn_pos n = coord_tuple my_pos (tn_top x) h"
    using make_tuple_node_run [OF my assms(2)] by (auto simp: coord_tuple_def)
  have "tn_top n = tn_top x" using n(3) my assms(2) by (auto simp: tn_top_def coord_tuple_def coord_in_def wf_my_pos_def)
  then obtain d where "tuple_dist t x n = Ok d" "unat d = coord_dist t my_pos x h"
    using tuple_dist_run [OF t x(1) n(2)] x(2) n(3) by (auto simp: coord_dist_def)
  with n that show thesis by blast
qed

lemma approximate_try_best:
  assumes "scan_ok t my_pos x" "coord_in t (tn_top x) h" "best_of t my_pos x S best"
  shows "\<exists>best'. approximate_try t my_pos x best h = Ok best' \<and> best_of t my_pos x (insert h S) best'"
proof -
  obtain n d where nd: "make_tuple_node t my_pos h (tn_top x) = Ok n" "tuple_dist t x n = Ok d" "unat d = coord_dist t my_pos x h"
    using assms(1,2) by (rule coord_dist_run)
  show ?thesis
  proof (cases best)
    case None
    then show ?thesis using assms(3) nd by (simp add: approximate_try_def best_of_def)
  next
    case (Some hd)
    obtain h0 d0 where hd: "hd = (h0, d0)" by (cases hd)
    have "d < d0 \<longleftrightarrow> coord_dist t my_pos x h < coord_dist t my_pos x h0"
      using assms(3) Some hd nd(3) by (simp add: best_of_def word_less_nat_alt)
    then show ?thesis using assms(3) nd Some hd by (auto simp: approximate_try_def best_of_def)
  qed
qed

lemma fold_res_union:
  assumes "\<And>S s x. x \<in> set xs \<Longrightarrow> I S s \<Longrightarrow> \<exists>s'. f s x = Ok s' \<and> I (S \<union> g x) s'" "I S s"
  shows "\<exists>s'. fold_res f s xs = Ok s' \<and> I (S \<union> (\<Union>x \<in> set xs. g x)) s'"
  using assms
proof (induction xs arbitrary: S s)
  case Nil
  then show ?case by simp
next
  case (Cons x xs)
  from Cons.prems(1) [of x S s] Cons.prems(2) obtain s1 where s1: "f s x = Ok s1" "I (S \<union> g x) s1" by auto
  from Cons.IH [OF _ s1(2)] Cons.prems(1) show ?case by (simp add: s1(1) Un_assoc)
qed

lemma approximate_pos_best:
  assumes "scan_ok t my_pos x" "level < tn_top x" "p < gsizes t ! level" "best_of t my_pos x S best"
  shows "\<exists>best'. approximate_pos t my_pos x excl ex level best p = Ok best' \<and>
     best_of t my_pos x (S \<union> {h \<in> {HCoord level p}. h \<notin> set excl \<and> p \<noteq> my_pos ! level \<and> ex h}) best'"
proof -
  have "coord_in t (tn_top x) (HCoord level p)" "level < length my_pos"
    using assms(1-3) by (auto simp: coord_in_def scan_ok_def wf_my_pos_def wf_tuple_node_def in_ranges_def tn_top_def)
  moreover have "{h \<in> {HCoord level p}. h \<notin> set excl \<and> p \<noteq> my_pos ! level \<and> ex h} =
     (if p = my_pos ! level \<or> HCoord level p \<in> set excl \<or> \<not> ex (HCoord level p) then {} else {HCoord level p})" by auto
  ultimately show ?thesis using approximate_try_best [OF assms(1) _ assms(4), of "HCoord level p"] assms(4)
    by (auto simp: approximate_pos_def Let_def)
qed

lemma approximate_level_best:
  assumes "scan_ok t my_pos x" "level < tn_top x" "best_of t my_pos x S best"
  shows "\<exists>best'. approximate_level t my_pos x excl ex best level = Ok best' \<and>
     best_of t my_pos x (S \<union> {h. hc_level h = level \<and> hc_pos h < gsizes t ! level \<and> h \<notin> set excl \<and>
       hc_pos h \<noteq> my_pos ! level \<and> ex h}) best'"
proof -
  let ?g = "gsizes t ! level"
  have lvl: "level < length (gsizes t)" using assms(1,2) by (auto simp: scan_ok_def wf_tuple_node_def in_ranges_def tn_top_def)
  have "\<exists>best'. fold_res (approximate_pos t my_pos x excl ex level) best (positions_below ?g) = Ok best' \<and>
     best_of t my_pos x (S \<union> (\<Union>p \<in> set (positions_below ?g).
       {h \<in> {HCoord level p}. h \<notin> set excl \<and> p \<noteq> my_pos ! level \<and> ex h})) best'"
    by (rule fold_res_union [where I = "best_of t my_pos x"])
      (use approximate_pos_best [OF assms(1,2)] assms(3) in \<open>auto simp: set_positions_below\<close>)
  moreover have "(\<Union>p \<in> set (positions_below ?g). {h \<in> {HCoord level p}. h \<notin> set excl \<and> p \<noteq> my_pos ! level \<and> ex h}) =
     {h. hc_level h = level \<and> hc_pos h < ?g \<and> h \<notin> set excl \<and> hc_pos h \<noteq> my_pos ! level \<and> ex h}"
    by (auto simp: set_positions_below)
  ultimately show ?thesis using lvl by (simp add: approximate_level_def topology_gsize_def)
qed

lemma approximate_best:
  assumes "scan_ok t my_pos x"
  shows "\<exists>best. approximate t my_pos (Some x) excl ex = Ok (map_option fst best) \<and>
     best_of t my_pos x (candidates t my_pos (tn_top x) excl ex) best"
proof -
  let ?me = "HCoord 0 (my_pos ! 0)"
  let ?lv = "\<lambda>level. {h. hc_level h = level \<and> hc_pos h < gsizes t ! level \<and> h \<notin> set excl \<and> hc_pos h \<noteq> my_pos ! level \<and> ex h}"
  have n: "0 < tn_top x" "tn_top x \<le> length (gsizes t)" and my: "wf_my_pos t my_pos"
    using assms by (auto simp: scan_ok_def wf_tuple_node_def in_ranges_def tn_top_def)
  then have "0 < length my_pos \<and> coord_in t (tn_top x) ?me"
    using less_le_trans [OF n] by (simp add: wf_my_pos_def coord_in_def in_ranges_def)
  then have len: "0 < length my_pos" and me: "coord_in t (tn_top x) ?me" by simp_all
  obtain b where b: "fold_res (approximate_level t my_pos x excl ex) None [0..<tn_top x] = Ok b"
    "best_of t my_pos x ({} \<union> (\<Union>level \<in> set [0..<tn_top x]. ?lv level)) b"
    using fold_res_union [where I = "best_of t my_pos x" and f = "approximate_level t my_pos x excl ex" and g = ?lv
        and xs = "[0..<tn_top x]" and S = "{}" and s = None] approximate_level_best [OF assms]
    by (auto simp: best_of_def [of t my_pos x "{}" None])
  have V: "candidates t my_pos (tn_top x) excl ex =
     (if ?me \<in> set excl then {} else {?me}) \<union> (\<Union>level \<in> set [0..<tn_top x]. ?lv level)"
    using me n(2) by (auto simp: candidates_def coord_in_def)
  show ?thesis
  proof (cases "?me \<in> set excl")
    case True
    then show ?thesis using b n len unfolding V by (auto simp: approximate_def)
  next
    case False
    from approximate_try_best [OF assms me b(2)] obtain b' where
      "approximate_try t my_pos x b ?me = Ok b'" "best_of t my_pos x (insert ?me (\<Union>level \<in> set [0..<tn_top x]. ?lv level)) b'" by auto
    then show ?thesis using b(1) n len False unfolding V by (auto simp: approximate_def)
  qed
qed

subsection \<open>No two candidates are equally far\<close>

lemma coord_tuple_fits:
  assumes "scan_ok t my_pos x" "coord_in t (tn_top x) h"
  shows "fits (take (tn_top x) (gsizes t)) (coord_tuple my_pos (tn_top x) h)"
proof -
  have my: "wf_my_pos t my_pos" using assms(1) by (simp add: scan_ok_def)
  obtain n where n: "wf_tuple_node t n" "tn_pos n = coord_tuple my_pos (tn_top x) h"
    using make_tuple_node_run [OF my assms(2)] by (auto simp: coord_tuple_def)
  have "tn_top n = tn_top x" using n(2) my assms(2) by (auto simp: tn_top_def coord_tuple_def coord_in_def wf_my_pos_def)
  with wf_tuple_fits [OF n(1)] n(2) show ?thesis by simp
qed

lemma nth_coord_tuple:
  assumes "hc_level h \<le> i" "i < scope" "scope \<le> length my_pos"
  shows "coord_tuple my_pos scope h ! i = (if i = hc_level h then hc_pos h else my_pos ! i)"
  using assms by (auto simp: coord_tuple_def nth_append nth_Cons' Suc_diff_Suc)

lemma coord_tuple_inj:
  assumes "h \<in> candidates t my_pos scope excl ex" "h' \<in> candidates t my_pos scope excl ex" "hc_level h \<le> hc_level h'"
    and "scope \<le> length my_pos" "coord_tuple my_pos scope h = coord_tuple my_pos scope h'"
  shows "h = h'"
proof -
  have l: "hc_level h' < scope" using assms(2) by (auto simp: candidates_def coord_in_def)
  from arg_cong [OF assms(5), of "\<lambda>xs. xs ! hc_level h'"] assms(3,4) l
  have eq: "(if hc_level h' = hc_level h then hc_pos h else my_pos ! hc_level h') = hc_pos h'"
    using nth_coord_tuple [of h "hc_level h'" scope my_pos] nth_coord_tuple [of h' "hc_level h'" scope my_pos] by simp
  have "hc_level h' = 0 \<or> hc_pos h' \<noteq> my_pos ! hc_level h'" using assms(2) by (auto simp: candidates_def)
  then have "hc_level h' = hc_level h" using eq assms(3) by (auto split: if_splits)
  with eq show ?thesis by (simp add: hcoord.expand)
qed

lemma candidates_distances:
  assumes "scan_ok t my_pos x" "h \<in> candidates t my_pos (tn_top x) excl ex" "h' \<in> candidates t my_pos (tn_top x) excl ex"
    and "coord_dist t my_pos x h = coord_dist t my_pos x h'"
  shows "h = h'"
proof -
  have len: "tn_top x \<le> length my_pos"
    using assms(1) by (auto simp: scan_ok_def wf_my_pos_def wf_tuple_node_def in_ranges_def tn_top_def)
  have "fits (take (tn_top x) (gsizes t)) (tn_pos x)" using assms(1) by (auto simp: scan_ok_def intro: wf_tuple_fits)
  then have "coord_tuple my_pos (tn_top x) h = coord_tuple my_pos (tn_top x) h'"
    using ring_dist_inj coord_tuple_fits [OF assms(1)] assms(2-4) unfolding coord_dist_def by (auto simp: candidates_def)
  then show ?thesis using coord_tuple_inj [OF assms(2,3) _ len] coord_tuple_inj [OF assms(3,2) _ len] by (metis nat_le_linear)
qed

subsection \<open>The hash node\<close>

text \<open>The number of an address: its distance from the address of all zeros.\<close>

definition address_number :: "topology \<Rightarrow> u32 list \<Rightarrow> nat" where
  "address_number t ps = ring_dist (gsizes t) (replicate (length ps) 0) ps"

lemma circ_zero [simp]: "circ g 0 b = unat b"
  by (simp add: circ_def)

lemma length_hash_digits [simp]: "length (hash_digits gs h) = length gs"
  by (induction gs arbitrary: h) simp_all

lemma unat_hash_digit:
  assumes "(g :: u32) \<noteq> 0"
  shows "unat (ucast (h mod ucast g :: u128) :: u32) = unat h mod unat g"
proof -
  have "unat (h mod ucast g :: u128) = unat h mod unat g" by (simp add: unat_mod)
  moreover have "unat h mod unat g < unat g" using assms by (simp add: unat_gt_0)
  moreover have "unat g < 2 ^ LENGTH(32)" by (rule unsigned_less)
  ultimately show ?thesis by (simp add: unsigned_ucast_eq take_bit_nat_eq_self_iff)
qed

lemma hash_digits_fits: "0 \<notin> set gs \<Longrightarrow> fits gs (hash_digits gs h)"
  by (induction gs arbitrary: h) (auto simp: word_less_nat_alt unat_hash_digit unat_gt_0)

lemma hash_digits_number:
  "0 \<notin> set gs \<Longrightarrow> ring_dist gs (replicate (length gs) 0) (hash_digits gs h) = unat h mod prod_list (map unat gs)"
proof (induction gs arbitrary: h)
  case Nil
  then show ?case by simp
next
  case (Cons g gs)
  then have "ring_dist (g # gs) (replicate (length (g # gs)) 0) (hash_digits (g # gs) h) =
     unat h mod unat g + unat g * (unat h div unat g mod prod_list (map unat gs))"
    by (simp add: unat_hash_digit unat_div)
  then show ?case by (simp add: mod_mult2_eq)
qed

lemma approximate_closest:
  assumes "wf_my_pos t my_pos" "wf_tuple_node t x" "0 < tn_top x" "dist_fits t (tn_top x)"
  shows "\<exists>r. approximate t my_pos (Some x) excl ex = Ok r \<and>
     (case r of
        None \<Rightarrow> candidates t my_pos (tn_top x) excl ex = {}
      | Some h \<Rightarrow> h \<in> candidates t my_pos (tn_top x) excl ex \<and>
          (\<forall>h' \<in> candidates t my_pos (tn_top x) excl ex. h' \<noteq> h \<longrightarrow> coord_dist t my_pos x h < coord_dist t my_pos x h'))"
proof -
  have ok: "scan_ok t my_pos x" using assms by (simp add: scan_ok_def)
  obtain best where best: "approximate t my_pos (Some x) excl ex = Ok (map_option fst best)"
    "best_of t my_pos x (candidates t my_pos (tn_top x) excl ex) best" using approximate_best [OF ok] by blast
  then show ?thesis using candidates_distances [OF ok, of _ excl ex]
    by (cases best) (fastforce simp: best_of_def order_le_less)+
qed

subsection \<open>The properties\<close>

text \<open>C38: from a target key, the scan never panics and elects the g-node of my map, or myself, strictly closer to
  the key than every other candidate; it elects none exactly when every candidate is excluded or absent.\<close>

theorem approximate_elects_closest:
  assumes "wf_my_pos t my_pos" "wf_tuple_node t x" "0 < tn_top x" "dist_fits t (tn_top x)"
  shows "\<exists>r. approximate t my_pos (Some x) excl ex = Ok r \<and>
     (case r of
        None \<Rightarrow> candidates t my_pos (tn_top x) excl ex = {}
      | Some h \<Rightarrow> h \<in> candidates t my_pos (tn_top x) excl ex \<and>
          (\<forall>h' \<in> candidates t my_pos (tn_top x) excl ex. h' \<noteq> h \<longrightarrow> coord_dist t my_pos x h < coord_dist t my_pos x h'))"
  using assms by (rule approximate_closest)

text \<open>As long as the address space has at most \<open>2 ^ 128\<close> addresses, the distance between two tuples of one
  scope never overflows and is the mixed-radix number of the per-level clockwise distances: zero exactly
  on equal tuples, injective in its second argument, and it satisfies the triangle inequality.\<close>

theorem tuple_dist_metric:
  assumes "wf_topology t" "dist_fits t n" "wf_tuple_node t a" "wf_tuple_node t b" "wf_tuple_node t c"
    and "tn_top a = n" "tn_top b = n" "tn_top c = n"
  shows "\<exists>ab ac bc. tuple_dist t a b = Ok ab \<and> tuple_dist t a c = Ok ac \<and> tuple_dist t b c = Ok bc \<and>
     unat ab = ring_dist (take n (gsizes t)) (tn_pos a) (tn_pos b) \<and> (ab = 0 \<longleftrightarrow> a = b) \<and> (ab = ac \<longleftrightarrow> b = c) \<and>
     unat ac \<le> unat ab + unat bc"
proof -
  let ?g = "take n (gsizes t)"
  have f: "fits ?g (tn_pos a)" "fits ?g (tn_pos b)" "fits ?g (tn_pos c)"
    using wf_tuple_fits [OF assms(3)] wf_tuple_fits [OF assms(4)] wf_tuple_fits [OF assms(5)] assms(6-8) by simp_all
  obtain ab where ab: "tuple_dist t a b = Ok ab" "unat ab = ring_dist ?g (tn_pos a) (tn_pos b)"
    using tuple_dist_run [OF assms(1,3,4)] assms by auto
  obtain ac where ac: "tuple_dist t a c = Ok ac" "unat ac = ring_dist ?g (tn_pos a) (tn_pos c)"
    using tuple_dist_run [OF assms(1,3,5)] assms by auto
  obtain bc where bc: "tuple_dist t b c = Ok bc" "unat bc = ring_dist ?g (tn_pos b) (tn_pos c)"
    using tuple_dist_run [OF assms(1,4,5)] assms by auto
  have pos: "(tn_pos u = tn_pos v) = (u = v)" if "wf_tuple_node t u" "wf_tuple_node t v" for u v
    using that by (auto simp: wf_tuple_node_def)
  have "ab = 0 \<longleftrightarrow> a = b" using ring_dist_0 [OF f(1,2)] ab(2) pos [OF assms(3,4)] by (metis unat_eq_0)
  moreover have "ab = ac \<longleftrightarrow> b = c"
    using ring_dist_inj [OF f(1,2,3)] ab(2) ac(2) pos [OF assms(4,5)] by (metis word_unat_eq_iff)
  moreover have "unat ac \<le> unat ab + unat bc" using ring_dist_triangle [OF f] ab(2) ac(2) bc(2) by simp
  ultimately show ?thesis using ab ac bc by blast
qed

text \<open>Every hash names an address of the whole topology, without a panic, and that address is the one
  whose number is the hash reduced modulo the size of the address space.\<close>

theorem hash_to_tuple_reduces:
  assumes "wf_topology t"
  shows "\<exists>n. hash_to_tuple t h = Ok n \<and> wf_tuple_node t n \<and> tn_top n = topology_levels t \<and>
     address_number t (tn_pos n) = unat h mod prod_list (map unat (gsizes t))"
proof -
  have z: "0 \<notin> set (gsizes t)" using assms by (simp add: wf_topology_def)
  have r: "in_ranges t 0 (hash_digits (gsizes t) h)"
    using hash_digits_fits [OF z, of h] by (simp add: fits_def in_ranges_def)
  then have "hash_to_tuple t h = Ok \<lparr>tn_topology = t, tn_pos = hash_digits (gsizes t) h\<rparr>"
    by (simp add: hash_to_tuple_def res_simps tuple_node_new_Ok)
  then show ?thesis using r hash_digits_number [OF z, of h]
    by (simp add: wf_tuple_node_def tn_top_def topology_levels_def address_number_def)
qed

subsection \<open>Witnesses\<close>

definition example_scope :: topology where
  "example_scope = \<lparr>gsizes = [4, 2]\<rparr>"

definition example_key :: "u32 list \<Rightarrow> tuple_node" where
  "example_key ps = \<lparr>tn_topology = example_scope, tn_pos = ps\<rparr>"

lemma wf_example_scope [simp]: "wf_topology example_scope"
  by (simp add: example_scope_def wf_topology_def)

lemma example_scope_fits [simp]: "dist_fits example_scope (Suc (Suc 0))"
  by (simp add: dist_fits_def example_scope_def)

lemma wf_example_key: "a < 4 \<Longrightarrow> b < 2 \<Longrightarrow> wf_tuple_node example_scope (example_key [a, b])"
  by (simp add: wf_tuple_node_def example_key_def in_ranges_Cons example_scope_def)

lemma tn_top_example_key [simp]: "tn_top (example_key [a, b]) = Suc (Suc 0)"
  by (simp add: tn_top_def example_key_def)

lemma wf_example_pos: "a < 4 \<Longrightarrow> b < 2 \<Longrightarrow> wf_my_pos example_scope [a, b]"
  by (simp add: wf_my_pos_def in_ranges_Cons) (simp add: example_scope_def)

theorem approximate_elects_closest_witness:
  "\<exists>r. approximate example_scope [1, 0] (Some (example_key [3, 1])) [HCoord 1 1] (\<lambda>_. True) = Ok r \<and>
     (case r of None \<Rightarrow> False | Some h \<Rightarrow> h \<noteq> HCoord 1 1 \<and> hc_level h = 0)"
proof -
  let ?x = "example_key [3, 1]" let ?V = "candidates example_scope [1, 0] (tn_top ?x) [HCoord 1 1] (\<lambda>_. True)"
  have me: "HCoord 0 1 \<in> ?V" by (simp add: candidates_def coord_in_def example_scope_def)
  have V: "h \<noteq> HCoord 1 1 \<and> hc_level h = 0" if "h \<in> ?V" for h
  proof -
    have "p < 2 \<Longrightarrow> p \<noteq> 0 \<Longrightarrow> p = 1" for p :: u32 by (auto simp: word_less_nat_alt word_unat_eq_iff)
    then show ?thesis using that
      by (cases h) (auto simp: candidates_def coord_in_def example_scope_def less_Suc_eq)
  qed
  obtain r where r: "approximate example_scope [1, 0] (Some ?x) [HCoord 1 1] (\<lambda>_. True) = Ok r"
    "case r of None \<Rightarrow> ?V = {} | Some h \<Rightarrow> h \<in> ?V"
    using approximate_elects_closest [OF wf_example_pos wf_example_key, of 1 0 3 1 "[HCoord 1 1]" "\<lambda>_. True"]
    by (auto split: option.splits)
  then show ?thesis using me V by (auto split: option.splits)
qed

theorem tuple_dist_metric_witness:
  "\<exists>ab ac bc. tuple_dist example_scope (example_key [3, 1]) (example_key [1, 0]) = Ok ab \<and> unat ab = 6 \<and>
     tuple_dist example_scope (example_key [3, 1]) (example_key [2, 1]) = Ok ac \<and>
     tuple_dist example_scope (example_key [1, 0]) (example_key [2, 1]) = Ok bc \<and> unat ac \<le> 6 + unat bc"
proof -
  obtain ab ac bc where d: "tuple_dist example_scope (example_key [3, 1]) (example_key [1, 0]) = Ok ab"
    "tuple_dist example_scope (example_key [3, 1]) (example_key [2, 1]) = Ok ac"
    "tuple_dist example_scope (example_key [1, 0]) (example_key [2, 1]) = Ok bc"
    "unat ab = ring_dist [4, 2] [3, 1] [1, 0]" "unat ac \<le> unat ab + unat bc"
    using tuple_dist_metric [OF wf_example_scope example_scope_fits wf_example_key wf_example_key wf_example_key, of 3 1 1 0 2 1]
    by (auto simp: example_scope_def) (auto simp: example_key_def)
  have "unat ab = 6" using d(4) by (simp add: circ_def word_le_nat_alt)
  with d show ?thesis by auto
qed

theorem hash_to_tuple_reduces_witness:
  "\<exists>n. hash_to_tuple example_scope 13 = Ok n \<and> address_number example_scope (tn_pos n) = 5"
  using hash_to_tuple_reduces [OF wf_example_scope, of 13] by (auto simp: example_scope_def)

end
