(* ===== verification/Peers_Spread.thy ===== *)
theory Peers_Spread
  imports Peers_Serve Peers_Closest
begin

section \<open>How participation spreads\<close>

text \<open>
  The peer services actor in a run: the invariant of the participation maps, the spread of facts and snapshots from node
  to node, and the order of the answers to a search.
\<close>

subsection \<open>One fact at a time\<close>

lemma convert_coord_in:
  assumes "wf_my_pos t my_pos" "wf_tuple_gnode t g" "convert_tuple_gnode my_pos g = Ok (rel, h)"
  shows "coord_in t (length my_pos) h"
proof -
  have len: "tg_top g \<le> length my_pos" "length my_pos = length (gsizes t)"
    using assms by (simp_all add: wf_my_pos_def wf_tuple_gnode_def)
  have lt: "tg_level g < tg_top g" using assms(2) by (rule wf_level_less)
  have r: "tg_pos g ! (k - tg_level g) < gsizes t ! k" if "tg_level g \<le> k" "k < tg_top g" for k
  proof -
    have "in_ranges t (tg_level g) (tg_pos g)" "tg_level g + length (tg_pos g) = tg_top g"
      using assms(2) by (auto simp: wf_tuple_gnode_def tg_level_def)
    then show ?thesis using that by (auto simp: in_ranges_def dest: spec [of _ "k - tg_level g"])
  qed
  from assms(2) len(1) show ?thesis
  proof (cases rule: convert_cases)
    case mine
    then show ?thesis using assms(3) r [of "tg_level g"] lt len by (simp add: coord_in_def)
  next
    case (leaves k)
    then show ?thesis using assms(3) r [of k] len by (simp add: coord_in_def)
  qed
qed

text \<open>A tuple of the whole scope names the same g-node at every address.\<close>

lemma tuple_members_whole:
  "tg_top g = length a \<Longrightarrow> length b = length a \<Longrightarrow> tuple_members b g = tuple_members a g"
  by (auto simp: tuple_members_def)

definition true_fact :: "(service_id \<Rightarrow> u32 list set) \<Rightarrow> topology \<Rightarrow> service_id \<times> tuple_gnode \<Rightarrow> bool" where
  "true_fact P t f \<longleftrightarrow> wf_tuple_gnode t (snd f) \<and> tg_top (snd f) = topology_levels t \<and>
     (\<forall>a. length a = topology_levels t \<longrightarrow> P (fst f) \<inter> tuple_members a (snd f) \<noteq> {})"

lemma handle_set_participant_inv:
  assumes "peers_inv P s" "true_fact P (pz_topology s) (p, g)"
  shows "\<exists>out s'. handle_set_participant now p g s = (Ok out, s') \<and> same_address s s' \<and>
     (s' = s \<or> (\<exists>h r. true_cmd P s (ApplyParticipant p h) \<and> handle_cmd hash_one now (ApplyParticipant p h) s = (r, s'))) \<and>
     (\<forall>f. out = Some f \<longrightarrow> fst f = p \<and> true_fact P (pz_topology s) f)"
proof -
  let ?t = "pz_topology s" let ?my = "my_addr s"
  have pos: "wf_my_pos ?t ?my" using assms(1) by (simp add: peers_inv_def part_inv_def part_shape_def)
  then have len: "length ?my = topology_levels ?t" by (simp add: wf_my_pos_def topology_levels_def)
  have g: "wf_tuple_gnode ?t g" "P p \<inter> tuple_members ?my g \<noteq> {}" using assms(2) len by (simp_all add: true_fact_def)
  obtain rel h where conv: "convert_tuple_gnode ?my g = Ok (rel, h)" and sub: "tuple_members ?my g \<subseteq> gnode ?my h"
  proof -
    obtain rel h where c: "convert_tuple_gnode ?my g = Ok (rel, h)"
      "case rel of
        Mine \<Rightarrow> ?my \<in> tuple_members ?my g \<and> tuple_members ?my g = gnode ?my h
      | Visible \<Rightarrow> ?my \<notin> gnode ?my h \<and> tuple_members ?my g = gnode ?my h
      | Hidden \<Rightarrow> ?my \<notin> gnode ?my h \<and> tuple_members ?my g \<subseteq> gnode ?my h \<and> tg_level g < hc_level h"
      using convert_meaning [OF pos g(1)] by blast
    then have "tuple_members ?my g \<subseteq> gnode ?my h" by (cases rel) simp_all
    with c(1) show thesis by (rule that)
  qed
  obtain r s' where run: "apply_participant now p h s = (r, s')" by fastforce
  have true: "true_cmd P s (ApplyParticipant p h)" using g(2) sub by auto
  have cmd: "handle_cmd hash_one now (ApplyParticipant p h) s = (Ok (ReplyApplied r), s')" using run by simp
  have inv: "peers_inv P s' \<and> same_address s s'" using handle_cmd_inv [OF assms(1) true cmd] .
  have r: "r = Some h' \<Longrightarrow> h' = h" for h' using run by (auto simp: apply_participant_def Let_def split: if_splits)
  have co: "coord_in ?t (topology_levels ?t) h" using convert_coord_in [OF pos g(1) conv] len by simp
  obtain gn where gn: "make_tuple_gnode ?t ?my h (topology_levels ?t) = Ok gn" "wf_tuple_gnode ?t gn" "tg_top gn = topology_levels ?t"
    using make_tuple_gnode_run [OF pos co] .
  have "P p \<inter> tuple_members a gn \<noteq> {}" if "length a = topology_levels ?t" for a
    using true make_tuple_gnode_members [OF pos co gn(1)] tuple_members_whole [of gn a ?my] gn(3) len that by simp
  then have fact: "true_fact P ?t (p, gn)" using gn by (simp add: true_fact_def)
  show ?thesis
  proof (cases "rel = Mine")
    case True
    then show ?thesis using conv assms(1) by (simp add: handle_set_participant_def st_bind_def st_read_def st_ret_def)
  next
    case False
    have "handle_set_participant now p g s = (Ok (case r of None \<Rightarrow> None | Some h \<Rightarrow> Some (p, gn)), s')"
      using False conv run r gn(1) inv
      by (cases r) (simp_all add: handle_set_participant_def st_bind_def st_read_def st_ret_def same_address_def)
    moreover have "\<exists>h r. true_cmd P s (ApplyParticipant p h) \<and> handle_cmd hash_one now (ApplyParticipant p h) s = (r, s')"
      using true cmd by blast
    ultimately show ?thesis using inv fact by (simp split: option.splits)
  qed
qed

subsection \<open>Whole snapshots\<close>

text \<open>What a node knows below a level: every participant but itself.\<close>

definition known_below :: "(service_id \<Rightarrow> u32 list set) \<Rightarrow> peers_state \<Rightarrow> nat \<Rightarrow> bool" where
  "known_below P s l \<longleftrightarrow> (\<forall>p a. a \<in> P p \<longrightarrow> length a = length (my_addr s) \<longrightarrow> a \<noteq> my_addr s \<longrightarrow> mdg (my_addr s) a < l \<longrightarrow>
     coord_of (my_addr s) a \<in> recorded (pz_participants s) p)"

lemma coord_of_not_mine:
  assumes "a \<noteq> my" "length a = length my" "my \<noteq> []"
  shows "my ! mdg my a \<noteq> a ! mdg my a"
proof (rule ccontr)
  assume eq: "\<not> ?thesis"
  then have 0: "mdg my a = 0" using mdg_cases(1) [of my a] by auto
  have "my ! i = a ! i" if "i < length my" for i
    using eq 0 mdg_cases(2) [of my a i] that by (cases "i = 0") auto
  then show False using assms(1,2) by (auto simp: list_eq_iff_nth_eq)
qed

lemma fold_establishes:
  assumes "\<And>x s. x \<in> set xs \<Longrightarrow> I s \<Longrightarrow> I (f x s) \<and> Q x (f x s)"
    "\<And>x y s. I s \<Longrightarrow> Q x s \<Longrightarrow> Q x (f y s)" "I s"
  shows "\<forall>x \<in> set xs. Q x (fold f xs s)"
  using assms(1,3)
proof (induction xs arbitrary: s)
  case (Cons x xs)
  have I: "I (f x s)" and Q: "Q x (f x s)" using Cons.prems by simp_all
  have "I (fold f xs (f x s)) \<and> Q x (fold f xs (f x s))"
  proof (rule fold_inv [of xs "\<lambda>s. I s \<and> Q x s" f "f x s"])
    show "I (f y s') \<and> Q x (f y s')" if "y \<in> set xs" "I s' \<and> Q x s'" for y s'
      using Cons.prems(1) [of y s'] assms(2) [of s' x y] that by simp
  qed (use I Q in simp)
  moreover have "\<forall>y \<in> set xs. Q y (fold f xs (f x s))" using Cons.prems(1) I by (intro Cons.IH) simp_all
  ultimately show ?case by simp
qed simp

text \<open>The facts of a snapshot one by one.\<close>

definition facts :: "participant_maps \<Rightarrow> (service_id \<times> hcoord) list" where
  "facts maps = concat (map (\<lambda>(p, m). map (Pair p) (sorted_list_of_set m)) maps)"

definition merge_fact :: "usize \<Rightarrow> service_id \<times> hcoord \<Rightarrow> peers_state \<Rightarrow> peers_state" where
  "merge_fact below f s =
     (if pz_retrieved_below_level s \<le> hc_level (snd f) \<and> hc_level (snd f) < below then add_participant (fst f) (snd f) s else s)"

lemma merge_folded_facts: "merge_folded inc s = fold (merge_fact (ps_retrieved_below_level inc)) (facts (ps_maps inc)) s"
proof -
  let ?r = "ps_retrieved_below_level inc"
  have eq: "(\<lambda>hc s. if pz_retrieved_below_level s \<le> hc_level hc \<and> hc_level hc < ?r then add_participant p hc s else s) =
      (\<lambda>hc. merge_fact ?r (p, hc))" for p
    by (simp add: fun_eq_iff merge_fact_def)
  have "fold (\<lambda>(p, m). fold (\<lambda>hc. merge_fact ?r (p, hc)) (sorted_list_of_set m)) maps s = fold (merge_fact ?r) (facts maps) s" for maps
    by (induction maps arbitrary: s) (auto simp: facts_def fold_map comp_def)
  then show ?thesis unfolding merge_folded_def eq .
qed

lemma set_facts:
  assumes "bt_wf maps" "\<And>p. finite (recorded maps p)"
  shows "set (facts maps) = {(p, h). h \<in> recorded maps p}"
proof (intro equalityI subsetI)
  have m: "(p, m) \<in> set maps \<Longrightarrow> recorded maps p = m" for p m
    using bt.entry_iff_get [OF assms(1)] by (simp add: recorded_def)
  show "x \<in> {(p, h). h \<in> recorded maps p}" if "x \<in> set (facts maps)" for x
  proof -
    from that obtain p m where pm: "(p, m) \<in> set maps" "x \<in> Pair p ` set (sorted_list_of_set m)" by (auto simp: facts_def)
    then show ?thesis using assms(2) [of p] m by auto
  qed
  show "x \<in> set (facts maps)" if mem: "x \<in> {(p, h). h \<in> recorded maps p}" for x
  proof -
    obtain p h where x: "x = (p, h)" "h \<in> recorded maps p" using mem by (cases x) simp
    then have "(p, recorded maps p) \<in> set maps"
      using bt.entry_iff_get [OF assms(1)] by (auto simp: recorded_def split: option.splits)
    moreover have "x \<in> Pair p ` set (sorted_list_of_set (recorded maps p))" using x assms(2) by simp
    ultimately show ?thesis by (force simp: facts_def)
  qed
qed

lemma merge_records:
  assumes "part_inv P s" "fits_caps P s" "bt_wf (ps_maps inc)" "\<And>p. finite (recorded (ps_maps inc) p)"
    "maps_sound P (my_addr s) (ps_maps inc)"
  shows "recorded (pz_participants s) p \<subseteq> recorded (pz_participants (merge_folded inc s)) p"
    and "h \<in> recorded (ps_maps inc) p \<Longrightarrow> pos_at (pz_my_pos s) (hc_level h) \<noteq> Some (hc_pos h) \<Longrightarrow>
      pz_retrieved_below_level s \<le> hc_level h \<Longrightarrow> hc_level h < ps_retrieved_below_level inc \<Longrightarrow>
      h \<in> recorded (pz_participants (merge_folded inc s)) p"
proof -
  let ?f = "merge_fact (ps_retrieved_below_level inc)"
  let ?I = "\<lambda>s'. part_inv P s' \<and> same_identity s s'"
  let ?Q = "\<lambda>x s'. pos_at (pz_my_pos s) (hc_level (snd x)) \<noteq> Some (hc_pos (snd x)) \<longrightarrow>
     pz_retrieved_below_level s \<le> hc_level (snd x) \<longrightarrow> hc_level (snd x) < ps_retrieved_below_level inc \<longrightarrow>
     snd x \<in> recorded (pz_participants s') (fst x)"
  note facts = set_facts [OF assms(3,4)]
  have wf: "bt_wf (pz_participants s')" if "?I s'" for s' using that by (simp add: part_inv_def part_shape_def)
  have I: "?I (?f x s')" if "x \<in> set (facts (ps_maps inc))" "?I s'" for x s'
  proof -
    have "P (fst x) \<inter> gnode (my_addr s') (snd x) \<noteq> {}"
      using that assms(5) by (auto simp: facts maps_sound_recorded same_identity_def)
    then show ?thesis using that(2) add_participant_inv [of P s' "fst x" "snd x"] same_identity_trans [of s s']
      by (auto simp: merge_fact_def)
  qed
  have keep: "h' \<in> recorded (pz_participants (?f x s')) q" if "?I s'" "h' \<in> recorded (pz_participants s') q" for h' x s' q
    using add_participant_keeps [OF that(2) wf [OF that(1)]] that(2) by (simp add: merge_fact_def)
  have Q: "?Q x (?f x s')" if "x \<in> set (facts (ps_maps inc))" "?I s'" for x s'
  proof -
    have "P (fst x) \<inter> gnode (my_addr s') (snd x) \<noteq> {}"
      using that assms(5) by (auto simp: facts maps_sound_recorded same_identity_def)
    moreover have "fits_caps P s'" using assms(2) that(2) by (simp add: fits_caps_def same_identity_def)
    ultimately show ?thesis
      using that(2) add_participant_records [of P s' "fst x" "snd x"] by (simp add: merge_fact_def same_identity_def)
  qed
  have s: "?I s" using assms(1) by simp
  show "recorded (pz_participants s) p \<subseteq> recorded (pz_participants (merge_folded inc s)) p"
  proof
    fix h' assume h': "h' \<in> recorded (pz_participants s) p"
    have "?I (fold ?f (facts (ps_maps inc)) s) \<and> h' \<in> recorded (pz_participants (fold ?f (facts (ps_maps inc)) s)) p"
      by (rule fold_inv [of _ "\<lambda>s'. ?I s' \<and> h' \<in> recorded (pz_participants s') p"]) (use I keep h' s in blast)+
    then show "h' \<in> recorded (pz_participants (merge_folded inc s)) p" by (simp add: merge_folded_facts)
  qed
  have "\<forall>x \<in> set (facts (ps_maps inc)). ?Q x (fold ?f (facts (ps_maps inc)) s)"
    by (rule fold_establishes [of _ ?I ?f ?Q s]) (use I Q keep s in blast)+
  then show "h \<in> recorded (ps_maps inc) p \<Longrightarrow> pos_at (pz_my_pos s) (hc_level h) \<noteq> Some (hc_pos h) \<Longrightarrow>
      pz_retrieved_below_level s \<le> hc_level h \<Longrightarrow> hc_level h < ps_retrieved_below_level inc \<Longrightarrow>
      h \<in> recorded (pz_participants (merge_folded inc s)) p"
    using facts by (auto simp: merge_folded_facts)
qed

lemma produce_maps_copy_complete:
  assumes "part_inv P s" "known_below P s (pz_retrieved_below_level s)" "pz_my_services s = {p. my_addr s \<in> P p}"
    "produce_maps_copy s = Ok ps"
  shows "maps_complete P (my_addr s) 0 (pz_retrieved_below_level s) (ps_maps ps)"
    and "ps_retrieved_below_level ps = pz_retrieved_below_level s"
proof -
  let ?my = "my_addr s" let ?h = "HCoord 0 (?my ! 0)"
  let ?maps = "fold (\<lambda>p. entry_insert p ?h) (sorted_list_of_set (pz_my_services s)) (pz_participants s)"
  have ne: "?my \<noteq> []" and wf: "bt_wf (pz_participants s)" "finite (pz_my_services s)"
    using assms(1) by (auto simp: part_inv_def part_shape_def wf_my_pos_def wf_topology_def)
  have ps: "ps = produce_below_level ?maps ?my (pz_retrieved_below_level s)"
    using assms(4) ne wf(2) by (simp add: produce_maps_copy_def Let_def split: if_splits)
  note m = fold_entry_insert [OF wf(1), of ?h "sorted_list_of_set (pz_my_services s)"]
  have rec: "recorded ?maps p = (if p \<in> pz_my_services s then insert ?h (recorded (pz_participants s) p) else recorded (pz_participants s) p)" for p
    using m wf(2) by simp
  have "coord_of ?my a \<in> recorded ?maps p"
    if "a \<in> P p" "length a = length ?my" "mdg ?my a < pz_retrieved_below_level s" for p a
  proof (cases "a = ?my")
    case True
    have "mdg ?my ?my = 0" by (rule mdg_eqI) simp_all
    then have "coord_of ?my a = ?h" using True by (simp add: coord_of_def)
    then show ?thesis using that(1) True assms(3) rec by simp
  next
    case False
    then show ?thesis using assms(2) that rec by (simp add: known_below_def)
  qed
  then show "maps_complete P ?my 0 (pz_retrieved_below_level s) (ps_maps ps)"
    using produce_below_level_recorded(2) [of ?maps] m unfolding ps maps_complete_def by (simp add: coord_of_def)
  show "ps_retrieved_below_level ps = pz_retrieved_below_level s" by (simp add: ps produce_below_level_def)
qed

lemma apply_participant_set_complete:
  assumes "part_inv P s" "fits_caps P s" "true_snapshot P (length (my_addr s)) inc" "known_below P s (pz_retrieved_below_level s)"
    "maps_complete P (ps_my_pos inc) 0 (ps_retrieved_below_level inc) (ps_maps inc)"
    "mdg (my_addr s) (ps_my_pos inc) \<le> pz_retrieved_below_level s"
    "pz_retrieved_below_level s < ps_retrieved_below_level inc" "apply_participant_set inc s = (Ok r, s')"
  shows "known_below P s' (ps_retrieved_below_level inc)" "pz_retrieved_below_level s' = ps_retrieved_below_level inc"
proof -
  let ?my = "my_addr s" let ?k = "mdg ?my (ps_my_pos inc)"
  let ?f = "inc\<lparr>ps_maps := fold_maps ?k (ps_my_pos inc ! ?k) (ps_maps inc)\<rparr>"
  have pos: "wf_my_pos (pz_topology s) ?my" using assms(1) by (simp add: part_inv_def part_shape_def)
  have ne: "0 < length ?my" using pos by (auto simp: wf_my_pos_def wf_topology_def)
  have inc: "length (ps_my_pos inc) = length ?my" "bt_wf (ps_maps inc)" "\<And>p. finite (recorded (ps_maps inc) p)"
    "maps_sound P (ps_my_pos inc) (ps_maps inc)" using assms(3) by (simp_all add: true_snapshot_def)
  have run: "fold_to_my_granularity ?my (topology_levels (pz_topology s)) inc = Ok ?f"
    using pos ne inc(1) by (intro fold_to_my_granularity_run) (simp_all add: wf_my_pos_def topology_levels_def)
  have f: "bt_wf (ps_maps ?f)" "\<And>p. finite (recorded (ps_maps ?f) p)" "maps_sound P ?my (ps_maps ?f)"
    using fold_maps_recorded [OF inc(2)] fold_maps_sound [OF inc(2,1) ne inc(4)] inc(3) by simp_all
  have complete: "maps_complete P ?my ?k (ps_retrieved_below_level inc) (ps_maps ?f)"
    using fold_maps_complete [OF inc(2,1) ne assms(5)] by simp
  have s': "pz_participants s' = pz_participants (merge_folded ?f s)" "my_addr s' = ?my"
    "pz_retrieved_below_level s' = ps_retrieved_below_level inc"
    using assms(7,8) run merge_folded_inv(2) [OF assms(1) f]
    by (auto simp: apply_participant_set_def is_fresher_def Let_def publish_peers_snapshot_def same_identity_def)
  then show "pz_retrieved_below_level s' = ps_retrieved_below_level inc" by simp
  have "coord_of ?my a \<in> recorded (pz_participants s') p"
    if "a \<in> P p" "length a = length ?my" "a \<noteq> ?my" "mdg ?my a < ps_retrieved_below_level inc" for p a
  proof (cases "mdg ?my a < pz_retrieved_below_level s")
    case True
    then show ?thesis using merge_records(1) [OF assms(1,2) f, of p] assms(4) that s' by (auto simp: known_below_def)
  next
    case False
    then have "coord_of ?my a \<in> recorded (ps_maps ?f) p" using complete that assms(6) by (simp add: maps_complete_def)
    moreover have "pos_at (pz_my_pos s) (hc_level (coord_of ?my a)) \<noteq> Some (hc_pos (coord_of ?my a))"
      using coord_of_not_mine [OF that(3,2)] ne by (simp add: pos_at_def coord_of_def)
    ultimately show ?thesis
      using merge_records(2) [OF assms(1,2) f] False that(4) s' by (simp add: coord_of_def)
  qed
  then show "known_below P s' (ps_retrieved_below_level inc)" by (simp add: known_below_def s')
qed

subsection \<open>Properties\<close>

text \<open>C4: the peer services actor, over every run of true commands from its creation. What it records of a
  service is true and about others: some participant lies in each g-node it has recorded, and this node never
  does. The two bounds that protect its memory hold, the published snapshot says what the state says, and the
  next command is served without a panic and answered with a true snapshot, taken at this node's address, or
  with something that is not one.\<close>

theorem participation_run:
  assumes "wf_my_pos t (naddr_pos my)" "peers_run (true_cmd P) hash_one t my config r s"
  shows "(\<forall>p h. h \<in> recorded (pz_participants s) p \<longrightarrow>
       P p \<inter> gnode (naddr_pos my) h \<noteq> {} \<and> naddr_pos my \<notin> gnode (naddr_pos my) h)
   \<and> (\<forall>p. card (recorded (pz_participants s) p) \<le> max_participants_per_service config)
   \<and> card (fst ` set (pz_participants s) - fst ` set (pz_services s)) \<le> max_services config
   \<and> (\<forall>p. recorded (sn_participants (pz_snapshot s)) p = recorded (pz_participants s) p)
   \<and> (\<forall>c now. true_cmd P s c \<longrightarrow> (c = NextMsgId \<longrightarrow> ids_left hash_one s) \<longrightarrow>
       (\<exists>reply s'. handle_cmd hash_one now c s = (Ok reply, s') \<and> true_reply P s reply))"
proof -
  have s: "peers_inv P s" "pz_my_pos s = my" "pz_config s = config" using peers_run_inv [OF assms(2,1)] by simp_all
  have "\<exists>reply s'. handle_cmd hash_one now c s = (Ok reply, s') \<and> true_reply P s reply"
    if "true_cmd P s c" "c = NextMsgId \<longrightarrow> ids_left hash_one s" for c now
  proof -
    have "serves P hash_one now c s" using that by (intro handle_cmd_serves s(1)) simp_all
    then show ?thesis by (auto simp: serves_def)
  qed
  moreover have "P p \<inter> gnode (naddr_pos my) h \<noteq> {}" "naddr_pos my \<notin> gnode (naddr_pos my) h"
    if "h \<in> recorded (pz_participants s) p" for p h
    using s that not_my_gnode [of my h]
    by (simp_all add: peers_inv_def part_inv_def part_sound_def part_others_def maps_sound_recorded)
  ultimately show ?thesis using s by (simp add: peers_inv_def part_inv_def part_bounded_def part_published_def)
qed

text \<open>C9: the table of pending searches, over every run whatever the commands. A number given out is not in use;
  a search is sent an answer only after some node fetched its request, and then only by a node with the
  positions of the one that fetched it last; the targets it is sent are in its scope and strictly deepen, so
  there are at most as many as levels below the first.\<close>

theorem searches_in_order:
  assumes "peers_run ok hash_one t my config r s" "map_of (pz_waiting s) i = Some wa"
  shows "(\<forall>j < length (wa_sent wa). is_answer (wa_sent wa ! j) \<longrightarrow> last_respondant (take j (wa_sent wa)) \<noteq> None)
   \<and> sorted_wrt (>) (map tg_level (targets (wa_sent wa)))
   \<and> (\<forall>g \<in> set (targets (wa_sent wa)). tg_top g = tg_top (wa_min_target wa))
   \<and> (\<forall>now c wa' e. map_of (pz_waiting (snd (handle_cmd hash_one now c s))) i = Some wa' \<longrightarrow>
        wa_sent wa' = wa_sent wa @ [e] \<longrightarrow> is_answer e \<longrightarrow>
        (\<exists>n m. last_respondant (wa_sent wa) = Some n \<and> tn_pos m = tn_pos n \<and>
           (c = SetRedoFromStart i m \<and> e = RedoFromStartEvent \<or>
            (\<exists>v. c = SetResponse i v m \<and> e = Response v) \<or> (\<exists>f. c = SetRefuseMessage i f m \<and> e = RefuseEvent f))))
   \<and> (\<forall>now n s'. handle_cmd hash_one now NextMsgId s = (Ok (ReplyMsgId n), s') \<longrightarrow> map_of (pz_waiting s) n = None)"
proof -
  have t: "table_ok s" using assms(1) by (rule peers_run_table)
  have fresh: "map_of (pz_waiting s) n = None" if "handle_cmd hash_one now NextMsgId s = (Ok (ReplyMsgId n), s')" for now n s'
    using that by (auto split: option.splits dest!: next_msg_id_loop_unused)
  show ?thesis
    using table_okD [OF t assms(2)] answer_delivered [OF t assms(2)] fresh
    by (intro conjI allI impI) (simp_all add: waiting_ok_def answered_after_def)
qed

text \<open>C10: participation facts stay true as they are flooded. The fact a node announces for a service of its own
  is true, and a node that receives a true fact accepts it, without a panic and by a step of its run, and floods
  only a true fact about the same service, in the scope of the whole network.\<close>

theorem flood_stays_true:
  assumes "wf_my_pos t (naddr_pos my)" "peers_run (true_cmd P) hash_one t my config r s"
  shows "(\<forall>p \<in> pz_my_services s. \<exists>g. my_participation_fact s = Ok g \<and> true_fact P t (p, g))
   \<and> (\<forall>p g now. true_fact P t (p, g) \<longrightarrow>
       (\<exists>out s'. handle_set_participant now p g s = (Ok out, s') \<and> peers_run (true_cmd P) hash_one t my config r s' \<and>
          (\<forall>f. out = Some f \<longrightarrow> fst f = p \<and> true_fact P t f)))"
proof (intro conjI ballI allI impI)
  have s: "peers_inv P s" "pz_topology s = t" "pz_my_pos s = my" using peers_run_inv [OF assms(2,1)] by simp_all
  have len: "length (naddr_pos my) = topology_levels t" "naddr_pos my \<noteq> []"
    using assms(1) by (auto simp: wf_my_pos_def topology_levels_def wf_topology_def)
  show "\<exists>g. my_participation_fact s = Ok g \<and> true_fact P t (p, g)" if "p \<in> pz_my_services s" for p
  proof -
    let ?h = "HCoord 0 (naddr_pos my ! 0)"
    have co: "coord_in t (topology_levels t) ?h"
      using assms(1) len by (cases "gsizes t") (auto simp: coord_in_def wf_my_pos_def in_ranges_def topology_levels_def)
    obtain g where g: "make_tuple_gnode t (naddr_pos my) ?h (topology_levels t) = Ok g" "wf_tuple_gnode t g" "tg_top g = topology_levels t"
      using make_tuple_gnode_run [OF assms(1) co] .
    have me: "naddr_pos my \<in> P p" using s that by (simp add: peers_inv_def part_inv_def part_sound_def)
    have "naddr_pos my \<in> tuple_members (naddr_pos my) g"
      using make_tuple_gnode_members [OF assms(1) co g(1)] len(2) by (simp add: gnode_def)
    then have "P p \<inter> tuple_members a g \<noteq> {}" if "length a = topology_levels t" for a
      using me tuple_members_whole [of g a "naddr_pos my"] g(3) len that by auto
    then have "true_fact P t (p, g)" using g by (simp add: true_fact_def)
    moreover have "my_participation_fact s = Ok g" using g(1) s(2,3) len(2) by (simp add: my_participation_fact_def Let_def)
    ultimately show ?thesis by blast
  qed
  fix p g now assume "true_fact P t (p, g)"
  then obtain out s' where r: "handle_set_participant now p g s = (Ok out, s')"
    "s' = s \<or> (\<exists>h r. true_cmd P s (ApplyParticipant p h) \<and> handle_cmd hash_one now (ApplyParticipant p h) s = (r, s'))"
    "\<forall>f. out = Some f \<longrightarrow> fst f = p \<and> true_fact P t f"
    using handle_set_participant_inv [OF s(1), of p g now hash_one] s(2) by auto
  have "peers_run (true_cmd P) hash_one t my config r s'"
    using r(2)
  proof (elim disjE exE conjE)
    fix h ra
    assume "true_cmd P s (ApplyParticipant p h)" "handle_cmd hash_one now (ApplyParticipant p h) s = (ra, s')"
    with assms(2) show ?thesis by (rule peers_run.serve)
  qed (use assms(2) in simp)
  with r show "\<exists>out s'. handle_set_participant now p g s = (Ok out, s') \<and> peers_run (true_cmd P) hash_one t my config r s' \<and>
      (\<forall>f. out = Some f \<longrightarrow> fst f = p \<and> true_fact P t f)" by blast
qed

text \<open>C8: a snapshot of participation tells what it promises. A node that knows every participant below its
  retrieved level and has registered its own services is asked for its maps by a node of the same network that
  knows every participant below its own, lower, level, and whose address it shares down to that level. When
  the network fits the bounds, the asker ends knowing every participant below the level of the answer.\<close>

theorem snapshot_spreads:
  assumes "peers_inv P sender" "peers_inv P s" "pz_topology sender = pz_topology s"
    "known_below P sender (pz_retrieved_below_level sender)" "pz_my_services sender = {p. my_addr sender \<in> P p}"
    "known_below P s (pz_retrieved_below_level s)" "fits_caps P s" "pz_retrieved_below_level s < pz_retrieved_below_level sender"
    "mdg (my_addr s) (my_addr sender) \<le> pz_retrieved_below_level s"
  shows "\<exists>ps out s'. produce_maps_copy sender = Ok ps \<and> apply_participant_set ps s = (Ok (Some out), s') \<and> part_inv P s' \<and>
     pz_retrieved_below_level s' = pz_retrieved_below_level sender \<and> known_below P s' (pz_retrieved_below_level s')"
proof -
  have inv: "part_inv P sender" "part_inv P s" using assms(1,2) by (simp_all add: peers_inv_def)
  have len: "length (my_addr sender) = length (my_addr s)"
    using inv assms(3) by (simp add: part_inv_def part_shape_def wf_my_pos_def)
  obtain ps where ps: "produce_maps_copy sender = Ok ps" "true_snapshot P (length (my_addr s)) ps" "ps_my_pos ps = my_addr sender"
    using produce_maps_copy_true [OF inv(1)] len by auto
  note sent = produce_maps_copy_complete [OF inv(1) assms(4,5) ps(1)]
  obtain r s' where r: "apply_participant_set ps s = (Ok r, s')" "part_inv P s'"
    using apply_participant_set_inv [OF inv(2) ps(2)] by blast
  note done' = apply_participant_set_complete [OF inv(2) assms(7) ps(2) assms(6) _ _ _ r(1)]
  have "known_below P s' (ps_retrieved_below_level ps)" "pz_retrieved_below_level s' = ps_retrieved_below_level ps"
    using done' sent assms(8,9) ps(3) by simp_all
  moreover have "r \<noteq> None"
    using r(1) sent(2) assms(8) by (auto simp: apply_participant_set_def is_fresher_def Let_def split: res.splits)
  ultimately show ?thesis using ps(1) r sent(2) by auto
qed

subsection \<open>Examples\<close>

text \<open>Two nodes of a network of 4 by 2 positions, and one service that only the second runs.\<close>

definition example_node :: "u32 list \<Rightarrow> naddr" where
  "example_node ps = \<lparr>naddr_topology = example_scope, naddr_pos = ps\<rparr>"

definition example_participants :: "service_id \<Rightarrow> u32 list set" where
  "example_participants p = (if p = 7 then {[2, 0]} else {})"

lemma example_node_pos [simp]: "naddr_pos (example_node ps) = ps"
  by (simp add: example_node_def)

lemma example_participants_some [simp]: "example_participants p \<noteq> {} \<longleftrightarrow> p = 7" "example_participants p = {} \<longleftrightarrow> p \<noteq> 7"
  by (simp_all add: example_participants_def)

lemma example_gnodes: "{h. example_participants p \<inter> gnode [1, 0] h \<noteq> {}} \<subseteq> {HCoord 0 2, HCoord 1 0}"
proof
  fix h assume "h \<in> {h. example_participants p \<inter> gnode [1, 0] h \<noteq> {}}"
  then have "[2, 0] \<in> gnode [1, 0] h" by (auto simp: example_participants_def split: if_splits)
  then show "h \<in> {HCoord 0 2, HCoord 1 0}" by (cases h) (auto simp: gnode_def less_Suc_eq)
qed

lemma example_in_gnode: "example_participants 7 \<inter> gnode [1, 0] (HCoord 0 2) \<noteq> {}"
  by (simp add: example_participants_def gnode_def less_Suc_eq)

definition example_new :: "u32 list \<Rightarrow> usize \<Rightarrow> peers_state" where
  "example_new ps r = peers_new example_scope (example_node ps) peers_config_default r"

lemma example_new_simps [simp]:
  "pz_topology (example_new ps r) = example_scope" "pz_my_pos (example_new ps r) = example_node ps" "pz_my_services (example_new ps r) = {}"
  "pz_participants (example_new ps r) = []" "pz_retrieved_below_level (example_new ps r) = r"
  "pz_config (example_new ps r) = peers_config_default" "pz_services (example_new ps r) = []" "pz_waiting (example_new ps r) = []"
  "pz_recent_published (example_new ps r) = []"
  by (simp_all add: example_new_def peers_new_def)

definition example_sender :: peers_state where
  "example_sender = snd (handle_cmd id 0 (Register 7 True) (example_new [2, 0] 2))"

lemma example_sender_inv: "peers_inv example_participants example_sender"
proof -
  have "peers_inv example_participants (example_new [2, 0] 2)"
    unfolding example_new_def by (rule peers_new_inv) (simp add: wf_example_pos)
  moreover have "true_cmd example_participants (example_new [2, 0] 2) (Register 7 True)" by (simp add: example_participants_def)
  ultimately show ?thesis unfolding example_sender_def by (metis handle_cmd_inv prod.collapse)
qed

lemma example_receiver_inv: "peers_inv example_participants (example_new [1, 0] 0)"
  unfolding example_new_def by (rule peers_new_inv) (simp add: wf_example_pos)

lemma example_fits: "fits_caps example_participants (example_new [1, 0] 0)"
proof -
  have "finite {h. example_participants p \<inter> gnode [1, 0] h \<noteq> {}} \<and> card {h. example_participants p \<inter> gnode [1, 0] h \<noteq> {}} \<le> 8192" for p
    using finite_subset [OF example_gnodes] card_mono [OF _ example_gnodes [of p]] by simp
  then show ?thesis by (simp add: fits_caps_def peers_config_default_def)
qed

theorem snapshot_spreads_witness:
  "\<exists>ps out s'. produce_maps_copy example_sender = Ok ps \<and> apply_participant_set ps (example_new [1, 0] 0) = (Ok (Some out), s') \<and>
     pz_retrieved_below_level s' = 2 \<and> HCoord 0 2 \<in> recorded (pz_participants s') 7"
proof -
  have mdg: "mdg [1, 0] [2, 0 :: u32] = 0" by (rule mdg_eqI) (simp_all add: less_Suc_eq)
  have me: "known_below example_participants example_sender 2" "pz_my_services example_sender = {p. my_addr example_sender \<in> example_participants p}"
    "pz_retrieved_below_level example_sender = 2" "my_addr example_sender = [2, 0]" "pz_topology example_sender = example_scope"
    by (auto simp: example_sender_def known_below_def example_participants_def)
  have "known_below example_participants (example_new [1, 0] 0) 0" by (simp add: known_below_def)
  then obtain ps out s' where r: "produce_maps_copy example_sender = Ok ps" "apply_participant_set ps (example_new [1, 0] 0) = (Ok (Some out), s')"
    "pz_retrieved_below_level s' = 2" "known_below example_participants s' 2"
    using snapshot_spreads [OF example_sender_inv example_receiver_inv _ _ me(2) _ example_fits] mdg me by auto
  have "my_addr s' = [1, 0]"
    using apply_participant_set_inv [of example_participants "example_new [1, 0] 0" ps] r(1,2) produce_maps_copy_true [of example_participants example_sender]
      example_sender_inv example_receiver_inv by (auto simp: peers_inv_def example_sender_def)
  then have "HCoord 0 2 \<in> recorded (pz_participants s') 7"
    using r(4) [unfolded known_below_def, rule_format, of "[2, 0]" 7] mdg by (simp add: example_participants_def coord_of_def)
  then show ?thesis using r by blast
qed

definition example_learned :: peers_state where
  "example_learned = snd (handle_cmd id 0 (ApplyParticipant 7 (HCoord 0 2)) (example_new [1, 0] 0))"

lemma example_learned_run: "peers_run (true_cmd example_participants) id example_scope (example_node [1, 0]) peers_config_default 0 example_learned"
proof (rule peers_run.serve)
  show "peers_run (true_cmd example_participants) id example_scope (example_node [1, 0]) peers_config_default 0 (example_new [1, 0] 0)"
    unfolding example_new_def by (rule peers_run.start)
  show "true_cmd example_participants (example_new [1, 0] 0) (ApplyParticipant 7 (HCoord 0 2))" using example_in_gnode by simp
  show "handle_cmd id 0 (ApplyParticipant 7 (HCoord 0 2)) (example_new [1, 0] 0) =
      (fst (handle_cmd id 0 (ApplyParticipant 7 (HCoord 0 2)) (example_new [1, 0] 0)), example_learned)"
    by (simp only: example_learned_def prod.collapse)
qed

lemma example_learned_recorded: "recorded (pz_participants example_learned) 7 = {HCoord 0 2}"
  by (simp add: example_learned_def apply_participant_def add_participant_def service_limit_reached_def pos_at_def peers_config_default_def recorded_def)

lemma example_node_wf: "wf_my_pos example_scope (naddr_pos (example_node [1, 0]))"
  by (simp add: wf_example_pos)

theorem participation_run_witness:
  "HCoord 0 2 \<in> recorded (pz_participants example_learned) 7 \<and> example_participants 7 \<inter> gnode [1, 0] (HCoord 0 2) \<noteq> {} \<and>
     [1, 0] \<notin> gnode [1, 0] (HCoord 0 2) \<and> (\<exists>reply s'. handle_cmd id 0 AskParticipantMaps example_learned = (Ok reply, s'))"
proof -
  note run = participation_run [OF example_node_wf example_learned_run]
  have "example_participants 7 \<inter> gnode [1, 0] (HCoord 0 2) \<noteq> {} \<and> [1, 0] \<notin> gnode [1, 0] (HCoord 0 2)"
    using run [THEN conjunct1, rule_format, of "HCoord 0 2" 7] example_learned_recorded by simp
  moreover have "\<exists>reply s'. handle_cmd id 0 AskParticipantMaps example_learned = (Ok reply, s') \<and> true_reply example_participants example_learned reply"
    by (rule run [THEN conjunct2, THEN conjunct2, THEN conjunct2, THEN conjunct2, rule_format]) simp_all
  ultimately show ?thesis using example_learned_recorded by blast
qed

theorem flood_stays_true_witness:
  "\<exists>out s'. handle_set_participant 0 7 \<lparr>tg_topology = example_scope, tg_top = 2, tg_pos = [2, 0]\<rparr> example_learned = (Ok out, s')"
proof -
  let ?g = "\<lparr>tg_topology = example_scope, tg_top = 2, tg_pos = [2, 0]\<rparr>"
  have "wf_tuple_gnode example_scope ?g"
    by (simp add: wf_tuple_gnode_def tg_level_def in_ranges_Cons) (simp add: example_scope_def)
  moreover have "[2, 0] \<in> tuple_members a ?g" if "length a = 2" for a
    using that by (auto simp: tuple_members_def tg_level_def)
  ultimately have "true_fact example_participants example_scope (7, ?g)"
    by (auto simp: true_fact_def example_participants_def topology_levels_def example_scope_def)
  then have "\<exists>out s'. handle_set_participant 0 7 ?g example_learned = (Ok out, s') \<and>
      peers_run (true_cmd example_participants) id example_scope (example_node [1, 0]) peers_config_default 0 s' \<and>
      (\<forall>f. out = Some f \<longrightarrow> fst f = 7 \<and> true_fact example_participants example_scope f)"
    by (rule flood_stays_true [OF example_node_wf example_learned_run, THEN conjunct2, rule_format])
  then show ?thesis by blast
qed

text \<open>A search that one node answers.\<close>

definition example_target :: tuple_gnode where
  "example_target = \<lparr>tg_topology = example_scope, tg_top = 2, tg_pos = [1]\<rparr>"

definition example_search :: peers_state where
  "example_search = fold (\<lambda>c s. snd (handle_cmd id 0 c s))
     [RegisterWaiting 5 example_target None, GetRequest 5 (example_key [2, 1]), SetRedoFromStart 5 (example_key [2, 1])] (example_new [1, 0] 0)"

lemma run_fold:
  assumes "peers_run (\<lambda>_ _. True) hash_one t my config r s"
  shows "peers_run (\<lambda>_ _. True) hash_one t my config r (fold (\<lambda>c s. snd (handle_cmd hash_one now c s)) cs s)"
  using assms
proof (induction cs arbitrary: s)
  case (Cons c cs)
  have "peers_run (\<lambda>_ _. True) hash_one t my config r (snd (handle_cmd hash_one now c s))"
    by (rule peers_run.serve [OF Cons.prems TrueI]) (rule prod.collapse [symmetric])
  from Cons.IH [OF this] show ?case by (simp only: fold.simps comp_apply)
qed simp

theorem searches_in_order_witness:
  "\<exists>wa. map_of (pz_waiting example_search) 5 = Some wa \<and> wa_sent wa = [RespondantNode (example_key [2, 1]), RedoFromStartEvent] \<and>
     last_respondant (take 1 (wa_sent wa)) \<noteq> None \<and> targets (wa_sent wa) = []"
proof -
  have run: "peers_run (\<lambda>_ _. True) id example_scope (example_node [1, 0]) peers_config_default 0 example_search"
    unfolding example_search_def by (rule run_fold) (simp only: example_new_def peers_run.start)
  obtain wa where wa: "map_of (pz_waiting example_search) 5 = Some wa" "wa_sent wa = [RespondantNode (example_key [2, 1]), RedoFromStartEvent]"
    by (simp add: example_search_def get_request_def send_event_def send_if_def respondant_matches_def example_target_def Let_def hm_insert_def)
  have "last_respondant (take 1 (wa_sent wa)) \<noteq> None"
    using searches_in_order [OF run wa(1)] wa(2) by (simp add: less_Suc_eq)
  then show ?thesis using wa by (simp add: targets_def)
qed

subsection \<open>Two places where less is said than known\<close>

text \<open>A snapshot handed on after a merge leaves out the services of the node itself, although its marker says
  that every level below it is accurate: here a node that runs service 7 hands on a snapshot without it.\<close>

lemma forwarded_snapshot_omits_own_services:
  "\<exists>out s'. apply_participant_set \<lparr>ps_retrieved_below_level = 3, ps_my_pos = [1, 0], ps_maps = []\<rparr> example_sender = (Ok (Some out), s') \<and>
     7 \<in> pz_my_services s' \<and> ps_retrieved_below_level out = 3 \<and> map_of (ps_maps out) 7 = None"
  by (simp add: example_sender_def apply_participant_set_def is_fresher_def fold_to_my_granularity_def topology_levels_def example_scope_def
      example_new_def peers_new_def fold_maps_def merge_folded_def publish_peers_snapshot_def produce_below_level_def Let_def)

text \<open>A manager created with levels already retrieved publishes, until its first change, a snapshot that says none is.\<close>

lemma new_manager_snapshot_marker:
  "pz_retrieved_below_level (peers_new t my config 2) = 2 \<and> sn_retrieved_below_level (pz_snapshot (peers_new t my config 2)) = 0"
  by (simp add: peers_new_def)

end
