(* ===== verification/Peers_Search.thy ===== *)
theory Peers_Search
  imports Peers_Spread
begin

section \<open>Whom a search elects\<close>

text \<open>
  The first step of every search: \<open>non_participant_gnodes\<close> lists the g-nodes to leave out, \<open>approximate\<close>
  elects the closest of the others. Together they elect the closest g-node that really has a participant.
\<close>

lemma my_own_gnode: "my \<noteq> [] \<Longrightarrow> gnode my (HCoord 0 (my ! 0)) = {my}"
proof -
  assume ne: "my \<noteq> []"
  have "a = my" if "a \<in> gnode my (HCoord 0 (my ! 0))" for a
  proof (rule nth_equalityI)
    show "a ! i = my ! i" if "i < length a" for i
      using \<open>a \<in> _\<close> that by (cases "i = 0") (simp_all add: gnode_def)
  qed (use that in \<open>simp add: gnode_def\<close>)
  moreover have "my \<in> gnode my (HCoord 0 (my ! 0))" using ne by (simp add: gnode_def)
  ultimately show ?thesis by blast
qed

lemma coord_of_member:
  assumes "a \<in> gnode my h" "hc_pos h \<noteq> my ! hc_level h"
  shows "coord_of my a = h" "mdg my a = hc_level h"
proof -
  show m: "mdg my a = hc_level h" using assms by (intro mdg_eqI) (auto simp: gnode_def)
  show "coord_of my a = h" using assms(1) m by (cases h) (simp add: coord_of_def gnode_def)
qed

text \<open>The g-nodes left out are exactly those of the scope without a participant, when everything below the scope is known.\<close>

lemma non_participants_exact:
  assumes "part_inv P s" "known_below P s l" "target_levels \<le> l" "target_levels \<le> length (my_addr s)"
    "is_optional_service s p" "map_of (pz_services s) p \<noteq> None \<longleftrightarrow> my_addr s \<in> P p"
  shows "\<exists>gs. non_participant_gnodes p target_levels s = Ok gs \<and>
     (\<forall>h. coord_in (pz_topology s) target_levels h \<longrightarrow> h = HCoord 0 (my_addr s ! 0) \<or> hc_pos h \<noteq> my_addr s ! hc_level h \<longrightarrow>
        (h \<in> set gs \<longleftrightarrow> P p \<inter> gnode (my_addr s) h = {}))"
proof -
  let ?my = "my_addr s" let ?t = "pz_topology s" let ?me = "HCoord 0 (?my ! 0)"
  have pos: "wf_my_pos ?t ?my" and sound: "maps_sound P ?my (pz_participants s)" and others: "part_others s"
    using assms(1) by (simp_all add: part_inv_def part_shape_def part_sound_def)
  have ne: "?my \<noteq> []" using pos by (auto simp: wf_my_pos_def wf_topology_def)
  obtain gs where gs: "all_gnodes_up_to_lvl ?t ?my target_levels = Ok gs" and mem: "set gs =
      {h. hc_level h < target_levels \<and> hc_level h < length ?my \<and> hc_pos h < gsizes ?t ! hc_level h \<and> hc_pos h \<noteq> ?my ! hc_level h} \<union> {?me}"
    using all_gnodes_up_to_lvl_run [OF pos] by blast
  let ?out = "filter (\<lambda>lp. \<not> (map_of (pz_services s) p \<noteq> None \<and> lp = ?me))
      (filter (\<lambda>lp. case map_of (pz_participants s) p of None \<Rightarrow> True | Some m \<Rightarrow> lp \<notin> m) gs)"
  have run: "non_participant_gnodes p target_levels s = Ok ?out"
    using assms(5) gs ne by (simp add: non_participant_gnodes_def)
  have rec: "(case map_of (pz_participants s) p of None \<Rightarrow> True | Some m \<Rightarrow> lp \<notin> m) \<longleftrightarrow> lp \<notin> recorded (pz_participants s) p" for lp
    by (simp add: recorded_def split: option.splits)
  have me: "?me \<notin> recorded (pz_participants s) p"
  proof
    assume "?me \<in> recorded (pz_participants s) p"
    then have "pos_at (pz_my_pos s) 0 \<noteq> Some (?my ! 0)" using others unfolding part_others_def by fastforce
    then show False using ne by (simp add: pos_at_def)
  qed
  have known: "h \<in> recorded (pz_participants s) p \<longleftrightarrow> P p \<inter> gnode ?my h \<noteq> {}"
    if h: "hc_level h < target_levels" "hc_pos h \<noteq> ?my ! hc_level h" for h
  proof
    show "h \<in> recorded (pz_participants s) p \<Longrightarrow> P p \<inter> gnode ?my h \<noteq> {}" using sound by (simp add: maps_sound_recorded)
    assume "P p \<inter> gnode ?my h \<noteq> {}"
    then obtain a where a: "a \<in> P p" "a \<in> gnode ?my h" by auto
    then have "length a = length ?my" "a \<noteq> ?my" using h(2) by (auto simp: gnode_def)
    then show "h \<in> recorded (pz_participants s) p"
      using assms(2,3) a h(1) coord_of_member [OF a(2) h(2)] by (auto simp: known_below_def)
  qed
  have "h \<in> set ?out \<longleftrightarrow> P p \<inter> gnode ?my h = {}"
    if "coord_in ?t target_levels h" "h = ?me \<or> hc_pos h \<noteq> ?my ! hc_level h" for h
  proof (cases "h = ?me")
    case True
    then show ?thesis using mem me assms(6) my_own_gnode [OF ne] by (auto simp: rec)
  next
    case False
    then have "h \<in> set gs" "h \<in> recorded (pz_participants s) p \<longleftrightarrow> P p \<inter> gnode ?my h \<noteq> {}"
      using that mem known [of h] assms(4) by (simp_all add: coord_in_def)
    then show ?thesis using False by (simp add: rec)
  qed
  with run show ?thesis by blast
qed

text \<open>C7: a search goes where it is served. When a node knows every participant below the scope of the target and
  the g-nodes that hold one exist in its map, leaving out the non-participants elects the g-node closest to the
  target among those of the scope that hold a participant of the service, itself included, and none exactly
  when there is no such g-node.\<close>

theorem search_elects_participant:
  assumes "peers_inv P s" "known_below P s l" "tn_top x \<le> l" "is_optional_service s p"
    "map_of (pz_services s) p \<noteq> None \<longleftrightarrow> my_addr s \<in> P p"
    "wf_tuple_node (pz_topology s) x" "0 < tn_top x" "dist_fits (pz_topology s) (tn_top x)"
    "\<And>h. P p \<inter> gnode (my_addr s) h \<noteq> {} \<Longrightarrow> ex h"
  shows "\<exists>gs r. non_participant_gnodes p (tn_top x) s = Ok gs \<and> approximate (pz_topology s) (my_addr s) (Some x) gs ex = Ok r \<and>
     (let S = {h. coord_in (pz_topology s) (tn_top x) h \<and> P p \<inter> gnode (my_addr s) h \<noteq> {} \<and>
        (h = HCoord 0 (my_addr s ! 0) \<or> hc_pos h \<noteq> my_addr s ! hc_level h)} in
      case r of None \<Rightarrow> S = {}
      | Some h \<Rightarrow> h \<in> S \<and> (\<forall>h' \<in> S. h' \<noteq> h \<longrightarrow>
          coord_dist (pz_topology s) (my_addr s) x h < coord_dist (pz_topology s) (my_addr s) x h'))"
proof -
  have inv: "part_inv P s" using assms(1) by (simp add: peers_inv_def)
  then have pos: "wf_my_pos (pz_topology s) (my_addr s)" by (simp add: part_inv_def part_shape_def)
  have len: "tn_top x \<le> length (my_addr s)"
    using assms(6) pos by (simp add: wf_tuple_node_def in_ranges_def wf_my_pos_def tn_top_def)
  obtain gs where gs: "non_participant_gnodes p (tn_top x) s = Ok gs" and exact:
    "\<And>h. coord_in (pz_topology s) (tn_top x) h \<Longrightarrow> h = HCoord 0 (my_addr s ! 0) \<or> hc_pos h \<noteq> my_addr s ! hc_level h \<Longrightarrow>
       h \<in> set gs \<longleftrightarrow> P p \<inter> gnode (my_addr s) h = {}"
    using non_participants_exact [OF inv assms(2,3) len assms(4,5)] by blast
  let ?S = "{h. coord_in (pz_topology s) (tn_top x) h \<and> P p \<inter> gnode (my_addr s) h \<noteq> {} \<and>
        (h = HCoord 0 (my_addr s ! 0) \<or> hc_pos h \<noteq> my_addr s ! hc_level h)}"
  have S: "candidates (pz_topology s) (my_addr s) (tn_top x) gs ex = ?S"
  proof (rule set_eqI)
    show "h \<in> candidates (pz_topology s) (my_addr s) (tn_top x) gs ex \<longleftrightarrow> h \<in> ?S" for h
      using exact [of h] assms(9) [of h] by (auto simp: candidates_def)
  qed
  show ?thesis
    unfolding Let_def using gs approximate_closest [OF pos assms(6,7,8), of gs ex, unfolded S] by blast
qed

lemma example_learned_known: "known_below example_participants example_learned 2"
proof -
  have mdg: "mdg [1, 0] [2, 0 :: u32] = 0" by (rule mdg_eqI) (simp_all add: less_Suc_eq)
  have "my_addr example_learned = [1, 0]"
    using peers_run_inv [OF example_learned_run example_node_wf] by simp
  then show ?thesis
    using example_learned_recorded mdg by (simp add: known_below_def example_participants_def coord_of_def split: if_splits)
qed

theorem search_elects_participant_witness:
  "\<exists>gs. non_participant_gnodes 7 2 example_learned = Ok gs \<and>
     approximate example_scope [1, 0] (Some (example_key [3, 1])) gs (\<lambda>_. True) = Ok (Some (HCoord 0 2))"
proof -
  let ?s = example_learned
  have s: "peers_inv example_participants ?s" "pz_topology ?s = example_scope" "pz_my_pos ?s = example_node [1, 0]"
    using peers_run_inv [OF example_learned_run example_node_wf] by simp_all
  have sv: "pz_services ?s = []"
    by (simp add: example_learned_def apply_participant_def add_participant_def service_limit_reached_def pos_at_def peers_config_default_def)
  let ?S = "{h. coord_in example_scope 2 h \<and> example_participants 7 \<inter> gnode [1, 0] h \<noteq> {} \<and>
      (h = HCoord 0 1 \<or> hc_pos h \<noteq> [1, 0] ! hc_level h)}"
  have S: "h = HCoord 0 2" if "h \<in> ?S" for h using that example_gnodes [of 7] by auto
  have me: "HCoord 0 2 \<in> ?S" using example_in_gnode by (simp add: coord_in_def example_scope_def)
  have "\<exists>gs r. non_participant_gnodes 7 2 ?s = Ok gs \<and> approximate example_scope [1, 0] (Some (example_key [3, 1])) gs (\<lambda>_. True) = Ok r \<and>
      (case r of None \<Rightarrow> ?S = {} | Some h \<Rightarrow> h \<in> ?S \<and> (\<forall>h' \<in> ?S. h' \<noteq> h \<longrightarrow>
          coord_dist example_scope [1, 0] (example_key [3, 1]) h < coord_dist example_scope [1, 0] (example_key [3, 1]) h'))"
  proof -
    have top: "tn_top (example_key [3, 1]) = 2" by (simp only: tn_top_example_key numeral_2_eq_2)
    have wf: "wf_tuple_node (pz_topology ?s) (example_key [3, 1])" unfolding s(2) by (rule wf_example_key) simp_all
    have fit: "dist_fits (pz_topology ?s) (tn_top (example_key [3, 1]))" by (simp add: s(2))
    have pos: "0 < tn_top (example_key [3, 1])" by simp
    have opt: "is_optional_service ?s 7" "map_of (pz_services ?s) 7 \<noteq> None \<longleftrightarrow> my_addr ?s \<in> example_participants 7"
      using sv s(3) by (simp_all add: is_optional_service_def example_participants_def)
    show ?thesis
      using search_elects_participant [where ex = "\<lambda>_. True", OF s(1) example_learned_known eq_refl [OF top] opt wf pos fit TrueI]
      unfolding top s(2,3) Let_def example_node_pos nth_Cons_0 .
  qed
  then obtain gs r where r: "non_participant_gnodes 7 2 ?s = Ok gs" "approximate example_scope [1, 0] (Some (example_key [3, 1])) gs (\<lambda>_. True) = Ok r"
    and elected: "case r of None \<Rightarrow> ?S = {} | Some h \<Rightarrow> h \<in> ?S \<and> (\<forall>h' \<in> ?S. h' \<noteq> h \<longrightarrow>
          coord_dist example_scope [1, 0] (example_key [3, 1]) h < coord_dist example_scope [1, 0] (example_key [3, 1]) h')" by blast
  have "r = Some (HCoord 0 2)"
  proof (cases r)
    case None
    then have "?S = {}" using elected by (simp only: option.case)
    then show ?thesis using me by blast
  next
    case (Some h)
    then have "h \<in> ?S" using elected by (simp only: option.case)
    then show ?thesis using S Some by blast
  qed
  then show ?thesis using r by blast
qed

end
