(* ===== verification/Peers_RoutingLaws.thy ===== *)
theory Peers_RoutingLaws
  imports Peers_Routing Peers_Search
begin

section \<open>What routing guarantees\<close>

text \<open>
  The laws of \<open>Peers_Routing\<close>: which arguments and events keep \<open>contact_peer\<close> and \<open>forward_msg\<close> from a panic, that
  the receive loop ends once the events do, and what the messages they send and the events they tell look like.
\<close>

subsection \<open>Gateways\<close>

lemma try_forward_loop_bound: "length (snd (try_forward_loop env target is' failed)) \<le> length is'"
  by (induction env target is' failed rule: try_forward_loop.induct) (auto simp: case_prod_beta Let_def split: option.splits)

lemma try_forward_bound: "length (snd (try_forward c env target)) \<le> max_relay_attempts c"
  using try_forward_loop_bound [of env target "[0..<max_relay_attempts c]" None] by (simp add: try_forward_def)

subsection \<open>The parts of a forwarder\<close>

lemma new_of_wf: "wf_tuple_gnode t h \<Longrightarrow> tuple_gnode_new t (tg_top h) (tg_pos h) = Ok h"
  by (cases h) (auto simp: tuple_gnode_new_Ok wf_tuple_gnode_def tg_level_def)

lemma visible_run:
  assumes "wf_my_pos t my" "wf_tuple_gnode t g"
  shows "\<exists>b. visible_by_someone_inside_my_gnode my g lvl = Ok b"
proof -
  define l where "l = (if lvl = 0 \<or> lvl - 1 \<le> tg_level g then tg_level g + 1 else lvl)"
  have vis: "visible_by_someone_inside_my_gnode my g lvl =
      (if tg_top g \<le> l then Ok True
       else res_bind (slice (l - tg_level g) (length (tg_pos g)) (tg_pos g)) (\<lambda>ps.
         res_bind (expect_ok (tuple_gnode_new (tg_topology g) (tg_top g) ps)) (\<lambda>h.
         res_bind (convert_tuple_gnode my h) (\<lambda>r. Ok (fst r = Mine)))))"
    unfolding visible_by_someone_inside_my_gnode_def Let_def l_def ..
  have g: "tg_topology g = t" "tg_level g + length (tg_pos g) = tg_top g" "in_ranges t (tg_level g) (tg_pos g)"
    "tg_top g \<le> length (gsizes t)" using assms(2) by (auto simp: wf_tuple_gnode_def tg_level_def)
  have lt: "tg_level g < l" by (auto simp: l_def)
  show ?thesis
  proof (cases "tg_top g \<le> l")
    case True
    then show ?thesis unfolding vis by auto
  next
    case False
    let ?ps = "drop (l - tg_level g) (tg_pos g)" let ?h = "\<lparr>tg_topology = t, tg_top = tg_top g, tg_pos = ?ps\<rparr>"
    have len: "length ?ps = tg_top g - l" "l - tg_level g \<le> length (tg_pos g)" using g(2) lt False by auto
    have lev: "tg_level ?h = l" using len False by (simp add: tg_level_def [of ?h])
    have r: "in_ranges t l ?ps" using in_ranges_drop [OF g(3) len(2)] lt by simp
    have wf: "wf_tuple_gnode t ?h" using r lev len g(4) False by (auto simp: wf_tuple_gnode_def)
    from new_of_wf [OF wf] have new: "tuple_gnode_new t (tg_top g) ?ps = Ok ?h" by simp
    obtain rel h where "convert_tuple_gnode my ?h = Ok (rel, h)" using convert_meaning [OF assms(1) wf] by blast
    then show ?thesis using False g(1) len(2) new by (simp add: vis slice_def)
  qed
qed

lemma visible_tuples_run:
  assumes "wf_my_pos t my" "list_all (wf_tuple_gnode t) gs"
  shows "\<exists>gs'. visible_tuples my lvl gs = Ok gs' \<and> list_all (wf_tuple_gnode t) gs'"
proof -
  have "\<exists>gss. try_map (visible_tuple my lvl) gs = Ok gss \<and> list_all (wf_tuple_gnode t) (concat gss)"
    using assms(2)
  proof (induction gs)
    case (Cons g gs)
    obtain b where "visible_by_someone_inside_my_gnode my g lvl = Ok b" using visible_run [OF assms(1), of g lvl] Cons.prems by auto
    then show ?case using Cons by (auto simp: visible_tuple_def)
  qed simp
  then show ?thesis by (auto simp: visible_tuples_def)
qed

lemma deeper_exclude_run:
  assumes "wf_my_pos t my" "wf_tuple_gnode t g"
  shows "\<exists>gs. deeper_exclude t my x g = Ok gs \<and> list_all (\<lambda>g. wf_tuple_gnode t g \<and> tg_top g = hc_level x) gs"
proof -
  have len: "tg_top g \<le> length my" using assms by (simp add: wf_my_pos_def wf_tuple_gnode_def)
  have g: "tg_level g + length (tg_pos g) = tg_top g" "in_ranges t (tg_level g) (tg_pos g)" "tg_top g \<le> length (gsizes t)"
    using assms(2) by (auto simp: wf_tuple_gnode_def tg_level_def)
  from assms(2) len show ?thesis
  proof (cases rule: convert_cases)
    case mine
    then show ?thesis by (simp add: deeper_exclude_def)
  next
    case (leaves k)
    show ?thesis
    proof (cases "k \<noteq> tg_level g \<and> HCoord k (tg_pos g ! (k - tg_level g)) = x")
      case True
      then have k: "hc_level x = k" "tg_level g < k" using leaves(1) by auto
      let ?ps = "take (k - tg_level g) (tg_pos g)" let ?h = "\<lparr>tg_topology = t, tg_top = k, tg_pos = ?ps\<rparr>"
      have len: "length ?ps = k - tg_level g" using g(1) leaves(2) by simp
      have lev: "tg_level ?h = tg_level g" using len k by (simp add: tg_level_def [of ?h])
      have wf: "wf_tuple_gnode t ?h"
        using len lev k in_ranges_take [OF g(2)] g(3) leaves(2) by (auto simp: wf_tuple_gnode_def)
      from new_of_wf [OF wf] have "tuple_gnode_new t k ?ps = Ok ?h" by simp
      with wf show ?thesis
        using True leaves(5) k len g(1) leaves(2) by (auto simp: deeper_exclude_def slice_def)
    next
      case False
      then show ?thesis using leaves(5) by (auto simp: deeper_exclude_def)
    qed
  qed
qed

lemma deeper_excludes_run:
  assumes "wf_my_pos t my" "list_all (wf_tuple_gnode t) gs"
  shows "\<exists>gs'. deeper_excludes t my x gs = Ok gs' \<and> list_all (\<lambda>g. wf_tuple_gnode t g \<and> tg_top g = hc_level x) gs'"
proof -
  have "\<exists>gss. try_map (deeper_exclude t my x) gs = Ok gss \<and> list_all (\<lambda>g. wf_tuple_gnode t g \<and> tg_top g = hc_level x) (concat gss)"
    using assms(2)
  proof (induction gs)
    case (Cons g gs)
    then show ?case using deeper_exclude_run [OF assms(1), of g x] by auto
  qed simp
  then show ?thesis by (auto simp: deeper_excludes_def)
qed

lemma prefix_target_run:
  assumes "level = 0 \<or> (\<exists>xm. x_macron = Some xm \<and> wf_tuple_node t xm \<and> level \<le> tn_top xm)"
  shows "\<exists>p. prefix_target t x_macron level = Ok p \<and>
     (if level = 0 then p = None else \<exists>n. p = Some n \<and> wf_tuple_node t n \<and> tn_top n = level)"
proof (cases "level = 0")
  case False
  then obtain xm where xm: "x_macron = Some xm" "wf_tuple_node t xm" "level \<le> tn_top xm" using assms by auto
  let ?n = "\<lparr>tn_topology = t, tn_pos = take level (tn_pos xm)\<rparr>"
  have "in_ranges t 0 (take level (tn_pos xm))" using xm(2) by (simp add: wf_tuple_node_def in_ranges_take)
  then have "wf_tuple_node t ?n" "tuple_node_new t (take level (tn_pos xm)) = Ok ?n" by (simp_all add: wf_tuple_node_def tuple_node_new_Ok)
  moreover have "tn_top ?n = level" using xm(3) by (simp add: tn_top_def)
  ultimately show ?thesis using False xm by (auto simp: prefix_target_def slice_def tn_top_def)
qed (simp add: prefix_target_def)

subsection \<open>\<open>contact_peer\<close>\<close>

text \<open>The parameters of a call: this node's address, a target of its scope, tuples of the topology to leave out.\<close>

definition contact_ok :: "contact_params \<Rightarrow> bool" where
  "contact_ok cp \<longleftrightarrow> wf_my_pos (cp_topology cp) (cp_my_pos cp) \<and> dist_fits (cp_topology cp) (target_levels cp) \<and>
     pred_option (wf_tuple_node (cp_topology cp)) (cp_x_macron cp) \<and>
     list_all (wf_tuple_gnode (cp_topology cp)) (cp_seed_exclude_tuple_list cp)"

definition search_ok :: "contact_params \<Rightarrow> search \<Rightarrow> bool" where
  "search_ok cp s \<longleftrightarrow> list_all (wf_tuple_gnode (cp_topology cp)) (se_exclude_tuple_list s) \<and>
     list_all (wf_tuple_gnode (cp_topology cp)) (se_non_participant_tuple_list s)"

text \<open>The events a search of scope \<open>n\<close> may receive.\<close>

fun event_ok :: "topology \<Rightarrow> usize \<Rightarrow> route_event \<Rightarrow> bool" where
  "event_ok t n (NextDestination g) \<longleftrightarrow> wf_tuple_gnode t g \<and> tg_top g = n"
| "event_ok t n (Failure g) \<longleftrightarrow> wf_tuple_gnode t g \<and> tg_top g = n"
| "event_ok t n (NonParticipant g) \<longleftrightarrow> wf_tuple_gnode t g \<and> tg_top g = n"
| "event_ok t n (RespondantNode m) \<longleftrightarrow> wf_tuple_node t m \<and> tn_top m = n"
| "event_ok t n _ \<longleftrightarrow> True"

definition events_ok :: "topology \<Rightarrow> usize \<Rightarrow> route_event list \<Rightarrow> bool" where
  "events_ok t n es \<longleftrightarrow> list_all (event_ok t n) es \<and> answered_after es"

text \<open>The first \<open>k\<close> events of an attempt, and that the events come to an end: some time nothing arrives before the timeout.\<close>

primrec heard :: "nat \<Rightarrow> arrivals \<Rightarrow> route_event list" where
  "heard 0 incoming = []"
| "heard (Suc k) incoming = (case incoming of Silent \<Rightarrow> [] | Arrives d e later \<Rightarrow> e # heard k later)"

inductive falls_silent :: "duration \<Rightarrow> arrivals \<Rightarrow> bool" for T where
  silent: "falls_silent T Silent"
| late: "T < d \<Longrightarrow> falls_silent T (Arrives d e later)"
| told: "falls_silent T later \<Longrightarrow> falls_silent T (Arrives d e later)"

definition longest_timeout :: "contact_params \<Rightarrow> duration" where
  "longest_timeout cp = max (cp_timeout_exec cp) (max (routing_timeout_small (cp_config cp))
     (max (routing_timeout_medium (cp_config cp)) (routing_timeout_large (cp_config cp))) + min_timeout (cp_config cp))"

lemma routing_timeout_longest: "routing_timeout (cp_config cp) nodes \<le> longest_timeout cp"
  by (auto simp: routing_timeout_def longest_timeout_def max_def)

definition arrivals_ok :: "contact_params \<Rightarrow> usize \<Rightarrow> arrivals \<Rightarrow> bool" where
  "arrivals_ok cp n incoming \<longleftrightarrow> falls_silent (longest_timeout cp) incoming \<and> (\<forall>k. events_ok (cp_topology cp) n (heard k incoming))"

definition routable :: "topology \<Rightarrow> forwarder \<Rightarrow> bool" where
  "routable t mf \<longleftrightarrow> wf_tuple_node t (mf_n mf) \<and> mf_lvl mf < tn_top (mf_n mf) \<and> mf_pos mf < gsizes t ! mf_lvl mf \<and>
     (if mf_lvl mf = 0 then mf_x_macron mf = None
      else \<exists>x. mf_x_macron mf = Some x \<and> wf_tuple_node t x \<and> tn_top x = mf_lvl mf) \<and>
     list_all (wf_tuple_gnode t) (mf_exclude_tuple_list mf) \<and> list_all (wf_tuple_gnode t) (mf_non_participant_tuple_list mf) \<and>
     mf_inside_level mf \<le> topology_levels t"

lemma routable_valid:
  assumes "routable t mf" "fits32 (topology_levels t)"
  shows "valid_forwarder t mf"
proof -
  have small: "n \<le> topology_levels t \<Longrightarrow> fits32 n" for n using assms(2) by (simp add: fits32_def)
  have "wf_tuple_gnode t g \<Longrightarrow> valid_gnode t g" for g
    using small [of "tg_top g"] by (simp add: valid_gnode_def wf_tuple_gnode_def topology_levels_def)
  then have gs: "list_all (wf_tuple_gnode t) gs \<Longrightarrow> list_all (valid_gnode t) gs" for gs by (auto simp: list_all_iff)
  have "tn_top (mf_n mf) \<le> topology_levels t" using assms(1) by (simp add: routable_def wf_tuple_node_def in_ranges_def tn_top_def topology_levels_def)
  then have "fits32 (mf_lvl mf)" "fits32 (mf_inside_level mf)" using assms(1) small by (simp_all add: routable_def)
  then show ?thesis using assms(1) gs by (auto simp: valid_forwarder_def routable_def split: if_splits)
qed

fun step_ok :: "contact_params \<Rightarrow> search_step \<Rightarrow> bool" where
  "step_ok cp (Again s) \<longleftrightarrow> search_ok cp s"
| "step_ok cp Restart \<longleftrightarrow> True"
| "step_ok cp (Finished (Found r n)) \<longleftrightarrow> wf_tuple_node (cp_topology cp) n \<and> tn_top n = target_levels cp"
| "step_ok cp (Finished (Failed e)) \<longleftrightarrow> True"

lemma target_levels_le: "contact_ok cp \<Longrightarrow> target_levels cp \<le> length (cp_my_pos cp)"
  by (auto simp: contact_ok_def target_levels_def wf_my_pos_def wf_tuple_node_def in_ranges_def tn_top_def split: option.splits)

lemma my_pos_ne: "wf_my_pos t my \<Longrightarrow> my \<noteq> []"
  by (auto simp: wf_my_pos_def wf_topology_def)

lemma all_gnodes_ok: "wf_my_pos t my \<Longrightarrow> \<exists>gs. all_gnodes_up_to_lvl t my lvl = Ok gs"
  using all_gnodes_up_to_lvl_run by blast

lemma exclude_visible_run:
  assumes "wf_my_pos t my" "wf_tuple_gnode t g"
  shows "\<exists>excl'. exclude_visible my g excl = Ok excl'"
  using convert_meaning [OF assms] by (auto simp: exclude_visible_def)

lemma exclude_failed_run:
  assumes "contact_ok cp" "search_ok cp s" "wf_tuple_gnode (cp_topology cp) g" "tg_top g \<le> target_levels cp"
  shows "\<exists>g' s'. exclude_failed cp g s = Ok (g', s') \<and> search_ok cp s' \<and> wf_tuple_gnode (cp_topology cp) g'"
proof -
  have my: "wf_my_pos (cp_topology cp) (cp_my_pos cp)" using assms(1) by (simp add: contact_ok_def)
  obtain g' where g': "rebase_tuple_gnode (cp_my_pos cp) g (target_levels cp) = Ok g'" "wf_tuple_gnode (cp_topology cp) g'"
    using rebase_tuple_gnode_run [OF my assms(3,4) target_levels_le [OF assms(1)]] .
  obtain excl where "exclude_visible (cp_my_pos cp) g' (se_exclude_gnode_list s) = Ok excl"
    using exclude_visible_run [OF my g'(2)] by blast
  then show ?thesis using g' assms(2) by (auto simp: exclude_failed_def search_ok_def)
qed

lemma node_gnode_run:
  assumes "wf_tuple_node t n" "tn_pos n \<noteq> []"
  shows "\<exists>g. tuple_node_to_tuple_gnode n = Ok g \<and> wf_tuple_gnode t g \<and> tg_top g = tn_top n \<and> tg_level g = 0"
proof -
  let ?g = "\<lparr>tg_topology = t, tg_top = tn_top n, tg_pos = tn_pos n\<rparr>"
  have wf: "wf_tuple_gnode t ?g" using assms by (auto simp: wf_tuple_gnode_def wf_tuple_node_def tg_level_def tn_top_def in_ranges_def)
  from new_of_wf [OF wf] have "tuple_gnode_new t (tn_top n) (tn_pos n) = Ok ?g" by simp
  then show ?thesis using wf assms(1) by (simp add: tuple_node_to_tuple_gnode_def wf_tuple_node_def tg_level_def tn_top_def)
qed

lemma exclude_refused_run:
  assumes "contact_ok cp" "search_ok cp s" "wf_tuple_node (cp_topology cp) n" "tn_top n = target_levels cp" "0 < target_levels cp"
  shows "\<exists>s'. exclude_refused cp n refusal s = Ok s' \<and> search_ok cp s'"
proof -
  let ?t = "cp_topology cp" let ?my = "cp_my_pos cp" let ?l = "rf_level refusal"
  have my: "wf_my_pos ?t ?my" using assms(1) by (simp add: contact_ok_def)
  have ne: "tn_pos n \<noteq> []" using assms(4,5) by (auto simp: tn_top_def)
  obtain g where g: "tuple_node_to_tuple_gnode n = Ok g" "wf_tuple_gnode ?t g" "tg_level g = 0"
    using node_gnode_run [OF assms(3) ne] by blast
  obtain gs where gs: "all_gnodes_up_to_lvl ?t ?my ?l = Ok gs" using all_gnodes_ok [OF my] by blast
  show ?thesis
  proof (cases "?l < tg_top g")
    case True
    then obtain g' where g': "tuple_gnode_containing g ?l = Ok g'" "wf_tuple_gnode ?t g'"
      using tuple_gnode_containing_run [OF g(2), of ?l ?my] g(3) by auto
    obtain rel h where "convert_tuple_gnode ?my g' = Ok (rel, h)" using convert_meaning [OF my g'(2)] by blast
    then show ?thesis using g g' gs assms(2) by (cases rel) (auto simp: exclude_refused_def search_ok_def Let_def)
  next
    case False
    then have "tuple_gnode_containing g ?l = Err EmptyGNodeTuple" using tuple_gnode_containing_run [OF g(2), of ?l ?my] g(3) by simp
    then show ?thesis using g gs assms(2) by (auto simp: exclude_refused_def search_ok_def Let_def)
  qed
qed

lemma rebase_tuple_node_run:
  assumes "wf_my_pos t my" "wf_tuple_node t n" "tn_top n \<le> new_top" "new_top \<le> length my"
  shows "\<exists>n'. rebase_tuple_node my n new_top = Ok n' \<and> wf_tuple_node t n' \<and> tn_top n' = new_top"
proof -
  let ?mine = "drop (tn_top n) (take new_top my)" let ?n' = "\<lparr>tn_topology = t, tn_pos = tn_pos n @ ?mine\<rparr>"
  have "in_ranges t (tn_top n) ?mine" using my_pos_ranges [OF assms(1,3,4)] .
  then have "wf_tuple_node t ?n'" using assms(2) by (simp add: wf_tuple_node_def in_ranges_append tn_top_def)
  moreover then have "tuple_node_new t (tn_pos n @ ?mine) = Ok ?n'" by (simp add: tuple_node_new_Ok wf_tuple_node_def)
  moreover have "tn_top ?n' = new_top" using assms(3,4) by (simp add: tn_top_def)
  ultimately show ?thesis
    using assms(2,3,4) by (auto simp: rebase_tuple_node_def slice_def drop_take wf_tuple_node_def)
qed

lemma answered_after_Cons:
  assumes "answered_after (e # es)"
  shows "\<not> is_answer e" "(\<forall>n. e \<noteq> RespondantNode n) \<Longrightarrow> answered_after es"
proof -
  have a: "is_answer ((e # es) ! i) \<Longrightarrow> i < Suc (length es) \<Longrightarrow> last_respondant (take i (e # es)) \<noteq> None" for i
    using assms by (simp add: answered_after_def)
  show "\<not> is_answer e" using a [of 0] by auto
  assume e: "\<forall>n. e \<noteq> RespondantNode n"
  have "last_respondant (e # xs) = last_respondant xs" for xs using e by (cases e) (auto split: option.splits)
  then show "answered_after es" using a [of "Suc i" for i] by (auto simp: answered_after_def)
qed

definition respondant_in_scope :: "contact_params \<Rightarrow> tuple_node option \<Rightarrow> bool" where
  "respondant_in_scope cp respondant \<longleftrightarrow> pred_option (\<lambda>m. wf_tuple_node (cp_topology cp) m \<and> tn_top m = target_levels cp) respondant"

fun listening_ok :: "contact_params \<Rightarrow> usize \<Rightarrow> duration \<Rightarrow> tuple_node option \<Rightarrow> listening \<Rightarrow> bool" where
  "listening_ok cp n timeout respondant (Leave step) \<longleftrightarrow> step_ok cp step"
| "listening_ok cp n timeout respondant (Listen timeout' g respondant') \<longleftrightarrow>
     wf_tuple_gnode (cp_topology cp) g \<and> tg_top g = n \<and> timeout' \<le> max timeout (cp_timeout_exec cp) \<and>
     respondant_in_scope cp respondant' \<and> (respondant \<noteq> None \<longrightarrow> respondant' \<noteq> None)"

lemma on_event_run:
  assumes "contact_ok cp" "0 < n" "n \<le> target_levels cp" "search_ok cp s" "wf_tuple_gnode (cp_topology cp) g" "tg_top g = n"
    "event_ok (cp_topology cp) n e" "respondant_in_scope cp respondant" "respondant = None \<Longrightarrow> \<not> is_answer e"
  shows "\<exists>l. on_event cp timeout g respondant s e = Ok l \<and> listening_ok cp n timeout respondant l \<and>
     (\<forall>t' g' r'. l = Listen t' g' r' \<longrightarrow> r' = None \<longrightarrow> (\<forall>m. e \<noteq> RespondantNode m))"
proof (cases e)
  case (NextDestination g')
  then show ?thesis using assms(6-8) by (simp add: on_event_def)
next
  case (Failure g')
  then show ?thesis using exclude_failed_run [OF assms(1,4), of g'] assms(3,7) by (auto simp: on_event_def)
next
  case (NonParticipant g')
  then show ?thesis using exclude_failed_run [OF assms(1,4), of g'] assms(3,7) by (auto simp: on_event_def search_ok_def)
next
  case MissingOptionalMaps
  then show ?thesis by (simp add: on_event_def)
next
  case (RespondantNode m)
  have my: "wf_my_pos (cp_topology cp) (cp_my_pos cp)" using assms(1) by (simp add: contact_ok_def)
  obtain m' where "rebase_tuple_node (cp_my_pos cp) m (target_levels cp) = Ok m'" "wf_tuple_node (cp_topology cp) m'" "tn_top m' = target_levels cp"
    using rebase_tuple_node_run [OF my, of m "target_levels cp"] assms(3,7) RespondantNode target_levels_le [OF assms(1)] by auto
  then show ?thesis using assms(5,6,8) RespondantNode by (cases respondant) (simp_all add: on_event_def respondant_in_scope_def)
next
  case (Response r)
  then show ?thesis using assms(8,9) by (cases respondant) (simp_all add: on_event_def respondant_in_scope_def)
next
  case (RefuseEvent f)
  show ?thesis
  proof (cases respondant)
    case None
    then show ?thesis using assms(9) RefuseEvent by simp
  next
    case (Some m)
    have "0 < target_levels cp" using assms(2,3) by simp
    then obtain s' where "exclude_refused cp m f s = Ok s'" "search_ok cp s'"
      using exclude_refused_run [OF assms(1,4), of m f] assms(8) Some by (auto simp: respondant_in_scope_def)
    then show ?thesis using Some RefuseEvent by (simp add: on_event_def)
  qed
next
  case RedoFromStartEvent
  then show ?thesis using assms(8,9) by (cases respondant) (simp_all add: on_event_def)
qed

lemma attempt_timed_out_run:
  assumes "contact_ok cp" "search_ok cp s" "wf_tuple_gnode (cp_topology cp) g" "tg_top g \<le> target_levels cp"
  shows "\<exists>step. attempt_timed_out cp g s = Ok step \<and> step_ok cp step"
  using exclude_failed_run [OF assms] by (auto simp: attempt_timed_out_def)

lemma await_events_run:
  assumes "contact_ok cp" "0 < n" "n \<le> target_levels cp" "search_ok cp s" "falls_silent (longest_timeout cp) incoming"
  shows "timeout \<le> longest_timeout cp \<Longrightarrow> wf_tuple_gnode (cp_topology cp) g \<Longrightarrow> tg_top g = n \<Longrightarrow> respondant_in_scope cp respondant \<Longrightarrow>
     (\<And>k. list_all (event_ok (cp_topology cp) n) (heard k incoming)) \<Longrightarrow> (respondant = None \<Longrightarrow> \<forall>k. answered_after (heard k incoming)) \<Longrightarrow>
     \<exists>step. await_events cp timeout g respondant s incoming = Some (Ok step) \<and> step_ok cp step"
  using assms(5)
proof (induction arbitrary: timeout g respondant)
  case silent
  then show ?case using attempt_timed_out_run [OF assms(1,4)] assms(3) by (simp add: await_events.simps [of cp timeout g respondant s Silent])
next
  case (late d e later)
  then have "timeout < d" by simp
  then show ?case using attempt_timed_out_run [OF assms(1,4)] assms(3) late.prems by (simp add: await_events.simps [of cp timeout g respondant s "Arrives d e later"])
next
  case (told later d e)
  have heard: "list_all (event_ok (cp_topology cp) n) (heard k later)" "event_ok (cp_topology cp) n e" for k
    using told.prems(5) [of "Suc k"] by simp_all
  have first: "answered_after (e # heard k later)" if "respondant = None" for k
    using spec [OF told.prems(6) [OF that], of "Suc k"] by simp
  have "\<not> is_answer e" if "respondant = None" using answered_after_Cons(1) [OF first [OF that]] .
  then obtain l where l: "on_event cp timeout g respondant s e = Ok l" "listening_ok cp n timeout respondant l"
      "\<And>t' g' r'. l = Listen t' g' r' \<Longrightarrow> r' = None \<Longrightarrow> \<forall>m. e \<noteq> RespondantNode m"
    using on_event_run [OF assms(1-4) told.prems(2,3) heard(2) told.prems(4)] by blast
  show ?case
  proof (cases "timeout < d")
    case True
    then show ?thesis using attempt_timed_out_run [OF assms(1,4) told.prems(2)] assms(3) told.prems(3)
      by (simp add: await_events.simps [of cp timeout g respondant s "Arrives d e later"])
  next
    case False
    show ?thesis
    proof (cases l)
      case (Leave step)
      then show ?thesis using False l(1,2) by (simp add: await_events.simps [of cp timeout g respondant s "Arrives d e later"])
    next
      case (Listen t' g' r')
      have next_ok: "wf_tuple_gnode (cp_topology cp) g'" "tg_top g' = n" "respondant_in_scope cp r'" "t' \<le> longest_timeout cp"
        and kept: "r' = None \<Longrightarrow> respondant = None"
        using l(2) Listen told.prems(1) by (auto simp: longest_timeout_def)
      have "answered_after (heard k later)" if "r' = None" for k
        using answered_after_Cons(2) [OF first [OF kept [OF that]]] l(3) [OF Listen that] by blast
      then have "\<exists>step. await_events cp t' g' r' s later = Some (Ok step) \<and> step_ok cp step"
        using told.IH [OF next_ok(4,1,2,3) heard(1)] by blast
      then show ?thesis using False l(1) Listen by (simp add: await_events.simps [of cp timeout g respondant s "Arrives d e later"])
    qed
  qed
qed

text \<open>Whom a round elects.\<close>

lemma elect_run:
  assumes "contact_ok cp"
  shows "\<exists>r. approximate (cp_topology cp) (cp_my_pos cp) (cp_x_macron cp) excl ex = Ok r \<and>
     (\<forall>x. r = Some x \<longrightarrow> x \<notin> set excl \<and>
        (x = HCoord 0 (cp_my_pos cp ! 0) \<or> coord_in (cp_topology cp) (target_levels cp) x \<and> hc_pos x \<noteq> cp_my_pos cp ! hc_level x))"
proof (cases "target_levels cp = 0")
  case True
  have "cp_my_pos cp \<noteq> []" using assms my_pos_ne by (auto simp: contact_ok_def)
  then show ?thesis using True by (cases "cp_x_macron cp") (auto simp: approximate_def target_levels_def Let_def)
next
  case False
  then obtain x where x: "cp_x_macron cp = Some x" "target_levels cp = tn_top x" "wf_tuple_node (cp_topology cp) x"
    using assms by (auto simp: target_levels_def contact_ok_def split: option.splits)
  obtain r where r: "approximate (cp_topology cp) (cp_my_pos cp) (Some x) excl ex = Ok r"
    "case r of None \<Rightarrow> candidates (cp_topology cp) (cp_my_pos cp) (tn_top x) excl ex = {}
      | Some h \<Rightarrow> h \<in> candidates (cp_topology cp) (cp_my_pos cp) (tn_top x) excl ex \<and>
          (\<forall>h' \<in> candidates (cp_topology cp) (cp_my_pos cp) (tn_top x) excl ex. h' \<noteq> h \<longrightarrow>
             coord_dist (cp_topology cp) (cp_my_pos cp) x h < coord_dist (cp_topology cp) (cp_my_pos cp) x h')"
    using approximate_closest [of "cp_topology cp" "cp_my_pos cp" x excl ex] assms False x by (auto simp: contact_ok_def)
  have "h \<in> candidates (cp_topology cp) (cp_my_pos cp) (tn_top x) excl ex" if "r = Some h" for h
    using r(2) that by (simp only: option.case)
  then have "h \<notin> set excl \<and> (h = HCoord 0 (cp_my_pos cp ! 0) \<or> coord_in (cp_topology cp) (tn_top x) h \<and> hc_pos h \<noteq> cp_my_pos cp ! hc_level h)"
    if "r = Some h" for h
    using that by (auto simp: candidates_def)
  with r(1) show ?thesis by (simp add: x)
qed

lemma my_coord_in: "wf_my_pos t my \<Longrightarrow> n \<le> length my \<Longrightarrow> 0 < n \<Longrightarrow> coord_in t n (HCoord 0 (my ! 0))"
  by (cases "gsizes t") (auto simp: coord_in_def wf_my_pos_def in_ranges_def)

lemma contact_forwarder_run:
  assumes "contact_ok cp" "search_ok cp s" "coord_in (cp_topology cp) (target_levels cp) x"
  shows "\<exists>mf. contact_forwarder cp at' i x s = Ok mf \<and> routable (cp_topology cp) mf \<and> mf_lvl mf = hc_level x \<and>
     tn_top (mf_n mf) = Suc (hc_level x)"
proof -
  let ?t = "cp_topology cp" let ?my = "cp_my_pos cp" let ?l = "hc_level x"
  have my: "wf_my_pos ?t ?my" using assms(1) by (simp add: contact_ok_def)
  have l: "?l < target_levels cp" "target_levels cp \<le> length ?my" "hc_pos x < gsizes ?t ! ?l"
    using assms(3) target_levels_le [OF assms(1)] by (auto simp: coord_in_def)
  obtain n where n: "make_tuple_node ?t ?my (HCoord 0 (?my ! 0)) (?l + 1) = Ok n" "wf_tuple_node ?t n"
    "tn_pos n = replicate 0 0 @ (?my ! 0) # drop (Suc 0) (take (?l + 1) ?my)"
    using make_tuple_node_run [OF my my_coord_in [OF my, of "?l + 1"]] l by auto
  have top: "tn_top n = Suc ?l" using n(3) l by (simp add: tn_top_def)
  have "?l = 0 \<or> (\<exists>xm. cp_x_macron cp = Some xm \<and> wf_tuple_node ?t xm \<and> ?l \<le> tn_top xm)"
    using assms(1) l(1) by (auto simp: contact_ok_def target_levels_def split: option.splits)
  then obtain p where p: "prefix_target ?t (cp_x_macron cp) ?l = Ok p"
    "if ?l = 0 then p = None else \<exists>n. p = Some n \<and> wf_tuple_node ?t n \<and> tn_top n = ?l"
    using prefix_target_run by blast
  obtain e where e: "deeper_excludes ?t ?my x (se_exclude_tuple_list s) = Ok e" "list_all (\<lambda>g. wf_tuple_gnode ?t g \<and> tg_top g = ?l) e"
    using deeper_excludes_run [OF my] assms(2) by (auto simp: search_ok_def)
  obtain v where v: "visible_tuples ?my (?l + 1) (se_non_participant_tuple_list s) = Ok v" "list_all (wf_tuple_gnode ?t) v"
    using visible_tuples_run [OF my] assms(2) by (auto simp: search_ok_def)
  let ?mf = "\<lparr>mf_inside_level = target_levels cp, mf_n = n, mf_x_macron = p, mf_lvl = ?l, mf_pos = hc_pos x,
         mf_p_id = cp_p_id cp, mf_msg_id = i, mf_exclude_tuple_list = e, mf_non_participant_tuple_list = v, mf_auth = at_auth at'\<rparr>"
  have mf: "contact_forwarder cp at' i x s = Ok ?mf" using my_pos_ne [OF my] n(1) p(1) e(1) v(1) by (simp add: contact_forwarder_def)
  have "list_all (wf_tuple_gnode ?t) e" using e(2) by (simp add: list_all_iff)
  moreover have "target_levels cp \<le> topology_levels ?t" using l(2) my by (simp add: wf_my_pos_def topology_levels_def)
  ultimately have "routable ?t ?mf" using n(2) top l(3) p(2) v(2) by (simp add: routable_def)
  with mf show ?thesis using top by auto
qed

lemma contact_remote_run:
  assumes "contact_ok cp" "search_ok cp s" "coord_in (cp_topology cp) (target_levels cp) x"
    "\<And>mf. arrivals_ok cp (tn_top (mf_n mf)) (at_events at' mf)"
  shows "\<exists>sent step. contact_remote cp at' x s = Some (Ok (sent, step)) \<and> step_ok cp step \<and> list_all (routable (cp_topology cp)) sent"
proof (cases "at_msg_id at'")
  case (Some i)
  let ?t = "cp_topology cp" let ?my = "cp_my_pos cp" let ?l = "hc_level x"
  have my: "wf_my_pos ?t ?my" using assms(1) by (simp add: contact_ok_def)
  have l: "?l < target_levels cp" "coord_in ?t (?l + 1) x" using assms(3) by (auto simp: coord_in_def)
  obtain mf where mf: "contact_forwarder cp at' i x s = Ok mf" "routable ?t mf" "tn_top (mf_n mf) = Suc ?l"
    using contact_forwarder_run [OF assms(1,2,3)] by blast
  obtain g where g: "make_tuple_gnode ?t ?my x (?l + 1) = Ok g" "wf_tuple_gnode ?t g" "tg_top g = ?l + 1"
    using make_tuple_gnode_run [OF my l(2)] .
  let ?to = "routing_timeout (cp_config cp) (at_nodes_in_my_group at' (?l + 1))"
  have ev: "falls_silent (longest_timeout cp) (at_events at' mf)" "list_all (event_ok ?t (Suc ?l)) (heard k (at_events at' mf))"
    "answered_after (heard k (at_events at' mf))" for k
    using assms(4) [of mf] mf(3) by (simp_all add: arrivals_ok_def events_ok_def)
  have "\<exists>step. await_events cp ?to g None s (at_events at' mf) = Some (Ok step) \<and> step_ok cp step"
  proof (rule await_events_run [OF assms(1) _ _ assms(2) ev(1) routing_timeout_longest g(2), of "Suc ?l"])
    show "list_all (event_ok ?t (Suc ?l)) (heard k (at_events at' mf))" for k by (rule ev(2))
  qed (use g(3) l(1) ev(3) in \<open>simp_all add: respondant_in_scope_def\<close>)
  then obtain step where "await_events cp ?to g None s (at_events at' mf) = Some (Ok step)" "step_ok cp step" by blast
  then show ?thesis using Some mf g assms(2) by (simp add: contact_remote_def)
qed (simp add: contact_remote_def)

lemma serve_locally_run:
  assumes "contact_ok cp" "search_ok cp s"
  shows "\<exists>step. serve_locally cp at' s = Ok step \<and> step_ok cp step"
proof -
  let ?t = "cp_topology cp" let ?my = "cp_my_pos cp"
  have my: "wf_my_pos ?t ?my" using assms(1) by (simp add: contact_ok_def)
  note ne = my_pos_ne [OF my]
  obtain gs where gs: "\<And>lvl. all_gnodes_up_to_lvl ?t ?my lvl = Ok (gs lvl)" using all_gnodes_ok [OF my] by metis
  obtain n where n: "(if target_levels cp = 0 then expect_ok (tuple_node_new ?t [])
      else make_tuple_node ?t ?my (HCoord 0 (?my ! 0)) (target_levels cp)) = Ok n" "wf_tuple_node ?t n" "tn_top n = target_levels cp"
  proof (cases "target_levels cp = 0")
    case True
    have "tuple_node_new ?t [] = Ok \<lparr>tn_topology = ?t, tn_pos = []\<rparr>" by (simp add: tuple_node_new_Ok)
    then show thesis using that [of "\<lparr>tn_topology = ?t, tn_pos = []\<rparr>"] True by (simp add: wf_tuple_node_def tn_top_def)
  next
    case False
    then have co: "coord_in ?t (target_levels cp) (HCoord 0 (?my ! 0))" using my_coord_in [OF my] target_levels_le [OF assms(1)] by simp
    obtain n where "make_tuple_node ?t ?my (HCoord 0 (?my ! 0)) (target_levels cp) = Ok n" "wf_tuple_node ?t n"
      "tn_pos n = replicate 0 0 @ (?my ! 0) # drop (Suc 0) (take (target_levels cp) ?my)"
      using make_tuple_node_run [OF my co] by auto
    then show thesis using that [of n] False target_levels_le [OF assms(1)] by (simp add: tn_top_def)
  qed
  show ?thesis
  proof (cases "at_exec_local at'")
    case None
    then show ?thesis using ne assms(2) by (simp add: serve_locally_def search_ok_def)
  next
    case (Some r)
    show ?thesis
    proof (cases r)
      case (Inl e)
      then show ?thesis using Some ne gs assms(2) by (cases e) (simp_all add: serve_locally_def search_ok_def)
    next
      case (Inr v)
      have "serve_locally cp at' s = Ok (Finished (Found v n))" using Some Inr ne n(1) by (simp add: serve_locally_def del: expect_ok.simps)
      then show ?thesis using n by simp
    qed
  qed
qed

lemma contact_attempt_run:
  assumes "contact_ok cp" "search_ok cp s" "\<And>mf. arrivals_ok cp (tn_top (mf_n mf)) (at_events at' mf)"
  shows "\<exists>sent step. contact_attempt cp at' s = Some (Ok (sent, step)) \<and> step_ok cp step \<and> list_all (routable (cp_topology cp)) sent"
proof -
  have ne: "cp_my_pos cp \<noteq> []" using assms(1) my_pos_ne by (auto simp: contact_ok_def)
  obtain r where r: "approximate (cp_topology cp) (cp_my_pos cp) (cp_x_macron cp) (se_exclude_gnode_list s) (at_exists at') = Ok r"
    "\<And>x. r = Some x \<Longrightarrow> x = HCoord 0 (cp_my_pos cp ! 0) \<or> coord_in (cp_topology cp) (target_levels cp) x"
    using elect_run [OF assms(1), of "se_exclude_gnode_list s" "at_exists at'"] by blast
  show ?thesis
  proof (cases r)
    case None
    then show ?thesis using r(1) by (simp add: contact_attempt_def)
  next
    case (Some x)
    show ?thesis
    proof (cases "hc_level x = 0 \<and> hc_pos x = cp_my_pos cp ! 0")
      case True
      obtain step where "serve_locally cp at' s = Ok step" "step_ok cp step" using serve_locally_run [OF assms(1,2)] by blast
      then show ?thesis using True Some r(1) ne by (simp add: contact_attempt_def)
    next
      case False
      then have "coord_in (cp_topology cp) (target_levels cp) x" using r(2) [OF Some] by auto
      moreover have "contact_attempt cp at' s = contact_remote cp at' x s"
        using r(1) Some ne False by (cases "hc_level x = 0") (simp_all add: contact_attempt_def)
      ultimately show ?thesis using contact_remote_run [OF assms(1,2) _ assms(3), of x] by simp
    qed
  qed
qed

lemma begin_search_run:
  assumes "contact_ok cp"
  shows "\<exists>s. begin_search cp ns = Ok s \<and> search_ok cp s"
proof -
  have my: "wf_my_pos (cp_topology cp) (cp_my_pos cp)" and seed: "list_all (wf_tuple_gnode (cp_topology cp)) (cp_seed_exclude_tuple_list cp)"
    using assms by (simp_all add: contact_ok_def)
  obtain mine where mine: "(case cp_exclude_my_gnode cp of None \<Rightarrow> Ok [] | Some lvl \<Rightarrow> all_gnodes_up_to_lvl (cp_topology cp) (cp_my_pos cp) lvl) = Ok mine"
    using all_gnodes_ok [OF my] by (cases "cp_exclude_my_gnode cp") auto
  have "\<exists>excl'. fold_res (\<lambda>excl g. exclude_visible (cp_my_pos cp) g excl) excl gs = Ok excl'"
    if "list_all (wf_tuple_gnode (cp_topology cp)) gs" for gs excl
    using that
  proof (induction gs arbitrary: excl)
    case (Cons g gs)
    obtain e where "exclude_visible (cp_my_pos cp) g excl = Ok e" using exclude_visible_run [OF my, of g excl] Cons.prems by auto
    then show ?case using Cons.IH [of e] Cons.prems by simp
  qed simp
  from this [OF seed, of "ns @ mine"] obtain excl where
    "fold_res (\<lambda>excl g. exclude_visible (cp_my_pos cp) g excl) (ns @ mine) (cp_seed_exclude_tuple_list cp) = Ok excl" by blast
  then show ?thesis using mine seed by (simp add: begin_search_def search_ok_def)
qed

text \<open>The two loops end after at most \<open>left\<close> rounds, each of which sends at most one message.\<close>

definition contact_result_ok :: "contact_params \<Rightarrow> contact_outcome \<Rightarrow> bool" where
  "contact_result_ok cp out \<longleftrightarrow> step_ok cp (Finished out)"

lemma task_bind_eq_Ok: "task_bind m f = Some (Ok y) \<longleftrightarrow> (\<exists>x. m = Some (Ok x) \<and> f x = Some (Ok y))"
  by (cases "(m, f)" rule: task_bind.cases) auto

lemma contact_remote_one: "contact_remote cp at' x s = Some (Ok (sent, step)) \<Longrightarrow> length sent \<le> Suc 0"
  by (auto simp: contact_remote_def task_bind_eq_Ok split: option.splits if_splits)

lemma contact_attempt_one: "contact_attempt cp at' s = Some (Ok (sent, step)) \<Longrightarrow> length sent \<le> Suc 0"
  by (auto simp: contact_attempt_def task_bind_eq_Ok split: option.splits if_splits dest: contact_remote_one)

lemma start_if_run:
  assumes "contact_ok cp" "\<And>s. st = Some s \<Longrightarrow> search_ok cp s"
  shows "\<exists>r. start_if cp at' st = Ok r \<and> (\<forall>s. r = Inr s \<longrightarrow> search_ok cp s)"
proof (cases st)
  case None
  show ?thesis
  proof (cases "at_non_participants at'")
    case (Some ns)
    obtain s where "begin_search cp ns = Ok s" "search_ok cp s" using begin_search_run [OF assms(1)] by blast
    then show ?thesis using None Some by (simp add: start_if_def)
  qed (simp add: start_if_def None)
next
  case (Some s)
  then show ?thesis using assms(2) by (simp add: start_if_def)
qed

lemma contact_rounds_run:
  assumes "contact_ok cp" "\<And>k mf. arrivals_ok cp (tn_top (mf_n mf)) (at_events (w k) mf)"
    "\<And>s. st = Some s \<Longrightarrow> search_ok cp s"
  shows "\<exists>sent out. contact_rounds cp w hops st left = Some (Ok (sent, out)) \<and> contact_result_ok cp out \<and>
     list_all (routable (cp_topology cp)) sent \<and> length sent \<le> left"
  using assms(3)
proof (induction left arbitrary: hops st)
  case 0
  obtain r where "start_if cp (w (hops + 1)) st = Ok r" using start_if_run [OF assms(1) 0] by blast
  then show ?case by (cases r) (simp_all add: contact_result_ok_def)
next
  case (Suc left)
  obtain r where r: "start_if cp (w (hops + 1)) st = Ok r" "\<forall>s. r = Inr s \<longrightarrow> search_ok cp s"
    using start_if_run [OF assms(1) Suc.prems] by blast
  show ?case
  proof (cases r)
    case (Inl e)
    then show ?thesis using r(1) by (simp add: contact_result_ok_def)
  next
    case (Inr s)
    obtain sent step where a: "contact_attempt cp (w (hops + 1)) s = Some (Ok (sent, step))" "step_ok cp step" "list_all (routable (cp_topology cp)) sent"
      using contact_attempt_run [OF assms(1) _ assms(2)] r(2) Inr by blast
    have one: "length sent \<le> Suc 0" using contact_attempt_one [OF a(1)] .
    have more: "\<exists>sent' out. contact_rounds cp w (hops + 1) st' left = Some (Ok (sent', out)) \<and> contact_result_ok cp out \<and>
        list_all (routable (cp_topology cp)) sent' \<and> length sent' \<le> left" if "\<And>s. st' = Some s \<Longrightarrow> search_ok cp s" for st'
      using Suc.IH that by blast
    show ?thesis
    proof (cases step)
      case (Again s')
      from more [of "Some s'"] show ?thesis using Again a one r(1) Inr by auto
    next
      case Restart
      from more [of None] show ?thesis using Restart a one r(1) Inr by auto
    next
      case (Finished out)
      then show ?thesis using a one r(1) Inr by (simp add: contact_result_ok_def)
    qed
  qed
qed

subsection \<open>\<open>forward_msg\<close>\<close>

lemma dist_fits_mono:
  assumes "wf_topology t" "dist_fits t m" "n \<le> m"
  shows "dist_fits t n"
proof -
  have "take n (take m (gsizes t)) = take n (gsizes t)" using assms(3) by (simp add: min_absorb1)
  then have "prod_list (map unat (take n (gsizes t))) * prod_list (map unat (drop n (take m (gsizes t)))) =
      prod_list (map unat (take m (gsizes t)))"
    by (metis append_take_drop_id map_append prod_list.append)
  moreover have "prod_list (map unat (drop n (take m (gsizes t)))) \<noteq> 0"
  proof
    assume "prod_list (map unat (drop n (take m (gsizes t)))) = 0"
    then have "0 \<in> set (map unat (drop n (take m (gsizes t))))" by (simp only: prod_list_zero_iff)
    then obtain g where "g \<in> set (drop n (take m (gsizes t)))" "unat g = 0" by auto
    then have "0 \<in> set (gsizes t)" by (auto simp: unat_eq_0 dest: in_set_dropD in_set_takeD)
    then show False using assms(1) by (simp add: wf_topology_def)
  qed
  moreover have "a \<le> a * b" if "b \<noteq> 0" for a b :: nat using that by (cases b) simp_all
  ultimately have "prod_list (map unat (take n (gsizes t))) \<le> prod_list (map unat (take m (gsizes t)))" by metis
  then show ?thesis using assms(2) unfolding dist_fits_def by (rule order_trans)
qed

text \<open>What a node on the way tells the originator names tuples of the originator's scope.\<close>

fun told_ok :: "topology \<Rightarrow> usize \<Rightarrow> i32 \<Rightarrow> to_originator \<Rightarrow> bool" where
  "told_ok t n i (TellMissingOptionalMaps j) \<longleftrightarrow> j = i"
| "told_ok t n i (TellNonParticipant j g) \<longleftrightarrow> j = i \<and> wf_tuple_gnode t g \<and> tg_top g = n"
| "told_ok t n i (TellFailure j g) \<longleftrightarrow> j = i \<and> wf_tuple_gnode t g \<and> tg_top g = n"
| "told_ok t n i (TellNextDestination j g) \<longleftrightarrow> j = i \<and> wf_tuple_gnode t g \<and> tg_top g = n"
| "told_ok t n i (AskRequest j m) \<longleftrightarrow> j = i \<and> wf_tuple_node t m \<and> tn_top m = n"
| "told_ok t n i (TellResponse j r m) \<longleftrightarrow> j = i \<and> wf_tuple_node t m \<and> tn_top m = n"
| "told_ok t n i (TellRedoFromStart j m) \<longleftrightarrow> j = i \<and> wf_tuple_node t m \<and> tn_top m = n"
| "told_ok t n i (TellRefuse j f m) \<longleftrightarrow> j = i \<and> wf_tuple_node t m \<and> tn_top m = n"

text \<open>What is passed on: the message as it is, still on the way to its target, or a message for a part of the
  g-node this node is in, on behalf of the same originator.\<close>

definition passed_ok :: "hop_env \<Rightarrow> forwarder \<Rightarrow> hcoord \<times> forwarder \<Rightarrow> bool" where
  "passed_ok env mf p \<longleftrightarrow> (case p of (x, mf') \<Rightarrow>
     routable (he_topology env) mf' \<and> x = HCoord (mf_lvl mf') (mf_pos mf') \<and> hc_pos x \<noteq> he_my_pos env ! hc_level x \<and>
     mf_n mf' = mf_n mf \<and> mf_msg_id mf' = mf_msg_id mf \<and> mf_p_id mf' = mf_p_id mf \<and>
     (if he_my_pos env ! mf_lvl mf = mf_pos mf then mf_lvl mf' < mf_lvl mf else mf' = mf))"

definition forwarded_ok :: "hop_env \<Rightarrow> forwarder \<Rightarrow> forwarded \<Rightarrow> bool" where
  "forwarded_ok env mf f \<longleftrightarrow> pred_option (passed_ok env mf) (fw_passed f) \<and>
     list_all (told_ok (he_topology env) (tn_top (mf_n mf)) (mf_msg_id mf)) (fw_told f)"

definition hop_ok :: "hop_env \<Rightarrow> forwarder \<Rightarrow> bool" where
  "hop_ok env mf \<longleftrightarrow> wf_my_pos (he_topology env) (he_my_pos env) \<and> dist_fits (he_topology env) (mf_lvl mf) \<and> routable (he_topology env) mf"

lemma hop_bounds:
  assumes "hop_ok env mf"
  shows "mf_lvl mf < tn_top (mf_n mf)" "tn_top (mf_n mf) \<le> length (he_my_pos env)" "length (he_my_pos env) = length (gsizes (he_topology env))"
    "he_my_pos env \<noteq> []"
  using assms my_pos_ne by (auto simp: hop_ok_def routable_def wf_my_pos_def wf_tuple_node_def in_ranges_def tn_top_def)

lemma tell_if_dialed_run:
  assumes "hop_ok env mf" "coord_in (he_topology env) (tn_top (mf_n mf)) h"
    "\<And>g. wf_tuple_gnode (he_topology env) g \<Longrightarrow> tg_top g = tn_top (mf_n mf) \<Longrightarrow> told_ok (he_topology env) (tn_top (mf_n mf)) (mf_msg_id mf) (msg (mf_msg_id mf) g)"
  shows "\<exists>ms. tell_if_dialed env mf msg h = Ok ms \<and> list_all (told_ok (he_topology env) (tn_top (mf_n mf)) (mf_msg_id mf)) ms"
proof (cases "he_dial env")
  case True
  have my: "wf_my_pos (he_topology env) (he_my_pos env)" using assms(1) by (simp add: hop_ok_def)
  obtain g where "make_tuple_gnode (he_topology env) (he_my_pos env) h (tn_top (mf_n mf)) = Ok g" "wf_tuple_gnode (he_topology env) g"
    "tg_top g = tn_top (mf_n mf)" using make_tuple_gnode_run [OF my assms(2)] .
  then show ?thesis using True assms(3) [of g] by (simp add: tell_if_dialed_def)
qed (simp add: tell_if_dialed_def)

lemma target_coord_in: "hop_ok env mf \<Longrightarrow> coord_in (he_topology env) (tn_top (mf_n mf)) (HCoord (mf_lvl mf) (mf_pos mf))"
  using hop_bounds [of env mf] by (simp add: coord_in_def) (simp add: hop_ok_def routable_def)

lemma serve_request_run:
  assumes "hop_ok env mf"
  shows "\<exists>f. serve_request env mf = Ok f \<and> forwarded_ok env mf f"
proof (cases "he_dial env")
  case True
  let ?t = "he_topology env" let ?my = "he_my_pos env" let ?n = "tn_top (mf_n mf)"
  note b = hop_bounds [OF assms]
  have my: "wf_my_pos ?t ?my" using assms by (simp add: hop_ok_def)
  have co: "coord_in ?t ?n (HCoord 0 (?my ! 0))" using my_coord_in [OF my b(2)] b(1) by simp
  obtain me where me: "make_tuple_node ?t ?my (HCoord 0 (?my ! 0)) ?n = Ok me" "wf_tuple_node ?t me"
    "tn_pos me = replicate 0 0 @ (?my ! 0) # drop (Suc 0) (take ?n ?my)" using make_tuple_node_run [OF my co] by auto
  have "tn_top me = ?n" using me(3) b(1,2) by (simp add: tn_top_def)
  with me True b(4) show ?thesis
    by (auto simp: serve_request_def Let_def forwarded_ok_def told_def split: option.splits sum.splits exec_error.splits)
qed (simp add: serve_request_def forwarded_ok_def told_def)

lemma hop_elect_run:
  assumes "hop_ok env mf"
  shows "\<exists>r. approximate (he_topology env) (he_my_pos env) (mf_x_macron mf) excl ex = Ok r \<and>
     (\<forall>x. r = Some x \<longrightarrow> x \<notin> set excl \<and> (x = HCoord 0 (he_my_pos env ! 0) \<or>
        coord_in (he_topology env) (mf_lvl mf) x \<and> hc_pos x \<noteq> he_my_pos env ! hc_level x))"
proof -
  let ?cp = "\<lparr>cp_config = he_config env, cp_topology = he_topology env, cp_my_pos = he_my_pos env, cp_p_id = mf_p_id mf,
    cp_x_macron = mf_x_macron mf, cp_request = undefined, cp_timeout_exec = 0, cp_exclude_my_gnode = None, cp_seed_exclude_tuple_list = []\<rparr>"
  have l: "target_levels ?cp = mf_lvl mf" using assms by (auto simp: target_levels_def hop_ok_def routable_def split: if_splits)
  have "contact_ok ?cp" using assms l by (auto simp: contact_ok_def hop_ok_def routable_def split: if_splits)
  from elect_run [OF this, of excl ex] show ?thesis by (simp add: l)
qed

lemma next_forwarder_run:
  assumes "hop_ok env mf" "coord_in (he_topology env) (mf_lvl mf) x"
  shows "\<exists>mf'. next_forwarder env mf x = Ok mf' \<and> routable (he_topology env) mf' \<and> mf_lvl mf' = hc_level x \<and> mf_pos mf' = hc_pos x \<and>
     mf_n mf' = mf_n mf \<and> mf_msg_id mf' = mf_msg_id mf \<and> mf_p_id mf' = mf_p_id mf"
proof -
  let ?t = "he_topology env" let ?my = "he_my_pos env" let ?l = "hc_level x"
  have my: "wf_my_pos ?t ?my" and r: "routable ?t mf" using assms(1) by (simp_all add: hop_ok_def)
  have l: "?l < mf_lvl mf" "hc_pos x < gsizes ?t ! ?l" using assms(2) by (auto simp: coord_in_def)
  have "?l = 0 \<or> (\<exists>xm. mf_x_macron mf = Some xm \<and> wf_tuple_node ?t xm \<and> ?l \<le> tn_top xm)"
    using r l(1) by (auto simp: routable_def split: if_splits)
  then obtain p where p: "prefix_target ?t (mf_x_macron mf) ?l = Ok p"
    "if ?l = 0 then p = None else \<exists>n. p = Some n \<and> wf_tuple_node ?t n \<and> tn_top n = ?l"
    using prefix_target_run by blast
  obtain e where e: "deeper_excludes ?t ?my x (mf_exclude_tuple_list mf) = Ok e" "list_all (\<lambda>g. wf_tuple_gnode ?t g \<and> tg_top g = ?l) e"
    using deeper_excludes_run [OF my] r by (auto simp: routable_def)
  obtain v where v: "visible_tuples ?my (?l + 1) (mf_non_participant_tuple_list mf) = Ok v" "list_all (wf_tuple_gnode ?t) v"
    using visible_tuples_run [OF my] r by (auto simp: routable_def)
  have "list_all (wf_tuple_gnode ?t) e" using e(2) by (simp add: list_all_iff)
  then show ?thesis using p e(1) v r l by (simp add: next_forwarder_def routable_def)
qed

text \<open>One round of the dispatch loop ends it, unless no gateway takes the message.\<close>

definition round_ends :: "hop_env \<Rightarrow> nat \<Rightarrow> bool" where
  "round_ends env i \<longleftrightarrow> (\<forall>x. fst (try_forward (he_config env) (he_relay env i) x))"

lemma forward_attempt_run:
  assumes "hop_ok env mf" "he_my_pos env ! mf_lvl mf = mf_pos mf"
  shows "\<exists>r. forward_attempt env mf excl i = Ok r \<and> pred_option (forwarded_ok env mf) r \<and> (r = None \<longrightarrow> \<not> round_ends env i)"
proof -
  note ne = hop_bounds(4) [OF assms(1)]
  obtain r where r: "approximate (he_topology env) (he_my_pos env) (mf_x_macron mf) excl (he_exists env i) = Ok r"
    "\<And>x. r = Some x \<Longrightarrow> x = HCoord 0 (he_my_pos env ! 0) \<or>
        coord_in (he_topology env) (mf_lvl mf) x \<and> hc_pos x \<noteq> he_my_pos env ! hc_level x"
    using hop_elect_run [OF assms(1), of excl "he_exists env i"] by blast
  show ?thesis
  proof (cases r)
    case None
    obtain ms where "tell_if_dialed env mf TellFailure (HCoord (mf_lvl mf) (mf_pos mf)) = Ok ms"
      "list_all (told_ok (he_topology env) (tn_top (mf_n mf)) (mf_msg_id mf)) ms"
      using tell_if_dialed_run [OF assms(1) target_coord_in [OF assms(1)], of TellFailure] by auto
    then show ?thesis using r(1) None by (simp add: forward_attempt_def forwarded_ok_def told_def)
  next
    case (Some x)
    show ?thesis
    proof (cases "hc_level x = 0 \<and> hc_pos x = he_my_pos env ! 0")
      case True
      obtain f where "serve_request env mf = Ok f" "forwarded_ok env mf f" using serve_request_run [OF assms(1)] by blast
      then show ?thesis using r(1) Some True ne by (simp add: forward_attempt_def)
    next
      case False
      then have x: "coord_in (he_topology env) (mf_lvl mf) x" "hc_pos x \<noteq> he_my_pos env ! hc_level x" using r(2) [OF Some] by auto
      have xn: "coord_in (he_topology env) (tn_top (mf_n mf)) x"
        using x(1) hop_bounds [OF assms(1)] by (auto simp: coord_in_def)
      obtain mf' where mf': "next_forwarder env mf x = Ok mf'" "routable (he_topology env) mf'" "mf_lvl mf' = hc_level x"
        "mf_pos mf' = hc_pos x" "mf_n mf' = mf_n mf" "mf_msg_id mf' = mf_msg_id mf" "mf_p_id mf' = mf_p_id mf"
        using next_forwarder_run [OF assms(1) x(1)] by blast
      obtain ms where ms: "tell_if_dialed env mf TellNextDestination x = Ok ms"
        "list_all (told_ok (he_topology env) (tn_top (mf_n mf)) (mf_msg_id mf)) ms"
        using tell_if_dialed_run [OF assms(1) xn, of TellNextDestination] by auto
      have "passed_ok env mf (x, mf')"
        using mf' x assms(2) by (cases x) (simp add: passed_ok_def coord_in_def)
      moreover have "forward_attempt env mf excl i =
          (if fst (try_forward (he_config env) (he_relay env i) x) then Ok (Some \<lparr>fw_passed = Some (x, mf'), fw_told = ms\<rparr>) else Ok None)"
        using r(1) Some False mf'(1) ms(1) ne by (cases "hc_level x = 0") (simp_all add: forward_attempt_def)
      ultimately show ?thesis using ms(2) by (auto simp: forwarded_ok_def round_ends_def)
    qed
  qed
qed

lemma forward_rounds_ends:
  assumes "hop_ok env mf" "he_my_pos env ! mf_lvl mf = mf_pos mf" "round_ends env j" "i \<le> j"
  shows "\<exists>r. forward_rounds env mf excl i = Some r"
  using assms(4)
proof (induction rule: inc_induct)
  case base
  obtain f where "forward_attempt env mf excl j = Ok (Some f)"
    using forward_attempt_run [OF assms(1,2), of excl j] assms(3) by auto
  then show ?case by (subst forward_rounds.simps) simp
next
  case (step n)
  obtain r where "forward_attempt env mf excl n = Ok r" using forward_attempt_run [OF assms(1,2), of excl n] by blast
  then show ?case using step.IH by (subst forward_rounds.simps) (cases r, simp_all)
qed

lemma forward_rounds_safe:
  assumes "forward_rounds env mf excl i = Some r" "hop_ok env mf" "he_my_pos env ! mf_lvl mf = mf_pos mf"
  shows "\<exists>f. r = Ok f \<and> forwarded_ok env mf f"
proof -
  have "hop_ok env mf \<longrightarrow> he_my_pos env ! mf_lvl mf = mf_pos mf \<longrightarrow> (\<exists>f. r = Ok f \<and> forwarded_ok env mf f)"
  proof (rule forward_rounds.raw_induct [OF _ assms(1), where P = "\<lambda>env mf excl i r. hop_ok env mf \<longrightarrow>
      he_my_pos env ! mf_lvl mf = mf_pos mf \<longrightarrow> (\<exists>f. r = Ok f \<and> forwarded_ok env mf f)"], intro impI)
    fix rec env mf excl i r
    assume IH: "\<And>env mf excl i r. rec env mf excl i = Some r \<Longrightarrow>
        hop_ok env mf \<longrightarrow> he_my_pos env ! mf_lvl mf = mf_pos mf \<longrightarrow> (\<exists>f. r = Ok f \<and> forwarded_ok env mf f)"
      and body: "(case forward_attempt env mf excl i of Ok None \<Rightarrow> rec env mf excl (i + 1) | Ok (Some f) \<Rightarrow> Some (Ok f)
        | Err e \<Rightarrow> Some (Err e) | Panic \<Rightarrow> Some Panic) = Some r"
      and ok: "hop_ok env mf" "he_my_pos env ! mf_lvl mf = mf_pos mf"
    obtain o' where o': "forward_attempt env mf excl i = Ok o'" "pred_option (forwarded_ok env mf) o'"
      using forward_attempt_run [OF ok, of excl i] by blast
    show "\<exists>f. r = Ok f \<and> forwarded_ok env mf f"
      using body o' IH ok by (cases o') auto
  qed
  then show ?thesis using assms(2,3) by blast
qed

lemma exclude_here_run:
  assumes "hop_ok env mf" "list_all (wf_tuple_gnode (he_topology env)) gs"
  shows "\<exists>excl'. fold_res (exclude_here env) excl gs = Ok excl'"
  using assms(2)
proof (induction gs arbitrary: excl)
  case (Cons g gs)
  have my: "wf_my_pos (he_topology env) (he_my_pos env)" using assms(1) by (simp add: hop_ok_def)
  obtain rel h where c: "convert_tuple_gnode (he_my_pos env) g = Ok (rel, h)" using convert_meaning [OF my, of g] Cons.prems by auto
  obtain ms where "all_gnodes_up_to_lvl (he_topology env) (he_my_pos env) (hc_level h) = Ok ms" using all_gnodes_ok [OF my] by blast
  then obtain e where "exclude_here env excl g = Ok e" using c by (cases rel) (simp_all add: exclude_here_def)
  then show ?case using Cons.IH [of e] Cons.prems by simp
qed simp

text \<open>What holds of everything one forwarded message leads to, when it leads to anything.\<close>

definition hop_result :: "hop_env \<Rightarrow> forwarder \<Rightarrow> (forwarded, peers_error) res option \<Rightarrow> bool" where
  "hop_result env mf o' \<longleftrightarrow> (case o' of None \<Rightarrow> \<forall>i. \<not> round_ends env i | Some r \<Rightarrow> \<exists>f. r = Ok f \<and> forwarded_ok env mf f)"

lemma forward_here_run:
  assumes "hop_ok env mf" "he_my_pos env ! mf_lvl mf = mf_pos mf"
  shows "hop_result env mf (forward_here env mf)"
proof (cases "he_non_participants env")
  case (Some ns)
  have "list_all (wf_tuple_gnode (he_topology env)) (mf_exclude_tuple_list mf)" using assms(1) by (simp add: hop_ok_def routable_def)
  then obtain excl where excl: "fold_res (exclude_here env) ns (mf_exclude_tuple_list mf) = Ok excl"
    using exclude_here_run [OF assms(1)] by blast
  then have here: "forward_here env mf = forward_rounds env mf excl 0" using Some by (simp add: forward_here_def)
  show ?thesis
  proof (cases "forward_rounds env mf excl 0")
    case None
    have "\<not> round_ends env i" for i using forward_rounds_ends [OF assms, of i 0 excl] None by auto
    then show ?thesis using None here by (simp add: hop_result_def)
  next
    case (Some r)
    then show ?thesis using forward_rounds_safe [OF Some assms] here by (simp add: hop_result_def)
  qed
qed (simp add: forward_here_def hop_result_def forwarded_ok_def told_def)

lemma told_result:
  "list_all (told_ok (he_topology env) (tn_top (mf_n mf)) (mf_msg_id mf)) ms \<Longrightarrow> hop_result env mf (Some (Ok (told ms)))"
  by (simp add: hop_result_def forwarded_ok_def told_def)

lemma forward_msg_run:
  assumes "hop_ok env mf"
  shows "hop_result env mf (forward_msg env mf)"
proof -
  note b = hop_bounds [OF assms]
  have i: "index (he_my_pos env) (mf_lvl mf) = (Ok (he_my_pos env ! mf_lvl mf) :: (u32, peers_error) res)" using b by simp
  let ?target = "HCoord (mf_lvl mf) (mf_pos mf)"
  obtain ms where ms: "tell_if_dialed env mf TellNonParticipant ?target = Ok ms"
      "list_all (told_ok (he_topology env) (tn_top (mf_n mf)) (mf_msg_id mf)) ms"
    using tell_if_dialed_run [OF assms target_coord_in [OF assms], of TellNonParticipant] by auto
  show ?thesis
  proof (cases "he_my_pos env ! mf_lvl mf = mf_pos mf")
    case True
    note here = forward_here_run [OF assms True]
    show ?thesis
    proof (cases "he_optional env")
      case None
      then show ?thesis using True i told_result [of env mf "[]"] by (simp add: forward_msg_def)
    next
      case (Some optional)
      define missing where "missing \<longleftrightarrow> optional \<and> (case mf_x_macron mf of None \<Rightarrow> False | Some xm \<Rightarrow> he_below_level env < tn_top xm)"
      have msg: "forward_msg env mf =
          (if missing then Some (Ok (told (if he_dial env then [TellMissingOptionalMaps (mf_msg_id mf)] else [])))
           else if \<not> optional then forward_here env mf
           else case he_participates env of None \<Rightarrow> Some (Ok (told [])) | Some True \<Rightarrow> forward_here env mf | Some False \<Rightarrow> Some (Ok (told ms)))"
        using True i Some ms(1) by (simp add: forward_msg_def missing_def split: option.split bool.split)
      have "hop_result env mf (Some (Ok (told [])))" "hop_result env mf (Some (Ok (told ms)))"
        "hop_result env mf (Some (Ok (told (if he_dial env then [TellMissingOptionalMaps (mf_msg_id mf)] else []))))"
        using ms(2) by (simp_all add: told_result)
      then show ?thesis unfolding msg using here by (simp split: option.split bool.split)
    qed
  next
    case False
    have "passed_ok env mf (?target, mf)" using assms False by (simp add: passed_ok_def hop_ok_def)
    then show ?thesis using False i by (simp add: forward_msg_def Let_def hop_result_def forwarded_ok_def told_def)
  qed
qed

end
