(* ===== verification/Peers_Delivery.thy ===== *)
theory Peers_Delivery
  imports Peers_RoutingLaws
begin

section \<open>Delivery of requests\<close>

text \<open>
  The properties of \<open>contact_peer\<close> and \<open>forward_msg\<close>, the link between the table of pending searches of the
  actor and the events \<open>contact_peer\<close> awaits, and three behaviours of the code that its comments do not
  announce.
\<close>

subsection \<open>The events of a pending search\<close>

text \<open>Commands as the dispatch of inbound calls lets them through: every tuple they carry is well formed.\<close>

fun told_wf :: "topology \<Rightarrow> peers_cmd \<Rightarrow> bool" where
  "told_wf t (GetRequest _ n) \<longleftrightarrow> wf_tuple_node t n"
| "told_wf t (SetNextDestination _ g) \<longleftrightarrow> wf_tuple_gnode t g"
| "told_wf t (SetFailure _ g) \<longleftrightarrow> wf_tuple_gnode t g"
| "told_wf t (SetNonParticipant _ g) \<longleftrightarrow> wf_tuple_gnode t g"
| "told_wf t _ \<longleftrightarrow> True"

lemma dispatched_told_wf: "cmd_wf t c \<Longrightarrow> told_wf t c"
  by (cases c) (simp_all add: valid_gnode_def)

definition waiting_wf :: "topology \<Rightarrow> waiting_answer \<Rightarrow> bool" where
  "waiting_wf t wa \<longleftrightarrow> list_all (event_ok t (tg_top (wa_min_target wa))) (wa_sent wa)"

definition events_wf :: "topology \<Rightarrow> peers_state \<Rightarrow> bool" where
  "events_wf t s \<longleftrightarrow> (\<forall>i wa. map_of (pz_waiting s) i = Some wa \<longrightarrow> waiting_wf t wa)"

lemma events_wf_insert:
  "hm_wf (pz_waiting s) \<Longrightarrow> events_wf t s \<Longrightarrow> waiting_wf t wa \<Longrightarrow> events_wf t (s\<lparr>pz_waiting := hm_insert i wa (pz_waiting s)\<rparr>)"
  by (auto simp: events_wf_def hm.get_insert)

lemma send_if_wf:
  assumes "hm_wf (pz_waiting s)" "events_wf t s" "\<And>wa. P wa \<Longrightarrow> event_ok t (tg_top (wa_min_target wa)) e"
  shows "events_wf t (send_if i P e s)"
proof (cases "map_of (pz_waiting s) i")
  case (Some wa)
  have "waiting_wf t wa" using assms(2) Some by (simp add: events_wf_def)
  then have "P wa \<Longrightarrow> waiting_wf t (wa\<lparr>wa_sent := wa_sent wa @ [e]\<rparr>)" using assms(3) by (simp add: waiting_wf_def)
  then show ?thesis using Some assms(1,2) events_wf_insert by (simp add: send_if_def send_event_def)
qed (simp add: send_if_def assms(2))

lemma send_event_wf:
  assumes "hm_wf (pz_waiting s)" "events_wf t s" "\<And>n. event_ok t n e"
  shows "events_wf t (send_event i e s)"
  using send_if_wf [of s t "\<lambda>_. True" e i] assms by (cases "map_of (pz_waiting s) i") (simp_all add: send_if_def send_event_def)

lemma get_request_wf:
  assumes "hm_wf (pz_waiting s)" "events_wf t s" "wf_tuple_node t n"
  shows "events_wf t (snd (get_request i n s))"
proof (cases "map_of (pz_waiting s) i")
  case (Some wa)
  have wa: "waiting_wf t wa" using assms(2) Some by (simp add: events_wf_def)
  show ?thesis
  proof (cases "tg_top (wa_min_target wa) = tn_top n")
    case True
    let ?s = "s\<lparr>pz_waiting := hm_insert i (wa\<lparr>wa_respondant_node := Some n\<rparr>) (pz_waiting s)\<rparr>"
    have s: "snd (get_request i n s) = send_if i (\<lambda>wa. tg_top (wa_min_target wa) = tn_top n) (RespondantNode n) ?s"
      using Some True assms(1) by (simp add: get_request_def send_if_def Let_def hm.get_insert)
    have "events_wf t ?s" using wa by (intro events_wf_insert assms) (simp add: waiting_wf_def)
    then show ?thesis unfolding s using assms by (intro send_if_wf) (simp_all add: hm.wf_insert)
  qed (use assms Some in \<open>simp add: get_request_def\<close>)
qed (use assms in \<open>simp add: get_request_def\<close>)

lemma set_next_destination_wf:
  assumes "hm_wf (pz_waiting s)" "events_wf t s" "wf_tuple_gnode t g"
  shows "events_wf t (set_next_destination i g s)"
proof (cases "map_of (pz_waiting s) i")
  case (Some wa)
  have wa: "waiting_wf t wa" using assms(2) Some by (simp add: events_wf_def)
  show ?thesis
  proof (cases "is_deeper_or_equal wa g True")
    case True
    then have top: "tg_top (wa_min_target wa) = tg_top g" by (simp add: is_deeper_or_equal_def split: if_splits)
    let ?s = "s\<lparr>pz_waiting := hm_insert i (wa\<lparr>wa_min_target := g\<rparr>) (pz_waiting s)\<rparr>"
    have s: "set_next_destination i g s = send_if i (\<lambda>wa. tg_top (wa_min_target wa) = tg_top g) (NextDestination g) ?s"
      using Some True assms(1) by (simp add: set_next_destination_def send_if_def hm.get_insert)
    have "events_wf t ?s" using wa top by (intro events_wf_insert assms) (simp add: waiting_wf_def)
    then show ?thesis unfolding s using assms by (intro send_if_wf) (simp_all add: hm.wf_insert)
  qed (use assms Some in \<open>simp add: set_next_destination_def\<close>)
qed (use assms in \<open>simp add: set_next_destination_def\<close>)

lemma handle_cmd_events:
  assumes "table_ok s" "events_wf t s" "told_wf t c"
  shows "events_wf t (snd (handle_cmd hash_one now c s))"
proof (cases "table_cmd c")
  case True
  have wf: "hm_wf (pz_waiting s)" using assms(1) by (simp add: table_ok_def)
  have deeper: "is_deeper_or_equal wa g b \<Longrightarrow> tg_top g = tg_top (wa_min_target wa)" for wa g b
    by (simp add: is_deeper_or_equal_def split: if_splits)
  show ?thesis using True
  proof (cases c)
    case (RegisterWaiting i g r)
    have "waiting_wf t \<lparr>wa_min_target = g, wa_respondant_node = None, wa_request = r, wa_sent = []\<rparr>" by (simp add: waiting_wf_def)
    then show ?thesis using RegisterWaiting wf assms(2) by (simp add: events_wf_insert)
  next
    case (UnregisterWaiting i)
    then show ?thesis using wf assms(2) by (auto simp: events_wf_def hm.get_remove split: if_splits)
  next
    case (GetRequest i n)
    then show ?thesis using get_request_wf [OF wf assms(2)] assms(3) by (simp add: case_prod_beta Let_def)
  qed (use assms wf deeper in \<open>simp_all add: set_next_destination_wf send_if_wf send_event_wf\<close>)
next
  case False
  then show ?thesis using other_cmd_waiting [OF False, of hash_one now s] assms(2) by (simp add: events_wf_def)
qed

text \<open>The events of every pending search are fit for the search that awaits them.\<close>

lemma pending_events_ok:
  assumes "peers_run ok hash_one t my config r s" "\<And>s c. ok s c \<Longrightarrow> told_wf t c" "map_of (pz_waiting s) i = Some wa"
  shows "events_ok t (tg_top (wa_min_target wa)) (wa_sent wa)"
proof -
  have "events_wf t s" using assms(1)
  proof (induction rule: peers_run.induct)
    case start
    then show ?case by (simp add: events_wf_def peers_new_def)
  next
    case (serve s c now r' s')
    then show ?case using handle_cmd_events [OF peers_run_table [OF serve.hyps(1)] serve.IH assms(2) [OF serve.hyps(2)], of hash_one now] by simp
  qed
  then show ?thesis
    using table_okD [OF peers_run_table [OF assms(1)] assms(3)] assms(3)
    by (simp add: events_ok_def events_wf_def waiting_wf_def waiting_ok_def)
qed

subsection \<open>Origin authentication\<close>

text \<open>The sequence numbers of successive requests increase until they reach the last number, also across a restart with a later
  clock, and a request signed by its originator is accepted by every servant that has not seen a later one.\<close>

lemma allocate_sequence_increases:
  assumes "prev \<noteq> - 1"
  shows "prev < allocate_sequence now prev" "now \<le> allocate_sequence now prev"
proof -
  have "unat prev \<noteq> 2 ^ 64 - 1" using assms by (metis unat_u64_max word_unat_eq_iff)
  moreover have "unat prev < 2 ^ 64" using unsigned_less [of prev] by simp
  ultimately have "prev < sat_add64 prev 1" by (simp add: word_less_nat_alt unat_sat_add64)
  then show "prev < allocate_sequence now prev" by (simp add: allocate_sequence_def less_max_iff_disj)
qed (simp add: allocate_sequence_def)

lemma signed_request_accepted:
  assumes "ed25519_ok public_key sign_raw key_ok verify_raw" "observe (public_key k) sequence g = (Ok (), g')"
  shows "fst (verify_origin blake3 key_ok verify_raw c demanded True
     (sign_origin blake3 public_key sign_raw (Some k) sequence client_tuple p_id request) client_tuple p_id request g) = Ok ()"
proof -
  let ?a = "sign_auth blake3 public_key sign_raw k sequence ORIGIN_AUTH_METHOD (origin_signing_payload client_tuple p_id request)"
  have "verify_auth blake3 key_ok verify_raw ?a ORIGIN_AUTH_METHOD (origin_signing_payload client_tuple p_id request) = Ok (public_key k)"
    using assms(1) by (simp add: verify_auth_def sign_auth_def ed25519_ok_def)
  moreover have "auth_sequence ?a = sequence" by (simp add: sign_auth_def)
  ultimately show ?thesis using assms(2) by (simp add: verify_origin_def sign_origin_def)
qed

subsection \<open>Properties\<close>

text \<open>C5: \<open>contact_peer\<close> returns. The receive loop arms its timeout anew for every event, so a call has no bound in
  time of its own (\<open>kept_waiting\<close> below); the hypothesis is that the events of an attempt come to an end: some time
  nothing arrives within the timeouts the call uses. Then, for a target of this node's scope, whatever the gateways, the
  local service and the other nodes do, and as long as the events are among those the table of pending searches lets
  through (\<open>pending_events_ok\<close>), the call comes to an end without a panic, having sent at most as many messages as its
  bound on hops, each of them routable and decoded unchanged by the receiving node; an answer is reported with a tuple of
  the target's scope. That this tuple names the author of the answer is not claimed: see \<open>answer_misattributed\<close>.\<close>

theorem contact_peer_returns:
  assumes "contact_ok cp" "fits32 (topology_levels (cp_topology cp))"
    "\<And>k mf j. events_ok (cp_topology cp) (tn_top (mf_n mf)) (heard j (at_events (w k) mf))"
    "\<And>k mf. falls_silent (longest_timeout cp) (at_events (w k) mf)"
  shows "\<exists>sent out. contact_peer cp w = Some (Ok (sent, out)) \<and> length sent \<le> max_contact_peer_hops (cp_config cp) \<and>
     (\<forall>mf \<in> set sent. routable (cp_topology cp) mf \<and> forwarder_from_wire (cp_topology cp) (forwarder_to_wire mf) = Ok mf) \<and>
     (\<forall>response n. out = Found response n \<longrightarrow> wf_tuple_node (cp_topology cp) n \<and> tn_top n = target_levels cp)"
proof -
  have arrivals: "arrivals_ok cp (tn_top (mf_n mf)) (at_events (w k) mf)" for k mf using assms(3,4) by (simp add: arrivals_ok_def)
  obtain sent out where run: "contact_peer cp w = Some (Ok (sent, out))" "contact_result_ok cp out" "list_all (routable (cp_topology cp)) sent"
    "length sent \<le> max_contact_peer_hops (cp_config cp)"
    using contact_rounds_run [of cp w None 0 "max_contact_peer_hops (cp_config cp)", OF assms(1) arrivals] by (auto simp: contact_peer_def)
  then have "routable (cp_topology cp) mf \<and> forwarder_from_wire (cp_topology cp) (forwarder_to_wire mf) = Ok mf" if "mf \<in> set sent" for mf
    using that forwarder_codec.roundtrip [OF routable_valid [OF _ assms(2)]] by (simp add: list_all_iff)
  moreover have "wf_tuple_node (cp_topology cp) n \<and> tn_top n = target_levels cp" if "out = Found response n" for response n
    using run(2) that by (simp add: contact_result_ok_def)
  ultimately show ?thesis using run by blast
qed

text \<open>C6: a message on its way. A node that receives a routable message, one whose target and originator fit its level
  as in every message \<open>contact_peer\<close> sends, never panics, whatever its environment does (a message that decodes but is
  not routable may make it panic: \<open>crafted_forwarder_panics\<close>); it passes on either the same message, when it is not in the target, or a message of the same
  search for a strictly smaller g-node it is not itself in, again one that the next node decodes unchanged; and
  whatever it tells the originator concerns that search and names tuples of the originator's scope. The node comes to
  an end with it as soon as in some round a gateway accepts what is offered.\<close>

theorem forward_msg_passes_on:
  assumes "wf_my_pos (he_topology env) (he_my_pos env)" "dist_fits (he_topology env) (mf_lvl mf)" "routable (he_topology env) mf"
    "fits32 (topology_levels (he_topology env))"
  shows "((\<exists>i. \<forall>x. fst (try_forward (he_config env) (he_relay env i) x)) \<longrightarrow> forward_msg env mf \<noteq> None) \<and>
   (\<forall>r. forward_msg env mf = Some r \<longrightarrow> (\<exists>f. r = Ok f \<and>
      list_all (told_ok (he_topology env) (tn_top (mf_n mf)) (mf_msg_id mf)) (fw_told f) \<and>
      (\<forall>x mf'. fw_passed f = Some (x, mf') \<longrightarrow>
         routable (he_topology env) mf' \<and> forwarder_from_wire (he_topology env) (forwarder_to_wire mf') = Ok mf' \<and>
         x = HCoord (mf_lvl mf') (mf_pos mf') \<and> mf_pos mf' \<noteq> he_my_pos env ! mf_lvl mf' \<and>
         mf_n mf' = mf_n mf \<and> mf_msg_id mf' = mf_msg_id mf \<and> mf_p_id mf' = mf_p_id mf \<and>
         (if he_my_pos env ! mf_lvl mf = mf_pos mf then mf_lvl mf' < mf_lvl mf else mf' = mf))))"
proof -
  have res: "hop_result env mf (forward_msg env mf)" using assms by (intro forward_msg_run) (simp add: hop_ok_def)
  have passed: "forwarder_from_wire (he_topology env) (forwarder_to_wire mf') = Ok mf'" if "routable (he_topology env) mf'" for mf'
    using forwarder_codec.roundtrip [OF routable_valid [OF that assms(4)]] .
  show ?thesis
  proof (cases "forward_msg env mf")
    case None
    then show ?thesis using res by (simp add: hop_result_def round_ends_def)
  next
    case (Some r)
    then obtain f where f: "r = Ok f" "forwarded_ok env mf f" using res by (auto simp: hop_result_def)
    then show ?thesis using Some passed by (auto simp: forwarded_ok_def passed_ok_def)
  qed
qed

subsection \<open>An answered request\<close>

text \<open>The outside answers an attempt: the nodes on the way tell the targets they pass the request on to, the node that
  serves it fetches it and responds, each in time.\<close>

inductive answered :: "contact_params \<Rightarrow> usize \<Rightarrow> duration \<Rightarrow> typed_value_msg \<Rightarrow> arrivals \<Rightarrow> bool" for cp n timeout v where
  responded: "d \<le> timeout \<Longrightarrow> d' \<le> cp_timeout_exec cp \<Longrightarrow> wf_tuple_node (cp_topology cp) m \<Longrightarrow> tn_top m = n \<Longrightarrow>
     answered cp n timeout v (Arrives d (RespondantNode m) (Arrives d' (Response v) later))"
| passed_on: "d \<le> timeout \<Longrightarrow> answered cp n timeout v later \<Longrightarrow> answered cp n timeout v (Arrives d (NextDestination g) later)"

text \<open>What this node and the network contribute to a first round that succeeds: the g-node elected is this node, whose
  service answers, or another one, to which a gateway takes the message and which answers it.\<close>

definition elected :: "contact_params \<Rightarrow> attempt \<Rightarrow> search \<Rightarrow> hcoord \<Rightarrow> bool" where
  "elected cp at' s x \<longleftrightarrow> (\<exists>ns. at_non_participants at' = Some ns \<and> begin_search cp ns = Ok s) \<and>
     approximate (cp_topology cp) (cp_my_pos cp) (cp_x_macron cp) (se_exclude_gnode_list s) (at_exists at') = Ok (Some x)"

definition answers :: "contact_params \<Rightarrow> attempt \<Rightarrow> typed_value_msg \<Rightarrow> bool" where
  "answers cp at' v \<longleftrightarrow> (\<exists>s x. elected cp at' s x \<and>
     (if x = HCoord 0 (cp_my_pos cp ! 0) then at_exec_local at' = Some (Inr v)
      else at_msg_id at' \<noteq> None \<and> at_registered at' \<and> fst (try_forward (cp_config cp) (at_relay at') x) \<and>
        (\<forall>mf. answered cp (hc_level x + 1) (routing_timeout (cp_config cp) (at_nodes_in_my_group at' (hc_level x + 1))) v (at_events at' mf))))"

lemma await_answered:
  assumes "answered cp n timeout v incoming" "wf_my_pos (cp_topology cp) (cp_my_pos cp)" "n \<le> target_levels cp" "target_levels cp \<le> length (cp_my_pos cp)"
  shows "\<exists>m. await_events cp timeout g None s incoming = Some (Ok (Finished (Found v m)))"
  using assms(1)
proof (induction arbitrary: g)
  case (responded d d' m later)
  obtain m' where "rebase_tuple_node (cp_my_pos cp) m (target_levels cp) = Ok m'"
    using rebase_tuple_node_run [OF assms(2) responded(3) _ assms(4)] responded(4) assms(3) by auto
  then show ?case using responded(1,2) by (simp add: await_events.simps [of cp] on_event_def)
next
  case (passed_on d later g')
  from passed_on.IH [of g'] show ?case using passed_on.hyps(1) by (simp add: await_events.simps [of cp timeout g] on_event_def)
qed

lemma answers_found:
  assumes "contact_ok cp" "0 < max_contact_peer_hops (cp_config cp)" "answers cp (w 1) v"
  shows "\<exists>sent m. contact_peer cp w = Some (Ok (sent, Found v m))"
proof -
  let ?at = "w 1" and ?me = "HCoord 0 (cp_my_pos cp ! 0)"
  obtain ns s x where e: "at_non_participants ?at = Some ns" "begin_search cp ns = Ok s"
      "approximate (cp_topology cp) (cp_my_pos cp) (cp_x_macron cp) (se_exclude_gnode_list s) (at_exists ?at) = Ok (Some x)"
    and v: "if x = ?me then at_exec_local ?at = Some (Inr v)
      else at_msg_id ?at \<noteq> None \<and> at_registered ?at \<and> fst (try_forward (cp_config cp) (at_relay ?at) x) \<and>
        (\<forall>mf. answered cp (hc_level x + 1) (routing_timeout (cp_config cp) (at_nodes_in_my_group ?at (hc_level x + 1))) v (at_events ?at mf))"
    using assms(3) unfolding answers_def elected_def by blast
  have my: "wf_my_pos (cp_topology cp) (cp_my_pos cp)" using assms(1) by (simp add: contact_ok_def)
  have ne: "cp_my_pos cp \<noteq> []" using my_pos_ne [OF my] .
  have s: "search_ok cp s" using begin_search_run [OF assms(1), of ns] e(2) by simp
  have "\<exists>sent m. contact_attempt cp ?at s = Some (Ok (sent, Finished (Found v m)))"
  proof (cases "x = ?me")
    case True
    obtain step where "serve_locally cp ?at s = Ok step" using serve_locally_run [OF assms(1) s] by blast
    then obtain m where "serve_locally cp ?at s = Ok (Finished (Found v m))"
      using v True by (auto simp: serve_locally_def res_bind_eq_Ok)
    then show ?thesis using e(3) True ne by (simp add: contact_attempt_def)
  next
    case False
    have co: "coord_in (cp_topology cp) (target_levels cp) x"
      using elect_run [OF assms(1), of "se_exclude_gnode_list s" "at_exists ?at"] e(3) False by auto
    then have l: "hc_level x + 1 \<le> target_levels cp" "coord_in (cp_topology cp) (hc_level x + 1) x" by (auto simp: coord_in_def)
    obtain i where i: "at_msg_id ?at = Some i" using v False by auto
    obtain mf where mf: "contact_forwarder cp ?at i x s = Ok mf" using contact_forwarder_run [OF assms(1) s co] by blast
    obtain g where g: "make_tuple_gnode (cp_topology cp) (cp_my_pos cp) x (hc_level x + 1) = Ok g" using make_tuple_gnode_run [OF my l(2)] .
    have "answered cp (hc_level x + 1) (routing_timeout (cp_config cp) (at_nodes_in_my_group ?at (hc_level x + 1))) v (at_events ?at mf)"
      using v False by simp
    from await_answered [OF this my l(1) target_levels_le [OF assms(1)], of g s] obtain m where
      "await_events cp (routing_timeout (cp_config cp) (at_nodes_in_my_group ?at (hc_level x + 1))) g None s (at_events ?at mf) =
        Some (Ok (Finished (Found v m)))" by blast
    then have "contact_remote cp ?at x s = Some (Ok ([mf], Finished (Found v m)))" using i mf g v False by (simp add: contact_remote_def)
    moreover have "\<not> (hc_level x = 0 \<and> hc_pos x = cp_my_pos cp ! 0)" using False by (cases x) auto
    ultimately show ?thesis using e(3) ne by (auto simp: contact_attempt_def)
  qed
  then obtain sent m where "contact_attempt cp ?at s = Some (Ok (sent, Finished (Found v m)))" by blast
  moreover obtain h where "max_contact_peer_hops (cp_config cp) = Suc h" using assms(2) by (cases "max_contact_peer_hops (cp_config cp)") auto
  ultimately show ?thesis using e(1,2) by (simp add: contact_peer_def start_if_def)
qed

text \<open>A node that sees no other node is elected for every target.\<close>

lemma lonely_elected:
  assumes "contact_ok cp" "cp_exclude_my_gnode cp = None" "cp_seed_exclude_tuple_list cp = []" "at_non_participants at' = Some []" "at_exists at' = (\<lambda>_. False)"
  shows "\<exists>s. elected cp at' s (HCoord 0 (cp_my_pos cp ! 0))"
proof -
  let ?s = "\<lparr>se_refuse_messages = [], se_exclude_gnode_list = [], se_exclude_tuple_list = [], se_non_participant_tuple_list = []\<rparr>"
  let ?me = "HCoord 0 (cp_my_pos cp ! 0)"
  have my: "wf_my_pos (cp_topology cp) (cp_my_pos cp)" using assms(1) by (simp add: contact_ok_def)
  have ne: "cp_my_pos cp \<noteq> []" using my_pos_ne [OF my] .
  have start: "begin_search cp [] = Ok ?s" using assms(2,3) by (simp add: begin_search_def)
  have elect: "approximate (cp_topology cp) (cp_my_pos cp) (cp_x_macron cp) [] (\<lambda>_. False) = Ok (Some ?me)"
  proof (cases "target_levels cp = 0")
    case True
    then show ?thesis using ne by (cases "cp_x_macron cp") (simp_all add: approximate_def target_levels_def Let_def)
  next
    case False
    then obtain x where x: "cp_x_macron cp = Some x" "target_levels cp = tn_top x" "wf_tuple_node (cp_topology cp) x"
      using assms(1) by (auto simp: target_levels_def contact_ok_def split: option.splits)
    have "?me \<in> candidates (cp_topology cp) (cp_my_pos cp) (tn_top x) [] (\<lambda>_. False)"
      using my_coord_in [OF my target_levels_le [OF assms(1)]] False x(2) by (simp add: candidates_def)
    moreover have "candidates (cp_topology cp) (cp_my_pos cp) (tn_top x) [] (\<lambda>_. False) \<subseteq> {?me}" by (auto simp: candidates_def)
    ultimately have "candidates (cp_topology cp) (cp_my_pos cp) (tn_top x) [] (\<lambda>_. False) = {?me}" by blast
    then show ?thesis
      using approximate_closest [of "cp_topology cp" "cp_my_pos cp" x "[]" "\<lambda>_. False"] assms(1) False x
      by (auto simp: contact_ok_def split: option.splits)
  qed
  show ?thesis using start elect assms(4,5) unfolding elected_def by (intro exI [of _ ?s]) simp
qed

subsection \<open>Behaviours the comments do not announce\<close>

text \<open>A forwarder that the wire check accepts may still panic \<open>forward_msg\<close>: its target tuple reaches above the scope
  of its originator, so the g-node elected next cannot be named to the originator.\<close>

definition crafted_mf :: forwarder where
  "crafted_mf = \<lparr>mf_inside_level = 2, mf_n = example_key [1], mf_x_macron = Some (example_key [2, 1]), mf_lvl = 0, mf_pos = 1,
     mf_p_id = 7, mf_msg_id = 5, mf_exclude_tuple_list = [], mf_non_participant_tuple_list = [], mf_auth = None\<rparr>"

definition example_hop :: "(nat \<Rightarrow> stub_id \<Rightarrow> bool) \<Rightarrow> hop_env" where
  "example_hop accepts = \<lparr>he_config = peers_config_default, he_topology = example_scope, he_my_pos = [1, 0], he_optional = Some False,
     he_below_level = 0, he_dial = True, he_participates = None, he_non_participants = Some [HCoord 0 1],
     he_exists = (\<lambda>_ h. h = HCoord 1 1), he_request = None, he_origin = (\<lambda>_. None), he_exec_local = None,
     he_relay = (\<lambda>_. \<lparr>re_shut_down = (\<lambda>_. False), re_gateway = (\<lambda>_ _ _. Some 0), re_accepts = accepts\<rparr>)\<rparr>"

lemma example_my_pos: "wf_my_pos example_scope [1, 0]"
  by (simp add: wf_my_pos_def in_ranges_Cons) (simp add: example_scope_def)

lemma example_hop_elects:
  "approximate example_scope [1, 0] (Some (example_key [2, 1])) [HCoord 0 1] (\<lambda>h. h = HCoord 1 1) = Ok (Some (HCoord 1 1))"
proof -
  have key: "wf_tuple_node example_scope (example_key [2, 1])" by (rule wf_example_key) simp_all
  have "HCoord 1 1 \<in> candidates example_scope [1, 0] 2 [HCoord 0 1] (\<lambda>h. h = HCoord 1 1)"
    "candidates example_scope [1, 0] 2 [HCoord 0 1] (\<lambda>h. h = HCoord 1 1) \<subseteq> {HCoord 1 1}"
    by (auto simp: candidates_def coord_in_def example_scope_def)
  then show ?thesis
    using approximate_closest [OF example_my_pos key, of "[HCoord 0 1]" "\<lambda>h. h = HCoord 1 1"]
    by (auto simp: numeral_2_eq_2 split: option.splits)
qed

lemma example_hop_next:
  "next_forwarder (example_hop accepts) crafted_mf (HCoord 1 1) =
     Ok (crafted_mf\<lparr>mf_lvl := 1, mf_pos := 1, mf_x_macron := Some (example_key [2])\<rparr>)"
proof -
  have "tuple_node_new example_scope [2] = Ok (example_key [2])"
    by (simp add: tuple_node_new_Ok example_key_def in_ranges_Cons) (simp add: example_scope_def)
  then show ?thesis
    by (simp add: next_forwarder_def example_hop_def crafted_mf_def prefix_target_def slice_def deeper_excludes_def visible_tuples_def
        example_key_def)
qed

lemma example_hop_attempt:
  "forward_attempt (example_hop accepts) crafted_mf [HCoord 0 1] i =
     (if fst (try_forward peers_config_default (he_relay (example_hop accepts) i) (HCoord 1 1))
      then res_bind (tell_if_dialed (example_hop accepts) crafted_mf TellNextDestination (HCoord 1 1)) (\<lambda>ms.
        Ok (Some \<lparr>fw_passed = Some (HCoord 1 1, crafted_mf\<lparr>mf_lvl := 1, mf_pos := 1, mf_x_macron := Some (example_key [2])\<rparr>), fw_told = ms\<rparr>))
      else Ok None)"
proof -
  have "he_topology (example_hop accepts) = example_scope" "he_my_pos (example_hop accepts) = [1, 0]"
    "he_exists (example_hop accepts) i = (\<lambda>h. h = HCoord 1 1)" "he_config (example_hop accepts) = peers_config_default"
    "mf_x_macron crafted_mf = Some (example_key [2, 1])"
    by (simp_all add: example_hop_def crafted_mf_def)
  then show ?thesis using example_hop_elects example_hop_next [of accepts] by (simp add: forward_attempt_def)
qed

lemma example_hop_msg: "forward_msg (example_hop accepts) crafted_mf = forward_rounds (example_hop accepts) crafted_mf [HCoord 0 1] 0"
proof -
  have "he_my_pos (example_hop accepts) = [1, 0]" "he_optional (example_hop accepts) = Some False"
    "he_non_participants (example_hop accepts) = Some [HCoord 0 1]" "mf_lvl crafted_mf = 0" "mf_pos crafted_mf = 1" "mf_exclude_tuple_list crafted_mf = []"
    by (simp_all add: example_hop_def crafted_mf_def)
  then show ?thesis by (simp add: forward_msg_def forward_here_def)
qed

lemma crafted_forwarder_panics:
  "valid_forwarder example_scope crafted_mf \<and> wf_my_pos example_scope (he_my_pos (example_hop (\<lambda>_ _. True))) \<and>
   forward_msg (example_hop (\<lambda>_ _. True)) crafted_mf = Some Panic"
proof -
  let ?env = "example_hop (\<lambda>_ _. True)"
  have "wf_tuple_node example_scope (example_key [1])"
    by (simp add: wf_tuple_node_def example_key_def in_ranges_Cons) (simp add: example_scope_def)
  then have valid: "valid_forwarder example_scope crafted_mf"
    using wf_example_key [of 2 1] by (simp add: valid_forwarder_def crafted_mf_def fits32_def tn_top_def example_key_def example_scope_def)
  have "fst (try_forward peers_config_default (he_relay ?env 0) (HCoord 1 1))"
    by (simp add: try_forward_def example_hop_def peers_config_default_def upt_rec)
  moreover have "tell_if_dialed ?env crafted_mf TellNextDestination (HCoord 1 1) = Panic"
    by (simp add: tell_if_dialed_def make_tuple_gnode_def example_hop_def crafted_mf_def example_key_def tn_top_def)
  ultimately have "forward_attempt ?env crafted_mf [HCoord 0 1] 0 = Panic"
    using example_hop_attempt by simp
  then have "forward_rounds ?env crafted_mf [HCoord 0 1] 0 = Some Panic" by (subst forward_rounds.simps) simp
  then have "forward_msg ?env crafted_mf = Some Panic"
    by (simp only: example_hop_msg)
  then show ?thesis using valid example_my_pos by (simp add: example_hop_def)
qed

text \<open>A message whose next hop no gateway takes is offered forever: the task never ends.\<close>

lemma forward_retries_forever:
  "forward_msg (example_hop (\<lambda>_ _. False)) crafted_mf = None"
proof -
  let ?env = "example_hop (\<lambda>_ _. False)"
  have loop: "\<not> fst (try_forward_loop (he_relay ?env i) x is' failed)" for i x is' failed
    by (induction is' arbitrary: failed) (simp_all add: example_hop_def case_prod_beta)
  have again: "forward_attempt ?env crafted_mf [HCoord 0 1] i = Ok None" for i
    using loop by (simp add: example_hop_attempt try_forward_def)
  have "forward_rounds ?env crafted_mf [HCoord 0 1] i \<noteq> Some r" for i r
  proof
    assume "forward_rounds ?env crafted_mf [HCoord 0 1] i = Some r"
    then have "?env = ?env \<longrightarrow> crafted_mf = crafted_mf \<longrightarrow> [HCoord 0 1] \<noteq> [HCoord 0 1 :: hcoord]"
      by (rule forward_rounds.raw_induct [rotated, where P = "\<lambda>env mf excl i r. env = ?env \<longrightarrow> mf = crafted_mf \<longrightarrow> excl \<noteq> [HCoord 0 1]"])
        (use again in \<open>auto, blast\<close>)
    then show False by simp
  qed
  then have "forward_rounds ?env crafted_mf [HCoord 0 1] 0 = None" by (metis not_None_eq)
  then show ?thesis by (simp only: example_hop_msg)
qed

text \<open>The table of pending searches goes by the last node that fetched the request, \<open>contact_peer\<close> by the first: when two
  nodes fetch it, the answer of the second is reported as an answer of the first.\<close>

lemma answer_misattributed:
  fixes a b :: tuple_node
  assumes "map_of (pz_waiting s) i = Some wa" "wa_sent wa = []" "hm_wf (pz_waiting s)"
    "tn_top a = tg_top (wa_min_target wa)" "tn_top b = tg_top (wa_min_target wa)" "tn_top a = target_levels cp"
    "wf_my_pos t (cp_my_pos cp)" "wf_tuple_node t a" "target_levels cp \<le> length (cp_my_pos cp)"
  defines "s' \<equiv> snd (get_request i b (snd (get_request i a s)))"
  shows "\<exists>wa'. map_of (pz_waiting (snd (handle_cmd hash_one now (SetResponse i v b) s'))) i = Some wa' \<and>
     wa_sent wa' = [RespondantNode a, RespondantNode b, Response v] \<and>
     await_events cp timeout g None se (foldr (Arrives 0) (wa_sent wa') Silent) = Some (Ok (Finished (Found v a)))"
proof -
  have "rebase_tuple_node (cp_my_pos cp) a (target_levels cp) = Ok a"
    using assms(6,8,9) tuple_node_new_Ok [of t "tn_pos a" a]
    by (cases a) (auto simp: rebase_tuple_node_def slice_def wf_tuple_node_def)
  then have "await_events cp timeout g None se (foldr (Arrives 0) [RespondantNode a, RespondantNode b, Response v] Silent) = Some (Ok (Finished (Found v a)))"
    by (simp add: await_events.simps on_event_def)
  moreover have "\<exists>wa'. map_of (pz_waiting (snd (handle_cmd hash_one now (SetResponse i v b) s'))) i = Some wa' \<and>
     wa_sent wa' = [RespondantNode a, RespondantNode b, Response v]"
    using assms(1-5) by (simp add: s'_def get_request_def send_event_def send_if_def respondant_matches_def hm.get_insert hm.wf_insert Let_def)
  ultimately show ?thesis by auto
qed

text \<open>The timeout of an attempt is armed anew for every event: a node that fetches the request again and again keeps the
  attempt waiting for ever, although neither the target nor the respondant of the search changes any more.\<close>

primcorec fetched_again :: "tuple_node \<Rightarrow> arrivals" where
  "fetched_again n = Arrives 0 (RespondantNode n) (fetched_again n)"

lemma fetched_again_waits:
  "await_events cp timeout g (Some m) s (fetched_again n) = Some r \<Longrightarrow> False"
proof -
  assume run: "await_events cp timeout g (Some m) s (fetched_again n) = Some r"
  have "Some m \<noteq> None \<longrightarrow> fetched_again n \<noteq> fetched_again n"
  proof (rule await_events.raw_induct [where P = "\<lambda>cp to g respondant s incoming r. respondant \<noteq> None \<longrightarrow> incoming \<noteq> fetched_again n", OF _ run],
      intro impI notI)
    fix aw cp to g s r incoming and respondant :: "tuple_node option"
    assume ih: "\<And>cp to g respondant s incoming r. aw cp to g respondant s incoming = Some r \<Longrightarrow> respondant \<noteq> None \<longrightarrow> incoming \<noteq> fetched_again n"
      and body: "(case incoming of Silent \<Rightarrow> Some (attempt_timed_out cp g s)
        | Arrives d e later \<Rightarrow>
            if to < d then Some (attempt_timed_out cp g s)
            else (case on_event cp to g respondant s e of
                Panic \<Rightarrow> Some Panic
              | Err err \<Rightarrow> Some (Err err)
              | Ok l \<Rightarrow> (case l of
                  Leave step \<Rightarrow> Some (Ok step)
                | Listen timeout' min_target' respondant' \<Rightarrow> aw cp timeout' min_target' respondant' s later))) = Some r"
      and again: "respondant \<noteq> None" "incoming = fetched_again n"
    have arrives: "incoming = Arrives 0 (RespondantNode n) (fetched_again n)" using again(2) fetched_again.code by metis
    obtain m where m: "respondant = Some m" using again(1) by auto
    from body have "aw cp to g respondant s (fetched_again n) = Some r" unfolding arrives m by (simp add: on_event_def)
    from ih [OF this] again(1) show False by simp
  qed
  then show False by simp
qed

lemma kept_waiting:
  assumes "wf_my_pos t (cp_my_pos cp)" "wf_tuple_node t n" "tn_top n \<le> target_levels cp" "target_levels cp \<le> length (cp_my_pos cp)"
  shows "await_events cp timeout g None s (fetched_again n) = None"
proof -
  obtain n' where n': "rebase_tuple_node (cp_my_pos cp) n (target_levels cp) = Ok n'" using rebase_tuple_node_run [OF assms] by blast
  have "await_events cp (cp_timeout_exec cp) g (Some n') s (fetched_again n) = None" using fetched_again_waits by (metis not_None_eq)
  then have "await_events cp timeout g None s (Arrives 0 (RespondantNode n) (fetched_again n)) = None"
    using n' by (simp add: await_events.simps [of cp timeout g None] on_event_def)
  then show ?thesis by (simp only: fetched_again.code [of n, symmetric])
qed

text \<open>The replicas of a request need not be distinct: a node that is itself closest to the target serves every one of
  them, because \<open>contact_peer\<close> drops from the nodes to leave out those that contain the caller itself.\<close>

definition example_contact :: contact_params where
  "example_contact = \<lparr>cp_config = peers_config_default, cp_topology = example_scope, cp_my_pos = [1, 0], cp_p_id = 7,
     cp_x_macron = Some (example_key [2, 1]), cp_request = \<lparr>type_tag = [], payload = []\<rparr>, cp_timeout_exec = from_millis 1000, cp_exclude_my_gnode = None,
     cp_seed_exclude_tuple_list = []\<rparr>"

definition lonely_attempt :: "typed_value_msg \<Rightarrow> attempt" where
  "lonely_attempt v = \<lparr>at_non_participants = Some [], at_exists = (\<lambda>_. False), at_exec_local = Some (Inr v), at_msg_id = Some 5, at_auth = None,
     at_registered = True, at_relay = he_relay (example_hop (\<lambda>_ _. True)) 0, at_nodes_in_my_group = (\<lambda>_. 1), at_events = (\<lambda>_. Silent)\<rparr>"

definition example_self :: tuple_gnode where
  "example_self = \<lparr>tg_topology = example_scope, tg_top = 2, tg_pos = [1, 0]\<rparr>"

lemma example_self_wf: "wf_tuple_gnode example_scope example_self" "tuple_node_to_tuple_gnode (example_key [1, 0]) = Ok example_self"
proof -
  show wf: "wf_tuple_gnode example_scope example_self"
    by (simp add: wf_tuple_gnode_def example_self_def tg_level_def in_ranges_Cons) (simp add: example_scope_def)
  have "tuple_gnode_new example_scope 2 [1, 0] = Ok example_self" using new_of_wf [OF wf] by (simp add: example_self_def)
  then show "tuple_node_to_tuple_gnode (example_key [1, 0]) = Ok example_self"
    by (simp add: tuple_node_to_tuple_gnode_def example_key_def tn_top_def numeral_2_eq_2)
qed

lemma lonely_elects:
  "approximate example_scope [1, 0] (Some (example_key [2, 1])) [] (\<lambda>_. False) = Ok (Some (HCoord 0 1))"
proof -
  have key: "wf_tuple_node example_scope (example_key [2, 1])" by (rule wf_example_key) simp_all
  have "HCoord 0 1 \<in> candidates example_scope [1, 0] 2 [] (\<lambda>_. False)" "candidates example_scope [1, 0] 2 [] (\<lambda>_. False) \<subseteq> {HCoord 0 1}"
    by (auto simp: candidates_def coord_in_def example_scope_def)
  then show ?thesis
    using approximate_closest [OF example_my_pos key, of "[]" "\<lambda>_. False"] by (auto simp: numeral_2_eq_2 split: option.splits)
qed

lemma lonely_contact:
  assumes "set gs \<subseteq> {example_self}"
  shows "contact_peer (example_contact\<lparr>cp_seed_exclude_tuple_list := gs\<rparr>) (\<lambda>_. lonely_attempt v) = Some (Ok ([], Found v (example_key [1, 0])))"
proof -
  let ?cp = "example_contact\<lparr>cp_seed_exclude_tuple_list := gs\<rparr>"
  have "exclude_visible [1, 0] example_self [] = Ok []"
    by (simp add: exclude_visible_def convert_tuple_gnode_def example_self_def tg_level_def index_def numeral_2_eq_2)
  then have "fold_res (\<lambda>excl g. exclude_visible [1, 0] g excl) [] gs = Ok []" using assms by (induction gs) simp_all
  then have start: "begin_search ?cp [] = Ok \<lparr>se_refuse_messages = [], se_exclude_gnode_list = [], se_exclude_tuple_list = gs,
      se_non_participant_tuple_list = []\<rparr>" (is "_ = Ok ?s")
    by (simp add: begin_search_def example_contact_def)
  have "coord_in example_scope (Suc (Suc 0)) (HCoord 0 1)" by (simp add: coord_in_def example_scope_def)
  then obtain n where n: "make_tuple_node example_scope [1, 0] (HCoord 0 1) (Suc (Suc 0)) = Ok n" "wf_tuple_node example_scope n" "tn_pos n = [1, 0]"
    using make_tuple_node_run [OF example_my_pos, of "Suc (Suc 0)" "HCoord 0 1"] by auto
  then have me: "make_tuple_node example_scope [1, 0] (HCoord 0 1) (Suc (Suc 0)) = Ok (example_key [1, 0])"
    by (cases n) (simp add: wf_tuple_node_def example_key_def)
  have "serve_locally ?cp (lonely_attempt v) ?s = Ok (Finished (Found v (example_key [1, 0])))"
    using me by (simp add: serve_locally_def lonely_attempt_def example_contact_def target_levels_def)
  then have "contact_attempt ?cp (lonely_attempt v) ?s = Some (Ok ([], Finished (Found v (example_key [1, 0]))))"
    using lonely_elects by (simp add: contact_attempt_def) (simp add: example_contact_def lonely_attempt_def)
  moreover have "max_contact_peer_hops (cp_config ?cp) = Suc (max_contact_peer_hops peers_config_default - 1)"
    by (simp add: example_contact_def peers_config_default_def)
  moreover have "at_non_participants (lonely_attempt v) = Some []" by (simp add: lonely_attempt_def)
  ultimately show ?thesis using start by (simp add: contact_peer_def start_if_def)
qed

lemma replicas_not_distinct:
  "replicate_request example_contact (example_key [2, 1]) (\<lambda>_. Some (\<lambda>_. lonely_attempt v)) 2 =
     Ok [(v, example_key [1, 0]), (v, example_key [1, 0])]"
proof -
  have "example_contact\<lparr>cp_x_macron := Some (example_key [2, 1]), cp_exclude_my_gnode := None, cp_seed_exclude_tuple_list := gs\<rparr> =
      example_contact\<lparr>cp_seed_exclude_tuple_list := gs\<rparr>" for gs by (simp add: example_contact_def)
  moreover have "unat (2 :: u32) = Suc (Suc 0)" by simp
  ultimately show ?thesis using lonely_contact example_self_wf(2) by (simp only: replicate_request_def) simp
qed

subsection \<open>Witnesses\<close>

definition quiet_attempt :: attempt where
  "quiet_attempt = \<lparr>at_non_participants = Some [], at_exists = (\<lambda>_. True), at_exec_local = None, at_msg_id = Some 5, at_auth = None,
     at_registered = True, at_relay = he_relay (example_hop (\<lambda>_ _. True)) 0, at_nodes_in_my_group = (\<lambda>_. 1),
     at_events = (\<lambda>_. Arrives 10 MissingOptionalMaps Silent)\<rparr>"

theorem contact_peer_returns_witness:
  "\<exists>sent out. contact_peer example_contact (\<lambda>_. quiet_attempt) = Some (Ok (sent, out)) \<and> length sent \<le> max_contact_peer_hops peers_config_default"
proof -
  have levels: "target_levels example_contact = Suc (Suc 0)" by (simp add: target_levels_def example_contact_def)
  have "contact_ok example_contact"
    using levels example_my_pos wf_example_key [of 2 1] by (simp add: contact_ok_def) (simp add: example_contact_def)
  moreover have "events_ok t n (heard j (Arrives 10 MissingOptionalMaps Silent))" for t n j
  proof -
    have "heard k Silent = []" for k by (cases k) simp_all
    then show ?thesis by (cases j) (simp_all add: events_ok_def answered_after_def)
  qed
  moreover have "falls_silent T (Arrives 10 MissingOptionalMaps Silent)" for T by (intro falls_silent.intros)
  ultimately have "\<exists>sent out. contact_peer example_contact (\<lambda>_. quiet_attempt) = Some (Ok (sent, out)) \<and>
      length sent \<le> max_contact_peer_hops (cp_config example_contact)"
    using contact_peer_returns [of example_contact "\<lambda>_. quiet_attempt"]
    by (auto simp: quiet_attempt_def example_contact_def fits32_def topology_levels_def example_scope_def)
  then show ?thesis by (simp add: example_contact_def)
qed

theorem forward_msg_passes_on_witness:
  "\<exists>f. forward_msg (example_hop (\<lambda>_ _. True)) (crafted_mf\<lparr>mf_n := example_key [2, 0], mf_x_macron := None\<rparr>) = Some (Ok f)"
proof -
  let ?env = "example_hop (\<lambda>_ _. True)" let ?mf = "crafted_mf\<lparr>mf_n := example_key [2, 0], mf_x_macron := None\<rparr>"
  have "wf_tuple_node example_scope (example_key [2, 0])" by (rule wf_example_key) simp_all
  then have "routable example_scope ?mf"
    by (simp add: routable_def crafted_mf_def topology_levels_def example_scope_def)
  moreover have "dist_fits example_scope 0" "fits32 (topology_levels example_scope)"
    by (simp_all add: dist_fits_def fits32_def topology_levels_def example_scope_def)
  moreover have "fst (try_forward peers_config_default (he_relay ?env 0) x)" for x
    by (simp add: try_forward_def example_hop_def peers_config_default_def upt_rec)
  moreover have "he_topology ?env = example_scope" "he_my_pos ?env = [1, 0]" "he_config ?env = peers_config_default" "mf_lvl ?mf = 0"
    by (simp_all add: example_hop_def crafted_mf_def)
  ultimately have "forward_msg ?env ?mf \<noteq> None \<and> (\<forall>r. forward_msg ?env ?mf = Some r \<longrightarrow> (\<exists>f. r = Ok f))"
    using forward_msg_passes_on [of ?env ?mf] example_my_pos by metis
  then show ?thesis by auto
qed

end
