(* ===== verification/Andna_Snsd.thy ===== *)
theory Andna_Snsd
  imports Ntk_Auth "HOL-Library.Multiset" "HOL-Library.List_Lexorder" "HOL-Library.Char_ord"
begin

section \<open>ANDNA names and service records (\<open>ntk-andna/src/hostname.rs\<close>, \<open>snsd.rs\<close>)\<close>

text \<open>
  Host names, the records registered under one name, grouped by service, and their resolution. A
  \<open>Hostname\<close> is its canonical text, the bytes of a \<open>String\<close> as characters. The random generator of a
  resolution is a function from the number of the draw and the upper end of its range \<open>1..=n\<close>; an empty
  range panics, and so does a checked addition that overflows.
\<close>

type_synonym u16 = "16 word"
type_synonym hostname = string
type_synonym name_hash = "u8 list"

datatype andna_error =
    EmptyHostname
  | HostnameTooLong usize usize
  | InvalidHostnameChar
  | WeightTooLarge u8
  | ReservedServiceZero
  | TooManySnsdRecords usize
  | TooManyRecordsForService u32 usize
  | InvalidSignature
  | AndnaMissingField string
  | FieldOutOfRange string
  | AndnaDomain domain_decode_error
  | MalformedKeyMaterial string usize usize

definition MAX_LEN :: usize where
  "MAX_LEN = 511"

definition is_ascii_alphanumeric :: "char \<Rightarrow> bool" where
  "is_ascii_alphanumeric c \<longleftrightarrow>
     (let n = of_char c :: nat in 48 \<le> n \<and> n \<le> 57 \<or> 65 \<le> n \<and> n \<le> 90 \<or> 97 \<le> n \<and> n \<le> 122)"

definition to_ascii_lowercase :: "char \<Rightarrow> char" where
  "to_ascii_lowercase c = (let n = of_char c :: nat in if 65 \<le> n \<and> n \<le> 90 then char_of (n + 32) else c)"

definition hostname_new :: "string \<Rightarrow> (hostname, andna_error) res" where
  "hostname_new raw =
     (if raw = [] then Err EmptyHostname
      else if MAX_LEN < length raw then Err (HostnameTooLong (length raw) MAX_LEN)
      else if \<not> list_all is_ascii_alphanumeric raw then Err InvalidHostnameChar
      else Ok (map to_ascii_lowercase raw))"

definition hostname_hash :: "(u8 list \<Rightarrow> u8 list) \<Rightarrow> hostname \<Rightarrow> name_hash" where
  "hostname_hash blake3 h = blake3 (as_bytes h)"

text \<open>\<open>u128::from_le_bytes\<close> of the first 16 bytes.\<close>

fun from_le_bytes :: "u8 list \<Rightarrow> nat" where
  "from_le_bytes [] = 0"
| "from_le_bytes (b # bs) = unat b + 256 * from_le_bytes bs"

definition hash_route_key :: "name_hash \<Rightarrow> 128 word" where
  "hash_route_key h = word_of_nat (from_le_bytes (take 16 h))"

subsection \<open>Records\<close>

definition MAX_WEIGHT :: u8 where "MAX_WEIGHT = 127"
definition ZERO_SERVICE :: u16 where "ZERO_SERVICE = 0"

datatype snsd_target = Address naddr | Alias hostname

record snsd_record =
  sr_service :: u16
  sr_priority :: u8
  sr_weight :: u8
  sr_target :: snsd_target

definition snsd_record_new :: "u16 \<Rightarrow> u8 \<Rightarrow> u8 \<Rightarrow> snsd_target \<Rightarrow> (snsd_record, andna_error) res" where
  "snsd_record_new service priority weight target =
     (if MAX_WEIGHT < weight then Err (WeightTooLarge weight)
      else Ok \<lparr>sr_service = service, sr_priority = priority, sr_weight = weight, sr_target = target\<rparr>)"

record snsd_table =
  sn_by_service :: "(u16, snsd_record list) btree_map"
  sn_total :: usize

definition snsd_table_new :: snsd_table where
  "snsd_table_new = \<lparr>sn_by_service = [], sn_total = 0\<rparr>"

definition bucket :: "u16 \<Rightarrow> snsd_table \<Rightarrow> snsd_record list" where
  "bucket service t = (case map_of (sn_by_service t) service of None \<Rightarrow> [] | Some rs \<Rightarrow> rs)"

definition snsd_insert :: "snsd_record \<Rightarrow> usize \<Rightarrow> usize \<Rightarrow> (snsd_table, unit, andna_error) st" where
  "snsd_insert r max_per_service max_total t =
     (if max_total \<le> sn_total t then (Err (TooManySnsdRecords max_total), t)
      else
      let rs = bucket (sr_service r) t;
          t1 = t\<lparr>sn_by_service := bt_insert (sr_service r) rs (sn_by_service t)\<rparr> in
      if max_per_service \<le> length rs then (Err (TooManyRecordsForService (ucast (sr_service r)) max_per_service), t1)
      else (Ok (), t1\<lparr>sn_by_service := bt_insert (sr_service r) (rs @ [r]) (sn_by_service t1), sn_total := sn_total t + 1\<rparr>))"

definition zero_record :: "naddr \<Rightarrow> u8 \<Rightarrow> u8 \<Rightarrow> snsd_record" where
  "zero_record owner_naddr priority weight =
     \<lparr>sr_service = ZERO_SERVICE, sr_priority = priority, sr_weight = weight, sr_target = Address owner_naddr\<rparr>"

definition set_zero_record :: "naddr \<Rightarrow> u8 \<Rightarrow> u8 \<Rightarrow> snsd_table \<Rightarrow> (snsd_table, andna_error) res" where
  "set_zero_record owner_naddr priority weight t =
     (let old = bucket ZERO_SERVICE t in
      if sn_total t < length old then Panic
      else Ok \<lparr>sn_by_service = bt_insert ZERO_SERVICE [zero_record owner_naddr priority weight] (bt_remove ZERO_SERVICE (sn_by_service t)),
               sn_total = sn_total t - length old + 1\<rparr>)"

subsection \<open>Resolution\<close>

type_synonym draws = "nat \<Rightarrow> nat \<Rightarrow> nat"

text \<open>The loop that finds the record a draw falls on: \<open>chosen\<close> stays 0 when there is none.\<close>

fun find_pick :: "nat \<Rightarrow> snsd_record list \<Rightarrow> usize option" where
  "find_pick pick [] = None"
| "find_pick pick (r # rs) =
     (if pick \<le> unat (sr_weight r) then Some 0 else map_option Suc (find_pick (pick - unat (sr_weight r)) rs))"

definition chosen :: "nat \<Rightarrow> snsd_record list \<Rightarrow> usize" where
  "chosen pick rs = (case find_pick pick rs of None \<Rightarrow> 0 | Some i \<Rightarrow> i)"

definition total_weight :: "snsd_record list \<Rightarrow> nat" where
  "total_weight rs = sum_list (map (\<lambda>r. unat (sr_weight r)) rs)"

lemma find_pick_less: "find_pick pick rs = Some i \<Longrightarrow> i < length rs"
  by (induction pick rs arbitrary: i rule: find_pick.induct) (auto split: if_splits)

lemma chosen_less: "rs \<noteq> [] \<Longrightarrow> chosen pick rs < length rs"
  by (auto simp: chosen_def find_pick_less split: option.splits)

function weighted_shuffle :: "draws \<Rightarrow> nat \<Rightarrow> snsd_record list \<Rightarrow> (snsd_record list \<times> nat, andna_error) res" where
  "weighted_shuffle rng k rs =
     (if rs = [] then Ok ([], k)
      else if 2 ^ 32 \<le> total_weight rs \<or> total_weight rs = 0 then Panic
      else
      let i = chosen (rng k (total_weight rs)) rs in
      res_bind (weighted_shuffle rng (k + 1) (remove_nth i rs)) (\<lambda>(ordered, k'). Ok (rs ! i # ordered, k')))"
  by pat_completeness auto
termination
  by (relation "measure (\<lambda>(_, _, rs). length rs)") (auto simp: length_remove_nth chosen_less)

declare weighted_shuffle.simps [simp del]

text \<open>The tiers of a \<open>BTreeMap<Reverse<u8>, _>\<close>: highest priority first.\<close>

definition push_tier :: "(u8, snsd_record list) btree_map \<Rightarrow> snsd_record \<Rightarrow> (u8, snsd_record list) btree_map" where
  "push_tier m r =
     bt_insert (sr_priority r) ((case map_of m (sr_priority r) of None \<Rightarrow> [] | Some rs \<Rightarrow> rs) @ [r]) m"

definition priority_tiers :: "snsd_record list \<Rightarrow> snsd_record list list" where
  "priority_tiers rs = rev (map snd (foldl push_tier [] (filter (\<lambda>r. 0 < sr_weight r) rs)))"

definition shuffle_tier :: "draws \<Rightarrow> snsd_record list \<times> nat \<Rightarrow> snsd_record list \<Rightarrow> (snsd_record list \<times> nat, andna_error) res" where
  "shuffle_tier rng acc tier =
     res_bind (weighted_shuffle rng (snd acc) tier) (\<lambda>(ordered, k). Ok (fst acc @ ordered, k))"

definition records_for :: "u16 \<Rightarrow> snsd_table \<Rightarrow> snsd_record list" where
  "records_for service t =
     (case map_of (sn_by_service t) service of
        Some (r # rs) \<Rightarrow> r # rs
      | _ \<Rightarrow> bucket ZERO_SERVICE t)"

definition snsd_resolve :: "draws \<Rightarrow> u16 \<Rightarrow> snsd_table \<Rightarrow> (snsd_record list, andna_error) res" where
  "snsd_resolve rng service t =
     res_bind (fold_res (shuffle_tier rng) ([], 0) (priority_tiers (records_for service t))) (\<lambda>(ordered, _). Ok ordered)"

subsection \<open>Names\<close>

lemma lowercase_char:
  assumes "is_ascii_alphanumeric c"
  shows "is_ascii_alphanumeric (to_ascii_lowercase c)" "to_ascii_lowercase (to_ascii_lowercase c) = to_ascii_lowercase c"
proof -
  have "of_char (char_of (of_char c + 32 :: nat)) = (of_char c + 32 :: nat)" if "(of_char c :: nat) \<le> 90"
    using that by (simp add: of_char_of)
  then show "is_ascii_alphanumeric (to_ascii_lowercase c)" "to_ascii_lowercase (to_ascii_lowercase c) = to_ascii_lowercase c"
    using assms by (auto simp: is_ascii_alphanumeric_def to_ascii_lowercase_def Let_def)
qed

text \<open>A canonical name: what \<open>Hostname::new\<close> yields, and what it leaves unchanged.\<close>

definition wf_hostname :: "hostname \<Rightarrow> bool" where
  "wf_hostname h \<longleftrightarrow> h \<noteq> [] \<and> length h \<le> MAX_LEN \<and> (\<forall>c \<in> set h. is_ascii_alphanumeric c \<and> to_ascii_lowercase c = c)"

lemma hostname_new_wf: "hostname_new raw = Ok h \<Longrightarrow> wf_hostname h"
  by (auto simp: hostname_new_def wf_hostname_def list_all_iff lowercase_char split: if_splits)

lemma hostname_new_canonical: "wf_hostname h \<Longrightarrow> hostname_new h = Ok h"
  by (auto simp: hostname_new_def wf_hostname_def list_all_iff map_idI)

lemma hostname_new_not_Panic: "hostname_new raw \<noteq> Panic"
  by (simp add: hostname_new_def)

subsection \<open>The table of a name\<close>

text \<open>The count is right and every record lies under its service.\<close>

definition wf_table :: "snsd_table \<Rightarrow> bool" where
  "wf_table t \<longleftrightarrow> bt_wf (sn_by_service t) \<and> sn_total t = sum_list (map (\<lambda>(_, rs). length rs) (sn_by_service t)) \<and>
     (\<forall>(s, rs) \<in> set (sn_by_service t). \<forall>r \<in> set rs. sr_service r = s)"

lemma sum_bt_insert:
  fixes f :: "'v \<Rightarrow> nat"
  assumes "bt_wf m"
  shows "sum_list (map (\<lambda>(_, v). f v) (bt_insert k v m)) + (case map_of m k of None \<Rightarrow> 0 | Some w \<Rightarrow> f w) =
     sum_list (map (\<lambda>(_, v). f v) m) + f v"
  using assms
proof (induction k v m rule: bt_insert.induct)
  case (2 k v k' v' m)
  have "bt_wf m" using 2(2) by (simp add: bt_wf_def)
  moreover have "map_of m k = None" if "k \<le> k'"
    using 2(2) that by (auto simp: bt_wf_def map_of_eq_None_iff)
  ultimately show ?case using 2(1) by (auto split: option.splits)
qed simp

lemma mset_bt_insert:
  assumes "bt_wf m"
  shows "mset (concat (map snd (bt_insert k v m))) + (case map_of m k of None \<Rightarrow> {#} | Some w \<Rightarrow> mset w) =
     mset (concat (map snd m)) + mset v"
  using assms
proof (induction k v m rule: bt_insert.induct)
  case (2 k v k' v' m)
  have "bt_wf m" using 2(2) by (simp add: bt_wf_def)
  moreover have "map_of m k = None" if "k \<le> k'"
    using 2(2) that by (auto simp: bt_wf_def map_of_eq_None_iff)
  ultimately show ?case using 2(1) by (auto split: option.splits)
qed simp

lemma bt_insert_twice: "bt_insert k v (bt_insert k w m) = bt_insert k v m"
  by (induction k w m rule: bt_insert.induct) auto

lemma bt_entries_get: "\<forall>(k, v) \<in> set m. P k v \<Longrightarrow> map_of m k = Some v \<Longrightarrow> P k v"
  by (auto dest: map_of_SomeD)

lemma mset_concat_rev: "mset (concat (rev xs)) = mset (concat xs)"
  by (induction xs) simp_all

lemma length_bucket_le: "wf_table t \<Longrightarrow> length (bucket s t) \<le> sn_total t"
proof -
  assume t: "wf_table t"
  have "map_of m s = Some rs \<Longrightarrow> length rs \<le> sum_list (map (\<lambda>(_, rs). length rs) m)" for m :: "(u16, snsd_record list) btree_map" and rs
    by (induction m) (auto split: if_splits)
  with t show ?thesis by (auto simp: bucket_def wf_table_def split: option.splits)
qed

lemma snsd_insert_wf:
  assumes "wf_table t" "snsd_insert r mps mt t = (Ok (), t')"
  shows "wf_table t'" "sn_total t' = sn_total t + 1" "sn_total t' \<le> mt" "length (bucket (sr_service r) t') \<le> mps"
    "bucket s t' = (if s = sr_service r then bucket s t @ [r] else bucket s t)"
proof -
  let ?s = "sr_service r" let ?m = "sn_by_service t" let ?rs = "bucket ?s t"
  have wf: "bt_wf ?m" using assms(1) by (simp add: wf_table_def)
  have t': "t' = t\<lparr>sn_by_service := bt_insert ?s (?rs @ [r]) (bt_insert ?s ?rs ?m), sn_total := sn_total t + 1\<rparr>" "sn_total t < mt" "length ?rs < mps"
    using assms(2) by (auto simp: snsd_insert_def Let_def split: if_splits)
  note twice = bt_insert_twice [of ?s "?rs @ [r]" ?rs ?m]
  show "sn_total t' = sn_total t + 1" "sn_total t' \<le> mt" using t' by simp_all
  show b: "bucket s t' = (if s = ?s then bucket s t @ [r] else bucket s t)" for s
    using wf by (simp add: bucket_def t'(1) bt_insert_twice bt.get_insert)
  show "length (bucket ?s t') \<le> mps" using t'(3) b by simp
  have "sum_list (map (\<lambda>(_, rs). length rs) (bt_insert ?s (?rs @ [r]) ?m)) = sum_list (map (\<lambda>(_, rs). length rs) ?m) + 1"
    using sum_bt_insert [OF wf, of length ?s "?rs @ [r]"] by (auto simp: bucket_def split: option.splits)
  moreover have "\<forall>(s, rs) \<in> set (bt_insert ?s (?rs @ [r]) ?m). \<forall>r \<in> set rs. sr_service r = s"
  proof -
    have all: "\<forall>(s, rs) \<in> set ?m. \<forall>r \<in> set rs. sr_service r = s" using assms(1) by (simp add: wf_table_def)
    have "\<forall>r \<in> set ?rs. sr_service r = ?s"
      using bt_entries_get [OF all] by (cases "map_of ?m ?s") (simp_all add: bucket_def)
    then show ?thesis using all wf by (auto simp: bt.entries_insert)
  qed
  ultimately show "wf_table t'" using assms(1) wf by (simp add: wf_table_def t'(1) twice bt.wf_insert)
qed

lemma set_zero_record_new: "set_zero_record a p w snsd_table_new = Ok \<lparr>sn_by_service = [(ZERO_SERVICE, [zero_record a p w])], sn_total = 1\<rparr>"
  by (simp add: set_zero_record_def snsd_table_new_def bucket_def bt_remove_def)

subsection \<open>Resolution returns the enabled records by priority\<close>

lemma mset_remove_nth: "i < length xs \<Longrightarrow> add_mset (xs ! i) (mset (remove_nth i xs)) = mset xs"
  by (metis id_take_nth_drop mset.simps(2) mset_append remove_nth_def union_mset_add_mset_right)

lemma weighted_shuffle_perm:
  assumes "\<And>r. r \<in> set rs \<Longrightarrow> 0 < sr_weight r" "length rs * 255 < 2 ^ 32"
  shows "\<exists>ordered k'. weighted_shuffle rng k rs = Ok (ordered, k') \<and> mset ordered = mset rs"
  using assms
proof (induction rng k rs rule: weighted_shuffle.induct)
  case (1 rng k rs)
  show ?case
  proof (cases "rs = []")
    case True
    then show ?thesis by (simp add: weighted_shuffle.simps)
  next
    case False
    let ?i = "chosen (rng k (total_weight rs)) rs"
    have w: "unat (sr_weight r) \<le> 255" for r
    proof -
      have "unat (sr_weight r) < 2 ^ LENGTH(8)" by (rule unsigned_less)
      then show ?thesis by simp
    qed
    have "total_weight rs \<le> length rs * 255"
    proof (induction rs)
      case (Cons a rs)
      then show ?case using w [of a] by (simp add: total_weight_def)
    qed (simp add: total_weight_def)
    then have small: "total_weight rs < 2 ^ 32" using 1(3) by linarith
    have "0 < unat (sr_weight (hd rs))" using False 1(2) [of "hd rs"] by (simp add: word_less_nat_alt)
    then have pos: "total_weight rs \<noteq> 0" using False by (cases rs) (simp_all add: total_weight_def)
    have i: "?i < length rs" using False by (rule chosen_less)
    have rest: "\<And>r. r \<in> set (remove_nth ?i rs) \<Longrightarrow> 0 < sr_weight r" "length (remove_nth ?i rs) * 255 < 2 ^ 32"
      using 1(2,3) set_remove_nth [of ?i rs] length_remove_nth [OF i] by auto
    then obtain ordered k' where o': "weighted_shuffle rng (k + 1) (remove_nth ?i rs) = Ok (ordered, k')" "mset ordered = mset (remove_nth ?i rs)"
      using 1(1) [OF False _ refl] small pos by auto
    then show ?thesis using False small pos mset_remove_nth [OF i] by (subst weighted_shuffle.simps) (simp add: Let_def)
  qed
qed

text \<open>The tiers as they are built.\<close>

definition tiers_of :: "(u8, snsd_record list) btree_map \<Rightarrow> snsd_record list \<Rightarrow> bool" where
  "tiers_of m rs \<longleftrightarrow> bt_wf m \<and> mset (concat (map snd m)) = mset rs \<and> (\<forall>(p, tier) \<in> set m. \<forall>r \<in> set tier. sr_priority r = p)"

lemma push_tier_ok:
  assumes "tiers_of m rs"
  shows "tiers_of (push_tier m r) (rs @ [r])"
proof -
  let ?old = "case map_of m (sr_priority r) of None \<Rightarrow> [] | Some rs \<Rightarrow> rs"
  have wf: "bt_wf m" using assms by (simp add: tiers_of_def)
  have "mset (concat (map snd (push_tier m r))) = mset (concat (map snd m)) + {#r#}"
    using mset_bt_insert [OF wf, of "sr_priority r" "?old @ [r]"] by (auto simp: push_tier_def split: option.splits)
  moreover have "\<forall>(p, tier) \<in> set (push_tier m r). \<forall>r \<in> set tier. sr_priority r = p"
  proof -
    have all: "\<forall>(p, tier) \<in> set m. \<forall>r \<in> set tier. sr_priority r = p" using assms by (simp add: tiers_of_def)
    have "\<forall>q \<in> set ?old. sr_priority q = sr_priority r"
      using bt_entries_get [OF all] by (cases "map_of m (sr_priority r)") simp_all
    then show ?thesis using all wf by (auto simp: push_tier_def bt.entries_insert)
  qed
  ultimately show ?thesis using assms wf by (simp add: tiers_of_def push_tier_def bt.wf_insert)
qed

lemma push_tiers_ok: "tiers_of m done' \<Longrightarrow> tiers_of (foldl push_tier m rs) (done' @ rs)"
proof (induction rs arbitrary: m done')
  case (Cons r rs)
  then show ?case using Cons.IH [OF push_tier_ok [OF Cons.prems, of r]] by simp
qed simp

lemma shuffle_tiers:
  assumes "\<And>r. r \<in> set (concat tiers) \<Longrightarrow> 0 < sr_weight r" "length (concat tiers) * 255 < 2 ^ 32"
  shows "\<exists>out k'. fold_res (shuffle_tier rng) (acc, k) tiers = Ok (acc @ concat out, k') \<and> list_all2 (\<lambda>o' t. mset o' = mset t) out tiers"
  using assms
proof (induction tiers arbitrary: acc k)
  case Nil
  have "fold_res (shuffle_tier rng) (acc, k) [] = Ok (acc @ concat [], k)" by simp
  then show ?case by (metis list_all2_Nil)
next
  case (Cons t ts)
  obtain o' k1 where 1: "weighted_shuffle rng k t = Ok (o', k1)" "mset o' = mset t"
    using weighted_shuffle_perm [of t rng k] Cons.prems by auto
  obtain out k2 where "fold_res (shuffle_tier rng) (acc @ o', k1) ts = Ok ((acc @ o') @ concat out, k2)"
    "list_all2 (\<lambda>o' t. mset o' = mset t) out ts"
    using Cons.IH [of "acc @ o'" k1] Cons.prems by auto
  then have "fold_res (shuffle_tier rng) (acc, k) (t # ts) = Ok (acc @ concat (o' # out), k2) \<and> list_all2 (\<lambda>o' t. mset o' = mset t) (o' # out) (t # ts)"
    using 1 by (simp add: shuffle_tier_def)
  then show ?case by blast
qed

lemma sorted_tiers:
  assumes "sorted_wrt (>) ps" "list_all2 (\<lambda>p t. \<forall>r \<in> set t. sr_priority r = p) ps ts"
  shows "sorted_wrt (\<lambda>a b. sr_priority b \<le> sr_priority a) (concat ts)"
  using assms(2,1)
proof (induction ps ts rule: list_all2_induct)
  case (Cons p ps t ts)
  have "\<forall>r \<in> set (concat ts). sr_priority r \<in> set ps"
    using Cons(2) by (induction ps ts rule: list_all2_induct) auto
  then show ?case using Cons
    by (auto simp: sorted_wrt_append less_imp_le intro: sorted_wrt_mono_rel [of t "\<lambda>a b. True"])
qed simp

lemma snsd_resolve_run:
  assumes "length (records_for service t) * 255 < 2 ^ 32"
  shows "\<exists>rs. snsd_resolve rng service t = Ok rs \<and> mset rs = mset (filter (\<lambda>r. 0 < sr_weight r) (records_for service t)) \<and>
     sorted_wrt (\<lambda>a b. sr_priority b \<le> sr_priority a) rs"
proof -
  let ?on = "filter (\<lambda>r. 0 < sr_weight r) (records_for service t)" let ?m = "foldl push_tier [] ?on"
  have m: "tiers_of ?m ?on" using push_tiers_ok [of "[]" "[]" ?on] by (simp add: tiers_of_def bt_wf_def)
  have all: "mset (concat (rev (map snd ?m))) = mset ?on"
    using m by (simp only: mset_concat_rev tiers_of_def)
  have len: "length (concat (rev (map snd ?m))) = length ?on" using all by (metis size_mset)
  have "length ?on * 255 < 2 ^ 32" using assms length_filter_le [of "\<lambda>r. 0 < sr_weight r" "records_for service t"] by linarith
  then have small: "length (concat (rev (map snd ?m))) * 255 < 2 ^ 32" by (simp only: len)
  have on: "0 < sr_weight r" if "r \<in> set (concat (rev (map snd ?m)))" for r
    using that unfolding mset_eq_setD [OF all] by simp
  have "\<exists>out k'. fold_res (shuffle_tier rng) ([], 0) (rev (map snd ?m)) = Ok ([] @ concat out, k') \<and>
      list_all2 (\<lambda>o' t. mset o' = mset t) out (rev (map snd ?m))"
    using on small by (rule shuffle_tiers)
  then obtain out k' where out: "fold_res (shuffle_tier rng) ([], 0) (priority_tiers (records_for service t)) = Ok (concat out, k')"
    "list_all2 (\<lambda>o' t. mset o' = mset t) out (rev (map snd ?m))"
    unfolding priority_tiers_def append_Nil by blast
  have "mset (concat out) = mset (concat (rev (map snd ?m)))"
    using out(2) by (induction rule: list_all2_induct) simp_all
  moreover have "sorted_wrt (\<lambda>a b. sr_priority b \<le> sr_priority a) (concat out)"
  proof (rule sorted_tiers)
    show "sorted_wrt (>) (rev (map fst ?m))" using m by (simp add: tiers_of_def bt_wf_def sorted_wrt_rev)
    have "list_all2 (\<lambda>p t. \<forall>r \<in> set t. sr_priority r = p) (map fst ?m) (map snd ?m)"
    proof -
      have "\<forall>x \<in> set ?m. \<forall>r \<in> set (snd x). sr_priority r = fst x" using m by (auto simp: tiers_of_def)
      then show ?thesis by (simp add: list_all2_conv_all_nth)
    qed
    then have "list_all2 (\<lambda>p t. \<forall>r \<in> set t. sr_priority r = p) (rev (map fst ?m)) (rev (map snd ?m))" by simp
    moreover have "list_all2 (\<lambda>o' t. set o' = set t) out (rev (map snd ?m))" using out(2) by (rule list_all2_mono) (rule mset_eq_setD)
    ultimately show "list_all2 (\<lambda>p t. \<forall>r \<in> set t. sr_priority r = p) (rev (map fst ?m)) out" by (simp add: list_all2_conv_all_nth)
  qed
  ultimately show ?thesis using out(1) all by (simp add: snsd_resolve_def)
qed

end
