(* ===== verification/Andna_Record.thy ===== *)
theory Andna_Record
  imports Andna_Snsd
begin

section \<open>Registration of names (\<open>ntk-andna/src/record.rs\<close>, \<open>counter.rs\<close>)\<close>

text \<open>
  Signed registrations, the store of a hash node with its collision, replay and expiry policy, and the
  counter of names per registrant. Times are seconds, \<open>now\<close> is always an argument. \<open>verify_raw\<close>
  is the signature check of \<open>ed25519-dalek\<close>, \<open>sign_raw\<close> and \<open>public_key\<close> belong to a signing key.
\<close>

definition MAX_TIMESTAMP_SKEW_SECS :: u64 where "MAX_TIMESTAMP_SKEW_SECS = 3600"

fun encode_target :: "snsd_target \<Rightarrow> u8 list" where
  "encode_target (Address a) =
     0 # le32_len (naddr_pos a) @ concat (map (to_le_bytes 4) (gsizes (naddr_topology a))) @ concat (map (to_le_bytes 4) (naddr_pos a))"
| "encode_target (Alias h) = 1 # le32_len h @ as_bytes h"

record register_request =
  rr_hostname :: hostname
  rr_owner_key :: "u8 list"
  rr_owner_naddr :: naddr
  rr_sequence :: u64
  rr_timestamp_unix :: u64
  rr_zero_priority :: u8
  rr_zero_weight :: u8
  rr_snsd_records :: "snsd_record list"
  rr_signature :: "u8 list"

definition encode_record :: "snsd_record \<Rightarrow> u8 list" where
  "encode_record r = to_le_bytes 2 (sr_service r) @ sr_priority r # sr_weight r # encode_target (sr_target r)"

definition register_signing_bytes :: "register_request \<Rightarrow> u8 list" where
  "register_signing_bytes q =
     le32_len (rr_hostname q) @ as_bytes (rr_hostname q) @ rr_owner_key q @ encode_target (Address (rr_owner_naddr q)) @
     to_le_bytes 8 (rr_sequence q) @ to_le_bytes 8 (rr_timestamp_unix q) @ rr_zero_priority q # rr_zero_weight q #
     le32_len (rr_snsd_records q) @ concat (map encode_record (rr_snsd_records q))"

definition register_sign ::
  "('sk \<Rightarrow> u8 list) \<Rightarrow> ('sk \<Rightarrow> u8 list \<Rightarrow> u8 list) \<Rightarrow> 'sk \<Rightarrow> hostname \<Rightarrow> naddr \<Rightarrow> u64 \<Rightarrow> u64 \<Rightarrow> u8 \<Rightarrow> u8 \<Rightarrow> snsd_record list
    \<Rightarrow> (register_request, andna_error) res" where
  "register_sign public_key sign_raw signing_key hostname owner_naddr sequence timestamp zero_priority zero_weight snsd_records =
     (if list_ex (\<lambda>r. sr_service r = ZERO_SERVICE) snsd_records then Err ReservedServiceZero
      else if MAX_WEIGHT < zero_weight then Err (WeightTooLarge zero_weight)
      else
      let unsigned = \<lparr>rr_hostname = hostname, rr_owner_key = public_key signing_key, rr_owner_naddr = owner_naddr, rr_sequence = sequence,
            rr_timestamp_unix = timestamp, rr_zero_priority = zero_priority, rr_zero_weight = zero_weight,
            rr_snsd_records = snsd_records, rr_signature = replicate 64 0\<rparr> in
      Ok (unsigned\<lparr>rr_signature := sign_raw signing_key (register_signing_bytes unsigned)\<rparr>))"

type_synonym verifier = "u8 list \<Rightarrow> u8 list \<Rightarrow> u8 list \<Rightarrow> bool"

definition register_verify :: "verifier \<Rightarrow> register_request \<Rightarrow> (unit, andna_error) res" where
  "register_verify verify_raw q =
     (if verify_raw (rr_owner_key q) (register_signing_bytes q) (rr_signature q) then Ok () else Err InvalidSignature)"

subsection \<open>The store\<close>

record hosted_record =
  hr_owner_key :: "u8 list"
  hr_sequence :: u64
  hr_registered_at :: u64
  hr_renewed_at :: u64
  hr_expires_at :: u64
  hr_snsd :: snsd_table

definition is_expired :: "hosted_record \<Rightarrow> u64 \<Rightarrow> bool" where
  "is_expired r now \<longleftrightarrow> hr_expires_at r \<le> now"

datatype register_outcome = Registered u64 | Renewed u64

datatype snsd_cap_error = CapTotal usize | CapPerService u32 usize

datatype register_rejected =
    BadSignature
  | ExplicitServiceZero
  | OwnedByOther
  | StaleSequence u64 u64
  | RenewalTooSoon u64
  | SnsdCap snsd_cap_error
  | HostCapacityExceeded usize
  | StaleTimestamp u64 u64
  | ZeroWeightTooLarge u8

fun snsd_error :: "andna_error \<Rightarrow> (snsd_cap_error, register_rejected) res" where
  "snsd_error (TooManySnsdRecords m) = Ok (CapTotal m)"
| "snsd_error (TooManyRecordsForService service m) = Ok (CapPerService service m)"
| "snsd_error _ = Panic"

type_synonym name_cache = "(hostname, hosted_record) btree_map"

definition abs_diff64 :: "u64 \<Rightarrow> u64 \<Rightarrow> u64" where
  "abs_diff64 a b = (if a \<le> b then b - a else a - b)"

definition checked_add64 :: "u64 \<Rightarrow> u64 \<Rightarrow> (u64, 'e) res" where
  "checked_add64 a b = (if unat a + unat b < 2 ^ 64 then Ok (a + b) else Panic)"

definition add_snsd :: "usize \<Rightarrow> usize \<Rightarrow> snsd_table \<Rightarrow> snsd_record \<Rightarrow> (snsd_table, register_rejected) res" where
  "add_snsd max_per_service max_total t r =
     (case snsd_insert r max_per_service max_total t of
        (Ok _, t') \<Rightarrow> Ok t'
      | (Err e, _) \<Rightarrow> res_bind (snsd_error e) (\<lambda>c. Err (SnsdCap c))
      | (Panic, _) \<Rightarrow> Panic)"

definition build_snsd :: "usize \<Rightarrow> usize \<Rightarrow> register_request \<Rightarrow> (snsd_table, register_rejected) res" where
  "build_snsd max_per_service max_total q =
     (case set_zero_record (rr_owner_naddr q) (rr_zero_priority q) (rr_zero_weight q) snsd_table_new of
        Ok t \<Rightarrow> fold_res (add_snsd max_per_service max_total) t (rr_snsd_records q)
      | _ \<Rightarrow> Panic)"

text \<open>The checks before the store is consulted; a live record of the same owner is renewed, anything else is a fresh slot.\<close>

definition check_request :: "verifier \<Rightarrow> register_request \<Rightarrow> u64 \<Rightarrow> (unit, register_rejected) res" where
  "check_request verify_raw q now =
     (if register_verify verify_raw q \<noteq> Ok () then Err BadSignature
      else if list_ex (\<lambda>r. sr_service r = ZERO_SERVICE) (rr_snsd_records q) then Err ExplicitServiceZero
      else if MAX_WEIGHT < rr_zero_weight q then Err (ZeroWeightTooLarge (rr_zero_weight q))
      else if MAX_TIMESTAMP_SKEW_SECS < abs_diff64 (rr_timestamp_unix q) now then Err (StaleTimestamp (rr_timestamp_unix q) now)
      else Ok ())"

definition is_fresh_slot :: "name_cache \<Rightarrow> register_request \<Rightarrow> u64 \<Rightarrow> bool" where
  "is_fresh_slot records q now =
     (case map_of records (rr_hostname q) of None \<Rightarrow> True | Some r \<Rightarrow> is_expired r now \<or> hr_owner_key r \<noteq> rr_owner_key q)"

definition check_slot :: "name_cache \<Rightarrow> register_request \<Rightarrow> u64 \<Rightarrow> u64 \<Rightarrow> (unit, register_rejected) res" where
  "check_slot records q now min_renewal_interval =
     (if \<not> is_fresh_slot records q now
      then
        res_bind (expect (map_of records (rr_hostname q))) (\<lambda>existing.
        if rr_sequence q \<le> hr_sequence existing then Err (StaleSequence (rr_sequence q) (hr_sequence existing))
        else
        let min_next = sat_add64 (hr_renewed_at existing) min_renewal_interval in
        if now < min_next then Err (RenewalTooSoon (min_next - now)) else Ok ())
      else
        case map_of records (rr_hostname q) of
          Some existing \<Rightarrow>
            if \<not> is_expired existing now \<and> hr_owner_key existing \<noteq> rr_owner_key q then Err OwnedByOther else Ok ()
        | None \<Rightarrow> Ok ())"

definition apply_registration :: "register_request \<Rightarrow> u64 \<Rightarrow> u64 \<Rightarrow> snsd_table \<Rightarrow> bool \<Rightarrow> name_cache \<Rightarrow> register_outcome \<times> name_cache" where
  "apply_registration q now expires_at snsd fresh records =
     (if fresh
      then (Registered expires_at, bt_insert (rr_hostname q)
        \<lparr>hr_owner_key = rr_owner_key q, hr_sequence = rr_sequence q, hr_registered_at = now, hr_renewed_at = now,
         hr_expires_at = expires_at, hr_snsd = snsd\<rparr> records)
      else (Renewed expires_at, bt_modify (rr_hostname q)
        (\<lambda>r. r\<lparr>hr_sequence := rr_sequence q, hr_renewed_at := now, hr_expires_at := expires_at, hr_snsd := snsd\<rparr>) records))"

definition cache_register ::
  "verifier \<Rightarrow> register_request \<Rightarrow> u64 \<Rightarrow> u64 \<Rightarrow> u64 \<Rightarrow> usize \<Rightarrow> usize \<Rightarrow> usize \<Rightarrow> (name_cache, register_outcome, register_rejected) st" where
  "cache_register verify_raw q now ttl min_renewal_interval max_per_service max_total max_hosted records =
     (case
       res_bind (check_request verify_raw q now) (\<lambda>_.
       if map_of records (rr_hostname q) = None \<and> max_hosted \<le> length records then Err (HostCapacityExceeded max_hosted)
       else
       res_bind (check_slot records q now min_renewal_interval) (\<lambda>_.
       res_bind (build_snsd max_per_service max_total q) (\<lambda>snsd.
       res_bind (checked_add64 now ttl) (\<lambda>expires_at. Ok (snsd, expires_at))))) of
       Err e \<Rightarrow> (Err e, records)
     | Panic \<Rightarrow> (Panic, records)
     | Ok (snsd, expires_at) \<Rightarrow>
         (case apply_registration q now expires_at snsd (is_fresh_slot records q now) records of (outcome, records') \<Rightarrow> (Ok outcome, records')))"

definition cache_resolve :: "draws \<Rightarrow> hostname \<Rightarrow> u16 \<Rightarrow> u64 \<Rightarrow> name_cache \<Rightarrow> (snsd_record list, andna_error) res" where
  "cache_resolve rng h service now records =
     (case map_of records h of
        Some r \<Rightarrow> if \<not> is_expired r now then snsd_resolve rng service (hr_snsd r) else Ok []
      | None \<Rightarrow> Ok [])"

definition cache_purge_expired :: "u64 \<Rightarrow> name_cache \<Rightarrow> hostname list \<times> name_cache" where
  "cache_purge_expired now records =
     (let expired = map fst (filter (\<lambda>(_, r). is_expired r now) records) in (expired, fold bt_remove expired records))"

subsection \<open>The counter\<close>

datatype counter_rejected = CapExceeded usize | TooManyRegistrants usize

type_synonym reservations = "(name_hash, u64) btree_map"
type_synonym counter_cache = "(u32 list, reservations) btree_map"

definition live_count :: "u64 \<Rightarrow> reservations \<Rightarrow> usize" where
  "live_count now hashes = length (filter (\<lambda>(_, expiry). now < expiry) hashes)"

definition try_reserve ::
  "u32 list \<Rightarrow> name_hash \<Rightarrow> u64 \<Rightarrow> u64 \<Rightarrow> usize \<Rightarrow> usize \<Rightarrow> (counter_cache, usize, counter_rejected) st" where
  "try_reserve registrant hash now ttl cap max_registrants c =
     (if map_of c registrant = None \<and> max_registrants \<le> length c then (Err (TooManyRegistrants max_registrants), c)
      else
      let entry = (case map_of c registrant of None \<Rightarrow> [] | Some e \<Rightarrow> e);
          c1 = bt_insert registrant entry c;
          is_live_renewal = (case map_of entry hash of None \<Rightarrow> False | Some expiry \<Rightarrow> now < expiry) in
      if \<not> is_live_renewal \<and> cap \<le> live_count now entry then (Err (CapExceeded cap), c1)
      else
      case checked_add64 now ttl of
        Ok expiry \<Rightarrow>
          let entry' = bt_insert hash expiry entry in (Ok (live_count now entry'), bt_insert registrant entry' c1)
      | Err e \<Rightarrow> (Err e, c1)
      | Panic \<Rightarrow> (Panic, c1))"

definition counter_purge_expired :: "u64 \<Rightarrow> counter_cache \<Rightarrow> counter_cache" where
  "counter_purge_expired now c =
     filter (\<lambda>(_, e). e \<noteq> []) (map (\<lambda>(k, e). (k, filter (\<lambda>(_, expiry). now < expiry) e)) c)"

definition counter_snapshot :: "u64 \<Rightarrow> counter_cache \<Rightarrow> (u32 list \<times> usize) list" where
  "counter_snapshot now c = filter (\<lambda>(_, n). 0 < n) (map (\<lambda>(k, e). (k, live_count now e)) c)"

end
