(* ===== verification/Andna_Actor.thy ===== *)
theory Andna_Actor
  imports Andna_Record
begin

section \<open>The ANDNA actor (\<open>ntk-andna/src/actor.rs\<close>, \<open>config.rs\<close>)\<close>

text \<open>
  The state of the actor and its commands. The watch channel is the last published snapshot, the broadcast
  channel the list of events sent. A run is a sequence of commands whose times do not decrease, each with
  its own random draws.
\<close>

record andna_config =
  name_ttl :: u64
  min_renewal_interval :: u64
  max_hostnames_per_registrant :: usize
  max_snsd_records_per_service :: usize
  max_snsd_records_total :: usize
  replication_factor :: u32
  call_timeout :: u64
  max_hosted_records :: usize
  max_counter_registrants :: usize
  expiry_purge_interval :: u64

definition andna_config_default :: andna_config where
  "andna_config_default =
     \<lparr>name_ttl = 30 * 24 * 3600, min_renewal_interval = 3600, max_hostnames_per_registrant = 256, max_snsd_records_per_service = 16,
      max_snsd_records_total = 256, replication_factor = 7, call_timeout = 5, max_hosted_records = 65536,
      max_counter_registrants = 4096, expiry_purge_interval = 5 * 60\<rparr>"

record andna_snapshot =
  as_hosted :: name_cache
  as_counters :: "(u32 list, usize) btree_map"

datatype andna_event = NameRegistered hostname u64 | NameRenewed hostname u64 | NameExpired hostname

datatype andna_cmd =
    Register register_request u64
  | Resolve hostname u16 u64
  | CounterReserve "u32 list" name_hash u64
  | PurgeExpired u64

datatype andna_reply =
    RegisterReply "register_rejected + register_outcome"
  | ResolveReply "snsd_record list"
  | CounterReply "counter_rejected + usize"
  | NoAnswer

record andna_state =
  az_cache :: name_cache
  az_counters :: counter_cache
  az_config :: andna_config
  az_snapshot :: andna_snapshot
  az_events :: "andna_event list"

definition publish_names :: "u64 \<Rightarrow> andna_state \<Rightarrow> andna_state" where
  "publish_names now s = s\<lparr>az_snapshot := \<lparr>as_hosted = az_cache s, as_counters = counter_snapshot now (az_counters s)\<rparr>\<rparr>"

fun event_of :: "hostname \<Rightarrow> register_outcome \<Rightarrow> andna_event" where
  "event_of h (Registered e) = NameRegistered h e"
| "event_of h (Renewed e) = NameRenewed h e"

text \<open>After an accepted registration: the event, and the record patched into the snapshot.\<close>

definition announce_name :: "hostname \<Rightarrow> register_outcome \<Rightarrow> andna_state \<Rightarrow> andna_state" where
  "announce_name h outcome s =
     (let s1 = s\<lparr>az_events := az_events s @ [event_of h outcome]\<rparr> in
      case map_of (az_cache s) h of
        None \<Rightarrow> s1
      | Some r \<Rightarrow> s1\<lparr>az_snapshot := (az_snapshot s)\<lparr>as_hosted := bt_insert h r (as_hosted (az_snapshot s))\<rparr>\<rparr>)"

fun andna_handle :: "verifier \<Rightarrow> draws \<Rightarrow> andna_cmd \<Rightarrow> (andna_state, andna_reply, andna_error) st" where
  "andna_handle verify_raw rng (Register q now) s =
     (case cache_register verify_raw q now (name_ttl (az_config s)) (min_renewal_interval (az_config s))
        (max_snsd_records_per_service (az_config s)) (max_snsd_records_total (az_config s)) (max_hosted_records (az_config s)) (az_cache s) of
        (Ok outcome, records) \<Rightarrow>
          (Ok (RegisterReply (Inr outcome)), announce_name (rr_hostname q) outcome (s\<lparr>az_cache := records\<rparr>))
      | (Err e, records) \<Rightarrow> (Ok (RegisterReply (Inl e)), s\<lparr>az_cache := records\<rparr>)
      | (Panic, records) \<Rightarrow> (Panic, s\<lparr>az_cache := records\<rparr>))"
| "andna_handle verify_raw rng (Resolve h service now) s =
     (res_bind (cache_resolve rng h service now (az_cache s)) (\<lambda>rs. Ok (ResolveReply rs)), s)"
| "andna_handle verify_raw rng (CounterReserve registrant hash now) s =
     (case try_reserve registrant hash now (name_ttl (az_config s)) (max_hostnames_per_registrant (az_config s))
        (max_counter_registrants (az_config s)) (az_counters s) of
        (Ok n, c) \<Rightarrow>
          (Ok (CounterReply (Inr n)),
           s\<lparr>az_counters := c, az_snapshot := (az_snapshot s)\<lparr>as_counters := bt_insert registrant n (as_counters (az_snapshot s))\<rparr>\<rparr>)
      | (Err e, c) \<Rightarrow> (Ok (CounterReply (Inl e)), s\<lparr>az_counters := c\<rparr>)
      | (Panic, c) \<Rightarrow> (Panic, s\<lparr>az_counters := c\<rparr>))"
| "andna_handle verify_raw rng (PurgeExpired now) s =
     (case cache_purge_expired now (az_cache s) of (expired, records) \<Rightarrow>
        (Ok NoAnswer, publish_names now (s\<lparr>az_cache := records, az_counters := counter_purge_expired now (az_counters s),
           az_events := az_events s @ map NameExpired expired\<rparr>)))"

definition andna_new :: "andna_config \<Rightarrow> andna_state" where
  "andna_new config =
     \<lparr>az_cache = [], az_counters = [], az_config = config, az_snapshot = \<lparr>as_hosted = [], as_counters = []\<rparr>, az_events = []\<rparr>"

subsection \<open>Runs\<close>

fun cmd_time :: "andna_cmd \<Rightarrow> u64" where
  "cmd_time (Register _ now) = now"
| "cmd_time (Resolve _ _ now) = now"
| "cmd_time (CounterReserve _ _ now) = now"
| "cmd_time (PurgeExpired now) = now"

inductive andna_steps :: "verifier \<Rightarrow> u64 \<times> andna_state \<Rightarrow> u64 \<times> andna_state \<Rightarrow> bool" for verify_raw where
  stay: "andna_steps verify_raw x x"
| serve: "andna_steps verify_raw x (t, s) \<Longrightarrow> t \<le> cmd_time c \<Longrightarrow> andna_handle verify_raw rng c s = (r, s') \<Longrightarrow>
     andna_steps verify_raw x (cmd_time c, s')"

lemma andna_steps_trans: "andna_steps v y z \<Longrightarrow> andna_steps v x y \<Longrightarrow> andna_steps v x z"
  by (induction rule: andna_steps.induct) (auto intro: andna_steps.serve)

abbreviation andna_run :: "verifier \<Rightarrow> andna_config \<Rightarrow> u64 \<times> andna_state \<Rightarrow> bool" where
  "andna_run verify_raw config \<equiv> andna_steps verify_raw (0, andna_new config)"

end
