(* ===== verification/Andna_Laws.thy ===== *)
theory Andna_Laws
  imports Andna_Actor
begin

section \<open>What the name service guarantees\<close>

text \<open>
  The invariant of the actor (the bounds of the store, of the counter and of every name's records, the snapshot
  in step with the store), that every command keeps it, and how a live record may change in one command and in a run.
\<close>

subsection \<open>Building the records of a name\<close>

text \<open>The bounds a table built from a request obeys; the zero record is the owner's address.\<close>

definition table_within :: "usize \<Rightarrow> usize \<Rightarrow> snsd_table \<Rightarrow> bool" where
  "table_within mps mt t \<longleftrightarrow> wf_table t \<and> sn_total t \<le> max 1 mt \<and> (\<forall>s. length (bucket s t) \<le> max 1 mps)"

lemma add_snsd_run:
  assumes "table_within mps mt t"
  shows "add_snsd mps mt t r \<noteq> Panic"
    and "add_snsd mps mt t r = Ok t' \<Longrightarrow> table_within mps mt t' \<and> (\<forall>s. bucket s t' = (if s = sr_service r then bucket s t @ [r] else bucket s t))"
proof -
  show "add_snsd mps mt t r \<noteq> Panic" by (auto simp: add_snsd_def snsd_insert_def Let_def)
  assume "add_snsd mps mt t r = Ok t'"
  then have i: "snsd_insert r mps mt t = (Ok (), t')"
    by (auto simp: add_snsd_def res_simps split: prod.splits res.splits)
  have wf: "wf_table t" using assms by (simp add: table_within_def)
  note ins = snsd_insert_wf [OF wf i]
  have "length (bucket s t') \<le> max 1 mps" for s
    using ins(4) ins(5) [of s] assms by (cases "s = sr_service r") (auto simp: table_within_def)
  then show "table_within mps mt t' \<and> (\<forall>s. bucket s t' = (if s = sr_service r then bucket s t @ [r] else bucket s t))"
    using ins(1,3,5) by (simp add: table_within_def)
qed

lemma add_all_snsd:
  assumes "table_within mps mt t"
  shows "fold_res (add_snsd mps mt) t rs \<noteq> Panic"
    and "fold_res (add_snsd mps mt) t rs = Ok t' \<Longrightarrow> table_within mps mt t' \<and> (\<forall>s. bucket s t' = bucket s t @ filter (\<lambda>r. sr_service r = s) rs)"
proof -
  show "fold_res (add_snsd mps mt) t rs \<noteq> Panic" using assms
    by (induction rs arbitrary: t) (auto simp: res_simps add_snsd_run(1) dest: add_snsd_run(2))
  assume "fold_res (add_snsd mps mt) t rs = Ok t'"
  then show "table_within mps mt t' \<and> (\<forall>s. bucket s t' = bucket s t @ filter (\<lambda>r. sr_service r = s) rs)"
    using assms
  proof (induction rs arbitrary: t)
    case (Cons r rs)
    obtain t1 where t1: "add_snsd mps mt t r = Ok t1" "fold_res (add_snsd mps mt) t1 rs = Ok t'" using Cons.prems(1) by (auto simp: res_simps)
    then show ?case using add_snsd_run(2) [OF Cons.prems(2) t1(1)] Cons.IH [OF t1(2)] by simp
  qed simp
qed

lemma first_table: "table_within mps mt \<lparr>sn_by_service = [(ZERO_SERVICE, [zero_record a p w])], sn_total = 1\<rparr>"
  by (simp add: table_within_def wf_table_def bt_wf_def bucket_def zero_record_def)

lemma build_snsd_run:
  shows "build_snsd mps mt q \<noteq> Panic"
    and "build_snsd mps mt q = Ok t \<Longrightarrow> table_within mps mt t"
    and "build_snsd mps mt q = Ok t \<Longrightarrow> bucket s t =
       (if s = ZERO_SERVICE then [zero_record (rr_owner_naddr q) (rr_zero_priority q) (rr_zero_weight q)] else []) @
       filter (\<lambda>r. sr_service r = s) (rr_snsd_records q)"
proof -
  let ?t = "\<lparr>sn_by_service = [(ZERO_SERVICE, [zero_record (rr_owner_naddr q) (rr_zero_priority q) (rr_zero_weight q)])], sn_total = 1\<rparr>"
  have b: "build_snsd mps mt q = fold_res (add_snsd mps mt) ?t (rr_snsd_records q)" by (simp add: build_snsd_def set_zero_record_new)
  note add = add_all_snsd [OF first_table, of mps mt _ _ _ "rr_snsd_records q"]
  show "build_snsd mps mt q \<noteq> Panic" unfolding b by (rule add(1))
  show "build_snsd mps mt q = Ok t \<Longrightarrow> table_within mps mt t" unfolding b using add(2) by blast
  show "build_snsd mps mt q = Ok t \<Longrightarrow> bucket s t =
       (if s = ZERO_SERVICE then [zero_record (rr_owner_naddr q) (rr_zero_priority q) (rr_zero_weight q)] else []) @
       filter (\<lambda>r. sr_service r = s) (rr_snsd_records q)"
    unfolding b using add(2) by (auto simp: bucket_def)
qed

subsection \<open>One registration\<close>

lemma bt_modify_insert: "bt_wf m \<Longrightarrow> map_of m k = Some v \<Longrightarrow> bt_modify k f m = bt_insert k (f v) m"
proof (induction m)
  case (Cons x m)
  obtain k' v' where x: "x = (k', v')" by (cases x)
  have wf: "bt_wf m" "\<forall>y \<in> set m. k' < fst y" using Cons.prems(1) by (auto simp: bt_wf_def x)
  show ?case
  proof (cases "k' = k")
    case True
    have "bt_modify k f m = m" using wf(2) True by (auto simp: bt_modify_def intro!: map_idI)
    then show ?thesis using Cons.prems True by (simp add: x bt_modify_def)
  next
    case False
    then have m: "map_of m k = Some v" using Cons.prems(2) by (simp add: x)
    then have "(k, v) \<in> set m" by (rule map_of_SomeD)
    then have "k' < k" using wf(2) by auto
    then show ?thesis using Cons.IH [OF wf(1) m] False by (simp add: x bt_modify_def)
  qed
qed simp

lemma check_request_not_Panic: "check_request v q now \<noteq> Panic"
  by (simp add: check_request_def)

lemma check_slot_not_Panic: "check_slot records q now m \<noteq> Panic"
  by (auto simp: check_slot_def is_fresh_slot_def Let_def res_simps split: option.splits)

text \<open>What an accepted registration leaves behind.\<close>

lemma cache_register_accepted:
  assumes "cache_register v q now ttl mri mps mt mh records = (Ok out, records')" "bt_wf records"
  shows "check_request v q now = Ok ()" "check_slot records q now mri = Ok ()"
    "map_of records (rr_hostname q) = None \<Longrightarrow> length records < mh" "unat now + unat ttl < 2 ^ 64"
    "\<exists>snsd. build_snsd mps mt q = Ok snsd \<and> records' = bt_insert (rr_hostname q)
       \<lparr>hr_owner_key = rr_owner_key q, hr_sequence = rr_sequence q,
        hr_registered_at = (if is_fresh_slot records q now then now else hr_registered_at (the (map_of records (rr_hostname q)))),
        hr_renewed_at = now, hr_expires_at = now + ttl, hr_snsd = snsd\<rparr> records \<and>
       out = (if is_fresh_slot records q now then Registered (now + ttl) else Renewed (now + ttl))"
proof -
  obtain snsd where all: "check_request v q now = Ok ()" "\<not> (map_of records (rr_hostname q) = None \<and> mh \<le> length records)"
    "check_slot records q now mri = Ok ()" "build_snsd mps mt q = Ok snsd" "unat now + unat ttl < 2 ^ 64"
    "apply_registration q now (now + ttl) snsd (is_fresh_slot records q now) records = (out, records')"
    using assms(1) by (auto simp: cache_register_def res_simps checked_add64_def split: res.splits if_splits prod.splits)
  show "check_request v q now = Ok ()" "check_slot records q now mri = Ok ()" "unat now + unat ttl < 2 ^ 64"
    "map_of records (rr_hostname q) = None \<Longrightarrow> length records < mh" using all by auto
  let ?h = "rr_hostname q"
  show "\<exists>snsd. build_snsd mps mt q = Ok snsd \<and> records' = bt_insert (rr_hostname q)
       \<lparr>hr_owner_key = rr_owner_key q, hr_sequence = rr_sequence q,
        hr_registered_at = (if is_fresh_slot records q now then now else hr_registered_at (the (map_of records (rr_hostname q)))),
        hr_renewed_at = now, hr_expires_at = now + ttl, hr_snsd = snsd\<rparr> records \<and>
       out = (if is_fresh_slot records q now then Registered (now + ttl) else Renewed (now + ttl))"
  proof (cases "is_fresh_slot records q now")
    case True
    then show ?thesis using all by (auto simp: apply_registration_def)
  next
    case False
    then obtain r where r: "map_of records ?h = Some r" "hr_owner_key r = rr_owner_key q" by (auto simp: is_fresh_slot_def split: option.splits)
    let ?f = "\<lambda>r. r\<lparr>hr_sequence := rr_sequence q, hr_renewed_at := now, hr_expires_at := now + ttl, hr_snsd := snsd\<rparr>"
    have "bt_modify ?h ?f records = bt_insert ?h (?f r) records" using assms(2) r(1) by (rule bt_modify_insert)
    moreover have "?f r = \<lparr>hr_owner_key = rr_owner_key q, hr_sequence = rr_sequence q, hr_registered_at = hr_registered_at r,
        hr_renewed_at = now, hr_expires_at = now + ttl, hr_snsd = snsd\<rparr>" using r(2) by (cases r) simp
    ultimately show ?thesis using all False r by (auto simp: apply_registration_def)
  qed
qed

subsection \<open>Reclaiming expired names\<close>

lemma bt_remove_all:
  "bt_wf m \<Longrightarrow> bt_wf (fold bt_remove ks m)" "map_of (fold bt_remove ks m) k = (if k \<in> set ks then None else map_of m k)"
  "length (fold bt_remove ks m) \<le> length m"
proof (induction ks arbitrary: m)
  case (Cons k' ks)
  { case 1 then show ?case using Cons.IH(1) by (simp add: bt.wf_remove) }
  { case 2 then show ?case using Cons.IH(2) by (simp add: bt_get_remove) }
  { case 3
    have "length (bt_remove k' m) \<le> length m" by (simp add: bt_remove_def)
    then show ?case using Cons.IH(3) [of "bt_remove k' m"] by simp }
qed simp_all

lemma purge_records:
  assumes "bt_wf records"
  shows "map_of (snd (cache_purge_expired now records)) h =
     (case map_of records h of None \<Rightarrow> None | Some r \<Rightarrow> if is_expired r now then None else Some r)"
    "bt_wf (snd (cache_purge_expired now records))" "length (snd (cache_purge_expired now records)) \<le> length records"
proof -
  have "h \<in> fst ` {x \<in> set records. case x of (_, r) \<Rightarrow> is_expired r now} \<longleftrightarrow> (\<exists>r. map_of records h = Some r \<and> is_expired r now)"
    using assms by (force simp: bt.entry_iff_get [symmetric])
  then show "map_of (snd (cache_purge_expired now records)) h =
     (case map_of records h of None \<Rightarrow> None | Some r \<Rightarrow> if is_expired r now then None else Some r)"
    by (auto simp: cache_purge_expired_def bt_remove_all(2) Let_def split: option.splits)
  show "bt_wf (snd (cache_purge_expired now records))" "length (snd (cache_purge_expired now records)) \<le> length records"
    using assms by (simp_all add: cache_purge_expired_def bt_remove_all Let_def)
qed

subsection \<open>Counting reservations\<close>

lemma live_count_antimono: "t \<le> t' \<Longrightarrow> live_count t' e \<le> live_count t e"
  unfolding live_count_def by (induction e) auto

lemma live_count_insert:
  assumes "bt_wf e"
  shows "live_count t (bt_insert h x e) + (case map_of e h of Some y \<Rightarrow> if t < y then 1 else 0 | None \<Rightarrow> 0) =
     live_count t e + (if t < x then 1 else 0)"
  using sum_bt_insert [OF assms, of "\<lambda>y. if t < y then 1 else 0" h x]
proof -
  have "live_count t m = sum_list (map (\<lambda>(_, y). if t < y then 1 else 0) m)" for m
    unfolding live_count_def by (induction m) auto
  then show ?thesis using sum_bt_insert [OF assms, of "\<lambda>y. if t < y then 1 else 0" h x] by (simp split: option.splits)
qed

lemma live_count_filter: "t \<le> t' \<Longrightarrow> live_count t' (filter (\<lambda>(_, y). t < y) e) = live_count t' e"
  unfolding live_count_def by (induction e) auto

lemma bt_wf_filter: "bt_wf m \<Longrightarrow> bt_wf (filter P m)"
  unfolding bt_wf_def by (induction m) auto

subsection \<open>The invariant\<close>

definition record_ok :: "andna_config \<Rightarrow> u64 \<Rightarrow> hosted_record \<Rightarrow> bool" where
  "record_ok c t r \<longleftrightarrow> hr_renewed_at r \<le> t \<and> unat (hr_expires_at r) = unat (hr_renewed_at r) + unat (name_ttl c) \<and>
     table_within (max_snsd_records_per_service c) (max_snsd_records_total c) (hr_snsd r)"

definition names_ok :: "andna_config \<Rightarrow> u64 \<Rightarrow> name_cache \<Rightarrow> bool" where
  "names_ok c t records \<longleftrightarrow> bt_wf records \<and> length records \<le> max_hosted_records c \<and>
     (\<forall>h r. map_of records h = Some r \<longrightarrow> record_ok c t r)"

definition counters_ok :: "andna_config \<Rightarrow> u64 \<Rightarrow> counter_cache \<Rightarrow> bool" where
  "counters_ok c t counters \<longleftrightarrow> bt_wf counters \<and> length counters \<le> max_counter_registrants c \<and>
     (\<forall>(k, e) \<in> set counters. bt_wf e \<and> live_count t e \<le> max_hostnames_per_registrant c)"

definition andna_inv :: "u64 \<Rightarrow> andna_state \<Rightarrow> bool" where
  "andna_inv t s \<longleftrightarrow> names_ok (az_config s) t (az_cache s) \<and> counters_ok (az_config s) t (az_counters s) \<and>
     as_hosted (az_snapshot s) = az_cache s"

lemma length_bt_insert: "bt_wf m \<Longrightarrow> length (bt_insert k v m) = (if map_of m k = None then length m + 1 else length m)"
proof -
  assume "bt_wf m"
  moreover have "sum_list (map (\<lambda>(_, v). Suc 0) m) = length m" for m :: "('a \<times> 'b) list" by (induction m) auto
  ultimately show ?thesis using sum_bt_insert [of m "\<lambda>_. Suc 0" k v] by (simp split: option.splits)
qed

lemma record_ok_mono: "record_ok c t r \<Longrightarrow> t \<le> t' \<Longrightarrow> record_ok c t' r"
  by (auto simp: record_ok_def)

lemma names_ok_mono: "names_ok c t m \<Longrightarrow> t \<le> t' \<Longrightarrow> names_ok c t' m"
  using record_ok_mono by (fastforce simp: names_ok_def)

lemma counters_ok_mono: "counters_ok c t m \<Longrightarrow> t \<le> t' \<Longrightarrow> counters_ok c t' m"
  using live_count_antimono [of t t'] by (fastforce simp: counters_ok_def intro: order_trans)

lemma register_names_ok:
  assumes "names_ok c now records" "cache_register v q now (name_ttl c) mri (max_snsd_records_per_service c) (max_snsd_records_total c)
      (max_hosted_records c) records = (Ok out, records')"
  shows "names_ok c now records'"
proof -
  have wf: "bt_wf records" using assms(1) by (simp add: names_ok_def)
  note acc = cache_register_accepted [OF assms(2) wf]
  obtain snsd r where r: "build_snsd (max_snsd_records_per_service c) (max_snsd_records_total c) q = Ok snsd"
    "records' = bt_insert (rr_hostname q) r records" "hr_renewed_at r = now" "hr_expires_at r = now + name_ttl c" "hr_snsd r = snsd"
    using acc(5) by auto
  have "record_ok c now r" using r acc(4) build_snsd_run(2) [OF r(1)] by (simp add: record_ok_def unat_word_ariths)
  moreover have "length records' \<le> max_hosted_records c"
    using acc(3) assms(1) wf by (auto simp: r(2) length_bt_insert names_ok_def)
  ultimately show ?thesis using assms(1) wf by (auto simp: names_ok_def r(2) bt.wf_insert bt.get_insert)
qed

lemma reserve_counters_ok:
  assumes "counters_ok c now m"
  shows "counters_ok c now (snd (try_reserve k h now (name_ttl c) (max_hostnames_per_registrant c) (max_counter_registrants c) m))"
proof (cases "map_of m k = None \<and> max_counter_registrants c \<le> length m")
  case False
  let ?cap = "max_hostnames_per_registrant c"
  define entry where "entry = (case map_of m k of None \<Rightarrow> [] | Some e \<Rightarrow> e)"
  have wf: "bt_wf m" and all: "\<forall>(k, e) \<in> set m. bt_wf e \<and> live_count now e \<le> ?cap" using assms by (simp_all add: counters_ok_def)
  have e: "bt_wf entry" "live_count now entry \<le> ?cap"
    using bt_entries_get [OF all] by (auto simp: entry_def bt_wf_def live_count_def split: option.splits)
  have put: "counters_ok c now (bt_insert k e' m)" if "bt_wf e'" "live_count now e' \<le> ?cap" for e'
    using that assms False wf all by (auto simp: counters_ok_def bt.wf_insert bt.entries_insert length_bt_insert)
  define live where "live \<longleftrightarrow> (case map_of entry h of None \<Rightarrow> False | Some expiry \<Rightarrow> now < expiry)"
  show ?thesis
  proof (cases "\<not> live \<and> ?cap \<le> live_count now entry \<or> \<not> unat now + unat (name_ttl c) < 2 ^ 64")
    case True
    then show ?thesis using False put [OF e] by (auto simp: try_reserve_def Let_def checked_add64_def entry_def [symmetric] live_def [symmetric])
  next
    case ok: False
    let ?e = "bt_insert h (now + name_ttl c) entry"
    have "live_count now ?e \<le> ?cap"
      using live_count_insert [OF e(1), of now h "now + name_ttl c"] e(2) ok by (auto simp: live_def split: option.splits if_splits)
    then have "counters_ok c now (bt_insert k ?e m)" using e(1) by (simp add: put bt.wf_insert)
    then show ?thesis
      using False ok by (auto simp: try_reserve_def Let_def checked_add64_def entry_def [symmetric] live_def [symmetric] bt_insert_twice)
  qed
qed (use assms in \<open>simp add: try_reserve_def\<close>)

lemma purge_counters_ok:
  assumes "counters_ok c now m"
  shows "counters_ok c now (counter_purge_expired now m)"
proof -
  let ?f = "\<lambda>(k, e). (k, filter (\<lambda>(_, expiry). now < expiry) e)"
  have "map fst (map ?f m) = map fst m" by (induction m) auto
  then have wf: "bt_wf (map ?f m)" using assms by (simp only: counters_ok_def bt_wf_def)
  have "length (counter_purge_expired now m) \<le> length m"
    unfolding counter_purge_expired_def using length_filter_le [of "\<lambda>(_, e). e \<noteq> []" "map ?f m"] by simp
  then have "length (counter_purge_expired now m) \<le> max_counter_registrants c" using assms by (simp add: counters_ok_def)
  moreover have "\<forall>(k, e) \<in> set (counter_purge_expired now m). bt_wf e \<and> live_count now e \<le> max_hostnames_per_registrant c"
    using assms by (auto simp: counters_ok_def counter_purge_expired_def bt_wf_filter live_count_filter)
  ultimately show ?thesis using bt_wf_filter [OF wf] by (simp add: counters_ok_def counter_purge_expired_def)
qed

subsection \<open>Every command keeps the invariant\<close>

lemma cache_register_refused: "cache_register v q now ttl mri mps mt mh records = (Err e, records') \<Longrightarrow> records' = records"
  "cache_register v q now ttl mri mps mt mh records = (Panic, records') \<Longrightarrow> records' = records"
  by (auto simp: cache_register_def split: res.splits prod.splits)

lemma announce_name_same: "az_cache (announce_name h out s) = az_cache s" "az_counters (announce_name h out s) = az_counters s"
  "az_config (announce_name h out s) = az_config s"
  by (simp_all add: announce_name_def Let_def split: option.splits)

lemma handle_config: "az_config (snd (andna_handle v rng c s)) = az_config s"
  by (cases c) (auto simp: announce_name_same publish_names_def split: prod.splits res.splits)

lemma andna_handle_inv:
  assumes "andna_inv t s" "t \<le> cmd_time c"
  shows "andna_inv (cmd_time c) (snd (andna_handle v rng c s))"
proof (cases c)
  case (Register q now)
  let ?c = "az_config s"
  have inv: "names_ok ?c now (az_cache s)" "counters_ok ?c now (az_counters s)" "as_hosted (az_snapshot s) = az_cache s"
    using assms names_ok_mono counters_ok_mono by (auto simp: andna_inv_def Register)
  obtain res records where reg: "cache_register v q now (name_ttl ?c) (min_renewal_interval ?c) (max_snsd_records_per_service ?c)
      (max_snsd_records_total ?c) (max_hosted_records ?c) (az_cache s) = (res, records)" by fastforce
  show ?thesis
  proof (cases res)
    case (Ok out)
    have wf: "bt_wf (az_cache s)" using inv(1) by (simp add: names_ok_def)
    obtain r where r: "records = bt_insert (rr_hostname q) r (az_cache s)"
      using cache_register_accepted(5) [OF reg [unfolded Ok] wf] by blast
    have "map_of records (rr_hostname q) = Some r" using wf by (simp add: r bt.get_insert)
    then have "as_hosted (az_snapshot (announce_name (rr_hostname q) out (s\<lparr>az_cache := records\<rparr>))) = records"
      using inv(3) by (simp add: announce_name_def r)
    then show ?thesis using Register reg Ok inv register_names_ok [OF inv(1) reg [unfolded Ok]]
      by (simp add: andna_inv_def announce_name_same)
  next
    case (Err e)
    then show ?thesis using Register reg inv cache_register_refused(1) [OF reg [unfolded Err]] by (simp add: andna_inv_def)
  next
    case Panic
    then show ?thesis using Register reg inv cache_register_refused(2) [OF reg [unfolded Panic]] by (simp add: andna_inv_def)
  qed
next
  case (Resolve h sv now)
  then show ?thesis using assms names_ok_mono counters_ok_mono by (auto simp: andna_inv_def)
next
  case (CounterReserve k h now)
  have inv: "names_ok (az_config s) now (az_cache s)" "counters_ok (az_config s) now (az_counters s)" "as_hosted (az_snapshot s) = az_cache s"
    using assms names_ok_mono counters_ok_mono by (auto simp: andna_inv_def CounterReserve)
  then show ?thesis using reserve_counters_ok [OF inv(2), of k h] CounterReserve by (auto simp: andna_inv_def split: prod.splits res.splits)
next
  case (PurgeExpired now)
  have inv: "names_ok (az_config s) now (az_cache s)" "counters_ok (az_config s) now (az_counters s)"
    using assms names_ok_mono counters_ok_mono by (auto simp: andna_inv_def PurgeExpired)
  have wf: "bt_wf (az_cache s)" using inv(1) by (simp add: names_ok_def)
  have "names_ok (az_config s) now (snd (cache_purge_expired now (az_cache s)))"
    using inv(1) purge_records [OF wf, of now] by (auto simp: names_ok_def split: option.splits if_splits)
  then show ?thesis using purge_counters_ok [OF inv(2)] PurgeExpired
    by (simp add: andna_inv_def publish_names_def case_prod_beta)
qed

lemma andna_steps_inv: "andna_steps v x y \<Longrightarrow> andna_inv (fst x) (snd x) \<Longrightarrow> andna_inv (fst y) (snd y)"
proof (induction rule: andna_steps.induct)
  case (serve x t s c rng r s')
  then show ?case using andna_handle_inv [of t s c v rng] by simp
qed

lemma andna_new_inv: "andna_inv 0 (andna_new config)"
  by (simp add: andna_inv_def names_ok_def counters_ok_def andna_new_def bt_wf_def)

lemma andna_steps_time: "andna_steps v x y \<Longrightarrow> fst x \<le> fst y"
  by (induction rule: andna_steps.induct) auto

lemma andna_steps_config: "andna_steps v x y \<Longrightarrow> az_config (snd y) = az_config (snd x)"
proof (induction rule: andna_steps.induct)
  case (serve x t s c rng r s')
  then show ?case using handle_config [of v rng c s] by simp
qed simp

lemma andna_run_inv: "andna_run v config (t, s) \<Longrightarrow> andna_inv t s" "andna_run v config (t, s) \<Longrightarrow> az_config s = config"
  using andna_steps_inv [of v "(0, andna_new config)" "(t, s)"] andna_new_inv andna_steps_config [of v "(0, andna_new config)" "(t, s)"]
  by (simp_all add: andna_new_def)

subsection \<open>A live name stays with its owner\<close>

text \<open>How a record may change while it is live.\<close>

definition kept :: "hosted_record \<Rightarrow> hosted_record \<Rightarrow> bool" where
  "kept r r' \<longleftrightarrow> hr_owner_key r' = hr_owner_key r \<and> hr_registered_at r' = hr_registered_at r \<and> hr_sequence r \<le> hr_sequence r' \<and>
     hr_expires_at r \<le> hr_expires_at r' \<and> (hr_sequence r' = hr_sequence r \<longrightarrow> r' = r)"

lemma kept_refl: "kept r r" by (simp add: kept_def)

lemma kept_trans: "kept r r' \<Longrightarrow> kept r' r'' \<Longrightarrow> kept r r''" by (auto simp: kept_def)

lemma register_keeps:
  assumes "names_ok c now records" "map_of records h = Some r" "\<not> is_expired r now"
    "cache_register v q now (name_ttl c) mri mps mt mh records = (Ok out, records')"
  shows "\<exists>r'. map_of records' h = Some r' \<and> kept r r' \<and> (r' = r \<or> rr_hostname q = h \<and> hr_sequence r < hr_sequence r')"
proof -
  have wf: "bt_wf records" and rok: "record_ok c now r" using assms(1,2) by (auto simp: names_ok_def)
  note acc = cache_register_accepted [OF assms(4) wf]
  show ?thesis
  proof (cases "rr_hostname q = h")
    case False
    then show ?thesis using acc(5) wf assms(2) kept_refl by (auto simp: bt.get_insert)
  next
    case True
    have own: "hr_owner_key r = rr_owner_key q" using acc(2) True assms(2,3) by (auto simp: check_slot_def is_fresh_slot_def split: if_splits)
    then have fresh: "\<not> is_fresh_slot records q now" using True assms(2,3) by (simp add: is_fresh_slot_def)
    then have seq: "hr_sequence r < rr_sequence q" using acc(2) True assms(2) by (auto simp: check_slot_def Let_def split: if_splits)
    obtain r' where r': "records' = bt_insert (rr_hostname q) r' records" "hr_owner_key r' = rr_owner_key q" "hr_sequence r' = rr_sequence q"
      "hr_registered_at r' = hr_registered_at r" "hr_expires_at r' = now + name_ttl c"
      using acc(5) fresh True assms(2) by auto
    have "hr_expires_at r \<le> now + name_ttl c"
      using rok acc(4) by (simp add: record_ok_def word_le_nat_alt unat_word_ariths)
    then have "kept r r'" using r' own seq by (simp add: kept_def)
    then show ?thesis using r' wf True seq by (auto simp: bt.get_insert)
  qed
qed

lemma handle_keeps:
  assumes "andna_inv t s" "t \<le> cmd_time c" "map_of (az_cache s) h = Some r" "\<not> is_expired r (cmd_time c)"
  shows "\<exists>r'. map_of (az_cache (snd (andna_handle v rng c s))) h = Some r' \<and> kept r r'"
proof (cases c)
  case (Register q now)
  let ?c = "az_config s"
  have ok: "names_ok ?c now (az_cache s)" using assms names_ok_mono by (auto simp: andna_inv_def Register)
  obtain res records where reg: "cache_register v q now (name_ttl ?c) (min_renewal_interval ?c) (max_snsd_records_per_service ?c)
      (max_snsd_records_total ?c) (max_hosted_records ?c) (az_cache s) = (res, records)" by fastforce
  show ?thesis
  proof (cases res)
    case (Ok out)
    obtain r' where "map_of records h = Some r'" "kept r r'"
      using register_keeps [OF ok assms(3) _ reg [unfolded Ok]] assms(4) Register by auto
    then show ?thesis using Register reg Ok by (simp add: announce_name_same)
  next
    case (Err e)
    then show ?thesis using Register reg cache_register_refused(1) [OF reg [unfolded Err]] assms(3) kept_refl by auto
  next
    case Panic
    then show ?thesis using Register reg cache_register_refused(2) [OF reg [unfolded Panic]] assms(3) kept_refl by auto
  qed
next
  case (Resolve h' sv now)
  then show ?thesis using assms(3) kept_refl by auto
next
  case (CounterReserve k h' now)
  then show ?thesis using assms(3) kept_refl by (auto split: prod.splits res.splits)
next
  case (PurgeExpired now)
  have "bt_wf (az_cache s)" using assms(1) by (simp add: andna_inv_def names_ok_def)
  then show ?thesis using purge_records(1) [of "az_cache s" now h] PurgeExpired assms(3,4) kept_refl
    by (auto simp: publish_names_def case_prod_beta)
qed

lemma steps_keep:
  assumes "andna_steps v x y"
  shows "andna_inv (fst x) (snd x) \<Longrightarrow> map_of (az_cache (snd x)) h = Some r \<Longrightarrow> fst y < hr_expires_at r \<Longrightarrow>
     \<exists>r'. map_of (az_cache (snd y)) h = Some r' \<and> kept r r'"
  using assms
proof (induction rule: andna_steps.induct)
  case (stay x)
  then show ?case using kept_refl by auto
next
  case (serve x t s c rng r0 s')
  have inv: "andna_inv t s" using andna_steps_inv [OF serve.hyps(1) serve.prems(1)] by simp
  have "t < hr_expires_at r" using serve.hyps(2) serve.prems(3) by simp
  then obtain r1 where r1: "map_of (az_cache s) h = Some r1" "kept r r1" using serve.IH serve.prems by auto
  have "\<not> is_expired r1 (cmd_time c)" using r1(2) serve.prems(3) by (auto simp: is_expired_def kept_def)
  then obtain r2 where "map_of (az_cache s') h = Some r2" "kept r1 r2"
    using handle_keeps [OF inv serve.hyps(2) r1(1), of v rng] serve.hyps(3) by auto
  then show ?case using r1(2) kept_trans by auto
qed

end
