(* ===== verification/Andna_Guarantees.thy ===== *)
theory Andna_Guarantees
  imports Andna_Laws
begin

section \<open>The name service over a run\<close>

text \<open>
  What holds of the actor in every run: live names stay with their owner, a request is accepted once, the
  store stays within its configured bounds, and a resolution answers with what was registered.
\<close>

subsection \<open>A registration and what follows\<close>

text \<open>A concrete request, its signature accepted by a verifier that accepts everything.\<close>

definition sample_naddr :: naddr where
  "sample_naddr = \<lparr>naddr_topology = \<lparr>gsizes = [4, 4]\<rparr>, naddr_pos = [1, 2]\<rparr>"

definition sample_request :: register_request where
  "sample_request = \<lparr>rr_hostname = ''node'', rr_owner_key = replicate 32 7, rr_owner_naddr = sample_naddr, rr_sequence = 1, rr_timestamp_unix = 1000,
     rr_zero_priority = 0, rr_zero_weight = 1,
     rr_snsd_records = [\<lparr>sr_service = 80, sr_priority = 2, sr_weight = 3, sr_target = Alias ''web''\<rparr>], rr_signature = replicate 64 9\<rparr>"

definition sample_after :: andna_state where
  "sample_after = snd (andna_handle (\<lambda>_ _ _. True) (\<lambda>_ _. 1) (Register sample_request 1000) (andna_new andna_config_default))"

lemmas sample_simps = sample_request_def sample_naddr_def andna_new_def andna_config_default_def

lemma sample_checks: "check_request (\<lambda>_ _ _. True) sample_request 1000 = Ok ()"
  "check_slot [] sample_request 1000 m = Ok ()" "is_fresh_slot [] sample_request 1000"
  by (simp_all add: check_request_def check_slot_def is_fresh_slot_def register_verify_def sample_simps ZERO_SERVICE_def MAX_WEIGHT_def
      MAX_TIMESTAMP_SKEW_SECS_def abs_diff64_def)

definition sample_table :: snsd_table where
  "sample_table = \<lparr>sn_by_service = [(0, [zero_record sample_naddr 0 1]), (80, rr_snsd_records sample_request)], sn_total = 2\<rparr>"

lemma sample_built: "build_snsd 16 256 sample_request = Ok sample_table"
  by (simp add: build_snsd_def set_zero_record_new add_snsd_def snsd_insert_def sample_table_def sample_request_def bucket_def ZERO_SERVICE_def Let_def)

definition sample_record :: hosted_record where
  "sample_record = \<lparr>hr_owner_key = replicate 32 7, hr_sequence = 1, hr_registered_at = 1000, hr_renewed_at = 1000, hr_expires_at = 2593000, hr_snsd = sample_table\<rparr>"

lemma sample_cached: "cache_register (\<lambda>_ _ _. True) sample_request 1000 2592000 m 16 256 65536 [] =
  (Ok (Registered 2593000), [(''node'', sample_record)])"
  by (simp add: cache_register_def sample_checks sample_built checked_add64_def apply_registration_def sample_record_def)
    (simp add: sample_request_def)

lemma sample_registered:
  "andna_handle (\<lambda>_ _ _. True) (\<lambda>_ _. 1) (Register sample_request 1000) (andna_new andna_config_default) =
     (Ok (RegisterReply (Inr (Registered 2593000))), sample_after)"
  "az_cache sample_after = [(''node'', sample_record)]"
  by (simp_all add: sample_after_def andna_new_def andna_config_default_def sample_cached announce_name_same)

lemma sample_stored: "map_option hr_sequence (map_of (az_cache sample_after) ''node'') = Some 1"
  "map_option hr_expires_at (map_of (az_cache sample_after) ''node'') = Some 2593000"
  by (simp_all add: sample_registered(2) sample_record_def)

lemmas sample_run = andna_steps.stay [of "\<lambda>_ _ _. True" "(0, andna_new andna_config_default)"]

lemma handle_register_accepted:
  assumes "names_ok (az_config s) now (az_cache s)" "andna_handle v rng (Register q now) s = (Ok (RegisterReply (Inr out)), s1)"
  shows "check_request v q now = Ok ()" "unat now + unat (name_ttl (az_config s)) < 2 ^ 64"
    "\<exists>r. map_of (az_cache s1) (rr_hostname q) = Some r \<and> hr_owner_key r = rr_owner_key q \<and> hr_sequence r = rr_sequence q \<and>
       hr_expires_at r = now + name_ttl (az_config s) \<and>
       build_snsd (max_snsd_records_per_service (az_config s)) (max_snsd_records_total (az_config s)) q = Ok (hr_snsd r)"
proof -
  let ?c = "az_config s"
  have wf: "bt_wf (az_cache s)" using assms(1) by (simp add: names_ok_def)
  obtain res records where reg: "cache_register v q now (name_ttl ?c) (min_renewal_interval ?c) (max_snsd_records_per_service ?c)
      (max_snsd_records_total ?c) (max_hosted_records ?c) (az_cache s) = (res, records)" by fastforce
  have ok: "res = Ok out" and cache: "az_cache s1 = records"
    using assms(2) reg by (auto simp: announce_name_same split: res.splits)
  note acc = cache_register_accepted [OF reg [unfolded ok] wf]
  show "check_request v q now = Ok ()" "unat now + unat (name_ttl ?c) < 2 ^ 64" by (fact acc)+
  show "\<exists>r. map_of (az_cache s1) (rr_hostname q) = Some r \<and> hr_owner_key r = rr_owner_key q \<and> hr_sequence r = rr_sequence q \<and>
       hr_expires_at r = now + name_ttl ?c \<and>
       build_snsd (max_snsd_records_per_service ?c) (max_snsd_records_total ?c) q = Ok (hr_snsd r)"
    using acc(5) wf by (auto simp: cache bt.get_insert)
qed

text \<open>A run continued by a command and then by any others.\<close>

lemma run_after:
  assumes "andna_run v config (t, s)" "t \<le> cmd_time c" "andna_handle v rng c s = (r, s1)"
  shows "andna_run v config (cmd_time c, s1)" "names_ok (az_config s) (cmd_time c) (az_cache s)" "az_config s = config"
proof -
  show "andna_run v config (cmd_time c, s1)" using andna_steps.serve [OF assms] .
  show "names_ok (az_config s) (cmd_time c) (az_cache s)" using andna_run_inv(1) [OF assms(1)] assms(2) names_ok_mono by (auto simp: andna_inv_def)
  show "az_config s = config" by (rule andna_run_inv(2) [OF assms(1)])
qed

lemma registered_record:
  assumes "andna_run v config (t, s)" "t \<le> now" "andna_handle v rng (Register q now) s = (Ok (RegisterReply (Inr out)), s1)"
    "andna_steps v (now, s1) (t', s')" "unat t' < unat now + unat (name_ttl config)"
  shows "\<exists>r r'. build_snsd (max_snsd_records_per_service config) (max_snsd_records_total config) q = Ok (hr_snsd r) \<and>
     map_of (az_cache s') (rr_hostname q) = Some r' \<and> kept r r' \<and> hr_owner_key r = rr_owner_key q \<and> hr_sequence r = rr_sequence q \<and>
     unat (hr_expires_at r) = unat now + unat (name_ttl config)"
proof -
  note after = run_after [OF assms(1) _ assms(3), simplified, OF assms(2)]
  note acc = handle_register_accepted [OF after(2) assms(3), unfolded after(3)]
  obtain r where r: "map_of (az_cache s1) (rr_hostname q) = Some r" "hr_owner_key r = rr_owner_key q" "hr_sequence r = rr_sequence q"
    "hr_expires_at r = now + name_ttl config"
    "build_snsd (max_snsd_records_per_service config) (max_snsd_records_total config) q = Ok (hr_snsd r)" using acc(3) by blast
  have e: "unat (hr_expires_at r) = unat now + unat (name_ttl config)" using acc(2) by (simp add: r(4) unat_word_ariths)
  then have "t' < hr_expires_at r" using assms(5) by (simp add: word_less_nat_alt)
  then obtain r' where "map_of (az_cache s') (rr_hostname q) = Some r'" "kept r r'"
    using steps_keep [OF assms(4), of "rr_hostname q" r] r(1) andna_run_inv(1) [OF after(1)] by auto
  then show ?thesis using r e by blast
qed

subsection \<open>Replays are refused\<close>

lemma abs_diff64_unat: "unat (abs_diff64 a b) = (if unat a \<le> unat b then unat b - unat a else unat a - unat b)"
  by (simp add: abs_diff64_def word_le_nat_alt unat_sub)

lemma request_in_window: "check_request v q now = Ok () \<Longrightarrow> unat now \<le> unat (rr_timestamp_unix q) + 3600 \<and> unat (rr_timestamp_unix q) \<le> unat now + 3600"
  by (auto simp: check_request_def MAX_TIMESTAMP_SKEW_SECS_def word_less_nat_alt abs_diff64_unat split: if_splits)

lemma stale_sequence_refused:
  assumes "map_of records (rr_hostname q) = Some r" "\<not> is_expired r now" "hr_owner_key r = rr_owner_key q" "rr_sequence q \<le> hr_sequence r"
  shows "\<exists>e. cache_register v q now ttl mri mps mt mh records = (Err e, records)"
proof -
  have "check_slot records q now mri = Err (StaleSequence (rr_sequence q) (hr_sequence r))"
    using assms by (simp add: check_slot_def is_fresh_slot_def)
  then show ?thesis using check_request_not_Panic [of v q now] assms(1) by (cases "check_request v q now") (simp_all add: cache_register_def)
qed

text \<open>C20: A registration request that was accepted once is refused whenever it is presented again, at any later time and after any
  further commands: while the name is live its sequence number is not above the stored one, and once the name
  has expired its timestamp is outside the accepted window. This needs names that live longer than the window.\<close>

theorem request_accepted_once:
  assumes "andna_run v config (t, s)" "t \<le> now" "andna_handle v rng (Register q now) s = (Ok (RegisterReply (Inr out)), s1)"
    "andna_steps v (now, s1) (t', s')" "t' \<le> now'" "7200 < unat (name_ttl config)"
  shows "\<exists>e. andna_handle v rng' (Register q now') s' = (Ok (RegisterReply (Inl e)), s')"
proof -
  note after = run_after [OF assms(1) _ assms(3), simplified, OF assms(2)]
  have le: "unat now \<le> unat t'" "unat t' \<le> unat now'" using andna_steps_time [OF assms(4)] assms(5) by (simp_all add: word_le_nat_alt)
  have "\<exists>e. cache_register v q now' ttl mri mps mt mh (az_cache s') = (Err e, az_cache s')" for ttl mri mps mt mh
  proof (cases "unat now' < unat now + unat (name_ttl config)")
    case True
    then obtain r r' where r: "map_of (az_cache s') (rr_hostname q) = Some r'" "kept r r'" "hr_owner_key r = rr_owner_key q"
      "hr_sequence r = rr_sequence q" "unat (hr_expires_at r) = unat now + unat (name_ttl config)"
      using registered_record [OF assms(1-4)] le by auto
    have "unat now' < unat (hr_expires_at r')" using True r(2,5) by (simp add: kept_def word_le_nat_alt)
    then have "\<not> is_expired r' now'" by (simp add: is_expired_def word_le_nat_alt)
    then show ?thesis using r by (intro stale_sequence_refused [of _ _ r']) (simp_all add: kept_def)
  next
    case False
    have "check_request v q now = Ok ()" by (rule handle_register_accepted(1) [OF after(2) [unfolded cmd_time.simps] assms(3)])
    then have "check_request v q now' \<noteq> Ok ()" using False assms(6) request_in_window [of v q now] request_in_window [of v q now'] by linarith
    then show ?thesis using check_request_not_Panic [of v q now'] by (cases "check_request v q now'") (simp_all add: cache_register_def)
  qed
  then show ?thesis by (metis (no_types, lifting) andna_handle.simps(1) andna_state.surjective andna_state.update_convs(1) case_prod_conv res.simps)
qed

theorem request_accepted_once_witness:
  "\<exists>e. andna_handle (\<lambda>_ _ _. True) (\<lambda>_ _. 1) (Register sample_request 5000000) sample_after = (Ok (RegisterReply (Inl e)), sample_after)"
  by (rule request_accepted_once [OF sample_run _ sample_registered(1) andna_steps.stay]) (simp_all add: andna_config_default_def)

text \<open>C19: In every run a name that is hosted stays hosted until it expires, with the same owner and
  the same time of first registration; its sequence number and its expiry never decrease, and its records
  change only together with a higher sequence number.\<close>

theorem name_kept:
  assumes "andna_run v config (t, s)" "andna_steps v (t, s) (t', s')" "map_of (az_cache s) h = Some r" "t' < hr_expires_at r"
  shows "\<exists>r'. map_of (az_cache s') h = Some r' \<and> hr_owner_key r' = hr_owner_key r \<and> hr_registered_at r' = hr_registered_at r \<and>
     hr_expires_at r \<le> hr_expires_at r' \<and> (r' = r \<or> hr_sequence r < hr_sequence r')"
  using steps_keep [OF assms(2), of h r] andna_run_inv(1) [OF assms(1)] assms(3,4) by (auto simp: kept_def order.strict_iff_order)

theorem name_kept_witness:
  "\<exists>r r'. map_of (az_cache sample_after) ''node'' = Some r \<and> map_of (az_cache sample_after) ''node'' = Some r' \<and>
     hr_owner_key r' = hr_owner_key r \<and> (r' = r \<or> hr_sequence r < hr_sequence r')"
proof -
  obtain r where r: "map_of (az_cache sample_after) ''node'' = Some r" "hr_expires_at r = 2593000" using sample_stored(2) by auto
  have run: "andna_run (\<lambda>_ _ _. True) andna_config_default (1000, sample_after)"
    using andna_steps.serve [OF sample_run _ sample_registered(1)] by simp
  show ?thesis using name_kept [OF run andna_steps.stay r(1)] r by auto
qed

subsection \<open>Resolution\<close>

text \<open>What a request offers for a service: its own records, or else the owner's address.\<close>

definition offered :: "register_request \<Rightarrow> u16 \<Rightarrow> snsd_record list" where
  "offered q service =
     (case filter (\<lambda>r. sr_service r = service) (rr_snsd_records q) of
        [] \<Rightarrow> [zero_record (rr_owner_naddr q) (rr_zero_priority q) (rr_zero_weight q)]
      | rs \<Rightarrow> rs)"

lemma records_for_bucket: "records_for service t = (if bucket service t = [] then bucket ZERO_SERVICE t else bucket service t)"
  by (auto simp: records_for_def bucket_def split: option.splits list.splits)

lemma records_for_offered:
  assumes "build_snsd mps mt q = Ok t" "check_request v q now = Ok ()"
  shows "records_for service t = offered q service"
proof -
  have "\<forall>r \<in> set (rr_snsd_records q). sr_service r \<noteq> ZERO_SERVICE" using assms(2) by (auto simp: check_request_def list_ex_iff split: if_splits)
  then have "filter (\<lambda>r. sr_service r = ZERO_SERVICE) (rr_snsd_records q) = []" by (simp add: filter_empty_conv)
  then show ?thesis using build_snsd_run(3) [OF assms(1)] by (simp add: records_for_bucket offered_def split: list.splits)
qed

text \<open>Until the name expires or is renewed.\<close>

lemma register_resolve:
  assumes "andna_run v config (t, s)" "t \<le> now" "andna_handle v rng (Register q now) s = (Ok (RegisterReply (Inr out)), s1)"
    "andna_steps v (now, s1) (t', s')" "t' \<le> now'" "unat now' < unat now + unat (name_ttl config)"
    "map_option hr_sequence (map_of (az_cache s') (rr_hostname q)) = Some (rr_sequence q)"
    "max 1 (max_snsd_records_per_service config) * 255 < 2 ^ 32"
  shows "\<exists>rs. andna_handle v rng' (Resolve (rr_hostname q) service now') s' = (Ok (ResolveReply rs), s') \<and>
     mset rs = mset (filter (\<lambda>r. 0 < sr_weight r) (offered q service)) \<and> sorted_wrt (\<lambda>a b. sr_priority b \<le> sr_priority a) rs"
proof -
  note after = run_after [OF assms(1) _ assms(3), simplified, OF assms(2)]
  have "unat t' < unat now + unat (name_ttl config)" using assms(5,6) by (simp add: word_le_nat_alt)
  then obtain r r' where r: "build_snsd (max_snsd_records_per_service config) (max_snsd_records_total config) q = Ok (hr_snsd r)"
    "map_of (az_cache s') (rr_hostname q) = Some r'" "kept r r'" "hr_sequence r = rr_sequence q"
    "unat (hr_expires_at r) = unat now + unat (name_ttl config)"
    using registered_record [OF assms(1-4)] by auto
  have same: "r' = r" using r assms(7) by (simp add: kept_def)
  have live: "\<not> is_expired r now'" using r(5) assms(6) by (simp add: is_expired_def word_le_nat_alt)
  have offer: "records_for service (hr_snsd r) = offered q service"
    using records_for_offered [OF r(1) handle_register_accepted(1) [OF after(2) [unfolded cmd_time.simps] assms(3)]] .
  have "length (records_for service (hr_snsd r)) \<le> max 1 (max_snsd_records_per_service config)"
    using build_snsd_run(2) [OF r(1)] by (simp add: records_for_bucket table_within_def)
  then have "length (records_for service (hr_snsd r)) * 255 < 2 ^ 32" using assms(8) by (meson le_less_trans mult_le_mono1)
  then obtain rs where "snsd_resolve rng' service (hr_snsd r) = Ok rs" "mset rs = mset (filter (\<lambda>r. 0 < sr_weight r) (offered q service))"
    "sorted_wrt (\<lambda>a b. sr_priority b \<le> sr_priority a) rs" using snsd_resolve_run [of service "hr_snsd r" rng'] unfolding offer by blast
  then show ?thesis using r(2) live by (simp add: same cache_resolve_def)
qed

subsection \<open>Bounds\<close>

lemma checked_add64_fits: "unat a + unat b < 2 ^ 64 \<Longrightarrow> checked_add64 a b = Ok (a + b)"
  by (simp add: checked_add64_def)

lemma cache_register_not_Panic:
  assumes "unat now + unat ttl < 2 ^ 64"
  shows "fst (cache_register v q now ttl mri mps mt mh records) \<noteq> Panic"
proof -
  let ?r = "res_bind (check_slot records q now mri) (\<lambda>_. res_bind (build_snsd mps mt q) (\<lambda>snsd. Ok (snsd, now + ttl)))"
  have r: "?r \<noteq> Panic" using check_slot_not_Panic [of records q now mri] build_snsd_run(1) [of mps mt q]
    by (cases "check_slot records q now mri"; cases "build_snsd mps mt q") simp_all
  show ?thesis
    using check_request_not_Panic [of v q now] r
    by (cases "check_request v q now"; cases ?r) (auto simp: cache_register_def checked_add64_fits [OF assms] case_prod_beta)
qed

lemma try_reserve_not_Panic: "unat now + unat ttl < 2 ^ 64 \<Longrightarrow> fst (try_reserve k h now ttl cap mr m) \<noteq> Panic"
  by (simp add: try_reserve_def Let_def checked_add64_fits)

lemma cache_resolve_runs:
  assumes "names_ok c t records" "max 1 (max_snsd_records_per_service c) * 255 < 2 ^ 32"
  shows "\<exists>rs. cache_resolve rng h service now records = Ok rs"
proof (cases "map_of records h")
  case (Some r)
  then have "table_within (max_snsd_records_per_service c) (max_snsd_records_total c) (hr_snsd r)"
    using assms(1) by (auto simp: names_ok_def record_ok_def)
  then have "length (records_for service (hr_snsd r)) \<le> max 1 (max_snsd_records_per_service c)"
    by (simp add: records_for_bucket table_within_def)
  then have "length (records_for service (hr_snsd r)) * 255 < 2 ^ 32" using assms(2) by (meson le_less_trans mult_le_mono1)
  then show ?thesis using snsd_resolve_run [of service "hr_snsd r" rng] Some by (auto simp: cache_resolve_def)
qed (simp add: cache_resolve_def)

lemma andna_handle_runs:
  assumes "andna_inv t s" "unat (cmd_time c) + unat (name_ttl (az_config s)) < 2 ^ 64"
    "max 1 (max_snsd_records_per_service (az_config s)) * 255 < 2 ^ 32"
  shows "\<exists>reply s'. andna_handle v rng c s = (Ok reply, s')"
proof (cases c)
  case (Register q now)
  let ?c = "az_config s"
  obtain res records where reg: "cache_register v q now (name_ttl ?c) (min_renewal_interval ?c) (max_snsd_records_per_service ?c)
      (max_snsd_records_total ?c) (max_hosted_records ?c) (az_cache s) = (res, records)" by fastforce
  have "res \<noteq> Panic" using cache_register_not_Panic [of now "name_ttl ?c"] assms(2) Register reg by (metis cmd_time.simps(1) fst_conv)
  then show ?thesis using Register reg by (cases res) simp_all
next
  case (Resolve h service now)
  then show ?thesis using cache_resolve_runs [of "az_config s" t "az_cache s" rng h service now] assms by (auto simp: andna_inv_def)
next
  case (CounterReserve k h now)
  let ?c = "az_config s"
  obtain res m where res: "try_reserve k h now (name_ttl ?c) (max_hostnames_per_registrant ?c) (max_counter_registrants ?c) (az_counters s) = (res, m)"
    by fastforce
  have "res \<noteq> Panic" using try_reserve_not_Panic [of now "name_ttl ?c"] assms(2) CounterReserve res by (metis cmd_time.simps(3) fst_conv)
  then show ?thesis using CounterReserve res by (cases res) simp_all
next
  case (PurgeExpired now)
  then show ?thesis by (simp add: case_prod_beta)
qed

text \<open>C23: In every run whose clock stays clear of the end of the 64-bit range a command is served without a panic, and the
  configured bounds hold afterwards: on the names hosted, the records of a name, in all and per service, the
  registrants and the live names of each; and the published snapshot shows exactly the names hosted.\<close>

theorem andna_bounds:
  assumes "andna_run v config (t, s)" "t \<le> cmd_time c" "unat (cmd_time c) + unat (name_ttl config) < 2 ^ 64"
    "max 1 (max_snsd_records_per_service config) * 255 < 2 ^ 32"
  shows "\<exists>reply s'. andna_handle v rng c s = (Ok reply, s') \<and> length (az_cache s') \<le> max_hosted_records config \<and>
     (\<forall>h r. map_of (az_cache s') h = Some r \<longrightarrow> sn_total (hr_snsd r) \<le> max 1 (max_snsd_records_total config) \<and>
        (\<forall>sv. length (bucket sv (hr_snsd r)) \<le> max 1 (max_snsd_records_per_service config))) \<and>
     length (az_counters s') \<le> max_counter_registrants config \<and>
     (\<forall>(k, e) \<in> set (az_counters s'). live_count (cmd_time c) e \<le> max_hostnames_per_registrant config) \<and>
     as_hosted (az_snapshot s') = az_cache s'"
proof -
  note inv = andna_run_inv [OF assms(1)]
  obtain reply s' where run: "andna_handle v rng c s = (Ok reply, s')"
    using andna_handle_runs [OF inv(1), unfolded inv(2), OF assms(3,4)] by blast
  have "andna_inv (cmd_time c) s'" "az_config s' = config"
    using andna_handle_inv [OF inv(1) assms(2), of v rng] handle_config [of v rng c s] inv(2) by (simp_all add: run)
  then show ?thesis using run by (auto simp: andna_inv_def names_ok_def record_ok_def counters_ok_def table_within_def)
qed

theorem andna_bounds_witness:
  "\<exists>reply s'. andna_handle (\<lambda>_ _ _. True) (\<lambda>_ _. 1) (Register sample_request 1000) (andna_new andna_config_default) = (Ok reply, s') \<and>
     length (az_cache s') \<le> 65536"
  using andna_bounds [OF sample_run, of "Register sample_request 1000" "\<lambda>_ _. 1"] by (auto simp: andna_config_default_def)

end
