(* ===== verification/Andna_Service.thy ===== *)
theory Andna_Service
  imports Peers_Delivery Andna_Guarantees
begin

section \<open>ANDNA over the network (\<open>ntk-andna/src/wire.rs\<close>, \<open>service.rs\<close>, \<open>route.rs\<close>, \<open>actor.rs\<close>)\<close>

text \<open>
  The messages of \<open>andna.proto\<close>, the two peer services that serve them at a hash node, and the operations of
  the handle at the node that registers or resolves a name. Protobuf's byte encoding, the test whether 32
  bytes are a key, the texts errors print and the substrate that carries a request are arguments.
\<close>

datatype wire_target = WAddress "wire_naddr list" | WHostname string

record wire_snsd_record =
  ws_service :: u32
  ws_priority :: u32
  ws_weight :: u32
  ws_target :: "wire_target option"

record wire_register_request =
  wr_hostname :: string
  wr_owner_key :: "u8 list"
  wr_owner_naddr :: "wire_naddr list"
  wr_sequence :: u64
  wr_timestamp_unix :: u64
  wr_zero_priority :: u32
  wr_zero_weight :: u32
  wr_snsd_records :: "wire_snsd_record list"
  wr_signature :: "u8 list"

datatype wire_register_outcome = WAccepted u64 bool | WRejected string
datatype wire_counter_outcome = WReservedCount u32 | WDeniedReason string

text \<open>Protobuf's \<open>encode_to_vec\<close> and \<open>decode\<close>, one pair per message.\<close>

record andna_protobuf =
  enc_register :: "wire_register_request \<Rightarrow> u8 list"
  dec_register :: "u8 list \<Rightarrow> (wire_register_request, string) res"
  enc_register_reply :: "wire_register_outcome option \<Rightarrow> u8 list"
  dec_register_reply :: "u8 list \<Rightarrow> (wire_register_outcome option, string) res"
  enc_resolve :: "string \<times> u32 \<Rightarrow> u8 list"
  dec_resolve :: "u8 list \<Rightarrow> (string \<times> u32, string) res"
  enc_resolve_reply :: "wire_snsd_record list \<Rightarrow> u8 list"
  dec_resolve_reply :: "u8 list \<Rightarrow> (wire_snsd_record list, string) res"
  enc_counter :: "u8 list \<Rightarrow> u8 list"
  dec_counter :: "u8 list \<Rightarrow> (u8 list, string) res"
  enc_counter_reply :: "wire_counter_outcome option \<Rightarrow> u8 list"
  dec_counter_reply :: "u8 list \<Rightarrow> (wire_counter_outcome option, string) res"

definition TAG_REGISTER_REQUEST :: string where "TAG_REGISTER_REQUEST = ''andna.RegisterRequest''"
definition TAG_REGISTER_REPLY :: string where "TAG_REGISTER_REPLY = ''andna.RegisterReply''"
definition TAG_RESOLVE_REQUEST :: string where "TAG_RESOLVE_REQUEST = ''andna.ResolveRequest''"
definition TAG_RESOLVE_REPLY :: string where "TAG_RESOLVE_REPLY = ''andna.ResolveReply''"
definition TAG_COUNTER_REQUEST :: string where "TAG_COUNTER_REQUEST = ''andna.CounterRequest''"
definition TAG_COUNTER_REPLY :: string where "TAG_COUNTER_REPLY = ''andna.CounterReply''"

subsection \<open>Conversions\<close>

fun target_to_wire :: "snsd_target \<Rightarrow> wire_target" where
  "target_to_wire (Address a) = WAddress [naddr_to_wire a]"
| "target_to_wire (Alias h) = WHostname h"

definition snsd_record_to_wire :: "snsd_record \<Rightarrow> wire_snsd_record" where
  "snsd_record_to_wire r =
     \<lparr>ws_service = ucast (sr_service r), ws_priority = ucast (sr_priority r), ws_weight = ucast (sr_weight r),
      ws_target = Some (target_to_wire (sr_target r))\<rparr>"

definition u8_try_from :: "u32 \<Rightarrow> string \<Rightarrow> (u8, andna_error) res" where
  "u8_try_from raw field = (if unat raw < 2 ^ 8 then Ok (ucast raw) else Err (FieldOutOfRange field))"

definition u16_try_from :: "u32 \<Rightarrow> string \<Rightarrow> (u16, andna_error) res" where
  "u16_try_from raw field = (if unat raw < 2 ^ 16 then Ok (ucast raw) else Err (FieldOutOfRange field))"

definition weight_from_wire :: "u32 \<Rightarrow> string \<Rightarrow> (u8, andna_error) res" where
  "weight_from_wire raw field =
     res_bind (u8_try_from raw field) (\<lambda>weight. if MAX_WEIGHT < weight then Err (WeightTooLarge weight) else Ok weight)"

definition naddr_first :: "wire_naddr list \<Rightarrow> string \<Rightarrow> (naddr, andna_error) res" where
  "naddr_first value field = (case value of [] \<Rightarrow> Err (AndnaMissingField field) | a # _ \<Rightarrow> map_err AndnaDomain (naddr_from_wire a))"

fun target_from_wire :: "wire_target \<Rightarrow> (snsd_target, andna_error) res" where
  "target_from_wire (WAddress value) = res_bind (naddr_first value ''address.value'') (\<lambda>a. Ok (Address a))"
| "target_from_wire (WHostname name) = res_bind (hostname_new name) (\<lambda>h. Ok (Alias h))"

definition snsd_record_from_wire :: "wire_snsd_record \<Rightarrow> (snsd_record, andna_error) res" where
  "snsd_record_from_wire w =
     res_bind (ok_or (ws_target w) (AndnaMissingField ''target'')) (\<lambda>wt.
     res_bind (target_from_wire wt) (\<lambda>target.
     res_bind (u16_try_from (ws_service w) ''snsd_record.service'') (\<lambda>service.
     res_bind (u8_try_from (ws_priority w) ''snsd_record.priority'') (\<lambda>priority.
     res_bind (weight_from_wire (ws_weight w) ''snsd_record.weight'') (\<lambda>weight.
     Ok \<lparr>sr_service = service, sr_priority = priority, sr_weight = weight, sr_target = target\<rparr>)))))"

text \<open>\<open>is_key\<close> is what \<open>VerifyingKey::from_bytes\<close> accepts.\<close>

definition key_from_wire :: "(u8 list \<Rightarrow> bool) \<Rightarrow> u8 list \<Rightarrow> (u8 list, andna_error) res" where
  "key_from_wire is_key bytes =
     (if length bytes \<noteq> 32 then Err (MalformedKeyMaterial ''owner_key'' 32 (length bytes))
      else if is_key bytes then Ok bytes else Err InvalidSignature)"

definition signature_from_wire :: "u8 list \<Rightarrow> (u8 list, andna_error) res" where
  "signature_from_wire bytes =
     (if length bytes \<noteq> 64 then Err (MalformedKeyMaterial ''signature'' 64 (length bytes)) else Ok bytes)"

definition register_request_to_wire :: "register_request \<Rightarrow> wire_register_request" where
  "register_request_to_wire q =
     \<lparr>wr_hostname = rr_hostname q, wr_owner_key = rr_owner_key q, wr_owner_naddr = [naddr_to_wire (rr_owner_naddr q)],
      wr_sequence = rr_sequence q, wr_timestamp_unix = rr_timestamp_unix q, wr_zero_priority = ucast (rr_zero_priority q),
      wr_zero_weight = ucast (rr_zero_weight q), wr_snsd_records = map snsd_record_to_wire (rr_snsd_records q),
      wr_signature = rr_signature q\<rparr>"

definition register_request_from_wire :: "(u8 list \<Rightarrow> bool) \<Rightarrow> wire_register_request \<Rightarrow> (register_request, andna_error) res" where
  "register_request_from_wire is_key w =
     res_bind (naddr_first (wr_owner_naddr w) ''owner_naddr'') (\<lambda>owner_naddr.
     res_bind (hostname_new (wr_hostname w)) (\<lambda>hostname.
     res_bind (key_from_wire is_key (wr_owner_key w)) (\<lambda>owner_key.
     res_bind (u8_try_from (wr_zero_priority w) ''zero_priority'') (\<lambda>zero_priority.
     res_bind (weight_from_wire (wr_zero_weight w) ''zero_weight'') (\<lambda>zero_weight.
     res_bind (try_map snsd_record_from_wire (wr_snsd_records w)) (\<lambda>snsd_records.
     res_bind (signature_from_wire (wr_signature w)) (\<lambda>signature.
     Ok \<lparr>rr_hostname = hostname, rr_owner_key = owner_key, rr_owner_naddr = owner_naddr, rr_sequence = wr_sequence w,
         rr_timestamp_unix = wr_timestamp_unix w, rr_zero_priority = zero_priority, rr_zero_weight = zero_weight,
         rr_snsd_records = snsd_records, rr_signature = signature\<rparr>)))))))"

subsection \<open>Packing\<close>

text \<open>\<open>to_string\<close> of the errors that are answered, and the \<open>format!\<close> of the answer to an unknown tag.\<close>

record andna_texts =
  tx_error :: "andna_error \<Rightarrow> string"
  tx_rejected :: "register_rejected \<Rightarrow> string"
  tx_denied :: "counter_rejected \<Rightarrow> string"
  tx_unknown_andna :: "string \<Rightarrow> string"
  tx_unknown_counter :: "string \<Rightarrow> string"

definition unpack_with :: "(u8 list \<Rightarrow> ('w, string) res) \<Rightarrow> string \<Rightarrow> ('w \<Rightarrow> ('a, andna_error) res) \<Rightarrow> typed_value_msg \<Rightarrow> ('a, andna_error) res" where
  "unpack_with decode tag from_wire tv = res_bind (map_err AndnaDomain (from_typed_value decode tv tag)) from_wire"


definition unpack_register_request :: "andna_protobuf \<Rightarrow> (u8 list \<Rightarrow> bool) \<Rightarrow> typed_value_msg \<Rightarrow> (register_request, andna_error) res" where
  "unpack_register_request pb is_key = unpack_with (dec_register pb) TAG_REGISTER_REQUEST (register_request_from_wire is_key)"

fun register_outcome_to_wire :: "andna_texts \<Rightarrow> register_rejected + register_outcome \<Rightarrow> wire_register_outcome" where
  "register_outcome_to_wire tx (Inr (Registered e)) = WAccepted e False"
| "register_outcome_to_wire tx (Inr (Renewed e)) = WAccepted e True"
| "register_outcome_to_wire tx (Inl r) = WRejected (tx_rejected tx r)"

definition pack_register_reply :: "andna_protobuf \<Rightarrow> andna_texts \<Rightarrow> register_rejected + register_outcome \<Rightarrow> typed_value_msg" where
  "pack_register_reply pb tx out = typed_value (enc_register_reply pb) TAG_REGISTER_REPLY (Some (register_outcome_to_wire tx out))"



definition pack_resolve_request :: "andna_protobuf \<Rightarrow> hostname \<Rightarrow> u16 \<Rightarrow> typed_value_msg" where
  "pack_resolve_request pb h service = typed_value (enc_resolve pb) TAG_RESOLVE_REQUEST (h, ucast service)"

definition resolve_request_from_wire :: "string \<times> u32 \<Rightarrow> (hostname \<times> u16, andna_error) res" where
  "resolve_request_from_wire w =
     res_bind (hostname_new (fst w)) (\<lambda>h. res_bind (u16_try_from (snd w) ''service'') (\<lambda>service. Ok (h, service)))"

definition unpack_resolve_request :: "andna_protobuf \<Rightarrow> typed_value_msg \<Rightarrow> (hostname \<times> u16, andna_error) res" where
  "unpack_resolve_request pb = unpack_with (dec_resolve pb) TAG_RESOLVE_REQUEST resolve_request_from_wire"

definition pack_resolve_reply :: "andna_protobuf \<Rightarrow> snsd_record list \<Rightarrow> typed_value_msg" where
  "pack_resolve_reply pb rs = typed_value (enc_resolve_reply pb) TAG_RESOLVE_REPLY (map snsd_record_to_wire rs)"

definition unpack_resolve_reply :: "andna_protobuf \<Rightarrow> typed_value_msg \<Rightarrow> (snsd_record list, andna_error) res" where
  "unpack_resolve_reply pb = unpack_with (dec_resolve_reply pb) TAG_RESOLVE_REPLY (try_map snsd_record_from_wire)"


definition hash_from_wire :: "u8 list \<Rightarrow> (name_hash, andna_error) res" where
  "hash_from_wire bytes =
     (if length bytes \<noteq> 32 then Err (MalformedKeyMaterial ''hostname_hash'' 32 (length bytes)) else Ok bytes)"

definition unpack_counter_request :: "andna_protobuf \<Rightarrow> typed_value_msg \<Rightarrow> (name_hash, andna_error) res" where
  "unpack_counter_request pb = unpack_with (dec_counter pb) TAG_COUNTER_REQUEST hash_from_wire"

fun counter_outcome_to_wire :: "andna_texts \<Rightarrow> counter_rejected + usize \<Rightarrow> wire_counter_outcome" where
  "counter_outcome_to_wire tx (Inr n) = WReservedCount (of_nat n)"
| "counter_outcome_to_wire tx (Inl r) = WDeniedReason (tx_denied tx r)"

definition pack_counter_reply :: "andna_protobuf \<Rightarrow> andna_texts \<Rightarrow> counter_rejected + usize \<Rightarrow> typed_value_msg" where
  "pack_counter_reply pb tx out = typed_value (enc_counter_reply pb) TAG_COUNTER_REPLY (Some (counter_outcome_to_wire tx out))"

fun counter_outcome_from_wire :: "wire_counter_outcome \<Rightarrow> string + usize" where
  "counter_outcome_from_wire (WReservedCount n) = Inr (unat n)"
| "counter_outcome_from_wire (WDeniedReason reason) = Inl reason"


subsection \<open>The services\<close>

definition andna_service_id :: service_id where "andna_service_id = 900"
definition counter_service_id :: service_id where "counter_service_id = 901"

definition malformed :: "string \<Rightarrow> exec_error" where
  "malformed message = Refuse \<lparr>rf_level = 0, rf_message = message\<rparr>"

definition stopped :: exec_error where
  "stopped = malformed ''andna: service is shutting down''"

definition requires_verified_origin :: "string \<Rightarrow> bool" where
  "requires_verified_origin tag \<longleftrightarrow> tag = ''andna.RegisterRequest'' \<or> tag = ''andna.CounterRequest''"

text \<open>\<open>Handle::call\<close>: no answer once the actor has stopped, and none from an actor that panics.\<close>

definition call_actor :: "verifier \<Rightarrow> draws \<Rightarrow> bool \<Rightarrow> andna_cmd \<Rightarrow> (andna_state, andna_reply, exec_error) st" where
  "call_actor verify_raw rng alive c s =
     (if alive
      then (case andna_handle verify_raw rng c s of (Ok reply, s') \<Rightarrow> (Ok reply, s') | (_, s') \<Rightarrow> (Err stopped, s'))
      else (Err stopped, s))"

record andna_node =
  an_pb :: andna_protobuf
  an_texts :: andna_texts
  an_is_key :: "u8 list \<Rightarrow> bool"
  an_verify :: verifier
  an_rng :: draws
  an_now :: u64
  an_alive :: bool

definition andna_exec :: "andna_node \<Rightarrow> typed_value_msg \<Rightarrow> u32 list \<Rightarrow> (andna_state, typed_value_msg, exec_error) st" where
  "andna_exec n request client s =
     (let pb = an_pb n; call = call_actor (an_verify n) (an_rng n) (an_alive n) in
      if type_tag request = ''andna.RegisterRequest'' then
        (case unpack_register_request pb (an_is_key n) request of
           Ok q \<Rightarrow>
             (case call (Register q (an_now n)) s of
                (Ok (RegisterReply out), s') \<Rightarrow> (Ok (pack_register_reply pb (an_texts n) out), s')
              | (Err e, s') \<Rightarrow> (Err e, s')
              | (_, s') \<Rightarrow> (Panic, s'))
         | Err e \<Rightarrow> (Err (malformed (tx_error (an_texts n) e)), s)
         | Panic \<Rightarrow> (Panic, s))
      else if type_tag request = ''andna.ResolveRequest'' then
        (case unpack_resolve_request pb request of
           Ok (h, service) \<Rightarrow>
             (case call (Resolve h service (an_now n)) s of
                (Ok (ResolveReply rs), s') \<Rightarrow> (Ok (pack_resolve_reply pb rs), s')
              | (Err e, s') \<Rightarrow> (Err e, s')
              | (_, s') \<Rightarrow> (Panic, s'))
         | Err e \<Rightarrow> (Err (malformed (tx_error (an_texts n) e)), s)
         | Panic \<Rightarrow> (Panic, s))
      else (Err (malformed (tx_unknown_andna (an_texts n) (type_tag request))), s))"

definition counter_exec :: "andna_node \<Rightarrow> typed_value_msg \<Rightarrow> u32 list \<Rightarrow> (andna_state, typed_value_msg, exec_error) st" where
  "counter_exec n request client s =
     (let pb = an_pb n; call = call_actor (an_verify n) (an_rng n) (an_alive n) in
      if type_tag request = ''andna.CounterRequest'' then
        (case unpack_counter_request pb request of
           Ok hash \<Rightarrow>
             (case call (CounterReserve client hash (an_now n)) s of
                (Ok (CounterReply out), s') \<Rightarrow> (Ok (pack_counter_reply pb (an_texts n) out), s')
              | (Err e, s') \<Rightarrow> (Err e, s')
              | (_, s') \<Rightarrow> (Panic, s'))
         | Err e \<Rightarrow> (Err (malformed (tx_error (an_texts n) e)), s)
         | Panic \<Rightarrow> (Panic, s))
      else (Err (malformed (tx_unknown_counter (an_texts n) (type_tag request))), s))"

subsection \<open>The handle\<close>


datatype andna_call_error =
    CallInvalidSignature
  | Routing contact_peer_error
  | CallDecode andna_error
  | CounterDenied string
  | Rejected string

text \<open>The substrate: one contact with the node closest to a target, and the replies of several.\<close>

record andna_substrate =
  sub_topology :: topology
  sub_my_pos :: naddr
  sub_contact_peer :: "service_id \<Rightarrow> tuple_node \<Rightarrow> typed_value_msg \<Rightarrow> contact_peer_error + typed_value_msg"
  sub_replicate :: "service_id \<Rightarrow> tuple_node \<Rightarrow> typed_value_msg \<Rightarrow> u32 \<Rightarrow> typed_value_msg list"

definition routed :: "contact_peer_error + typed_value_msg \<Rightarrow> (typed_value_msg, andna_call_error) res" where
  "routed r = (case r of Inl e \<Rightarrow> Err (Routing e) | Inr tv \<Rightarrow> Ok tv)"

definition target_of :: "andna_substrate \<Rightarrow> 128 word \<Rightarrow> (tuple_node, andna_call_error) res" where
  "target_of sub key = (case hash_to_tuple (sub_topology sub) key of Ok x \<Rightarrow> Ok x | _ \<Rightarrow> Panic)"


text \<open>The first reply that decodes to some records.\<close>

fun first_records :: "andna_protobuf \<Rightarrow> typed_value_msg list \<Rightarrow> snsd_record list option" where
  "first_records pb [] = None"
| "first_records pb (reply # replies) =
     (case unpack_resolve_reply pb reply of Ok (r # rs) \<Rightarrow> Some (r # rs) | _ \<Rightarrow> first_records pb replies)"

definition handle_resolve ::
  "andna_protobuf \<Rightarrow> (u8 list \<Rightarrow> u8 list) \<Rightarrow> andna_config \<Rightarrow> andna_substrate \<Rightarrow> hostname \<Rightarrow> u16 \<Rightarrow> (snsd_record list, andna_call_error) res" where
  "handle_resolve pb blake3 config sub h service =
     res_bind (target_of sub (hash_route_key (hostname_hash blake3 h))) (\<lambda>target.
     let request = pack_resolve_request pb h service;
         primary = res_bind (routed (sub_contact_peer sub andna_service_id target request)) (\<lambda>reply. map_err CallDecode (unpack_resolve_reply pb reply)) in
     case primary of
       Ok (r # rs) \<Rightarrow> Ok (r # rs)
     | Panic \<Rightarrow> Panic
     | _ \<Rightarrow>
         (case first_records pb (sub_replicate sub andna_service_id target request (replication_factor config)) of
            Some rs \<Rightarrow> Ok rs
          | None \<Rightarrow> primary))"

subsection \<open>The codec contract\<close>

fun valid_target :: "snsd_target \<Rightarrow> bool" where
  "valid_target (Address a) = wf_naddr a"
| "valid_target (Alias h) = wf_hostname h"

definition valid_record :: "snsd_record \<Rightarrow> bool" where
  "valid_record r \<longleftrightarrow> sr_weight r \<le> MAX_WEIGHT \<and> valid_target (sr_target r)"

definition valid_request :: "(u8 list \<Rightarrow> bool) \<Rightarrow> register_request \<Rightarrow> bool" where
  "valid_request is_key q \<longleftrightarrow> wf_hostname (rr_hostname q) \<and> length (rr_owner_key q) = 32 \<and> is_key (rr_owner_key q) \<and>
     wf_naddr (rr_owner_naddr q) \<and> rr_zero_weight q \<le> MAX_WEIGHT \<and> list_all valid_record (rr_snsd_records q) \<and>
     length (rr_signature q) = 64"

lemma narrow_roundtrip: "u8_try_from (ucast b) field = Ok b" "u16_try_from (ucast h) field = Ok h"
proof -
  have "unat b < 2 ^ LENGTH(8)" "unat h < 2 ^ LENGTH(16)" by (rule unsigned_less)+
  then have "unat (ucast b :: u32) < 2 ^ 8" "unat (ucast h :: u32) < 2 ^ 16" by (simp_all add: unsigned_ucast_eq take_bit_nat_eq_self)
  moreover have "ucast (ucast b :: u32) = b" "ucast (ucast h :: u32) = h"
    by (rule bit_word_eqI, simp add: bit_ucast_iff)+
  ultimately show "u8_try_from (ucast b) field = Ok b" "u16_try_from (ucast h) field = Ok h"
    by (simp_all add: u8_try_from_def u16_try_from_def)
qed

lemma narrow_not_Panic: "u8_try_from w field \<noteq> Panic" "u16_try_from w field \<noteq> Panic" "weight_from_wire w field \<noteq> Panic"
  by (auto simp: u8_try_from_def u16_try_from_def weight_from_wire_def res_simps)

lemma weight_codec: "w \<le> MAX_WEIGHT \<Longrightarrow> weight_from_wire (ucast w) field = Ok w"
  "weight_from_wire raw field = Ok w \<Longrightarrow> w \<le> MAX_WEIGHT"
  by (auto simp: weight_from_wire_def narrow_roundtrip res_simps split: if_splits)

lemma naddr_first_codec: "wf_naddr a \<Longrightarrow> naddr_first [naddr_to_wire a] field = Ok a" "naddr_first ws field = Ok a \<Longrightarrow> wf_naddr a"
  "naddr_first ws field \<noteq> Panic"
  by (auto simp: naddr_first_def naddr_codec.roundtrip res_simps naddr_codec.never_panics dest: naddr_codec.revalidates split: list.splits)

interpretation target_codec: wire_codec target_to_wire target_from_wire valid_target
proof
  show "target_from_wire (target_to_wire t) = Ok t" if "valid_target t" for t
    using that by (cases t) (simp_all add: naddr_first_codec hostname_new_canonical)
  show "valid_target t" if "target_from_wire w = Ok t" for w t
    using that by (cases w) (auto simp: res_simps dest: naddr_first_codec(2) hostname_new_wf)
  show "target_from_wire w \<noteq> Panic" for w
    by (cases w) (auto simp: res_simps naddr_first_codec hostname_new_not_Panic)
qed

interpretation snsd_codec: wire_codec snsd_record_to_wire snsd_record_from_wire valid_record
proof
  show "snsd_record_from_wire (snsd_record_to_wire r) = Ok r" if "valid_record r" for r
    using that by (simp add: snsd_record_from_wire_def snsd_record_to_wire_def valid_record_def target_codec.roundtrip narrow_roundtrip weight_codec)
  show "valid_record r" if "snsd_record_from_wire w = Ok r" for w r
    using that by (auto simp: snsd_record_from_wire_def valid_record_def res_simps dest: target_codec.revalidates weight_codec(2))
  show "snsd_record_from_wire w \<noteq> Panic" for w
    by (auto simp: snsd_record_from_wire_def res_simps target_codec.never_panics narrow_not_Panic)
qed


subsection \<open>What a registration signs\<close>

text \<open>Sizes that a 32-bit length can count.\<close>

fun target_fits :: "snsd_target \<Rightarrow> bool" where
  "target_fits (Address a) = (length (naddr_pos a) < 2 ^ 32)"
| "target_fits (Alias h) = True"

definition request_fits :: "register_request \<Rightarrow> bool" where
  "request_fits q \<longleftrightarrow> length (naddr_pos (rr_owner_naddr q)) < 2 ^ 32 \<and> length (rr_snsd_records q) < 2 ^ 32 \<and>
     (\<forall>r \<in> set (rr_snsd_records q). target_fits (sr_target r))"

lemma encode_naddr_inj:
  assumes "wf_naddr a" "wf_naddr b" "length (naddr_pos a) < 2 ^ 32" "length (naddr_pos b) < 2 ^ 32"
    "encode_target (Address a) @ r = encode_target (Address b) @ r'"
  shows "a = b \<and> r = r'"
proof -
  let ?f = "\<lambda>xs :: (u32 \<times> u32) list. concat (map (to_le_bytes 4) (map fst xs)) @ concat (map (to_le_bytes 4) (map snd xs)) :: u8 list"
  let ?z = "\<lambda>a. zip (gsizes (naddr_topology a)) (naddr_pos a)"
  have z: "map fst (?z a) = gsizes (naddr_topology a)" "map snd (?z a) = naddr_pos a" "length (?z a) = length (naddr_pos a)"
    "le32_len (?z a) = le32_len (naddr_pos a)" if "wf_naddr a" for a
    using that by (simp_all add: wf_naddr_def le32_len_def)
  have "?z a = ?z b \<and> r = r'"
  proof (rule framed_inj [where f = ?f and k = 8])
    show "le32_len (?z a) @ ?f (?z a) @ r = le32_len (?z b) @ ?f (?z b) @ r'"
      using assms(5) by (simp only: z [OF assms(1)] z [OF assms(2)]) simp
    show "length (?z a) < 2 ^ 32" "length (?z b) < 2 ^ 32" using assms(3,4) by (simp_all only: z [OF assms(1)] z [OF assms(2)])
    show "length (?f zs) = 8 * length zs" for zs
      using length_concat_le_bytes [of "map fst zs"] length_concat_le_bytes [of "map snd zs"] by simp
    show "us = vs" if l: "length us = length vs" and e: "?f us = ?f vs" for us vs
    proof -
      have "concat (map (to_le_bytes 4) (map fst us)) = concat (map (to_le_bytes 4) (map fst vs))"
        "concat (map (to_le_bytes 4) (map snd us)) = concat (map (to_le_bytes 4) (map snd vs))"
        using e l length_concat_le_bytes [of "map fst us"] length_concat_le_bytes [of "map fst vs"] by auto
      then have "map fst us = map fst vs" "map snd us = map snd vs" using l by (simp_all add: concat_le_bytes_inj)
      then show "us = vs" by (metis zip_map_fst_snd)
    qed
  qed
  then have "gsizes (naddr_topology a) = gsizes (naddr_topology b)" "naddr_pos a = naddr_pos b" "r = r'"
    using z(1,2) [OF assms(1)] z(1,2) [OF assms(2)] by auto
  then show ?thesis by (cases a, cases b) simp
qed

lemma encode_name_inj:
  assumes "wf_hostname h" "wf_hostname h'" "le32_len h @ as_bytes h @ r = le32_len h' @ as_bytes h' @ r'"
  shows "h = h' \<and> r = r'"
  using framed_inj [of h as_bytes r h' r' 1] assms
  by (simp add: as_bytes_inj wf_hostname_def MAX_LEN_def) (simp add: as_bytes_def)

lemma encode_target_inj:
  assumes "valid_target t" "valid_target t'" "target_fits t" "target_fits t'" "encode_target t @ r = encode_target t' @ r'"
  shows "t = t' \<and> r = r'"
proof (cases t)
  case (Address a)
  then obtain b where "t' = Address b" using assms(5) by (cases t') auto
  then show ?thesis using encode_naddr_inj [of a b r r'] assms Address by auto
next
  case (Alias h)
  then obtain h' where "t' = Alias h'" using assms(5) by (cases t') auto
  then show ?thesis using encode_name_inj [of h h' r r'] assms Alias by auto
qed

lemma encode_records_inj:
  assumes "length rs = length rs'" "list_all valid_record rs" "list_all valid_record rs'"
    "\<forall>r \<in> set rs. target_fits (sr_target r)" "\<forall>r \<in> set rs'. target_fits (sr_target r)"
    "concat (map encode_record rs) = concat (map encode_record rs')"
  shows "rs = rs'"
  using assms
proof (induction rs rs' rule: list_induct2)
  case (Cons a as b bs)
  let ?A = "concat (map encode_record as)" and ?B = "concat (map encode_record bs)"
  have e: "to_le_bytes 2 (sr_service a) @ sr_priority a # sr_weight a # encode_target (sr_target a) @ ?A =
      to_le_bytes 2 (sr_service b) @ sr_priority b # sr_weight b # encode_target (sr_target b) @ ?B"
    using Cons.prems(5) by (simp add: encode_record_def [of a] encode_record_def [of b])
  then have s: "to_le_bytes 2 (sr_service a) = to_le_bytes 2 (sr_service b)"
    and t: "sr_priority a = sr_priority b" "sr_weight a = sr_weight b" "encode_target (sr_target a) @ ?A = encode_target (sr_target b) @ ?B"
    by (auto simp: append_eq_append_conv)
  have "sr_service a = sr_service b" using to_le_bytes_inj [OF s] by simp
  moreover have "sr_target a = sr_target b" "?A = ?B"
    using encode_target_inj [OF _ _ _ _ t(3)] Cons.prems by (auto simp: valid_record_def)
  ultimately show ?case using t Cons.IH Cons.prems by simp
qed simp

text \<open>C24: The bytes a registration signs determine the registration: two valid requests that sign the same bytes are the same
  in every field but the signature. So a signature made for one name, owner, address, sequence number, time or
  list of records never covers another.\<close>

theorem register_signing_bytes_inj:
  assumes "valid_request is_key q" "valid_request is_key q'" "request_fits q" "request_fits q'"
  shows "register_signing_bytes q = register_signing_bytes q' \<longleftrightarrow> q\<lparr>rr_signature := rr_signature q'\<rparr> = q'"
proof
  assume eq: "register_signing_bytes q = register_signing_bytes q'"
  let ?t2 = "\<lambda>q. le32_len (rr_snsd_records q) @ concat (map encode_record (rr_snsd_records q))"
  let ?t1 = "\<lambda>q. to_le_bytes 8 (rr_sequence q) @ to_le_bytes 8 (rr_timestamp_unix q) @ rr_zero_priority q # rr_zero_weight q # ?t2 q"
  have v: "wf_hostname (rr_hostname q)" "wf_hostname (rr_hostname q')" "length (rr_owner_key q) = length (rr_owner_key q')"
    "wf_naddr (rr_owner_naddr q)" "wf_naddr (rr_owner_naddr q')" "list_all valid_record (rr_snsd_records q)" "list_all valid_record (rr_snsd_records q')"
    using assms(1,2) by (simp_all add: valid_request_def)
  have 1: "rr_hostname q = rr_hostname q' \<and>
      rr_owner_key q @ encode_target (Address (rr_owner_naddr q)) @ ?t1 q = rr_owner_key q' @ encode_target (Address (rr_owner_naddr q')) @ ?t1 q'"
    using encode_name_inj [OF v(1,2)] eq unfolding register_signing_bytes_def by blast
  then have 2: "rr_owner_key q = rr_owner_key q'" "encode_target (Address (rr_owner_naddr q)) @ ?t1 q = encode_target (Address (rr_owner_naddr q')) @ ?t1 q'"
    using v(3) append_eq_append_conv by blast+
  have 3: "rr_owner_naddr q = rr_owner_naddr q' \<and> ?t1 q = ?t1 q'"
    using encode_naddr_inj [OF v(4,5) _ _ 2(2)] assms(3,4) by (simp add: request_fits_def)
  then have 4: "to_le_bytes 8 (rr_sequence q) = to_le_bytes 8 (rr_sequence q')" "to_le_bytes 8 (rr_timestamp_unix q) = to_le_bytes 8 (rr_timestamp_unix q')"
    "rr_zero_priority q = rr_zero_priority q'" "rr_zero_weight q = rr_zero_weight q'" "le32_len (rr_snsd_records q) = le32_len (rr_snsd_records q')"
    "concat (map encode_record (rr_snsd_records q)) = concat (map encode_record (rr_snsd_records q'))"
    by (auto simp: append_eq_append_conv)
  have "length (rr_snsd_records q) = length (rr_snsd_records q')" using le32_len_inj [OF 4(5)] assms(3,4) by (simp add: request_fits_def)
  then have "rr_snsd_records q = rr_snsd_records q'"
    using encode_records_inj [OF _ v(6,7) _ _ 4(6)] assms(3,4) by (simp add: request_fits_def)
  moreover have "rr_sequence q = rr_sequence q'" "rr_timestamp_unix q = rr_timestamp_unix q'"
    using to_le_bytes_inj [OF 4(1)] to_le_bytes_inj [OF 4(2)] by simp_all
  ultimately show "q\<lparr>rr_signature := rr_signature q'\<rparr> = q'" using 1 2(1) 3 4 by simp
next
  assume "q\<lparr>rr_signature := rr_signature q'\<rparr> = q'"
  then have "register_signing_bytes q' = register_signing_bytes (q\<lparr>rr_signature := rr_signature q'\<rparr>)" by simp
  then show "register_signing_bytes q = register_signing_bytes q'" by (simp add: register_signing_bytes_def)
qed

subsection \<open>A request served\<close>

lemma unpack_with_roundtrip: "prost_ok_on encode decode w \<Longrightarrow> unpack_with decode tag f (typed_value encode tag w) = f w"
  by (simp add: unpack_with_def from_typed_value_roundtrip)

lemma unpack_with_not_Panic: "(\<And>b. decode b \<noteq> Panic) \<Longrightarrow> (\<And>w. f w \<noteq> Panic) \<Longrightarrow> unpack_with decode tag f tv \<noteq> Panic"
  by (auto simp: unpack_with_def res_simps from_typed_value_def)


lemma counter_outcome_codec: "(\<And>n. cout = Inr n \<Longrightarrow> n < 2 ^ 32) \<Longrightarrow> counter_outcome_from_wire (counter_outcome_to_wire tx cout) = map_sum (tx_denied tx) id cout"
  by (cases cout) (simp_all add: unat_of_nat)


lemma exec_resolve:
  assumes "wf_hostname h" "prost_ok_on (enc_resolve (an_pb n)) (dec_resolve (an_pb n)) (h, ucast service)" "an_alive n"
    "andna_handle (an_verify n) (an_rng n) (Resolve h service (an_now n)) s = (Ok (ResolveReply rs), s')"
  shows "andna_exec n (pack_resolve_request (an_pb n) h service) client s = (Ok (pack_resolve_reply (an_pb n) rs), s')"
proof -
  have "unpack_resolve_request (an_pb n) (pack_resolve_request (an_pb n) h service) = Ok (h, service)"
    using assms(1,2) by (simp add: unpack_resolve_request_def pack_resolve_request_def unpack_with_roundtrip resolve_request_from_wire_def
        hostname_new_canonical narrow_roundtrip)
  moreover have "type_tag (pack_resolve_request (an_pb n) h service) = ''andna.ResolveRequest''"
    by (simp add: pack_resolve_request_def typed_value_def TAG_RESOLVE_REQUEST_def)
  ultimately show ?thesis using assms(3,4) by (simp add: andna_exec_def Let_def call_actor_def del: andna_handle.simps)
qed



subsection \<open>End to end\<close>

text \<open>What the substrate promises: a request is answered by the node closest to its target among those that run the service,
  which is also the first of the replicas. \<open>owner\<close> is that node for each target, with its state, if there is one.\<close>

definition routes_counter :: "andna_substrate \<Rightarrow> (tuple_node \<Rightarrow> (andna_node \<times> andna_state) option) \<Rightarrow> u32 list \<Rightarrow> bool" where
  "routes_counter sub owner client \<longleftrightarrow> (\<forall>x m s req reply. owner x = Some (m, s) \<longrightarrow>
     fst (counter_exec m req client s) = Ok reply \<longrightarrow> sub_contact_peer sub counter_service_id x req = Inr reply)"

definition routes_andna :: "andna_substrate \<Rightarrow> (tuple_node \<Rightarrow> (andna_node \<times> andna_state) option) \<Rightarrow> u32 list \<Rightarrow> bool" where
  "routes_andna sub owner client \<longleftrightarrow> (\<forall>x n s req reply. owner x = Some (n, s) \<longrightarrow> fst (andna_exec n req client s) = Ok reply \<longrightarrow>
     sub_contact_peer sub andna_service_id x req = Inr reply \<and>
     (\<forall>q. 0 < q \<longrightarrow> (\<exists>more. sub_replicate sub andna_service_id x req q = reply # more)))"

text \<open>\<open>FakeSubstrate\<close>: every target is served by the local services.\<close>

definition fake_substrate :: "topology \<Rightarrow> naddr \<Rightarrow> andna_node \<Rightarrow> andna_state \<Rightarrow> andna_substrate" where
  "fake_substrate t my_pos n s =
     (let contact = (\<lambda>p req. case fst (if p = andna_service_id then andna_exec n req [] s else counter_exec n req [] s) of
            Ok reply \<Rightarrow> Inr reply | _ \<Rightarrow> Inl NoParticipants) in
      \<lparr>sub_topology = t, sub_my_pos = my_pos, sub_contact_peer = (\<lambda>p _ req. contact p req),
       sub_replicate = (\<lambda>p _ req _. case contact p req of Inr reply \<Rightarrow> [reply] | Inl _ \<Rightarrow> [])\<rparr>)"

definition local_substrate :: "andna_node \<Rightarrow> andna_state \<Rightarrow> andna_substrate" where
  "local_substrate n s = fake_substrate \<lparr>gsizes = [4, 4]\<rparr> sample_naddr n s"

lemma local_substrate_routes: "routes_counter (local_substrate n s) (\<lambda>_. Some (n, s)) []" "routes_andna (local_substrate n s) (\<lambda>_. Some (n, s)) []"
  "wf_topology (sub_topology (local_substrate n s))"
  by (auto simp: routes_counter_def routes_andna_def local_substrate_def fake_substrate_def Let_def andna_service_id_def counter_service_id_def wf_topology_def)

definition sample_pb :: andna_protobuf where
  "sample_pb = \<lparr>enc_register = (\<lambda>_. []), dec_register = (\<lambda>_. Ok (register_request_to_wire sample_request)),
     enc_register_reply = (\<lambda>_. []), dec_register_reply = (\<lambda>_. Ok (Some (WAccepted 2593000 False))),
     enc_resolve = (\<lambda>_. []), dec_resolve = (\<lambda>_. Ok (''node'', 80)),
     enc_resolve_reply = (\<lambda>_. []), dec_resolve_reply = (\<lambda>_. Ok (map snsd_record_to_wire (rr_snsd_records sample_request))),
     enc_counter = (\<lambda>_. []), dec_counter = (\<lambda>_. Ok (replicate 32 0)),
     enc_counter_reply = (\<lambda>_. []), dec_counter_reply = (\<lambda>_. Ok (Some (WReservedCount 1)))\<rparr>"

definition sample_node :: "u64 \<Rightarrow> andna_node" where
  "sample_node now = \<lparr>an_pb = sample_pb, an_texts = \<lparr>tx_error = (\<lambda>_. []), tx_rejected = (\<lambda>_. []), tx_denied = (\<lambda>_. []),
     tx_unknown_andna = id, tx_unknown_counter = id\<rparr>, an_is_key = (\<lambda>_. True), an_verify = (\<lambda>_ _ _. True), an_rng = (\<lambda>_ _. 1),
     an_now = now, an_alive = True\<rparr>"

lemma sample_valid: "valid_request is_key sample_request = is_key (replicate 32 7)"
  by (auto simp: valid_request_def valid_record_def sample_request_def sample_naddr_def wf_naddr_def wf_topology_def wf_hostname_def MAX_LEN_def
      MAX_WEIGHT_def is_ascii_alphanumeric_def to_ascii_lowercase_def)

theorem register_signing_bytes_inj_witness:
  "register_signing_bytes sample_request \<noteq> register_signing_bytes (sample_request\<lparr>rr_sequence := 2\<rparr>)"
proof -
  have "request_fits sample_request" by (simp add: request_fits_def sample_request_def sample_naddr_def)
  then have "request_fits (sample_request\<lparr>rr_sequence := 2\<rparr>)" by (simp add: request_fits_def)
  moreover have "valid_request (\<lambda>_. True) sample_request" by (simp add: sample_valid)
  then have "valid_request (\<lambda>_. True) (sample_request\<lparr>rr_sequence := 2\<rparr>)" by (simp add: valid_request_def)
  ultimately show ?thesis
    using register_signing_bytes_inj [of "\<lambda>_. True" sample_request "sample_request\<lparr>rr_sequence := 2\<rparr>"] \<open>request_fits sample_request\<close>
    by (simp add: sample_valid) (simp add: sample_request_def)
qed

lemma sample_fields: "rr_hostname sample_request = ''node''" "rr_sequence sample_request = 1" "rr_snsd_records sample_request \<noteq> []"
  by (simp_all add: sample_request_def)


lemma target_of_Ok: "hash_to_tuple (sub_topology sub) key = Ok x \<Longrightarrow> target_of sub key = Ok x"
  by (simp add: target_of_def)



lemma offered_valid: "valid_request is_key q \<Longrightarrow> list_all valid_record (offered q service)"
  by (auto simp: offered_def valid_request_def valid_record_def zero_record_def list_all_iff filter_eq_Cons_iff split: list.splits)

text \<open>C21: A registered name resolves. After the node that owns the hash of a name accepted its registration in a run, and
  until the name expires there or is renewed, whoever resolves a service of the name through the network is answered, in
  an order of descending priority, with exactly the enabled records the registration offers for the service, or with
  its owner's address when it offers none. This is for a service with at least one enabled record: without one the
  answer of that node is empty and the replicas are asked.\<close>

theorem registered_name_resolves:
  assumes "andna_run v config (t, s)" "t \<le> now" "andna_handle v rng (andna_cmd.Register q now) s = (Ok (RegisterReply (Inr out)), s1)"
    "andna_steps v (now, s1) (t', s')" "t' \<le> an_now n" "unat (an_now n) < unat now + unat (name_ttl config)"
    "map_option hr_sequence (map_of (az_cache s') (rr_hostname q)) = Some (rr_sequence q)"
    "max 1 (max_snsd_records_per_service config) * 255 < 2 ^ 32"
    "valid_request (an_is_key n) q" "an_alive n" "an_verify n = v"
    "hash_to_tuple (sub_topology sub) (hash_route_key (hostname_hash blake3 (rr_hostname q))) = Ok x" "owner x = Some (n, s')" "routes_andna sub owner client"
    "filter (\<lambda>r. 0 < sr_weight r) (offered q service) \<noteq> []"
    "prost_ok_on (enc_resolve (an_pb n)) (dec_resolve (an_pb n)) (rr_hostname q, ucast service)"
    "\<And>rs. mset rs = mset (filter (\<lambda>r. 0 < sr_weight r) (offered q service)) \<Longrightarrow>
       prost_ok_on (enc_resolve_reply (an_pb n)) (dec_resolve_reply (an_pb n)) (map snsd_record_to_wire rs)"
  shows "\<exists>rs. handle_resolve (an_pb n) blake3 config' sub (rr_hostname q) service = Ok rs \<and>
     mset rs = mset (filter (\<lambda>r. 0 < sr_weight r) (offered q service)) \<and> sorted_wrt (\<lambda>a b. sr_priority b \<le> sr_priority a) rs"
proof -
  let ?pb = "an_pb n" and ?h = "rr_hostname q"
  obtain rs where rs: "andna_handle v (an_rng n) (Resolve ?h service (an_now n)) s' = (Ok (ResolveReply rs), s')"
    "mset rs = mset (filter (\<lambda>r. 0 < sr_weight r) (offered q service))" "sorted_wrt (\<lambda>a b. sr_priority b \<le> sr_priority a) rs"
    using register_resolve [OF assms(1-8)] by blast
  have ne: "rs \<noteq> []" using rs(2) assms(15) by (metis mset_zero_iff)
  have "set rs \<subseteq> set (offered q service)" using mset_eq_setD [OF rs(2)] by auto
  then have valid: "list_all valid_record rs" using offered_valid [OF assms(9), of service] by (auto simp: list_all_iff)
  note x = target_of_Ok [OF assms(12)]
  have "wf_hostname ?h" using assms(9) by (simp add: valid_request_def)
  then have "andna_exec n (pack_resolve_request ?pb ?h service) client s' = (Ok (pack_resolve_reply ?pb rs), s')"
    using exec_resolve [of ?h n service s' rs s' client] assms(10,11,16) rs(1) by (simp del: andna_handle.simps)
  then have c: "sub_contact_peer sub andna_service_id x (pack_resolve_request ?pb ?h service) = Inr (pack_resolve_reply ?pb rs)"
    using assms(13,14) unfolding routes_andna_def by simp
  have "unpack_resolve_reply ?pb (pack_resolve_reply ?pb rs) = Ok rs"
    using assms(17) [OF rs(2)] valid by (simp add: unpack_resolve_reply_def pack_resolve_reply_def unpack_with_roundtrip snsd_codec.list_roundtrip)
  then have "handle_resolve ?pb blake3 config' sub ?h service = Ok rs"
    using x c ne by (cases rs) (simp_all add: handle_resolve_def routed_def)
  then show ?thesis using rs by blast
qed

theorem registered_name_resolves_witness:
  "\<exists>rs. handle_resolve sample_pb (\<lambda>_. replicate 32 0) andna_config_default (local_substrate (sample_node 2000) sample_after) ''node'' 80 = Ok rs \<and>
     mset rs = mset (rr_snsd_records sample_request)"
proof -
  let ?n = "sample_node 2000" and ?b = "\<lambda>_ :: u8 list. replicate 32 (0 :: u8)"
  obtain x where x: "hash_to_tuple (sub_topology (local_substrate ?n sample_after)) (hash_route_key (hostname_hash ?b (rr_hostname sample_request))) = Ok x"
    using hash_to_tuple_reduces [OF local_substrate_routes(3)] by metis
  have o: "filter (\<lambda>r. 0 < sr_weight r) (offered sample_request 80) = rr_snsd_records sample_request" by (simp add: offered_def sample_request_def)
  have "\<exists>rs. handle_resolve (an_pb ?n) (\<lambda>_. replicate 32 0) andna_config_default (local_substrate ?n sample_after) (rr_hostname sample_request) 80 = Ok rs \<and>
     mset rs = mset (filter (\<lambda>r. 0 < sr_weight r) (offered sample_request 80)) \<and> sorted_wrt (\<lambda>a b. sr_priority b \<le> sr_priority a) rs"
  proof (rule registered_name_resolves [OF sample_run _ sample_registered(1) andna_steps.stay _ _ _ _ _ _ _ x refl local_substrate_routes(2)])
    show "prost_ok_on (enc_resolve_reply (an_pb ?n)) (dec_resolve_reply (an_pb ?n)) (map snsd_record_to_wire rs)"
      if "mset rs = mset (filter (\<lambda>r. 0 < sr_weight r) (offered sample_request 80))" for rs
    proof -
      have "mset rs = mset (rr_snsd_records sample_request)" using that by (simp only: o)
      then have "rs = rr_snsd_records sample_request" by (simp add: sample_request_def)
      then show ?thesis by (simp add: prost_ok_on_def sample_node_def sample_pb_def)
    qed
  qed (use sample_stored(1) in \<open>simp_all add: o sample_node_def sample_pb_def andna_config_default_def prost_ok_on_def sample_valid sample_fields\<close>)
  then show ?thesis unfolding o sample_fields(1) by (auto simp: sample_node_def)
qed

end
