(* ===== verification/Coord_State.thy ===== *)
theory Coord_State
  imports Peers_Delivery
begin

section \<open>The Coordinator actor (\<open>ntk-coordinator/src/actor.rs\<close>, \<open>domain.rs\<close>, \<open>config.rs\<close>)\<close>

text \<open>
  The fixed-keys database of a coordinator: for every level the bookings of positions, the counters of virtual
  positions and elderships, a cached count of nodes and the memory of the hooking module; and the set of
  recently seen propagations. An \<open>Instant\<close> and a \<open>Duration\<close> count nanoseconds. What the map answers is an
  argument of each command. A checked addition that overflows panics.
\<close>

type_synonym i64 = "64 word"
type_synonym instant = nat

record booking =
  bk_reserve_request_id :: i64
  bk_new_pos :: u32
  bk_new_eldership :: u64
  bk_expires_at :: instant

record gnode_memory =
  gm_reserve_list :: "booking list"
  gm_max_virtual_pos :: u32
  gm_max_eldership :: u64
  gm_n_nodes :: "(u64 \<times> instant) option"
  gm_hooking_memory :: "typed_value_msg option"

definition gnode_memory_fresh :: "u32 \<Rightarrow> gnode_memory" where
  "gnode_memory_fresh gsize =
     \<lparr>gm_reserve_list = [], gm_max_virtual_pos = gsize, gm_max_eldership = 0, gm_n_nodes = None, gm_hooking_memory = None\<rparr>"

record reservation =
  rs_new_pos :: u32
  rs_new_eldership :: u64

datatype reserve_error = TopOutOfRange usize | CannotReserve usize

record propagation_args =
  pa_positions :: "u32 list"
  pa_fp_id :: i64
  pa_propagation_id :: i32
  pa_level :: usize
  pa_data :: typed_value_msg

datatype coord_event =
    Reserved usize reservation
  | ReserveDeleted usize i64
  | HookingMemoryChanged usize

record coord_config =
  booking_ttl :: duration
  n_nodes_cache_ttl :: duration
  propagation_retention :: duration
  replica_fanout :: u32
  write_timeout :: duration
  hooking_timeout :: duration
  read_timeout :: duration
  replica_timeout :: duration

definition coord_config_default :: coord_config where
  "coord_config_default =
     \<lparr>booking_ttl = from_millis 60000, n_nodes_cache_ttl = from_millis 20000, propagation_retention = from_millis 200000,
      replica_fanout = 15, write_timeout = from_millis 8000, hooking_timeout = from_millis 8000, read_timeout = from_millis 1000,
      replica_timeout = from_millis 1000\<rparr>"

record coordinator_map =
  cm_n_nodes :: u64
  cm_free_positions :: "usize \<Rightarrow> u32 list"
  cm_can_reserve :: "usize \<Rightarrow> bool"
  cm_my_pos :: "usize \<Rightarrow> u32"
  cm_fp_id :: "usize \<Rightarrow> i64"

type_synonym coord_memory = "(usize, gnode_memory) btree_map"

record coord_state =
  co_topology :: topology
  co_config :: coord_config
  co_memory :: coord_memory
  co_recent_propagations :: "i32 set"
  co_next_propagation_id :: i32
  co_snapshot :: coord_memory
  co_events :: "coord_event list"

definition publish_memory :: "coord_state \<Rightarrow> coord_state" where
  "publish_memory s = s\<lparr>co_snapshot := co_memory s\<rparr>"

definition announce :: "coord_event \<Rightarrow> coord_state \<Rightarrow> coord_state" where
  "announce e s = (publish_memory s)\<lparr>co_events := co_events s @ [e]\<rparr>"

subsection \<open>Reservations\<close>

text \<open>The first booking of a request gets a new expiry.\<close>

fun extend_booking :: "i64 \<Rightarrow> instant \<Rightarrow> booking list \<Rightarrow> booking list" where
  "extend_booking request_id e [] = []"
| "extend_booking request_id e (b # bs) =
     (if bk_reserve_request_id b = request_id then b\<lparr>bk_expires_at := e\<rparr> # bs else b # extend_booking request_id e bs)"

text \<open>A free real position, or else the next virtual one with the counter advanced.\<close>

definition pick_position :: "u32 list \<Rightarrow> gnode_memory \<Rightarrow> (u32 \<times> u32, reserve_error) res" where
  "pick_position free mem =
     (case find (\<lambda>p. p \<notin> bk_new_pos ` set (gm_reserve_list mem)) free of
        Some p \<Rightarrow> Ok (p, gm_max_virtual_pos mem)
      | None \<Rightarrow>
          if gm_max_virtual_pos mem = -1 then Panic
          else Ok (gm_max_virtual_pos mem + 1, gm_max_virtual_pos mem + 1))"

definition book_new :: "u32 list \<Rightarrow> i64 \<Rightarrow> instant \<Rightarrow> gnode_memory \<Rightarrow> (reservation \<times> gnode_memory, reserve_error) res" where
  "book_new free request_id e mem =
     res_bind (pick_position free mem) (\<lambda>(new_pos, max_virtual_pos).
     if gm_max_eldership mem = -1 then Panic
     else
     let eldership = gm_max_eldership mem + 1 in
     Ok (\<lparr>rs_new_pos = new_pos, rs_new_eldership = eldership\<rparr>,
         mem\<lparr>gm_max_virtual_pos := max_virtual_pos, gm_max_eldership := eldership,
             gm_reserve_list := gm_reserve_list mem @
               [\<lparr>bk_reserve_request_id = request_id, bk_new_pos = new_pos, bk_new_eldership = eldership, bk_expires_at = e\<rparr>]\<rparr>))"

definition purge_bookings :: "instant \<Rightarrow> gnode_memory \<Rightarrow> gnode_memory" where
  "purge_bookings now mem = mem\<lparr>gm_reserve_list := filter (\<lambda>b. now < bk_expires_at b) (gm_reserve_list mem)\<rparr>"

definition reserve_in :: "u32 list \<Rightarrow> i64 \<Rightarrow> instant \<Rightarrow> duration \<Rightarrow> gnode_memory \<Rightarrow> (reservation \<times> gnode_memory, reserve_error) res" where
  "reserve_in free request_id now ttl mem0 =
     (let mem = purge_bookings now mem0 in
      case find (\<lambda>b. bk_reserve_request_id b = request_id) (gm_reserve_list mem) of
        Some b \<Rightarrow>
          Ok (\<lparr>rs_new_pos = bk_new_pos b, rs_new_eldership = bk_new_eldership b\<rparr>,
              mem\<lparr>gm_reserve_list := extend_booking request_id (now + ttl) (gm_reserve_list mem)\<rparr>)
      | None \<Rightarrow> book_new free request_id (now + ttl) mem)"

definition reserve_enter :: "coordinator_map \<Rightarrow> instant \<Rightarrow> usize \<Rightarrow> i64 \<Rightarrow> (coord_state, reservation, reserve_error) st" where
  "reserve_enter cm now tp request_id s =
     (if tp < 1 \<or> topology_levels (co_topology s) < tp then (Err (TopOutOfRange tp), s)
      else if \<not> cm_can_reserve cm (tp - 1) then (Err (CannotReserve tp), s)
      else
      case map_of (co_memory s) tp of
        None \<Rightarrow> (Panic, s)
      | Some mem \<Rightarrow>
          (case reserve_in (cm_free_positions cm (tp - 1)) request_id now (booking_ttl (co_config s)) mem of
             Ok (r, mem') \<Rightarrow> (Ok r, announce (Reserved tp r) (s\<lparr>co_memory := bt_modify tp (\<lambda>_. mem') (co_memory s)\<rparr>))
           | Err e \<Rightarrow> (Err e, s)
           | Panic \<Rightarrow> (Panic, s\<lparr>co_memory := bt_modify tp (purge_bookings now) (co_memory s)\<rparr>)))"

definition delete_reserve_enter :: "usize \<Rightarrow> i64 \<Rightarrow> coord_state \<Rightarrow> coord_state" where
  "delete_reserve_enter tp request_id s =
     announce (ReserveDeleted tp request_id)
       (s\<lparr>co_memory := bt_modify tp (\<lambda>m. m\<lparr>gm_reserve_list := filter (\<lambda>b. bk_reserve_request_id b \<noteq> request_id) (gm_reserve_list m)\<rparr>) (co_memory s)\<rparr>)"

subsection \<open>The rest of the database\<close>

definition number_of_nodes :: "coordinator_map \<Rightarrow> instant \<Rightarrow> (coord_state, u64, reserve_error) st" where
  "number_of_nodes cm now s =
     (let tp = topology_levels (co_topology s) in
      case map_of (co_memory s) tp of
        None \<Rightarrow> (Panic, s)
      | Some mem \<Rightarrow>
          let fresh = (\<lambda>n. (Ok n, publish_memory (s\<lparr>co_memory := bt_modify tp (\<lambda>m. m\<lparr>gm_n_nodes := Some (n, now + n_nodes_cache_ttl (co_config s))\<rparr>) (co_memory s)\<rparr>))) in
          case gm_n_nodes mem of
            Some (n, expiry) \<Rightarrow> if now < expiry then (Ok n, s) else fresh (cm_n_nodes cm)
          | None \<Rightarrow> fresh (cm_n_nodes cm))"

definition invalidate_n_nodes :: "coord_state \<Rightarrow> coord_state" where
  "invalidate_n_nodes s =
     publish_memory (s\<lparr>co_memory := bt_modify (topology_levels (co_topology s)) (\<lambda>m. m\<lparr>gm_n_nodes := None\<rparr>) (co_memory s)\<rparr>)"

definition get_hooking_memory :: "usize \<Rightarrow> coord_state \<Rightarrow> typed_value_msg option" where
  "get_hooking_memory tp s = Option.bind (map_of (co_memory s) tp) gm_hooking_memory"

definition set_hooking_memory :: "usize \<Rightarrow> typed_value_msg option \<Rightarrow> coord_state \<Rightarrow> coord_state" where
  "set_hooking_memory tp data s =
     announce (HookingMemoryChanged tp) (s\<lparr>co_memory := bt_modify tp (\<lambda>m. m\<lparr>gm_hooking_memory := data\<rparr>) (co_memory s)\<rparr>)"

definition apply_replica :: "usize \<Rightarrow> gnode_memory \<Rightarrow> coord_state \<Rightarrow> coord_state" where
  "apply_replica tp memory s =
     publish_memory (s\<lparr>co_memory := bt_insert tp (memory\<lparr>gm_n_nodes := Option.bind (map_of (co_memory s) tp) gm_n_nodes\<rparr>) (co_memory s)\<rparr>)"

subsection \<open>Propagations\<close>

definition positions_match :: "coordinator_map \<Rightarrow> usize \<Rightarrow> u32 list \<Rightarrow> bool" where
  "positions_match cm level positions \<longleftrightarrow> list_all (\<lambda>(i, p). p = cm_my_pos cm (level + i)) (zip [0..<length positions] positions)"

definition check_propagation :: "coordinator_map \<Rightarrow> u32 list \<Rightarrow> i64 \<Rightarrow> i32 \<Rightarrow> usize \<Rightarrow> coord_state \<Rightarrow> bool \<times> coord_state" where
  "check_propagation cm positions fp propagation_id level s =
     (let levels = topology_levels (co_topology s) in
      if propagation_id \<in> co_recent_propagations s then (False, s)
      else if levels \<le> level \<or> length positions \<noteq> levels - level then (False, s)
      else if \<not> positions_match cm level positions then (False, s)
      else if fp \<noteq> cm_fp_id cm level then (False, s)
      else (True, s\<lparr>co_recent_propagations := insert propagation_id (co_recent_propagations s)\<rparr>))"

definition rotate_left64 :: "nat \<Rightarrow> u64 \<Rightarrow> u64" where
  "rotate_left64 n w = word_rotl n w"

definition fnv_step :: "u64 \<Rightarrow> u64 \<Rightarrow> u64" where
  "fnv_step h v = rotate_left64 29 (xor h v * 0x100000001b3)"

definition mix_propagation_id :: "u64 \<Rightarrow> i32 \<Rightarrow> i32" where
  "mix_propagation_id node_key counter =
     (let x0 = xor node_key (ucast counter * 0x9e3779b97f4a7c15);
          x1 = xor x0 (drop_bit 30 x0) * 0xbf58476d1ce4e5b9;
          x2 = xor x1 (drop_bit 27 x1) * 0x94d049bb133111eb;
          x3 = xor x2 (drop_bit 31 x2) in
      ucast (drop_bit 32 x3))"

definition node_key :: "coordinator_map \<Rightarrow> usize \<Rightarrow> u64" where
  "node_key cm levels = foldl (\<lambda>h l. fnv_step (fnv_step h (ucast (cm_my_pos cm l))) (cm_fp_id cm l)) 0xcbf29ce484222325 [0..<levels]"

subsection \<open>Commands\<close>

datatype coord_cmd =
    CmdNumberOfNodes
  | CmdReserveEnter usize i64
  | CmdDeleteReserveEnter usize i64
  | CmdGetHookingMemory usize
  | CmdSetHookingMemory usize "typed_value_msg option"
  | CmdApplyReplica usize gnode_memory
  | CmdCheckPropagation "u32 list" i64 i32 usize
  | CmdExpirePropagation i32
  | CmdNextPropagationId u64
  | CmdHandOff
  | CmdInvalidateNNodes

datatype coord_reply =
    RepNumberOfNodes u64
  | RepReserve "reserve_error + reservation"
  | RepDone
  | RepHookingMemory "typed_value_msg option"
  | RepPropagation bool
  | RepPropagationId i32
  | RepHandOff coord_memory

fun coord_handle :: "coordinator_map \<Rightarrow> instant \<Rightarrow> coord_cmd \<Rightarrow> (coord_state, coord_reply, reserve_error) st" where
  "coord_handle cm now CmdNumberOfNodes s =
     (case number_of_nodes cm now s of (Ok n, s') \<Rightarrow> (Ok (RepNumberOfNodes n), s') | (_, s') \<Rightarrow> (Panic, s'))"
| "coord_handle cm now (CmdReserveEnter tp request_id) s =
     (case reserve_enter cm now tp request_id s of
        (Ok r, s') \<Rightarrow> (Ok (RepReserve (Inr r)), s')
      | (Err e, s') \<Rightarrow> (Ok (RepReserve (Inl e)), s')
      | (Panic, s') \<Rightarrow> (Panic, s'))"
| "coord_handle cm now (CmdDeleteReserveEnter tp request_id) s = (Ok RepDone, delete_reserve_enter tp request_id s)"
| "coord_handle cm now (CmdGetHookingMemory tp) s = (Ok (RepHookingMemory (get_hooking_memory tp s)), s)"
| "coord_handle cm now (CmdSetHookingMemory tp data) s = (Ok RepDone, set_hooking_memory tp data s)"
| "coord_handle cm now (CmdApplyReplica tp memory) s = (Ok RepDone, apply_replica tp memory s)"
| "coord_handle cm now (CmdCheckPropagation positions fp propagation_id level) s =
     (case check_propagation cm positions fp propagation_id level s of (b, s') \<Rightarrow> (Ok (RepPropagation b), s'))"
| "coord_handle cm now (CmdExpirePropagation propagation_id) s =
     (Ok RepDone, s\<lparr>co_recent_propagations := co_recent_propagations s - {propagation_id}\<rparr>)"
| "coord_handle cm now (CmdNextPropagationId key) s =
     (let i = mix_propagation_id key (co_next_propagation_id s) in
      (Ok (RepPropagationId i),
       s\<lparr>co_next_propagation_id := co_next_propagation_id s + 1, co_recent_propagations := insert i (co_recent_propagations s)\<rparr>))"
| "coord_handle cm now CmdHandOff s = (Ok (RepHandOff (co_memory s)), s)"
| "coord_handle cm now CmdInvalidateNNodes s = (Ok RepDone, invalidate_n_nodes s)"

text \<open>\<open>Manager::new\<close>, with the hand-off of a retiring identity.\<close>

definition initial_memory :: "topology \<Rightarrow> coord_memory \<Rightarrow> usize \<Rightarrow> (gnode_memory, reserve_error) res" where
  "initial_memory t handoff tp =
     res_bind (expect (topology_gsize t (tp - 1))) (\<lambda>gsize.
     Ok (case map_of handoff tp of Some m \<Rightarrow> m | None \<Rightarrow> gnode_memory_fresh gsize))"

definition coord_new :: "topology \<Rightarrow> coord_config \<Rightarrow> coord_memory option \<Rightarrow> (coord_state, reserve_error) res" where
  "coord_new t config handoff =
     res_bind (fold_res (\<lambda>memory tp. res_bind (initial_memory t (case handoff of None \<Rightarrow> [] | Some h \<Rightarrow> h) tp) (\<lambda>m. Ok (bt_insert tp m memory)))
       [] [1..<topology_levels t + 1]) (\<lambda>memory.
     Ok \<lparr>co_topology = t, co_config = config, co_memory = memory, co_recent_propagations = {}, co_next_propagation_id = 1,
         co_snapshot = memory, co_events = []\<rparr>)"

end
