(* ===== verification/Coord_Laws.thy ===== *)
theory Coord_Laws
  imports Coord_State
begin

section \<open>What the Coordinator guarantees\<close>

text \<open>
  The invariant of the fixed-keys database, that every command keeps it, and the laws of reservations over a
  run: a sequence of commands of a given kind whose times do not decrease, each with its own answers of the map.
\<close>

subsection \<open>One record\<close>

definition memory_ok :: "u32 \<Rightarrow> gnode_memory \<Rightarrow> bool" where
  "memory_ok gsize m \<longleftrightarrow>
     distinct (map bk_reserve_request_id (gm_reserve_list m)) \<and> distinct (map bk_new_pos (gm_reserve_list m)) \<and>
     distinct (map bk_new_eldership (gm_reserve_list m)) \<and> gsize \<le> gm_max_virtual_pos m \<and>
     (\<forall>b \<in> set (gm_reserve_list m). bk_new_pos b \<le> gm_max_virtual_pos m \<and> bk_new_eldership b \<le> gm_max_eldership m)"

lemma fresh_ok: "memory_ok gsize (gnode_memory_fresh gsize)"
  by (simp add: memory_ok_def gnode_memory_fresh_def)

lemma filter_ok: "memory_ok gsize m \<Longrightarrow> memory_ok gsize (m\<lparr>gm_reserve_list := filter P (gm_reserve_list m)\<rparr>)"
  by (auto simp: memory_ok_def distinct_map_filter)

lemma purge_ok: "memory_ok gsize m \<Longrightarrow> memory_ok gsize (purge_bookings now m)"
  by (simp add: purge_bookings_def filter_ok)

lemma map_extend_booking:
  "(\<And>b e. f (b\<lparr>bk_expires_at := e\<rparr>) = f b) \<Longrightarrow> map f (extend_booking i e bs) = map f bs"
  by (induction i e bs rule: extend_booking.induct) auto

lemma extend_ok:
  assumes "memory_ok gsize m"
  shows "memory_ok gsize (m\<lparr>gm_reserve_list := extend_booking i e (gm_reserve_list m)\<rparr>)"
proof -
  have "\<forall>b' \<in> set (extend_booking i e bs). \<exists>b \<in> set bs. bk_new_pos b' = bk_new_pos b \<and> bk_new_eldership b' = bk_new_eldership b" for bs
    by (induction bs) auto
  then show ?thesis using assms by (fastforce simp: memory_ok_def map_extend_booking)
qed

lemma word_Suc: "w \<noteq> -1 \<Longrightarrow> unat (w + 1) = unat w + 1"
proof -
  assume "w \<noteq> -1"
  then have "1 + w \<noteq> 0" by (metis add.commute add_eq_0_iff)
  then have "unat (1 + w) = Suc (unat w)" by (rule unatSuc)
  then show ?thesis by (simp add: add.commute)
qed

lemma find_Some_iff_first: "find P xs = Some x \<Longrightarrow> x \<in> set xs \<and> P x"
  by (auto simp: find_Some_iff)

lemma pick_position_ok:
  assumes "memory_ok gsize m" "\<And>p. p \<in> set free \<Longrightarrow> p < gsize" "pick_position free m = Ok (p, mv)"
  shows "p \<notin> bk_new_pos ` set (gm_reserve_list m)" "p \<le> mv" "gm_max_virtual_pos m \<le> mv"
    "p \<in> set free \<or> unat p = unat (gm_max_virtual_pos m) + 1"
proof -
  let ?free = "find (\<lambda>p. p \<notin> bk_new_pos ` set (gm_reserve_list m)) free"
  have "p \<notin> bk_new_pos ` set (gm_reserve_list m) \<and> p \<le> mv \<and> gm_max_virtual_pos m \<le> mv \<and> (p \<in> set free \<or> unat p = unat (gm_max_virtual_pos m) + 1)"
  proof (cases ?free)
    case (Some q)
    then have "q \<in> set free \<and> q \<notin> bk_new_pos ` set (gm_reserve_list m)" using find_Some_iff_first [OF Some] by blast
    moreover have "p = q" "mv = gm_max_virtual_pos m" using assms(3) Some by (simp_all add: pick_position_def)
    ultimately show ?thesis using assms(1) assms(2) [of q] by (auto simp: memory_ok_def)
  next
    case None
    then have m: "gm_max_virtual_pos m \<noteq> -1" "p = gm_max_virtual_pos m + 1" "mv = p"
      using assms(3) by (auto simp: pick_position_def split: if_splits)
    have u: "unat p = unat (gm_max_virtual_pos m) + 1" using word_Suc [OF m(1)] m(2) by simp
    then have "gm_max_virtual_pos m < p" by (simp add: word_less_nat_alt)
    then show ?thesis using assms(1) m(3) u by (auto simp: memory_ok_def)
  qed
  then show "p \<notin> bk_new_pos ` set (gm_reserve_list m)" "p \<le> mv" "gm_max_virtual_pos m \<le> mv" "p \<in> set free \<or> unat p = unat (gm_max_virtual_pos m) + 1"
    by auto
qed

lemma book_new_ok:
  assumes "memory_ok gsize m" "\<And>p. p \<in> set free \<Longrightarrow> p < gsize" "book_new free i e m = Ok (r, m')"
    "i \<notin> bk_reserve_request_id ` set (gm_reserve_list m)"
  shows "memory_ok gsize m'" "unat (rs_new_eldership r) = unat (gm_max_eldership m) + 1" "gm_max_eldership m' = rs_new_eldership r"
    "rs_new_pos r \<notin> bk_new_pos ` set (gm_reserve_list m)" "rs_new_pos r \<in> set free \<or> unat (rs_new_pos r) = unat (gm_max_virtual_pos m) + 1"
    "gm_reserve_list m' = gm_reserve_list m @
       [\<lparr>bk_reserve_request_id = i, bk_new_pos = rs_new_pos r, bk_new_eldership = rs_new_eldership r, bk_expires_at = e\<rparr>]"
proof -
  obtain p mv where p: "pick_position free m = Ok (p, mv)" "gm_max_eldership m \<noteq> -1" "r = \<lparr>rs_new_pos = p, rs_new_eldership = gm_max_eldership m + 1\<rparr>"
    "m' = m\<lparr>gm_max_virtual_pos := mv, gm_max_eldership := gm_max_eldership m + 1, gm_reserve_list := gm_reserve_list m @
       [\<lparr>bk_reserve_request_id = i, bk_new_pos = p, bk_new_eldership = gm_max_eldership m + 1, bk_expires_at = e\<rparr>]\<rparr>"
    using assms(3) by (auto simp: book_new_def res_simps Let_def split: if_splits)
  note pick = pick_position_ok [OF assms(1,2) p(1)]
  have up: "unat (gm_max_eldership m + 1) = unat (gm_max_eldership m) + 1" using p(2) by (rule word_Suc)
  then have "gm_max_eldership m < gm_max_eldership m + 1" by (simp add: word_less_nat_alt)
  then show "memory_ok gsize m'" using assms(1,4) pick by (auto simp: memory_ok_def p(4) image_iff dest: order.strict_trans1)
  show "unat (rs_new_eldership r) = unat (gm_max_eldership m) + 1" "gm_max_eldership m' = rs_new_eldership r"
    "rs_new_pos r \<notin> bk_new_pos ` set (gm_reserve_list m)" "rs_new_pos r \<in> set free \<or> unat (rs_new_pos r) = unat (gm_max_virtual_pos m) + 1"
    "gm_reserve_list m' = gm_reserve_list m @
       [\<lparr>bk_reserve_request_id = i, bk_new_pos = rs_new_pos r, bk_new_eldership = rs_new_eldership r, bk_expires_at = e\<rparr>]"
    using up pick by (simp_all add: p)
qed

lemma find_request: "find (\<lambda>b. bk_reserve_request_id b = i) bs = None \<longleftrightarrow> i \<notin> bk_reserve_request_id ` set bs"
  by (auto simp: find_None_iff)

lemma extend_booking_set:
  "distinct (map bk_reserve_request_id bs) \<Longrightarrow> b \<in> set bs \<Longrightarrow> bk_reserve_request_id b = i \<Longrightarrow>
     set (extend_booking i e bs) = insert (b\<lparr>bk_expires_at := e\<rparr>) (set bs - {b})"
proof (induction i e bs rule: extend_booking.induct)
  case (2 i e a bs)
  show ?case
  proof (cases "bk_reserve_request_id a = i")
    case True
    then have "a = b" using 2(2-4) by (auto simp: image_iff)
    moreover have "a \<notin> set bs" using 2(2) by auto
    ultimately show ?thesis using True by auto
  next
    case False
    then have "a \<noteq> b" "b \<in> set bs" using 2(3,4) by auto
    then show ?thesis using 2(1) [OF False] 2(2,4) False by auto
  qed
qed simp

text \<open>A reservation: the live booking of the request, or a new one.\<close>

lemma reserve_in_cases:
  assumes "reserve_in free i now ttl m = Ok (r, m')"
  obtains (renewed) b where "b \<in> set (gm_reserve_list m)" "now < bk_expires_at b" "bk_reserve_request_id b = i"
      "r = \<lparr>rs_new_pos = bk_new_pos b, rs_new_eldership = bk_new_eldership b\<rparr>"
      "m' = (purge_bookings now m)\<lparr>gm_reserve_list := extend_booking i (now + ttl) (gm_reserve_list (purge_bookings now m))\<rparr>"
    | (booked) "i \<notin> bk_reserve_request_id ` set (gm_reserve_list (purge_bookings now m))"
      "book_new free i (now + ttl) (purge_bookings now m) = Ok (r, m')"
proof (cases "find (\<lambda>b. bk_reserve_request_id b = i) (gm_reserve_list (purge_bookings now m))")
  case None
  have "i \<notin> bk_reserve_request_id ` set (gm_reserve_list (purge_bookings now m))" using None unfolding find_request .
  then show ?thesis using booked assms None by (simp add: reserve_in_def Let_def)
next
  case (Some b)
  then have "b \<in> set (gm_reserve_list (purge_bookings now m)) \<and> bk_reserve_request_id b = i" by (rule find_Some_iff_first)
  then show ?thesis using renewed [of b] assms Some by (simp add: reserve_in_def Let_def purge_bookings_def)
qed

lemma purge_set: "set (gm_reserve_list (purge_bookings now m)) = {b \<in> set (gm_reserve_list m). now < bk_expires_at b}"
  "gm_max_eldership (purge_bookings now m) = gm_max_eldership m" "gm_max_virtual_pos (purge_bookings now m) = gm_max_virtual_pos m"
  by (auto simp: purge_bookings_def)

definition live_bookings :: "instant \<Rightarrow> gnode_memory \<Rightarrow> booking set" where
  "live_bookings now m = {b \<in> set (gm_reserve_list m). now < bk_expires_at b}"

lemma purge_live: "set (gm_reserve_list (purge_bookings now m)) = live_bookings now m"
  by (auto simp: purge_bookings_def live_bookings_def)

lemma reserve_in_sets:
  assumes "memory_ok gsize m" "\<And>p. p \<in> set free \<Longrightarrow> p < gsize" "reserve_in free i now ttl m = Ok (r, m')"
  obtains (renewed) b where "b \<in> live_bookings now m" "bk_reserve_request_id b = i" "memory_ok gsize m'"
      "r = \<lparr>rs_new_pos = bk_new_pos b, rs_new_eldership = bk_new_eldership b\<rparr>" "gm_max_eldership m' = gm_max_eldership m"
      "set (gm_reserve_list m') = insert (b\<lparr>bk_expires_at := now + ttl\<rparr>) (live_bookings now m - {b})"
      "\<And>b'. b' \<in> live_bookings now m \<Longrightarrow> bk_reserve_request_id b' = i \<Longrightarrow> b' = b"
    | (booked) "i \<notin> bk_reserve_request_id ` live_bookings now m" "memory_ok gsize m'" "gm_max_eldership m' = rs_new_eldership r"
      "gm_max_eldership m < rs_new_eldership r" "rs_new_pos r \<in> set free \<or> unat (rs_new_pos r) = unat (gm_max_virtual_pos m) + 1"
      "set (gm_reserve_list m') = insert \<lparr>bk_reserve_request_id = i, bk_new_pos = rs_new_pos r, bk_new_eldership = rs_new_eldership r,
         bk_expires_at = now + ttl\<rparr> (live_bookings now m)"
proof -
  let ?m = "purge_bookings now m"
  have ok: "memory_ok gsize ?m" by (rule purge_ok [OF assms(1)])
  show ?thesis using assms(3)
  proof (cases rule: reserve_in_cases)
    case (renewed b)
    have d: "distinct (map bk_reserve_request_id (gm_reserve_list ?m))" using ok by (simp add: memory_ok_def)
    have b: "b \<in> set (gm_reserve_list ?m)" using renewed(1,2) by (simp add: purge_set)
    have set': "set (gm_reserve_list m') = insert (b\<lparr>bk_expires_at := now + ttl\<rparr>) (live_bookings now m - {b})"
      using extend_booking_set [OF d b renewed(3)] by (simp add: renewed(5) purge_live)
    have uniq: "b' = b" if "b' \<in> live_bookings now m" "bk_reserve_request_id b' = i" for b'
      using d b that renewed(3) by (auto simp: distinct_map inj_on_def purge_live)
    have live: "b \<in> live_bookings now m" using b by (simp only: purge_live)
    have okm: "memory_ok gsize m'" "gm_max_eldership m' = gm_max_eldership m" using extend_ok [OF ok] by (simp_all add: renewed(5) purge_set)
    show ?thesis by (rule that(1) [OF live renewed(3) okm(1) renewed(4) okm(2) set' uniq])
  next
    case booked
    note new = book_new_ok [OF ok assms(2) booked(2,1)]
    have "gm_max_eldership m < rs_new_eldership r" using new(2) by (simp add: word_less_nat_alt purge_set)
    then show ?thesis
      by (rule that(2) [rotated 3]) (use new booked(1) in \<open>simp_all add: purge_set(2,3) purge_live\<close>)
  qed
qed

subsection \<open>The database\<close>

definition database_ok :: "topology \<Rightarrow> coord_memory \<Rightarrow> bool" where
  "database_ok t mem \<longleftrightarrow> bt_wf mem \<and> (\<forall>tp. map_of mem tp = None \<longleftrightarrow> tp < 1 \<or> topology_levels t < tp) \<and>
     (\<forall>tp m. map_of mem tp = Some m \<longrightarrow> memory_ok (gsizes t ! (tp - 1)) m)"

definition coord_inv :: "coord_state \<Rightarrow> bool" where
  "coord_inv s \<longleftrightarrow> wf_topology (co_topology s) \<and> database_ok (co_topology s) (co_memory s) \<and> co_snapshot s = co_memory s"

text \<open>What is asked of the surroundings: the map offers real positions, a replica is a record a coordinator may hold.\<close>

definition map_real :: "topology \<Rightarrow> coordinator_map \<Rightarrow> bool" where
  "map_real t cm \<longleftrightarrow> (\<forall>l < topology_levels t. \<forall>p \<in> set (cm_free_positions cm l). p < gsizes t ! l)"

fun replica_ok :: "topology \<Rightarrow> coord_cmd \<Rightarrow> bool" where
  "replica_ok t (CmdApplyReplica tp m) \<longleftrightarrow> 1 \<le> tp \<and> tp \<le> topology_levels t \<and> memory_ok (gsizes t ! (tp - 1)) m"
| "replica_ok t _ = True"

lemma database_modify:
  assumes "database_ok t mem" "\<And>m. map_of mem tp = Some m \<Longrightarrow> memory_ok (gsizes t ! (tp - 1)) m \<Longrightarrow> memory_ok (gsizes t ! (tp - 1)) (f m)"
  shows "database_ok t (bt_modify tp f mem)"
  using assms by (auto simp: database_ok_def map_of_bt_modify split: if_splits option.splits)

lemma memory_ok_update [simp]: "memory_ok g (m\<lparr>gm_n_nodes := v\<rparr>) = memory_ok g m" "memory_ok g (m\<lparr>gm_hooking_memory := d\<rparr>) = memory_ok g m"
  by (simp_all add: memory_ok_def)

lemma announce_fields: "co_topology (announce e s) = co_topology s" "co_config (announce e s) = co_config s" "co_memory (announce e s) = co_memory s"
  "co_snapshot (announce e s) = co_memory s" "co_recent_propagations (announce e s) = co_recent_propagations s"
  by (simp_all add: announce_def publish_memory_def)

lemma reserve_enter_Ok:
  assumes "reserve_enter cm now tp i s = (Ok r, s')"
  obtains m m' where "1 \<le> tp" "tp \<le> topology_levels (co_topology s)" "cm_can_reserve cm (tp - 1)" "map_of (co_memory s) tp = Some m"
    "reserve_in (cm_free_positions cm (tp - 1)) i now (booking_ttl (co_config s)) m = Ok (r, m')"
    "s' = announce (Reserved tp r) (s\<lparr>co_memory := bt_modify tp (\<lambda>_. m') (co_memory s)\<rparr>)"
  using assms by (auto simp: reserve_enter_def split: if_splits option.splits res.splits prod.splits)

lemma reserve_enter_Err: "reserve_enter cm now tp i s = (Err e, s') \<Longrightarrow> s' = s"
  by (auto simp: reserve_enter_def split: if_splits option.splits res.splits prod.splits)

lemma reserve_enter_inv:
  assumes "coord_inv s" "map_real (co_topology s) cm" "reserve_enter cm now tp i s = (Ok r, s')"
  shows "coord_inv s' \<and> co_topology s' = co_topology s \<and> co_config s' = co_config s"
proof -
  obtain m m' where m: "1 \<le> tp" "tp \<le> topology_levels (co_topology s)" "map_of (co_memory s) tp = Some m"
    "reserve_in (cm_free_positions cm (tp - 1)) i now (booking_ttl (co_config s)) m = Ok (r, m')"
    "s' = announce (Reserved tp r) (s\<lparr>co_memory := bt_modify tp (\<lambda>_. m') (co_memory s)\<rparr>)"
    using assms(3) by (rule reserve_enter_Ok) blast
  let ?g = "gsizes (co_topology s) ! (tp - 1)"
  have ok: "memory_ok ?g m" using assms(1) m(3) by (simp add: coord_inv_def database_ok_def)
  have free: "p < ?g" if "p \<in> set (cm_free_positions cm (tp - 1))" for p
    using assms(2) that m(1,2) by (auto simp: map_real_def)
  have "memory_ok ?g m'" using ok free m(4) by (rule reserve_in_sets) blast+
  then show ?thesis using assms(1) database_modify [of "co_topology s" "co_memory s" tp "\<lambda>_. m'"]
    by (simp add: coord_inv_def m(5) announce_fields)
qed

lemma number_of_nodes_inv:
  assumes "coord_inv s" "number_of_nodes cm now s = (Ok n, s')"
  shows "coord_inv s' \<and> co_topology s' = co_topology s \<and> co_config s' = co_config s"
proof -
  have "s' = s \<or> (\<exists>v. s' = publish_memory (s\<lparr>co_memory := bt_modify (topology_levels (co_topology s)) (\<lambda>m. m\<lparr>gm_n_nodes := v\<rparr>) (co_memory s)\<rparr>))"
    using assms(2) by (auto simp: number_of_nodes_def Let_def split: option.splits if_splits)
  then show ?thesis
  proof
    assume "\<exists>v. s' = publish_memory (s\<lparr>co_memory := bt_modify (topology_levels (co_topology s)) (\<lambda>m. m\<lparr>gm_n_nodes := v\<rparr>) (co_memory s)\<rparr>)"
    then obtain v where "s' = publish_memory (s\<lparr>co_memory := bt_modify (topology_levels (co_topology s)) (\<lambda>m. m\<lparr>gm_n_nodes := v\<rparr>) (co_memory s)\<rparr>)" ..
    then show ?thesis using assms(1)
      by (auto simp: coord_inv_def publish_memory_def intro!: database_modify)
  qed (use assms(1) in simp)
qed

lemma coord_handle_inv:
  assumes "coord_inv s" "map_real (co_topology s) cm" "replica_ok (co_topology s) c" "coord_handle cm now c s = (Ok rep, s')"
  shows "coord_inv s' \<and> co_topology s' = co_topology s \<and> co_config s' = co_config s"
proof (cases c)
  case CmdNumberOfNodes
  then obtain n where "number_of_nodes cm now s = (Ok n, s')" using assms(4) by (auto split: prod.splits res.splits)
  then show ?thesis using number_of_nodes_inv [OF assms(1)] by blast
next
  case (CmdReserveEnter tp i)
  then consider r where "reserve_enter cm now tp i s = (Ok r, s')" | e where "reserve_enter cm now tp i s = (Err e, s')"
    using assms(4) by (auto split: prod.splits res.splits)
  then show ?thesis
  proof cases
    case 1
    then show ?thesis using reserve_enter_inv [OF assms(1,2)] by blast
  next
    case 2
    then show ?thesis using reserve_enter_Err [OF 2] assms(1) by simp
  qed
next
  case (CmdDeleteReserveEnter tp i)
  then show ?thesis using assms(1,4) by (auto simp: delete_reserve_enter_def coord_inv_def announce_fields intro!: database_modify filter_ok)
next
  case (CmdSetHookingMemory tp d)
  then show ?thesis using assms(1,4)
    by (auto simp: set_hooking_memory_def coord_inv_def announce_fields intro!: database_modify)
next
  case (CmdApplyReplica tp m)
  have "database_ok (co_topology s) (bt_insert tp (m\<lparr>gm_n_nodes := v\<rparr>) (co_memory s))" for v
    using assms(1,3) CmdApplyReplica by (auto simp: coord_inv_def database_ok_def bt.wf_insert bt.get_insert)
  then show ?thesis using assms(1,4) CmdApplyReplica by (auto simp: apply_replica_def coord_inv_def publish_memory_def)
next
  case (CmdCheckPropagation ps fp i l)
  then show ?thesis using assms(1,4) by (auto simp: check_propagation_def coord_inv_def Let_def split: if_splits)
next
  case CmdInvalidateNNodes
  then show ?thesis using assms(1,4)
    by (auto simp: invalidate_n_nodes_def publish_memory_def coord_inv_def intro!: database_modify)
qed (use assms(1,4) in \<open>auto simp: coord_inv_def Let_def\<close>)

subsection \<open>Runs\<close>

lemma initial_memory_ok:
  assumes "wf_topology t" "1 \<le> tp" "tp \<le> topology_levels t" "\<And>tp m. map_of handoff tp = Some m \<Longrightarrow> memory_ok (gsizes t ! (tp - 1)) m"
  shows "\<exists>m. initial_memory t handoff tp = Ok m \<and> memory_ok (gsizes t ! (tp - 1)) m"
  using assms by (auto simp: initial_memory_def topology_gsize_def topology_levels_def fresh_ok split: option.splits)

lemma initial_database:
  assumes "wf_topology t" "\<And>tp m. map_of handoff tp = Some m \<Longrightarrow> memory_ok (gsizes t ! (tp - 1)) m" "n \<le> topology_levels t"
  shows "\<exists>mem. fold_res (\<lambda>memory tp. res_bind (initial_memory t handoff tp) (\<lambda>m. Ok (bt_insert tp m memory))) [] [1..<n + 1] = Ok mem \<and>
     bt_wf mem \<and> (\<forall>tp. map_of mem tp = None \<longleftrightarrow> tp < 1 \<or> n < tp) \<and> (\<forall>tp m. map_of mem tp = Some m \<longrightarrow> memory_ok (gsizes t ! (tp - 1)) m)"
  using assms(3)
proof (induction n)
  case 0
  then show ?case by (auto simp: bt_wf_def)
next
  case (Suc n)
  obtain mem where mem: "fold_res (\<lambda>memory tp. res_bind (initial_memory t handoff tp) (\<lambda>m. Ok (bt_insert tp m memory))) [] [1..<n + 1] = Ok mem"
    "bt_wf mem" "\<forall>tp. map_of mem tp = None \<longleftrightarrow> tp < 1 \<or> n < tp" "\<forall>tp m. map_of mem tp = Some m \<longrightarrow> memory_ok (gsizes t ! (tp - 1)) m"
    using Suc.IH [OF Suc_leD [OF Suc.prems]] by blast
  obtain m where m: "initial_memory t handoff (Suc n) = Ok m" "memory_ok (gsizes t ! n) m"
    using initial_memory_ok [where tp = "Suc n" and handoff = handoff, OF assms(1) _ _ assms(2)] Suc.prems by auto
  have "[1..<Suc n + 1] = [1..<n + 1] @ [Suc n]" by simp
  then have "fold_res (\<lambda>memory tp. res_bind (initial_memory t handoff tp) (\<lambda>m. Ok (bt_insert tp m memory))) [] [1..<Suc n + 1] = Ok (bt_insert (Suc n) m mem)"
    using mem(1) m(1) by (simp only: fold_res_append res_bind.simps fold_res.simps)
  moreover have get: "map_of (bt_insert (Suc n) m mem) = (map_of mem)(Suc n \<mapsto> m)" using mem(2) by (rule bt.get_insert)
  have "map_of (bt_insert (Suc n) m mem) tp = None \<longleftrightarrow> tp < 1 \<or> Suc n < tp" for tp
    using mem(3) [rule_format, of tp] by (cases "tp = Suc n") (simp_all add: get, arith)
  moreover have "memory_ok (gsizes t ! (tp - 1)) m'" if "map_of (bt_insert (Suc n) m mem) tp = Some m'" for tp m'
    using mem(4) [rule_format, of tp m'] m(2) that by (cases "tp = Suc n") (simp_all add: get)
  ultimately show ?case using bt.wf_insert [OF mem(2)] by blast
qed

lemma coord_new_inv:
  assumes "wf_topology t" "\<And>h tp m. handoff = Some h \<Longrightarrow> map_of h tp = Some m \<Longrightarrow> memory_ok (gsizes t ! (tp - 1)) m"
  shows "\<exists>s. coord_new t config handoff = Ok s \<and> coord_inv s \<and> co_topology s = t \<and> co_config s = config"
proof -
  let ?h = "case handoff of None \<Rightarrow> [] | Some h \<Rightarrow> h"
  have "memory_ok (gsizes t ! (tp - 1)) m" if "map_of ?h tp = Some m" for tp m using that assms(2) by (cases handoff) auto
  note h = initial_database [where handoff = ?h and n = "topology_levels t", OF assms(1) this order_refl]
  obtain mem where "fold_res (\<lambda>memory tp. res_bind (initial_memory t ?h tp) (\<lambda>m. Ok (bt_insert tp m memory))) [] [1..<topology_levels t + 1] = Ok mem"
    "database_ok t mem" using h by (auto simp: database_ok_def)
  then show ?thesis using assms(1) by (simp add: coord_new_def coord_inv_def)
qed

text \<open>A step serves one command that does not panic; \<open>allowed\<close> says which commands a run is made of.\<close>

inductive coord_steps :: "(coord_cmd \<Rightarrow> bool) \<Rightarrow> instant \<times> coord_state \<Rightarrow> instant \<times> coord_state \<Rightarrow> bool" for allowed where
  rest: "coord_steps allowed x x"
| act: "coord_steps allowed x (t, s) \<Longrightarrow> t \<le> now \<Longrightarrow> allowed c \<Longrightarrow> map_real (co_topology s) cm \<Longrightarrow> coord_handle cm now c s = (Ok rep, s') \<Longrightarrow>
     coord_steps allowed x (now, s')"

lemma coord_steps_inv:
  assumes "coord_steps allowed x y" "\<And>c. allowed c \<Longrightarrow> replica_ok (co_topology (snd x)) c" "coord_inv (snd x)"
  shows "coord_inv (snd y) \<and> co_topology (snd y) = co_topology (snd x) \<and> co_config (snd y) = co_config (snd x)"
  using assms
proof (induction rule: coord_steps.induct)
  case (act x t s now c cm rep s')
  then show ?case using coord_handle_inv [of s cm c now rep s'] by simp
qed simp

lemma coord_steps_time: "coord_steps allowed x y \<Longrightarrow> fst x \<le> fst y"
  by (induction rule: coord_steps.induct) auto

end
