(* ===== verification/Coord_Reservations.thy ===== *)
theory Coord_Reservations
  imports Coord_Laws
begin

section \<open>Reservations over a run\<close>

text \<open>
  What the coordinator promises of the positions and elderships it hands out, and three behaviours its comments
  describe otherwise: the first virtual position, the counters after a stale replica, and a replica at the end of
  the eldership range.
\<close>

subsection \<open>How a command changes a record\<close>

text \<open>A reservation at this level, or bookings dropped by a deletion at this level.\<close>

definition record_change :: "coordinator_map \<Rightarrow> instant \<Rightarrow> duration \<Rightarrow> usize \<Rightarrow> coord_cmd \<Rightarrow> gnode_memory \<Rightarrow> gnode_memory \<Rightarrow> bool" where
  "record_change cm now ttl tp c m m' \<longleftrightarrow>
     (\<exists>i r. c = CmdReserveEnter tp i \<and> reserve_in (cm_free_positions cm (tp - 1)) i now ttl m = Ok (r, m')) \<or>
     (\<exists>P. gm_reserve_list m' = filter P (gm_reserve_list m) \<and> gm_max_eldership m' = gm_max_eldership m \<and>
        (\<forall>b. c \<noteq> CmdDeleteReserveEnter tp (bk_reserve_request_id b) \<longrightarrow> P b))"

lemma record_same: "gm_reserve_list m' = gm_reserve_list m \<Longrightarrow> gm_max_eldership m' = gm_max_eldership m \<Longrightarrow> record_change cm now ttl tp c m m'"
  unfolding record_change_def by (intro disjI2 exI [where x = "\<lambda>_. True"]) simp

lemma record_unchanged [simp]: "record_change cm now ttl tp c m m" "record_change cm now ttl tp c m (m\<lparr>gm_n_nodes := v\<rparr>)"
  "record_change cm now ttl tp c m (m\<lparr>gm_hooking_memory := d\<rparr>)"
  by (simp_all add: record_same)

lemma handle_record:
  assumes "coord_handle cm now c s = (Ok rep, s')" "map_of (co_memory s) tp = Some m" "\<And>m. c \<noteq> CmdApplyReplica tp m" "bt_wf (co_memory s)"
  shows "\<exists>m'. map_of (co_memory s') tp = Some m' \<and> record_change cm now (booking_ttl (co_config s)) tp c m m'"
proof (cases c)
  case CmdNumberOfNodes
  then have "s' = s \<or> (\<exists>v. co_memory s' = bt_modify (topology_levels (co_topology s)) (\<lambda>m. m\<lparr>gm_n_nodes := v\<rparr>) (co_memory s))"
    using assms(1) by (auto simp: number_of_nodes_def publish_memory_def Let_def split: prod.splits res.splits option.splits if_splits)
  then show ?thesis using assms(2) by (auto simp: map_of_bt_modify)
next
  case (CmdReserveEnter tp' i)
  then consider r where "reserve_enter cm now tp' i s = (Ok r, s')" | e where "reserve_enter cm now tp' i s = (Err e, s')"
    using assms(1) by (auto split: prod.splits res.splits)
  then show ?thesis
  proof cases
    case (1 r)
    obtain m0 m' where m': "map_of (co_memory s) tp' = Some m0"
      "reserve_in (cm_free_positions cm (tp' - 1)) i now (booking_ttl (co_config s)) m0 = Ok (r, m')"
      "s' = announce (Reserved tp' r) (s\<lparr>co_memory := bt_modify tp' (\<lambda>_. m') (co_memory s)\<rparr>)"
      using 1 by (rule reserve_enter_Ok) blast
    show ?thesis
    proof (cases "tp' = tp")
      case True
      then have "record_change cm now (booking_ttl (co_config s)) tp c m m'" using m' assms(2) CmdReserveEnter by (auto simp: record_change_def)
      then show ?thesis using m' True by (simp add: announce_fields map_of_bt_modify)
    next
      case False
      then show ?thesis using m' assms(2) by (auto simp: announce_fields map_of_bt_modify)
    qed
  next
    case 2
    then show ?thesis using reserve_enter_Err [OF 2] assms(2) by simp
  qed
next
  case (CmdDeleteReserveEnter tp' i)
  then have s': "co_memory s' = bt_modify tp' (\<lambda>m. m\<lparr>gm_reserve_list := filter (\<lambda>b. bk_reserve_request_id b \<noteq> i) (gm_reserve_list m)\<rparr>) (co_memory s)"
    using assms(1) by (auto simp: delete_reserve_enter_def announce_fields)
  show ?thesis
  proof (cases "tp' = tp")
    case True
    have "record_change cm now (booking_ttl (co_config s)) tp c m (m\<lparr>gm_reserve_list := filter (\<lambda>b. bk_reserve_request_id b \<noteq> i) (gm_reserve_list m)\<rparr>)"
      unfolding record_change_def using CmdDeleteReserveEnter True
      by (intro disjI2 exI [where x = "\<lambda>b. bk_reserve_request_id b \<noteq> i"]) auto
    then show ?thesis using assms(2) True by (simp add: s' map_of_bt_modify)
  next
    case False
    then show ?thesis using assms(2) by (auto simp: s' map_of_bt_modify)
  qed
next
  case (CmdSetHookingMemory tp' d)
  then show ?thesis using assms(1,2) by (auto simp: set_hooking_memory_def announce_fields map_of_bt_modify)
next
  case (CmdApplyReplica tp' m1)
  then have "tp' \<noteq> tp" using assms(3) by blast
  then show ?thesis using assms(1,2,4) CmdApplyReplica by (auto simp: apply_replica_def publish_memory_def bt.get_insert)
next
  case (CmdCheckPropagation ps fp i l)
  then show ?thesis using assms(1,2) by (auto simp: check_propagation_def Let_def split: if_splits)
next
  case CmdInvalidateNNodes
  then show ?thesis using assms(1,2) by (auto simp: invalidate_n_nodes_def publish_memory_def map_of_bt_modify)
qed (use assms(1,2) in \<open>auto simp: Let_def\<close>)

text \<open>A live booking stays, with its position and eldership, unless its own request is deleted.\<close>

definition booked_until :: "instant \<Rightarrow> i64 \<Rightarrow> reservation \<Rightarrow> gnode_memory \<Rightarrow> bool" where
  "booked_until e i r m \<longleftrightarrow> (\<exists>b \<in> set (gm_reserve_list m). bk_reserve_request_id b = i \<and> bk_new_pos b = rs_new_pos r \<and>
     bk_new_eldership b = rs_new_eldership r \<and> e \<le> bk_expires_at b)"

lemma change_keeps_booking:
  assumes "record_change cm now ttl tp c m m'" "memory_ok g m" "\<And>p. p \<in> set (cm_free_positions cm (tp - 1)) \<Longrightarrow> p < g"
    "booked_until e i r m" "now < e" "e \<le> now + ttl" "c \<noteq> CmdDeleteReserveEnter tp i"
  shows "booked_until e i r m'"
proof -
  obtain b where b: "b \<in> set (gm_reserve_list m)" "bk_reserve_request_id b = i" "bk_new_pos b = rs_new_pos r" "bk_new_eldership b = rs_new_eldership r"
    "e \<le> bk_expires_at b" using assms(4) by (auto simp: booked_until_def)
  have live: "b \<in> live_bookings now m" using b assms(5) by (simp add: live_bookings_def)
  from assms(1) consider i' r' where "reserve_in (cm_free_positions cm (tp - 1)) i' now ttl m = Ok (r', m')"
    | P where "gm_reserve_list m' = filter P (gm_reserve_list m)" "\<forall>b. c \<noteq> CmdDeleteReserveEnter tp (bk_reserve_request_id b) \<longrightarrow> P b"
    unfolding record_change_def by blast
  then show ?thesis
  proof cases
    case (1 i' r')
    have "\<exists>b' \<in> set (gm_reserve_list m'). bk_reserve_request_id b' = i \<and> bk_new_pos b' = bk_new_pos b \<and> bk_new_eldership b' = bk_new_eldership b \<and> e \<le> bk_expires_at b'"
      using assms(2,3) 1
    proof (rule reserve_in_sets)
      fix b0 assume "set (gm_reserve_list m') = insert (b0\<lparr>bk_expires_at := now + ttl\<rparr>) (live_bookings now m - {b0})"
      then show ?thesis using live b assms(6) by (cases "b0 = b") auto
    next
      assume "set (gm_reserve_list m') = insert \<lparr>bk_reserve_request_id = i', bk_new_pos = rs_new_pos r', bk_new_eldership = rs_new_eldership r',
         bk_expires_at = now + ttl\<rparr> (live_bookings now m)"
      then show ?thesis using live b by auto
    qed
    then show ?thesis using b by (auto simp: booked_until_def)
  next
    case (2 P)
    have "P b" using 2(2) assms(7) b(2) by blast
    then have "b \<in> set (gm_reserve_list m')" using b(1) 2(1) by simp
    then show ?thesis using b by (auto simp: booked_until_def)
  qed
qed

text \<open>An eldership once given belongs to the request it was given to.\<close>

definition owns_eldership :: "u64 \<Rightarrow> i64 \<Rightarrow> gnode_memory \<Rightarrow> bool" where
  "owns_eldership e i m \<longleftrightarrow> e \<le> gm_max_eldership m \<and> (\<forall>b \<in> set (gm_reserve_list m). bk_new_eldership b = e \<longrightarrow> bk_reserve_request_id b = i)"

lemma reserve_keeps_eldership:
  assumes "memory_ok g m" "\<And>p. p \<in> set free \<Longrightarrow> p < g" "reserve_in free i' now ttl m = Ok (r', m')" "owns_eldership e i m"
  shows "owns_eldership e i m' \<and> (rs_new_eldership r' = e \<longrightarrow> i' = i)"
  using assms(1-3)
proof (rule reserve_in_sets)
  fix b0
  assume "b0 \<in> live_bookings now m" "bk_reserve_request_id b0 = i'" "r' = \<lparr>rs_new_pos = bk_new_pos b0, rs_new_eldership = bk_new_eldership b0\<rparr>"
    "gm_max_eldership m' = gm_max_eldership m" "set (gm_reserve_list m') = insert (b0\<lparr>bk_expires_at := now + ttl\<rparr>) (live_bookings now m - {b0})"
  then show ?thesis using assms(4) by (auto simp: owns_eldership_def live_bookings_def)
next
  assume "gm_max_eldership m' = rs_new_eldership r'" "gm_max_eldership m < rs_new_eldership r'"
    "set (gm_reserve_list m') = insert \<lparr>bk_reserve_request_id = i', bk_new_pos = rs_new_pos r', bk_new_eldership = rs_new_eldership r',
       bk_expires_at = now + ttl\<rparr> (live_bookings now m)"
  then show ?thesis using assms(4) by (auto simp: owns_eldership_def live_bookings_def)
qed

lemma change_keeps_eldership:
  assumes "record_change cm now ttl tp c m m'" "memory_ok g m" "\<And>p. p \<in> set (cm_free_positions cm (tp - 1)) \<Longrightarrow> p < g" "owns_eldership e i m"
  shows "owns_eldership e i m'"
proof -
  from assms(1) consider i' r' where "reserve_in (cm_free_positions cm (tp - 1)) i' now ttl m = Ok (r', m')"
    | P where "gm_reserve_list m' = filter P (gm_reserve_list m)" "gm_max_eldership m' = gm_max_eldership m"
    unfolding record_change_def by blast
  then show ?thesis
  proof cases
    case (1 i' r')
    then show ?thesis using reserve_keeps_eldership [OF assms(2,3) 1 assms(4)] by blast
  next
    case (2 P)
    then show ?thesis using assms(4) by (simp add: owns_eldership_def)
  qed
qed

subsection \<open>Over a run\<close>

lemma steps_record:
  assumes "coord_steps allowed x y" "fst y \<le> until" "coord_inv (snd x)" "map_of (co_memory (snd x)) tp = Some m" "Q m"
    "\<And>c. allowed c \<Longrightarrow> replica_ok (co_topology (snd x)) c" "\<And>c m. allowed c \<Longrightarrow> c \<noteq> CmdApplyReplica tp m"
    "\<And>cm now c m m'. fst x \<le> now \<Longrightarrow> now \<le> until \<Longrightarrow> allowed c \<Longrightarrow>
       (\<And>p. p \<in> set (cm_free_positions cm (tp - 1)) \<Longrightarrow> p < gsizes (co_topology (snd x)) ! (tp - 1)) \<Longrightarrow>
       memory_ok (gsizes (co_topology (snd x)) ! (tp - 1)) m \<Longrightarrow>
       record_change cm now (booking_ttl (co_config (snd x))) tp c m m' \<Longrightarrow> Q m \<Longrightarrow> Q m'"
  shows "\<exists>m'. map_of (co_memory (snd y)) tp = Some m' \<and> Q m'"
  using assms
proof (induction rule: coord_steps.induct)
  case (act x t s now c cm rep s')
  obtain m1 where m1: "map_of (co_memory s) tp = Some m1" "Q m1" using act.IH act.hyps(2) act.prems by auto
  have inv: "coord_inv s" "co_topology s = co_topology (snd x)" "co_config s = co_config (snd x)"
    using coord_steps_inv [OF act.hyps(1)] act.prems(2,5) by auto
  have db: "database_ok (co_topology s) (co_memory s)" using inv(1) by (simp add: coord_inv_def)
  have tp: "1 \<le> tp" "tp \<le> topology_levels (co_topology s)" "memory_ok (gsizes (co_topology s) ! (tp - 1)) m1" "bt_wf (co_memory s)"
    using db m1(1) unfolding database_ok_def by (metis option.distinct(1) not_less)+
  have "\<exists>m'. map_of (co_memory s') tp = Some m' \<and> record_change cm now (booking_ttl (co_config s)) tp c m1 m'"
    using act.prems(6) [OF act.hyps(3)] by (intro handle_record [OF act.hyps(5) m1(1) _ tp(4)])
  then obtain m' where m': "map_of (co_memory s') tp = Some m'" "record_change cm now (booking_ttl (co_config s)) tp c m1 m'" by blast
  have free: "p < gsizes (co_topology s) ! (tp - 1)" if "p \<in> set (cm_free_positions cm (tp - 1))" for p
    using act.hyps(4) that tp(1,2) by (auto simp: map_real_def)
  have "fst x \<le> now" using coord_steps_time [OF act.hyps(1)] act.hyps(2) by simp
  then have "Q m'" using act.prems(7) [of now c cm m1 m'] act.prems(1) act.hyps(3) free tp(3) m'(2) m1(2) by (simp add: inv)
  then show ?case using m'(1) by simp
qed simp

definition coord_run :: "topology \<Rightarrow> coord_config \<Rightarrow> instant \<times> coord_state \<Rightarrow> bool" where
  "coord_run t config x \<longleftrightarrow> (\<exists>s0. coord_new t config None = Ok s0 \<and> coord_steps (replica_ok t) (0, s0) x)"

lemma coord_run_inv:
  assumes "wf_topology t" "coord_run t config x"
  shows "coord_inv (snd x)" "co_topology (snd x) = t" "co_config (snd x) = config"
proof -
  obtain s0 where "coord_new t config None = Ok s0" "coord_steps (replica_ok t) (0, s0) x" using assms(2) by (auto simp: coord_run_def)
  moreover have "\<exists>s. coord_new t config None = Ok s \<and> coord_inv s \<and> co_topology s = t \<and> co_config s = config"
    using assms(1) by (intro coord_new_inv) auto
  ultimately show "coord_inv (snd x)" "co_topology (snd x) = t" "co_config (snd x) = config"
    using coord_steps_inv [of "replica_ok t" "(0, s0)" x] by auto
qed

lemma reserved_record:
  assumes "coord_inv s" "map_real (co_topology s) cm" "reserve_enter cm now tp i s = (Ok r, s1)"
  shows "\<exists>m1. map_of (co_memory s1) tp = Some m1 \<and> booked_until (now + booking_ttl (co_config s)) i r m1 \<and> owns_eldership (rs_new_eldership r) i m1"
proof -
  obtain m m' where m: "1 \<le> tp" "tp \<le> topology_levels (co_topology s)" "map_of (co_memory s) tp = Some m"
    "reserve_in (cm_free_positions cm (tp - 1)) i now (booking_ttl (co_config s)) m = Ok (r, m')"
    "s1 = announce (Reserved tp r) (s\<lparr>co_memory := bt_modify tp (\<lambda>_. m') (co_memory s)\<rparr>)"
    using assms(3) by (rule reserve_enter_Ok) blast
  let ?g = "gsizes (co_topology s) ! (tp - 1)"
  have ok: "memory_ok ?g m" using assms(1) m(3) by (simp add: coord_inv_def database_ok_def)
  have free: "p < ?g" if "p \<in> set (cm_free_positions cm (tp - 1))" for p
    using assms(2) that m(1,2) by (auto simp: map_real_def)
  have b: "booked_until (now + booking_ttl (co_config s)) i r m'"
    using ok free m(4)
  proof (rule reserve_in_sets)
    fix b assume "bk_reserve_request_id b = i" "r = \<lparr>rs_new_pos = bk_new_pos b, rs_new_eldership = bk_new_eldership b\<rparr>"
      "set (gm_reserve_list m') = insert (b\<lparr>bk_expires_at := now + booking_ttl (co_config s)\<rparr>) (live_bookings now m - {b})"
    then show ?thesis by (simp add: booked_until_def)
  next
    assume "set (gm_reserve_list m') = insert \<lparr>bk_reserve_request_id = i, bk_new_pos = rs_new_pos r, bk_new_eldership = rs_new_eldership r,
         bk_expires_at = now + booking_ttl (co_config s)\<rparr> (live_bookings now m)"
    then show ?thesis by (simp add: booked_until_def)
  qed
  have ok': "memory_ok ?g m'" using ok free m(4) by (rule reserve_in_sets) blast+
  obtain b0 where b0: "b0 \<in> set (gm_reserve_list m')" "bk_reserve_request_id b0 = i" "bk_new_eldership b0 = rs_new_eldership r"
    using b by (auto simp: booked_until_def)
  have "bk_reserve_request_id b1 = i" if "b1 \<in> set (gm_reserve_list m')" "bk_new_eldership b1 = rs_new_eldership r" for b1
  proof -
    have "inj_on bk_new_eldership (set (gm_reserve_list m'))" using ok' by (simp add: memory_ok_def distinct_map)
    then have "b1 = b0" by (rule inj_onD) (use that b0 in simp_all)
    then show ?thesis using b0(2) by simp
  qed
  moreover have "rs_new_eldership r \<le> gm_max_eldership m'" using ok' b0 by (auto simp: memory_ok_def)
  ultimately have "owns_eldership (rs_new_eldership r) i m'" by (simp add: owns_eldership_def)
  then show ?thesis using b m(3,5) by (simp add: announce_fields map_of_bt_modify)
qed

subsection \<open>Properties\<close>

text \<open>C13: A reservation is idempotent: once a request has been granted a position and an eldership at a level, asking again
  under the same identifier before the booking expires is answered with the same position and eldership, whatever
  other requests were served in between, unless the booking was deleted or a replica replaced the record.\<close>

theorem reserve_idempotent:
  assumes "wf_topology t" "coord_run t config (t0, s)" "map_real t cm" "t0 \<le> now" "reserve_enter cm now tp i s = (Ok r, s1)"
    "coord_steps (\<lambda>c. replica_ok t c \<and> c \<noteq> CmdDeleteReserveEnter tp i \<and> (\<forall>m. c \<noteq> CmdApplyReplica tp m)) (now, s1) (t', s')"
    "t' \<le> now'" "now' < now + booking_ttl config" "map_real t cm'" "cm_can_reserve cm' (tp - 1)"
  shows "\<exists>s2. reserve_enter cm' now' tp i s' = (Ok r, s2)"
proof -
  let ?e = "now + booking_ttl config"
  note run = coord_run_inv [OF assms(1,2), simplified]
  note inv1 = reserve_enter_inv [OF run(1) _ assms(5), unfolded run(2,3), OF assms(3)]
  obtain m1 where m1: "map_of (co_memory s1) tp = Some m1" "booked_until ?e i r m1"
    using reserved_record [OF run(1) _ assms(5), unfolded run(2,3), OF assms(3)] by blast
  have "\<exists>m'. map_of (co_memory (snd (t', s'))) tp = Some m' \<and> booked_until ?e i r m'"
  proof (rule steps_record [where until = now', OF assms(6)])
    fix cm'' n c m m'
    assume h: "fst (now, s1) \<le> n" "n \<le> now'" "replica_ok t c \<and> c \<noteq> CmdDeleteReserveEnter tp i \<and> (\<forall>m. c \<noteq> CmdApplyReplica tp m)"
      "memory_ok (gsizes (co_topology (snd (now, s1))) ! (tp - 1)) m" "record_change cm'' n (booking_ttl (co_config (snd (now, s1)))) tp c m m'" "booked_until ?e i r m"
      and free: "\<And>p. p \<in> set (cm_free_positions cm'' (tp - 1)) \<Longrightarrow> p < gsizes (co_topology (snd (now, s1))) ! (tp - 1)"
    show "booked_until ?e i r m'"
      by (rule change_keeps_booking [OF h(5,4) free h(6)]) (use h assms(8) inv1 in simp_all)
  qed (use assms(7) inv1 m1 in simp_all)
  then obtain m' b where b: "map_of (co_memory s') tp = Some m'" "b \<in> set (gm_reserve_list m')" "bk_reserve_request_id b = i"
    "bk_new_pos b = rs_new_pos r" "bk_new_eldership b = rs_new_eldership r" "?e \<le> bk_expires_at b" by (auto simp: booked_until_def)
  have inv2: "coord_inv s'" "co_topology s' = t" using coord_steps_inv [OF assms(6)] inv1 by auto
  have ok: "1 \<le> tp" "tp \<le> topology_levels t" "memory_ok (gsizes t ! (tp - 1)) m'"
    using inv2 b(1) unfolding coord_inv_def database_ok_def by (metis option.distinct(1) not_less)+
  let ?m = "purge_bookings now' m'"
  have "find (\<lambda>b. bk_reserve_request_id b = i) (gm_reserve_list ?m) \<noteq> None"
    using b assms(8) by (auto simp: find_None_iff purge_set intro!: exI [of _ b])
  then obtain b' where b': "find (\<lambda>b. bk_reserve_request_id b = i) (gm_reserve_list ?m) = Some b'" by blast
  then have "b' \<in> set (gm_reserve_list ?m) \<and> bk_reserve_request_id b' = i" by (rule find_Some_iff_first)
  then have in_m': "b' \<in> set (gm_reserve_list m')" "bk_reserve_request_id b' = i" by (simp_all add: purge_set)
  have "inj_on bk_reserve_request_id (set (gm_reserve_list m'))" using ok(3) by (simp add: memory_ok_def distinct_map)
  then have "b' = b" by (rule inj_onD) (use in_m' b in simp_all)
  then show ?thesis using ok b b' assms(10) inv2 by (simp add: reserve_enter_def reserve_in_def Let_def)
qed

text \<open>C14: Elderships are never handed out twice: over any run in which no replica replaces the record of the level, two
  requests that are ever granted the same eldership there are the same request.\<close>

theorem elderships_never_reused:
  assumes "wf_topology t" "coord_run t config (t0, s)" "map_real t cm" "t0 \<le> now" "reserve_enter cm now tp i s = (Ok r, s1)"
    "coord_steps (\<lambda>c. replica_ok t c \<and> (\<forall>m. c \<noteq> CmdApplyReplica tp m)) (now, s1) (t', s')"
    "t' \<le> now'" "map_real t cm'" "reserve_enter cm' now' tp i' s' = (Ok r', s2)" "rs_new_eldership r' = rs_new_eldership r"
  shows "i' = i"
proof -
  let ?e = "rs_new_eldership r"
  note run = coord_run_inv [OF assms(1,2), simplified]
  note inv1 = reserve_enter_inv [OF run(1) _ assms(5), unfolded run(2,3), OF assms(3)]
  obtain m1 where m1: "map_of (co_memory s1) tp = Some m1" "owns_eldership ?e i m1"
    using reserved_record [OF run(1) _ assms(5), unfolded run(2,3), OF assms(3)] by blast
  have "\<exists>m'. map_of (co_memory (snd (t', s'))) tp = Some m' \<and> owns_eldership ?e i m'"
  proof (rule steps_record [where until = t', OF assms(6)])
    fix cm'' n c m m'
    assume h: "memory_ok (gsizes (co_topology (snd (now, s1))) ! (tp - 1)) m"
      "record_change cm'' n (booking_ttl (co_config (snd (now, s1)))) tp c m m'" "owns_eldership ?e i m"
      and free: "\<And>p. p \<in> set (cm_free_positions cm'' (tp - 1)) \<Longrightarrow> p < gsizes (co_topology (snd (now, s1))) ! (tp - 1)"
    show "owns_eldership ?e i m'" by (rule change_keeps_eldership [OF h(2,1) free h(3)])
  qed (use inv1 m1 in simp_all)
  then obtain m' where m': "map_of (co_memory s') tp = Some m'" "owns_eldership ?e i m'" by auto
  have inv2: "coord_inv s'" "co_topology s' = t" using coord_steps_inv [OF assms(6)] inv1 by auto
  obtain m m2 where r: "1 \<le> tp" "tp \<le> topology_levels (co_topology s')" "map_of (co_memory s') tp = Some m"
    "reserve_in (cm_free_positions cm' (tp - 1)) i' now' (booking_ttl (co_config s')) m = Ok (r', m2)"
    using assms(9) by (rule reserve_enter_Ok) blast
  have ok: "memory_ok (gsizes t ! (tp - 1)) m'" using inv2 m'(1) by (simp add: coord_inv_def database_ok_def)
  have free: "p < gsizes t ! (tp - 1)" if "p \<in> set (cm_free_positions cm' (tp - 1))" for p
    using assms(8) that r(1,2) inv2(2) by (auto simp: map_real_def)
  have "m = m'" using r(3) m'(1) by simp
  then show ?thesis using reserve_keeps_eldership [OF ok free r(4) [unfolded \<open>m = m'\<close>] m'(2)] assms(10) by blast
qed


subsection \<open>A concrete coordinator\<close>

definition sample_map :: coordinator_map where
  "sample_map = \<lparr>cm_n_nodes = 1, cm_free_positions = (\<lambda>_. [2]), cm_can_reserve = (\<lambda>_. True), cm_my_pos = (\<lambda>_. 0), cm_fp_id = (\<lambda>_. 5)\<rparr>"

definition full_map :: coordinator_map where
  "full_map = sample_map\<lparr>cm_free_positions := (\<lambda>_. [])\<rparr>"

definition sample_topology :: topology where "sample_topology = \<lparr>gsizes = [4]\<rparr>"

definition sample_coord :: coord_state where
  "sample_coord = \<lparr>co_topology = sample_topology, co_config = coord_config_default, co_memory = [(1, gnode_memory_fresh 4)],
     co_recent_propagations = {}, co_next_propagation_id = 1, co_snapshot = [(1, gnode_memory_fresh 4)], co_events = []\<rparr>"

definition sample_reserved :: coord_state where
  "sample_reserved = snd (reserve_enter sample_map 10 1 7 sample_coord)"

lemma sample_coord_new: "coord_new sample_topology coord_config_default None = Ok sample_coord"
  by (simp add: coord_new_def sample_coord_def sample_topology_def topology_levels_def topology_gsize_def initial_memory_def)

lemma sample_wf: "wf_topology sample_topology" "map_real sample_topology sample_map" "coord_run sample_topology coord_config_default (0, sample_coord)"
  using coord_steps.rest [of "replica_ok sample_topology" "(0, sample_coord)"]
  by (auto simp: sample_topology_def wf_topology_def map_real_def sample_map_def coord_run_def topology_levels_def sample_coord_new [unfolded sample_topology_def])

lemmas sample_eval = reserve_enter_def reserve_in_def book_new_def pick_position_def purge_bookings_def gnode_memory_fresh_def topology_levels_def
  announce_def publish_memory_def bt_modify_def Let_def coord_config_default_def from_millis_def

lemma sample_reserve: "reserve_enter sample_map 10 1 7 sample_coord = (Ok \<lparr>rs_new_pos = 2, rs_new_eldership = 1\<rparr>, sample_reserved)"
  by (simp add: sample_reserved_def sample_coord_def sample_topology_def sample_map_def sample_eval)

theorem reserve_idempotent_witness:
  "\<exists>s2. reserve_enter sample_map 20 1 7 sample_reserved = (Ok \<lparr>rs_new_pos = 2, rs_new_eldership = 1\<rparr>, s2)"
  by (rule reserve_idempotent [OF sample_wf(1,3,2) _ sample_reserve coord_steps.rest _ _ sample_wf(2)])
    (simp_all add: sample_map_def coord_config_default_def from_millis_def)

theorem elderships_never_reused_witness:
  "\<exists>r s2. reserve_enter sample_map 20 1 7 sample_reserved = (Ok r, s2) \<and> rs_new_eldership r = 1 \<and> (7 :: i64) = 7"
proof -
  obtain r s2 where r: "reserve_enter sample_map 20 1 7 sample_reserved = (Ok r, s2)" "rs_new_eldership r = 1"
    by (simp add: sample_reserved_def sample_coord_def sample_topology_def sample_map_def sample_eval)
  have "(7 :: i64) = 7"
    by (rule elderships_never_reused [OF sample_wf(1,3,2) _ sample_reserve coord_steps.rest _ sample_wf(2) r(1)]) (simp_all add: r(2))
  then show ?thesis using r by blast
qed


subsection \<open>Where the comments say otherwise\<close>

text \<open>The first virtual position handed out at a level is one above the g-node size, not the size itself.\<close>

lemma first_virtual_position: "\<exists>s'. reserve_enter full_map 10 1 7 sample_coord = (Ok \<lparr>rs_new_pos = 5, rs_new_eldership = 1\<rparr>, s')"
  by (simp add: sample_coord_def sample_topology_def full_map_def sample_map_def sample_eval)

text \<open>A replica replaces the counters too: one taken before a reservation makes the next request get the same eldership and
  the same position.\<close>

lemma stale_replica_reuses_eldership:
  "\<exists>s2. reserve_enter full_map 20 1 8 (apply_replica 1 (gnode_memory_fresh 4) (snd (reserve_enter full_map 10 1 7 sample_coord))) =
     (Ok \<lparr>rs_new_pos = 5, rs_new_eldership = 1\<rparr>, s2)"
  by (simp add: sample_coord_def sample_topology_def full_map_def sample_map_def sample_eval apply_replica_def)

text \<open>The eldership counter of a replica is not bounded: at the end of its range the next reservation overflows.\<close>

lemma exhausted_eldership_panics:
  "fst (reserve_enter sample_map 10 1 7 (apply_replica 1 ((gnode_memory_fresh 4)\<lparr>gm_max_eldership := -1\<rparr>) sample_coord)) = Panic"
  by (simp add: sample_coord_def sample_topology_def sample_map_def sample_eval apply_replica_def)

end
