(* ===== verification/Coord_Propagation.thy ===== *)
theory Coord_Propagation
  imports Coord_Reservations
begin

section \<open>Propagations through a g-node (\<open>ntk-coordinator/src/actor.rs\<close>, \<open>handler.rs\<close>, \<open>wire.rs\<close>)\<close>

text \<open>
  The five propagations of the coordinator: the node that starts one, the nodes that receive it, and the flood they
  make up in a network. What a method of the handle does beside the actor's state is a list of effects, in order.
\<close>

datatype propagation_kind = PrepareMigration | FinishMigration | PrepareEnter | FinishEnter | WeHaveSplitted

datatype propagation_effect =
    SendEach propagation_kind propagation_args
  | SendAll propagation_kind propagation_args
  | ApplyHere propagation_kind usize typed_value_msg
  | ForgetLater i32

text \<open>The kinds that commit a change of membership: they drop the cached node count and use the broadcast stub.\<close>

fun commits :: "propagation_kind \<Rightarrow> bool" where
  "commits PrepareMigration = False"
| "commits PrepareEnter = False"
| "commits FinishMigration = True"
| "commits FinishEnter = True"
| "commits WeHaveSplitted = True"

definition carry_out :: "propagation_kind \<Rightarrow> propagation_args \<Rightarrow> coord_state \<Rightarrow> propagation_effect list \<times> coord_state" where
  "carry_out kind args s =
     ([if commits kind then SendAll kind args else SendEach kind args, ApplyHere kind (pa_level args) (pa_data args),
       ForgetLater (pa_propagation_id args)],
      if commits kind then invalidate_n_nodes s else s)"

definition prepare_propagation :: "coordinator_map \<Rightarrow> usize \<Rightarrow> typed_value_msg \<Rightarrow> coord_state \<Rightarrow> propagation_args \<times> coord_state" where
  "prepare_propagation cm level data s =
     (let levels = topology_levels (co_topology s);
          i = mix_propagation_id (node_key cm levels) (co_next_propagation_id s) in
      (\<lparr>pa_positions = map (cm_my_pos cm) [level..<levels], pa_fp_id = cm_fp_id cm level, pa_propagation_id = i, pa_level = level, pa_data = data\<rparr>,
       snd (coord_handle cm 0 (CmdNextPropagationId (node_key cm levels)) s)))"

definition start_propagation :: "coordinator_map \<Rightarrow> propagation_kind \<Rightarrow> usize \<Rightarrow> typed_value_msg \<Rightarrow> coord_state
    \<Rightarrow> propagation_effect list \<times> coord_state" where
  "start_propagation cm kind level data s =
     (case prepare_propagation cm level data s of (args, s1) \<Rightarrow> carry_out kind args s1)"

definition handle_execute :: "coordinator_map \<Rightarrow> propagation_kind \<Rightarrow> propagation_args \<Rightarrow> coord_state \<Rightarrow> propagation_effect list \<times> coord_state" where
  "handle_execute cm kind args s =
     (case check_propagation cm (pa_positions args) (pa_fp_id args) (pa_propagation_id args) (pa_level args) s of
        (True, s1) \<Rightarrow> carry_out kind args s1
      | (False, s1) \<Rightarrow> ([], s1))"

subsection \<open>What a receiver accepts\<close>

lemma positions_match_iff:
  "length ps = n - level \<Longrightarrow> positions_match cm level ps \<longleftrightarrow> ps = map (cm_my_pos cm) [level..<n]"
  by (auto simp: positions_match_def list_all_length list_eq_iff_nth_eq)

text \<open>A node is addressed by a message: it lies in the g-node the message names.\<close>

definition addressed :: "coordinator_map \<Rightarrow> topology \<Rightarrow> propagation_args \<Rightarrow> bool" where
  "addressed cm t a \<longleftrightarrow> pa_level a < topology_levels t \<and> pa_positions a = map (cm_my_pos cm) [pa_level a..<topology_levels t] \<and>
     pa_fp_id a = cm_fp_id cm (pa_level a)"

lemma check_propagation_iff:
  "check_propagation cm (pa_positions a) (pa_fp_id a) (pa_propagation_id a) (pa_level a) s =
     (if pa_propagation_id a \<notin> co_recent_propagations s \<and> addressed cm (co_topology s) a
      then (True, s\<lparr>co_recent_propagations := insert (pa_propagation_id a) (co_recent_propagations s)\<rparr>) else (False, s))"
proof (cases "pa_level a < topology_levels (co_topology s) \<and> length (pa_positions a) = topology_levels (co_topology s) - pa_level a")
  case True
  then show ?thesis using positions_match_iff [of "pa_positions a" "topology_levels (co_topology s)" "pa_level a" cm]
    by (auto simp: check_propagation_def addressed_def Let_def)
next
  case False
  then show ?thesis by (auto simp: check_propagation_def addressed_def Let_def)
qed

subsection \<open>The flood\<close>

text \<open>A network: the answers of the map at each node and its direct neighbours. Messages under way are delivered in any order
  or lost; the clock goes on at will; a cleanup task that \<open>schedule_propagation_cleanup\<close> spawned runs when its time has
  come or later.\<close>

record 'n network =
  nw_map :: "'n \<Rightarrow> coordinator_map"
  nw_neighbors :: "'n \<Rightarrow> 'n list"

record 'n flood =
  fl_clock :: instant
  fl_nodes :: "'n \<Rightarrow> coord_state"
  fl_pending :: "('n \<times> propagation_args) list"
  fl_applied :: "'n list"
  fl_forgetting :: "('n \<times> i32 \<times> instant) list"

fun sent :: "'n network \<Rightarrow> 'n \<Rightarrow> propagation_effect \<Rightarrow> ('n \<times> propagation_args) list" where
  "sent nw n (SendEach kind a) = map (\<lambda>m. (m, a)) (nw_neighbors nw n)"
| "sent nw n (SendAll kind a) = map (\<lambda>m. (m, a)) (nw_neighbors nw n)"
| "sent nw n _ = []"

fun applied :: "'n \<Rightarrow> propagation_effect \<Rightarrow> 'n list" where
  "applied n (ApplyHere kind level data) = [n]"
| "applied n _ = []"

fun schedule_propagation_cleanup :: "instant \<Rightarrow> 'n \<Rightarrow> coord_state \<Rightarrow> propagation_effect \<Rightarrow> ('n \<times> i32 \<times> instant) list" where
  "schedule_propagation_cleanup now n s (ForgetLater i) = [(n, i, now + propagation_retention (co_config s))]"
| "schedule_propagation_cleanup now n s _ = []"

definition take_effect :: "'n network \<Rightarrow> 'n \<Rightarrow> propagation_effect list \<times> coord_state \<Rightarrow> 'n flood \<Rightarrow> 'n flood" where
  "take_effect nw n es f = f\<lparr>fl_nodes := (fl_nodes f)(n := snd es), fl_pending := fl_pending f @ concat (map (sent nw n) (fst es)),
     fl_applied := fl_applied f @ concat (map (applied n) (fst es)),
     fl_forgetting := fl_forgetting f @ concat (map (schedule_propagation_cleanup (fl_clock f) n (snd es)) (fst es))\<rparr>"

definition flood_start :: "'n network \<Rightarrow> propagation_kind \<Rightarrow> usize \<Rightarrow> typed_value_msg \<Rightarrow> instant \<Rightarrow> ('n \<Rightarrow> coord_state) \<Rightarrow> 'n \<Rightarrow> 'n flood" where
  "flood_start nw kind level data now nodes n =
     take_effect nw n (start_propagation (nw_map nw n) kind level data (nodes n))
       \<lparr>fl_clock = now, fl_nodes = nodes, fl_pending = [], fl_applied = [], fl_forgetting = []\<rparr>"

definition flood_deliver :: "'n network \<Rightarrow> propagation_kind \<Rightarrow> nat \<Rightarrow> 'n flood \<Rightarrow> 'n flood" where
  "flood_deliver nw kind k f =
     (case fl_pending f ! k of (n, a) \<Rightarrow>
        take_effect nw n (handle_execute (nw_map nw n) kind a (fl_nodes f n)) (f\<lparr>fl_pending := remove_nth k (fl_pending f)\<rparr>))"

definition flood_forget :: "'n network \<Rightarrow> nat \<Rightarrow> 'n flood \<Rightarrow> 'n flood" where
  "flood_forget nw k f =
     (case fl_forgetting f ! k of (n, i, _) \<Rightarrow>
        f\<lparr>fl_nodes := (fl_nodes f)(n := snd (coord_handle (nw_map nw n) (fl_clock f) (CmdExpirePropagation i) (fl_nodes f n))),
          fl_forgetting := remove_nth k (fl_forgetting f)\<rparr>)"

text \<open>A run with the number of messages delivered and lost.\<close>

inductive flood_run :: "'n network \<Rightarrow> propagation_kind \<Rightarrow> 'n flood \<Rightarrow> nat \<Rightarrow> nat \<Rightarrow> 'n flood \<Rightarrow> bool" for nw kind f0 where
  begun: "flood_run nw kind f0 0 0 f0"
| delivered: "flood_run nw kind f0 j l f \<Longrightarrow> k < length (fl_pending f) \<Longrightarrow> flood_run nw kind f0 (Suc j) l (flood_deliver nw kind k f)"
| lost: "flood_run nw kind f0 j l f \<Longrightarrow> k < length (fl_pending f) \<Longrightarrow>
     flood_run nw kind f0 j (Suc l) (f\<lparr>fl_pending := remove_nth k (fl_pending f)\<rparr>)"
| elapsed: "flood_run nw kind f0 j l f \<Longrightarrow> fl_clock f \<le> now \<Longrightarrow> flood_run nw kind f0 j l (f\<lparr>fl_clock := now\<rparr>)"
| forgotten: "flood_run nw kind f0 j l f \<Longrightarrow> k < length (fl_forgetting f) \<Longrightarrow> snd (snd (fl_forgetting f ! k)) \<le> fl_clock f \<Longrightarrow>
     flood_run nw kind f0 j l (flood_forget nw k f)"

text \<open>The nodes a propagation should reach: those connected to its origin through nodes it addresses.\<close>

inductive reaches :: "'n network \<Rightarrow> topology \<Rightarrow> propagation_args \<Rightarrow> 'n \<Rightarrow> 'n \<Rightarrow> bool" for nw t a n where
  self: "reaches nw t a n n"
| hop: "reaches nw t a n m \<Longrightarrow> m' \<in> set (nw_neighbors nw m) \<Longrightarrow> addressed (nw_map nw m') t a \<Longrightarrow> reaches nw t a n m'"

text \<open>The invariant up to the time \<open>e\<close>, before which nothing is forgotten: \<open>j\<close> messages were delivered and \<open>l\<close> lost.\<close>

definition nodes_ok :: "topology \<Rightarrow> instant \<Rightarrow> propagation_args \<Rightarrow> 'n flood \<Rightarrow> bool" where
  "nodes_ok t e a f \<longleftrightarrow>
     (\<forall>m. co_topology (fl_nodes f m) = t \<and> e \<le> fl_clock f + propagation_retention (co_config (fl_nodes f m)) \<and>
        (pa_propagation_id a \<in> co_recent_propagations (fl_nodes f m) \<longleftrightarrow> m \<in> set (fl_applied f))) \<and>
     (\<forall>x \<in> set (fl_forgetting f). e \<le> snd (snd x))"

definition spread_ok :: "'n network \<Rightarrow> topology \<Rightarrow> propagation_args \<Rightarrow> 'n \<Rightarrow> 'n flood \<Rightarrow> bool" where
  "spread_ok nw t a n f \<longleftrightarrow> n \<in> set (fl_applied f) \<and> distinct (fl_applied f) \<and> (\<forall>x \<in> set (fl_pending f). snd x = a) \<and>
     (\<forall>m \<in> set (fl_applied f). reaches nw t a n m) \<and>
     (\<forall>x \<in> set (fl_pending f). \<exists>m \<in> set (fl_applied f). fst x \<in> set (nw_neighbors nw m))"

definition count_ok :: "'n network \<Rightarrow> nat \<Rightarrow> nat \<Rightarrow> 'n flood \<Rightarrow> bool" where
  "count_ok nw j l f \<longleftrightarrow> j + l + length (fl_pending f) = sum_list (map (\<lambda>m. length (nw_neighbors nw m)) (fl_applied f))"

definition closed_ok :: "'n network \<Rightarrow> topology \<Rightarrow> propagation_args \<Rightarrow> nat \<Rightarrow> 'n flood \<Rightarrow> bool" where
  "closed_ok nw t a l f \<longleftrightarrow> l = 0 \<longrightarrow> (\<forall>m \<in> set (fl_applied f). \<forall>m' \<in> set (nw_neighbors nw m).
     m' \<in> set (fl_applied f) \<or> m' \<in> fst ` set (fl_pending f) \<or> \<not> addressed (nw_map nw m') t a)"

definition flood_ok :: "'n network \<Rightarrow> topology \<Rightarrow> instant \<Rightarrow> propagation_args \<Rightarrow> 'n \<Rightarrow> nat \<Rightarrow> nat \<Rightarrow> 'n flood \<Rightarrow> bool" where
  "flood_ok nw t e a n j l f \<longleftrightarrow> nodes_ok t e a f \<and> spread_ok nw t a n f \<and> count_ok nw j l f \<and> closed_ok nw t a l f"

lemma carried_out: "concat (map (sent nw n) (fst (carry_out kind a s))) = map (\<lambda>m. (m, a)) (nw_neighbors nw n)"
  "concat (map (applied n) (fst (carry_out kind a s))) = [n]"
  "concat (map (schedule_propagation_cleanup now n s') (fst (carry_out kind a s))) = [(n, pa_propagation_id a, now + propagation_retention (co_config s'))]"
  "co_topology (snd (carry_out kind a s)) = co_topology s" "co_config (snd (carry_out kind a s)) = co_config s"
  "co_recent_propagations (snd (carry_out kind a s)) = co_recent_propagations s"
  by (simp_all add: carry_out_def invalidate_n_nodes_def publish_memory_def)

lemma flood_delivered:
  assumes "fl_pending f ! k = (m, a)"
  shows "flood_deliver nw kind k f =
     (if pa_propagation_id a \<notin> co_recent_propagations (fl_nodes f m) \<and> addressed (nw_map nw m) (co_topology (fl_nodes f m)) a
      then take_effect nw m (carry_out kind a ((fl_nodes f m)\<lparr>co_recent_propagations := insert (pa_propagation_id a) (co_recent_propagations (fl_nodes f m))\<rparr>))
        (f\<lparr>fl_pending := remove_nth k (fl_pending f)\<rparr>)
      else f\<lparr>fl_pending := remove_nth k (fl_pending f)\<rparr>)"
  using assms by (simp add: flood_deliver_def handle_execute_def check_propagation_iff take_effect_def)

text \<open>A copy of the message that arrives after the cleanup is taken for a new propagation.\<close>

lemma late_copy_applied_again:
  assumes "addressed cm (co_topology s) a"
  shows "ApplyHere kind (pa_level a) (pa_data a) \<in> set (fst (handle_execute cm kind a (snd (coord_handle cm now (CmdExpirePropagation (pa_propagation_id a)) s))))"
  using assms by (simp add: handle_execute_def check_propagation_iff carry_out_def)

text \<open>A message leaves the pending ones, delivered without effect or lost.\<close>

lemma drop_message_ok:
  assumes "flood_ok nw t e a n j l f" "k < length (fl_pending f)"
  defines "f' \<equiv> f\<lparr>fl_pending := remove_nth k (fl_pending f)\<rparr>"
  shows "nodes_ok t e a f'" "spread_ok nw t a n f'" "count_ok nw (Suc j) l f'" "count_ok nw j (Suc l) f'"
proof -
  let ?rest = "remove_nth k (fl_pending f)"
  have rest: "set ?rest \<subseteq> set (fl_pending f)" "length ?rest = length (fl_pending f) - 1"
    by (rule set_remove_nth) (rule length_remove_nth [OF assms(2)])
  show "nodes_ok t e a f'" using assms(1) by (simp add: flood_ok_def nodes_ok_def f'_def)
  show "spread_ok nw t a n f'" using assms(1) rest(1) unfolding flood_ok_def spread_ok_def f'_def by simp blast
  show "count_ok nw (Suc j) l f'" "count_ok nw j (Suc l) f'" using assms(1,2) rest(2) by (simp_all add: flood_ok_def count_ok_def f'_def)
qed

lemma accepted_message_ok:
  assumes "flood_ok nw t e a n j l f" "k < length (fl_pending f)" "fl_pending f ! k = (m, a)" "m \<notin> set (fl_applied f)" "addressed (nw_map nw m) t a"
  shows "flood_ok nw t e a n (Suc j) l (flood_deliver nw kind k f)"
proof -
  let ?rest = "remove_nth k (fl_pending f)"
  let ?s = "(fl_nodes f m)\<lparr>co_recent_propagations := insert (pa_propagation_id a) (co_recent_propagations (fl_nodes f m))\<rparr>"
  let ?f = "take_effect nw m (carry_out kind a ?s) (f\<lparr>fl_pending := ?rest\<rparr>)"
  have no: "nodes_ok t e a f" and sp: "spread_ok nw t a n f" and co: "count_ok nw j l f" and cl: "closed_ok nw t a l f"
    using assms(1) by (simp_all add: flood_ok_def)
  have mem: "(m, a) \<in> set (fl_pending f)" using nth_mem [OF assms(2)] by (simp add: assms(3))
  have rest: "set ?rest \<subseteq> set (fl_pending f)" "insert (m, a) (set ?rest) = set (fl_pending f)" "length ?rest = length (fl_pending f) - 1"
    using set_remove_nth set_remove_nth_insert [OF assms(2)] length_remove_nth [OF assms(2)] by (auto simp: assms(3))
  have f': "flood_deliver nw kind k f = ?f" using no assms(4,5) by (simp add: flood_delivered [OF assms(3)] nodes_ok_def)
  have fields: "fl_nodes ?f = (fl_nodes f)(m := snd (carry_out kind a ?s))" "fl_pending ?f = ?rest @ map (\<lambda>m'. (m', a)) (nw_neighbors nw m)"
    "fl_applied ?f = fl_applied f @ [m]" "fl_clock ?f = fl_clock f"
    "fl_forgetting ?f = fl_forgetting f @ [(m, pa_propagation_id a, fl_clock f + propagation_retention (co_config (fl_nodes f m)))]"
    by (simp_all add: take_effect_def carried_out)
  have "nodes_ok t e a ?f" using no by (simp add: nodes_ok_def fields carried_out)
  moreover have "spread_ok nw t a n ?f"
  proof -
    obtain m0 where "m0 \<in> set (fl_applied f)" "m \<in> set (nw_neighbors nw m0)" using sp mem by (auto simp: spread_ok_def)
    then have "reaches nw t a n m" using sp assms(5) by (auto simp: spread_ok_def intro: reaches.hop)
    moreover have "snd x = a \<and> (\<exists>m' \<in> set (fl_applied ?f). fst x \<in> set (nw_neighbors nw m'))" if "x \<in> set (fl_pending ?f)" for x
      using that rest(1) sp by (auto simp: fields spread_ok_def)
    ultimately show ?thesis using sp assms(4) by (auto simp: spread_ok_def fields(3))
  qed
  moreover have "count_ok nw (Suc j) l ?f" using co rest(3) assms(2) by (simp add: count_ok_def fields)
  moreover have "closed_ok nw t a l ?f"
    unfolding closed_ok_def
  proof (intro impI ballI)
    fix m' m'' assume h: "l = 0" "m' \<in> set (fl_applied ?f)" "m'' \<in> set (nw_neighbors nw m')"
    have under: "fst ` set (fl_pending f) = insert m (fst ` set ?rest)" using rest(2) by (metis fst_conv image_insert)
    show "m'' \<in> set (fl_applied ?f) \<or> m'' \<in> fst ` set (fl_pending ?f) \<or> \<not> addressed (nw_map nw m'') t a"
    proof (cases "m' = m")
      case True
      then have "(m'', a) \<in> set (fl_pending ?f)" using h(3) by (simp add: fields)
      then show ?thesis by force
    next
      case False
      then have "m' \<in> set (fl_applied f)" using h(2) by (auto simp: fields)
      then have "m'' \<in> set (fl_applied f) \<or> m'' \<in> fst ` set (fl_pending f) \<or> \<not> addressed (nw_map nw m'') t a"
        using cl h(1,3) by (simp add: closed_ok_def)
      then show ?thesis by (auto simp: fields under)
    qed
  qed
  ultimately show ?thesis unfolding f' flood_ok_def by blast
qed

lemma flood_deliver_ok:
  assumes "flood_ok nw t e a n j l f" "k < length (fl_pending f)"
  shows "flood_ok nw t e a n (Suc j) l (flood_deliver nw kind k f)"
proof -
  obtain m a' where x: "fl_pending f ! k = (m, a')" by fastforce
  have mem: "(m, a') \<in> set (fl_pending f)" using nth_mem [OF assms(2)] by (simp add: x)
  then have a': "a' = a" using assms(1) by (auto simp: flood_ok_def spread_ok_def)
  show ?thesis
  proof (cases "m \<notin> set (fl_applied f) \<and> addressed (nw_map nw m) t a")
    case True
    then show ?thesis using accepted_message_ok [OF assms, of m] x a' by simp
  next
    case False
    let ?rest = "remove_nth k (fl_pending f)" let ?f = "f\<lparr>fl_pending := ?rest\<rparr>"
    have no: "nodes_ok t e a f" and cl: "closed_ok nw t a l f" using assms(1) by (simp_all add: flood_ok_def)
    have f': "flood_deliver nw kind k f = ?f" using False no by (auto simp: flood_delivered [OF x] a' nodes_ok_def)
    have "insert (m, a') (set ?rest) = set (fl_pending f)" using set_remove_nth_insert [OF assms(2)] by (simp add: x)
    then have under: "fst ` set (fl_pending f) = insert m (fst ` set ?rest)" by (metis fst_conv image_insert)
    have "closed_ok nw t a l ?f"
      unfolding closed_ok_def
    proof (intro impI ballI)
      fix m' m'' assume h: "l = 0" "m' \<in> set (fl_applied ?f)" "m'' \<in> set (nw_neighbors nw m')"
      then have "m'' \<in> set (fl_applied f) \<or> m'' \<in> fst ` set (fl_pending f) \<or> \<not> addressed (nw_map nw m'') t a"
        using cl by (simp add: closed_ok_def)
      then show "m'' \<in> set (fl_applied ?f) \<or> m'' \<in> fst ` set (fl_pending ?f) \<or> \<not> addressed (nw_map nw m'') t a"
        using False unfolding under by (cases "m'' = m") auto
    qed
    then show ?thesis unfolding f' flood_ok_def using drop_message_ok [OF assms] by blast
  qed
qed

lemma flood_run_ok:
  assumes "flood_run nw kind f0 j l f" "flood_ok nw t e a n 0 0 f0" "fl_clock f < e"
  shows "flood_ok nw t e a n j l f"
  using assms(1,3)
proof (induction rule: flood_run.induct)
  case begun
  then show ?case using assms(2) by simp
next
  case (delivered j l f k)
  have "fl_clock (flood_deliver nw kind k f) = fl_clock f" by (simp add: flood_deliver_def take_effect_def split: prod.split)
  then show ?case using delivered flood_deliver_ok by simp
next
  case (lost j l f k)
  then have ok: "flood_ok nw t e a n j l f" by simp
  show ?case using drop_message_ok [OF ok lost.hyps(2)] by (simp add: flood_ok_def closed_ok_def)
next
  case (elapsed j l f now)
  then have "flood_ok nw t e a n j l f" by simp
  then show ?case using elapsed.hyps(2)
    by (auto simp: flood_ok_def nodes_ok_def spread_ok_def count_ok_def closed_ok_def intro: order_trans [OF _ add_right_mono])
next
  case (forgotten j l f k)
  have "fl_clock (flood_forget nw k f) = fl_clock f" by (simp add: flood_forget_def split: prod.split)
  then have "flood_ok nw t e a n j l f" "fl_clock f < e" using forgotten.IH forgotten.prems by simp_all
  moreover from this(1) have "e \<le> snd (snd (fl_forgetting f ! k))" using forgotten.hyps(2) by (simp add: flood_ok_def nodes_ok_def)
  ultimately show ?case using forgotten.hyps(3) by simp
qed

lemma flood_start_ok:
  assumes "\<And>m. co_topology (nodes m) = t" "\<And>m. e \<le> now + propagation_retention (co_config (nodes m))"
    "prepare_propagation (nw_map nw n) level data (nodes n) = (a, s1)"
    "\<And>m. m \<noteq> n \<Longrightarrow> pa_propagation_id a \<notin> co_recent_propagations (nodes m)"
  shows "flood_ok nw t e a n 0 0 (flood_start nw kind level data now nodes n)"
proof -
  let ?f = "flood_start nw kind level data now nodes n"
  have s1: "co_topology s1 = t" "co_config s1 = co_config (nodes n)" "pa_propagation_id a \<in> co_recent_propagations s1"
    using assms(3) assms(1) [of n] by (auto simp: prepare_propagation_def Let_def)
  have fields: "fl_nodes ?f = nodes(n := snd (carry_out kind a s1))" "fl_pending ?f = map (\<lambda>m. (m, a)) (nw_neighbors nw n)" "fl_applied ?f = [n]"
    "fl_clock ?f = now" "fl_forgetting ?f = [(n, pa_propagation_id a, now + propagation_retention (co_config (nodes n)))]"
    by (simp_all add: flood_start_def start_propagation_def assms(3) take_effect_def carried_out s1)
  have "nodes_ok t e a ?f" using assms(1,2,4) s1 by (simp add: nodes_ok_def fields carried_out)
  moreover have "spread_ok nw t a n ?f" by (auto simp: spread_ok_def fields intro: reaches.self)
  moreover have "count_ok nw 0 0 ?f" "closed_ok nw t a 0 ?f" by (auto simp: count_ok_def closed_ok_def fields image_image)
  ultimately show ?thesis by (simp add: flood_ok_def)
qed

text \<open>C15: A propagation floods its g-node. Let it start at the time \<open>now\<close> with an identifier that no other node remembers,
  and let every node keep what it has seen for at least \<open>e - now\<close>. At every moment before \<open>e\<close> of any run, whatever the
  order in which messages arrive and whichever are lost, every node has applied it at most once and only nodes connected
  to the origin through nodes of the addressed g-node have, and at most one message per neighbour of a node was ever
  under way, so the flood ends; and when none was lost and none is under way any more, exactly those nodes have applied
  it. After the retention a late copy is applied again (\<open>late_copy_applied_again\<close>).\<close>

theorem flood_correct:
  fixes nw :: "'n::finite network"
  assumes "\<And>m. co_topology (nodes m) = t" "\<And>m. e \<le> now + propagation_retention (co_config (nodes m))"
    "prepare_propagation (nw_map nw n) level data (nodes n) = (a, s1)"
    "\<And>m. m \<noteq> n \<Longrightarrow> pa_propagation_id a \<notin> co_recent_propagations (nodes m)"
    "flood_run nw kind (flood_start nw kind level data now nodes n) delivered lost f" "fl_clock f < e"
  shows "distinct (fl_applied f) \<and> set (fl_applied f) \<subseteq> {m. reaches nw t a n m} \<and>
     delivered + lost + length (fl_pending f) \<le> (\<Sum>m \<in> UNIV. length (nw_neighbors nw m)) \<and>
     (lost = 0 \<and> fl_pending f = [] \<longrightarrow> set (fl_applied f) = {m. reaches nw t a n m})"
proof -
  have ok: "flood_ok nw t e a n delivered lost f"
    by (rule flood_run_ok [OF assms(5) flood_start_ok [where nodes = nodes, OF assms(1,2,3,4)] assms(6)])
  have d: "distinct (fl_applied f)" and sub: "set (fl_applied f) \<subseteq> {m. reaches nw t a n m}" and n: "n \<in> set (fl_applied f)"
    and len: "delivered + lost + length (fl_pending f) = sum_list (map (\<lambda>m. length (nw_neighbors nw m)) (fl_applied f))"
    and cl: "\<And>m m'. lost = 0 \<Longrightarrow> fl_pending f = [] \<Longrightarrow> m \<in> set (fl_applied f) \<Longrightarrow> m' \<in> set (nw_neighbors nw m) \<Longrightarrow>
        addressed (nw_map nw m') t a \<Longrightarrow> m' \<in> set (fl_applied f)"
    using ok by (auto simp: flood_ok_def spread_ok_def count_ok_def closed_ok_def)
  have "sum_list (map (\<lambda>m. length (nw_neighbors nw m)) (fl_applied f)) = (\<Sum>m \<in> set (fl_applied f). length (nw_neighbors nw m))"
    using d by (simp add: sum_list_distinct_conv_sum_set)
  also have "\<dots> \<le> (\<Sum>m \<in> UNIV. length (nw_neighbors nw m))" by (rule sum_mono2) simp_all
  finally have bound: "delivered + lost + length (fl_pending f) \<le> (\<Sum>m \<in> UNIV. length (nw_neighbors nw m))" by (simp only: len)
  have "m \<in> set (fl_applied f)" if "lost = 0" "fl_pending f = []" "reaches nw t a n m" for m
    using that(3) by (induction rule: reaches.induct) (use n cl [OF that(1,2)] in blast)+
  then show ?thesis using d sub bound by blast
qed

text \<open>Two neighbours: the message goes over and comes back, and both have applied it.\<close>

definition sample_network :: "bool network" where
  "sample_network = \<lparr>nw_map = (\<lambda>_. sample_map), nw_neighbors = (\<lambda>n. [\<not> n])\<rparr>"

theorem flood_correct_witness:
  "\<exists>a f. flood_run sample_network FinishEnter (flood_start sample_network FinishEnter 0 \<lparr>type_tag = [], payload = []\<rparr> 7 (\<lambda>_. sample_coord) True) 2 0 f \<and>
     fl_applied f = [True, False] \<and> set (fl_applied f) = {m. reaches sample_network sample_topology a True m}"
proof -
  let ?nw = sample_network let ?d = "\<lparr>type_tag = [], payload = []\<rparr>"
  let ?f0 = "flood_start ?nw FinishEnter 0 ?d 7 (\<lambda>_. sample_coord) True"
  let ?f1 = "flood_deliver ?nw FinishEnter 0 ?f0" let ?f2 = "flood_deliver ?nw FinishEnter 0 ?f1"
  let ?e = "7 + propagation_retention (co_config sample_coord)"
  obtain a s1 where a: "prepare_propagation (nw_map ?nw True) 0 ?d sample_coord = (a, s1)" by fastforce
  have top: "co_topology sample_coord = sample_topology" and fresh: "co_recent_propagations sample_coord = {}" by (simp_all add: sample_coord_def)
  have addr: "addressed sample_map sample_topology a"
    using a by (auto simp: prepare_propagation_def Let_def addressed_def sample_network_def top sample_topology_def topology_levels_def)
  have ok0: "flood_ok ?nw sample_topology ?e a True 0 0 ?f0"
    by (rule flood_start_ok [OF _ _ a]) (simp_all add: top fresh)
  have f0: "fl_pending ?f0 = [(False, a)]" "fl_applied ?f0 = [True]" "fl_clock ?f0 = 7"
    by (simp_all add: flood_start_def start_propagation_def a take_effect_def carried_out) (simp add: sample_network_def)
  have f1: "fl_pending ?f1 = [(True, a)]" "fl_applied ?f1 = [True, False]" "fl_clock ?f1 = 7"
    using ok0 f0 addr flood_delivered [of ?f0 0 False a ?nw FinishEnter]
    by (auto simp: flood_ok_def nodes_ok_def take_effect_def carried_out sample_network_def remove_nth_def)
  have ok1: "flood_ok ?nw sample_topology ?e a True 1 0 ?f1" using flood_deliver_ok [OF ok0, of 0] f0 by simp
  have f2: "fl_pending ?f2 = []" "fl_applied ?f2 = [True, False]" "fl_clock ?f2 = 7"
    using ok1 f1 flood_delivered [of ?f1 0 True a ?nw FinishEnter]
    by (auto simp: flood_ok_def nodes_ok_def remove_nth_def)
  have run: "flood_run ?nw FinishEnter ?f0 2 0 ?f2"
    unfolding numeral_2_eq_2 by (intro flood_run.delivered flood_run.begun) (simp_all add: f0 f1)
  have "set (fl_applied ?f2) = {m. reaches ?nw sample_topology a True m}"
    using flood_correct [where nodes = "\<lambda>_. sample_coord" and t = sample_topology and e = ?e, OF top _ a _ run] f2 fresh
    by (simp add: sample_coord_def coord_config_default_def from_millis_def)
  then show ?thesis using run f2(2) by blast
qed

end
