(* ===== verification/Coord_Service.thy ===== *)
theory Coord_Service
  imports Coord_Propagation
begin

section \<open>The Coordinator over the network (\<open>ntk-coordinator/src/wire.rs\<close>, \<open>service.rs\<close>, \<open>handler.rs\<close>, \<open>client.rs\<close>)\<close>

text \<open>
  The messages of \<open>coordinator.proto\<close>, the peer service that serves them, the dispatch of propagations and the client
  that routes a request to the elected coordinator. Protobuf's byte encoding, the texts of errors, the enter
  handlers of the hooking module are arguments, as is what the outside contributes to a call of \<open>contact_peer\<close>.
  Replications a request starts are its effects.
\<close>

datatype coord_error =
    CoordDomain domain_decode_error
  | CoordMissingField string
  | LevelOutOfRange i64
  | InvalidTop usize usize

record wire_booking =
  wb_reserve_request_id :: i64
  wb_new_pos :: u32
  wb_new_eldership :: u64
  wb_timeout_remaining_ms :: i64

record wire_gnode_memory =
  wm_reserve_list :: "wire_booking list"
  wm_max_virtual_pos :: u32
  wm_max_eldership :: u64
  wm_n_nodes :: "u64 option"
  wm_n_nodes_timeout_remaining_ms :: "i64 option"
  wm_hooking_memory :: "typed_value_msg option"

record wire_execute_args =
  we_tuple :: "typed_value_msg option"
  we_fp_id :: i64
  we_propagation_id :: i32
  we_lvl :: i32
  we_data :: "typed_value_msg option"

datatype wire_request =
    WNumberOfNodes
  | WEvaluateEnter u32 "typed_value_msg option"
  | WBeginEnter u32 "typed_value_msg option"
  | WCompletedEnter u32 "typed_value_msg option"
  | WAbortEnter u32 "typed_value_msg option"
  | WGetHookingMemory u32
  | WSetHookingMemory u32 "typed_value_msg option"
  | WReserveEnter u32 i64
  | WDeleteReserveEnter u32 i64
  | WReplica u32 "wire_gnode_memory option"

datatype wire_response =
    WRNumberOfNodes u64
  | WREvaluateEnter "typed_value_msg option"
  | WRBeginEnter "typed_value_msg option"
  | WRCompletedEnter "typed_value_msg option"
  | WRAbortEnter "typed_value_msg option"
  | WRGetHookingMemory "typed_value_msg option"
  | WRSetHookingMemory
  | WRReserveEnter "reservation option"
  | WRDeleteReserveEnter
  | WRReplica

record coord_protobuf =
  enc_tuple :: "u32 list \<Rightarrow> u8 list"
  dec_tuple :: "u8 list \<Rightarrow> (u32 list, string) res"
  enc_request :: "wire_request option \<Rightarrow> u8 list"
  dec_request :: "u8 list \<Rightarrow> (wire_request option, string) res"
  enc_response :: "wire_response option \<Rightarrow> u8 list"
  dec_response :: "u8 list \<Rightarrow> (wire_response option, string) res"

definition TAG_TUPLE :: string where "TAG_TUPLE = ''coordinator.PropagationTuple''"
definition TAG_REQUEST :: string where "TAG_REQUEST = ''coordinator.CoordinatorRequest''"
definition TAG_RESPONSE :: string where "TAG_RESPONSE = ''coordinator.CoordinatorResponse''"

subsection \<open>Propagations\<close>

definition level_from_wire :: "i32 \<Rightarrow> (usize, coord_error) res" where
  "level_from_wire v = (if sint v < 0 then Err (LevelOutOfRange (scast v)) else Ok (unat v))"

definition validate_top :: "usize \<Rightarrow> usize \<Rightarrow> (usize, coord_error) res" where
  "validate_top tp levels = (if tp < 1 \<or> levels < tp then Err (InvalidTop tp levels) else Ok tp)"

definition pack_propagation_args :: "coord_protobuf \<Rightarrow> propagation_args \<Rightarrow> wire_execute_args" where
  "pack_propagation_args pb a =
     \<lparr>we_tuple = Some (typed_value (enc_tuple pb) TAG_TUPLE (pa_positions a)), we_fp_id = pa_fp_id a, we_propagation_id = pa_propagation_id a,
      we_lvl = (if pa_level a < 2 ^ 31 then of_nat (pa_level a) else 0x7fffffff), we_data = Some (pa_data a)\<rparr>"

definition unpack_propagation_args :: "coord_protobuf \<Rightarrow> wire_execute_args \<Rightarrow> (propagation_args, coord_error) res" where
  "unpack_propagation_args pb w =
     res_bind (ok_or (we_tuple w) (CoordMissingField ''CoordinatorExecuteArgs.tuple'')) (\<lambda>tuple_tv.
     res_bind (map_err CoordDomain (from_typed_value (dec_tuple pb) tuple_tv TAG_TUPLE)) (\<lambda>positions.
     res_bind (ok_or (we_data w) (CoordMissingField ''CoordinatorExecuteArgs.data'')) (\<lambda>data.
     res_bind (level_from_wire (we_lvl w)) (\<lambda>level.
     Ok \<lparr>pa_positions = positions, pa_fp_id = we_fp_id w, pa_propagation_id = we_propagation_id w, pa_level = level, pa_data = data\<rparr>))))"

text \<open>The dispatch of an inbound call: a task that carries out the propagation, or an error.\<close>

datatype coord_call = ExecuteCall propagation_kind wire_execute_args | OtherCall

datatype coord_call_error = CallUnset | CallMalformed coord_error | NotCoordinator

definition coord_dispatch :: "coord_protobuf \<Rightarrow> coord_call option \<Rightarrow> (propagation_kind \<times> propagation_args, coord_call_error) res" where
  "coord_dispatch pb call =
     res_bind (ok_or call CallUnset) (\<lambda>arm.
     case arm of
       ExecuteCall kind w \<Rightarrow> res_bind (map_err CallMalformed (unpack_propagation_args pb w)) (\<lambda>args. Ok (kind, args))
     | OtherCall \<Rightarrow> Err NotCoordinator)"

subsection \<open>Records\<close>

definition duration_remaining_ms :: "instant \<Rightarrow> instant \<Rightarrow> i64" where
  "duration_remaining_ms deadline now =
     (let ms = (deadline - now) div 1000000 in if ms < 2 ^ 63 then of_nat ms else 0x7fffffffffffffff)"

definition MAX_REPLICA_TTL_MS :: nat where "MAX_REPLICA_TTL_MS = 60 * 60 * 1000"
definition MAX_REPLICA_BOOKINGS :: usize where "MAX_REPLICA_BOOKINGS = 4096"
definition MAX_REPLICA_VIRTUAL_POS :: u32 where "MAX_REPLICA_VIRTUAL_POS = -1 div 2"

definition remaining_from_wire :: "i64 \<Rightarrow> nat" where
  "remaining_from_wire ms = min (if sint ms < 0 then 0 else unat ms) MAX_REPLICA_TTL_MS"

definition booking_to_wire :: "instant \<Rightarrow> booking \<Rightarrow> wire_booking" where
  "booking_to_wire now b =
     \<lparr>wb_reserve_request_id = bk_reserve_request_id b, wb_new_pos = bk_new_pos b, wb_new_eldership = bk_new_eldership b,
      wb_timeout_remaining_ms = duration_remaining_ms (bk_expires_at b) now\<rparr>"

definition booking_from_wire :: "instant \<Rightarrow> wire_booking \<Rightarrow> booking" where
  "booking_from_wire now w =
     \<lparr>bk_reserve_request_id = wb_reserve_request_id w, bk_new_pos = wb_new_pos w, bk_new_eldership = wb_new_eldership w,
      bk_expires_at = now + from_millis (remaining_from_wire (wb_timeout_remaining_ms w))\<rparr>"

definition gnode_memory_to_wire :: "instant \<Rightarrow> gnode_memory \<Rightarrow> wire_gnode_memory" where
  "gnode_memory_to_wire now m =
     \<lparr>wm_reserve_list = map (booking_to_wire now) (gm_reserve_list m), wm_max_virtual_pos = gm_max_virtual_pos m,
      wm_max_eldership = gm_max_eldership m, wm_n_nodes = map_option fst (gm_n_nodes m),
      wm_n_nodes_timeout_remaining_ms = map_option (\<lambda>(_, expiry). duration_remaining_ms expiry now) (gm_n_nodes m),
      wm_hooking_memory = gm_hooking_memory m\<rparr>"

definition gnode_memory_from_wire :: "instant \<Rightarrow> wire_gnode_memory \<Rightarrow> gnode_memory" where
  "gnode_memory_from_wire now w =
     \<lparr>gm_reserve_list = map (booking_from_wire now) (take MAX_REPLICA_BOOKINGS (wm_reserve_list w)),
      gm_max_virtual_pos = min (wm_max_virtual_pos w) MAX_REPLICA_VIRTUAL_POS, gm_max_eldership = wm_max_eldership w,
      gm_n_nodes = map_option (\<lambda>n. (n, now + from_millis (remaining_from_wire (case wm_n_nodes_timeout_remaining_ms w of None \<Rightarrow> 0 | Some ms \<Rightarrow> ms))))
        (wm_n_nodes w),
      gm_hooking_memory = wm_hooking_memory w\<rparr>"

subsection \<open>Requests and responses\<close>

datatype request_body =
    ReqNumberOfNodes
  | ReqEvaluateEnter usize typed_value_msg
  | ReqBeginEnter usize typed_value_msg
  | ReqCompletedEnter usize typed_value_msg
  | ReqAbortEnter usize typed_value_msg
  | ReqGetHookingMemory usize
  | ReqSetHookingMemory usize "typed_value_msg option"
  | ReqReserveEnter usize i64
  | ReqDeleteReserveEnter usize i64
  | ReqReplica usize gnode_memory

datatype response_body =
    RspNumberOfNodes u64
  | RspEvaluateEnter typed_value_msg
  | RspBeginEnter typed_value_msg
  | RspCompletedEnter typed_value_msg
  | RspAbortEnter typed_value_msg
  | RspGetHookingMemory "typed_value_msg option"
  | RspSetHookingMemory
  | RspReserveEnter "reservation option"
  | RspDeleteReserveEnter
  | RspReplica

fun request_to_wire :: "instant \<Rightarrow> request_body \<Rightarrow> wire_request" where
  "request_to_wire now ReqNumberOfNodes = WNumberOfNodes"
| "request_to_wire now (ReqEvaluateEnter tp data) = WEvaluateEnter (of_nat tp) (Some data)"
| "request_to_wire now (ReqBeginEnter tp data) = WBeginEnter (of_nat tp) (Some data)"
| "request_to_wire now (ReqCompletedEnter tp data) = WCompletedEnter (of_nat tp) (Some data)"
| "request_to_wire now (ReqAbortEnter tp data) = WAbortEnter (of_nat tp) (Some data)"
| "request_to_wire now (ReqGetHookingMemory tp) = WGetHookingMemory (of_nat tp)"
| "request_to_wire now (ReqSetHookingMemory tp data) = WSetHookingMemory (of_nat tp) data"
| "request_to_wire now (ReqReserveEnter tp i) = WReserveEnter (of_nat tp) i"
| "request_to_wire now (ReqDeleteReserveEnter tp i) = WDeleteReserveEnter (of_nat tp) i"
| "request_to_wire now (ReqReplica tp m) = WReplica (of_nat tp) (Some (gnode_memory_to_wire now m))"

definition pack_request :: "coord_protobuf \<Rightarrow> instant \<Rightarrow> request_body \<Rightarrow> typed_value_msg" where
  "pack_request pb now body = typed_value (enc_request pb) TAG_REQUEST (Some (request_to_wire now body))"

definition with_data :: "u32 \<Rightarrow> usize \<Rightarrow> typed_value_msg option \<Rightarrow> string \<Rightarrow> (usize \<Rightarrow> typed_value_msg \<Rightarrow> request_body) \<Rightarrow> (request_body, coord_error) res" where
  "with_data tp levels data field mk =
     res_bind (validate_top (unat tp) levels) (\<lambda>tp. res_bind (ok_or data (CoordMissingField field)) (\<lambda>data. Ok (mk tp data)))"

fun request_from_wire :: "instant \<Rightarrow> usize \<Rightarrow> wire_request \<Rightarrow> (request_body, coord_error) res" where
  "request_from_wire now levels WNumberOfNodes = Ok ReqNumberOfNodes"
| "request_from_wire now levels (WEvaluateEnter tp data) = with_data tp levels data ''EvaluateEnterRequest.data'' ReqEvaluateEnter"
| "request_from_wire now levels (WBeginEnter tp data) = with_data tp levels data ''BeginEnterRequest.data'' ReqBeginEnter"
| "request_from_wire now levels (WCompletedEnter tp data) = with_data tp levels data ''CompletedEnterRequest.data'' ReqCompletedEnter"
| "request_from_wire now levels (WAbortEnter tp data) = with_data tp levels data ''AbortEnterRequest.data'' ReqAbortEnter"
| "request_from_wire now levels (WGetHookingMemory tp) = res_bind (validate_top (unat tp) levels) (\<lambda>tp. Ok (ReqGetHookingMemory tp))"
| "request_from_wire now levels (WSetHookingMemory tp data) = res_bind (validate_top (unat tp) levels) (\<lambda>tp. Ok (ReqSetHookingMemory tp data))"
| "request_from_wire now levels (WReserveEnter tp i) = res_bind (validate_top (unat tp) levels) (\<lambda>tp. Ok (ReqReserveEnter tp i))"
| "request_from_wire now levels (WDeleteReserveEnter tp i) = res_bind (validate_top (unat tp) levels) (\<lambda>tp. Ok (ReqDeleteReserveEnter tp i))"
| "request_from_wire now levels (WReplica tp w) =
     res_bind (validate_top (unat tp) levels) (\<lambda>tp.
     res_bind (ok_or w (CoordMissingField ''ReplicaRequest.memory'')) (\<lambda>w. Ok (ReqReplica tp (gnode_memory_from_wire now w))))"

definition unpack_request :: "coord_protobuf \<Rightarrow> instant \<Rightarrow> usize \<Rightarrow> typed_value_msg \<Rightarrow> (request_body, coord_error) res" where
  "unpack_request pb now levels tv =
     res_bind (map_err CoordDomain (from_typed_value (dec_request pb) tv TAG_REQUEST)) (\<lambda>w.
     res_bind (ok_or w (CoordMissingField ''CoordinatorRequest.body'')) (request_from_wire now levels))"

fun response_to_wire :: "response_body \<Rightarrow> wire_response" where
  "response_to_wire (RspNumberOfNodes n) = WRNumberOfNodes n"
| "response_to_wire (RspEvaluateEnter data) = WREvaluateEnter (Some data)"
| "response_to_wire (RspBeginEnter data) = WRBeginEnter (Some data)"
| "response_to_wire (RspCompletedEnter data) = WRCompletedEnter (Some data)"
| "response_to_wire (RspAbortEnter data) = WRAbortEnter (Some data)"
| "response_to_wire (RspGetHookingMemory data) = WRGetHookingMemory data"
| "response_to_wire RspSetHookingMemory = WRSetHookingMemory"
| "response_to_wire (RspReserveEnter r) = WRReserveEnter r"
| "response_to_wire RspDeleteReserveEnter = WRDeleteReserveEnter"
| "response_to_wire RspReplica = WRReplica"

definition pack_response :: "coord_protobuf \<Rightarrow> response_body \<Rightarrow> typed_value_msg" where
  "pack_response pb body = typed_value (enc_response pb) TAG_RESPONSE (Some (response_to_wire body))"

definition data_or :: "typed_value_msg option \<Rightarrow> string \<Rightarrow> (typed_value_msg \<Rightarrow> response_body) \<Rightarrow> (response_body, coord_error) res" where
  "data_or data field mk = res_bind (ok_or data (CoordMissingField field)) (\<lambda>data. Ok (mk data))"

fun response_from_wire :: "wire_response \<Rightarrow> (response_body, coord_error) res" where
  "response_from_wire (WRNumberOfNodes n) = Ok (RspNumberOfNodes n)"
| "response_from_wire (WREvaluateEnter data) = data_or data ''EvaluateEnterResponse.data'' RspEvaluateEnter"
| "response_from_wire (WRBeginEnter data) = data_or data ''BeginEnterResponse.data'' RspBeginEnter"
| "response_from_wire (WRCompletedEnter data) = data_or data ''CompletedEnterResponse.data'' RspCompletedEnter"
| "response_from_wire (WRAbortEnter data) = data_or data ''AbortEnterResponse.data'' RspAbortEnter"
| "response_from_wire (WRGetHookingMemory data) = Ok (RspGetHookingMemory data)"
| "response_from_wire WRSetHookingMemory = Ok RspSetHookingMemory"
| "response_from_wire (WRReserveEnter r) = Ok (RspReserveEnter r)"
| "response_from_wire WRDeleteReserveEnter = Ok RspDeleteReserveEnter"
| "response_from_wire WRReplica = Ok RspReplica"

definition unpack_response :: "coord_protobuf \<Rightarrow> typed_value_msg \<Rightarrow> (response_body, coord_error) res" where
  "unpack_response pb tv =
     res_bind (map_err CoordDomain (from_typed_value (dec_response pb) tv TAG_RESPONSE)) (\<lambda>w.
     res_bind (ok_or w (CoordMissingField ''CoordinatorResponse.body'')) response_from_wire)"

subsection \<open>The service\<close>

definition COORD_SERVICE_ID :: service_id where "COORD_SERVICE_ID = 1"

text \<open>The node that serves: its protobuf codec, its clock, the answers of its map, the texts of its errors and the enter
  handlers of its hooking module.\<close>

record coord_node =
  cn_pb :: coord_protobuf
  cn_now :: instant
  cn_map :: coordinator_map
  cn_text :: "coord_error \<Rightarrow> string"
  cn_evaluate_enter :: "usize \<Rightarrow> typed_value_msg \<Rightarrow> u32 list \<Rightarrow> typed_value_msg"
  cn_begin_enter :: "usize \<Rightarrow> typed_value_msg \<Rightarrow> u32 list \<Rightarrow> typed_value_msg"
  cn_completed_enter :: "usize \<Rightarrow> typed_value_msg \<Rightarrow> u32 list \<Rightarrow> typed_value_msg"
  cn_abort_enter :: "usize \<Rightarrow> typed_value_msg \<Rightarrow> u32 list \<Rightarrow> typed_value_msg"

text \<open>The actor behind the handle: it runs until it is cancelled or panics. Of a stopped actor only the published snapshot
  can still be read.\<close>

record coord_actor =
  ca_running :: bool
  ca_state :: coord_state

type_synonym replication = "tuple_node \<times> typed_value_msg"

definition coord_malformed :: "string \<Rightarrow> exec_error" where
  "coord_malformed message = Refuse \<lparr>rf_level = 0, rf_message = message\<rparr>"

definition spawn_replicate :: "coord_node \<Rightarrow> usize \<Rightarrow> coord_actor \<Rightarrow> replication list" where
  "spawn_replicate n tp a =
     (let t = co_topology (ca_state a) in
      case map_of (co_snapshot (ca_state a)) tp of
        None \<Rightarrow> []
      | Some memory \<Rightarrow>
          if tp < 1 \<or> topology_levels t < tp then []
          else (case tuple_node_new t (replicate tp 0) of
                  Ok target \<Rightarrow> [(target, pack_request (cn_pb n) (cn_now n) (ReqReplica tp memory))]
                | _ \<Rightarrow> []))"

text \<open>\<open>Handle::call\<close>: no answer from an actor that has stopped. A panic while it serves the command ends the actor's task, and
  the caller, whose reply channel is dropped, gets no answer either.\<close>

definition call_coord :: "coord_node \<Rightarrow> coord_cmd \<Rightarrow> coord_actor \<Rightarrow> coord_reply option \<times> coord_actor" where
  "call_coord n c a =
     (if ca_running a
      then (case coord_handle (cn_map n) (cn_now n) c (ca_state a) of
              (Ok reply, s') \<Rightarrow> (Some reply, \<lparr>ca_running = True, ca_state = s'\<rparr>)
            | (_, s') \<Rightarrow> (None, \<lparr>ca_running = False, ca_state = s'\<rparr>))
      else (None, a))"

definition set_hooking_memory_locally :: "coord_node \<Rightarrow> usize \<Rightarrow> typed_value_msg option \<Rightarrow> coord_actor \<Rightarrow> replication list \<times> coord_actor" where
  "set_hooking_memory_locally n tp data a =
     (case call_coord n (CmdSetHookingMemory tp data) a of (_, a') \<Rightarrow> (spawn_replicate n tp a', a'))"

fun serve_body :: "coord_node \<Rightarrow> u32 list \<Rightarrow> request_body \<Rightarrow> (coord_actor, response_body \<times> replication list, exec_error) st" where
  "serve_body n client ReqNumberOfNodes a =
     (case call_coord n CmdNumberOfNodes a of
        (Some (RepNumberOfNodes k), a') \<Rightarrow> (Ok (RspNumberOfNodes k, spawn_replicate n (topology_levels (co_topology (ca_state a))) a'), a')
      | (_, a') \<Rightarrow> (Err RedoFromStart, a'))"
| "serve_body n client (ReqEvaluateEnter tp data) a = (Ok (RspEvaluateEnter (cn_evaluate_enter n tp data client), []), a)"
| "serve_body n client (ReqBeginEnter tp data) a = (Ok (RspBeginEnter (cn_begin_enter n tp data client), []), a)"
| "serve_body n client (ReqCompletedEnter tp data) a = (Ok (RspCompletedEnter (cn_completed_enter n tp data client), []), a)"
| "serve_body n client (ReqAbortEnter tp data) a = (Ok (RspAbortEnter (cn_abort_enter n tp data client), []), a)"
| "serve_body n client (ReqGetHookingMemory tp) a =
     (case call_coord n (CmdGetHookingMemory tp) a of
        (Some (RepHookingMemory data), a') \<Rightarrow> (Ok (RspGetHookingMemory data, []), a')
      | (_, a') \<Rightarrow> (Ok (RspGetHookingMemory None, []), a'))"
| "serve_body n client (ReqSetHookingMemory tp data) a =
     (case set_hooking_memory_locally n tp data a of (reps, a') \<Rightarrow> (Ok (RspSetHookingMemory, reps), a'))"
| "serve_body n client (ReqReserveEnter tp i) a =
     (case call_coord n (CmdReserveEnter tp i) a of
        (Some (RepReserve (Inr r)), a') \<Rightarrow> (Ok (RspReserveEnter (Some r), spawn_replicate n tp a'), a')
      | (Some (RepReserve (Inl _)), a') \<Rightarrow> (Ok (RspReserveEnter None, []), a')
      | (_, a') \<Rightarrow> (Err RedoFromStart, a'))"
| "serve_body n client (ReqDeleteReserveEnter tp i) a =
     (case call_coord n (CmdDeleteReserveEnter tp i) a of (_, a') \<Rightarrow> (Ok (RspDeleteReserveEnter, spawn_replicate n tp a'), a'))"
| "serve_body n client (ReqReplica tp memory) a =
     (case call_coord n (CmdApplyReplica tp memory) a of (_, a') \<Rightarrow> (Ok (RspReplica, []), a'))"

definition coord_exec :: "coord_node \<Rightarrow> typed_value_msg \<Rightarrow> u32 list \<Rightarrow> (coord_actor, typed_value_msg \<times> replication list, exec_error) st" where
  "coord_exec n request client a =
     (case unpack_request (cn_pb n) (cn_now n) (topology_levels (co_topology (ca_state a))) request of
        Err e \<Rightarrow> (Err (coord_malformed (cn_text n e)), a)
      | Panic \<Rightarrow> (Panic, a)
      | Ok body \<Rightarrow>
          (case serve_body n client body a of
             (Ok (response, reps), a') \<Rightarrow> (Ok (pack_response (cn_pb n) response, reps), a')
           | (Err e, a') \<Rightarrow> (Err e, a')
           | (Panic, a') \<Rightarrow> (Panic, a')))"

subsection \<open>The client\<close>

datatype proxy_error =
    ProxyInvalidTop usize usize
  | ProxyRouting contact_peer_error
  | MalformedResponse coord_error
  | UnexpectedResponseKind

text \<open>The client holds the handle of this node's peer services and the coordinator's timeouts. \<open>cc_outside\<close> is what the
  outside contributes to a call of \<open>contact_peer\<close>, round by round, by target, request and exclusions.\<close>

record coord_client =
  cc_config :: coord_config
  cc_peers_config :: peers_config
  cc_topology :: topology
  cc_my_pos :: "u32 list"
  cc_pb :: coord_protobuf
  cc_now :: instant
  cc_outside :: "tuple_node \<Rightarrow> typed_value_msg \<Rightarrow> usize option \<Rightarrow> tuple_gnode list \<Rightarrow> nat \<Rightarrow> attempt"

definition target_for :: "coord_client \<Rightarrow> usize \<Rightarrow> (tuple_node, proxy_error) res" where
  "target_for cc tp =
     (if tp < 1 \<or> topology_levels (cc_topology cc) < tp then Err (ProxyInvalidTop tp (topology_levels (cc_topology cc)))
      else (case tuple_node_new (cc_topology cc) (replicate tp 0) of Ok x \<Rightarrow> Ok x | _ \<Rightarrow> Panic))"

definition contact_args :: "coord_client \<Rightarrow> tuple_node \<Rightarrow> typed_value_msg \<Rightarrow> duration \<Rightarrow> usize option \<Rightarrow> tuple_gnode list \<Rightarrow> contact_params" where
  "contact_args cc target request timeout exclude_my_gnode exclude =
     \<lparr>cp_config = cc_peers_config cc, cp_topology = cc_topology cc, cp_my_pos = cc_my_pos cc, cp_p_id = COORD_SERVICE_ID,
      cp_x_macron = Some target, cp_request = request, cp_timeout_exec = timeout, cp_exclude_my_gnode = exclude_my_gnode,
      cp_seed_exclude_tuple_list = exclude\<rparr>"

definition round_trip :: "coord_client \<Rightarrow> usize \<Rightarrow> request_body \<Rightarrow> duration \<Rightarrow> usize option \<Rightarrow> tuple_gnode list \<Rightarrow> (response_body, proxy_error) task" where
  "round_trip cc tp request timeout exclude_my_gnode exclude =
     task_bind (Some (target_for cc tp)) (\<lambda>target.
     let packed = pack_request (cc_pb cc) (cc_now cc) request in
     case contact_peer (contact_args cc target packed timeout exclude_my_gnode exclude) (cc_outside cc target packed exclude_my_gnode exclude) of
       None \<Rightarrow> None
     | Some (Ok (_, Found response _)) \<Rightarrow> Some (map_err MalformedResponse (unpack_response (cc_pb cc) response))
     | Some (Ok (_, Failed e)) \<Rightarrow> Some (Err (ProxyRouting e))
     | Some _ \<Rightarrow> Some Panic)"

definition client_call :: "coord_client \<Rightarrow> usize \<Rightarrow> request_body \<Rightarrow> duration \<Rightarrow> tuple_gnode list \<Rightarrow> (response_body, proxy_error) task" where
  "client_call cc tp request timeout exclude = round_trip cc tp request timeout None exclude"

definition client_call_entering :: "coord_client \<Rightarrow> usize \<Rightarrow> request_body \<Rightarrow> duration \<Rightarrow> (response_body, proxy_error) task" where
  "client_call_entering cc tp request timeout = round_trip cc tp request timeout (Some 0) []"

definition expected :: "(response_body \<Rightarrow> 'a option) \<Rightarrow> response_body \<Rightarrow> ('a, proxy_error) task" where
  "expected f r = (case f r of Some x \<Rightarrow> Some (Ok x) | None \<Rightarrow> Some (Err UnexpectedResponseKind))"

definition client_get_n_nodes :: "coord_client \<Rightarrow> tuple_gnode list \<Rightarrow> (u64, proxy_error) task" where
  "client_get_n_nodes cc exclude =
     task_bind (client_call cc (topology_levels (cc_topology cc)) ReqNumberOfNodes (write_timeout (cc_config cc)) exclude)
       (expected (\<lambda>r. case r of RspNumberOfNodes n \<Rightarrow> Some n | _ \<Rightarrow> None))"

definition client_evaluate_enter :: "coord_client \<Rightarrow> usize \<Rightarrow> typed_value_msg \<Rightarrow> (typed_value_msg, proxy_error) task" where
  "client_evaluate_enter cc tp data =
     task_bind (client_call_entering cc tp (ReqEvaluateEnter tp data) (hooking_timeout (cc_config cc)))
       (expected (\<lambda>r. case r of RspEvaluateEnter d \<Rightarrow> Some d | _ \<Rightarrow> None))"

definition client_begin_enter :: "coord_client \<Rightarrow> usize \<Rightarrow> typed_value_msg \<Rightarrow> (typed_value_msg, proxy_error) task" where
  "client_begin_enter cc tp data =
     task_bind (client_call_entering cc tp (ReqBeginEnter tp data) (hooking_timeout (cc_config cc)))
       (expected (\<lambda>r. case r of RspBeginEnter d \<Rightarrow> Some d | _ \<Rightarrow> None))"

definition client_completed_enter :: "coord_client \<Rightarrow> usize \<Rightarrow> typed_value_msg \<Rightarrow> (typed_value_msg, proxy_error) task" where
  "client_completed_enter cc tp data =
     task_bind (client_call_entering cc tp (ReqCompletedEnter tp data) (hooking_timeout (cc_config cc)))
       (expected (\<lambda>r. case r of RspCompletedEnter d \<Rightarrow> Some d | _ \<Rightarrow> None))"

definition client_abort_enter :: "coord_client \<Rightarrow> usize \<Rightarrow> typed_value_msg \<Rightarrow> (typed_value_msg, proxy_error) task" where
  "client_abort_enter cc tp data =
     task_bind (client_call_entering cc tp (ReqAbortEnter tp data) (hooking_timeout (cc_config cc)))
       (expected (\<lambda>r. case r of RspAbortEnter d \<Rightarrow> Some d | _ \<Rightarrow> None))"

definition client_reserve :: "coord_client \<Rightarrow> usize \<Rightarrow> i64 \<Rightarrow> tuple_gnode list \<Rightarrow> (reservation option, proxy_error) task" where
  "client_reserve cc tp i exclude =
     task_bind (client_call cc tp (ReqReserveEnter tp i) (write_timeout (cc_config cc)) exclude)
       (expected (\<lambda>r. case r of RspReserveEnter x \<Rightarrow> Some x | _ \<Rightarrow> None))"

definition client_delete_reserve :: "coord_client \<Rightarrow> usize \<Rightarrow> i64 \<Rightarrow> tuple_gnode list \<Rightarrow> (unit, proxy_error) task" where
  "client_delete_reserve cc tp i exclude =
     task_bind (client_call cc tp (ReqDeleteReserveEnter tp i) (write_timeout (cc_config cc)) exclude) (\<lambda>_. Some (Ok ()))"

definition client_hooking_memory :: "coord_client \<Rightarrow> usize \<Rightarrow> tuple_gnode list \<Rightarrow> (typed_value_msg option, proxy_error) task" where
  "client_hooking_memory cc tp exclude =
     task_bind (client_call cc tp (ReqGetHookingMemory tp) (read_timeout (cc_config cc)) exclude)
       (expected (\<lambda>r. case r of RspGetHookingMemory d \<Rightarrow> Some d | _ \<Rightarrow> None))"

definition client_set_hooking_memory :: "coord_client \<Rightarrow> usize \<Rightarrow> typed_value_msg option \<Rightarrow> tuple_gnode list \<Rightarrow> (unit, proxy_error) task" where
  "client_set_hooking_memory cc tp data exclude =
     task_bind (client_call cc tp (ReqSetHookingMemory tp data) (write_timeout (cc_config cc)) exclude) (\<lambda>_. Some (Ok ()))"

subsection \<open>Replicas\<close>

text \<open>What is left of a lifetime on arrival: whole milliseconds, at most an hour.\<close>

definition life_left :: "instant \<Rightarrow> instant \<Rightarrow> duration" where
  "life_left now expiry = min ((expiry - now) div 1000000 * 1000000) (60 * 60 * 1000 * 1000000)"

lemma remaining_exact: "from_millis (remaining_from_wire (duration_remaining_ms expiry now)) = life_left now expiry"
proof (cases "(expiry - now) div 1000000 < 2 ^ 63")
  case True
  let ?ms = "(expiry - now) div 1000000"
  have u: "unat (of_nat ?ms :: i64) = ?ms" using True by (simp add: unat_of_nat)
  then have "uint (of_nat ?ms :: i64) = int ?ms" by (metis uint_nat)
  then have "sint (of_nat ?ms :: i64) = int ?ms" using True by (simp add: sint_uint signed_take_bit_int_eq_self)
  then have "\<not> sint (of_nat ?ms :: i64) < 0" by simp
  then show ?thesis using True u
    by (simp add: remaining_from_wire_def duration_remaining_ms_def Let_def life_left_def from_millis_def MAX_REPLICA_TTL_MS_def min_def)
next
  case False
  then have "life_left now expiry = 60 * 60 * 1000 * 1000000" by (simp add: life_left_def)
  moreover have "remaining_from_wire (duration_remaining_ms expiry now) = 60 * 60 * 1000"
    using False by (simp add: remaining_from_wire_def duration_remaining_ms_def Let_def MAX_REPLICA_TTL_MS_def)
  ultimately show ?thesis by (simp add: from_millis_def)
qed

lemma virtual_pos_fits: "w \<le> MAX_REPLICA_VIRTUAL_POS \<Longrightarrow> min w MAX_REPLICA_VIRTUAL_POS = w"
  by (simp add: min_def)

lemma virtual_pos_room: "min w MAX_REPLICA_VIRTUAL_POS < -1"
proof -
  have "MAX_REPLICA_VIRTUAL_POS < -1" by (simp add: MAX_REPLICA_VIRTUAL_POS_def word_less_def uint_div unsigned_minus_1_eq_mask mask_eq_exp_minus_1)
  then show ?thesis by (rule le_less_trans [OF min.cobounded2])
qed

text \<open>C18: A replica carries the record. What a coordinator replicates at one instant and another decodes at a later one, or
  at an earlier one of its own clock, is the record itself, except that every booking and the cached number of nodes live
  on for what was left of their time when it was sent, in whole milliseconds and at most an hour; it is sound when the
  original is. This holds for records of at most 4096 bookings whose virtual positions are below the cap. And whatever a
  peer sends, a decoded replica holds at most 4096 bookings, leaves room for virtual positions, and nothing in it lives
  longer than an hour.\<close>

theorem replica_carries_record:
  assumes "memory_ok g m" "length (gm_reserve_list m) \<le> MAX_REPLICA_BOOKINGS" "gm_max_virtual_pos m \<le> MAX_REPLICA_VIRTUAL_POS"
  shows "let m' = gnode_memory_from_wire now' (gnode_memory_to_wire now m) in
     memory_ok g m' \<and>
     m' = m\<lparr>gm_reserve_list := map (\<lambda>b. b\<lparr>bk_expires_at := now' + life_left now (bk_expires_at b)\<rparr>) (gm_reserve_list m),
            gm_n_nodes := map_option (\<lambda>(k, e). (k, now' + life_left now e)) (gm_n_nodes m)\<rparr> \<and>
     (\<forall>w. let r = gnode_memory_from_wire now' w in
        length (gm_reserve_list r) \<le> 4096 \<and> gm_max_virtual_pos r < -1 \<and>
        (\<forall>b \<in> set (gm_reserve_list r). bk_expires_at b \<le> now' + from_millis 3600000) \<and>
        (\<forall>k e. gm_n_nodes r = Some (k, e) \<longrightarrow> e \<le> now' + from_millis 3600000))"
proof -
  let ?f = "\<lambda>b. booking_from_wire now' (booking_to_wire now b)" and ?m' = "gnode_memory_from_wire now' (gnode_memory_to_wire now m)"
  have f: "?f b = b\<lparr>bk_expires_at := now' + life_left now (bk_expires_at b)\<rparr>" for b
    by (simp add: booking_from_wire_def booking_to_wire_def remaining_exact)
  have exact: "?m' = m\<lparr>gm_reserve_list := map (\<lambda>b. b\<lparr>bk_expires_at := now' + life_left now (bk_expires_at b)\<rparr>) (gm_reserve_list m),
            gm_n_nodes := map_option (\<lambda>(k, e). (k, now' + life_left now e)) (gm_n_nodes m)\<rparr>"
    using assms(2,3) f by (cases "gm_n_nodes m") (auto simp: gnode_memory_from_wire_def gnode_memory_to_wire_def virtual_pos_fits remaining_exact comp_def)
  have "memory_ok g ?m'" unfolding exact using assms(1) by (simp add: memory_ok_def comp_def)
  moreover have "length (gm_reserve_list (gnode_memory_from_wire now' w)) \<le> 4096" "gm_max_virtual_pos (gnode_memory_from_wire now' w) < -1"
    "\<forall>b \<in> set (gm_reserve_list (gnode_memory_from_wire now' w)). bk_expires_at b \<le> now' + from_millis 3600000"
    "\<forall>k e. gm_n_nodes (gnode_memory_from_wire now' w) = Some (k, e) \<longrightarrow> e \<le> now' + from_millis 3600000" for w
    by (auto simp: gnode_memory_from_wire_def MAX_REPLICA_BOOKINGS_def virtual_pos_room booking_from_wire_def from_millis_def
        remaining_from_wire_def MAX_REPLICA_TTL_MS_def)
  ultimately show ?thesis using exact unfolding Let_def by blast
qed

text \<open>A record with a booking that has five seconds and half a millisecond left and a node count that has a day.\<close>

definition sample_record :: gnode_memory where
  "sample_record = (gnode_memory_fresh 4)\<lparr>gm_reserve_list := [\<lparr>bk_reserve_request_id = 7, bk_new_pos = 2, bk_new_eldership = 1, bk_expires_at = 5000500003\<rparr>],
     gm_max_eldership := 1, gm_n_nodes := Some (9, 3 + from_millis 86400000)\<rparr>"

theorem replica_carries_record_witness:
  "let m' = gnode_memory_from_wire 5 (gnode_memory_to_wire 3 sample_record) in
     map bk_expires_at (gm_reserve_list m') = [5 + from_millis 5000] \<and> gm_n_nodes m' = Some (9, 5 + from_millis 3600000) \<and> memory_ok 4 m'"
proof -
  have m: "memory_ok 4 sample_record" by (simp add: memory_ok_def sample_record_def gnode_memory_fresh_def)
  have room: "length (gm_reserve_list sample_record) \<le> MAX_REPLICA_BOOKINGS" "gm_max_virtual_pos sample_record \<le> MAX_REPLICA_VIRTUAL_POS"
    by (simp_all add: sample_record_def gnode_memory_fresh_def MAX_REPLICA_BOOKINGS_def MAX_REPLICA_VIRTUAL_POS_def word_le_def uint_div
        unsigned_minus_1_eq_mask mask_eq_exp_minus_1)
  note c = replica_carries_record [OF m room, of 5 3, unfolded Let_def]
  have "gnode_memory_from_wire 5 (gnode_memory_to_wire 3 sample_record) =
     sample_record\<lparr>gm_reserve_list := map (\<lambda>b. b\<lparr>bk_expires_at := 5 + life_left 3 (bk_expires_at b)\<rparr>) (gm_reserve_list sample_record),
       gm_n_nodes := map_option (\<lambda>(k, e). (k, 5 + life_left 3 e)) (gm_n_nodes sample_record)\<rparr>"
    using c by blast
  moreover have "memory_ok 4 (gnode_memory_from_wire 5 (gnode_memory_to_wire 3 sample_record))" using c by blast
  ultimately show ?thesis by (simp add: Let_def) (simp add: sample_record_def gnode_memory_fresh_def life_left_def from_millis_def)
qed

subsection \<open>Requests over the wire\<close>

fun body_top :: "request_body \<Rightarrow> usize option" where
  "body_top ReqNumberOfNodes = None"
| "body_top (ReqEvaluateEnter tp _) = Some tp"
| "body_top (ReqBeginEnter tp _) = Some tp"
| "body_top (ReqCompletedEnter tp _) = Some tp"
| "body_top (ReqAbortEnter tp _) = Some tp"
| "body_top (ReqGetHookingMemory tp) = Some tp"
| "body_top (ReqSetHookingMemory tp _) = Some tp"
| "body_top (ReqReserveEnter tp _) = Some tp"
| "body_top (ReqDeleteReserveEnter tp _) = Some tp"
| "body_top (ReqReplica tp _) = Some tp"

fun arrives_as :: "instant \<Rightarrow> instant \<Rightarrow> request_body \<Rightarrow> request_body" where
  "arrives_as now now' (ReqReplica tp m) = ReqReplica tp (gnode_memory_from_wire now' (gnode_memory_to_wire now m))"
| "arrives_as now now' body = body"

definition top_valid :: "usize \<Rightarrow> request_body \<Rightarrow> bool" where
  "top_valid levels body \<longleftrightarrow> pred_option (\<lambda>tp. 1 \<le> tp \<and> tp \<le> levels) (body_top body)"

lemma top_fits: "tp \<le> levels \<Longrightarrow> levels < 2 ^ 32 \<Longrightarrow> unat (of_nat tp :: u32) = tp"
  by (simp add: unat_of_nat)

lemma request_from_wire_roundtrip:
  assumes "top_valid levels body" "levels < 2 ^ 32"
  shows "request_from_wire now' levels (request_to_wire now body) = Ok (arrives_as now now' body)"
  using assms by (cases body) (auto simp: top_valid_def validate_top_def with_data_def top_fits not_le)

lemma request_from_wire_valid:
  "request_from_wire now levels w \<noteq> Panic"
  "request_from_wire now levels w = Ok body \<Longrightarrow> top_valid levels body"
proof -
  have top: "validate_top tp levels \<noteq> Panic" "validate_top tp levels = Ok x \<Longrightarrow> 1 \<le> x \<and> x \<le> levels" for tp x
    by (auto simp: validate_top_def split: if_splits)
  show "request_from_wire now levels w \<noteq> Panic" by (cases w) (simp_all add: with_data_def res_simps top)
  show "top_valid levels body" if "request_from_wire now levels w = Ok body"
    using that by (cases w) (auto simp: with_data_def res_simps top_valid_def dest: top(2))
qed

lemma unpack_request_roundtrip:
  assumes "prost_ok_on (enc_request pb) (dec_request pb) (Some (request_to_wire now body))" "top_valid levels body" "levels < 2 ^ 32"
  shows "unpack_request pb now' levels (pack_request pb now body) = Ok (arrives_as now now' body)"
  using assms by (simp add: unpack_request_def pack_request_def from_typed_value_roundtrip request_from_wire_roundtrip)

lemma unpack_request_valid:
  assumes "\<And>b. dec_request pb b \<noteq> Panic"
  shows "unpack_request pb now levels tv \<noteq> Panic" "unpack_request pb now levels tv = Ok body \<Longrightarrow> top_valid levels body"
  using assms by (auto simp: unpack_request_def res_simps from_typed_value_def request_from_wire_valid dest: request_from_wire_valid(2))

lemma response_roundtrip:
  "prost_ok_on (enc_response pb) (dec_response pb) (Some (response_to_wire body)) \<Longrightarrow> unpack_response pb (pack_response pb body) = Ok body"
  by (cases body) (simp_all add: unpack_response_def pack_response_def from_typed_value_roundtrip data_or_def)

subsection \<open>Serving\<close>

lemma dom_modify [simp]: "dom (map_of (bt_modify k f m)) = dom (map_of m)"
  by (simp add: dom_map_of_conv_image_fst set_map [symmetric] del: set_map)

fun cmd_top :: "coord_cmd \<Rightarrow> usize option" where
  "cmd_top (CmdApplyReplica tp m) = Some tp"
| "cmd_top _ = None"

lemma handle_levels:
  assumes "bt_wf (co_memory s)" "\<And>tp. cmd_top c = Some tp \<Longrightarrow> tp \<in> dom (map_of (co_memory s))"
  shows "bt_wf (co_memory (snd (coord_handle cm now c s))) \<and> dom (map_of (co_memory (snd (coord_handle cm now c s)))) = dom (map_of (co_memory s)) \<and>
     co_topology (snd (coord_handle cm now c s)) = co_topology s"
proof (cases c)
  case CmdNumberOfNodes
  then show ?thesis using assms(1)
    by (auto simp: number_of_nodes_def publish_memory_def Let_def split: option.splits prod.splits)
next
  case (CmdReserveEnter tp i)
  then show ?thesis using assms(1) by (auto simp: reserve_enter_def announce_fields split: option.splits res.splits prod.splits)
next
  case (CmdApplyReplica tp m)
  then have "tp \<in> dom (map_of (co_memory s))" using assms(2) by simp
  then show ?thesis using assms(1) CmdApplyReplica by (simp add: apply_replica_def publish_memory_def bt.wf_insert bt.get_insert insert_absorb)
qed (use assms(1) in \<open>auto simp: delete_reserve_enter_def set_hooking_memory_def announce_fields check_propagation_def invalidate_n_nodes_def publish_memory_def Let_def\<close>)

lemma call_levels:
  assumes "bt_wf (co_memory (ca_state a))" "\<And>tp. cmd_top c = Some tp \<Longrightarrow> tp \<in> dom (map_of (co_memory (ca_state a)))" "call_coord n c a = (rep, a')"
  shows "dom (map_of (co_memory (ca_state a'))) = dom (map_of (co_memory (ca_state a)))" "co_topology (ca_state a') = co_topology (ca_state a)"
proof -
  have "a' = a \<or> ca_state a' = snd (coord_handle (cn_map n) (cn_now n) c (ca_state a))"
    using assms(3) by (auto simp: call_coord_def split: if_splits prod.splits res.splits)
  then show "dom (map_of (co_memory (ca_state a'))) = dom (map_of (co_memory (ca_state a)))" "co_topology (ca_state a') = co_topology (ca_state a)"
    using handle_levels [OF assms(1,2)] by (metis, metis)
qed

text \<open>The one thing that stops an actor whose database has all its levels: a reservation with an exhausted counter.\<close>

definition exhausted :: "coord_state \<Rightarrow> usize \<Rightarrow> bool" where
  "exhausted s tp \<longleftrightarrow> (\<exists>m. map_of (co_memory s) tp = Some m \<and> (gm_max_virtual_pos m = -1 \<or> gm_max_eldership m = -1))"

lemma reserve_in_survives: "gm_max_virtual_pos m \<noteq> -1 \<Longrightarrow> gm_max_eldership m \<noteq> -1 \<Longrightarrow> reserve_in free i now ttl m \<noteq> Panic"
  by (simp add: reserve_in_def book_new_def pick_position_def purge_bookings_def Let_def res_simps split: option.splits)

lemma handle_survives:
  assumes "{1..topology_levels (co_topology s)} \<subseteq> dom (map_of (co_memory s))" "1 \<le> topology_levels (co_topology s)"
    "\<forall>tp i. c = CmdReserveEnter tp i \<longrightarrow> \<not> exhausted s tp"
  shows "\<exists>reply s'. coord_handle cm now c s = (Ok reply, s')"
proof (cases c)
  case CmdNumberOfNodes
  obtain m where "map_of (co_memory s) (topology_levels (co_topology s)) = Some m"
    using subsetD [OF assms(1), of "topology_levels (co_topology s)"] assms(2) by auto
  then show ?thesis using CmdNumberOfNodes by (auto simp: number_of_nodes_def Let_def split: option.splits prod.splits)
next
  case (CmdReserveEnter tp i)
  have "fst (reserve_enter cm now tp i s) \<noteq> Panic"
  proof (cases "tp < 1 \<or> topology_levels (co_topology s) < tp")
    case False
    then obtain m where m: "map_of (co_memory s) tp = Some m" using subsetD [OF assms(1), of tp] by auto
    then have "gm_max_virtual_pos m \<noteq> -1" "gm_max_eldership m \<noteq> -1" using assms(3) CmdReserveEnter by (simp_all add: exhausted_def)
    from reserve_in_survives [OF this] show ?thesis using False m by (auto simp: reserve_enter_def split: res.splits prod.splits)
  qed (simp add: reserve_enter_def)
  then show ?thesis using CmdReserveEnter by (cases "reserve_enter cm now tp i s"; cases "fst (reserve_enter cm now tp i s)") auto
qed (auto simp: Let_def split: prod.splits)

lemma call_survives:
  assumes "{1..topology_levels (co_topology (ca_state a))} \<subseteq> dom (map_of (co_memory (ca_state a)))"
    "1 \<le> topology_levels (co_topology (ca_state a))" "\<forall>tp i. c = CmdReserveEnter tp i \<longrightarrow> \<not> exhausted (ca_state a) tp" "call_coord n c a = (rep, a')"
  shows "ca_running a' = ca_running a" "\<not> ca_running a \<Longrightarrow> a' = a"
proof -
  obtain reply s' where "coord_handle (cn_map n) (cn_now n) c (ca_state a) = (Ok reply, s')" using handle_survives [OF assms(1-3)] by blast
  then show "ca_running a' = ca_running a" "\<not> ca_running a \<Longrightarrow> a' = a" using assms(4) by (auto simp: call_coord_def split: if_splits)
qed

lemma spawn_replicate_target:
  "(x, req) \<in> set (spawn_replicate n tp a) \<Longrightarrow> wf_tuple_node (co_topology (ca_state a)) x \<and> tn_top x = tp"
proof -
  assume "(x, req) \<in> set (spawn_replicate n tp a)"
  then have "tuple_node_new (co_topology (ca_state a)) (replicate tp 0) = Ok x"
    by (auto simp: spawn_replicate_def Let_def split: option.splits if_splits res.splits)
  then show ?thesis by (auto simp: tuple_node_new_Ok wf_tuple_node_def tn_top_def)
qed

text \<open>The command a request makes the service send to the actor.\<close>

fun body_cmd :: "request_body \<Rightarrow> coord_cmd option" where
  "body_cmd ReqNumberOfNodes = Some CmdNumberOfNodes"
| "body_cmd (ReqGetHookingMemory tp) = Some (CmdGetHookingMemory tp)"
| "body_cmd (ReqSetHookingMemory tp d) = Some (CmdSetHookingMemory tp d)"
| "body_cmd (ReqReserveEnter tp i) = Some (CmdReserveEnter tp i)"
| "body_cmd (ReqDeleteReserveEnter tp i) = Some (CmdDeleteReserveEnter tp i)"
| "body_cmd (ReqReplica tp m) = Some (CmdApplyReplica tp m)"
| "body_cmd _ = None"

lemma serve_body_calls:
  assumes "serve_body n client body a = (r, a')"
  shows "r \<noteq> Panic" "\<And>rsp reps. r = Ok (rsp, reps) \<Longrightarrow> reps = [] \<or> (\<exists>tp. reps = spawn_replicate n tp a')"
    "case body_cmd body of None \<Rightarrow> a' = a | Some c \<Rightarrow> snd (call_coord n c a) = a'"
proof -
  have "r \<noteq> Panic \<and> (\<forall>rsp reps. r = Ok (rsp, reps) \<longrightarrow> reps = [] \<or> (\<exists>tp. reps = spawn_replicate n tp a')) \<and>
    (case body_cmd body of None \<Rightarrow> a' = a | Some c \<Rightarrow> snd (call_coord n c a) = a')"
    using assms
    by (cases body) (auto simp: set_hooking_memory_locally_def split: prod.splits option.splits coord_reply.splits sum.splits)
  then show "r \<noteq> Panic" "\<And>rsp reps. r = Ok (rsp, reps) \<Longrightarrow> reps = [] \<or> (\<exists>tp. reps = spawn_replicate n tp a')"
    "case body_cmd body of None \<Rightarrow> a' = a | Some c \<Rightarrow> snd (call_coord n c a) = a'"
    by blast+
qed

lemma serve_body_safe:
  assumes "bt_wf (co_memory (ca_state a))"
    "{1..topology_levels (co_topology (ca_state a))} \<subseteq> dom (map_of (co_memory (ca_state a)))"
    "1 \<le> topology_levels (co_topology (ca_state a))" "top_valid (topology_levels (co_topology (ca_state a))) body" "serve_body n client body a = (r, a')"
  shows "dom (map_of (co_memory (ca_state a'))) = dom (map_of (co_memory (ca_state a)))" "co_topology (ca_state a') = co_topology (ca_state a)"
    "\<And>rsp reps x req. r = Ok (rsp, reps) \<Longrightarrow> (x, req) \<in> set reps \<Longrightarrow> wf_tuple_node (co_topology (ca_state a)) x"
    "ca_running a' = ca_running a \<or> (\<exists>tp i. body = ReqReserveEnter tp i \<and> exhausted (ca_state a) tp)" "\<not> ca_running a \<Longrightarrow> a' = a"
proof -
  note calls = serve_body_calls [OF assms(5)]
  have lv: "dom (map_of (co_memory (ca_state a'))) = dom (map_of (co_memory (ca_state a))) \<and> co_topology (ca_state a') = co_topology (ca_state a)"
  proof (cases "body_cmd body")
    case (Some c)
    then obtain rep where c: "call_coord n c a = (rep, a')" using calls(3) by (cases "call_coord n c a") simp
    have "tp \<in> {1..topology_levels (co_topology (ca_state a))}" if "cmd_top c = Some tp" for tp
      using assms(4) that Some by (cases body) (auto simp: top_valid_def)
    then have "tp \<in> dom (map_of (co_memory (ca_state a)))" if "cmd_top c = Some tp" for tp using assms(2) that by blast
    from call_levels [OF assms(1) this c] show ?thesis by simp
  qed (use calls(3) in simp)
  then show "dom (map_of (co_memory (ca_state a'))) = dom (map_of (co_memory (ca_state a)))" "co_topology (ca_state a') = co_topology (ca_state a)" by simp_all
  show "wf_tuple_node (co_topology (ca_state a)) x" if "r = Ok (rsp, reps)" "(x, req) \<in> set reps" for rsp reps x req
    using calls(2) [OF that(1)] that(2) spawn_replicate_target [of x req n _ a'] lv by auto
  show "ca_running a' = ca_running a \<or> (\<exists>tp i. body = ReqReserveEnter tp i \<and> exhausted (ca_state a) tp)"
  proof (cases "\<exists>tp i. body = ReqReserveEnter tp i \<and> exhausted (ca_state a) tp")
    case False
    show ?thesis
    proof (cases "body_cmd body")
      case (Some c)
      then obtain rep where c: "call_coord n c a = (rep, a')" using calls(3) by (cases "call_coord n c a") simp
      have "\<forall>tp i. c = CmdReserveEnter tp i \<longrightarrow> \<not> exhausted (ca_state a) tp" using Some False by (cases body) auto
      from call_survives(1) [OF assms(2,3) this c] show ?thesis by simp
    qed (use calls(3) in simp)
  qed simp
  show "a' = a" if "\<not> ca_running a"
    using calls(3) that by (cases "body_cmd body") (auto simp: call_coord_def)
qed

text \<open>C17: The service survives any request. Whatever bytes a peer sends, the task that serves them never panics; a request
  that does not decode, or that names a level outside the topology, is refused and changes nothing; the database keeps
  exactly its levels; every replication a request starts goes to a well-formed target of the topology; and the actor
  behind the service keeps running, unless the request is a reservation at a level whose counter of virtual positions or
  of elderships is exhausted, which stops it (\<open>crafted_replica_stops_actor\<close>). A stopped actor changes nothing any more.\<close>

theorem coord_exec_safe:
  assumes "\<And>b. dec_request (cn_pb n) b \<noteq> Panic" "wf_topology (co_topology (ca_state a))" "database_ok (co_topology (ca_state a)) (co_memory (ca_state a))"
    "coord_exec n request client a = (r, a')"
  shows "r \<noteq> Panic \<and> dom (map_of (co_memory (ca_state a'))) = {1..topology_levels (co_topology (ca_state a))} \<and>
     (\<forall>e. unpack_request (cn_pb n) (cn_now n) (topology_levels (co_topology (ca_state a))) request = Err e \<longrightarrow>
        r = Err (coord_malformed (cn_text n e)) \<and> a' = a) \<and>
     (\<forall>tv reps x req. r = Ok (tv, reps) \<longrightarrow> (x, req) \<in> set reps \<longrightarrow> wf_tuple_node (co_topology (ca_state a)) x) \<and>
     (if ca_running a
      then ca_running a' \<or> (\<exists>tp i. unpack_request (cn_pb n) (cn_now n) (topology_levels (co_topology (ca_state a))) request = Ok (ReqReserveEnter tp i) \<and>
             exhausted (ca_state a) tp)
      else a' = a)"
proof -
  let ?s = "ca_state a" let ?L = "topology_levels (co_topology ?s)"
  have "map_of (co_memory ?s) tp \<noteq> None \<longleftrightarrow> tp \<in> {1..?L}" for tp
    using assms(3) unfolding database_ok_def by (metis atLeastAtMost_iff not_less)
  then have dom: "dom (map_of (co_memory ?s)) = {1..?L}" by (auto simp: dom_def)
  show ?thesis
  proof (cases "unpack_request (cn_pb n) (cn_now n) ?L request")
    case (Ok body)
    obtain r0 a0 where b: "serve_body n client body a = (r0, a0)" by fastforce
    have wf: "bt_wf (co_memory ?s)" using assms(3) by (simp add: database_ok_def)
    have all: "{1..?L} \<subseteq> dom (map_of (co_memory ?s))" using dom by simp
    have "1 \<le> ?L" using assms(2) by (cases "gsizes (co_topology ?s)") (auto simp: wf_topology_def topology_levels_def)
    note safe = serve_body_safe [OF wf all this unpack_request_valid(2) [OF assms(1) Ok] b]
    have r: "a' = a0" "r \<noteq> Panic" "\<And>tv reps. r = Ok (tv, reps) \<Longrightarrow> \<exists>rsp. r0 = Ok (rsp, reps)"
      using assms(4) Ok b serve_body_calls(1) [OF b] by (auto simp: coord_exec_def split: res.splits prod.splits)
    have "wf_tuple_node (co_topology ?s) x" if "r = Ok (tv, reps)" "(x, req) \<in> set reps" for tv reps x req
      using r(3) [OF that(1)] safe(3) that(2) by blast
    then show ?thesis using safe(1,4,5) dom Ok r(1,2) by auto
  next
    case (Err e)
    then show ?thesis using assms(4) dom by (auto simp: coord_exec_def)
  next
    case Panic
    then show ?thesis using unpack_request_valid(1) [OF assms(1)] by simp
  qed
qed

subsection \<open>A reservation through the network\<close>

text \<open>What the network promises: the g-node that a call for a target elects answers with the service of the node closest to
  the target in it. \<open>owner\<close> is that node for each target and exclusion, with its actor, if there is one; how the request
  gets there and back, round by round, is the outside of \<open>contact_peer\<close>.\<close>

definition network_serves ::
  "coord_client \<Rightarrow> (tuple_node \<Rightarrow> usize option \<Rightarrow> tuple_gnode list \<Rightarrow> (coord_node \<times> coord_actor) option) \<Rightarrow> u32 list \<Rightarrow> bool" where
  "network_serves cc owner client \<longleftrightarrow> (\<forall>x g ex n a req timeout tv reps a'. owner x g ex = Some (n, a) \<longrightarrow>
     coord_exec n req client a = (Ok (tv, reps), a') \<longrightarrow>
     timeout \<in> {write_timeout (cc_config cc), hooking_timeout (cc_config cc), read_timeout (cc_config cc)} \<longrightarrow>
     answers (contact_args cc x req timeout g ex) (cc_outside cc x req g ex 1) tv)"

definition zero_target :: "topology \<Rightarrow> usize \<Rightarrow> tuple_node" where
  "zero_target t tp = \<lparr>tn_topology = t, tn_pos = replicate tp 0\<rparr>"

lemma zero_target_new:
  assumes "wf_topology t" "1 \<le> tp" "tp \<le> topology_levels t"
  shows "tuple_node_new t (replicate tp 0) = Ok (zero_target t tp)"
proof -
  have "0 < gsizes t ! l" if "l < tp" for l
  proof -
    have "gsizes t ! l \<in> set (gsizes t)" using assms(3) that by (simp add: topology_levels_def)
    then have "gsizes t ! l \<noteq> 0" using assms(1) by (auto simp: wf_topology_def)
    then show ?thesis by (simp add: word_gt_0)
  qed
  then show ?thesis using assms(2,3) by (auto simp: tuple_node_new_Ok zero_target_def in_ranges_def topology_levels_def)
qed

lemma exec_reserve:
  assumes "prost_ok_on (enc_request (cn_pb n)) (dec_request (cn_pb n)) (Some (WReserveEnter (of_nat tp) i))"
    "1 \<le> tp" "tp \<le> topology_levels (co_topology s)" "topology_levels (co_topology s) < 2 ^ 32"
    "reserve_enter (cn_map n) (cn_now n) tp i s = (d, s')" "d \<noteq> Panic"
  defines "a' \<equiv> \<lparr>ca_running = True, ca_state = s'\<rparr>"
  shows "coord_exec n (pack_request (cn_pb n) now (ReqReserveEnter tp i)) client \<lparr>ca_running = True, ca_state = s\<rparr> =
     (Ok (pack_response (cn_pb n) (RspReserveEnter (case d of Ok r \<Rightarrow> Some r | _ \<Rightarrow> None)), case d of Ok r \<Rightarrow> spawn_replicate n tp a' | _ \<Rightarrow> []), a')"
proof -
  have "unpack_request (cn_pb n) (cn_now n) (topology_levels (co_topology s)) (pack_request (cn_pb n) now (ReqReserveEnter tp i)) = Ok (ReqReserveEnter tp i)"
    using unpack_request_roundtrip [of "cn_pb n" now "ReqReserveEnter tp i"] assms(1-4) by (simp add: top_valid_def)
  then show ?thesis using assms(5,6) by (cases d) (simp_all add: coord_exec_def call_coord_def a'_def)
qed

lemma zero_target_wf:
  assumes "wf_topology t" "1 \<le> tp" "tp \<le> topology_levels t"
  shows "wf_tuple_node t (zero_target t tp)"
  using zero_target_new [OF assms] by (auto simp: tuple_node_new_Ok wf_tuple_node_def)

lemma replicated_grant:
  assumes "wf_topology t" "co_topology s = t" "1 \<le> tp" "tp \<le> topology_levels t" "reserve_enter cm now tp i s = (Ok r, s')"
  shows "\<exists>m. map_of (co_memory s') tp = Some m \<and> spawn_replicate n tp \<lparr>ca_running = True, ca_state = s'\<rparr> =
      [(zero_target t tp, pack_request (cn_pb n) (cn_now n) (ReqReplica tp m))]"
proof -
  obtain m m' where m: "map_of (co_memory s) tp = Some m" "s' = announce (Reserved tp r) (s\<lparr>co_memory := bt_modify tp (\<lambda>_. m') (co_memory s)\<rparr>)"
    using assms(5) by (rule reserve_enter_Ok) blast
  then have "map_of (co_snapshot s') tp = Some m'" "map_of (co_memory s') tp = Some m'" "co_topology s' = t"
    using assms(2) by (simp_all add: announce_fields map_of_bt_modify)
  then show ?thesis using zero_target_new [OF assms(1,3,4)] assms(3,4) by (simp add: spawn_replicate_def Let_def)
qed

text \<open>C16: A reservation through the network is the decision of the node that the key of its level elects. A node asks for a
  level of the topology, leaving out the g-nodes it knows to be foreign. If the network answers a call of
  \<open>contact_peer\<close> for a target from the node that owns the target, the node's client learns the position and
  eldership granted by the running actor of the node that owns the key \<open>[0, \<dots>, 0]\<close> of that level, or that it cannot
  reserve; and a grant starts one replication, of the record that holds it, to the same key.\<close>

theorem reserve_over_network:
  assumes "wf_my_pos t (cc_my_pos cc)" "dist_fits t tp" "list_all (wf_tuple_gnode t) ex" "0 < max_contact_peer_hops (cc_peers_config cc)"
    "cc_topology cc = t" "co_topology s = t" "topology_levels t < 2 ^ 32" "1 \<le> tp" "tp \<le> topology_levels t"
    "network_serves cc owner client" "owner (zero_target t tp) None ex = Some (n, \<lparr>ca_running = True, ca_state = s\<rparr>)" "cc_pb cc = cn_pb n"
    "reserve_enter (cn_map n) (cn_now n) tp i s = (d, s')" "d \<noteq> Panic"
    "prost_ok_on (enc_request (cn_pb n)) (dec_request (cn_pb n)) (Some (WReserveEnter (of_nat tp) i))"
    "prost_ok_on (enc_response (cn_pb n)) (dec_response (cn_pb n)) (Some (WRReserveEnter (case d of Ok r \<Rightarrow> Some r | _ \<Rightarrow> None)))"
  shows "client_reserve cc tp i ex = Some (Ok (case d of Ok r \<Rightarrow> Some r | _ \<Rightarrow> None)) \<and>
     (\<exists>tv reps. coord_exec n (pack_request (cn_pb n) (cc_now cc) (ReqReserveEnter tp i)) client \<lparr>ca_running = True, ca_state = s\<rparr> =
          (Ok (tv, reps), \<lparr>ca_running = True, ca_state = s'\<rparr>) \<and>
        (is_Ok d \<longrightarrow> (\<exists>m. map_of (co_memory s') tp = Some m \<and>
           reps = [(zero_target t tp, pack_request (cn_pb n) (cn_now n) (ReqReplica tp m))])))"
proof -
  let ?out = "case d of Ok r \<Rightarrow> Some r | _ \<Rightarrow> None" let ?req = "pack_request (cn_pb n) (cc_now cc) (ReqReserveEnter tp i)"
  let ?cp = "contact_args cc (zero_target t tp) ?req (write_timeout (cc_config cc)) None ex"
  have top: "wf_topology t" using assms(1) by (simp add: wf_my_pos_def)
  note exec = exec_reserve [OF assms(15,8) _ _ assms(13,14), of "cc_now cc" client, unfolded assms(6), OF assms(9,7)]
  have target: "target_for cc tp = Ok (zero_target t tp)"
    using zero_target_new [OF top assms(8,9)] assms(5,8,9) by (simp add: target_for_def)
  have "target_levels ?cp = tp" by (simp add: contact_args_def target_levels_def zero_target_def tn_top_def)
  then have ok: "contact_ok ?cp" "0 < max_contact_peer_hops (cp_config ?cp)"
    using assms(1-5) zero_target_wf [OF top assms(8,9)] by (simp_all add: contact_ok_def) (simp_all add: contact_args_def)
  have "answers ?cp (cc_outside cc (zero_target t tp) ?req None ex 1) (pack_response (cn_pb n) (RspReserveEnter ?out))"
    using assms(10,11) exec unfolding network_serves_def by blast
  then obtain sent m where "contact_peer ?cp (cc_outside cc (zero_target t tp) ?req None ex) = Some (Ok (sent, Found (pack_response (cn_pb n) (RspReserveEnter ?out)) m))"
    using answers_found [OF ok] by blast
  moreover have "unpack_response (cn_pb n) (pack_response (cn_pb n) (RspReserveEnter ?out)) = Ok (RspReserveEnter ?out)"
    using assms(16) by (intro response_roundtrip) simp
  ultimately have client: "client_reserve cc tp i ex = Some (Ok ?out)"
    by (simp add: client_reserve_def client_call_def round_trip_def target assms(12) expected_def Let_def)
  show ?thesis
  proof (cases d)
    case (Ok r)
    then show ?thesis using client exec replicated_grant [OF top assms(6,8,9), of "cn_map n" "cn_now n" i r s' n] assms(13) by auto
  qed (use client exec assms(14) in auto)
qed

definition sample_coord_pb :: coord_protobuf where
  "sample_coord_pb = \<lparr>enc_tuple = (\<lambda>_. []), dec_tuple = (\<lambda>_. Ok []), enc_request = (\<lambda>_. []), dec_request = (\<lambda>_. Ok (Some (WReserveEnter 1 7))),
     enc_response = (\<lambda>_. []), dec_response = (\<lambda>_. Ok (Some (WRReserveEnter (Some \<lparr>rs_new_pos = 2, rs_new_eldership = 1\<rparr>))))\<rparr>"

definition sample_coord_node :: coord_node where
  "sample_coord_node = \<lparr>cn_pb = sample_coord_pb, cn_now = 10, cn_map = sample_map, cn_text = (\<lambda>_. []), cn_evaluate_enter = (\<lambda>_ d _. d),
     cn_begin_enter = (\<lambda>_ d _. d), cn_completed_enter = (\<lambda>_ d _. d), cn_abort_enter = (\<lambda>_ d _. d)\<rparr>"

definition sample_actor :: coord_actor where
  "sample_actor = \<lparr>ca_running = True, ca_state = sample_coord\<rparr>"

text \<open>A node alone in its network: its calls elect it for every target it does not exclude, and its service answers.\<close>

definition sample_outside :: "typed_value_msg \<Rightarrow> attempt" where
  "sample_outside req = \<lparr>at_non_participants = Some [], at_exists = (\<lambda>_. False),
     at_exec_local = (case fst (coord_exec sample_coord_node req [] sample_actor) of Ok (tv, _) \<Rightarrow> Some (Inr tv) | _ \<Rightarrow> Some (Inl RedoFromStart)),
     at_msg_id = Some 5, at_auth = None, at_registered = True, at_relay = he_relay (example_hop (\<lambda>_ _. True)) 0, at_nodes_in_my_group = (\<lambda>_. 1),
     at_events = (\<lambda>_. Silent)\<rparr>"

definition sample_client :: coord_client where
  "sample_client = \<lparr>cc_config = coord_config_default, cc_peers_config = peers_config_default, cc_topology = sample_topology, cc_my_pos = [0],
     cc_pb = sample_coord_pb, cc_now = 9, cc_outside = (\<lambda>_ req _ _ _. sample_outside req)\<rparr>"

definition sample_owner :: "tuple_node \<Rightarrow> usize option \<Rightarrow> tuple_gnode list \<Rightarrow> (coord_node \<times> coord_actor) option" where
  "sample_owner x g ex = (if wf_tuple_node sample_topology x \<and> g = None \<and> ex = [] then Some (sample_coord_node, sample_actor) else None)"

lemma sample_my_pos: "wf_my_pos sample_topology [0]" "n \<le> 1 \<Longrightarrow> dist_fits sample_topology n"
  by (auto simp: wf_my_pos_def wf_topology_def in_ranges_def sample_topology_def dist_fits_def le_Suc_eq)

lemma sample_network_serves: "network_serves sample_client sample_owner []"
  unfolding network_serves_def
proof (intro allI impI)
  fix x g ex n a req timeout tv reps a'
  assume "sample_owner x g ex = Some (n, a)" and exec: "coord_exec n req [] a = (Ok (tv, reps), a')"
  then have o: "wf_tuple_node sample_topology x" "g = None" "ex = []" "n = sample_coord_node" "a = sample_actor"
    by (auto simp: sample_owner_def split: if_splits)
  let ?cp = "contact_args sample_client x req timeout g ex"
  have "tn_top x \<le> 1" using o(1) by (simp add: wf_tuple_node_def in_ranges_def tn_top_def sample_topology_def)
  then have "contact_ok ?cp"
    using o(1,3) sample_my_pos by (simp add: contact_ok_def target_levels_def contact_args_def) (simp add: sample_client_def)
  then obtain s where "elected ?cp (sample_outside req) s (HCoord 0 (cp_my_pos ?cp ! 0))"
    using lonely_elected [of ?cp "sample_outside req"] o(2,3) by (auto simp: contact_args_def sample_outside_def)
  moreover have "at_exec_local (sample_outside req) = Some (Inr tv)" using exec o by (simp add: sample_outside_def)
  ultimately show "answers ?cp (cc_outside sample_client x req g ex 1) tv"
    unfolding answers_def by (auto simp: sample_client_def)
qed

theorem reserve_over_network_witness:
  "client_reserve sample_client 1 7 [] = Some (Ok (Some \<lparr>rs_new_pos = 2, rs_new_eldership = 1\<rparr>))"
proof -
  have t: "co_topology sample_coord = sample_topology" by (simp add: sample_coord_def)
  have levels: "topology_levels sample_topology = 1" by (simp add: sample_topology_def topology_levels_def)
  have "wf_tuple_node sample_topology (zero_target sample_topology 1)"
    using zero_target_new [OF sample_wf(1), of 1] levels by (auto simp: tuple_node_new_Ok wf_tuple_node_def)
  then have owner: "sample_owner (zero_target sample_topology 1) None [] = Some (sample_coord_node, \<lparr>ca_running = True, ca_state = sample_coord\<rparr>)"
    by (simp add: sample_owner_def sample_actor_def)
  have "reserve_enter (cn_map sample_coord_node) (cn_now sample_coord_node) 1 7 sample_coord = (Ok \<lparr>rs_new_pos = 2, rs_new_eldership = 1\<rparr>, sample_reserved)"
    using sample_reserve by (simp add: sample_coord_node_def)
  moreover have my: "wf_my_pos sample_topology (cc_my_pos sample_client)" using sample_my_pos(1) by (simp add: sample_client_def)
  ultimately have "client_reserve sample_client 1 7 [] = Some (Ok (case Ok \<lparr>rs_new_pos = 2, rs_new_eldership = 1\<rparr> of Ok r \<Rightarrow> Some r | _ \<Rightarrow> None))"
    using reserve_over_network [OF my _ _ _ _ t _ _ _ sample_network_serves owner, of 7 "Ok \<lparr>rs_new_pos = 2, rs_new_eldership = 1\<rparr>" sample_reserved]
      levels sample_my_pos(2) by simp (simp add: sample_client_def sample_coord_node_def sample_coord_pb_def prost_ok_on_def peers_config_default_def)
  then show ?thesis by simp
qed

theorem coord_exec_safe_witness:
  "fst (coord_exec sample_coord_node \<lparr>type_tag = ''x'', payload = []\<rparr> [] sample_actor) \<noteq> Panic \<and>
   ca_running (snd (coord_exec sample_coord_node \<lparr>type_tag = TAG_REQUEST, payload = []\<rparr> [] sample_actor))"
proof -
  have db: "wf_topology (co_topology (ca_state sample_actor))" "database_ok (co_topology (ca_state sample_actor)) (co_memory (ca_state sample_actor))"
    using coord_run_inv(1) [OF sample_wf(1,3)] by (simp_all add: coord_inv_def sample_actor_def)
  have dec: "dec_request (cn_pb sample_coord_node) b \<noteq> Panic" for b by (simp add: sample_coord_node_def sample_coord_pb_def)
  have running: "ca_running sample_actor" by (simp add: sample_actor_def)
  have "\<not> exhausted (ca_state sample_actor) tp" for tp
    by (simp add: exhausted_def sample_actor_def sample_coord_def gnode_memory_fresh_def)
  then show ?thesis
    using coord_exec_safe [OF dec db, of \<open>\<lparr>type_tag = ''x'', payload = []\<rparr>\<close> "[]" "fst (coord_exec sample_coord_node \<lparr>type_tag = ''x'', payload = []\<rparr> [] sample_actor)"
        "snd (coord_exec sample_coord_node \<lparr>type_tag = ''x'', payload = []\<rparr> [] sample_actor)"]
      coord_exec_safe [OF dec db, of \<open>\<lparr>type_tag = TAG_REQUEST, payload = []\<rparr>\<close> "[]" "fst (coord_exec sample_coord_node \<lparr>type_tag = TAG_REQUEST, payload = []\<rparr> [] sample_actor)"
        "snd (coord_exec sample_coord_node \<lparr>type_tag = TAG_REQUEST, payload = []\<rparr> [] sample_actor)"] running
    by simp
qed

text \<open>A replica whose eldership counter is at its end, followed by a reservation, stops the actor: later requests are not served.\<close>

lemma crafted_replica_stops_actor:
  defines "a1 \<equiv> snd (serve_body sample_coord_node [] (ReqReplica 1 ((gnode_memory_fresh 4)\<lparr>gm_max_eldership := -1\<rparr>)) sample_actor)"
  shows "\<not> ca_running (snd (serve_body sample_coord_node [] (ReqReserveEnter 1 7) a1))"
    "fst (serve_body sample_coord_node [] ReqNumberOfNodes (snd (serve_body sample_coord_node [] (ReqReserveEnter 1 7) a1))) = Err RedoFromStart"
proof -
  let ?m = "(gnode_memory_fresh 4)\<lparr>gm_max_eldership := -1\<rparr>"
  have a1: "a1 = \<lparr>ca_running = True, ca_state = apply_replica 1 ?m sample_coord\<rparr>"
    by (simp add: a1_def call_coord_def sample_actor_def)
  obtain s' where "reserve_enter sample_map 10 1 7 (apply_replica 1 ?m sample_coord) = (Panic, s')"
    using exhausted_eldership_panics by (metis prod.collapse)
  then have a2: "serve_body sample_coord_node [] (ReqReserveEnter 1 7) a1 = (Err RedoFromStart, \<lparr>ca_running = False, ca_state = s'\<rparr>)"
    by (simp add: a1 call_coord_def sample_coord_node_def)
  then show "\<not> ca_running (snd (serve_body sample_coord_node [] (ReqReserveEnter 1 7) a1))"
    "fst (serve_body sample_coord_node [] ReqNumberOfNodes (snd (serve_body sample_coord_node [] (ReqReserveEnter 1 7) a1))) = Err RedoFromStart"
    by (simp_all add: a2 call_coord_def)
qed

end
