(* ===== verification/Spec2Isabelle.thy ===== *)
theory Spec2Isabelle
  imports Ntk_Naddr_Text Qspn_System Peers_Delivery Andna_Service Coord_Service
begin

text \<open>
  \<^bold>\<open>A verification of netsukuku-rs.\<close> It is a Rust implementation of Netsukuku, a mesh network that routes by itself. Nodes are grouped into
  g-nodes, g-nodes into larger ones, level by level; an address is a list of positions, one per level. This library
  models the crates that decide what the network does and proves what makes them correct. File names below are
  relative to \<open>src/crates\<close>.

  \<^bold>\<open>The parts of the program and how they interact.\<close>
  \<^item> \<open>ntk-common\<close> and \<open>ntk-proto\<close> hold what all others use: topology, addresses, coordinates, costs, fingerprints, the
    conversions to messages, signatures and the replay guard.
  \<^item> \<open>ntk-qspn\<close> is the routing protocol. An actor keeps the map of destinations and paths, revises the messages (ETPs)
    its neighbours send, merges them, and floods what changed. Its map answers the questions of all other parts.
  \<^item> \<open>ntk-peerservices\<close> routes requests by key: a request for a key goes to the node closest to it among those that take
    part in a service. An actor keeps who takes part, which spreads by gossip, and the searches that await an answer.
  \<^item> \<open>ntk-coordinator\<close> is a service on top of it: for each g-node one elected node hands out positions and elderships to
    those that enter, and propagates decisions through the g-node by a flood among neighbours.
  \<^item> \<open>ntk-andna\<close> is the other service: names are registered with a signature at the node closest to their hash, up to a
    limit that another node counts, and resolved there.

  \<^bold>\<open>Shared ground.\<close> \<open>Ntk_Prelude\<close> names the machine integers (\<open>u32\<close>, \<open>i64\<close> and so on, words of their width; \<open>usize\<close> is a
  \<open>nat\<close>), the outcome \<open>res\<close> of fallible code (a value, an error, or a panic, so that every \<open>expect\<close>, index and checked
  operation of the source is a branch), state-passing programs and the lemmas on lists and words. \<open>Ntk_Programs\<close> adds
  the control flow of code with \<open>&mut self\<close>, \<open>Ntk_Maps\<close> the hash map and the ordered map as association lists behind the
  locale \<open>finite_map\<close>. \<open>Ntk_Cost\<close> (\<open>cost.rs\<close>, locale \<open>path_metric\<close>), \<open>Ntk_Topology\<close> (\<open>topology.rs\<close>, \<open>naddr.rs\<close>,
  \<open>hcoord.rs\<close>), \<open>Ntk_Naddr_Text\<close> (their texts, with the round trip of printing and parsing), \<open>Ntk_Fingerprint\<close>
  (\<open>fingerprint.rs\<close>, locale \<open>strict_ranking\<close> for the race of elderships), \<open>Ntk_Domain\<close> (\<open>ntk-proto/src/domain.rs\<close>,
  locale \<open>wire_codec\<close>, which every pair of conversions of the library interprets) and \<open>Ntk_Auth\<close>
  (\<open>ntk-proto/src/auth.rs\<close>) follow the files they name.

  \<^bold>\<open>QSPN.\<close> The records of \<open>Qspn_Path\<close> (\<open>path.rs\<close>) and \<open>Qspn_State\<close> (\<open>state.rs\<close>) are those of the code, with a map from
  positions to destinations per level. Operations follow the code in its order: \<open>Qspn_Validate\<close>, \<open>Qspn_Wire\<close>,
  \<open>Qspn_Revise\<close> for an incoming message, \<open>Qspn_UpdateMap\<close> for \<open>update_map\<close>, phase by phase, \<open>Qspn_Clusters\<close> for
  \<open>update_clusters\<close> and the snapshot, \<open>Qspn_Connectivity\<close> for splits and leaving, \<open>Qspn_Flood\<close> for outgoing messages,
  \<open>Qspn_Arc\<close> for arc identifiers and \<open>Qspn_Config\<close> for the configuration. \<open>wf_state\<close> is the invariant of the state; every
  operation is shown to keep it and to be total on it, and \<open>Qspn_MapLaws\<close> and \<open>Qspn_Forwarded\<close> state what an update of the
  map stores, withdraws and announces. \<open>Qspn_Actor\<close> has every command of \<open>manager.rs\<close>; a spawned task is an effect whose
  command comes back later. \<open>Qspn_ActorState\<close>, \<open>Qspn_ActorLaws\<close> and \<open>Qspn_ActorServe\<close> carry the invariant through each
  handler, once, inside the locale \<open>actor_contract\<close> over a property of paths, interpreted for no property, for loop
  freedom and for real positions; \<open>Qspn_System\<close> has the actor and its environment as an inductive step relation and the
  theorems on all runs: no panic, no loops, messages that other nodes accept.

  \<^bold>\<open>Peer services.\<close> \<open>Peers_Tuple\<close>, \<open>Peers_Distance\<close> and \<open>Peers_Closest\<close> are \<open>tuple.rs\<close> and \<open>hashnode.rs\<close> with the proof that
  the scan elects the closest g-node. \<open>Peers_Participation\<close> and \<open>Peers_Gossip\<close> (\<open>participation.rs\<close>, \<open>gossip.rs\<close>) give a
  participation fact its meaning, a set of addresses; \<open>Peers_State\<close> has the actor with all its commands, \<open>Peers_StateLaws\<close>
  and \<open>Peers_Serve\<close> the invariants of its maps and of its table of searches, \<open>Peers_Spread\<close> the theorems on runs,
  \<open>Peers_Search\<close> the election after the exclusion of non-participants. \<open>Peers_Wire\<close> (\<open>wire.rs\<close>, \<open>handler.rs\<close>) has the
  conversions and the dispatch of inbound calls. \<open>Peers_Routing\<close> (\<open>routing.rs\<close>) has \<open>contact_peer\<close>, \<open>replicate\<close> and
  \<open>forward_msg\<close>; what these tasks await is an argument, the events of an attempt a possibly endless sequence.
  \<open>Peers_RoutingLaws\<close> and \<open>Peers_Delivery\<close> show when they end and what they send.

  \<^bold>\<open>Coordinator.\<close> \<open>Coord_State\<close> has the database of \<open>actor.rs\<close>, one record per level, and every command; \<open>Coord_Laws\<close> its
  invariant; \<open>Coord_Reservations\<close> the theorems on the positions and elderships handed out over a run;
  \<open>Coord_Propagation\<close> the five propagations and the flood they make up in a network with delays, losses and the expiry of
  remembered identifiers; \<open>Coord_Service\<close> the messages, the service with its actor, which a panic stops, the
  replication of records and the client.

  \<^bold>\<open>Andna.\<close> \<open>Andna_Snsd\<close> (\<open>hostname.rs\<close>, \<open>snsd.rs\<close>), \<open>Andna_Record\<close> (\<open>record.rs\<close>, \<open>counter.rs\<close>) and \<open>Andna_Actor\<close> (\<open>actor.rs\<close>)
  have the store of a hash node and its commands, \<open>Andna_Laws\<close> the invariant, \<open>Andna_Guarantees\<close> what holds in every run,
  \<open>Andna_Service\<close> the messages, the two services, and registration and resolution from end to end.

  \<^bold>\<open>What the groups of theorems show.\<close> Totality and invariants: no handler of the QSPN, peer services or Andna actor panics
  in a run, and each keeps its invariant and its bounds; the coordinator's actor stops only on an exhausted counter.
  Functional behaviour: what an ETP changes in the map, in both directions; who is elected for a key; what a reservation
  grants; what a name resolves to. Safety over runs: loop freedom, true participation facts, names that stay with their
  owner, requests and propagations accepted once. Round trips and injectivity: every conversion, signed bytes, replicas.
  Behaviours of the code that its comments deny are lemmas of their own, next to what they qualify.

  \<^bold>\<open>Loops, fuel and bounds.\<close> Loops over data are structural recursion or have a termination proof. The allocation of arc
  identifiers, the receive loop of \<open>contact_peer\<close> and the retry loop of \<open>forward_msg\<close> may not end: they are partial
  functions into \<open>option\<close>, and it is a theorem when they return (fewer than \<open>2 ^ 31 - 1\<close> arcs; events that come to an end;
  a gateway that accepts). \<open>contact_peer\<close>'s rounds are counted by its own bound on hops, so no fuel is invented anywhere.

  \<^bold>\<open>Arguments of the model.\<close> Code outside the repository is an argument, with its documented law as a hypothesis where one
  is needed: BLAKE3, Ed25519, prost's byte encoding, random numbers, the clock, hash map order where it matters. So is
  what a component asks of another behind a trait: the coordinator sees the map through \<open>coordinator_map\<close>, and Andna's
  handle sees the peer services through the trait \<open>AndnaSubstrate\<close>, which promises the answer of the node that owns the
  target. The coordinator's client calls the modelled \<open>contact_peer\<close>; what its rounds receive from the network is an
  argument.

  \<^bold>\<open>Simplifications.\<close> Floating-point numbers of the overlap tolerance are reals. Channels are lists of what was sent;
  a handler runs to its end before the next command, as in the actors. Instants and durations are natural numbers;
  the times of a run's commands do not decrease.

  \<^bold>\<open>Not modelled.\<close> Hooking (\<open>ntk-hooking\<close>), identities and neighbourhood discovery, which drive the modelled parts over
  sockets and timers; the RPC transport, netlink and the daemon, which are I/O and wiring; logging, cancellation and the
  RPC stubs, which only forward calls.
\<close>

end
